(* ===== verification/Mtm_Prelude.thy ===== *)
theory Mtm_Prelude
  imports Main "HOL-Library.Word"
begin

text \<open>
  The vocabulary shared by every component: the fixed-width C types the sources use, the
  size limits of \<open>multimaster.h\<close>, the collections of rewrite rules the component proofs draw
  on, and generic lemmas about bounded scans, options and lists.

  A C loop \<^verbatim>\<open>for (i = 0; i < n; i++)\<close> over node positions is written as a scan over
  \<open>[0..<n]\<close>. A C array of fixed length is a list; an access outside it is an error of the model
  (\<open>nth_opt\<close> gives \<open>None\<close>), never an unspecified value.
\<close>

unbundle bit_operations_syntax

section \<open>Fixed-width types and limits\<close>

type_synonym uint8 = "8 word"
type_synonym uint32 = "32 word"
type_synonym uint64 = "64 word"
type_synonym nodemask_t = "64 word"
type_synonym XLogRecPtr = "64 word"
type_synonym TransactionId = "32 word"

abbreviation MTM_MAX_NODES :: nat where "MTM_MAX_NODES \<equiv> 16"
abbreviation MAX_NODES :: nat where "MAX_NODES \<equiv> 64"

section \<open>Collections\<close>

named_theorems mask_simps \<open>node masks read as sets of bit positions\<close>
named_theorems op_defs \<open>the definitions of the operations of one component\<close>

section \<open>Arrays\<close>

definition nth_opt :: "'a list \<Rightarrow> nat \<Rightarrow> 'a option" where
  "nth_opt xs i = (if i < length xs then Some (xs ! i) else None)"

lemma nth_opt_Some_iff [simp]: "nth_opt xs i = Some x \<longleftrightarrow> i < length xs \<and> xs ! i = x"
  by (auto simp: nth_opt_def)

lemma nth_opt_None_iff [simp]: "nth_opt xs i = None \<longleftrightarrow> length xs \<le> i"
  by (simp add: nth_opt_def)

lemma nth_opt_in_range [simp]: "i < length xs \<Longrightarrow> nth_opt xs i = Some (xs ! i)"
  by simp

section \<open>Lists\<close>

lemma length_filter_less_if:
  "x \<in> set xs \<Longrightarrow> \<not> P x \<Longrightarrow> length (filter P xs) < length xs"
  by (metis length_filter_less)

lemma card_set_distinct_filter:
  "distinct xs \<Longrightarrow> card {x \<in> set xs. P x} = length (filter P xs)"
  by (metis distinct_card distinct_filter set_filter)

lemma list_all_upt: "list_all P [0..<n] \<longleftrightarrow> (\<forall>i<n. P i)"
  by (auto simp: list_all_iff)

lemma list_ex_upt: "list_ex P [0..<n] \<longleftrightarrow> (\<exists>i<n. P i)"
  by (auto simp: list_ex_iff)

lemma find_upt_Some_iff:
  "find P [0..<n] = Some i \<longleftrightarrow> i < n \<and> P i \<and> (\<forall>j<i. \<not> P j)"
  by (auto simp: find_Some_iff)

lemma find_upt_None_iff: "find P [0..<n] = None \<longleftrightarrow> (\<forall>i<n. \<not> P i)"
  by (auto simp: find_None_iff)

section \<open>Invariants of step relations\<close>

text \<open>
  What it takes for a property to hold in every reachable state. The components that are modelled
  by a step relation interpret it with their own invariant.
\<close>

locale inductive_invariant =
  fixes step :: "'s \<Rightarrow> 's \<Rightarrow> bool" and inv :: "'s \<Rightarrow> bool"
  assumes inv_step: "inv s \<Longrightarrow> step s s' \<Longrightarrow> inv s'"
begin

lemma reachable: "step\<^sup>*\<^sup>* s s' \<Longrightarrow> inv s \<Longrightarrow> inv s'"
  by (induction rule: rtranclp_induct) (auto intro: inv_step)

text \<open>A relation between the states of a step that is transitive holds along a run.\<close>

lemma reachable_rel:
  assumes "step\<^sup>*\<^sup>* s s'" and "inv s" and "\<And>a. R a a"
    and "\<And>a b c. R a b \<Longrightarrow> R b c \<Longrightarrow> R a c" and "\<And>a b. inv a \<Longrightarrow> step a b \<Longrightarrow> R a b"
  shows "R s s'"
  using assms(1)
proof (induction rule: rtranclp_induct)
  case (step b c)
  then show ?case using assms(4) [OF step.IH assms(5) [OF reachable [OF step(1) assms(2)] step(2)]] by blast
qed (rule assms(3))

end


text \<open>
  A system implements a specification when every step of it is matched by steps of the
  specification, along a relation between the states of the two.
\<close>

locale forward_simulation = inductive_invariant step inv
  for step :: "'s \<Rightarrow> 's \<Rightarrow> bool" and inv :: "'s \<Rightarrow> bool" +
  fixes cstep :: "'c \<Rightarrow> 'c \<Rightarrow> bool" and rel :: "'c \<Rightarrow> 's \<Rightarrow> bool"
  assumes simulates: "rel c s \<Longrightarrow> inv s \<Longrightarrow> cstep c c' \<Longrightarrow> \<exists>s'. step\<^sup>*\<^sup>* s s' \<and> rel c' s'"
begin

lemma implements:
  assumes "cstep\<^sup>*\<^sup>* c c'" and "rel c s" and "inv s"
  shows "\<exists>s'. step\<^sup>*\<^sup>* s s' \<and> rel c' s' \<and> inv s'"
  using assms(1)
proof (induction rule: rtranclp_induct)
  case base
  show ?case using assms(2,3) by blast
next
  case (step b d)
  then obtain s1 where s1: "step\<^sup>*\<^sup>* s s1" "rel b s1" "inv s1" by blast
  from simulates [OF s1(2,3) step(2)] obtain s2 where "step\<^sup>*\<^sup>* s1 s2" "rel d s2" by blast
  with s1 reachable [of s1 s2] show ?case by (meson rtranclp_trans)
qed

end

end
