(* ===== verification/Nodemask.thy ===== *)
theory Nodemask
  imports Mtm_Prelude
begin

text \<open>
  Node masks: the macros of \<open>src/src/include/multimaster.h\<close> and the helpers of
  \<open>src/src/multimaster.c\<close> that count and compare masks and decide quorums. A mask is a
  64-bit word; node \<open>n\<close> (node ids start at 1) is bit \<open>n - 1\<close>. The helper functions look at the
  first \<open>MTM_MAX_NODES\<close> bits only, as the loops of the source do.
\<close>

section \<open>Bit macros\<close>

definition BIT_CHECK :: "nodemask_t \<Rightarrow> nat \<Rightarrow> bool" where
  "BIT_CHECK m i = (m AND push_bit i 1 \<noteq> 0)"

definition BIT_CLEAR :: "nodemask_t \<Rightarrow> nat \<Rightarrow> nodemask_t" where
  "BIT_CLEAR m i = m AND NOT (push_bit i 1)"

definition BIT_SET :: "nodemask_t \<Rightarrow> nat \<Rightarrow> nodemask_t" where
  "BIT_SET m i = m OR push_bit i 1"

lemma BIT_CHECK_bit [mask_simps]: "BIT_CHECK m i \<longleftrightarrow> bit m i"
proof
  assume "BIT_CHECK m i"
  then obtain j where "bit (m AND push_bit i 1) j"
    unfolding BIT_CHECK_def by (metis bit_0_eq bit_eq_iff bot_apply bot_bool_def)
  then show "bit m i" by (auto simp: bit_and_iff bit_exp_iff)
next
  assume "bit m i"
  then have "bit (m AND push_bit i 1) i"
    using bit_imp_le_length [of m i] by (simp add: bit_and_iff bit_exp_iff)
  then show "BIT_CHECK m i"
    unfolding BIT_CHECK_def by (metis bit_0_eq bot_apply bot_bool_def)
qed

lemma bit_BIT_SET [mask_simps]: "bit (BIT_SET m i) j \<longleftrightarrow> bit m j \<or> (i = j \<and> j < 64)"
  by (auto simp: BIT_SET_def bit_simps)

lemma bit_BIT_CLEAR [mask_simps]: "bit (BIT_CLEAR m i) j \<longleftrightarrow> bit m j \<and> i \<noteq> j"
  by (auto simp: BIT_CLEAR_def bit_simps dest: bit_imp_le_length)

section \<open>Counting and comparing\<close>

definition popcount :: "nodemask_t \<Rightarrow> nat" where
  "popcount m = fold (\<lambda>i count. if BIT_CHECK m i then count + 1 else count)
     [0..<MTM_MAX_NODES] 0"

definition first_set_bit :: "nodemask_t \<Rightarrow> int" where
  "first_set_bit m =
     (case find (BIT_CHECK m) [0..<MTM_MAX_NODES] of Some i \<Rightarrow> int i | None \<Rightarrow> -1)"

definition is_submask :: "nodemask_t \<Rightarrow> nodemask_t \<Rightarrow> bool" where
  "is_submask sm m =
     list_all (\<lambda>i. \<not> (BIT_CHECK sm i \<and> \<not> BIT_CHECK m i)) [0..<MTM_MAX_NODES]"

text \<open>The digits up to the last node of the mask; the empty mask is shown as \<open>0\<close>.\<close>

definition maskToString :: "nodemask_t \<Rightarrow> string" where
  "maskToString m =
     (let digits = map (\<lambda>i. if BIT_CHECK m i then CHR ''1'' else CHR ''0'') [0..<MTM_MAX_NODES];
          last_setbit = fold (\<lambda>i l. if BIT_CHECK m i then i else l) [0..<MTM_MAX_NODES] 0
      in take (last_setbit + 1) digits)"

text \<open>The node positions a mask stands for.\<close>

definition nodes_of :: "nodemask_t \<Rightarrow> nat set" where
  "nodes_of m = {i. i < MTM_MAX_NODES \<and> bit m i}"

lemma finite_nodes_of [simp]: "finite (nodes_of m)"
  by (simp add: nodes_of_def)

lemma fold_count:
  "fold (\<lambda>i count. if P i then count + 1 else count) xs n = n + length (filter P xs)"
  by (induction xs arbitrary: n) auto

lemma popcount_card: "popcount m = card (nodes_of m)"
proof -
  have "nodes_of m = {i \<in> set [0..<MTM_MAX_NODES]. BIT_CHECK m i}"
    by (auto simp: nodes_of_def mask_simps)
  then have "card (nodes_of m) = length (filter (BIT_CHECK m) [0..<MTM_MAX_NODES])"
    by (metis card_set_distinct_filter distinct_upt)
  then show ?thesis
    by (simp only: popcount_def fold_count add_0)
qed

lemma popcount_le: "popcount m \<le> MTM_MAX_NODES"
proof -
  have "card (nodes_of m) \<le> card {..<MTM_MAX_NODES}"
    by (rule card_mono) (auto simp: nodes_of_def)
  then show ?thesis by (simp add: popcount_card)
qed

lemma is_submask_subset [mask_simps]: "is_submask a b \<longleftrightarrow> nodes_of a \<subseteq> nodes_of b"
  by (auto simp: is_submask_def nodes_of_def list_all_upt mask_simps simp del: upt_rec_numeral)

lemma first_set_bit_nonneg_iff: "0 \<le> first_set_bit m \<longleftrightarrow> nodes_of m \<noteq> {}"
  by (auto simp: first_set_bit_def nodes_of_def find_upt_Some_iff find_upt_None_iff mask_simps
      simp del: upt_rec_numeral split: option.splits)

lemma nodes_of_BIT_SET [mask_simps]:
  "i < MTM_MAX_NODES \<Longrightarrow> nodes_of (BIT_SET m i) = insert i (nodes_of m)"
  by (auto simp: nodes_of_def mask_simps)

lemma nodes_of_BIT_CLEAR [mask_simps]: "nodes_of (BIT_CLEAR m i) = nodes_of m - {i}"
  by (auto simp: nodes_of_def mask_simps)

lemma nodes_of_and [mask_simps]: "nodes_of (a AND b) = nodes_of a \<inter> nodes_of b"
  by (auto simp: nodes_of_def bit_simps)

lemma nodes_of_0 [simp]: "nodes_of 0 = {}"
  by (simp add: nodes_of_def)

section \<open>Quorums\<close>

definition Quorum :: "nat \<Rightarrow> nat \<Rightarrow> bool" where
  "Quorum ntotal nvotes = (nvotes \<ge> ntotal div 2 + 1)"

lemma Quorum_intersect:
  assumes "finite U" and "A \<subseteq> U" and "B \<subseteq> U"
    and "Quorum (card U) (card A)" and "Quorum (card U) (card B)"
  shows "A \<inter> B \<noteq> {}"
proof
  assume disj: "A \<inter> B = {}"
  have fin: "finite A" "finite B" using assms finite_subset by blast+
  have "card A + card B = card (A \<union> B)"
    using fin disj by (simp add: card_Un_disjoint)
  also have "\<dots> \<le> card U"
    using assms by (intro card_mono) auto
  finally show False
    using assms(4,5) by (simp add: Quorum_def)
qed

end
