(* ===== verification/Bkb.thy ===== *)
theory Bkb
  imports Nodemask "HOL-Library.Monad_Syntax"
begin

text \<open>
  The Bron-Kerbosch search of \<open>src/src/bkb.c\<close>, which picks the connectivity clique a node
  campaigns for. The arrays of the source are lists; reading outside the part that has been
  written, appending to a full \<open>NodeList\<close> and a failed \<open>Assert\<close> are the result \<open>None\<close>, so that
  the totality theorem below is also the memory-safety of the search. A \<open>NodeList\<close> is the list
  \<open>nodes[0..size)\<close>.

  The recursion is not structural: \<open>extend\<close> calls itself on the neighbours of the selected vertex,
  and its termination measure is the size of the candidate segment.
\<close>

section \<open>The search\<close>

type_synonym NodeList = "nat list"

definition list_append :: "NodeList \<Rightarrow> nat \<Rightarrow> NodeList option" where
  "list_append l n = (if length l < MAX_NODES then Some (l @ [n]) else None)"

definition list_copy :: "NodeList \<Rightarrow> NodeList \<Rightarrow> NodeList" where
  "list_copy dst src = map (\<lambda>i. src ! i) [0..<length src]"

definition list_to_nodemask :: "NodeList \<Rightarrow> nodemask_t" where
  "list_to_nodemask l = fold (\<lambda>n res. BIT_SET res n) l 0"

definition edge :: "nodemask_t list \<Rightarrow> nat \<Rightarrow> nat \<Rightarrow> bool option" where
  "edge g p q = map_option (\<lambda>row. BIT_CHECK row q) (nth_opt g p)"

text \<open>The inner loop of the pivot choice: non-neighbours of \<open>p\<close> among the candidates.\<close>

fun count_non_neighbours ::
  "nodemask_t list \<Rightarrow> nat list \<Rightarrow> nat \<Rightarrow> nat \<Rightarrow> nat list \<Rightarrow> nat \<Rightarrow> int \<Rightarrow> (nat \<times> int) option" where
  "count_non_neighbours g old p minnod [] cnt pos = Some (cnt, pos)"
| "count_non_neighbours g old p minnod (j # js) cnt pos =
     (if cnt < minnod then do {
        v \<leftarrow> nth_opt old j;
        b \<leftarrow> edge g p v;
        if \<not> b then count_non_neighbours g old p minnod js (cnt + 1) (int j)
        else count_non_neighbours g old p minnod js cnt pos
      } else Some (cnt, pos))"

text \<open>The pivot choice: \<open>(minnod, fixp, s, nod)\<close>.\<close>

fun choose_pivot ::
  "nodemask_t list \<Rightarrow> nat list \<Rightarrow> nat \<Rightarrow> nat \<Rightarrow> nat list \<Rightarrow> nat \<times> int \<times> int \<times> nat
   \<Rightarrow> (nat \<times> int \<times> int \<times> nat) option" where
  "choose_pivot g old ne ce [] st = Some st"
| "choose_pivot g old ne ce (i # is) (minnod, fixp, s, nod) =
     (if minnod = 0 then Some (minnod, fixp, s, nod)
      else do {
        p \<leftarrow> nth_opt old i;
        (cnt, pos) \<leftarrow> count_non_neighbours g old p minnod [ne..<ce] 0 (-1);
        choose_pivot g old ne ce is
          (if cnt < minnod
           then (if i < ne then (cnt, int p, pos, nod) else (cnt, int p, int i, 1))
           else (minnod, fixp, s, nod))
      })"

fun neighbours :: "nodemask_t list \<Rightarrow> nat list \<Rightarrow> nat \<Rightarrow> nat list \<Rightarrow> nat list option" where
  "neighbours g old sel [] = Some []"
| "neighbours g old sel (i # is) = do {
     v \<leftarrow> nth_opt old i;
     b \<leftarrow> edge g sel v;
     rest \<leftarrow> neighbours g old sel is;
     Some (if b then v # rest else rest)
   }"

text \<open>The unguarded scan for the next non-neighbour of the pivot.\<close>

fun find_next :: "nodemask_t list \<Rightarrow> nat list \<Rightarrow> nat \<Rightarrow> nat list \<Rightarrow> nat option" where
  "find_next g old fixp [] = None"
| "find_next g old fixp (s # ss) = do {
     v \<leftarrow> nth_opt old s;
     b \<leftarrow> edge g fixp v;
     if b then (if s < MAX_NODES then find_next g old fixp ss else None) else Some s
   }"

definition better :: "NodeList \<Rightarrow> NodeList \<Rightarrow> bool" where
  "better result cur \<longleftrightarrow>
     length result < length cur \<or>
     (length result = length cur \<and> list_to_nodemask result > list_to_nodemask cur)"

lemma neighbours_length: "neighbours g old sel is = Some vs \<Longrightarrow> length vs \<le> length is"
  by (induction "is" arbitrary: vs)
    (auto simp: Option.bind_eq_Some_conv split: if_splits intro: le_SucI)

function (sequential) extend ::
  "nodemask_t list \<Rightarrow> NodeList \<Rightarrow> NodeList \<Rightarrow> nat list \<Rightarrow> nat \<Rightarrow> nat \<Rightarrow> NodeList option"
  and extend_loop ::
  "nodemask_t list \<Rightarrow> NodeList \<Rightarrow> NodeList \<Rightarrow> nat list \<Rightarrow> nat \<Rightarrow> nat \<Rightarrow> int \<Rightarrow> int \<Rightarrow> nat
   \<Rightarrow> NodeList option" where
  "extend g cur result old ne ce = do {
     (minnod, fixp, s, nod) \<leftarrow> choose_pivot g old ne ce [0..<ce] (ce, -1, -1, 0);
     extend_loop g cur result old ne ce fixp s (minnod + nod)
   }"
| "extend_loop g cur result old ne ce fixp s 0 = Some result"
| "extend_loop g cur result old ne ce fixp s (Suc k) =
     (if 0 \<le> s \<and> s < int MAX_NODES \<and> ne < MAX_NODES \<and> ce < MAX_NODES then do {
        sel \<leftarrow> nth_opt old (nat s);
        border \<leftarrow> nth_opt old ne;
        let old = (old[nat s := border])[ne := sel];
        newX \<leftarrow> neighbours g old sel [0..<ne];
        newP \<leftarrow> neighbours g old sel [Suc ne..<ce];
        cur' \<leftarrow> list_append cur sel;
        result \<leftarrow>
          (if newX = [] \<and> newP = []
           then Some (if better result cur' then list_copy result cur' else result)
           else if newP \<noteq> []
           then (if length cur' + length newP > length result
                 then extend g cur' result (newX @ newP) (length newX) (length newX + length newP)
                 else Some result)
           else Some result);
        s \<leftarrow> (if 0 < k
              then (if fixp < 0 then None
                    else map_option int (find_next g old (nat fixp) [Suc ne..<length old]))
              else Some s);
        extend_loop g cur result old (Suc ne) ce fixp s k
      } else None)"
  by pat_completeness auto
termination
proof (relation "measures
    [\<lambda>x. case x of Inl (g, cur, result, old, ne, ce) \<Rightarrow> ce - ne
         | Inr (g, cur, result, old, ne, ce, fixp, s, k) \<Rightarrow> ce - ne,
     \<lambda>x. case x of Inl _ \<Rightarrow> 1 | Inr _ \<Rightarrow> 0,
     \<lambda>x. case x of Inl _ \<Rightarrow> 0 | Inr (g, cur, result, old, ne, ce, fixp, s, k) \<Rightarrow> k]",
    goal_cases)
  case 1
  then show ?case by simp
next
  case 2
  then show ?case by simp
next
  case (3 g cur result old ne ce fixp s k sel border old' newX newP cur')
  from 3(6) have "length newP \<le> ce - (Suc ne)"
    using neighbours_length by fastforce
  with 3 show ?case by (cases newP) auto
next
  case 4
  then show ?case by auto
qed

declare extend.simps [simp del] extend_loop.simps [simp del]

definition MtmFindMaxClique :: "nodemask_t list \<Rightarrow> nat \<Rightarrow> (nodemask_t \<times> nat) option" where
  "MtmFindMaxClique g n_nodes =
     (if list_all (\<lambda>i. list_all (\<lambda>j. edge g i j = edge g j i) [0..<n_nodes]) [0..<n_nodes] \<and>
         list_all (\<lambda>i. edge g i i = Some True) [0..<n_nodes]
      then do {
        result \<leftarrow> extend g [] [] [0..<MAX_NODES] 0 n_nodes;
        Some (list_to_nodemask result, length result)
      }
      else None)"


section \<open>Graphs and cliques\<close>

abbreviation adj :: "nodemask_t list \<Rightarrow> nat \<Rightarrow> nat \<Rightarrow> bool" where
  "adj g p q \<equiv> bit (g ! p) q"

text \<open>What the two assertion loops of \<open>MtmFindMaxClique\<close> check, and the array bounds.\<close>

definition graph_ok :: "nodemask_t list \<Rightarrow> nat \<Rightarrow> bool" where
  "graph_ok g n \<longleftrightarrow> n \<le> length g \<and> n < MAX_NODES \<and>
     (\<forall>i<n. adj g i i) \<and> (\<forall>i<n. \<forall>j<n. adj g i j = adj g j i)"

definition is_clique :: "nodemask_t list \<Rightarrow> nat \<Rightarrow> nat set \<Rightarrow> bool" where
  "is_clique g n C \<longleftrightarrow> C \<subseteq> {..<n} \<and> (\<forall>p\<in>C. \<forall>q\<in>C. adj g p q)"

definition max_clique :: "nodemask_t list \<Rightarrow> nat \<Rightarrow> nat set \<Rightarrow> bool" where
  "max_clique g n C \<longleftrightarrow> is_clique g n C \<and> (\<forall>v<n. v \<notin> C \<longrightarrow> (\<exists>c\<in>C. \<not> adj g c v))"

lemma is_clique_insert:
  assumes "graph_ok g n" and "is_clique g n C" and "v < n" and "\<forall>c\<in>C. adj g c v"
  shows "is_clique g n (insert v C)"
  using assms unfolding is_clique_def graph_ok_def by auto

lemma clique_extends:
  assumes g: "graph_ok g n" and C: "is_clique g n C"
  obtains D where "max_clique g n D" and "C \<subseteq> D"
proof -
  let ?A = "{D. is_clique g n D}"
  have "finite ?A" by (rule finite_subset [of _ "Pow {..<n}"]) (auto simp: is_clique_def)
  with C obtain D where D: "is_clique g n D" "C \<subseteq> D"
    and top: "\<forall>E\<in>?A. D \<subseteq> E \<longrightarrow> D = E"
    using finite_has_maximal2 [of ?A C] by auto
  have "\<exists>c\<in>D. \<not> adj g c v" if "v < n" "v \<notin> D" for v
    using is_clique_insert [OF g D(1) that(1)] top that(2) by blast
  with D show thesis using that by (auto simp: max_clique_def)
qed

lemma clique_card_bound: "is_clique g n C \<Longrightarrow> card C \<le> n"
  using card_mono [of "{..<n}" C] by (auto simp: is_clique_def)

section \<open>The scans of one call\<close>

lemma edge_adj [simp]: "p < length g \<Longrightarrow> edge g p q = Some (adj g p q)"
  by (simp add: edge_def mask_simps)

lemma neighbours_filter:
  assumes "\<forall>i\<in>set is. i < length old" and "sel < length g"
  shows "neighbours g old sel is = Some (filter (adj g sel) (map ((!) old) is))"
  using assms by (induction "is") auto

lemma find_next_first:
  assumes "j \<in> set js" and "\<not> adj g u (old ! j)" and "u < length g"
    and "\<forall>i\<in>set js. i < length old" and "\<forall>i\<in>set js. i < MAX_NODES"
  shows "\<exists>s. find_next g old u js = Some s \<and> s \<in> set js \<and> \<not> adj g u (old ! s)"
  using assms
proof (induction js)
  case (Cons i js)
  then show ?case by (cases "adj g u (old ! i)") auto
qed simp

lemma find_next_prefix:
  "find_next g old u js = Some s \<Longrightarrow> find_next g old u (js @ ks) = Some s"
proof (induction js)
  case (Cons i js)
  then show ?case
    by (cases "nth_opt old i"; cases "edge g u (old ! i)") (auto split: if_splits)
qed simp

lemma find_next_border:
  assumes "j \<in> {ne..<ce}" and "\<not> adj g u (old ! j)" and "u < length g"
    and "ce \<le> length old" and "ce < MAX_NODES"
  shows "\<exists>s. find_next g old u [ne..<length old] = Some s \<and> s \<in> {ne..<ce} \<and> \<not> adj g u (old ! s)"
proof -
  have split: "[ne..<length old] = [ne..<ce] @ [ce..<length old]"
    using assms(1,4) upt_add_eq_append [of ne ce "length old - ce"] by simp
  obtain s where "find_next g old u [ne..<ce] = Some s" "s \<in> set [ne..<ce]"
    "\<not> adj g u (old ! s)"
    using find_next_first [of j "[ne..<ce]" g u old] assms by fastforce
  then show ?thesis unfolding split using find_next_prefix by fastforce
qed

lemma count_non_neighbours_spec:
  assumes "\<forall>j\<in>set js. j < length old" and "p < length g"
  shows "\<exists>cnt' pos'. count_non_neighbours g old p minnod js cnt pos = Some (cnt', pos') \<and>
    (cnt' < minnod \<longleftrightarrow> cnt + length (filter (\<lambda>j. \<not> adj g p (old ! j)) js) < minnod) \<and>
    (cnt' < minnod \<longrightarrow> cnt' = cnt + length (filter (\<lambda>j. \<not> adj g p (old ! j)) js)) \<and>
    (cnt < cnt' \<longrightarrow> (\<exists>j\<in>set js. pos' = int j \<and> \<not> adj g p (old ! j))) \<and>
    cnt \<le> cnt' \<and> (cnt = cnt' \<longrightarrow> pos' = pos)"
  using assms
proof (induction js arbitrary: cnt pos)
  case Nil
  then show ?case by simp
next
  case (Cons j js)
  show ?case
  proof (cases "cnt < minnod \<and> \<not> adj g p (old ! j)")
    case True
    from Cons.IH [of "cnt + 1" "int j"] Cons.prems
    obtain cnt' pos' where
      "count_non_neighbours g old p minnod js (cnt + 1) (int j) = Some (cnt', pos')"
      and rest: "cnt' < minnod \<longleftrightarrow> cnt + 1 + length (filter (\<lambda>j. \<not> adj g p (old ! j)) js) < minnod"
      "cnt' < minnod \<longrightarrow> cnt' = cnt + 1 + length (filter (\<lambda>j. \<not> adj g p (old ! j)) js)"
      "cnt + 1 < cnt' \<longrightarrow> (\<exists>j\<in>set js. pos' = int j \<and> \<not> adj g p (old ! j))"
      "cnt + 1 \<le> cnt'" "cnt + 1 = cnt' \<longrightarrow> pos' = int j"
      by auto
    then show ?thesis
      using True Cons.prems by (cases "cnt + 1 = cnt'") auto
  next
    case False
    with Cons.IH [of cnt pos] Cons.prems show ?thesis by auto
  qed
qed

text \<open>
  The pivot loop after \<open>i\<close> positions: the pivot is one of them, \<open>minnod\<close> counts its
  non-neighbours among the candidates, and \<open>s\<close> is a candidate to branch on first.
\<close>

definition non_nbrs :: "nodemask_t list \<Rightarrow> nat list \<Rightarrow> nat \<Rightarrow> nat \<Rightarrow> nat \<Rightarrow> nat" where
  "non_nbrs g old ne ce u = length (filter (\<lambda>j. \<not> adj g u (old ! j)) [ne..<ce])"

definition pivot_at ::
  "nodemask_t list \<Rightarrow> nat list \<Rightarrow> nat \<Rightarrow> nat \<Rightarrow> nat \<Rightarrow> nat \<times> int \<times> int \<times> nat \<Rightarrow> bool" where
  "pivot_at g old ne ce q = (\<lambda>(minnod, fixp, s, nod).
     fixp = int (old ! q) \<and> minnod = non_nbrs g old ne ce (old ! q) \<and>
     (if q < ne
      then nod = 0 \<and> (0 < minnod \<longrightarrow> (\<exists>j\<in>{ne..<ce}. s = int j \<and> \<not> adj g (old ! q) (old ! j)))
      else nod = 1 \<and> s = int q))"

definition pivot_ok ::
  "nodemask_t list \<Rightarrow> nat list \<Rightarrow> nat \<Rightarrow> nat \<Rightarrow> nat \<Rightarrow> nat \<times> int \<times> int \<times> nat \<Rightarrow> bool" where
  "pivot_ok g old ne ce i st \<longleftrightarrow> (\<exists>q<i. q < ce \<and> pivot_at g old ne ce q st)"

lemma pivot_ok_mono: "pivot_ok g old ne ce i st \<Longrightarrow> i \<le> i' \<Longrightarrow> pivot_ok g old ne ce i' st"
  unfolding pivot_ok_def by (meson less_le_trans)

lemma non_nbrs_less:
  assumes "i < ce" and "ne < ce" and "adj g (old ! i) (old ! i)"
  shows "non_nbrs g old ne ce (old ! i) < ce"
proof (cases "i < ne")
  case True
  have "non_nbrs g old ne ce (old ! i) \<le> length [ne..<ce]"
    unfolding non_nbrs_def by (rule length_filter_le)
  with True assms show ?thesis by simp
next
  case False
  then have "i \<in> set [ne..<ce]" using assms by simp
  then have "non_nbrs g old ne ce (old ! i) < length [ne..<ce]"
    unfolding non_nbrs_def by (rule length_filter_less_if) (simp add: assms(3))
  then show ?thesis by simp
qed

lemma choose_pivot_step:
  assumes old: "ce \<le> length old" "\<forall>j<ce. old ! j < length g" and i: "i < ce"
    and st: "pivot_ok g old ne ce i st \<or> i = 0 \<and> st = (ce, -1, -1, 0)"
    and m: "fst st \<noteq> 0" and less: "i = 0 \<longrightarrow> non_nbrs g old ne ce (old ! i) < fst st"
  shows "\<exists>st'. choose_pivot g old ne ce (i # is) st = choose_pivot g old ne ce is st' \<and>
    pivot_ok g old ne ce (Suc i) st'"
proof -
  obtain minnod fixp s nod where st_eq: "st = (minnod, fixp, s, nod)" by (cases st)
  obtain cnt pos where c: "count_non_neighbours g old (old ! i) minnod [ne..<ce] 0 (-1) = Some (cnt, pos)"
    "cnt < minnod \<longleftrightarrow> non_nbrs g old ne ce (old ! i) < minnod"
    "cnt < minnod \<longrightarrow> cnt = non_nbrs g old ne ce (old ! i)"
    "0 < cnt \<longrightarrow> (\<exists>j\<in>{ne..<ce}. pos = int j \<and> \<not> adj g (old ! i) (old ! j))"
    using count_non_neighbours_spec [of "[ne..<ce]" old "old ! i" g minnod 0 "-1"] old i
    by (auto simp: non_nbrs_def)
  let ?st' = "if cnt < minnod
    then (if i < ne then (cnt, int (old ! i), pos, nod) else (cnt, int (old ! i), int i, 1))
    else st"
  have "choose_pivot g old ne ce (i # is) st = choose_pivot g old ne ce is ?st'"
    using m i old(1) by (simp add: st_eq c(1) del: upt_Suc)
  moreover have "pivot_ok g old ne ce (Suc i) ?st'"
  proof (cases "cnt < minnod")
    case True
    have "nod = 0" if "i < ne"
      using st that by (auto simp: st_eq pivot_ok_def pivot_at_def split: if_splits)
    with True c(3,4) have "pivot_at g old ne ce i ?st'"
      by (simp add: pivot_at_def)
    with i show ?thesis unfolding pivot_ok_def by blast
  next
    case False
    with c(2) less have "i \<noteq> 0" by (cases "i = 0") (auto simp: st_eq)
    with False st show ?thesis by (auto intro: pivot_ok_mono)
  qed
  ultimately show ?thesis by blast
qed

lemma choose_pivot_from:
  assumes "ce \<le> length old" and "\<forall>j<ce. old ! j < length g" and "ne < ce"
    and "\<forall>j<ce. adj g (old ! j) (old ! j)"
    and "i \<le> ce" and "pivot_ok g old ne ce i st \<or> i = 0 \<and> st = (ce, -1, -1, 0)"
  shows "\<exists>st'. choose_pivot g old ne ce [i..<ce] st = Some st' \<and> pivot_ok g old ne ce ce st'"
  using assms(5,6)
proof (induction "ce - i" arbitrary: i st)
  case 0
  then show ?case using assms(3) by (cases st) auto
next
  case (Suc k)
  then have i: "i < ce" by simp
  show ?case
  proof (cases "fst st = 0")
    case True
    then have "pivot_ok g old ne ce i st" using Suc.prems(2) i by auto
    moreover have "choose_pivot g old ne ce [i..<ce] st = Some st"
      using True i by (cases st) (simp add: upt_conv_Cons)
    ultimately show ?thesis using pivot_ok_mono Suc.prems(1) by blast
  next
    case False
    have "i = 0 \<longrightarrow> non_nbrs g old ne ce (old ! i) < fst st"
      using Suc.prems(2) non_nbrs_less [of 0 ce ne g old] assms(3,4) by (auto simp: pivot_ok_def)
    from choose_pivot_step [OF assms(1,2) i Suc.prems(2) False this]
    obtain st' where "choose_pivot g old ne ce [i..<ce] st = choose_pivot g old ne ce [Suc i..<ce] st'"
      "pivot_ok g old ne ce (Suc i) st'"
      using i by (metis upt_conv_Cons)
    with Suc.hyps(1) [of "Suc i" st'] Suc.hyps(2) i show ?thesis by simp
  qed
qed

section \<open>The search visits every maximal clique that could win\<close>

definition cands :: "nat list \<Rightarrow> nat \<Rightarrow> nat \<Rightarrow> nat set" where
  "cands old ne ce = set (drop ne (take ce old))"

definition good_result :: "nodemask_t list \<Rightarrow> nat \<Rightarrow> NodeList \<Rightarrow> bool" where
  "good_result g n r \<longleftrightarrow> distinct r \<and> is_clique g n (set r)"

definition search_wf ::
  "nodemask_t list \<Rightarrow> nat \<Rightarrow> NodeList \<Rightarrow> nat list \<Rightarrow> nat \<Rightarrow> nat \<Rightarrow> bool" where
  "search_wf g n cur old ne ce \<longleftrightarrow> ne \<le> ce \<and> ce \<le> length old \<and> ce < MAX_NODES \<and>
     distinct (take ce old) \<and> set (take ce old) \<subseteq> {..<n} \<and> good_result g n cur \<and>
     set cur \<inter> set (take ce old) = {} \<and> (\<forall>c\<in>set cur. \<forall>v\<in>set (take ce old). adj g c v)"

text \<open>No maximal clique between \<open>cur\<close> and \<open>cur \<union> S\<close> that meets \<open>T\<close> is larger than \<open>l\<close>.\<close>

definition covers ::
  "nodemask_t list \<Rightarrow> nat \<Rightarrow> nat set \<Rightarrow> nat set \<Rightarrow> nat set \<Rightarrow> nat \<Rightarrow> bool" where
  "covers g n R S T l \<longleftrightarrow>
     (\<forall>C. max_clique g n C \<and> R \<subseteq> C \<and> C \<subseteq> R \<union> S \<and> C \<inter> T \<noteq> {} \<longrightarrow> card C \<le> l)"

definition search_result ::
  "nodemask_t list \<Rightarrow> nat \<Rightarrow> nat set \<Rightarrow> nat set \<Rightarrow> nat set \<Rightarrow> NodeList \<Rightarrow> NodeList option \<Rightarrow> bool" where
  "search_result g n R S T r res \<longleftrightarrow> (\<exists>r'. res = Some r' \<and> good_result g n r' \<and>
     length r \<le> length r' \<and> covers g n R S T (length r'))"

lemma good_result_length: "good_result g n r \<Longrightarrow> length r \<le> n"
  unfolding good_result_def using clique_card_bound distinct_card by fastforce

lemma segment_map: "ce \<le> length old \<Longrightarrow> map ((!) old) [ne..<ce] = drop ne (take ce old)"
  by (intro nth_equalityI) auto

lemma cands_nth: "ce \<le> length old \<Longrightarrow> cands old ne ce = (!) old ` {ne..<ce}"
  by (simp add: cands_def segment_map [symmetric])

lemma cands_subset: "cands old ne ce \<subseteq> set (take ce old)"
  unfolding cands_def by (rule set_drop_subset)

lemma card_filter_cands:
  assumes "ce \<le> length old" and "distinct (take ce old)"
  shows "card {v \<in> cands old ne ce. P v} = length (filter (\<lambda>j. P (old ! j)) [ne..<ce])"
proof -
  have "length (filter P (drop ne (take ce old))) = length (filter (\<lambda>j. P (old ! j)) [ne..<ce])"
    using assms(1) by (simp add: segment_map [symmetric] filter_map o_def)
  then show ?thesis
    unfolding cands_def using assms(2) by (simp add: card_set_distinct_filter)
qed

lemma excluded_not_cand:
  assumes "ne \<le> ce" and "ce \<le> length old" and "distinct (take ce old)" and "x \<in> set (take ne old)"
  shows "x \<in> set (take ce old)" and "x \<notin> cands old ne ce"
proof -
  have split: "take ce old = take ne old @ drop ne (take ce old)"
    using assms(1) by (metis append_take_drop_id min.absorb1 take_take)
  with assms(4) show "x \<in> set (take ce old)" by (metis UnI1 set_append)
  from split assms(3,4) show "x \<notin> cands old ne ce"
    unfolding cands_def by (metis disjoint_iff distinct_append)
qed

text \<open>Moving the selected candidate to the border between excluded and candidate vertices.\<close>

lemma border_swap:
  assumes "ne \<le> s" and "s < ce" and "ce \<le> length old" and "distinct (take ce old)"
    and old': "old' = old[s := old ! ne, ne := old ! s]"
  shows "length old' = length old" and "take ne old' = take ne old"
    and "set (take ce old') = set (take ce old)" and "distinct (take ce old')"
    and "cands old' (Suc ne) ce = cands old ne ce - {old ! s}"
    and "set (take (Suc ne) old') = insert (old ! s) (set (take ne old))"
proof -
  show len: "length old' = length old" and tk: "take ne old' = take ne old"
    using assms by simp_all
  have sw: "take ce old' = (take ce old)[s := take ce old ! ne, ne := take ce old ! s]"
    using assms by (simp add: take_update_swap)
  show set_eq: "set (take ce old') = set (take ce old)" and dist: "distinct (take ce old')"
    unfolding sw using assms set_swap [of s "take ce old" ne] distinct_swap [of s "take ce old" ne]
    by (simp_all del: nth_take)
  have "old' ! ne = old ! s" using assms by simp
  then have split: "take ce old' = take ne old @ old ! s # drop (Suc ne) (take ce old')"
    using id_take_nth_drop [of ne "take ce old'"] assms tk by (simp add: min_def)
  have split0: "take ce old = take ne old @ drop ne (take ce old)"
    using assms(1,2) by (metis append_take_drop_id min.absorb1 order_le_less_trans
        order_less_imp_le take_take)
  have "distinct (take ne old @ old ! s # drop (Suc ne) (take ce old'))"
    using dist split by simp
  moreover have "insert (old ! s) (set (take ne old) \<union> cands old' (Suc ne) ce)
      = set (take ne old) \<union> cands old ne ce"
    using set_eq arg_cong [OF split, of set] arg_cong [OF split0, of set]
    by (simp add: cands_def)
  moreover have "set (take ne old) \<inter> cands old ne ce = {}"
    using assms(4) split0 unfolding cands_def by (metis distinct_append)
  ultimately show "cands old' (Suc ne) ce = cands old ne ce - {old ! s}"
    unfolding cands_def by auto
  have "take (Suc ne) old' = take ne old @ [old ! s]"
    using assms by (simp add: take_Suc_conv_app_nth)
  then show "set (take (Suc ne) old') = insert (old ! s) (set (take ne old))" by simp
qed

lemma search_wf_facts:
  assumes "search_wf g n cur old ne ce"
  shows "ne \<le> ce" and "ce \<le> length old" and "ce < MAX_NODES" and "distinct (take ce old)"
    and "set (take ce old) \<subseteq> {..<n}" and "good_result g n cur" and "set cur \<inter> set (take ce old) = {}"
    and "\<forall>c\<in>set cur. \<forall>v\<in>set (take ce old). adj g c v"
  using assms by (auto simp: search_wf_def)

lemma nth_in_take: "j < ce \<Longrightarrow> ce \<le> length old \<Longrightarrow> old ! j \<in> set (take ce old)"
  by (metis length_take min.absorb2 nth_mem nth_take)

lemma search_wf_nth:
  "search_wf g n cur old ne ce \<Longrightarrow> j < ce \<Longrightarrow> old ! j < n"
  using nth_in_take by (fastforce simp: search_wf_def)

lemma good_result_snoc:
  assumes "graph_ok g n" and "search_wf g n cur old ne ce" and "sel \<in> set (take ce old)"
  shows "good_result g n (cur @ [sel])"
  using assms is_clique_insert [of g n "set cur" sel]
  by (auto simp: good_result_def search_wf_def)

text \<open>The recursive call starts from a well-formed state.\<close>

lemma search_wf_recurse:
  assumes g: "graph_ok g n" and wf: "search_wf g n cur old ne ce" and s: "ne \<le> s" "s < ce"
    and old': "old' = old[s := old ! ne, ne := old ! s]"
    and X: "newX = filter (adj g (old ! s)) (take ne old')"
    and P: "newP = filter (adj g (old ! s)) (drop (Suc ne) (take ce old'))"
  shows "search_wf g n (cur @ [old ! s]) (newX @ newP) (length newX) (length newX + length newP)"
proof -
  note f = search_wf_facts [OF wf]
  note b = border_swap [OF s f(2,4) old']
  have split: "take ce old' = take ne old' @ old ! s # drop (Suc ne) (take ce old')"
    using id_take_nth_drop [of ne "take ce old'"] s f(2) b(1) old' by (simp add: min_def)
  have dist: "distinct (take ne old' @ old ! s # drop (Suc ne) (take ce old'))"
    using b(4) split by metis
  have "set (take ce old) = insert (old ! s) (set (take ne old') \<union> set (drop (Suc ne) (take ce old')))"
    using b(3) arg_cong [OF split, of set] by simp
  then have in_old: "set (newX @ newP) \<subseteq> set (take ce old) - {old ! s}"
    using dist by (auto simp: X P)
  have "distinct (newX @ newP)" using dist by (auto simp: X P)
  moreover have "length newX + length newP < MAX_NODES"
  proof -
    have "length newX + length newP \<le> length (take ne old') + length (drop (Suc ne) (take ce old'))"
      unfolding X P by (intro add_mono length_filter_le)
    also have "\<dots> \<le> ce" using s f(2) b(1) by simp
    finally show ?thesis using f(3) by simp
  qed
  moreover have "good_result g n (cur @ [old ! s])"
    using good_result_snoc [OF g wf] nth_in_take s(2) f(2) by blast
  moreover have "\<forall>v\<in>set (newX @ newP). adj g (old ! s) v" by (auto simp: X P)
  ultimately show ?thesis
    using in_old f by (auto simp: search_wf_def)
qed

lemma search_wf_next:
  assumes "search_wf g n cur old ne ce" and "ne \<le> s" "s < ce"
    and "old' = old[s := old ! ne, ne := old ! s]"
  shows "search_wf g n cur old' (Suc ne) ce"
  using border_swap(1,3,4) [OF assms(2,3) search_wf_facts(2,4) [OF assms(1)] assms(4)] assms(1-3)
  by (simp add: search_wf_def)

lemma search_resultI:
  assumes "good_result g n r'" and "length r \<le> length r'"
    and "\<And>C. max_clique g n C \<Longrightarrow> R \<subseteq> C \<Longrightarrow> C \<subseteq> R \<union> S \<Longrightarrow> C \<inter> T \<noteq> {} \<Longrightarrow> card C \<le> length r'"
  shows "search_result g n R S T r (Some r')"
  using assms by (auto simp: search_result_def covers_def)

text \<open>One branch: the result covers every maximal clique through the selected vertex.\<close>

lemma branch_spec:
  assumes g: "graph_ok g n" and wf: "search_wf g n cur old ne ce" and s: "ne \<le> s" "s < ce"
    and old': "old' = old[s := old ! ne, ne := old ! s]"
    and X: "newX = filter (adj g (old ! s)) (take ne old')"
    and P: "newP = filter (adj g (old ! s)) (drop (Suc ne) (take ce old'))"
    and r: "good_result g n r"
    and rec: "newP \<noteq> [] \<Longrightarrow> search_result g n (set (cur @ [old ! s])) (set newP) UNIV r rec"
  shows "search_result g n (insert (old ! s) (set cur)) (cands old ne ce - {old ! s}) UNIV r
    (if newX = [] \<and> newP = []
     then Some (if better r (cur @ [old ! s]) then list_copy r (cur @ [old ! s]) else r)
     else if newP \<noteq> []
     then (if length (cur @ [old ! s]) + length newP > length r then rec else Some r)
     else Some r)"
proof -
  let ?cur = "cur @ [old ! s]"
  note f = search_wf_facts [OF wf]
  have sel_in: "old ! s \<in> set (take ce old)" using nth_in_take s(2) f(2) by blast
  have cur: "good_result g n ?cur" by (rule good_result_snoc [OF g wf sel_in])
  have inside: "C \<subseteq> set ?cur \<union> set newP" 
    if "max_clique g n C" "insert (old ! s) (set cur) \<subseteq> C"
      "C \<subseteq> insert (old ! s) (set cur) \<union> (cands old ne ce - {old ! s})" for C
  proof -
    have "set newP = {v \<in> cands old ne ce - {old ! s}. adj g (old ! s) v}"
      unfolding P using border_swap(5) [OF s f(2,4) old'] by (auto simp: cands_def)
    with that show ?thesis by (auto simp: max_clique_def is_clique_def)
  qed
  have size: "card C \<le> length ?cur + length newP" if "C \<subseteq> set ?cur \<union> set newP" for C
  proof -
    have "card C \<le> card (set (?cur @ newP))" using that by (intro card_mono) auto
    also have "\<dots> \<le> length (?cur @ newP)" by (rule card_length)
    finally show ?thesis by simp
  qed
  have copy: "list_copy r ?cur = ?cur" unfolding list_copy_def by (rule map_nth)
  consider (leaf) "newX = []" "newP = []" | (dead) "newX \<noteq> []" "newP = []" | (inner) "newP \<noteq> []"
    by blast
  then show ?thesis
  proof cases
    case leaf
    let ?r = "if better r ?cur then ?cur else r"
    have "search_result g n (insert (old ! s) (set cur)) (cands old ne ce - {old ! s}) UNIV r (Some ?r)"
    proof (rule search_resultI)
      show "good_result g n ?r" using r cur by simp
      have len: "length r \<le> length ?r" "length ?cur \<le> length ?r" by (auto simp: better_def)
      then show "length r \<le> length ?r" by blast
      show "card C \<le> length ?r" if "max_clique g n C" "insert (old ! s) (set cur) \<subseteq> C"
        "C \<subseteq> insert (old ! s) (set cur) \<union> (cands old ne ce - {old ! s})" for C
        using size [OF inside [OF that]] len(2) leaf(2) by simp
    qed
    with leaf copy show ?thesis by (simp split: if_splits)
  next
    case dead
    then obtain x where x: "x \<in> set (take ne old')" "adj g (old ! s) x"
      by (metis X filter_False)
    then have "x \<in> set (take ne old)" using border_swap(2) [OF s f(2,4) old'] by simp
    then have x': "x \<in> set (take ce old)" "x \<noteq> old ! s"
      using excluded_not_cand [OF f(1,2,4)] s cands_nth [OF f(2), of ne] by fastforce+
    have "\<forall>c\<in>set ?cur. adj g c x" using x(2) x'(1) f(8) by simp
    moreover have "x < n" "x \<notin> set ?cur" using x' f(5,7) by auto
    ultimately have False if "max_clique g n C" "set ?cur \<subseteq> C" "C \<subseteq> set ?cur" for C
      using that unfolding max_clique_def by (metis subset_antisym)
    then have "search_result g n (insert (old ! s) (set cur)) (cands old ne ce - {old ! s}) UNIV r (Some r)"
      using r inside dead(2) by (intro search_resultI) fastforce+
    with dead show ?thesis by simp
  next
    case inner
    show ?thesis
    proof (cases "length ?cur + length newP > length r")
      case True
      with inner rec obtain r' where "rec = Some r'" "good_result g n r'" "length r \<le> length r'"
        "covers g n (set ?cur) (set newP) UNIV (length r')" by (auto simp: search_result_def)
      with inner True inside show ?thesis
        by (auto simp: search_result_def covers_def)
    next
      case False
      then have "search_result g n (insert (old ! s) (set cur)) (cands old ne ce - {old ! s}) UNIV r (Some r)"
        using r size [OF inside] by (intro search_resultI) fastforce+
      with inner False show ?thesis by simp
    qed
  qed
qed

definition loop_pre ::
  "nodemask_t list \<Rightarrow> nat \<Rightarrow> nat list \<Rightarrow> nat \<Rightarrow> nat \<Rightarrow> int \<Rightarrow> int \<Rightarrow> nat \<Rightarrow> nat set \<Rightarrow> bool" where
  "loop_pre g n old ne ce fixp s k T \<longleftrightarrow> T \<subseteq> cands old ne ce \<and> card T = k \<and>
     (0 < k \<longrightarrow> (\<exists>u<n. fixp = int u \<and> (\<exists>j\<in>{ne..<ce}. s = int j \<and> old ! j \<in> T \<and>
        T - {old ! j} = {v \<in> cands old ne ce - {old ! j}. \<not> adj g u v})))"

lemma finite_cands [simp]: "finite (cands old ne ce)"
  by (simp add: cands_def)

text \<open>Advancing \<open>s\<close> re-establishes the precondition of the loop.\<close>

lemma loop_pre_next:
  assumes g: "graph_ok g n" and wf: "search_wf g n cur old ne ce"
    and pre: "loop_pre g n old ne ce (int u) (int j) (Suc k) T" and u: "u < n"
    and j: "ne \<le> j" "j < ce" and old': "old' = old[j := old ! ne, ne := old ! j]"
  shows "\<exists>s'. (if 0 < k then map_option int (find_next g old' u [Suc ne..<length old']) else Some (int j))
      = Some s' \<and> loop_pre g n old' (Suc ne) ce (int u) s' k (T - {old ! j})"
proof -
  note f = search_wf_facts [OF wf]
  note b = border_swap [OF j f(2,4) old']
  from pre have T: "T \<subseteq> cands old ne ce" "card T = Suc k" "old ! j \<in> T"
    "T - {old ! j} = {v \<in> cands old' (Suc ne) ce. \<not> adj g u v}"
    unfolding loop_pre_def b(5) by simp_all
  from T(2,3) have card: "card (T - {old ! j}) = k" by simp
  show ?thesis
  proof (cases "0 < k")
    case False
    with T(1) card show ?thesis by (auto simp: loop_pre_def b(5))
  next
    case True
    with card obtain v where v: "v \<in> T - {old ! j}" by (metis card.empty ex_in_conv less_irrefl)
    with T(4) obtain i where i: "i \<in> {Suc ne..<ce}" "\<not> adj g u (old' ! i)"
      using cands_nth [of ce old' "Suc ne"] f(2) b(1) by auto
    obtain s' where s': "find_next g old' u [Suc ne..<length old'] = Some s'" "s' \<in> {Suc ne..<ce}"
      "\<not> adj g u (old' ! s')"
      using find_next_border [OF i] u g f(2,3) b(1) by (auto simp: graph_ok_def)
    then have "old' ! s' \<in> T - {old ! j}"
      unfolding T(4) using cands_nth [of ce old' "Suc ne"] f(2) b(1) by auto
    with s' T u True card show ?thesis
      by (auto simp: loop_pre_def b(5))
  qed
qed

lemma search_result_step:
  assumes "search_result g n (insert v R) (S - {v}) UNIV r (Some r1)"
    and "search_result g n R (S - {v}) (T - {v}) r1 res"
  shows "search_result g n R S T r res"
proof -
  from assms obtain r2 where r2: "res = Some r2" "good_result g n r2" "length r \<le> length r1"
    "length r1 \<le> length r2"
    and c: "covers g n (insert v R) (S - {v}) UNIV (length r1)"
      "covers g n R (S - {v}) (T - {v}) (length r2)"
    by (auto simp: search_result_def)
  have "card C \<le> length r2" if C: "max_clique g n C" "R \<subseteq> C" "C \<subseteq> R \<union> S" "C \<inter> T \<noteq> {}" for C
  proof (cases "v \<in> C")
    case True
    with C have "max_clique g n C \<and> insert v R \<subseteq> C \<and> C \<subseteq> insert v R \<union> (S - {v}) \<and> C \<inter> UNIV \<noteq> {}"
      by auto
    with c(1) r2(4) show ?thesis unfolding covers_def by (meson order_trans)
  next
    case False
    with C have "max_clique g n C \<and> R \<subseteq> C \<and> C \<subseteq> R \<union> (S - {v}) \<and> C \<inter> (T - {v}) \<noteq> {}" by auto
    with c(2) show ?thesis unfolding covers_def by blast
  qed
  with r2 show ?thesis unfolding search_result_def covers_def by auto
qed

lemma neighbours_X:
  assumes "ce \<le> length old" and "ne \<le> ce" and "sel < length g"
  shows "neighbours g old sel [0..<ne] = Some (filter (adj g sel) (take ne old))"
  using assms segment_map [of ne old 0] neighbours_filter [of "[0..<ne]" old sel g] by simp

lemma neighbours_P:
  assumes "ce \<le> length old" and "sel < length g"
  shows "neighbours g old sel [Suc ne..<ce] = Some (filter (adj g sel) (drop (Suc ne) (take ce old)))"
  using assms segment_map [of ce old "Suc ne"] neighbours_filter [of "[Suc ne..<ce]" old sel g]
  by simp

definition extend_ok :: "nodemask_t list \<Rightarrow> nat \<Rightarrow> nat \<Rightarrow> bool" where
  "extend_ok g n m \<longleftrightarrow> (\<forall>cur r old ne ce. ce - ne < m \<and> ne < ce \<and> search_wf g n cur old ne ce \<and>
     good_result g n r \<longrightarrow>
     search_result g n (set cur) (cands old ne ce) UNIV r (extend g cur r old ne ce))"

lemma extend_loop_step:
  assumes "0 \<le> s \<and> s < int MAX_NODES \<and> ne < MAX_NODES \<and> ce < MAX_NODES"
    and "nth_opt old (nat s) = Some sel" and "nth_opt old ne = Some border"
    and "old[nat s := border, ne := sel] = old'"
    and "neighbours g old' sel [0..<ne] = Some newX" and "neighbours g old' sel [Suc ne..<ce] = Some newP"
    and "list_append cur sel = Some cur'"
    and "(if newX = [] \<and> newP = []
          then Some (if better r cur' then list_copy r cur' else r)
          else if newP \<noteq> []
          then (if length cur' + length newP > length r
                then extend g cur' r (newX @ newP) (length newX) (length newX + length newP) else Some r)
          else Some r) = Some r1"
    and "(if 0 < k then (if fixp < 0 then None
        else map_option int (find_next g old' (nat fixp) [Suc ne..<length old'])) else Some s) = Some s'"
  shows "extend_loop g cur r old ne ce fixp s (Suc k) = extend_loop g cur r1 old' (Suc ne) ce fixp s' k"
  by (simp only: extend_loop.simps(2) assms Let_def bind.bind_lunit simp_thms if_True)

lemma extend_okD:
  assumes "extend_ok g n m" and "ce - ne < m" and "ne < ce" and "search_wf g n cur old ne ce"
    and "good_result g n r"
  shows "search_result g n (set cur) (cands old ne ce) UNIV r (extend g cur r old ne ce)"
  using assms unfolding extend_ok_def by blast

lemma extend_loop_spec:
  assumes g: "graph_ok g n" and ih: "extend_ok g n m"
  shows "ce - ne \<le> m \<Longrightarrow> search_wf g n cur old ne ce \<Longrightarrow> good_result g n r \<Longrightarrow>
    loop_pre g n old ne ce fixp s k T \<Longrightarrow>
    search_result g n (set cur) (cands old ne ce) T r (extend_loop g cur r old ne ce fixp s k)"
proof (induction k arbitrary: r old ne s T)
  case 0
  then have "T = {}" using finite_cands finite_subset by (fastforce simp: loop_pre_def)
  with 0 show ?case by (auto simp: extend_loop.simps intro!: search_resultI)
next
  case (Suc k)
  note f = search_wf_facts [OF Suc.prems(2)]
  from Suc.prems(4) obtain u j where u: "u < n" "fixp = int u" and j: "ne \<le> j" "j < ce" "s = int j"
    and jT: "old ! j \<in> T" by (auto simp: loop_pre_def)
  define old' where "old' = old[j := old ! ne, ne := old ! j]"
  note b = border_swap [OF j(1,2) f(2,4) old'_def]
  define newX newP where "newX = filter (adj g (old ! j)) (take ne old')"
    and "newP = filter (adj g (old ! j)) (drop (Suc ne) (take ce old'))"
  note X = newX_def and P = newP_def
  let ?rec = "extend g (cur @ [old ! j]) r (newX @ newP) (length newX) (length newX + length newP)"
  have sel: "old ! j < n" using search_wf_nth [OF Suc.prems(2) j(2)] .
  have n: "n \<le> length g" "n < MAX_NODES" using g by (auto simp: graph_ok_def)
  have wf: "search_wf g n (cur @ [old ! j]) (newX @ newP) (length newX) (length newX + length newP)"
    by (rule search_wf_recurse [OF g Suc.prems(2) j(1,2) old'_def X P])
  have "length newP \<le> ce - (Suc ne)"
    unfolding P using length_filter_le [of _ "drop (Suc ne) (take ce old')"] f(2) b(1) by simp
  then have rec: "newP \<noteq> [] \<Longrightarrow> search_result g n (set (cur @ [old ! j])) (set newP) UNIV r ?rec"
    using extend_okD [OF ih _ _ wf Suc.prems(3)] Suc.prems(1) j(1,2) by (simp add: cands_def)
  obtain r1 where r1: "search_result g n (insert (old ! j) (set cur)) (cands old ne ce - {old ! j}) UNIV r (Some r1)"
    and r1_eq: "(if newX = [] \<and> newP = []
     then Some (if better r (cur @ [old ! j]) then list_copy r (cur @ [old ! j]) else r)
     else if newP \<noteq> []
     then (if length (cur @ [old ! j]) + length newP > length r then ?rec else Some r)
     else Some r) = Some r1"
    using branch_spec [OF g Suc.prems(2) j(1,2) old'_def X P Suc.prems(3) rec]
    unfolding search_result_def by blast
  obtain s' where s': "(if 0 < k then map_option int (find_next g old' u [Suc ne..<length old']) else Some (int j))
      = Some s'" "loop_pre g n old' (Suc ne) ce (int u) s' k (T - {old ! j})"
    using loop_pre_next [OF g Suc.prems(2) _ u(1) j(1,2) old'_def] Suc.prems(4) u(2) j(3) by blast
  have app: "list_append cur (old ! j) = Some (cur @ [old ! j])"
    using good_result_length [OF f(6)] n(2) by (simp add: list_append_def)
  have "extend_loop g cur r old ne ce fixp s (Suc k)
      = extend_loop g cur r1 old' (Suc ne) ce fixp s' k"
  proof (rule extend_loop_step)
    show "0 \<le> s \<and> s < int MAX_NODES \<and> ne < MAX_NODES \<and> ce < MAX_NODES" using j f(3) by auto
    show "nth_opt old (nat s) = Some (old ! j)" "nth_opt old ne = Some (old ! ne)"
      "old[nat s := old ! ne, ne := old ! j] = old'"
      using j f(2) by (simp_all add: old'_def)
    show "neighbours g old' (old ! j) [0..<ne] = Some newX"
      "neighbours g old' (old ! j) [Suc ne..<ce] = Some newP"
      using neighbours_X [of ce old' ne "old ! j" g] neighbours_P [of ce old' "old ! j" g ne]
        b(1) f(1,2) sel n(1) by (simp_all add: X P)
    show "(if 0 < k then (if fixp < 0 then None
        else map_option int (find_next g old' (nat fixp) [Suc ne..<length old'])) else Some s) = Some s'"
      using s'(1) by (simp add: u(2) j(3) split: if_splits)
  qed (fact app r1_eq)+
  moreover have "search_result g n (set cur) (cands old ne ce - {old ! j}) (T - {old ! j}) r1
      (extend_loop g cur r1 old' (Suc ne) ce fixp s' k)"
    using Suc.IH [OF _ search_wf_next [OF Suc.prems(2) j(1,2) old'_def] _ s'(2)[folded u(2)]] r1 Suc.prems(1)
    by (auto simp: search_result_def b(5))
  ultimately show ?case using search_result_step [OF r1] by simp
qed

lemma search_result_pivot:
  assumes g: "graph_ok g n" and wf: "search_wf g n cur old ne ce" and u: "u \<in> set (take ce old)"
    and T: "{v \<in> cands old ne ce. \<not> adj g u v} \<subseteq> T" "u \<in> cands old ne ce \<Longrightarrow> u \<in> T"
    and res: "search_result g n (set cur) (cands old ne ce) T r res"
  shows "search_result g n (set cur) (cands old ne ce) UNIV r res"
proof -
  note f = search_wf_facts [OF wf]
  have "C \<inter> T \<noteq> {}" if C: "max_clique g n C" "set cur \<subseteq> C" "C \<subseteq> set cur \<union> cands old ne ce" for C
  proof
    assume none: "C \<inter> T = {}"
    have "u \<notin> C" using none T(2) C(3) f(7) u by blast
    then obtain c where c: "c \<in> C" "\<not> adj g c u"
      using C(1) u f(5) by (auto simp: max_clique_def)
    with f(8) u have "c \<in> cands old ne ce" using C(3) by blast
    moreover have "c < n" "u < n" using c(1) C(1) u f(5) by (auto simp: max_clique_def is_clique_def)
    then have "\<not> adj g u c" using c(2) g by (simp add: graph_ok_def)
    ultimately show False using T(1) none c(1) by blast
  qed
  with res show ?thesis by (auto simp: search_result_def covers_def)
qed

lemma pivot_loop_pre:
  assumes g: "graph_ok g n" and wf: "search_wf g n cur old ne ce"
    and p: "pivot_at g old ne ce q (minnod, fixp, s, nod)" and q: "q < ce"
    and T: "T = {v \<in> cands old ne ce. \<not> adj g (old ! q) v} \<union> (if q < ne then {} else {old ! q})"
  shows "loop_pre g n old ne ce fixp s (minnod + nod) T"
proof -
  note f = search_wf_facts [OF wf]
  let ?N = "{v \<in> cands old ne ce. \<not> adj g (old ! q) v}"
  have u: "old ! q < n" by (rule search_wf_nth [OF wf q])
  have N: "card ?N = minnod" and fixp: "fixp = int (old ! q)"
    using p card_filter_cands [OF f(2,4)] by (simp_all add: pivot_at_def non_nbrs_def)
  have self: "adj g (old ! q) (old ! q)" using g u by (simp add: graph_ok_def)
  show ?thesis
  proof (cases "q < ne")
    case True
    then have nod: "nod = 0" and T': "T = ?N" using p T by (simp_all add: pivot_at_def)
    have "\<exists>j\<in>{ne..<ce}. s = int j \<and> \<not> adj g (old ! q) (old ! j)" if "0 < minnod"
      using p True that by (simp add: pivot_at_def)
    then show ?thesis
      unfolding loop_pre_def T' nod using N u fixp cands_nth [OF f(2), of ne] by fastforce
  next
    case False
    then have nod: "nod = 1" "s = int q" and T': "T = insert (old ! q) ?N"
      using p T by (simp_all add: pivot_at_def)
    have "old ! q \<in> cands old ne ce" using False q cands_nth [OF f(2), of ne] by simp
    moreover have "card T = minnod + nod" unfolding T' nod using N self by (simp add: card_insert_if)
    moreover have "T - {old ! q} = {v \<in> cands old ne ce - {old ! q}. \<not> adj g (old ! q) v}"
      unfolding T' by auto
    moreover have "q \<in> {ne..<ce}" using False q by simp
    ultimately show ?thesis
      unfolding loop_pre_def nod(2) using u fixp T' by auto
  qed
qed

lemma extend_ok_all: "graph_ok g n \<Longrightarrow> extend_ok g n m"
proof (induction m)
  case 0
  then show ?case by (simp add: extend_ok_def)
next
  case (Suc m)
  then have ih: "extend_ok g n m" by simp
  show ?case
    unfolding extend_ok_def
  proof (intro allI impI, elim conjE)
    fix cur r old ne ce
    assume a: "ce - ne < Suc m" "ne < ce" and wf: "search_wf g n cur old ne ce"
      and r: "good_result g n r"
    note f = search_wf_facts [OF wf] and nth = search_wf_nth [OF wf]
    have gl: "n \<le> length g" "\<forall>i<n. adj g i i" using Suc.prems by (simp_all add: graph_ok_def)
    obtain st where st: "choose_pivot g old ne ce [0..<ce] (ce, -1, -1, 0) = Some st"
      "pivot_ok g old ne ce ce st"
      using choose_pivot_from [of ce old g ne 0 "(ce, -1, -1, 0)"] f(2) nth a(2) gl
      by (meson le0 less_le_trans)
    obtain minnod fixp s nod where st_eq: "st = (minnod, fixp, s, nod)" by (cases st)
    obtain q where q: "q < ce" "pivot_at g old ne ce q (minnod, fixp, s, nod)"
      using st(2) unfolding pivot_ok_def st_eq by blast
    define T where "T = {v \<in> cands old ne ce. \<not> adj g (old ! q) v} \<union> (if q < ne then {} else {old ! q})"
    have "search_result g n (set cur) (cands old ne ce) T r
        (extend_loop g cur r old ne ce fixp s (minnod + nod))"
      using extend_loop_spec [OF Suc.prems ih _ wf r pivot_loop_pre [OF Suc.prems wf q(2,1) T_def]] a(1)
      by simp
    moreover have "old ! q \<in> T" if "old ! q \<in> cands old ne ce"
      using that excluded_not_cand(2) [OF f(1,2,4)] nth_in_take [of q ne old] f(1,2)
      unfolding T_def by fastforce
    ultimately show "search_result g n (set cur) (cands old ne ce) UNIV r (extend g cur r old ne ce)"
      using search_result_pivot [OF Suc.prems wf nth_in_take [OF q(1) f(2)], of T r] st(1)
      by (simp add: extend.simps st_eq T_def)
  qed
qed

section \<open>The result of the search\<close>

lemma bit_list_to_nodemask:
  "set l \<subseteq> {..<MAX_NODES} \<Longrightarrow> bit (list_to_nodemask l) i \<longleftrightarrow> i \<in> set l"
proof -
  have "set l \<subseteq> {..<64} \<Longrightarrow> bit (fold (\<lambda>n res. BIT_SET res n) l m) i \<longleftrightarrow> bit m i \<or> i \<in> set l" for m
    by (induction l arbitrary: m) (auto simp: mask_simps)
  then show "set l \<subseteq> {..<MAX_NODES} \<Longrightarrow> ?thesis" by (simp add: list_to_nodemask_def)
qed

lemma graph_ok_asserts:
  assumes "graph_ok g n"
  shows "list_all (\<lambda>i. list_all (\<lambda>j. edge g i j = edge g j i) [0..<n]) [0..<n] \<and>
         list_all (\<lambda>i. edge g i i = Some True) [0..<n]"
  using assms by (auto simp: graph_ok_def list_all_upt)

lemma extend_top:
  assumes g: "graph_ok g n"
  shows "\<exists>r. extend g [] [] [0..<MAX_NODES] 0 n = Some r \<and> good_result g n r \<and>
    (\<forall>C. is_clique g n C \<longrightarrow> card C \<le> length r)"
proof (cases "n = 0")
  case True
  then show ?thesis
    by (auto simp: extend.simps extend_loop.simps good_result_def is_clique_def)
next
  case False
  have n: "n < MAX_NODES" using g by (simp add: graph_ok_def)
  then have tk: "take n [0..<MAX_NODES] = [0..<n]" by (simp add: take_upt del: upt_rec_numeral)
  have good: "good_result g n []" by (simp add: good_result_def is_clique_def)
  have wf: "search_wf g n [] [0..<MAX_NODES] 0 n"
    using n good by (simp add: search_wf_def tk lessThan_atLeast0 del: upt_rec_numeral)
  obtain r where r: "extend g [] [] [0..<MAX_NODES] 0 n = Some r" "good_result g n r"
    and c: "covers g n {} (cands [0..<MAX_NODES] 0 n) UNIV (length r)"
    using extend_okD [OF extend_ok_all [OF g, of "Suc n"] _ _ wf good] False
    by (auto simp: search_result_def)
  have "card C \<le> length r" if C: "is_clique g n C" for C
  proof -
    obtain D where D: "max_clique g n D" "C \<subseteq> D" by (rule clique_extends [OF g C])
    then have sub: "D \<subseteq> {..<n}" by (simp add: max_clique_def is_clique_def)
    have "D \<noteq> {}" using D(1) False by (auto simp: max_clique_def)
    moreover have "D \<subseteq> cands [0..<MAX_NODES] 0 n"
      using sub by (simp add: cands_def tk lessThan_atLeast0 del: upt_rec_numeral)
    ultimately have "card D \<le> length r" using c D(1) by (simp add: covers_def)
    moreover have "card C \<le> card D" using D(2) sub finite_subset by (intro card_mono) auto
    ultimately show ?thesis by simp
  qed
  with r show ?thesis by blast
qed

lemma MtmFindMaxClique_spec:
  assumes "graph_ok g n"
  shows "\<exists>m k. MtmFindMaxClique g n = Some (m, k) \<and> is_clique g n {i. bit m i} \<and>
    card {i. bit m i} = k \<and> (\<forall>C. is_clique g n C \<longrightarrow> card C \<le> k)"
proof -
  obtain r where r: "extend g [] [] [0..<MAX_NODES] 0 n = Some r" "good_result g n r"
    "\<forall>C. is_clique g n C \<longrightarrow> card C \<le> length r"
    using extend_top [OF assms] by blast
  have "set r \<subseteq> {..<MAX_NODES}"
    using r(2) assms by (auto simp: good_result_def is_clique_def graph_ok_def)
  then have bits: "{i. bit (list_to_nodemask r) i} = set r" by (simp add: bit_list_to_nodemask)
  have "MtmFindMaxClique g n = Some (list_to_nodemask r, length r)"
    unfolding MtmFindMaxClique_def using graph_ok_asserts [OF assms] r(1)
    by (simp del: upt_rec_numeral)
  with r bits show ?thesis by (auto simp: good_result_def distinct_card)
qed

text \<open>
  C9. For every symmetric graph with self loops on fewer than 64 nodes the search ends, reads no
  cell that was not written and overflows no list; the mask it returns is a clique, the size it
  returns is the number of nodes of that clique, and no clique of the graph is larger.
\<close>

theorem MtmFindMaxClique_maximum:
  assumes "graph_ok g n"
  shows "\<exists>m k. MtmFindMaxClique g n = Some (m, k) \<and> is_clique g n {i. bit m i} \<and>
    card {i. bit m i} = k \<and> (\<forall>C. is_clique g n C \<longrightarrow> card C \<le> k)"
  by (rule MtmFindMaxClique_spec [OF assms])

theorem MtmFindMaxClique_maximum_witness:
  "graph_ok [7, 7, 15, 12] 4 \<and> (\<exists>m k. MtmFindMaxClique [7, 7, 15, 12] 4 = Some (m, k) \<and>
     card {i. bit m i} = k)"
proof -
  have "graph_ok [7, 7, 15, 12] 4"
    unfolding graph_ok_def by (simp add: All_less_Suc numeral_eq_Suc bit_simps)
  with MtmFindMaxClique_maximum [OF this] show ?thesis by blast
qed

text \<open>
  The comment above \<open>extend\<close> promises the smallest mask among the largest cliques. The size
  pruning before the recursive call breaks this: in the graph of the two disjoint edges 0-3 and
  1-2 the search returns mask 9 although the clique with mask 6 has the same size.
\<close>

theorem MtmFindMaxClique_not_smallest:
  "MtmFindMaxClique [9, 6, 6, 9] 4 = Some (9, 2) \<and> is_clique [9, 6, 6, 9] 4 {i. bit (6 :: nodemask_t) i} \<and>
     card {i. bit (6 :: nodemask_t) i} = 2"
proof (intro conjI)
  show "MtmFindMaxClique [9, 6, 6, 9] 4 = Some (9, 2)" by code_simp
  have six: "{i. bit (6 :: nodemask_t) i} = {1, 2}"
  proof -
    have "{i. bit (list_to_nodemask [1, 2]) i} = {1, 2}" by (auto simp: bit_list_to_nodemask)
    moreover have "list_to_nodemask [1, 2] = 6" by code_simp
    ultimately show ?thesis by simp
  qed
  show "card {i. bit (6 :: nodemask_t) i} = 2" unfolding six by simp
  show "is_clique [9, 6, 6, 9] 4 {i. bit (6 :: nodemask_t) i}"
    unfolding six is_clique_def by (simp add: bit_simps)
qed

end
