(* ===== verification/C_Strings.thy ===== *)
theory C_Strings
  imports Mtm_Prelude
begin

text \<open>
  The part of the C formatted input and output that the sources use to build and to take apart
  transaction ids and transaction states: \<^verbatim>\<open>%d\<close>, \<^verbatim>\<open>%*d\<close>, \<^verbatim>\<open>%u\<close>, \<^verbatim>\<open>%X\<close>, \<^verbatim>\<open>%Ns\<close> and literal
  characters. A scan stops at the first directive that does not match; the values assigned so
  far stay assigned and their number is the result, or \<open>-1\<close> (\<^verbatim>\<open>EOF\<close>) when the input ends before
  any conversion.
\<close>

section \<open>Digits\<close>

definition isspace :: "char \<Rightarrow> bool" where
  "isspace c = (of_char c = (32 :: nat) \<or> (9 \<le> (of_char c :: nat) \<and> of_char c \<le> (13 :: nat)))"

definition digit_value :: "char \<Rightarrow> nat" where
  "digit_value c = (let n = of_char c :: nat in
     if 48 \<le> n \<and> n \<le> 57 then n - 48
     else if 65 \<le> n \<and> n \<le> 70 then n - 55
     else if 97 \<le> n \<and> n \<le> 102 then n - 87
     else 16)"

definition isdigit :: "nat \<Rightarrow> char \<Rightarrow> bool" where
  "isdigit base c = (digit_value c < base)"

definition digit_char :: "nat \<Rightarrow> char" where
  "digit_char n = char_of (if n < 10 then 48 + n else 55 + n)"

function print_nat :: "nat \<Rightarrow> nat \<Rightarrow> string" where
  "print_nat base n =
     (if base < 2 \<or> n < base then [digit_char n]
      else print_nat base (n div base) @ [digit_char (n mod base)])"
  by pat_completeness auto
termination by (relation "measure snd") auto

declare print_nat.simps [simp del]

definition digits_value :: "nat \<Rightarrow> string \<Rightarrow> nat" where
  "digits_value base s = fold (\<lambda>c acc. acc * base + digit_value c) s 0"

lemma digit_value_char [simp]: "n < 16 \<Longrightarrow> digit_value (digit_char n) = n"
  by (simp add: digit_value_def digit_char_def Let_def)

lemma print_nat_digits: "2 \<le> base \<Longrightarrow> base \<le> 16 \<Longrightarrow> list_all (isdigit base) (print_nat base n)"
proof (induction base n rule: print_nat.induct)
  case (1 base n)
  then show ?case
    by (subst print_nat.simps) (auto simp: list_all_iff isdigit_def order_less_le_trans [of _ base 16])
qed

lemma digits_value_snoc: "digits_value base (s @ [c]) = digits_value base s * base + digit_value c"
  by (simp add: digits_value_def)

lemma digits_value_print_nat: "2 \<le> base \<Longrightarrow> base \<le> 16 \<Longrightarrow> digits_value base (print_nat base n) = n"
proof (induction base n rule: print_nat.induct)
  case (1 base n)
  show ?case
  proof (cases "n < base")
    case True
    with 1 show ?thesis by (subst print_nat.simps) (simp add: digits_value_def)
  next
    case False
    have "n mod base < 16" using 1(3) mod_less_divisor [of base n] 1(2) by linarith
    with False 1 show ?thesis by (subst print_nat.simps) (simp add: digits_value_snoc)
  qed
qed

lemma print_nat_not_Nil [simp]: "print_nat base n \<noteq> []"
  by (subst print_nat.simps) auto

lemma print_nat_neq_sign:
  assumes "2 \<le> base" and "base \<le> 16" and "print_nat base n = c # cs"
  shows "isdigit base c" and "c \<noteq> CHR ''-''" and "c \<noteq> CHR ''+''" and "\<not> isspace c"
proof -
  show d: "isdigit base c" using print_nat_digits [OF assms(1,2), of n] assms(3) by simp
  have "digit_value c < 16" using d assms(2) by (simp add: isdigit_def)
  then show "c \<noteq> CHR ''-''" "c \<noteq> CHR ''+''" "\<not> isspace c"
    by (auto simp: digit_value_def isspace_def Let_def split: if_splits)
qed

section \<open>Printing\<close>

definition print_int :: "int \<Rightarrow> string" where
  "print_int i = (if i < 0 then CHR ''-'' # print_nat 10 (nat (- i)) else print_nat 10 (nat i))"

definition print_uint :: "'a::len word \<Rightarrow> string" where
  "print_uint w = print_nat 10 (unat w)"

definition print_hex :: "'a::len word \<Rightarrow> string" where
  "print_hex w = print_nat 16 (unat w)"

section \<open>Scanning\<close>

definition scan_nat :: "nat \<Rightarrow> string \<Rightarrow> (int \<times> string) option" where
  "scan_nat base s = (let ds = takeWhile (isdigit base) s in
     if ds = [] then None else Some (int (digits_value base ds), dropWhile (isdigit base) s))"

text \<open>A hexadecimal number may start with \<^verbatim>\<open>0x\<close>, which a digit must follow.\<close>

fun scan_hex_nat :: "string \<Rightarrow> (int \<times> string) option" where
  "scan_hex_nat (z # x # s) =
     (if z = CHR ''0'' \<and> (x = CHR ''x'' \<or> x = CHR ''X'') then scan_nat 16 s
      else scan_nat 16 (z # x # s))"
| "scan_hex_nat s = scan_nat 16 s"

definition scan_sign :: "(string \<Rightarrow> (int \<times> string) option) \<Rightarrow> string \<Rightarrow> (int \<times> string) option" where
  "scan_sign f s = (case s of
     [] \<Rightarrow> None
   | c # cs \<Rightarrow> if c = CHR ''-'' then map_option (\<lambda>(n, r). (- n, r)) (f cs)
               else if c = CHR ''+'' then f cs else f (c # cs))"

datatype conv = Conv_d | Skip_d | Conv_u | Conv_X | Conv_s nat | Lit char
datatype arg = Arg_int int | Arg_str string

fun convert :: "conv \<Rightarrow> string \<Rightarrow> (arg list \<times> string) option" where
  "convert Conv_d s = map_option (\<lambda>(n, r). ([Arg_int n], r)) (scan_sign (scan_nat 10) s)"
| "convert Skip_d s = map_option (\<lambda>(n, r). ([], r)) (scan_sign (scan_nat 10) s)"
| "convert Conv_u s = map_option (\<lambda>(n, r). ([Arg_int n], r)) (scan_sign (scan_nat 10) s)"
| "convert Conv_X s = map_option (\<lambda>(n, r). ([Arg_int n], r)) (scan_sign scan_hex_nat s)"
| "convert (Conv_s w) s =
     Some ([Arg_str (takeWhile (\<lambda>c. \<not> isspace c) (take w s))],
           drop (length (takeWhile (\<lambda>c. \<not> isspace c) (take w s))) s)"
| "convert (Lit c) s = None"

text \<open>The assigned values, and whether the input ended before any conversion was completed.\<close>

fun scan_all :: "conv list \<Rightarrow> bool \<Rightarrow> string \<Rightarrow> arg list \<times> bool" where
  "scan_all [] started s = ([], False)"
| "scan_all (Lit c # fs) started s = (case s of
     [] \<Rightarrow> ([], \<not> started)
   | x # xs \<Rightarrow> if x = c then scan_all fs started xs else ([], False))"
| "scan_all (f # fs) started s = (case dropWhile isspace s of
     [] \<Rightarrow> ([], \<not> started)
   | x # xs \<Rightarrow> (case convert f (x # xs) of
       None \<Rightarrow> ([], False)
     | Some (vs, rest) \<Rightarrow> (let (ws, e) = scan_all fs True rest in (vs @ ws, e))))"

definition sscanf :: "conv list \<Rightarrow> string \<Rightarrow> int \<times> arg list" where
  "sscanf fs s = (let (vs, e) = scan_all fs False s in (if e then -1 else int (length vs), vs))"

definition lits :: "string \<Rightarrow> conv list" where
  "lits s = map Lit s"

definition arg_int :: "arg list \<Rightarrow> nat \<Rightarrow> int \<Rightarrow> int" where
  "arg_int vs i old = (case nth_opt vs i of Some (Arg_int n) \<Rightarrow> n | _ \<Rightarrow> old)"

definition arg_word :: "arg list \<Rightarrow> nat \<Rightarrow> 'a::len word \<Rightarrow> 'a word" where
  "arg_word vs i old = (case nth_opt vs i of Some (Arg_int n) \<Rightarrow> word_of_int n | _ \<Rightarrow> old)"

definition arg_str :: "arg list \<Rightarrow> nat \<Rightarrow> string \<Rightarrow> string" where
  "arg_str vs i old = (case nth_opt vs i of Some (Arg_str s) \<Rightarrow> s | _ \<Rightarrow> old)"

section \<open>A scan reads back what was printed\<close>

definition stops :: "nat \<Rightarrow> string \<Rightarrow> bool" where
  "stops base rest = (case rest of [] \<Rightarrow> True | c # _ \<Rightarrow> \<not> isdigit base c)"

lemma stops_Nil [simp]: "stops base []"
  by (simp add: stops_def)

lemma stops_Cons [simp]: "stops base (c # cs) \<longleftrightarrow> \<not> isdigit base c"
  by (simp add: stops_def)

lemma isdigit_dash [simp]: "\<not> isdigit 10 (CHR ''-'')" "\<not> isdigit 16 (CHR ''-'')"
  "\<not> isdigit 10 (CHR '':'')"
  by (simp_all add: isdigit_def digit_value_def)

lemma scan_nat_print:
  assumes "2 \<le> base" and "base \<le> 16" and "stops base rest"
  shows "scan_nat base (print_nat base n @ rest) = Some (int n, rest)"
proof -
  have all: "\<forall>c\<in>set (print_nat base n). isdigit base c"
    using print_nat_digits [OF assms(1,2)] by (simp add: list_all_iff)
  have "takeWhile (isdigit base) rest = []" "dropWhile (isdigit base) rest = rest"
    using assms(3) by (cases rest; simp)+
  with all show ?thesis
    by (simp add: scan_nat_def Let_def digits_value_print_nat [OF assms(1,2)])
qed

lemma scan_sign_print_nat:
  assumes "2 \<le> base" and "base \<le> 16"
  shows "scan_sign f (print_nat base n @ rest) = f (print_nat base n @ rest)"
proof -
  obtain c cs where "print_nat base n = c # cs" by (cases "print_nat base n") auto
  with print_nat_neq_sign [OF assms this] show ?thesis by (simp add: scan_sign_def)
qed

lemma scan_int_print:
  "stops 10 rest \<Longrightarrow> scan_sign (scan_nat 10) (print_int i @ rest) = Some (i, rest)"
  by (simp add: print_int_def scan_sign_print_nat scan_nat_print)
    (simp add: scan_sign_def scan_nat_print)

lemma isdigit_not_x: "isdigit 16 c \<Longrightarrow> c \<noteq> CHR ''x'' \<and> c \<noteq> CHR ''X''"
  by (auto simp: isdigit_def digit_value_def)

lemma scan_hex_print_nat:
  assumes "stops 16 rest" and "rest \<noteq> [] \<Longrightarrow> hd rest \<noteq> CHR ''x'' \<and> hd rest \<noteq> CHR ''X''"
  shows "scan_hex_nat (print_nat 16 n @ rest) = Some (int n, rest)"
proof -
  obtain c cs where p: "print_nat 16 n = c # cs" by (cases "print_nat 16 n") auto
  have d: "list_all (isdigit 16) (c # cs)" using print_nat_digits [of 16 n] p by simp
  have "scan_hex_nat (c # cs @ rest) = scan_nat 16 (c # cs @ rest)"
  proof (cases "cs @ rest")
    case (Cons x s)
    then have "x \<noteq> CHR ''x'' \<and> x \<noteq> CHR ''X''"
      using d assms(2) isdigit_not_x by (cases cs) auto
    then show ?thesis using Cons by simp
  qed simp
  with scan_nat_print [OF _ _ assms(1), of n] p show ?thesis by simp
qed

lemma dropWhile_isspace_print_nat:
  "2 \<le> base \<Longrightarrow> base \<le> 16 \<Longrightarrow> dropWhile isspace (print_nat base n @ rest) = print_nat base n @ rest"
  using print_nat_neq_sign(4) [of base n] by (cases "print_nat base n") auto

lemma print_int_Cons: "\<exists>c cs. print_int i = c # cs \<and> \<not> isspace c"
proof (cases "i < 0")
  case True
  then show ?thesis by (simp add: print_int_def isspace_def)
next
  case False
  then show ?thesis
    using print_nat_neq_sign(4) [of 10 "nat i"]
    by (cases "print_nat 10 (nat i)") (auto simp: print_int_def)
qed

text \<open>One directive of a format, applied to the text its counterpart printed.\<close>

named_theorems scan_simps \<open>one directive applied to printed text\<close>

lemma scan_all_d [scan_simps]:
  assumes "stops 10 rest"
  shows "scan_all (Conv_d # fs) b (print_int i @ rest)
    = (let (vs, e) = scan_all fs True rest in (Arg_int i # vs, e))"
proof -
  obtain c cs where "print_int i = c # cs" "\<not> isspace c" using print_int_Cons by blast
  with scan_int_print [OF assms, of i] show ?thesis by simp
qed

lemma scan_all_skip [scan_simps]:
  assumes "stops 10 rest"
  shows "scan_all (Skip_d # fs) b (print_int i @ rest) = scan_all fs True rest"
proof -
  obtain c cs where "print_int i = c # cs" "\<not> isspace c" using print_int_Cons by blast
  with scan_int_print [OF assms, of i] show ?thesis by (simp add: Let_def)
qed

lemma scan_all_u [scan_simps]:
  assumes "stops 10 rest"
  shows "scan_all (Conv_u # fs) b (print_uint w @ rest)
    = (let (vs, e) = scan_all fs True rest in (Arg_int (uint w) # vs, e))"
  using scan_nat_print [OF _ _ assms, of "unat w"] print_nat_neq_sign(4) [of 10 "unat w"]
    scan_sign_print_nat [of 10 "scan_nat 10" "unat w" rest]
  by (cases "print_nat 10 (unat w)") (auto simp: print_uint_def)

lemma scan_all_X [scan_simps]:
  assumes "stops 16 rest" and "rest \<noteq> [] \<Longrightarrow> hd rest \<noteq> CHR ''x'' \<and> hd rest \<noteq> CHR ''X''"
  shows "scan_all (Conv_X # fs) b (print_hex w @ rest)
    = (let (vs, e) = scan_all fs True rest in (Arg_int (uint w) # vs, e))"
  using scan_hex_print_nat [OF assms, of "unat w"] print_nat_neq_sign(4) [of 16 "unat w"]
    scan_sign_print_nat [of 16 scan_hex_nat "unat w" rest]
  by (cases "print_nat 16 (unat w)") (auto simp: print_hex_def)

lemma scan_all_lits [scan_simps]: "scan_all (lits s @ fs) b (s @ rest) = scan_all fs b rest"
  by (induction s) (auto simp: lits_def)

end
