(* ===== verification/Global_Tx.thy ===== *)
theory Global_Tx
  imports C_Strings "HOL-Library.AList" "HOL-Library.Monad_Syntax"
begin

text \<open>
  The voting state of a global transaction (\<open>src/src/include/global_tx.h\<close>,
  \<open>src/src/global_tx.c\<close>): terms and their order, the text form of a transaction state that
  Postgres keeps in the prepared transaction, and the shared table \<open>gid2gtx\<close> with the
  operations that lock, release, load and scan it.

  The table is an association list, in the order a sequential scan of the hash visits it.
  An entry made by \<^verbatim>\<open>HASH_ENTER\<close> keeps whatever bytes were there in the fields the code does not
  set; they are an argument of the operations that enter one. A failed \<open>Assert\<close> is \<open>None\<close>.
\<close>

section \<open>Terms\<close>

datatype GlobalTxTerm = GlobalTxTerm (ballot: int) (term_node_id: int)

definition InvalidGTxTerm :: GlobalTxTerm where
  "InvalidGTxTerm = GlobalTxTerm 0 0"

definition InitialGTxTerm :: GlobalTxTerm where
  "InitialGTxTerm = GlobalTxTerm 1 0"

definition term_cmp :: "GlobalTxTerm \<Rightarrow> GlobalTxTerm \<Rightarrow> int" where
  "term_cmp t1 t2 =
     (if ballot t1 < ballot t2 then -1
      else if ballot t1 = ballot t2 then
        (if term_node_id t1 < term_node_id t2 then -1
         else if term_node_id t1 = term_node_id t2 then 0
         else 1)
      else 1)"

text \<open>\<open>term_cmp\<close> is the comparison of a linear order, which the voting code relies on.\<close>

instantiation GlobalTxTerm :: linorder
begin

definition less_eq_GlobalTxTerm :: "GlobalTxTerm \<Rightarrow> GlobalTxTerm \<Rightarrow> bool" where
  "less_eq_GlobalTxTerm t1 t2 \<longleftrightarrow> term_cmp t1 t2 \<le> 0"

definition less_GlobalTxTerm :: "GlobalTxTerm \<Rightarrow> GlobalTxTerm \<Rightarrow> bool" where
  "less_GlobalTxTerm t1 t2 \<longleftrightarrow> term_cmp t1 t2 < 0"

instance
  by standard
    (auto simp: less_eq_GlobalTxTerm_def less_GlobalTxTerm_def term_cmp_def GlobalTxTerm.expand
      split: if_splits)

end

lemma term_cmp_order [simp]:
  "term_cmp t1 t2 < 0 \<longleftrightarrow> t1 < t2" "term_cmp t1 t2 \<le> 0 \<longleftrightarrow> t1 \<le> t2"
  "0 < term_cmp t1 t2 \<longleftrightarrow> t2 < t1" "0 \<le> term_cmp t1 t2 \<longleftrightarrow> t2 \<le> t1"
  "term_cmp t1 t2 = 0 \<longleftrightarrow> t1 = t2"
  by (auto simp: less_eq_GlobalTxTerm_def less_GlobalTxTerm_def term_cmp_def GlobalTxTerm.expand
      split: if_splits)

section \<open>Transaction state\<close>

datatype GlobalTxStatus = GTXInvalid | GTXPreCommitted | GTXPreAborted | GTXCommitted | GTXAborted

datatype GlobalTxResolvingStage = GTRS_AwaitStatus | GTRS_AwaitAcks

record GTxState =
  proposal :: GlobalTxTerm
  accepted :: GlobalTxTerm
  status :: GlobalTxStatus

record XactInfo =
  coordinator :: int
  xi_xid :: TransactionId
  xi_gen_num :: uint64
  xi_configured :: nodemask_t

record GlobalTx =
  gid :: string
  xinfo :: XactInfo
  coordinator_end_lsn :: XLogRecPtr
  acquired_by :: int
  gtx_state :: GTxState
  prepared :: bool
  orphaned :: bool
  phase1_acks :: "GTxState list"
  phase2_acks :: "GTxState list"
  resolver_stage :: GlobalTxResolvingStage

abbreviation InvalidBackendId :: int where "InvalidBackendId \<equiv> -1"

text \<open>What \<open>memset(..., 0, ...)\<close> leaves in the ack arrays.\<close>

definition zero_acks :: "GTxState list" where
  "zero_acks = replicate MTM_MAX_NODES
     \<lparr>proposal = InvalidGTxTerm, accepted = InvalidGTxTerm, status = GTXInvalid\<rparr>"

section \<open>The text form of a state\<close>

fun status_abbr :: "GlobalTxStatus \<Rightarrow> string" where
  "status_abbr GTXInvalid = ''in''"
| "status_abbr GTXPreCommitted = ''pc''"
| "status_abbr GTXPreAborted = ''pa''"
| "status_abbr GTXCommitted = ''cm''"
| "status_abbr GTXAborted = ''ab''"

abbreviation XStateVersion :: int where "XStateVersion \<equiv> 1"

definition serialize_xstate :: "XactInfo \<Rightarrow> GTxState \<Rightarrow> string" where
  "serialize_xstate xi st =
     print_int XStateVersion @ ''-'' @ print_int (coordinator xi) @ ''-'' @
     print_uint (xi_xid xi) @ ''-'' @ print_hex (xi_gen_num xi) @ ''-'' @
     print_hex (xi_configured xi) @ ''-'' @ status_abbr (status st) @ ''-'' @
     print_int (ballot (proposal st)) @ '':'' @ print_int (term_node_id (proposal st)) @ ''-'' @
     print_int (ballot (accepted st)) @ '':'' @ print_int (term_node_id (accepted st))"

definition xstate_format :: "conv list" where
  "xstate_format =
     Skip_d # lits ''-'' @ Conv_d # lits ''-'' @ Conv_u # lits ''-'' @ Conv_X # lits ''-'' @
     Conv_X # lits ''-'' @ Conv_s 2 # lits ''-'' @ Conv_d # lits '':'' @ Conv_d # lits ''-'' @
     Conv_d # lits '':'' @ [Conv_d]"

definition deserialize_xstate ::
  "string \<Rightarrow> XactInfo \<Rightarrow> GTxState \<Rightarrow> (int \<times> XactInfo \<times> GTxState) option" where
  "deserialize_xstate s xi st =
     (let (n_parsed, vs) = sscanf xstate_format s;
          abbr = arg_str vs 4 [];
          xi' = xi\<lparr>coordinator := arg_int vs 0 (coordinator xi),
                   xi_xid := arg_word vs 1 (xi_xid xi),
                   xi_gen_num := arg_word vs 2 (xi_gen_num xi),
                   xi_configured := arg_word vs 3 (xi_configured xi)\<rparr>;
          st' = st\<lparr>proposal := GlobalTxTerm (arg_int vs 5 (ballot (proposal st)))
                                          (arg_int vs 6 (term_node_id (proposal st))),
                   accepted := GlobalTxTerm (arg_int vs 7 (ballot (accepted st)))
                                          (arg_int vs 8 (term_node_id (accepted st)))\<rparr>
      in if n_parsed \<noteq> 9 then Some (n_parsed, xi', st')
         else if abbr = ''in'' then Some (0, xi', st'\<lparr>status := GTXInvalid\<rparr>)
         else if abbr = ''pc'' then Some (0, xi', st'\<lparr>status := GTXPreCommitted\<rparr>)
         else if abbr = ''pa'' then Some (0, xi', st'\<lparr>status := GTXPreAborted\<rparr>)
         else if abbr = ''cm'' then Some (0, xi', st'\<lparr>status := GTXCommitted\<rparr>)
         else if abbr = ''ab'' then Some (0, xi', st'\<lparr>status := GTXAborted\<rparr>)
         else None)"

lemma scan_all_status [scan_simps]:
  "scan_all (Conv_s 2 # fs) b (status_abbr s @ rest)
    = (let (vs, e) = scan_all fs True rest in (Arg_str (status_abbr s) # vs, e))"
  by (cases s) (simp_all add: isspace_def)

lemma scan_all_lit [scan_simps]: "scan_all (lits [c] @ fs) b (c # rest) = scan_all fs b rest"
  by (simp add: lits_def)

lemma scan_last_int [scan_simps]: "scan_all [Conv_d] b (print_int i) = ([Arg_int i], False)"
  using scan_all_d [of "[]" "[]" b i] by simp

lemma sscanf_serialized:
  "sscanf xstate_format (serialize_xstate xi st) = (9,
     [Arg_int (coordinator xi), Arg_int (uint (xi_xid xi)), Arg_int (uint (xi_gen_num xi)),
      Arg_int (uint (xi_configured xi)), Arg_str (status_abbr (status st)),
      Arg_int (ballot (proposal st)), Arg_int (term_node_id (proposal st)),
      Arg_int (ballot (accepted st)), Arg_int (term_node_id (accepted st))])"
  by (simp add: sscanf_def xstate_format_def serialize_xstate_def scan_simps
      del: scan_all.simps)

lemma xstate_rt: "deserialize_xstate (serialize_xstate xi st) xi0 st0 = Some (0, xi, st)"
  unfolding deserialize_xstate_def sscanf_serialized
  by (cases "status st") (simp_all add: arg_int_def arg_word_def arg_str_def nth_opt_def)

text \<open>
  C23. A transaction state read back from its text form is the state that was written, whatever
  the variables held before.
\<close>

theorem xstate_roundtrip:
  "deserialize_xstate (serialize_xstate xi st) xi0 st0 = Some (0, xi, st)"
  by (rule xstate_rt)

lemma deserialize_xstate_no_field: "deserialize_xstate ''x'' xi0 st0 = Some (0, xi0, st0)"
proof -
  have "sscanf xstate_format ''x'' = (0, [])" by code_simp
  then show ?thesis by (simp add: deserialize_xstate_def arg_int_def arg_word_def nth_opt_def)
qed

section \<open>The shared table\<close>

type_synonym gid2gtx = "(string \<times> GlobalTx) list"

definition new_gtx :: "GlobalTx \<Rightarrow> string \<Rightarrow> int \<Rightarrow> GlobalTx" where
  "new_gtx garbage g MyBackendId = garbage\<lparr>gid := g, acquired_by := MyBackendId,
     gtx_state := \<lparr>proposal = InitialGTxTerm, accepted = InvalidGTxTerm, status = GTXInvalid\<rparr>,
     prepared := False, orphaned := False, resolver_stage := GTRS_AwaitStatus,
     phase1_acks := zero_acks, phase2_acks := zero_acks\<rparr>"

datatype attempt = Locked bool | Absent | BusyOwn | Retry

text \<open>One round of the loop of \<open>GlobalTxAcquire\<close>, under the table lock.\<close>

definition GlobalTxAcquire_round ::
  "int \<Rightarrow> int \<Rightarrow> GlobalTx \<Rightarrow> string \<Rightarrow> bool \<Rightarrow> bool \<Rightarrow> int \<Rightarrow> gid2gtx \<Rightarrow> gid2gtx \<times> attempt" where
  "GlobalTxAcquire_round MyBackendId my_node_id garbage g create nowait_own_live coord tab =
     (case map_of tab g of
        None \<Rightarrow> if create then (AList.update g (new_gtx garbage g MyBackendId) tab, Locked False)
                else (tab, Absent)
      | Some gtx \<Rightarrow>
          if acquired_by gtx = InvalidBackendId
          then (AList.update g (gtx\<lparr>acquired_by := MyBackendId\<rparr>) tab, Locked True)
          else if nowait_own_live \<and> coord = my_node_id \<and> \<not> orphaned gtx then (tab, BusyOwn)
          else (tab, Retry))"

text \<open>
  The whole operation. Between two rounds the backend sleeps without the lock; what the other
  backends do to the table meanwhile is a list of table transformers, one per sleep. The result
  \<open>Waiting\<close> says that the entry was still locked after all of them.
\<close>

datatype acquired =
  Waiting gid2gtx
| AssertFailed
| Acquired gid2gtx "GlobalTx option" "bool option"
| NoWait gid2gtx

fun GlobalTxAcquire ::
  "int \<Rightarrow> int \<Rightarrow> GlobalTx \<Rightarrow> string \<Rightarrow> bool \<Rightarrow> bool \<Rightarrow> int \<Rightarrow> (gid2gtx \<Rightarrow> gid2gtx) list \<Rightarrow> gid2gtx \<Rightarrow> acquired"
  where
  "GlobalTxAcquire MyBackendId my_node_id garbage g create nowait_own_live coord sleeps tab =
     (case GlobalTxAcquire_round MyBackendId my_node_id garbage g create nowait_own_live coord tab of
        (tab', Absent) \<Rightarrow> Acquired tab' None (Some False)
      | (tab', BusyOwn) \<Rightarrow> NoWait tab'
      | (tab', Locked found) \<Rightarrow>
          (case map_of tab' g of
             None \<Rightarrow> AssertFailed
           | Some gtx \<Rightarrow>
               if found \<and> \<not> (prepared gtx \<and> status (gtx_state gtx) \<noteq> GTXCommitted \<and>
                               status (gtx_state gtx) \<noteq> GTXAborted)
               then AssertFailed else Acquired tab' (Some gtx) None)
      | (tab', Retry) \<Rightarrow>
          (case sleeps of
             [] \<Rightarrow> Waiting tab'
           | f # fs \<Rightarrow> GlobalTxAcquire MyBackendId my_node_id garbage g create nowait_own_live coord fs (f tab')))"

declare GlobalTxAcquire.simps [simp del]

definition GlobalTxRelease :: "int \<Rightarrow> string \<Rightarrow> gid2gtx \<Rightarrow> gid2gtx option" where
  "GlobalTxRelease MyBackendId g tab =
     (case map_of tab g of
        None \<Rightarrow> None
      | Some gtx \<Rightarrow>
          if acquired_by gtx \<noteq> MyBackendId then None
          else if status (gtx_state gtx) = GTXCommitted \<or> status (gtx_state gtx) = GTXAborted \<or>
                  \<not> prepared gtx
          then Some (AList.delete g tab)
          else Some (AList.update g (gtx\<lparr>acquired_by := InvalidBackendId\<rparr>) tab))"

definition GlobalTxAtExit :: "int \<Rightarrow> string option \<Rightarrow> gid2gtx \<Rightarrow> gid2gtx option" where
  "GlobalTxAtExit MyBackendId my_locked_gtx tab =
     (case my_locked_gtx of None \<Rightarrow> Some tab | Some g \<Rightarrow> GlobalTxRelease MyBackendId g tab)"

definition loaded_gtx :: "GlobalTx \<Rightarrow> string \<Rightarrow> XactInfo \<Rightarrow> GTxState \<Rightarrow> GlobalTx" where
  "loaded_gtx garbage g xi st = garbage\<lparr>gid := g, acquired_by := InvalidBackendId, xinfo := xi,
     gtx_state := st, prepared := True, orphaned := True, resolver_stage := GTRS_AwaitStatus,
     phase1_acks := zero_acks, phase2_acks := zero_acks\<rparr>"

fun load_gxacts :: "GlobalTx \<Rightarrow> (string \<times> string) list \<Rightarrow> gid2gtx \<Rightarrow> gid2gtx option" where
  "load_gxacts garbage [] tab = Some tab"
| "load_gxacts garbage ((g, state_3pc) # pxacts) tab =
     (if map_of tab g \<noteq> None then None
      else do {
        (rc, xi, st) \<leftarrow> deserialize_xstate state_3pc (xinfo garbage) (gtx_state garbage);
        load_gxacts garbage pxacts
          (if rc \<noteq> 0 then tab
           else AList.update g (loaded_gtx garbage g xi st) tab)
      })"

definition GlobalTxLoadAll :: "GlobalTx \<Rightarrow> (string \<times> string) list \<Rightarrow> gid2gtx \<Rightarrow> gid2gtx option" where
  "GlobalTxLoadAll garbage pxacts tab =
     load_gxacts garbage pxacts (fold (\<lambda>(g, _). AList.delete g) tab tab)"

definition GlobalTxGetMaxProposal :: "gid2gtx \<Rightarrow> GlobalTxTerm" where
  "GlobalTxGetMaxProposal tab =
     fold (\<lambda>(g, gtx) max_prop.
       if term_cmp max_prop (proposal (gtx_state gtx)) < 0 then proposal (gtx_state gtx) else max_prop)
     tab (GlobalTxTerm 0 0)"

definition GlobalTxMarkOrphaned :: "int \<Rightarrow> gid2gtx \<Rightarrow> gid2gtx" where
  "GlobalTxMarkOrphaned node_id tab =
     map (\<lambda>(g, gtx). (g, if coordinator (xinfo gtx) = node_id then gtx\<lparr>orphaned := True\<rparr> else gtx)) tab"

section \<open>The table invariant\<close>

definition gtx_final :: "GlobalTx \<Rightarrow> bool" where
  "gtx_final gtx \<longleftrightarrow> status (gtx_state gtx) = GTXCommitted \<or> status (gtx_state gtx) = GTXAborted"

text \<open>An entry nobody holds is prepared and not finished; keys are the gids, without repetition.\<close>

definition gtx_table_ok :: "gid2gtx \<Rightarrow> bool" where
  "gtx_table_ok tab \<longleftrightarrow> distinct (map fst tab) \<and>
     list_all (\<lambda>(g, gtx). gid gtx = g \<and>
       (acquired_by gtx = InvalidBackendId \<longrightarrow> prepared gtx \<and> \<not> gtx_final gtx)) tab"

lemma gtx_table_ok_iff:
  "gtx_table_ok tab \<longleftrightarrow> distinct (map fst tab) \<and>
     (\<forall>g gtx. map_of tab g = Some gtx \<longrightarrow> gid gtx = g \<and>
       (acquired_by gtx = InvalidBackendId \<longrightarrow> prepared gtx \<and> \<not> gtx_final gtx))"
  unfolding gtx_table_ok_def list_all_iff by (auto dest: map_of_SomeD)

lemma gtx_table_okD:
  assumes "gtx_table_ok tab" and "map_of tab g = Some gtx"
  shows "gid gtx = g" and "acquired_by gtx = InvalidBackendId \<Longrightarrow> prepared gtx \<and> \<not> gtx_final gtx"
  using assms unfolding gtx_table_ok_iff by blast+

lemma gtx_table_ok_update:
  assumes "gtx_table_ok tab" and "gid gtx = g"
    and "acquired_by gtx = InvalidBackendId \<Longrightarrow> prepared gtx \<and> \<not> gtx_final gtx"
  shows "gtx_table_ok (AList.update g gtx tab)"
  using assms unfolding gtx_table_ok_iff by (auto simp: update_conv' distinct_update)

lemma gtx_table_ok_delete: "gtx_table_ok tab \<Longrightarrow> gtx_table_ok (AList.delete g tab)"
  unfolding gtx_table_ok_iff by (auto simp: delete_conv' distinct_delete split: if_splits)

lemma gtx_table_ok_Nil [simp]: "gtx_table_ok []"
  by (simp add: gtx_table_ok_def)

lemma new_gtx_fields [simp]:
  "gid (new_gtx garbage g b) = g" "acquired_by (new_gtx garbage g b) = b"
  by (simp_all add: new_gtx_def)

lemma GlobalTxAcquire_round_ok:
  assumes "gtx_table_ok tab" and "b \<noteq> InvalidBackendId"
    and "GlobalTxAcquire_round b my_node garbage g create nowait coord tab = (tab', r)"
  shows "gtx_table_ok tab'"
  using assms
  by (auto simp: GlobalTxAcquire_round_def gtx_table_okD intro!: gtx_table_ok_update
      split: option.splits if_splits)

lemma GlobalTxAcquire_round_Locked:
  assumes "gtx_table_ok tab" and "b \<noteq> InvalidBackendId"
    and "GlobalTxAcquire_round b my_node garbage g create nowait coord tab = (tab', Locked found)"
  obtains gtx where "map_of tab' g = Some gtx" and "acquired_by gtx = b"
    and "found \<Longrightarrow> prepared gtx \<and> \<not> gtx_final gtx"
    and "found \<Longrightarrow> \<exists>old. map_of tab g = Some old \<and> acquired_by old = InvalidBackendId \<and>
           gtx = old\<lparr>acquired_by := b\<rparr>"
    and "\<not> found \<Longrightarrow> create \<and> map_of tab g = None \<and> gtx = new_gtx garbage g b"
  using assms gtx_table_okD(2) [OF assms(1)]
  by (auto simp: GlobalTxAcquire_round_def update_conv' gtx_final_def split: option.splits if_splits)

text \<open>What a caller of \<open>GlobalTxAcquire\<close> may rely on.\<close>

fun acquire_post :: "int \<Rightarrow> string \<Rightarrow> bool \<Rightarrow> GlobalTx \<Rightarrow> acquired \<Rightarrow> bool" where
  "acquire_post b g create garbage (Waiting tab) = gtx_table_ok tab"
| "acquire_post b g create garbage AssertFailed = False"
| "acquire_post b g create garbage (Acquired tab None busy) =
     (gtx_table_ok tab \<and> \<not> create \<and> map_of tab g = None \<and> busy = Some False)"
| "acquire_post b g create garbage (Acquired tab (Some gtx) busy) =
     (gtx_table_ok tab \<and> map_of tab g = Some gtx \<and> acquired_by gtx = b \<and> busy = None \<and>
      (prepared gtx \<and> \<not> gtx_final gtx \<or> create \<and> gtx = new_gtx garbage g b))"
| "acquire_post b g create garbage (NoWait tab) =
     (gtx_table_ok tab \<and> (\<exists>gtx. map_of tab g = Some gtx \<and> acquired_by gtx \<noteq> InvalidBackendId \<and>
        \<not> orphaned gtx))"

lemma GlobalTxAcquire_settled:
  assumes "gtx_table_ok tab" and "b \<noteq> InvalidBackendId" and "r \<noteq> Retry"
    and round: "GlobalTxAcquire_round b my_node garbage g create nowait coord tab = (tab', r)"
  shows "acquire_post b g create garbage
    (GlobalTxAcquire b my_node garbage g create nowait coord sleeps tab)"
proof (cases r)
  case (Locked found)
  note ok = GlobalTxAcquire_round_ok [OF assms(1,2) round]
  from round Locked have round': "GlobalTxAcquire_round b my_node garbage g create nowait coord tab = (tab', Locked found)"
    by simp
  then show ?thesis
    by (rule GlobalTxAcquire_round_Locked [OF assms(1,2)])
      (use round' ok in \<open>auto simp: GlobalTxAcquire.simps gtx_final_def\<close>)
next
  case Absent
  with assms(1) round show ?thesis
    by (auto simp: GlobalTxAcquire.simps GlobalTxAcquire_round_def split: option.splits if_splits)
next
  case BusyOwn
  with assms(1) round show ?thesis
    by (auto simp: GlobalTxAcquire.simps GlobalTxAcquire_round_def split: option.splits if_splits)
qed (use assms(3) in simp)

lemma GlobalTxAcquire_round_Retry:
  "GlobalTxAcquire_round b my_node garbage g create nowait coord tab = (tab', Retry) \<Longrightarrow> tab' = tab"
  by (auto simp: GlobalTxAcquire_round_def split: option.splits if_splits)

lemma GlobalTxAcquire_post:
  assumes "gtx_table_ok tab" and "b \<noteq> InvalidBackendId"
    and "\<forall>f\<in>set sleeps. \<forall>t. gtx_table_ok t \<longrightarrow> gtx_table_ok (f t)"
  shows "acquire_post b g create garbage
    (GlobalTxAcquire b my_node garbage g create nowait coord sleeps tab)"
  using assms(1,3)
proof (induction sleeps arbitrary: tab)
  case Nil
  obtain tab' r where r: "GlobalTxAcquire_round b my_node garbage g create nowait coord tab = (tab', r)"
    by fastforce
  show ?case
  proof (cases "r = Retry")
    case True
    with r GlobalTxAcquire_round_ok [OF Nil(1) assms(2) r] show ?thesis
      by (simp add: GlobalTxAcquire.simps)
  next
    case False
    with r Nil assms(2) show ?thesis by (blast intro: GlobalTxAcquire_settled)
  qed
next
  case (Cons f fs)
  obtain tab' r where r: "GlobalTxAcquire_round b my_node garbage g create nowait coord tab = (tab', r)"
    by fastforce
  show ?case
  proof (cases "r = Retry")
    case True
    with r have "tab' = tab" by (simp add: GlobalTxAcquire_round_Retry)
    with r True have "GlobalTxAcquire b my_node garbage g create nowait coord (f # fs) tab =
        GlobalTxAcquire b my_node garbage g create nowait coord fs (f tab)"
      by (subst GlobalTxAcquire.simps) auto
    with Cons show ?thesis by simp
  next
    case False
    with r Cons.prems assms(2) show ?thesis by (blast intro: GlobalTxAcquire_settled)
  qed
qed

lemma GlobalTxRelease_ok:
  "gtx_table_ok tab \<Longrightarrow> GlobalTxRelease b g tab = Some tab' \<Longrightarrow> gtx_table_ok tab'"
  by (auto simp: GlobalTxRelease_def gtx_table_okD gtx_final_def
      intro!: gtx_table_ok_update gtx_table_ok_delete split: option.splits if_splits)

section \<open>The entry lock\<close>

text \<open>
  The interface under which the committing backend, the appliers, the replier and the resolver
  share an entry: an owner is recorded in the entry, only a free entry can be acquired, only its
  owner can release it, and neither operation touches another entry.
\<close>

primrec run_locks ::
  "('b \<Rightarrow> 'k \<Rightarrow> 's \<Rightarrow> 's option) \<Rightarrow> ('b \<Rightarrow> 'k \<Rightarrow> 's \<Rightarrow> 's option) \<Rightarrow>
   (bool \<times> 'b \<times> 'k) list \<Rightarrow> 's \<Rightarrow> 's option" where
  "run_locks acquire release [] s = Some s"
| "run_locks acquire release (op # ops) s = (case op of (acq, b, k) \<Rightarrow>
     Option.bind (if acq then acquire b k s else release b k s) (run_locks acquire release ops))"

locale entry_lock =
  fixes entry :: "'s \<Rightarrow> 'k \<Rightarrow> 'v option"
    and owner :: "'v \<Rightarrow> 'b option"
    and acquire :: "'b \<Rightarrow> 'k \<Rightarrow> 's \<Rightarrow> 's option"
    and release :: "'b \<Rightarrow> 'k \<Rightarrow> 's \<Rightarrow> 's option"
  assumes acquire_free: "acquire b k s = Some s' \<Longrightarrow> entry s k = Some v \<Longrightarrow> owner v = None"
    and acquire_owns: "acquire b k s = Some s' \<Longrightarrow> \<exists>v. entry s' k = Some v \<and> owner v = Some b"
    and acquire_frame: "acquire b k s = Some s' \<Longrightarrow> k' \<noteq> k \<Longrightarrow> entry s' k' = entry s k'"
    and release_owned: "release b k s = Some s' \<Longrightarrow> \<exists>v. entry s k = Some v \<and> owner v = Some b"
    and release_frees: "release b k s = Some s' \<Longrightarrow> entry s' k = Some v \<Longrightarrow> owner v = None"
    and release_frame: "release b k s = Some s' \<Longrightarrow> k' \<noteq> k \<Longrightarrow> entry s' k' = entry s k'"
begin

text \<open>Nobody gets at an entry between its acquisition and its release.\<close>

lemma critical_section:
  assumes "run_locks acquire release ops s = Some s'" and "entry s k = Some v" and "owner v = Some b"
    and "(False, b, k) \<notin> set ops"
  shows "entry s' k = Some v"
  using assms
proof (induction ops arbitrary: s)
  case (Cons op ops)
  obtain acq c j where op: "op = (acq, c, j)" by (cases op)
  with Cons.prems(1) obtain s1 where
    s1: "(if acq then acquire c j s else release c j s) = Some s1" "run_locks acquire release ops s1 = Some s'"
    by (auto simp: Option.bind_eq_Some_conv split: if_splits)
  have "j \<noteq> k"
  proof
    assume "j = k"
    then show False
      using s1(1) op Cons.prems(2,3,4) acquire_free release_owned by (cases acq) fastforce+
  qed
  then have "entry s1 k = Some v"
    using s1(1) Cons.prems(2) acquire_frame release_frame by (auto split: if_splits)
  with s1(2) Cons show ?case by simp
qed simp

lemma no_second_owner:
  "entry s k = Some v \<Longrightarrow> owner v = Some b \<Longrightarrow> acquire c k s = None"
  using acquire_free by (cases "acquire c k s") auto

end

text \<open>The table provides this interface.\<close>

definition gtx_owner :: "GlobalTx \<Rightarrow> int option" where
  "gtx_owner gtx = (if acquired_by gtx = InvalidBackendId then None else Some (acquired_by gtx))"

lemma gtx_owner_iff:
  "gtx_owner gtx = None \<longleftrightarrow> acquired_by gtx = InvalidBackendId"
  "gtx_owner gtx = Some b \<longleftrightarrow> acquired_by gtx = b \<and> b \<noteq> InvalidBackendId"
  by (auto simp: gtx_owner_def)

definition try_acquire ::
  "int \<Rightarrow> GlobalTx \<Rightarrow> bool \<Rightarrow> bool \<Rightarrow> int \<Rightarrow> int \<Rightarrow> string \<Rightarrow> gid2gtx \<Rightarrow> gid2gtx option" where
  "try_acquire my_node garbage create nowait coord b g tab =
     (if b = InvalidBackendId then None
      else case GlobalTxAcquire_round b my_node garbage g create nowait coord tab of
        (tab', Locked _) \<Rightarrow> Some tab' | _ \<Rightarrow> None)"

definition try_release :: "int \<Rightarrow> string \<Rightarrow> gid2gtx \<Rightarrow> gid2gtx option" where
  "try_release b g tab = (if b = InvalidBackendId then None else GlobalTxRelease b g tab)"

interpretation gtx_lock: entry_lock map_of gtx_owner
  "try_acquire my_node garbage create nowait coord" try_release
  for my_node garbage create nowait coord
  by unfold_locales
    (auto simp: try_acquire_def try_release_def GlobalTxAcquire_round_def GlobalTxRelease_def
      gtx_owner_iff update_conv' delete_conv' split: option.splits if_splits)

text \<open>
  From any table in which unowned entries are prepared and unfinished, and as long as the
  other backends keep it so while this one sleeps, \<open>GlobalTxAcquire\<close> never trips an assertion;
  it keeps the table in that state and hands over either the locked entry (an unfinished
  prepared one, or a fresh one it was asked to create), or nothing, when there is none or when
  the caller asked not to wait for a live local transaction.
\<close>

theorem GlobalTxAcquire_safe:
  assumes "gtx_table_ok tab" and "MyBackendId \<noteq> InvalidBackendId"
    and "\<forall>f\<in>set sleeps. \<forall>t. gtx_table_ok t \<longrightarrow> gtx_table_ok (f t)"
  shows "acquire_post MyBackendId g create garbage
    (GlobalTxAcquire MyBackendId my_node garbage g create nowait coord sleeps tab)"
  by (rule GlobalTxAcquire_post [OF assms])

definition sample_gtx :: "int \<Rightarrow> GlobalTx" where
  "sample_gtx owner = \<lparr>gid = ''T'',
     xinfo = \<lparr>coordinator = 2, xi_xid = 700, xi_gen_num = 3, xi_configured = 7\<rparr>,
     coordinator_end_lsn = 0, acquired_by = owner,
     gtx_state = \<lparr>proposal = InitialGTxTerm, accepted = InitialGTxTerm, status = GTXPreCommitted\<rparr>,
     prepared = True, orphaned = False, phase1_acks = zero_acks, phase2_acks = zero_acks,
     resolver_stage = GTRS_AwaitStatus\<rparr>"

theorem GlobalTxAcquire_safe_witness:
  "gtx_table_ok [(''T'', sample_gtx 5)] \<and>
   acquire_post 4 ''T'' False (sample_gtx 0)
     (GlobalTxAcquire 4 1 (sample_gtx 0) ''T'' False False 2 [\<lambda>_. [(''T'', sample_gtx (-1))]]
        [(''T'', sample_gtx 5)])"
proof -
  have ok: "gtx_table_ok [(''T'', sample_gtx 5)]" "gtx_table_ok [(''T'', sample_gtx (-1))]"
    by (simp_all add: gtx_table_ok_def sample_gtx_def gtx_final_def)
  with GlobalTxAcquire_safe [of "[(''T'', sample_gtx 5)]" 4 "[\<lambda>_. [(''T'', sample_gtx (-1))]]"
      "''T''" False "sample_gtx 0" 1 False 2]
  show ?thesis by simp
qed

text \<open>
  C24. While a backend holds an entry, no sequence of acquisitions and releases by the backends
  changes that entry before the holder's own release.
\<close>

theorem gtx_critical_section:
  assumes "run_locks (try_acquire my_node garbage create nowait coord) try_release ops tab = Some tab'"
    and "map_of tab g = Some gtx" and "acquired_by gtx = b" and "b \<noteq> InvalidBackendId"
    and "(False, b, g) \<notin> set ops"
  shows "map_of tab' g = Some gtx"
  using gtx_lock.critical_section [OF assms(1,2) _ assms(5)] assms(3,4) by (simp add: gtx_owner_iff)

theorem gtx_critical_section_witness:
  "\<exists>tab'. run_locks (try_acquire 1 (sample_gtx 0) True False 1) try_release
     [(True, 7, ''U''), (False, 7, ''U'')] [(''T'', sample_gtx 5)] = Some tab' \<and>
     map_of tab' ''T'' = Some (sample_gtx 5)"
proof -
  have "run_locks (try_acquire 1 (sample_gtx 0) True False 1) try_release
     [(True, 7, ''U''), (False, 7, ''U'')] [(''T'', sample_gtx 5)] = Some [(''T'', sample_gtx 5)]"
    by (simp add: try_acquire_def try_release_def GlobalTxAcquire_round_def GlobalTxRelease_def
        new_gtx_def)
  with gtx_critical_section [OF this, of "''T''" "sample_gtx 5" 5] show ?thesis
    by (simp add: sample_gtx_def)
qed

section \<open>Scans of the table\<close>

lemma term_cmp_max: "(if term_cmp m p < 0 then p else m) = max m p"
  unfolding term_cmp_order by (auto simp: max_def)

lemma fold_max_prop:
  "fold (\<lambda>(g, gtx) m. max m (proposal (gtx_state gtx))) tab m0 = Max (insert m0 ((\<lambda>(g, gtx). proposal (gtx_state gtx)) ` set tab))"
proof (induction tab arbitrary: m0)
  case (Cons e tab)
  obtain g gtx where e: "e = (g, gtx)" by (cases e)
  let ?S = "(\<lambda>(g, gtx). proposal (gtx_state gtx)) ` set tab"
  have "Max (insert (max m0 (proposal (gtx_state gtx))) ?S) =
      Max (insert m0 (insert (proposal (gtx_state gtx)) ?S))"
    by (cases "?S = {}") (auto simp: max.assoc)
  then show ?case
    by (simp only: e fold_simps prod.case Cons.IH list.set image_insert)
qed simp

lemma GlobalTxGetMaxProposal_Max:
  "GlobalTxGetMaxProposal tab =
     Max (insert InvalidGTxTerm ((\<lambda>(g, gtx). proposal (gtx_state gtx)) ` set tab))"
  unfolding GlobalTxGetMaxProposal_def term_cmp_max fold_max_prop InvalidGTxTerm_def ..

lemma GlobalTxGetMaxProposal_upper:
  "map_of tab g = Some gtx \<Longrightarrow> proposal (gtx_state gtx) \<le> GlobalTxGetMaxProposal tab"
  unfolding GlobalTxGetMaxProposal_Max by (rule Max_ge) (auto dest!: map_of_SomeD)

lemma GlobalTxMarkOrphaned_lookup:
  "map_of (GlobalTxMarkOrphaned node tab) g =
     map_option (\<lambda>gtx. if coordinator (xinfo gtx) = node then gtx\<lparr>orphaned := True\<rparr> else gtx) (map_of tab g)"
  by (simp add: GlobalTxMarkOrphaned_def map_of_map)

lemma GlobalTxMarkOrphaned_ok:
  assumes "gtx_table_ok tab"
  shows "gtx_table_ok (GlobalTxMarkOrphaned node tab)"
proof -
  have "map fst (GlobalTxMarkOrphaned node tab) = map fst tab"
    by (auto simp: GlobalTxMarkOrphaned_def)
  with assms show ?thesis
    unfolding gtx_table_ok_iff GlobalTxMarkOrphaned_lookup
    by (auto simp: gtx_final_def split: if_splits)
qed

section \<open>Loading the table at startup\<close>

lemma delete_all_keys: "fold (\<lambda>(g, _). AList.delete g) tab tab' = filter (\<lambda>(k, _). k \<notin> fst ` set tab) tab'"
proof (induction tab arbitrary: tab')
  case (Cons e tab)
  obtain g v where e: "e = (g, v)" by (cases e)
  show ?case
    using Cons.IH [of "AList.delete g tab'"] by (auto simp: e AList.delete_eq intro: filter_cong)
qed simp

lemma GlobalTxLoadAll_clears: "GlobalTxLoadAll garbage pxacts tab = load_gxacts garbage pxacts []"
proof -
  have "filter (\<lambda>(k, _). k \<notin> fst ` set tab) tab = []"
    by (rule filter_False) force
  then show ?thesis by (simp add: GlobalTxLoadAll_def delete_all_keys)
qed

definition print_gxacts :: "(string \<times> XactInfo \<times> GTxState) list \<Rightarrow> (string \<times> string) list" where
  "print_gxacts xs = map (\<lambda>(g, xi, st). (g, serialize_xstate xi st)) xs"

definition unfinished :: "(string \<times> XactInfo \<times> GTxState) list \<Rightarrow> bool" where
  "unfinished xs = list_all (\<lambda>(g, xi, st). status st \<noteq> GTXCommitted \<and> status st \<noteq> GTXAborted) xs"

lemma load_gxacts_spec:
  assumes "distinct (map fst xs)" and "unfinished xs" and "gtx_table_ok tab"
    and "fst ` set xs \<inter> fst ` set tab = {}"
  shows "\<exists>tab'. load_gxacts garbage (print_gxacts xs) tab = Some tab' \<and> gtx_table_ok tab' \<and>
    (\<forall>g. map_of tab' g = (case map_of xs g of
       Some (xi, st) \<Rightarrow> Some (loaded_gtx garbage g xi st) | None \<Rightarrow> map_of tab g))"
  using assms
proof (induction xs arbitrary: tab)
  case Nil
  then show ?case by (simp add: print_gxacts_def)
next
  case (Cons x xs)
  obtain g xi st where x: "x = (g, xi, st)" by (cases x)
  let ?tab = "AList.update g (loaded_gtx garbage g xi st) tab"
  have new: "map_of tab g = None" using Cons.prems(4) by (auto simp: x map_of_eq_None_iff)
  have ok: "gtx_table_ok ?tab"
    using Cons.prems(2,3)
    by (intro gtx_table_ok_update) (auto simp: loaded_gtx_def gtx_final_def unfinished_def x)
  have "fst ` set xs \<inter> fst ` set ?tab = {}"
    using Cons.prems(1,4) by (auto simp: x dom_update)
  with Cons.IH [of ?tab] Cons.prems(1,2) ok obtain tab' where
    "load_gxacts garbage (print_gxacts xs) ?tab = Some tab'" "gtx_table_ok tab'"
    "\<forall>k. map_of tab' k = (case map_of xs k of
       Some (xi, st) \<Rightarrow> Some (loaded_gtx garbage k xi st) | None \<Rightarrow> map_of ?tab k)"
    by (auto simp: unfinished_def)
  moreover have "map_of xs g = None" using Cons.prems(1) by (auto simp: x map_of_eq_None_iff)
  moreover have "load_gxacts garbage (print_gxacts (x # xs)) tab = load_gxacts garbage (print_gxacts xs) ?tab"
    using new by (simp add: print_gxacts_def x xstate_rt)
  ultimately show ?case by (auto simp: x update_conv' split: option.splits)
qed

text \<open>
  At startup the table holds exactly the prepared transactions Postgres kept, each with the
  coordinator, xid, generation, terms and vote it had when it was saved, unowned and marked for
  the resolver, whatever the table held before; an unfinished vote is never lost.
\<close>

theorem GlobalTxLoadAll_restores:
  assumes "distinct (map fst xs)" and "unfinished xs"
  shows "\<exists>tab'. GlobalTxLoadAll garbage (print_gxacts xs) tab = Some tab' \<and> gtx_table_ok tab' \<and>
    (\<forall>g. map_of tab' g = map_option (\<lambda>(xi, st). loaded_gtx garbage g xi st) (map_of xs g))"
proof -
  obtain tab' where tab': "load_gxacts garbage (print_gxacts xs) [] = Some tab'" "gtx_table_ok tab'"
    "\<forall>g. map_of tab' g = (case map_of xs g of
       Some (xi, st) \<Rightarrow> Some (loaded_gtx garbage g xi st) | None \<Rightarrow> map_of [] g)"
    using load_gxacts_spec [OF assms gtx_table_ok_Nil, of garbage] by auto
  have "map_of tab' g = map_option (\<lambda>(xi, st). loaded_gtx garbage g xi st) (map_of xs g)" for g
    using tab'(3) by (cases "map_of xs g") auto
  with tab'(1,2) show ?thesis unfolding GlobalTxLoadAll_clears by blast
qed

theorem GlobalTxLoadAll_restores_witness:
  "\<exists>tab'. GlobalTxLoadAll (sample_gtx 0)
       (print_gxacts [(''T'', xinfo (sample_gtx 0), gtx_state (sample_gtx 0))]) [] = Some tab' \<and>
     gtx_table_ok tab'"
  using GlobalTxLoadAll_restores
    [of "[(''T'', xinfo (sample_gtx 0), gtx_state (sample_gtx 0))]" "sample_gtx 0" "[]"]
  by (auto simp: unfinished_def sample_gtx_def)

text \<open>
  A saved state of which no field can be read is not rejected: the failure code is the number
  of fields read, 0, which the loader takes for success, and the entry enters the table with the
  transaction data and the vote that happened to be in the memory of the new entry.
\<close>

theorem GlobalTxLoadAll_accepts_garbage:
  "GlobalTxLoadAll garbage [(g, ''x'')] tab =
     Some [(g, loaded_gtx garbage g (xinfo garbage) (gtx_state garbage))]"
  by (simp add: GlobalTxLoadAll_clears deserialize_xstate_no_field)

section \<open>The text form shown to users\<close>

fun GlobalTxStatusMnem :: "GlobalTxStatus \<Rightarrow> string" where
  "GlobalTxStatusMnem GTXInvalid = ''GTXInvalid''"
| "GlobalTxStatusMnem GTXPreCommitted = ''GTXPreCommitted''"
| "GlobalTxStatusMnem GTXPreAborted = ''GTXPreAborted''"
| "GlobalTxStatusMnem GTXCommitted = ''GTXCommitted''"
| "GlobalTxStatusMnem GTXAborted = ''GTXAborted''"

definition print_term :: "GlobalTxTerm \<Rightarrow> string" where
  "print_term t = ''['' @ print_int (ballot t) @ '', '' @ print_int (term_node_id t) @ '']''"

definition GlobalTxStateToString :: "GTxState \<Rightarrow> string" where
  "GlobalTxStateToString st = ''{'' @
     ''\"status\": \"'' @ GlobalTxStatusMnem (status st) @ ''\"'' @
     '', \"proposal\": '' @ print_term (proposal st) @
     '', \"accepted\": '' @ print_term (accepted st) @ ''}''"

definition print_acks :: "GTxState list \<Rightarrow> string" where
  "print_acks acks = snd (fold (\<lambda>ack (empty, s).
       if status ack = GTXInvalid then (empty, s)
       else (False, s @ (if empty then [] else '', '') @ GlobalTxStateToString ack)) acks (True, []))"

definition print_bool :: "bool \<Rightarrow> string" where
  "print_bool b = (if b then ''true'' else ''false'')"

fun resolver_stage_code :: "GlobalTxResolvingStage \<Rightarrow> int" where
  "resolver_stage_code GTRS_AwaitStatus = 0"
| "resolver_stage_code GTRS_AwaitAcks = 1"

definition print_gtx_head :: "GlobalTx \<Rightarrow> string" where
  "print_gtx_head gtx = ''{'' @
     ''\"gid\": \"'' @ gid gtx @ ''\"'' @
     '', \"coordinator_end_lsn\": \"'' @
       print_hex (ucast (drop_bit 32 (coordinator_end_lsn gtx)) :: uint32) @ ''/'' @
       print_hex (ucast (coordinator_end_lsn gtx) :: uint32) @ ''\"'' @
     '', \"state.status\": \"'' @ GlobalTxStatusMnem (status (gtx_state gtx)) @ ''\"'' @
     '', \"state.proposal\": '' @ print_term (proposal (gtx_state gtx)) @
     '', \"state.accepted\": '' @ print_term (accepted (gtx_state gtx)) @
     '', \"orphaned\": '' @ print_bool (orphaned gtx) @
     '', \"prepared\": '' @ print_bool (prepared gtx) @
     '', \"resolver_stage\": '' @ print_int (resolver_stage_code (resolver_stage gtx)) @
     '', \"phase1_acks\": ['' @ print_acks (phase1_acks gtx)"

definition GlobalTxToString :: "GlobalTx \<Rightarrow> string" where
  "GlobalTxToString gtx = print_gtx_head gtx @ ''], '' @
     '', \"phase2_acks\": ['' @ print_acks (phase2_acks gtx) @ '']}''"

lemma GlobalTxToString_double_comma:
  "\<exists>pre post. GlobalTxToString gtx = pre @ '', , '' @ post"
  by (rule exI [of _ "print_gtx_head gtx @ '']''"],
      rule exI [of _ "''\"phase2_acks\": ['' @ print_acks (phase2_acks gtx) @ '']}''"])
    (simp add: GlobalTxToString_def)

end
