(* ===== verification/Messaging.thy ===== *)
theory Messaging
  imports Nodemask Global_Tx
begin

text \<open>
  Network messages (\<open>src/src/include/messaging.h\<close>) and their packing (\<open>MtmMessagePack\<close> and
  \<open>MtmMessageUnpack\<close> of \<open>src/src/multimaster.c\<close>), together with the generation descriptor of
  \<open>src/src/include/state.h\<close> that several of them carry.

  The byte encodings themselves are Postgres's \<open>pqformat\<close>, which is not part of the repository:
  the functions it offers are the fields of a record that packing and unpacking take as an
  argument, and what the code relies on, that reading back gives the written value and leaves
  the rest of the buffer, is the predicate \<open>pq_ok\<close>. The big-endian encoding that \<open>pqformat\<close>
  documents is shown to satisfy it.
\<close>

section \<open>Generations\<close>

record MtmGeneration =
  num :: uint64
  members :: uint64
  configured :: uint64

abbreviation MtmInvalidGenNum :: uint64 where "MtmInvalidGenNum \<equiv> 0"
abbreviation MtmInvalidNodeId :: int where "MtmInvalidNodeId \<equiv> 0"

definition EQUAL_GENS :: "MtmGeneration \<Rightarrow> MtmGeneration \<Rightarrow> bool" where
  "EQUAL_GENS g1 g2 = (num g1 = num g2 \<and> members g1 = members g2 \<and> configured g1 = configured g2)"

definition IS_REFEREE_GEN :: "nodemask_t \<Rightarrow> nodemask_t \<Rightarrow> bool" where
  "IS_REFEREE_GEN mem conf = (popcount conf = 2 \<and> popcount mem = 1)"

lemma EQUAL_GENS_iff [simp]: "EQUAL_GENS g1 g2 \<longleftrightarrow> g1 = (g2 :: MtmGeneration)"
  by (auto simp: EQUAL_GENS_def)

section \<open>Messages\<close>

record MtmPrepareResponse =
  pr_node_id :: int
  pr_prepared :: bool
  pr_errcode :: int
  pr_errmsg :: string
  pr_xid :: TransactionId

record Mtm2AResponse =
  a2_node_id :: int
  a2_status :: GlobalTxStatus
  a2_accepted_term :: GlobalTxTerm
  a2_errcode :: int
  a2_errmsg :: string
  a2_gid :: string

datatype MtmTxRequestValue = MTReq_Abort | MTReq_Commit | MTReq_Precommit | MTReq_Preabort | MTReq_Status

record MtmTxRequest =
  rq_type :: MtmTxRequestValue
  rq_term :: GlobalTxTerm
  rq_gid :: string
  rq_coordinator :: int
  rq_gen_num :: uint64
  rq_coordinator_end_lsn :: XLogRecPtr

record MtmTxStatusResponse =
  sr_node_id :: int
  sr_state :: GTxState
  sr_gid :: string

record MtmHeartbeat =
  hb_current_gen :: MtmGeneration
  hb_donors :: uint64
  hb_last_online_in :: uint64
  hb_connected_mask :: uint64

record MtmGenVoteRequest =
  vq_gen :: MtmGeneration

record MtmGenVoteResponse =
  vr_gen_num :: uint64
  vr_vote_ok :: uint8
  vr_last_online_in :: uint64
  vr_last_vote_num :: uint64
  vr_curr_gen :: MtmGeneration
  vr_curr_gen_donors :: uint64

datatype MtmMessage =
  T_MtmPrepareResponse MtmPrepareResponse
| T_Mtm2AResponse Mtm2AResponse
| T_MtmTxRequest MtmTxRequest
| T_MtmTxStatusResponse MtmTxStatusResponse
| T_MtmHeartbeat MtmHeartbeat
| T_MtmGenVoteRequest MtmGenVoteRequest
| T_MtmGenVoteResponse MtmGenVoteResponse

fun messageTag :: "MtmMessage \<Rightarrow> uint8" where
  "messageTag (T_MtmPrepareResponse _) = 0"
| "messageTag (T_Mtm2AResponse _) = 1"
| "messageTag (T_MtmTxRequest _) = 2"
| "messageTag (T_MtmTxStatusResponse _) = 3"
| "messageTag (T_MtmHeartbeat _) = 4"
| "messageTag (T_MtmGenVoteRequest _) = 5"
| "messageTag (T_MtmGenVoteResponse _) = 6"

fun status_code :: "GlobalTxStatus \<Rightarrow> uint8" where
  "status_code GTXInvalid = 0"
| "status_code GTXPreCommitted = 1"
| "status_code GTXPreAborted = 2"
| "status_code GTXCommitted = 3"
| "status_code GTXAborted = 4"

definition status_of_code :: "uint8 \<Rightarrow> GlobalTxStatus option" where
  "status_of_code c = List.find (\<lambda>s. status_code s = c)
     [GTXInvalid, GTXPreCommitted, GTXPreAborted, GTXCommitted, GTXAborted]"

fun request_code :: "MtmTxRequestValue \<Rightarrow> uint8" where
  "request_code MTReq_Abort = 0"
| "request_code MTReq_Commit = 1"
| "request_code MTReq_Precommit = 2"
| "request_code MTReq_Preabort = 3"
| "request_code MTReq_Status = 4"

definition request_of_code :: "uint8 \<Rightarrow> MtmTxRequestValue option" where
  "request_of_code c = List.find (\<lambda>s. request_code s = c)
     [MTReq_Abort, MTReq_Commit, MTReq_Precommit, MTReq_Preabort, MTReq_Status]"

section \<open>The encoding used by the transport\<close>

type_synonym bytes = "uint8 list"

record pqformat =
  pq_sendbyte :: "uint8 \<Rightarrow> bytes"
  pq_sendint32 :: "uint32 \<Rightarrow> bytes"
  pq_sendint64 :: "uint64 \<Rightarrow> bytes"
  pq_send_ascii_string :: "string \<Rightarrow> bytes"
  pq_getmsgbyte :: "bytes \<Rightarrow> (uint8 \<times> bytes) option"
  pq_getmsgint32 :: "bytes \<Rightarrow> (uint32 \<times> bytes) option"
  pq_getmsgint64 :: "bytes \<Rightarrow> (uint64 \<times> bytes) option"
  pq_getmsgrawstring :: "bytes \<Rightarrow> (string \<times> bytes) option"

text \<open>Strings survive when they are made of non-zero 7-bit characters.\<close>

definition ascii :: "string \<Rightarrow> bool" where
  "ascii s = list_all (\<lambda>c. 0 < (of_char c :: nat) \<and> of_char c < (128 :: nat)) s"

definition pq_ok :: "pqformat \<Rightarrow> bool" where
  "pq_ok pq \<longleftrightarrow>
     (\<forall>b rest. pq_getmsgbyte pq (pq_sendbyte pq b @ rest) = Some (b, rest)) \<and>
     (\<forall>w rest. pq_getmsgint32 pq (pq_sendint32 pq w @ rest) = Some (w, rest)) \<and>
     (\<forall>w rest. pq_getmsgint64 pq (pq_sendint64 pq w @ rest) = Some (w, rest)) \<and>
     (\<forall>s rest. ascii s \<longrightarrow> pq_getmsgrawstring pq (pq_send_ascii_string pq s @ rest) = Some (s, rest))"

text \<open>A C \<open>int\<close> goes through a 32-bit word.\<close>

definition int32_ok :: "int \<Rightarrow> bool" where
  "int32_ok i = (- (2 ^ 31) \<le> i \<and> i < 2 ^ 31)"

definition send_int :: "pqformat \<Rightarrow> int \<Rightarrow> bytes" where
  "send_int pq i = pq_sendint32 pq (word_of_int i)"

definition get_int :: "pqformat \<Rightarrow> bytes \<Rightarrow> (int \<times> bytes) option" where
  "get_int pq s = map_option (\<lambda>(w, rest). (sint w, rest)) (pq_getmsgint32 pq s)"

section \<open>Packing and unpacking\<close>

definition send_term :: "pqformat \<Rightarrow> GlobalTxTerm \<Rightarrow> bytes" where
  "send_term pq t = send_int pq (ballot t) @ send_int pq (term_node_id t)"

definition send_gen :: "pqformat \<Rightarrow> MtmGeneration \<Rightarrow> bytes" where
  "send_gen pq g = pq_sendint64 pq (num g) @ pq_sendint64 pq (members g) @ pq_sendint64 pq (configured g)"

fun pack_body :: "pqformat \<Rightarrow> MtmMessage \<Rightarrow> bytes" where
  "pack_body pq (T_MtmPrepareResponse msg) =
     send_int pq (pr_node_id msg) @ pq_sendbyte pq (if pr_prepared msg then 1 else 0) @
     send_int pq (pr_errcode msg) @ pq_send_ascii_string pq (pr_errmsg msg) @
     pq_sendint64 pq (ucast (pr_xid msg))"
| "pack_body pq (T_Mtm2AResponse msg) =
     send_int pq (a2_node_id msg) @ pq_sendbyte pq (status_code (a2_status msg)) @
     send_term pq (a2_accepted_term msg) @ send_int pq (a2_errcode msg) @
     pq_send_ascii_string pq (a2_errmsg msg) @ pq_send_ascii_string pq (a2_gid msg)"
| "pack_body pq (T_MtmTxRequest msg) =
     pq_sendbyte pq (request_code (rq_type msg)) @ send_term pq (rq_term msg) @
     pq_send_ascii_string pq (rq_gid msg) @ send_int pq (rq_coordinator msg) @
     pq_sendint64 pq (rq_gen_num msg) @ pq_sendint64 pq (rq_coordinator_end_lsn msg)"
| "pack_body pq (T_MtmTxStatusResponse msg) =
     send_int pq (sr_node_id msg) @ pq_sendbyte pq (status_code (status (sr_state msg))) @
     send_term pq (proposal (sr_state msg)) @ send_term pq (accepted (sr_state msg)) @
     pq_send_ascii_string pq (sr_gid msg)"
| "pack_body pq (T_MtmHeartbeat msg) =
     send_gen pq (hb_current_gen msg) @ pq_sendint64 pq (hb_donors msg) @
     pq_sendint64 pq (hb_last_online_in msg) @ pq_sendint64 pq (hb_connected_mask msg)"
| "pack_body pq (T_MtmGenVoteRequest msg) = send_gen pq (vq_gen msg)"
| "pack_body pq (T_MtmGenVoteResponse msg) =
     pq_sendint64 pq (vr_gen_num msg) @ pq_sendbyte pq (vr_vote_ok msg) @
     pq_sendint64 pq (vr_last_online_in msg) @ pq_sendint64 pq (vr_last_vote_num msg) @
     send_gen pq (vr_curr_gen msg) @ pq_sendint64 pq (vr_curr_gen_donors msg)"

definition MtmMessagePack :: "pqformat \<Rightarrow> MtmMessage \<Rightarrow> bytes" where
  "MtmMessagePack pq msg = pq_sendbyte pq (messageTag msg) @ pack_body pq msg"

definition get_term :: "pqformat \<Rightarrow> bytes \<Rightarrow> (GlobalTxTerm \<times> bytes) option" where
  "get_term pq s = do {
     (b, s) \<leftarrow> get_int pq s;
     (n, s) \<leftarrow> get_int pq s;
     Some (GlobalTxTerm b n, s)
   }"

definition get_gen :: "pqformat \<Rightarrow> bytes \<Rightarrow> (MtmGeneration \<times> bytes) option" where
  "get_gen pq s = do {
     (n, s) \<leftarrow> pq_getmsgint64 pq s;
     (m, s) \<leftarrow> pq_getmsgint64 pq s;
     (c, s) \<leftarrow> pq_getmsgint64 pq s;
     Some (\<lparr>num = n, members = m, configured = c\<rparr>, s)
   }"

definition unpack_PrepareResponse :: "pqformat \<Rightarrow> bytes \<Rightarrow> MtmMessage option" where
  "unpack_PrepareResponse pq s = do {
     (nid, s) \<leftarrow> get_int pq s;
     (p, s) \<leftarrow> pq_getmsgbyte pq s;
     (ec, s) \<leftarrow> get_int pq s;
     (em, s) \<leftarrow> pq_getmsgrawstring pq s;
     (x, s) \<leftarrow> pq_getmsgint64 pq s;
     Some (T_MtmPrepareResponse \<lparr>pr_node_id = nid, pr_prepared = (p \<noteq> 0), pr_errcode = ec,
       pr_errmsg = em, pr_xid = ucast x\<rparr>)
   }"

definition unpack_2AResponse :: "pqformat \<Rightarrow> bytes \<Rightarrow> MtmMessage option" where
  "unpack_2AResponse pq s = do {
     (nid, s) \<leftarrow> get_int pq s;
     (c, s) \<leftarrow> pq_getmsgbyte pq s;
     st \<leftarrow> status_of_code c;
     (t, s) \<leftarrow> get_term pq s;
     (ec, s) \<leftarrow> get_int pq s;
     (em, s) \<leftarrow> pq_getmsgrawstring pq s;
     (g, s) \<leftarrow> pq_getmsgrawstring pq s;
     Some (T_Mtm2AResponse \<lparr>a2_node_id = nid, a2_status = st, a2_accepted_term = t,
       a2_errcode = ec, a2_errmsg = em, a2_gid = g\<rparr>)
   }"

definition unpack_TxRequest :: "pqformat \<Rightarrow> bytes \<Rightarrow> MtmMessage option" where
  "unpack_TxRequest pq s = do {
     (c, s) \<leftarrow> pq_getmsgbyte pq s;
     ty \<leftarrow> request_of_code c;
     (t, s) \<leftarrow> get_term pq s;
     (g, s) \<leftarrow> pq_getmsgrawstring pq s;
     (co, s) \<leftarrow> get_int pq s;
     (gn, s) \<leftarrow> pq_getmsgint64 pq s;
     (lsn, s) \<leftarrow> pq_getmsgint64 pq s;
     Some (T_MtmTxRequest \<lparr>rq_type = ty, rq_term = t, rq_gid = g, rq_coordinator = co,
       rq_gen_num = gn, rq_coordinator_end_lsn = lsn\<rparr>)
   }"

definition unpack_TxStatusResponse :: "pqformat \<Rightarrow> bytes \<Rightarrow> MtmMessage option" where
  "unpack_TxStatusResponse pq s = do {
     (nid, s) \<leftarrow> get_int pq s;
     (c, s) \<leftarrow> pq_getmsgbyte pq s;
     st \<leftarrow> status_of_code c;
     (p, s) \<leftarrow> get_term pq s;
     (a, s) \<leftarrow> get_term pq s;
     (g, s) \<leftarrow> pq_getmsgrawstring pq s;
     Some (T_MtmTxStatusResponse \<lparr>sr_node_id = nid,
       sr_state = \<lparr>proposal = p, accepted = a, status = st\<rparr>, sr_gid = g\<rparr>)
   }"

definition unpack_Heartbeat :: "pqformat \<Rightarrow> bytes \<Rightarrow> MtmMessage option" where
  "unpack_Heartbeat pq s = do {
     (g, s) \<leftarrow> get_gen pq s;
     (d, s) \<leftarrow> pq_getmsgint64 pq s;
     (l, s) \<leftarrow> pq_getmsgint64 pq s;
     (c, s) \<leftarrow> pq_getmsgint64 pq s;
     Some (T_MtmHeartbeat \<lparr>hb_current_gen = g, hb_donors = d, hb_last_online_in = l, hb_connected_mask = c\<rparr>)
   }"

definition unpack_GenVoteRequest :: "pqformat \<Rightarrow> bytes \<Rightarrow> MtmMessage option" where
  "unpack_GenVoteRequest pq s = do {
     (g, s) \<leftarrow> get_gen pq s;
     Some (T_MtmGenVoteRequest \<lparr>vq_gen = g\<rparr>)
   }"

definition unpack_GenVoteResponse :: "pqformat \<Rightarrow> bytes \<Rightarrow> MtmMessage option" where
  "unpack_GenVoteResponse pq s = do {
     (n, s) \<leftarrow> pq_getmsgint64 pq s;
     (ok, s) \<leftarrow> pq_getmsgbyte pq s;
     (l, s) \<leftarrow> pq_getmsgint64 pq s;
     (v, s) \<leftarrow> pq_getmsgint64 pq s;
     (g, s) \<leftarrow> get_gen pq s;
     (d, s) \<leftarrow> pq_getmsgint64 pq s;
     Some (T_MtmGenVoteResponse \<lparr>vr_gen_num = n, vr_vote_ok = ok, vr_last_online_in = l,
       vr_last_vote_num = v, vr_curr_gen = g, vr_curr_gen_donors = d\<rparr>)
   }"

definition MtmMessageUnpack :: "pqformat \<Rightarrow> bytes \<Rightarrow> MtmMessage option" where
  "MtmMessageUnpack pq s = do {
     (tag, s) \<leftarrow> pq_getmsgbyte pq s;
     if tag = 0 then unpack_PrepareResponse pq s
     else if tag = 1 then unpack_2AResponse pq s
     else if tag = 2 then unpack_TxRequest pq s
     else if tag = 3 then unpack_TxStatusResponse pq s
     else if tag = 4 then unpack_Heartbeat pq s
     else if tag = 5 then unpack_GenVoteRequest pq s
     else if tag = 6 then unpack_GenVoteResponse pq s
     else None
   }"

section \<open>A message arrives as it was sent\<close>

text \<open>What has to fit: node ids, ballots and error codes in 32 bits, strings in 7-bit characters.\<close>

definition term32_ok :: "GlobalTxTerm \<Rightarrow> bool" where
  "term32_ok t = (int32_ok (ballot t) \<and> int32_ok (term_node_id t))"

fun msg_ok :: "MtmMessage \<Rightarrow> bool" where
  "msg_ok (T_MtmPrepareResponse msg) =
     (int32_ok (pr_node_id msg) \<and> int32_ok (pr_errcode msg) \<and> ascii (pr_errmsg msg))"
| "msg_ok (T_Mtm2AResponse msg) =
     (int32_ok (a2_node_id msg) \<and> term32_ok (a2_accepted_term msg) \<and> int32_ok (a2_errcode msg) \<and>
      ascii (a2_errmsg msg) \<and> ascii (a2_gid msg))"
| "msg_ok (T_MtmTxRequest msg) =
     (term32_ok (rq_term msg) \<and> ascii (rq_gid msg) \<and> int32_ok (rq_coordinator msg))"
| "msg_ok (T_MtmTxStatusResponse msg) =
     (int32_ok (sr_node_id msg) \<and> term32_ok (proposal (sr_state msg)) \<and>
      term32_ok (accepted (sr_state msg)) \<and> ascii (sr_gid msg))"
| "msg_ok _ = True"

lemma status_of_code [simp]: "status_of_code (status_code st) = Some st"
  by (cases st) (simp_all add: status_of_code_def)

lemma request_of_code [simp]: "request_of_code (request_code ty) = Some ty"
  by (cases ty) (simp_all add: request_of_code_def)

lemma sint_int32 [simp]: "int32_ok i \<Longrightarrow> sint (word_of_int i :: uint32) = i"
  by (simp add: int32_ok_def sint_sbintrunc' signed_take_bit_int_eq_self)

named_theorems codec_simps \<open>reading back what was sent\<close>

lemma pq_ok_get [codec_simps]:
  assumes "pq_ok pq"
  shows "pq_getmsgbyte pq (pq_sendbyte pq b @ rest) = Some (b, rest)"
    and "pq_getmsgint64 pq (pq_sendint64 pq w @ rest) = Some (w, rest)"
    and "int32_ok i \<Longrightarrow> get_int pq (send_int pq i @ rest) = Some (i, rest)"
    and "ascii s \<Longrightarrow> pq_getmsgrawstring pq (pq_send_ascii_string pq s @ rest) = Some (s, rest)"
  using assms by (simp_all add: pq_ok_def get_int_def send_int_def)

lemma pq_ok_get_last [codec_simps]:
  assumes "pq_ok pq"
  shows "pq_getmsgint64 pq (pq_sendint64 pq w) = Some (w, [])"
    and "ascii s \<Longrightarrow> pq_getmsgrawstring pq (pq_send_ascii_string pq s) = Some (s, [])"
  using pq_ok_get(2,4) [OF assms, of _ "[]"] by auto

lemma get_send_term [codec_simps]:
  "pq_ok pq \<Longrightarrow> term32_ok t \<Longrightarrow> get_term pq (send_term pq t @ rest) = Some (t, rest)"
  by (simp add: get_term_def send_term_def term32_ok_def codec_simps)

lemma get_send_gen [codec_simps]:
  "pq_ok pq \<Longrightarrow> get_gen pq (send_gen pq g @ rest) = Some (g, rest)"
  by (simp add: get_gen_def send_gen_def codec_simps)

lemma get_send_gen_last [codec_simps]: "pq_ok pq \<Longrightarrow> get_gen pq (send_gen pq g) = Some (g, [])"
  using get_send_gen [of pq g "[]"] by simp

lemmas unpack_defs = unpack_PrepareResponse_def unpack_2AResponse_def unpack_TxRequest_def
  unpack_TxStatusResponse_def unpack_Heartbeat_def unpack_GenVoteRequest_def unpack_GenVoteResponse_def

lemma xid_via_int64 [simp]: "ucast (ucast (x :: uint32) :: uint64) = x"
  by (rule ucast_up_ucast_id) (simp add: is_up)

lemma unpack_pack:
  assumes "pq_ok pq" and "msg_ok msg"
  shows "MtmMessageUnpack pq (MtmMessagePack pq msg) = Some msg"
  using assms
  by (cases msg) (simp_all add: MtmMessageUnpack_def MtmMessagePack_def codec_simps unpack_defs)

text \<open>
  C10. Every message whose integers fit in 32 bits and whose strings are 7-bit text is unpacked to
  the very message that was packed.
\<close>

theorem message_roundtrip:
  assumes "pq_ok pq" and "msg_ok msg"
  shows "MtmMessageUnpack pq (MtmMessagePack pq msg) = Some msg"
  using assms by (rule unpack_pack)

text \<open>The documented encoding: integers in network byte order, strings terminated by a zero byte.\<close>

definition byte_of_char :: "char \<Rightarrow> uint8" where
  "byte_of_char c = (if (of_char c :: nat) < 128 then word_of_nat (of_char c) else 63)"

definition char_of_byte :: "uint8 \<Rightarrow> char" where
  "char_of_byte b = char_of (unat b)"

fun send_be :: "nat \<Rightarrow> nat \<Rightarrow> bytes" where
  "send_be 0 k = []"
| "send_be (Suc n) k = send_be n (k div 256) @ [word_of_nat (k mod 256)]"

definition value_be :: "bytes \<Rightarrow> nat" where
  "value_be s = fold (\<lambda>b acc. acc * 256 + unat b) s 0"

definition get_be :: "nat \<Rightarrow> bytes \<Rightarrow> ('a::len word \<times> bytes) option" where
  "get_be n s = (if length s < n then None else Some (word_of_nat (value_be (take n s)), drop n s))"

definition network_pq :: pqformat where
  "network_pq = \<lparr>
     pq_sendbyte = (\<lambda>b. [b]),
     pq_sendint32 = (\<lambda>w. send_be 4 (unat w)),
     pq_sendint64 = (\<lambda>w. send_be 8 (unat w)),
     pq_send_ascii_string = (\<lambda>s. map byte_of_char s @ [0]),
     pq_getmsgbyte = (\<lambda>s. case s of [] \<Rightarrow> None | b # r \<Rightarrow> Some (b, r)),
     pq_getmsgint32 = get_be 4,
     pq_getmsgint64 = get_be 8,
     pq_getmsgrawstring = (\<lambda>s. case dropWhile (\<lambda>b. b \<noteq> 0) s of
        [] \<Rightarrow> None | _ # r \<Rightarrow> Some (map char_of_byte (takeWhile (\<lambda>b. b \<noteq> 0) s), r))\<rparr>"

lemma length_send_be [simp]: "length (send_be n k) = n"
  by (induction n arbitrary: k) auto

lemma value_send_be: "value_be (send_be n k) = k mod 256 ^ n"
proof (induction n arbitrary: k)
  case (Suc n)
  have "value_be (send_be (Suc n) k) = value_be (send_be n (k div 256)) * 256 + unat (word_of_nat (k mod 256) :: uint8)"
    by (simp add: value_be_def)
  also have "\<dots> = (k div 256 mod 256 ^ n) * 256 + k mod 256"
    by (simp add: Suc unat_of_nat)
  also have "\<dots> = k mod 256 ^ Suc n"
    by (simp add: mod_mult2_eq mult.commute)
  finally show ?case .
qed (simp add: value_be_def)

lemma get_send_be:
  fixes w :: "'a::len word"
  assumes "LENGTH('a) = 8 * n"
  shows "get_be n (send_be n (unat w) @ rest) = Some (w, rest)"
proof -
  have "unat w < 2 ^ LENGTH('a)" by (rule unsigned_less)
  then have "unat w < 256 ^ n" by (simp add: assms power_mult)
  then show ?thesis by (simp add: get_be_def value_send_be)
qed

lemma ascii_byte:
  "ascii s \<Longrightarrow> takeWhile (\<lambda>b. b \<noteq> 0) (map byte_of_char s @ 0 # rest) = map byte_of_char s \<and>
     dropWhile (\<lambda>b. b \<noteq> 0) (map byte_of_char s @ 0 # rest) = 0 # rest \<and>
     map char_of_byte (map byte_of_char s) = s"
proof (induction s)
  case (Cons c s)
  then have "0 < (of_char c :: nat)" "of_char c < (128 :: nat)" by (auto simp: ascii_def)
  then have "unat (word_of_nat (of_char c) :: uint8) = of_char c"
    by (simp add: unat_of_nat take_bit_nat_eq_self)
  with Cons show ?case
    by (auto simp: ascii_def byte_of_char_def char_of_byte_def)
qed simp

lemma network_pq_ok: "pq_ok network_pq"
  unfolding pq_ok_def
  by (simp add: network_pq_def get_send_be ascii_byte del: send_be.simps map_map)

theorem message_roundtrip_witness:
  "pq_ok network_pq \<and> MtmMessageUnpack network_pq (MtmMessagePack network_pq
     (T_MtmTxRequest \<lparr>rq_type = MTReq_Status, rq_term = GlobalTxTerm 7 2, rq_gid = ''MTM-1-7-3'',
        rq_coordinator = 1, rq_gen_num = 3, rq_coordinator_end_lsn = 4096\<rparr>)) =
   Some (T_MtmTxRequest \<lparr>rq_type = MTReq_Status, rq_term = GlobalTxTerm 7 2, rq_gid = ''MTM-1-7-3'',
        rq_coordinator = 1, rq_gen_num = 3, rq_coordinator_end_lsn = 4096\<rparr>)"
  using network_pq_ok message_roundtrip [OF network_pq_ok]
  by (simp add: term32_ok_def int32_ok_def ascii_def)

end
