(* ===== verification/Mtm_Config.thy ===== *)
theory Mtm_Config
  imports Nodemask C_Strings
begin

text \<open>
  The cluster configuration (\<open>MtmConfig\<close> of \<open>src/src/include/multimaster.h\<close>) and the functions
  of \<open>src/src/multimaster.c\<close> that load it, compare it with the previous one and count quorums in
  it. The rows the configuration query returns and the replication origin lookup come from
  Postgres and are arguments; the callbacks of a reload are the list of calls made, in order.
\<close>

section \<open>Configuration\<close>

record MtmNode =
  node_id :: int
  conninfo :: string
  origin_id :: nat
  init_done :: bool

record MtmConfig =
  my_node_id :: int
  backup_node_id :: int
  backup_end_lsn :: XLogRecPtr
  nodes :: "MtmNode list"
  cfg_mask :: nodemask_t

definition n_nodes :: "MtmConfig \<Rightarrow> nat" where
  "n_nodes cfg = length (nodes cfg)"

datatype cfg_error = AssertFailure | NotConfigured

text \<open>A row of the node query: id, connection string, is_self, init_done (None is SQL null).\<close>

type_synonym node_row = "int \<times> string \<times> bool \<times> bool option"

fun load_nodes :: "node_row list \<Rightarrow> int \<Rightarrow> MtmNode list \<Rightarrow> cfg_error + (int \<times> MtmNode list)" where
  "load_nodes [] me ns = Inr (me, ns)"
| "load_nodes ((nid, conn, is_self, dn) # rows) me ns =
     (if is_self \<and> me \<noteq> 0 then Inl AssertFailure
      else load_nodes rows (if is_self then nid else me)
        (ns @ [\<lparr>node_id = nid, conninfo = conn, origin_id = 0, init_done = (dn = Some True)\<rparr>]))"

definition slot_name :: "int \<Rightarrow> string" where
  "slot_name nid = ''mtm_slot_'' @ print_int nid"

definition load_origins :: "(string \<Rightarrow> nat) \<Rightarrow> int \<Rightarrow> MtmNode list \<Rightarrow> MtmNode list" where
  "load_origins replorigin_by_name me ns =
     map (\<lambda>n. if node_id n = me then n else n\<lparr>origin_id := replorigin_by_name (slot_name (node_id n))\<rparr>) ns"

definition config_mask :: "int \<Rightarrow> MtmNode list \<Rightarrow> nodemask_t" where
  "config_mask me ns =
     fold (\<lambda>n m. BIT_SET m (nat (node_id n - 1))) ns
       (if me \<noteq> 0 then BIT_SET 0 (nat (me - 1)) else 0)"

definition MtmLoadConfig ::
  "node_row list \<Rightarrow> (string \<Rightarrow> nat) \<Rightarrow> (int \<times> XLogRecPtr) list \<Rightarrow> bool \<Rightarrow> cfg_error + MtmConfig" where
  "MtmLoadConfig rows replorigin_by_name backup_rows elevel_on_absent =
     (if MTM_MAX_NODES < length rows \<or> 1 < length backup_rows then Inl AssertFailure
      else case load_nodes rows 0 [] of
        Inl e \<Rightarrow> Inl e
      | Inr (me, ns) \<Rightarrow>
          (if me = 0 \<and> elevel_on_absent then Inl NotConfigured
           else Inr \<lparr>my_node_id = me,
             backup_node_id = (case backup_rows of [] \<Rightarrow> 0 | (b, _) # _ \<Rightarrow> b),
             backup_end_lsn = (case backup_rows of [] \<Rightarrow> 0 | (_, l) # _ \<Rightarrow> l),
             nodes = load_origins replorigin_by_name me ns,
             cfg_mask = config_mask me ns\<rparr>))"

definition MtmQuorum :: "MtmConfig \<Rightarrow> nat \<Rightarrow> bool" where
  "MtmQuorum mtm_cfg nvotes = Quorum (n_nodes mtm_cfg) nvotes"

definition MtmNodeById :: "MtmConfig \<Rightarrow> int \<Rightarrow> MtmNode option" where
  "MtmNodeById cfg nid = List.find (\<lambda>n. node_id n = nid) (nodes cfg)"

section \<open>Reloading\<close>

datatype cfg_call = NodeAdd int | NodeDrop int

definition other_ids :: "MtmConfig \<Rightarrow> int list" where
  "other_ids cfg = [node_id n. n \<leftarrow> nodes cfg, node_id n \<noteq> my_node_id cfg]"

definition bms :: "int list \<Rightarrow> int list" where
  "bms ids = sort (remdups ids)"

definition MtmReloadConfig ::
  "MtmConfig option \<Rightarrow> bool \<Rightarrow> bool \<Rightarrow> cfg_error + MtmConfig \<Rightarrow> cfg_error + (MtmConfig \<times> cfg_call list)" where
  "MtmReloadConfig old_cfg has_add_cb has_drop_cb loaded =
     (case loaded of
        Inl e \<Rightarrow> Inl e
      | Inr new_cfg \<Rightarrow>
          (let old_bms = (case old_cfg of None \<Rightarrow> [] | Some c \<Rightarrow> bms (other_ids c));
               new_bms = bms (other_ids new_cfg);
               deleted = filter (\<lambda>n. n \<notin> set new_bms) old_bms;
               created = filter (\<lambda>n. n \<notin> set old_bms) new_bms;
               backup = backup_node_id new_cfg;
               adds = (if \<not> has_add_cb then []
                       else if 0 < backup
                       then NodeAdd backup # map NodeAdd (filter (\<lambda>n. n \<noteq> backup) created)
                       else map NodeAdd created);
               drops = (if has_drop_cb then map NodeDrop deleted else [])
           in Inr (new_cfg, adds @ drops)))"

section \<open>Well-formed configurations\<close>

definition cfg_ok :: "MtmConfig \<Rightarrow> bool" where
  "cfg_ok cfg \<longleftrightarrow> distinct (map node_id (nodes cfg)) \<and>
     list_all (\<lambda>n. 1 \<le> node_id n \<and> node_id n \<le> int MTM_MAX_NODES) (nodes cfg) \<and>
     my_node_id cfg \<in> node_id ` set (nodes cfg) \<and>
     cfg_mask cfg = config_mask (my_node_id cfg) (nodes cfg)"

lemma nodes_of_fold_BIT_SET:
  assumes "list_all (\<lambda>n. 1 \<le> node_id n \<and> node_id n \<le> int MTM_MAX_NODES) ns"
  shows "nodes_of (fold (\<lambda>n m. BIT_SET m (nat (node_id n - 1))) ns m0) =
    nodes_of m0 \<union> (\<lambda>n. nat (node_id n - 1)) ` set ns"
  using assms
proof (induction ns arbitrary: m0)
  case (Cons n ns)
  then have "nat (node_id n - 1) < MTM_MAX_NODES" by auto
  with Cons show ?case by (simp add: nodes_of_BIT_SET)
qed simp

lemma cfg_ok_mask:
  assumes "cfg_ok cfg"
  shows "nodes_of (cfg_mask cfg) = (\<lambda>n. nat (node_id n - 1)) ` set (nodes cfg)"
proof -
  have ok: "list_all (\<lambda>n. 1 \<le> node_id n \<and> node_id n \<le> int MTM_MAX_NODES) (nodes cfg)"
    using assms by (simp add: cfg_ok_def)
  obtain n where n: "n \<in> set (nodes cfg)" "node_id n = my_node_id cfg"
    using assms by (auto simp: cfg_ok_def)
  with ok have "1 \<le> my_node_id cfg" "my_node_id cfg \<le> int MTM_MAX_NODES"
    by (metis list_all_iff)+
  then have "nodes_of (cfg_mask cfg) =
      {nat (my_node_id cfg - 1)} \<union> (\<lambda>n. nat (node_id n - 1)) ` set (nodes cfg)"
    using assms nodes_of_fold_BIT_SET [OF ok]
    by (simp add: cfg_ok_def config_mask_def nodes_of_BIT_SET)
  with n show ?thesis by force
qed

text \<open>The mask and the node array of a configuration have the same size: a quorum counted in
  one is a quorum of the other.\<close>

lemma cfg_ok_popcount:
  assumes "cfg_ok cfg"
  shows "popcount (cfg_mask cfg) = n_nodes cfg"
proof -
  have "inj_on (\<lambda>n. nat (node_id n - 1)) (set (nodes cfg))"
  proof (rule inj_onI)
    fix a b
    assume ab: "a \<in> set (nodes cfg)" "b \<in> set (nodes cfg)" "nat (node_id a - 1) = nat (node_id b - 1)"
    have "1 \<le> node_id a" "1 \<le> node_id b" using assms ab(1,2) by (auto simp: cfg_ok_def list_all_iff)
    with ab(3) have "node_id a = node_id b" by linarith
    with ab(1,2) assms show "a = b" by (auto simp: cfg_ok_def distinct_map inj_on_def)
  qed
  then have "card (nodes_of (cfg_mask cfg)) = card (set (nodes cfg))"
    unfolding cfg_ok_mask [OF assms] by (rule card_image)
  also have "\<dots> = length (nodes cfg)"
    using assms by (simp add: cfg_ok_def distinct_card distinct_map)
  finally show ?thesis by (simp add: popcount_card n_nodes_def)
qed

lemma cfg_ok_Quorum: "cfg_ok cfg \<Longrightarrow> MtmQuorum cfg k \<longleftrightarrow> Quorum (popcount (cfg_mask cfg)) k"
  by (simp add: MtmQuorum_def cfg_ok_popcount)

definition rows_ok :: "node_row list \<Rightarrow> bool" where
  "rows_ok rows \<longleftrightarrow> length rows \<le> MTM_MAX_NODES \<and> distinct (map fst rows) \<and>
     list_all (\<lambda>(i, _). 1 \<le> i \<and> i \<le> int MTM_MAX_NODES) rows \<and>
     length (filter (\<lambda>(_, _, is_self, _). is_self) rows) = 1"

definition row_node :: "node_row \<Rightarrow> MtmNode" where
  "row_node = (\<lambda>(nid, conn, is_self, dn).
     \<lparr>node_id = nid, conninfo = conn, origin_id = 0, init_done = (dn = Some True)\<rparr>)"

lemma load_nodes_spec:
  assumes "list_all (\<lambda>(i, _). i \<noteq> 0) rows"
    and "length (filter (\<lambda>(_, _, is_self, _). is_self) rows) + (if me = 0 then 0 else 1) \<le> 1"
  shows "load_nodes rows me ns =
    Inr (case List.find (\<lambda>(_, _, is_self, _). is_self) rows of Some (i, _) \<Rightarrow> i | None \<Rightarrow> me,
         ns @ map row_node rows)"
  using assms
proof (induction rows arbitrary: me ns)
  case (Cons row rows)
  obtain nid conn is_self dn where row: "row = (nid, conn, is_self, dn)" by (cases row)
  show ?case
  proof (cases is_self)
    case True
    then have "me = 0" and none: "filter (\<lambda>(_, _, s, _). s) rows = []" and "nid \<noteq> 0"
      using Cons.prems by (auto simp: row split: if_splits)
    moreover have "List.find (\<lambda>(_, _, s, _). s) rows = None"
      using none by (auto simp: find_None_iff filter_empty_conv)
    ultimately show ?thesis
      using Cons True by (simp add: row row_node_def)
  next
    case False
    then show ?thesis using Cons by (simp add: row row_node_def)
  qed
qed simp

text \<open>
  A node table with distinct ids between 1 and 16 and exactly one row for the local node is
  loaded into a well-formed configuration: the local id is the one of that row, every row is a
  node, and the mask has as many nodes as the array.
\<close>

theorem MtmLoadConfig_ok:
  assumes "rows_ok rows" and "length backup_rows \<le> 1"
  shows "\<exists>cfg. MtmLoadConfig rows orig backup_rows True = Inr cfg \<and> cfg_ok cfg \<and>
    map node_id (nodes cfg) = map fst rows \<and> popcount (cfg_mask cfg) = n_nodes cfg"
proof -
  obtain row where row: "List.find (\<lambda>(_, _, s, _). s) rows = Some row" "row \<in> set rows"
  proof -
    have "filter (\<lambda>(_, _, s, _). s) rows \<noteq> []" using assms(1) by (auto simp: rows_ok_def)
    then have "List.find (\<lambda>(_, _, s, _). s) rows \<noteq> None"
      by (auto simp: find_None_iff filter_empty_conv)
    then show thesis using that by (metis find_Some_iff not_None_eq nth_mem)
  qed
  obtain nid rest where row_eq: "row = (nid, rest)" by (cases row)
  have range: "list_all (\<lambda>(i, _). 1 \<le> i \<and> i \<le> int MTM_MAX_NODES) rows"
    using assms(1) by (simp add: rows_ok_def)
  have "list_all (\<lambda>(i, _). i \<noteq> 0) rows" using range by (auto simp: list_all_iff)
  then have load: "load_nodes rows 0 [] = Inr (nid, map row_node rows)"
    using load_nodes_spec [of rows 0 "[]"] assms(1) row(1) by (simp add: rows_ok_def row_eq)
  have nid: "nid \<noteq> 0" using range row(2) by (auto simp: list_all_iff row_eq)
  have ids: "map node_id (load_origins orig nid (map row_node rows)) = map fst rows"
    by (auto simp: load_origins_def row_node_def)
  have same: "config_mask nid (load_origins orig nid ns) = config_mask nid ns" for ns
  proof -
    have "fold (\<lambda>n m. BIT_SET m (nat (node_id n - 1))) (load_origins orig nid ns) m =
        fold (\<lambda>n m. BIT_SET m (nat (node_id n - 1))) ns m" for m
      by (induction ns arbitrary: m) (auto simp: load_origins_def)
    then show ?thesis by (simp add: config_mask_def)
  qed
  obtain cfg where cfg: "MtmLoadConfig rows orig backup_rows True = Inr cfg"
    "my_node_id cfg = nid" "nodes cfg = load_origins orig nid (map row_node rows)"
    "cfg_mask cfg = config_mask nid (map row_node rows)"
    using load nid assms by (simp add: MtmLoadConfig_def rows_ok_def)
  have idset: "node_id ` set (nodes cfg) = fst ` set rows"
    using ids cfg(3) by (metis list.set_map)
  have "1 \<le> i \<and> i \<le> int MTM_MAX_NODES" if "i \<in> node_id ` set (nodes cfg)" for i
    using that range unfolding idset by (auto simp: list_all_iff)
  then have "list_all (\<lambda>n. 1 \<le> node_id n \<and> node_id n \<le> int MTM_MAX_NODES) (nodes cfg)"
    by (simp add: list_all_iff)
  moreover have "nid \<in> node_id ` set (nodes cfg)"
    using row(2) unfolding idset by (force simp: row_eq)
  moreover have "distinct (map node_id (nodes cfg))"
    using assms(1) ids by (simp add: cfg(3) rows_ok_def)
  moreover have "cfg_mask cfg = config_mask nid (nodes cfg)" by (simp add: cfg same)
  ultimately have "cfg_ok cfg" unfolding cfg_ok_def cfg(2) by blast
  then show ?thesis using cfg(1,3) ids cfg_ok_popcount by auto
qed

theorem MtmLoadConfig_ok_witness:
  "\<exists>cfg. MtmLoadConfig [(1, ''a'', False, None), (3, ''b'', True, Some True)] (\<lambda>_. 7) [] True = Inr cfg \<and>
     cfg_ok cfg \<and> map node_id (nodes cfg) = [1, 3]"
  using MtmLoadConfig_ok [of "[(1, ''a'', False, None), (3, ''b'', True, Some True)]" "[]" "\<lambda>_. 7"]
  by (auto simp: rows_ok_def)

section \<open>Calls of a reload\<close>

lemma set_bms [simp]: "set (bms ids) = set ids"
  by (simp add: bms_def)

lemma distinct_bms [simp]: "distinct (bms ids)"
  by (simp add: bms_def)

definition old_ids :: "MtmConfig option \<Rightarrow> int set" where
  "old_ids old_cfg = (case old_cfg of None \<Rightarrow> {} | Some c \<Rightarrow> set (other_ids c))"

text \<open>
  A reload that is not the first one after a base backup calls the add callback once for
  exactly the nodes that are new, then the drop callback once for exactly the nodes that are
  gone, and never for the local node.
\<close>

theorem MtmReloadConfig_calls:
  assumes "backup_node_id new_cfg \<le> 0"
  shows "\<exists>adds drops. MtmReloadConfig old_cfg True True (Inr new_cfg) =
      Inr (new_cfg, map NodeAdd adds @ map NodeDrop drops) \<and> distinct adds \<and> distinct drops \<and>
    set adds = set (other_ids new_cfg) - old_ids old_cfg \<and>
    set drops = old_ids old_cfg - set (other_ids new_cfg) \<and> my_node_id new_cfg \<notin> set adds"
proof -
  have "my_node_id new_cfg \<notin> set (other_ids new_cfg)" by (auto simp: other_ids_def)
  with assms show ?thesis
    by (intro exI [of _ "filter (\<lambda>n. n \<notin> old_ids old_cfg) (bms (other_ids new_cfg))"]
        exI [of _ "filter (\<lambda>n. n \<notin> set (other_ids new_cfg))
          (case old_cfg of None \<Rightarrow> [] | Some c \<Rightarrow> bms (other_ids c))"])
      (cases old_cfg; auto simp: MtmReloadConfig_def Let_def old_ids_def)
qed

definition sample_cfg :: "int list \<Rightarrow> MtmConfig" where
  "sample_cfg ids = \<lparr>my_node_id = 1, backup_node_id = 0, backup_end_lsn = 0,
     nodes = map (\<lambda>i. \<lparr>node_id = i, conninfo = [], origin_id = 0, init_done = True\<rparr>) ids,
     cfg_mask = config_mask 1 (map (\<lambda>i. \<lparr>node_id = i, conninfo = [], origin_id = 0, init_done = True\<rparr>) ids)\<rparr>"

theorem MtmReloadConfig_calls_witness:
  "\<exists>adds drops. MtmReloadConfig (Some (sample_cfg [1, 2])) True True (Inr (sample_cfg [1, 3])) =
      Inr (sample_cfg [1, 3], map NodeAdd adds @ map NodeDrop drops) \<and> set adds = {3} \<and> set drops = {2}"
  using MtmReloadConfig_calls [of "sample_cfg [1, 3]" "Some (sample_cfg [1, 2])"]
  by (auto simp: sample_cfg_def other_ids_def old_ids_def)

lemma MtmReloadConfig_basebackup:
  assumes "0 < backup_node_id new_cfg"
  shows "\<exists>calls. MtmReloadConfig old_cfg True has_drop_cb (Inr new_cfg) =
    Inr (new_cfg, NodeAdd (backup_node_id new_cfg) # calls) \<and>
    NodeAdd (backup_node_id new_cfg) \<notin> set calls"
  using assms by (auto simp: MtmReloadConfig_def Let_def)

section \<open>Increasing timestamps\<close>

text \<open>The stamp handed out and the one remembered for the next call.\<close>

definition MtmGetIncreasingTimestamp :: "int \<Rightarrow> int \<Rightarrow> int \<times> int" where
  "MtmGetIncreasingTimestamp now last_timestamp =
     (if now \<le> last_timestamp then (last_timestamp + 1, last_timestamp + 1) else (now, now))"

primrec timestamps :: "int list \<Rightarrow> int \<Rightarrow> int list" where
  "timestamps [] prev = []"
| "timestamps (now # clock) prev =
     (let (t, prev1) = MtmGetIncreasingTimestamp now prev in t # timestamps clock prev1)"

lemma timestamps_increase: "sorted_wrt (<) (prev # timestamps clock prev)"
proof (induction clock arbitrary: prev)
  case (Cons now clock)
  obtain t where t: "MtmGetIncreasingTimestamp now prev = (t, t)" "prev < t"
    by (cases "now \<le> prev") (simp_all add: MtmGetIncreasingTimestamp_def)
  with Cons [of t] show ?case by auto
qed simp

end
