(* ===== verification/Mtm_State.thy ===== *)
theory Mtm_State
  imports Messaging Mtm_Config Bkb
begin

text \<open>
  The generation state of a node (\<open>struct MtmState\<close> and the generation management, election and
  connectivity parts of \<open>src/src/state.c\<close>). Every handler is one state transformer; it runs under
  the generation, vote and connectivity locks the source takes, so that the handlers of one node
  are steps of one sequence. What a handler does besides changing memory (saving the state file,
  writing ParallelSafe to WAL, sending messages, waking processes, talking to the referee) is
  appended to a trace in the order it happens. \<open>None\<close> is an \<open>elog(ERROR)\<close> or a failed \<open>Assert\<close>.

  \<open>me\<close> is \<open>Mtm->my_node_id\<close>; node \<open>n\<close> is bit \<open>n - 1\<close> of a mask.
\<close>

section \<open>State\<close>

datatype MtmStatusInGen = MTM_GEN_DEAD | MTM_GEN_RECOVERY | MTM_GEN_ONLINE

datatype MtmNodeStatus = MTM_ISOLATED | MTM_DISABLED | MTM_CATCHUP | MTM_RECOVERY | MTM_ONLINE

datatype MtmReplicationMode = REPLMODE_DISABLED | REPLMODE_RECOVERY | REPLMODE_NORMAL

text \<open>The part of the state that survives a restart.\<close>

record MtmPersistent =
  p_current_gen :: MtmGeneration
  p_donors :: nodemask_t
  p_last_online_in :: uint64
  p_last_vote :: MtmGeneration
  p_ps_logged :: bool

datatype effect =
  SaveState MtmPersistent
| LogPS MtmGeneration nodemask_t
| WakeReceivers
| WakeCampaigner
| Send int string MtmMessage
| RefereeRequestGrant int uint64
| RefereeClear uint64 int uint64
| TermWalReceiver int

record MtmState =
  current_gen_num :: uint64
  current_gen_members :: nodemask_t
  current_gen_configured :: nodemask_t
  donors :: nodemask_t
  last_online_in :: uint64
  last_vote :: MtmGeneration
  ps_logged :: bool
  others_last_online_in :: "uint64 list"
  dmq_receivers_mask :: nodemask_t
  dmq_senders_mask :: nodemask_t
  connectivity_matrix :: "nodemask_t list"
  receive_mode :: uint32
  campaigner_on_tour :: bool
  catchup_node_id :: int
  catchup_ts :: int
  referee_grant_turn_in_pending :: uint64
  trace :: "effect list"

abbreviation RECEIVE_MODE_DISABLED :: uint32 where "RECEIVE_MODE_DISABLED \<equiv> - 1"
abbreviation RECEIVE_MODE_NORMAL :: uint32 where "RECEIVE_MODE_NORMAL \<equiv> 0"

definition IS_RECEIVE_MODE_DONOR :: "uint32 \<Rightarrow> bool" where
  "IS_RECEIVE_MODE_DONOR m = (m \<noteq> RECEIVE_MODE_NORMAL \<and> m \<noteq> RECEIVE_MODE_DISABLED)"

abbreviation pos :: "int \<Rightarrow> nat" where "pos node \<equiv> nat (node - 1)"

definition emit :: "effect \<Rightarrow> MtmState \<Rightarrow> MtmState" where
  "emit e st = st\<lparr>trace := trace st @ [e]\<rparr>"

definition MtmGetCurrentGen :: "MtmState \<Rightarrow> MtmGeneration" where
  "MtmGetCurrentGen st = \<lparr>num = current_gen_num st, members = current_gen_members st,
     configured = current_gen_configured st\<rparr>"

definition persistent :: "MtmState \<Rightarrow> MtmPersistent" where
  "persistent st = \<lparr>p_current_gen = MtmGetCurrentGen st, p_donors = donors st,
     p_last_online_in = last_online_in st, p_last_vote = last_vote st, p_ps_logged = ps_logged st\<rparr>"

definition MtmStateSave :: "MtmState \<Rightarrow> MtmState" where
  "MtmStateSave st = emit (SaveState (persistent st)) st"

definition MtmStateLoad :: "MtmPersistent \<Rightarrow> MtmState \<Rightarrow> MtmState" where
  "MtmStateLoad p st = st\<lparr>
     current_gen_num := num (p_current_gen p), current_gen_members := members (p_current_gen p),
     current_gen_configured := configured (p_current_gen p), donors := p_donors p,
     last_online_in := p_last_online_in p, last_vote := p_last_vote p, ps_logged := p_ps_logged p\<rparr>"

definition CampaignerWake :: "MtmState \<Rightarrow> MtmState" where
  "CampaignerWake st = emit WakeCampaigner st"

definition MtmSetReceiveMode :: "uint32 \<Rightarrow> MtmState \<Rightarrow> MtmState" where
  "MtmSetReceiveMode m st =
     (let st = st\<lparr>receive_mode := m\<rparr>
      in if m \<noteq> RECEIVE_MODE_DISABLED then emit WakeReceivers st else st)"

definition MtmGetReceiverMode :: "MtmState \<Rightarrow> int \<Rightarrow> MtmReplicationMode" where
  "MtmGetReceiverMode st nodeId =
     (if receive_mode st = RECEIVE_MODE_DISABLED then REPLMODE_DISABLED
      else if receive_mode st = RECEIVE_MODE_NORMAL then REPLMODE_NORMAL
      else if receive_mode st = word_of_int nodeId then REPLMODE_RECOVERY
      else REPLMODE_DISABLED)"

definition MtmGetCurrentStatusInGen :: "int \<Rightarrow> MtmState \<Rightarrow> MtmStatusInGen option" where
  "MtmGetCurrentStatusInGen me st =
     (if me = MtmInvalidNodeId then None
      else if current_gen_num st = MtmInvalidGenNum then None
      else if last_online_in st = current_gen_num st then Some MTM_GEN_ONLINE
      else if BIT_CHECK (current_gen_members st) (pos me) \<and>
              Quorum (popcount (current_gen_configured st)) (popcount (current_gen_members st)) \<and>
              current_gen_num st = num (last_vote st)
      then Some MTM_GEN_RECOVERY
      else Some MTM_GEN_DEAD)"

section \<open>Startup and cluster creation\<close>

definition LogParallelSafe :: "MtmGeneration \<Rightarrow> nodemask_t \<Rightarrow> MtmState \<Rightarrow> MtmState" where
  "LogParallelSafe gen dn st = emit (LogPS gen dn) st"

definition restore_receive_mode :: "int \<Rightarrow> MtmState \<Rightarrow> MtmState option" where
  "restore_receive_mode me st = do {
     status_in_gen \<leftarrow> MtmGetCurrentStatusInGen me st;
     case status_in_gen of
       MTM_GEN_ONLINE \<Rightarrow> Some (st\<lparr>receive_mode := RECEIVE_MODE_NORMAL\<rparr>)
     | MTM_GEN_RECOVERY \<Rightarrow>
         (let donor = first_set_bit (donors st) + 1
          in if 0 < donor then Some (st\<lparr>receive_mode := word_of_int donor\<rparr>) else None)
     | MTM_GEN_DEAD \<Rightarrow> Some (st\<lparr>receive_mode := RECEIVE_MODE_DISABLED\<rparr>)
   }"

definition finish_logging :: "MtmState \<Rightarrow> MtmState" where
  "finish_logging st =
     (if current_gen_num st = last_online_in st \<and> \<not> ps_logged st
      then MtmStateSave ((LogParallelSafe (MtmGetCurrentGen st) (donors st) st)\<lparr>ps_logged := True\<rparr>)
      else st)"

definition MtmStateStartup :: "int \<Rightarrow> MtmPersistent \<Rightarrow> MtmState \<Rightarrow> MtmState option" where
  "MtmStateStartup me disk st =
     map_option finish_logging (restore_receive_mode me (MtmStateLoad disk st))"

definition mtm_state_create :: "int list \<Rightarrow> MtmState \<Rightarrow> MtmState option" where
  "mtm_state_create node_ids st =
     (if \<not> list_all (\<lambda>i. 1 \<le> i) node_ids then None
      else let m = fold (\<lambda>i m. BIT_SET m (pos i)) node_ids 0;
               st = st\<lparr>current_gen_num := 1, current_gen_members := m, current_gen_configured := m,
                       donors := m, last_online_in := 1,
                       last_vote := \<lparr>num = 1, members = m, configured = 0\<rparr>\<rparr>
           in Some ((MtmStateSave st)\<lparr>current_gen_num := 0\<rparr>))"

section \<open>Switching generations\<close>

definition switch_dead :: "int \<Rightarrow> MtmGeneration \<Rightarrow> MtmState \<Rightarrow> bool" where
  "switch_dead me gen st =
     (\<not> BIT_CHECK (members gen) (pos me) \<or>
      (\<not> Quorum (popcount (configured gen)) (popcount (members gen)) \<and>
       \<not> IS_REFEREE_GEN (members gen) (configured gen)) \<or>
      num (last_vote st) > num gen)"

definition MtmConsiderGenSwitch :: "int \<Rightarrow> MtmGeneration \<Rightarrow> nodemask_t \<Rightarrow> MtmState \<Rightarrow> MtmState option" where
  "MtmConsiderGenSwitch me gen dn st =
     (if current_gen_num st = num gen \<and>
         \<not> (current_gen_members st = members gen \<and> current_gen_configured st = configured gen)
      then None
      else if current_gen_num st \<ge> num gen then Some st
      else if current_gen_num st = MtmInvalidGenNum then None
      else
        let st = (if num (last_vote st) < num gen then st\<lparr>last_vote := gen\<rparr> else st);
            st = st\<lparr>current_gen_num := num gen, current_gen_members := members gen,
                    current_gen_configured := configured gen, donors := dn\<rparr>
        in if switch_dead me gen st
           then Some (CampaignerWake (MtmStateSave (MtmSetReceiveMode RECEIVE_MODE_DISABLED st)))
           else if BIT_CHECK dn (pos me)
           then (let st = MtmStateSave (st\<lparr>ps_logged := False, last_online_in := num gen\<rparr>);
                     st = MtmStateSave ((LogParallelSafe gen dn st)\<lparr>ps_logged := True\<rparr>)
                 in Some (MtmSetReceiveMode RECEIVE_MODE_NORMAL st))
           else (let st = MtmStateSave st;
                     donor = first_set_bit dn + 1
                 in if 0 < donor then Some (MtmSetReceiveMode (word_of_int donor) st) else None))"

text \<open>The result says whether the record has to be received again in recovery mode.\<close>

definition MtmHandleParallelSafe ::
  "int \<Rightarrow> bool \<Rightarrow> MtmGeneration \<Rightarrow> nodemask_t \<Rightarrow> bool \<Rightarrow> MtmState \<Rightarrow> (bool \<times> MtmState) option" where
  "MtmHandleParallelSafe me referee_enabled ps_gen ps_donors is_recovery st = do {
     st \<leftarrow> MtmConsiderGenSwitch me ps_gen ps_donors st;
     if num ps_gen < current_gen_num st then Some (False, st)
     else do {
       status \<leftarrow> MtmGetCurrentStatusInGen me st;
       if num ps_gen \<noteq> current_gen_num st \<or> status \<noteq> MTM_GEN_RECOVERY then Some (False, st)
       else if \<not> is_recovery then Some (True, st)
       else
         let st = MtmStateSave (st\<lparr>ps_logged := False, last_online_in := num ps_gen\<rparr>);
             st = MtmStateSave ((LogParallelSafe ps_gen ps_donors st)\<lparr>ps_logged := True\<rparr>);
             st = MtmSetReceiveMode RECEIVE_MODE_NORMAL st
         in if referee_enabled \<and> popcount (configured ps_gen) = 2
            then (if popcount (members ps_gen) = 2
                  then Some (False, st\<lparr>referee_grant_turn_in_pending := num ps_gen\<rparr>)
                  else None)
            else Some (False, st)
     }
   }"

section \<open>Connectivity\<close>

definition MtmGetConnectedMask :: "MtmState \<Rightarrow> nodemask_t" where
  "MtmGetConnectedMask st = dmq_receivers_mask st AND dmq_senders_mask st"

definition MtmGetConnectedMaskWithMe :: "int \<Rightarrow> MtmState \<Rightarrow> nodemask_t option" where
  "MtmGetConnectedMaskWithMe me st =
     (if me = MtmInvalidNodeId then None else Some (BIT_SET (MtmGetConnectedMask st) (pos me)))"

text \<open>The peer of a dmq connection is told apart by its name, \<^verbatim>\<open>node%d\<close>.\<close>

definition dmq_node_id :: "string \<Rightarrow> int option" where
  "dmq_node_id name = (case snd (sscanf (lits ''node'' @ [Conv_d]) name) of
     [Arg_int n] \<Rightarrow> Some n | _ \<Rightarrow> None)"

text \<open>An access \<open>a[node_id - 1]\<close> of a per-node array.\<close>

definition node_set :: "'a list \<Rightarrow> int \<Rightarrow> 'a \<Rightarrow> 'a list option" where
  "node_set a nid v = (if 1 \<le> nid \<and> pos nid < length a then Some (a[pos nid := v]) else None)"

definition wake_if :: "bool \<Rightarrow> MtmState \<Rightarrow> MtmState" where
  "wake_if changed st = (if changed then CampaignerWake st else st)"

definition MtmOnDmqReceiverConnect ::
  "MtmConfig \<Rightarrow> bool \<Rightarrow> bool \<Rightarrow> string \<Rightarrow> MtmState \<Rightarrow> MtmState option" where
  "MtmOnDmqReceiverConnect cfg monitor_loaded replier_loaded node_name st = do {
     nid \<leftarrow> dmq_node_id node_name;
     if MtmNodeById cfg nid = None \<or> \<not> monitor_loaded \<or> \<not> replier_loaded then None
     else if BIT_CHECK (dmq_receivers_mask st) (pos nid) then None
     else Some (CampaignerWake (st\<lparr>dmq_receivers_mask := BIT_SET (dmq_receivers_mask st) (pos nid)\<rparr>))
   }"

definition MtmOnDmqReceiverHeartbeat ::
  "int \<Rightarrow> string \<Rightarrow> MtmMessage option \<Rightarrow> MtmState \<Rightarrow> MtmState option" where
  "MtmOnDmqReceiverHeartbeat me node_name parsed st = do {
     nid \<leftarrow> dmq_node_id node_name;
     case parsed of
       Some (T_MtmHeartbeat msg) \<Rightarrow> do {
         st \<leftarrow> MtmConsiderGenSwitch me (hb_current_gen msg) (hb_donors msg) st;
         lois \<leftarrow> node_set (others_last_online_in st) nid (hb_last_online_in msg);
         matrix \<leftarrow> node_set (connectivity_matrix st) nid (hb_connected_mask msg);
         Some (wake_if (connectivity_matrix st ! pos nid \<noteq> hb_connected_mask msg)
           (st\<lparr>others_last_online_in := lois, connectivity_matrix := matrix\<rparr>))
       }
     | _ \<Rightarrow> None
   }"

definition MtmOnDmqReceiverDisconnect :: "bool \<Rightarrow> string \<Rightarrow> MtmState \<Rightarrow> MtmState option" where
  "MtmOnDmqReceiverDisconnect has_walreceiver node_name st = do {
     nid \<leftarrow> dmq_node_id node_name;
     let st' = st\<lparr>dmq_receivers_mask := BIT_CLEAR (dmq_receivers_mask st) (pos nid)\<rparr>;
     matrix \<leftarrow> node_set (connectivity_matrix st) nid 0;
     let st'' = wake_if (MtmGetConnectedMask st \<noteq> MtmGetConnectedMask st')
           (st'\<lparr>connectivity_matrix := matrix\<rparr>);
     Some (if has_walreceiver then emit (TermWalReceiver nid) st'' else st'')
   }"

definition MtmOnDmqSenderConnect :: "string \<Rightarrow> MtmState \<Rightarrow> MtmState option" where
  "MtmOnDmqSenderConnect node_name st = do {
     nid \<leftarrow> dmq_node_id node_name;
     let st' = st\<lparr>dmq_senders_mask := BIT_SET (dmq_senders_mask st) (pos nid)\<rparr>;
     Some (wake_if (MtmGetConnectedMask st \<noteq> MtmGetConnectedMask st') st')
   }"

definition MtmOnDmqSenderDisconnect :: "string \<Rightarrow> MtmState \<Rightarrow> MtmState option" where
  "MtmOnDmqSenderDisconnect node_name st = do {
     nid \<leftarrow> dmq_node_id node_name;
     let st' = st\<lparr>dmq_senders_mask := BIT_CLEAR (dmq_senders_mask st) (pos nid)\<rparr>;
     Some (wake_if (MtmGetConnectedMask st \<noteq> MtmGetConnectedMask st') st')
   }"

definition MtmOnDmqSenderHeartbeat :: "MtmState \<Rightarrow> MtmHeartbeat" where
  "MtmOnDmqSenderHeartbeat st = \<lparr>hb_current_gen = MtmGetCurrentGen st, hb_donors = donors st,
     hb_last_online_in = last_online_in st, hb_connected_mask = MtmGetConnectedMask st\<rparr>"

definition MtmIsConnectivityClique :: "int \<Rightarrow> nodemask_t \<Rightarrow> MtmState \<Rightarrow> bool option" where
  "MtmIsConnectivityClique me m st =
     (if length (connectivity_matrix st) < MTM_MAX_NODES then None
      else Some (list_all (\<lambda>i. BIT_CHECK m i \<longrightarrow>
        list_all (\<lambda>j. i \<noteq> j \<and> BIT_CHECK m j \<longrightarrow>
          (if int i + 1 = me then BIT_CHECK (MtmGetConnectedMask st) j
           else BIT_CHECK (connectivity_matrix st ! i) j)) [0..<MTM_MAX_NODES]) [0..<MTM_MAX_NODES]))"

text \<open>The two nested loops that leave an edge only when both ends see each other.\<close>

definition drop_edge :: "nat \<Rightarrow> nat \<Rightarrow> nodemask_t list \<Rightarrow> nodemask_t list" where
  "drop_edge i j matrix =
     (if \<not> BIT_CHECK (matrix ! j) i \<or> \<not> BIT_CHECK (matrix ! i) j
      then (let matrix = matrix[i := BIT_CLEAR (matrix ! i) j]
            in matrix[j := BIT_CLEAR (matrix ! j) i])
      else matrix)"

definition symmetrize_row :: "nat \<Rightarrow> nodemask_t list \<Rightarrow> nodemask_t list" where
  "symmetrize_row i matrix =
     (let matrix = fold (drop_edge i) [0..<i] matrix in matrix[i := BIT_SET (matrix ! i) i])"

definition symmetrize :: "nodemask_t list \<Rightarrow> nodemask_t list" where
  "symmetrize matrix = fold symmetrize_row [0..<MTM_MAX_NODES] matrix"

definition MtmGetConnectivityClique :: "int \<Rightarrow> MtmState \<Rightarrow> nodemask_t option" where
  "MtmGetConnectivityClique me st = do {
     seen \<leftarrow> MtmGetConnectedMaskWithMe me st;
     matrix \<leftarrow> node_set (connectivity_matrix st) me seen;
     (clique, size) \<leftarrow> MtmFindMaxClique (symmetrize matrix) MTM_MAX_NODES;
     Some (if popcount clique = 1 then BIT_SET 0 (pos me) else clique)
   }"

definition MtmGetCurrentStatus :: "int \<Rightarrow> MtmState \<Rightarrow> MtmNodeStatus option" where
  "MtmGetCurrentStatus me st = do {
     status_in_gen \<leftarrow> MtmGetCurrentStatusInGen me st;
     if status_in_gen = MTM_GEN_DEAD
     then Some (if receive_mode st = RECEIVE_MODE_DISABLED then MTM_DISABLED else MTM_CATCHUP)
     else do {
       clique \<leftarrow> MtmGetConnectivityClique me st;
       Some (if \<not> is_submask (current_gen_members st) clique \<or> campaigner_on_tour st
             then MTM_ISOLATED
             else if status_in_gen = MTM_GEN_RECOVERY then MTM_RECOVERY else MTM_ONLINE)
     }
   }"

definition MtmGetEnabledNodeMask :: "int \<Rightarrow> MtmState \<Rightarrow> nodemask_t option" where
  "MtmGetEnabledNodeMask me st =
     (if me = MtmInvalidNodeId \<or> length (others_last_online_in st) < MTM_MAX_NODES then None
      else do {
        online \<leftarrow> (if 1 \<le> me \<and> me \<le> int MTM_MAX_NODES \<and> BIT_CHECK (current_gen_configured st) (pos me)
                  then map_option (\<lambda>s. s = MTM_GEN_ONLINE) (MtmGetCurrentStatusInGen me st)
                  else Some False);
        Some (fold (\<lambda>i enabled.
          if \<not> BIT_CHECK (current_gen_configured st) i then enabled
          else if me = int i + 1
          then (if online then BIT_SET enabled i else enabled)
          else (if others_last_online_in st ! i = current_gen_num st then BIT_SET enabled i else enabled))
          [0..<MTM_MAX_NODES] 0)
      })"

definition MtmGetDisabledNodeMask :: "int \<Rightarrow> MtmState \<Rightarrow> nodemask_t option" where
  "MtmGetDisabledNodeMask me st =
     map_option (\<lambda>enabled. current_gen_configured st AND NOT enabled) (MtmGetEnabledNodeMask me st)"

section \<open>Campaigning\<close>

definition MtmReportReceiverCaughtup :: "int \<Rightarrow> int \<Rightarrow> MtmState \<Rightarrow> MtmState" where
  "MtmReportReceiverCaughtup nid cur_time st = st\<lparr>catchup_node_id := nid, catchup_ts := cur_time\<rparr>"

text \<open>The most advanced connected node and its last online generation, the first one on ties.\<close>

definition most_advanced :: "nodemask_t \<Rightarrow> uint64 list \<Rightarrow> int \<times> uint64" where
  "most_advanced connected lois =
     fold (\<lambda>i (node, gen).
       if BIT_CHECK connected i \<and> lois ! i > gen then (int i + 1, lois ! i) else (node, gen))
     [0..<MTM_MAX_NODES] (MtmInvalidNodeId, MtmInvalidGenNum)"

definition SetCatchupDonor :: "nodemask_t \<Rightarrow> MtmState \<Rightarrow> (uint64 \<times> MtmState) option" where
  "SetCatchupDonor connected st =
     (let lois = others_last_online_in st;
          (node, gen) = most_advanced connected lois;
          curr = receive_mode st
      in if length lois < MTM_MAX_NODES \<or> gen = MtmInvalidGenNum then None
         else if \<not> IS_RECEIVE_MODE_DONOR curr \<or> \<not> BIT_CHECK connected (unat (curr - 1))
         then Some (gen, MtmSetReceiveMode (word_of_int node) st)
         else if length lois \<le> unat (curr - 1) then None
         else if lois ! unat (curr - 1) < gen
         then Some (gen, MtmSetReceiveMode (word_of_int node) st)
         else Some (gen, st))"

text \<open>
  Whether a dead node may ask to be taken into a generation: the donor is right and the report
  that it was caught up is fresh.
\<close>

definition caught_up :: "int \<Rightarrow> int \<Rightarrow> MtmState \<Rightarrow> bool" where
  "caught_up cur_time heartbeat_recv_timeout st =
     (word_of_int (catchup_node_id st) = receive_mode st \<and>
      cur_time - catchup_ts st < heartbeat_recv_timeout * 5)"

record campaign_env =
  referee_enabled :: bool
  replier_loaded :: bool
  heartbeat_recv_timeout :: int
  cur_time :: int

datatype campaign = NoCampaign | Campaign MtmGeneration nodemask_t uint64

text \<open>The vote of the campaigner for itself; the last vote is reused when the candidates are the same.\<close>

definition vote_myself :: "int \<Rightarrow> nodemask_t \<Rightarrow> nodemask_t \<Rightarrow> nodemask_t \<Rightarrow> MtmState \<Rightarrow> MtmState \<times> campaign" where
  "vote_myself me mem conf clique st =
     (let st = st\<lparr>campaigner_on_tour := True\<rparr>;
          reuse = (mem = members (last_vote st) \<and> conf = configured (last_vote st));
          cand = \<lparr>num = (if reuse then num (last_vote st) else num (last_vote st) + 1),
                  members = mem, configured = conf\<rparr>;
          st = (if reuse then st else MtmStateSave (st\<lparr>last_vote := cand\<rparr>))
      in (st, Campaign cand (BIT_CLEAR clique (pos me)) (last_online_in st)))"

text \<open>Catching up of a dead node: its donor, and whether it lags too much to be taken in.\<close>

definition campaign_catchup ::
  "int \<Rightarrow> campaign_env \<Rightarrow> MtmStatusInGen \<Rightarrow> nodemask_t \<Rightarrow> MtmState \<Rightarrow> (bool \<times> MtmState) option" where
  "campaign_catchup me env status_in_gen seen st =
     (if status_in_gen = MTM_GEN_DEAD
      then do {
        (donor_loi, st) \<leftarrow> SetCatchupDonor seen st;
        Some (\<not> BIT_CHECK (current_gen_members st) (pos me) \<and> last_online_in st < donor_loi \<and>
              \<not> caught_up (cur_time env) (heartbeat_recv_timeout env) st, st)
      }
      else Some (False, st))"

definition CampaignMyself ::
  "int \<Rightarrow> MtmConfig \<Rightarrow> campaign_env \<Rightarrow> MtmState \<Rightarrow> (MtmState \<times> campaign) option" where
  "CampaignMyself me cfg env st =
     (if backup_node_id cfg \<noteq> MtmInvalidNodeId
      then Some (MtmSetReceiveMode (word_of_int (backup_node_id cfg)) st, NoCampaign)
      else do {
        seen \<leftarrow> MtmGetConnectedMaskWithMe me st;
        clique \<leftarrow> MtmGetConnectivityClique me st;
        status \<leftarrow> MtmGetCurrentStatusInGen me st;
        if \<not> replier_loaded env then Some (st, NoCampaign)
        else if status = MTM_GEN_ONLINE \<and> is_submask (current_gen_members st) seen
        then Some (st, NoCampaign)
        else if (\<not> MtmQuorum cfg (popcount clique) \<or> \<not> BIT_CHECK clique (pos me)) \<and>
                \<not> (referee_enabled env \<and> status = MTM_GEN_ONLINE)
        then Some (if status = MTM_GEN_DEAD then MtmSetReceiveMode RECEIVE_MODE_DISABLED st else st,
                   NoCampaign)
        else do {
          (lagging, st) \<leftarrow> campaign_catchup me env status seen st;
          let mem = BIT_SET (current_gen_members st AND clique) (pos me);
          Some (if lagging then (st, NoCampaign)
                else if mem = current_gen_members st \<and>
                        (status \<noteq> MTM_GEN_DEAD \<or> num (last_vote st) = current_gen_num st)
                then (st, NoCampaign)
                else vote_myself me mem (cfg_mask cfg) clique st)
        }
      })"

text \<open>The progress of the poll: votes, complaints, the best donors and who has not answered.\<close>

record tour =
  nvotes :: nat
  max_last_vote_num :: uint64
  max_last_online_in :: uint64
  tour_donors :: nodemask_t
  not_polled :: nodemask_t

definition count_response :: "MtmGeneration \<Rightarrow> int \<Rightarrow> MtmGenVoteResponse \<Rightarrow> tour \<Rightarrow> tour" where
  "count_response cand sender msg t =
     (let t = (if vr_gen_num msg = num cand \<and> vr_vote_ok msg \<noteq> 0
               then (let t = t\<lparr>nvotes := nvotes t + 1\<rparr>
                     in if vr_last_online_in msg = max_last_online_in t
                        then t\<lparr>tour_donors := BIT_SET (tour_donors t) (pos sender)\<rparr>
                        else if vr_last_online_in msg > max_last_online_in t
                        then t\<lparr>tour_donors := BIT_SET 0 (pos sender),
                               max_last_online_in := vr_last_online_in msg\<rparr>
                        else t)
               else t);
          t = (if vr_vote_ok msg = 0 \<and> vr_last_vote_num msg > max_last_vote_num t
               then t\<lparr>max_last_vote_num := vr_last_vote_num msg\<rparr> else t)
      in t\<lparr>not_polled := BIT_CLEAR (not_polled t) (pos sender)\<rparr>)"

fun process_responses ::
  "int \<Rightarrow> MtmGeneration \<Rightarrow> (int \<times> MtmGenVoteResponse) list \<Rightarrow> tour \<Rightarrow> MtmState \<Rightarrow> (tour \<times> MtmState) option" where
  "process_responses me cand [] t st = Some (t, st)"
| "process_responses me cand ((sender, msg) # msgs) t st = do {
     st \<leftarrow> (if num (vr_curr_gen msg) \<noteq> MtmInvalidGenNum
           then MtmConsiderGenSwitch me (vr_curr_gen msg) (vr_curr_gen_donors msg) st else Some st);
     process_responses me cand msgs (count_response cand sender msg t) st
   }"

definition scatter :: "MtmConfig \<Rightarrow> (int \<Rightarrow> int) \<Rightarrow> nodemask_t \<Rightarrow> string \<Rightarrow> MtmMessage \<Rightarrow> effect list" where
  "scatter cfg dmq_dest_id cmask stream msg =
     [Send (dmq_dest_id (node_id n)) stream msg. n \<leftarrow> nodes cfg,
        0 \<le> dmq_dest_id (node_id n) \<and> BIT_CHECK cmask (pos (node_id n))]"

definition tour_start :: "int \<Rightarrow> MtmGeneration \<Rightarrow> uint64 \<Rightarrow> tour" where
  "tour_start me cand my_loi = \<lparr>nvotes = 1, max_last_vote_num = MtmInvalidGenNum,
     max_last_online_in = my_loi, tour_donors = BIT_SET 0 (pos me),
     not_polled = BIT_CLEAR (members cand) (pos me)\<rparr>"

definition tour_won :: "MtmConfig \<Rightarrow> tour \<Rightarrow> bool" where
  "tour_won cfg t = (MtmQuorum cfg (nvotes t) \<and> not_polled t = 0)"

definition bump_last_vote :: "tour \<Rightarrow> MtmState \<Rightarrow> MtmState" where
  "bump_last_vote t st =
     (if max_last_vote_num t \<noteq> MtmInvalidGenNum \<and> max_last_vote_num t \<ge> num (last_vote st)
      then MtmStateSave (st\<lparr>last_vote := \<lparr>num = max_last_vote_num t, members = 0, configured = 0\<rparr>\<rparr>)
      else st)"

text \<open>\<open>messages\<close> is what \<open>gather\<close> returns to the poll sent by \<open>scatter\<close>.\<close>

definition CampaignTour ::
  "int \<Rightarrow> MtmConfig \<Rightarrow> (int \<Rightarrow> int) \<Rightarrow> MtmGeneration \<Rightarrow> nodemask_t \<Rightarrow> uint64 \<Rightarrow>
   (int \<times> MtmGenVoteResponse) list \<Rightarrow> MtmState \<Rightarrow> MtmState option" where
  "CampaignTour me cfg dmq_dest_id cand cohort my_loi messages st = do {
     let st = st\<lparr>trace := trace st @
           scatter cfg dmq_dest_id cohort ''reqresp'' (T_MtmGenVoteRequest \<lparr>vq_gen = cand\<rparr>)\<rparr>;
     (t, st) \<leftarrow> process_responses me cand messages (tour_start me cand my_loi) st;
     st \<leftarrow> (if tour_won cfg t then MtmConsiderGenSwitch me cand (tour_donors t) st else Some st);
     Some ((bump_last_vote t st)\<lparr>campaigner_on_tour := False\<rparr>)
   }"

section \<open>The referee\<close>

text \<open>How a query to the referee can end.\<close>

datatype referee_reply = ConnFailed | QueryFailed | BadResult | QueryOk

definition CampaignReferee :: "int \<Rightarrow> MtmGeneration \<Rightarrow> referee_reply \<Rightarrow> MtmState \<Rightarrow> MtmState option" where
  "CampaignReferee me cand reply st =
     (if reply = ConnFailed then Some (st\<lparr>campaigner_on_tour := False\<rparr>)
      else if me \<noteq> first_set_bit (members cand) + 1 then None
      else
        let st = emit (RefereeRequestGrant me (num cand)) st
        in case reply of
             QueryFailed \<Rightarrow> Some (st\<lparr>campaigner_on_tour := False,
                                    referee_grant_turn_in_pending := current_gen_num st\<rparr>)
           | BadResult \<Rightarrow> Some (st\<lparr>campaigner_on_tour := False\<rparr>)
           | _ \<Rightarrow> map_option (\<lambda>st. st\<lparr>campaigner_on_tour := False\<rparr>)
                    (MtmConsiderGenSwitch me cand (BIT_SET 0 (pos me)) st))"

definition other_lagging :: "int \<Rightarrow> MtmState \<Rightarrow> bool" where
  "other_lagging me st =
     list_ex (\<lambda>i. BIT_CHECK (current_gen_members st) i \<and> int i + 1 \<noteq> me \<and>
        others_last_online_in st ! i < last_online_in st) [0..<MTM_MAX_NODES]"

definition RefereeClearGrant :: "int \<Rightarrow> referee_reply \<Rightarrow> MtmState \<Rightarrow> MtmState option" where
  "RefereeClearGrant me reply st =
     (if length (others_last_online_in st) < MTM_MAX_NODES then None
      else do {
        status \<leftarrow> MtmGetCurrentStatusInGen me st;
        if popcount (current_gen_members st) \<noteq> 2 \<or> status \<noteq> MTM_GEN_ONLINE
        then Some (st\<lparr>referee_grant_turn_in_pending := MtmInvalidGenNum\<rparr>)
        else if other_lagging me st then Some st
        else if reply = ConnFailed then Some st
        else
          let st' = emit (RefereeClear (current_gen_num st) me (num (last_vote st))) st
          in if reply = QueryFailed then Some st'
             else if referee_grant_turn_in_pending st \<le> current_gen_num st
             then Some (st'\<lparr>referee_grant_turn_in_pending := MtmInvalidGenNum\<rparr>)
             else Some st'
      })"

section \<open>Voting\<close>

definition no_response :: "uint64 \<Rightarrow> MtmGenVoteResponse" where
  "no_response n = \<lparr>vr_gen_num = n, vr_vote_ok = 0, vr_last_online_in = 0, vr_last_vote_num = 0,
     vr_curr_gen = \<lparr>num = 0, members = 0, configured = 0\<rparr>, vr_curr_gen_donors = 0\<rparr>"

definition vote_acceptable ::
  "int \<Rightarrow> MtmConfig \<Rightarrow> MtmGeneration \<Rightarrow> int \<Rightarrow> nodemask_t \<Rightarrow> MtmState \<Rightarrow> bool option" where
  "vote_acceptable me cfg gen sender clique st =
     (let curr_and_proposer = BIT_SET (current_gen_members st) (pos sender)
      in if \<not> is_submask (members gen) curr_and_proposer \<or> \<not> is_submask (members gen) clique \<or>
            configured gen \<noteq> cfg_mask cfg
         then Some False
         else do {
           connected \<leftarrow> MtmIsConnectivityClique me (current_gen_members st) st;
           status \<leftarrow> MtmGetCurrentStatusInGen me st;
           Some (\<not> (status = MTM_GEN_ONLINE \<and> connected \<and>
                    \<not> BIT_CHECK (current_gen_members st) (pos sender) \<and>
                    \<not> is_submask (current_gen_members st) (members gen)))
         })"

definition give_vote :: "int \<Rightarrow> MtmGeneration \<Rightarrow> MtmState \<Rightarrow> (MtmState \<times> MtmGenVoteResponse) option" where
  "give_vote me gen st = do {
     old_status \<leftarrow> MtmGetCurrentStatusInGen me st;
     let resp = (no_response (num gen))\<lparr>vr_vote_ok := 1, vr_last_online_in := last_online_in st\<rparr>;
     let st = MtmStateSave (st\<lparr>last_vote := gen\<rparr>);
     new_status \<leftarrow> MtmGetCurrentStatusInGen me st;
     Some (if old_status = MTM_GEN_RECOVERY \<and> new_status = MTM_GEN_DEAD
           then MtmSetReceiveMode RECEIVE_MODE_DISABLED st else st, resp)
   }"

definition decide_vote ::
  "int \<Rightarrow> MtmConfig \<Rightarrow> MtmGeneration \<Rightarrow> int \<Rightarrow> nodemask_t \<Rightarrow> MtmState \<Rightarrow>
   (MtmState \<times> MtmGenVoteResponse) option" where
  "decide_vote me cfg gen sender clique st =
     (let refuse = no_response (num gen)
      in if current_gen_num st \<ge> num gen
         then Some (st, refuse\<lparr>vr_last_vote_num := num (last_vote st),
                 vr_curr_gen := MtmGetCurrentGen st, vr_curr_gen_donors := donors st\<rparr>)
         else if EQUAL_GENS (last_vote st) gen
         then Some (st, refuse\<lparr>vr_vote_ok := 1, vr_last_online_in := last_online_in st\<rparr>)
         else if num (last_vote st) \<ge> num gen
         then Some (st, refuse\<lparr>vr_last_vote_num := num (last_vote st)\<rparr>)
         else do {
           acceptable \<leftarrow> vote_acceptable me cfg gen sender clique st;
           if acceptable then give_vote me gen st else Some (st, refuse)
         })"

definition HandleGenVoteRequest ::
  "int \<Rightarrow> MtmConfig \<Rightarrow> MtmGeneration \<Rightarrow> int \<Rightarrow> int \<Rightarrow> MtmState \<Rightarrow> MtmState option" where
  "HandleGenVoteRequest me cfg gen sender dest_id st = do {
     clique \<leftarrow> MtmGetConnectivityClique me st;
     (st, resp) \<leftarrow> decide_vote me cfg gen sender clique st;
     Some (emit (Send dest_id ''genvoteresp'' (T_MtmGenVoteResponse resp)) st)
   }"

section \<open>One round of the campaigner\<close>

definition campaigner_round ::
  "int \<Rightarrow> MtmConfig \<Rightarrow> campaign_env \<Rightarrow> bool \<Rightarrow> (int \<Rightarrow> int) \<Rightarrow>
   (MtmState \<Rightarrow> MtmGeneration \<Rightarrow> (int \<times> MtmGenVoteResponse) list) \<Rightarrow> referee_reply \<Rightarrow> referee_reply \<Rightarrow>
   MtmState \<Rightarrow> MtmState option" where
  "campaigner_round me cfg env campaign_now dmq_dest_id gathered grant_reply clear_reply st = do {
     st \<leftarrow> (if campaign_now
           then do {
             (st, c) \<leftarrow> CampaignMyself me cfg env st;
             case c of
               NoCampaign \<Rightarrow> Some st
             | Campaign cand cohort my_loi \<Rightarrow>
                 if \<not> IS_REFEREE_GEN (members cand) (configured cand)
                 then CampaignTour me cfg dmq_dest_id cand cohort my_loi (gathered st cand) st
                 else CampaignReferee me cand grant_reply st
           }
           else Some st);
     if referee_enabled env \<and> referee_grant_turn_in_pending st \<noteq> MtmInvalidGenNum
     then RefereeClearGrant me clear_reply st
     else Some st
   }"

text \<open>A node of a cluster of three that is online and sees the others.\<close>

definition connected_state :: MtmState where
  "connected_state = \<lparr>current_gen_num = 1, current_gen_members = 7, current_gen_configured = 7, donors = 7,
     last_online_in = 1, last_vote = \<lparr>num = 1, members = 7, configured = 7\<rparr>, ps_logged = True,
     others_last_online_in = replicate 16 1, dmq_receivers_mask = 6, dmq_senders_mask = 6,
     connectivity_matrix = replicate 16 7, receive_mode = 0, campaigner_on_tour = False,
     catchup_node_id = 0, catchup_ts = 0, referee_grant_turn_in_pending = 0, trace = []\<rparr>"

end
