(* ===== verification/Connectivity.thy ===== *)
theory Connectivity
  imports Mtm_State
begin

text \<open>
  Who sees whom, and the connectivity clique (\<open>MtmIsConnectivityClique\<close>,
  \<open>MtmGetConnectivityClique\<close> and the monitoring masks of \<open>src/src/state.c\<close>). The loop that makes
  the matrix symmetric keeps an edge exactly when both ends report it, which is what the clique
  search needs to be total; its result is then a largest set of nodes that all see each other.
\<close>

section \<open>The symmetric matrix\<close>

definition both :: "nodemask_t list \<Rightarrow> nat \<Rightarrow> nat \<Rightarrow> bool" where
  "both m i j \<longleftrightarrow> bit (m ! i) j \<and> bit (m ! j) i"

lemma length_drop_edge [simp]: "length (drop_edge i j m) = length m"
  by (simp add: drop_edge_def Let_def)

lemma bit_drop_edge:
  assumes "i < length m" and "j < length m" and "i \<noteq> j"
  shows "bit (drop_edge i j m ! a) b \<longleftrightarrow>
    bit (m ! a) b \<and> (a = i \<and> b = j \<or> a = j \<and> b = i \<longrightarrow> both m i j)"
  using assms by (auto simp: drop_edge_def Let_def nth_list_update mask_simps both_def)

lemma fold_drop_edge:
  assumes "i < length m" and "l \<le> i"
  shows "length (fold (drop_edge i) [0..<l] m) = length m \<and>
    (\<forall>a b. bit (fold (drop_edge i) [0..<l] m ! a) b \<longleftrightarrow>
       bit (m ! a) b \<and> (a = i \<and> b < l \<or> b = i \<and> a < l \<longrightarrow> both m a b))"
  using assms(2)
proof (induction l)
  case (Suc l)
  let ?m = "fold (drop_edge i) [0..<l] m"
  have len: "length ?m = length m"
    and bits: "\<And>a b. bit (?m ! a) b \<longleftrightarrow>
      bit (m ! a) b \<and> (a = i \<and> b < l \<or> b = i \<and> a < l \<longrightarrow> both m a b)"
    using Suc by simp_all
  have il: "i < length ?m" "l < length ?m" "i \<noteq> l" using Suc.prems assms(1) len by auto
  have "both ?m i l \<longleftrightarrow> both m i l" using Suc.prems by (auto simp: both_def bits)
  with il len show ?case
    by (simp add: bit_drop_edge bits) (auto simp: both_def less_Suc_eq)
qed simp

lemma symmetrize_row_spec:
  assumes "i < length m" and "length m \<le> 64"
  shows "length (symmetrize_row i m) = length m \<and>
    (\<forall>a b. bit (symmetrize_row i m ! a) b \<longleftrightarrow>
       (a = i \<and> b = i) \<or> bit (m ! a) b \<and> (a = i \<and> b < i \<or> b = i \<and> a < i \<longrightarrow> both m a b))"
  using fold_drop_edge [OF assms(1), of i] assms
  by (auto simp: symmetrize_row_def Let_def nth_list_update mask_simps)

lemma symmetrize_rows:
  assumes "length m \<le> 64" and "k \<le> length m"
  shows "length (fold symmetrize_row [0..<k] m) = length m \<and>
    (\<forall>a b. bit (fold symmetrize_row [0..<k] m ! a) b \<longleftrightarrow>
       (if a < k \<and> b < k then a = b \<or> both m a b else bit (m ! a) b))"
  using assms(2)
proof (induction k)
  case (Suc k)
  let ?m = "fold symmetrize_row [0..<k] m"
  have len: "length ?m = length m" and bits: "\<And>a b. bit (?m ! a) b \<longleftrightarrow>
      (if a < k \<and> b < k then a = b \<or> both m a b else bit (m ! a) b)"
    using Suc by simp_all
  have "k < length ?m" "length ?m \<le> 64" using Suc.prems assms(1) len by simp_all
  from symmetrize_row_spec [OF this] show ?case
    by (simp add: len bits both_def less_Suc_eq) auto
qed simp

lemma symmetrize_spec:
  assumes "length m = MTM_MAX_NODES"
  shows "length (symmetrize m) = MTM_MAX_NODES"
    and "i < MTM_MAX_NODES \<Longrightarrow> j < MTM_MAX_NODES \<Longrightarrow> bit (symmetrize m ! i) j \<longleftrightarrow> i = j \<or> both m i j"
  using symmetrize_rows [of m MTM_MAX_NODES] assms
  by (simp_all add: symmetrize_def del: upt_rec_numeral)

lemma symmetrize_graph_ok: "length m = MTM_MAX_NODES \<Longrightarrow> graph_ok (symmetrize m) MTM_MAX_NODES"
  by (auto simp: graph_ok_def symmetrize_spec both_def)

section \<open>The connectivity clique\<close>

text \<open>Node position \<open>i\<close> sees position \<open>j\<close>, as far as the local node \<open>me\<close> knows.\<close>

definition sees :: "int \<Rightarrow> MtmState \<Rightarrow> nat \<Rightarrow> nat \<Rightarrow> bool" where
  "sees me st i j =
     (if int i + 1 = me then bit (MtmGetConnectedMask st) j else bit (connectivity_matrix st ! i) j)"

definition see_each_other :: "int \<Rightarrow> MtmState \<Rightarrow> nat set \<Rightarrow> bool" where
  "see_each_other me st C \<longleftrightarrow> C \<subseteq> {..<MTM_MAX_NODES} \<and>
     (\<forall>i\<in>C. \<forall>j\<in>C. i \<noteq> j \<longrightarrow> sees me st i j)"

definition known_node :: "int \<Rightarrow> MtmState \<Rightarrow> bool" where
  "known_node me st \<longleftrightarrow> 1 \<le> me \<and> me \<le> int MTM_MAX_NODES \<and> length (connectivity_matrix st) = MTM_MAX_NODES"

lemma known_node_pos:
  assumes "known_node me st"
  shows "pos me < MTM_MAX_NODES" and "int i + 1 = me \<longleftrightarrow> i = pos me"
  using assms by (auto simp: known_node_def)

lemma matrix_with_me:
  assumes "known_node me st"
  obtains m where "node_set (connectivity_matrix st) me (BIT_SET (MtmGetConnectedMask st) (pos me)) = Some m"
    and "length m = MTM_MAX_NODES"
    and "\<And>i j. i < MTM_MAX_NODES \<Longrightarrow> i \<noteq> j \<Longrightarrow> bit (m ! i) j \<longleftrightarrow> sees me st i j"
proof
  let ?m = "(connectivity_matrix st)[pos me := BIT_SET (MtmGetConnectedMask st) (pos me)]"
  show "node_set (connectivity_matrix st) me (BIT_SET (MtmGetConnectedMask st) (pos me)) = Some ?m"
    using assms by (auto simp: node_set_def known_node_def)
  show "length ?m = MTM_MAX_NODES" using assms by (simp add: known_node_def)
  show "bit (?m ! i) j \<longleftrightarrow> sees me st i j" if "i < MTM_MAX_NODES" "i \<noteq> j" for i j
    using that assms known_node_pos [OF assms]
    by (auto simp: sees_def nth_list_update mask_simps known_node_def)
qed

lemma clique_of_matrix:
  assumes m: "length m = MTM_MAX_NODES"
    and s: "\<And>i j. i < MTM_MAX_NODES \<Longrightarrow> i \<noteq> j \<Longrightarrow> bit (m ! i) j \<longleftrightarrow> sees me st i j"
  shows "is_clique (symmetrize m) MTM_MAX_NODES C \<longleftrightarrow> see_each_other me st C"
proof -
  have "adj (symmetrize m) i j \<longleftrightarrow> i = j \<or> sees me st i j \<and> sees me st j i"
    if "i \<in> C" "j \<in> C" "C \<subseteq> {..<MTM_MAX_NODES}" for i j
    using that symmetrize_spec(2) [OF m] s by (auto simp: both_def subset_iff)
  then show ?thesis unfolding is_clique_def see_each_other_def by blast
qed

lemma nodes_of_small: "{i. bit m i} \<subseteq> {..<MTM_MAX_NODES} \<Longrightarrow> nodes_of m = {i. bit m i}"
  by (auto simp: nodes_of_def)

lemma MtmGetConnectivityClique_spec:
  assumes "known_node me st"
  shows "\<exists>clique. MtmGetConnectivityClique me st = Some clique \<and> see_each_other me st (nodes_of clique) \<and>
    (\<forall>C. see_each_other me st C \<longrightarrow> card C \<le> popcount clique) \<and> nodes_of clique = {i. bit clique i}"
proof -
  obtain m where m: "node_set (connectivity_matrix st) me (BIT_SET (MtmGetConnectedMask st) (pos me)) = Some m"
    "length m = MTM_MAX_NODES"
    and s: "\<And>i j. i < MTM_MAX_NODES \<Longrightarrow> i \<noteq> j \<Longrightarrow> bit (m ! i) j \<longleftrightarrow> sees me st i j"
    using matrix_with_me [OF assms] by metis
  obtain c k where c: "MtmFindMaxClique (symmetrize m) MTM_MAX_NODES = Some (c, k)"
    "is_clique (symmetrize m) MTM_MAX_NODES {i. bit c i}" "card {i. bit c i} = k"
    "\<forall>C. is_clique (symmetrize m) MTM_MAX_NODES C \<longrightarrow> card C \<le> k"
    using MtmFindMaxClique_spec [OF symmetrize_graph_ok [OF m(2)]] by blast
  have nodes: "nodes_of c = {i. bit c i}" using c(2) by (intro nodes_of_small) (simp add: is_clique_def)
  have pc: "popcount c = k" by (simp add: popcount_card nodes c(3))
  have see: "see_each_other me st (nodes_of c)" "\<forall>C. see_each_other me st C \<longrightarrow> card C \<le> popcount c"
    using c(2,4) clique_of_matrix [OF m(2) s] by (simp_all add: nodes pc)
  let ?r = "if popcount c = 1 then BIT_SET 0 (pos me) else c"
  have "MtmGetConnectivityClique me st = Some ?r"
    using assms m(1) c(1) by (simp add: MtmGetConnectivityClique_def MtmGetConnectedMaskWithMe_def known_node_def)
  moreover have "see_each_other me st (nodes_of ?r) \<and> (\<forall>C. see_each_other me st C \<longrightarrow> card C \<le> popcount ?r) \<and>
    nodes_of ?r = {i. bit ?r i}"
  proof (cases "popcount c = 1")
    case True
    have "nodes_of (BIT_SET 0 (pos me)) = {pos me}"
      using known_node_pos(1) [OF assms] by (simp add: nodes_of_BIT_SET)
    with True see(2) known_node_pos(1) [OF assms] show ?thesis
      by (auto simp: popcount_card see_each_other_def mask_simps)
  qed (use see nodes in simp)
  ultimately show ?thesis by blast
qed

text \<open>
  C25. The connectivity clique is always found, all its members see each other as far as the node
  knows, and no set of nodes that all see each other is larger.
\<close>

theorem MtmGetConnectivityClique_largest:
  assumes "known_node me st"
  shows "\<exists>clique. MtmGetConnectivityClique me st = Some clique \<and> see_each_other me st (nodes_of clique) \<and>
    (\<forall>C. see_each_other me st C \<longrightarrow> card C \<le> popcount clique)"
  using MtmGetConnectivityClique_spec [OF assms] by blast

text \<open>When exactly two nodes see each other, they are the clique.\<close>

lemma MtmGetConnectivityClique_pair:
  assumes "known_node me st" and "a \<noteq> b" "a < MTM_MAX_NODES" "b < MTM_MAX_NODES"
    and ab: "sees me st a b" "sees me st b a"
    and only: "\<And>i j. i < MTM_MAX_NODES \<Longrightarrow> j < MTM_MAX_NODES \<Longrightarrow> i \<noteq> j \<Longrightarrow>
      sees me st i j \<Longrightarrow> sees me st j i \<Longrightarrow> {i, j} = {a, b}"
  shows "MtmGetConnectivityClique me st = Some (BIT_SET (BIT_SET 0 a) b)"
proof -
  obtain c where c: "MtmGetConnectivityClique me st = Some c" "see_each_other me st (nodes_of c)"
    "\<forall>C. see_each_other me st C \<longrightarrow> card C \<le> popcount c" "nodes_of c = {i. bit c i}"
    using MtmGetConnectivityClique_spec [OF assms(1)] by blast
  have "see_each_other me st {a, b}" using assms(3,4) ab by (auto simp: see_each_other_def)
  then have "card {a, b} \<le> card (nodes_of c)" using c(3) unfolding popcount_card by blast
  then have two: "2 \<le> card (nodes_of c)" using assms(2) by simp
  have "x \<in> {a, b}" if x: "x \<in> nodes_of c" for x
  proof -
    obtain y where y: "y \<in> nodes_of c" "y \<noteq> x"
      using two by (metis card_le_Suc0_iff_eq finite_nodes_of not_less_eq_eq numeral_2_eq_2 x)
    with x c(2) have "{x, y} = {a, b}" by (intro only) (auto simp: see_each_other_def)
    then show ?thesis by blast
  qed
  then have "nodes_of c \<subseteq> {a, b}" by blast
  moreover have "card {a, b} = 2" using assms(2) by simp
  ultimately have "nodes_of c = {a, b}" using two by (metis card_subset_eq card_mono finite.emptyI finite_insert le_antisym)
  with c(4) have "bit c i \<longleftrightarrow> i = a \<or> i = b" for i by blast
  then have "c = BIT_SET (BIT_SET 0 a) b"
    using assms(3,4) by (intro bit_word_eqI) (auto simp: mask_simps)
  with c(1) show ?thesis by simp
qed

lemma MtmIsConnectivityClique_spec:
  assumes "length (connectivity_matrix st) = MTM_MAX_NODES"
  shows "MtmIsConnectivityClique me m st = Some (see_each_other me st (nodes_of m))"
proof -
  have "nodes_of m \<subseteq> {..<MTM_MAX_NODES}" by (auto simp: nodes_of_def)
  then show ?thesis
    using assms
    by (auto simp: MtmIsConnectivityClique_def list_all_upt see_each_other_def sees_def nodes_of_def
        mask_simps simp del: upt_rec_numeral)
qed

lemma known_node_sample:
  "known_node 1 \<lparr>current_gen_num = 1, current_gen_members = 7, current_gen_configured = 7, donors = 7,
     last_online_in = 1, last_vote = \<lparr>num = 1, members = 7, configured = 0\<rparr>, ps_logged = True,
     others_last_online_in = replicate 16 0, dmq_receivers_mask = 2, dmq_senders_mask = 2,
     connectivity_matrix = replicate 16 1, receive_mode = 0, campaigner_on_tour = False,
     catchup_node_id = 0, catchup_ts = 0, referee_grant_turn_in_pending = 0, trace = []\<rparr>"
  by (simp add: known_node_def)

theorem MtmGetConnectivityClique_largest_witness:
  "\<exists>st clique. known_node 1 st \<and> MtmGetConnectivityClique 1 st = Some clique \<and>
     (\<forall>C. see_each_other 1 st C \<longrightarrow> card C \<le> popcount clique)"
  using MtmGetConnectivityClique_largest [OF known_node_sample] known_node_sample by blast

section \<open>Monitoring masks\<close>

text \<open>The online nodes are exactly the configured ones known to be online in the current generation.\<close>

lemma bit_fold_BIT_SET:
  assumes "\<forall>i\<in>set is. i < 64"
  shows "bit (fold (\<lambda>i m. if P i then BIT_SET m i else m) is m0) j \<longleftrightarrow> bit m0 j \<or> j \<in> set is \<and> P j"
  using assms by (induction "is" arbitrary: m0) (auto simp: mask_simps)

lemma MtmGetEnabledNodeMask_bits:
  assumes "MtmGetEnabledNodeMask me st = Some enabled"
  shows "bit enabled j \<longleftrightarrow> j < MTM_MAX_NODES \<and> bit (current_gen_configured st) j \<and>
    (if me = int j + 1 then MtmGetCurrentStatusInGen me st = Some MTM_GEN_ONLINE
     else others_last_online_in st ! j = current_gen_num st)"
proof -
  obtain online where o: "(if 1 \<le> me \<and> me \<le> int MTM_MAX_NODES \<and> BIT_CHECK (current_gen_configured st) (pos me)
        then map_option (\<lambda>s. s = MTM_GEN_ONLINE) (MtmGetCurrentStatusInGen me st)
        else Some False) = Some online"
    and e: "enabled = fold (\<lambda>i m. if BIT_CHECK (current_gen_configured st) i \<and>
        (if me = int i + 1 then online else others_last_online_in st ! i = current_gen_num st)
        then BIT_SET m i else m) [0..<MTM_MAX_NODES] 0"
  proof -
    have eq: "(\<lambda>i m. if \<not> BIT_CHECK (current_gen_configured st) i then m
          else if me = int i + 1 then (if on then BIT_SET m i else m)
          else (if others_last_online_in st ! i = current_gen_num st then BIT_SET m i else m)) =
        (\<lambda>i m. if BIT_CHECK (current_gen_configured st) i \<and>
        (if me = int i + 1 then on else others_last_online_in st ! i = current_gen_num st)
        then BIT_SET m i else m)" for on by (intro ext) simp
    show thesis
      using assms that unfolding MtmGetEnabledNodeMask_def eq
      by (auto simp: Option.bind_eq_Some_conv simp del: upt_rec_numeral split: if_splits)
  qed
  have "me = int j + 1 \<Longrightarrow> j < 16 \<Longrightarrow> bit (current_gen_configured st) j \<Longrightarrow>
      online \<longleftrightarrow> MtmGetCurrentStatusInGen me st = Some MTM_GEN_ONLINE"
    using o by (auto simp: mask_simps)
  then show ?thesis
    unfolding e by (subst bit_fold_BIT_SET) (auto simp: mask_simps simp del: upt_rec_numeral)
qed

end
