(* ===== verification/Gen_Invariants.thy ===== *)
theory Gen_Invariants
  imports Connectivity
begin

text \<open>
  What every handler of \<open>Mtm_State\<close> keeps of the generation state of its node. \<open>node_ok\<close> is the
  invariant: the last online generation is not above the current one, which is not above the
  last vote; the state file holds the persistent part; receivers run in normal mode exactly when
  the node is online in its current generation. \<open>evolves\<close> is the relation between the states
  before and after a handler on which the safety of elections rests.
\<close>

section \<open>Invariant and evolution\<close>

fun last_saved :: "effect list \<Rightarrow> MtmPersistent option" where
  "last_saved [] = None"
| "last_saved (e # es) = (case last_saved es of
     Some p \<Rightarrow> Some p | None \<Rightarrow> (case e of SaveState p \<Rightarrow> Some p | _ \<Rightarrow> None))"

lemma last_saved_append [simp]:
  "last_saved (es @ fs) = (case last_saved fs of Some p \<Rightarrow> Some p | None \<Rightarrow> last_saved es)"
  by (induction es) (auto split: option.splits)

lemma last_saved_Sends: "\<forall>e\<in>set fs. \<exists>d s m. e = Send d s m \<Longrightarrow> last_saved fs = None"
  by (induction fs) auto

definition gens_ordered :: "MtmState \<Rightarrow> bool" where
  "gens_ordered st \<longleftrightarrow> current_gen_num st \<noteq> MtmInvalidGenNum \<and>
     last_online_in st \<le> current_gen_num st \<and> current_gen_num st \<le> num (last_vote st)"

definition synced :: "MtmState \<Rightarrow> bool" where
  "synced st \<longleftrightarrow> last_saved (trace st) = Some (persistent st)"

definition mode_ok :: "MtmState \<Rightarrow> bool" where
  "mode_ok st \<longleftrightarrow> (receive_mode st = RECEIVE_MODE_NORMAL \<longleftrightarrow> last_online_in st = current_gen_num st)"

definition node_ok :: "MtmState \<Rightarrow> bool" where
  "node_ok st \<longleftrightarrow> gens_ordered st \<and> synced st \<and> mode_ok st"

definition bumped :: "MtmGeneration \<Rightarrow> bool" where
  "bumped g \<longleftrightarrow> members g = 0 \<and> configured g = 0"

definition evolves :: "MtmState \<Rightarrow> MtmState \<Rightarrow> bool" where
  "evolves st st' \<longleftrightarrow>
     current_gen_num st \<le> current_gen_num st' \<and>
     last_online_in st \<le> last_online_in st' \<and>
     num (last_vote st) \<le> num (last_vote st') \<and>
     (last_online_in st' \<noteq> last_online_in st \<longrightarrow> num (last_vote st) \<le> last_online_in st') \<and>
     (num (last_vote st') = num (last_vote st) \<longrightarrow> last_vote st' = last_vote st \<or> bumped (last_vote st'))"

lemma evolves_refl [simp]: "evolves st st"
  by (simp add: evolves_def)

lemma evolves_trans: "evolves a b \<Longrightarrow> evolves b c \<Longrightarrow> evolves a c"
proof -
  assume ab: "evolves a b" and bc: "evolves b c"
  have "num (last_vote a) \<le> last_online_in c" if "last_online_in c \<noteq> last_online_in a"
    using ab bc that unfolding evolves_def by (cases "last_online_in c = last_online_in b") force+
  moreover have "last_vote c = last_vote a \<or> bumped (last_vote c)"
    if eq: "num (last_vote c) = num (last_vote a)"
  proof -
    have "num (last_vote b) = num (last_vote a)" "num (last_vote c) = num (last_vote b)"
      using ab bc eq unfolding evolves_def by (simp_all add: order_antisym)
    then show ?thesis using ab bc unfolding evolves_def by metis
  qed
  ultimately show "evolves a c"
    using ab bc unfolding evolves_def by (blast intro: order_trans)
qed

text \<open>The selectors of the primitive updates.\<close>

lemmas state_prims = emit_def MtmStateSave_def LogParallelSafe_def CampaignerWake_def
  MtmSetReceiveMode_def persistent_def MtmGetCurrentGen_def Let_def

lemma first_set_bit_bounds: "-1 \<le> first_set_bit m" "first_set_bit m < 16"
  by (auto simp: first_set_bit_def find_upt_Some_iff simp del: upt_rec_numeral split: option.splits)

lemma donor_not_normal:
  assumes "0 < first_set_bit m + 1"
  shows "(word_of_int (first_set_bit m + 1) :: uint32) \<noteq> 0"
proof -
  have "uint (word_of_int (first_set_bit m + 1) :: uint32) = first_set_bit m + 1"
    using assms first_set_bit_bounds [of m]
    by (simp only: uint_word_of_int_eq) (simp add: take_bit_int_eq_self)
  with assms show ?thesis by (metis less_irrefl unsigned_0)
qed

section \<open>Generation switches\<close>

definition switched :: "MtmGeneration \<Rightarrow> nodemask_t \<Rightarrow> MtmState \<Rightarrow> MtmState" where
  "switched gen dn st =
     st\<lparr>last_vote := (if num (last_vote st) < num gen then gen else last_vote st),
        current_gen_num := num gen, current_gen_members := members gen,
        current_gen_configured := configured gen, donors := dn\<rparr>"

definition go_online :: "MtmGeneration \<Rightarrow> nodemask_t \<Rightarrow> MtmState \<Rightarrow> MtmState" where
  "go_online gen dn st =
     MtmSetReceiveMode RECEIVE_MODE_NORMAL (MtmStateSave ((LogParallelSafe gen dn
       (MtmStateSave (st\<lparr>ps_logged := False, last_online_in := num gen\<rparr>)))\<lparr>ps_logged := True\<rparr>))"

text \<open>The four ways \<open>MtmConsiderGenSwitch\<close> ends without an error.\<close>

lemma MtmConsiderGenSwitch_cases:
  assumes "MtmConsiderGenSwitch me gen dn st = Some st'"
  obtains (keep) "num gen \<le> current_gen_num st" "st' = st"
  | (dead) "current_gen_num st < num gen" "current_gen_num st \<noteq> 0"
      "switch_dead me gen (switched gen dn st)"
      "st' = CampaignerWake (MtmStateSave (MtmSetReceiveMode RECEIVE_MODE_DISABLED (switched gen dn st)))"
  | (online) "current_gen_num st < num gen" "current_gen_num st \<noteq> 0"
      "\<not> switch_dead me gen (switched gen dn st)" "BIT_CHECK dn (pos me)"
      "st' = go_online gen dn (switched gen dn st)"
  | (recovery) "current_gen_num st < num gen" "current_gen_num st \<noteq> 0"
      "\<not> switch_dead me gen (switched gen dn st)" "\<not> BIT_CHECK dn (pos me)"
      "0 < first_set_bit dn + 1"
      "st' = MtmSetReceiveMode (word_of_int (first_set_bit dn + 1)) (MtmStateSave (switched gen dn st))"
proof -
  have sw: "(if num (last_vote st) < num gen then st\<lparr>last_vote := gen\<rparr> else st)
      \<lparr>current_gen_num := num gen, current_gen_members := members gen,
       current_gen_configured := configured gen, donors := dn\<rparr> = switched gen dn st"
    by (simp add: switched_def)
  show thesis
    using assms that unfolding MtmConsiderGenSwitch_def Let_def sw go_online_def [symmetric]
    by (auto split: if_splits simp: not_le)
qed

lemma switched_fields [simp]:
  "current_gen_num (switched gen dn st) = num gen"
  "last_online_in (switched gen dn st) = last_online_in st"
  "receive_mode (switched gen dn st) = receive_mode st"
  "num (last_vote (switched gen dn st)) = max (num (last_vote st)) (num gen)"
  "trace (switched gen dn st) = trace st"
  by (auto simp: switched_def max_def)

lemma evolves_switched: "current_gen_num st \<le> num gen \<Longrightarrow> evolves st (switched gen dn st)"
  by (auto simp: evolves_def switched_def)

lemma go_online_keeps:
  assumes "gens_ordered st" and "num gen = current_gen_num st" and "num gen = num (last_vote st)"
  shows "node_ok (go_online gen dn st)" and "evolves st (go_online gen dn st)"
  using assms
  by (simp_all add: go_online_def state_prims node_ok_def gens_ordered_def synced_def mode_ok_def evolves_def)

lemma MtmConsiderGenSwitch_keeps:
  assumes ok: "node_ok st" and sw: "MtmConsiderGenSwitch me gen dn st = Some st'"
  shows "node_ok st' \<and> evolves st st'"
  using sw
proof (cases rule: MtmConsiderGenSwitch_cases)
  case keep
  with ok show ?thesis by simp
next
  case dead
  then have "evolves st (switched gen dn st)" by (simp add: evolves_switched)
  moreover have "last_online_in st < num gen" using ok dead by (auto simp: node_ok_def gens_ordered_def)
  ultimately show ?thesis
    using dead by (auto simp: state_prims node_ok_def gens_ordered_def synced_def mode_ok_def evolves_def)
next
  case online
  then have lv: "num gen = num (last_vote (switched gen dn st))"
    by (auto simp: switch_dead_def max_def split: if_splits)
  have "gens_ordered (switched gen dn st)"
    using ok online by (auto simp: node_ok_def gens_ordered_def)
  from go_online_keeps [OF this _ lv, of dn]
  have "node_ok st'" "evolves (switched gen dn st) st'" using online(5) by simp_all
  moreover have "evolves st (switched gen dn st)" using online(1) by (simp add: evolves_switched)
  ultimately show ?thesis using evolves_trans by blast
next
  case recovery
  then have "evolves st (switched gen dn st)" by (simp add: evolves_switched)
  moreover have "last_online_in st < num gen" using ok recovery by (auto simp: node_ok_def gens_ordered_def)
  ultimately show ?thesis
    using recovery donor_not_normal [of dn]
    by (auto simp: state_prims node_ok_def gens_ordered_def synced_def mode_ok_def evolves_def)
qed

section \<open>The other handlers\<close>

definition keeps :: "MtmState \<Rightarrow> MtmState \<Rightarrow> bool" where
  "keeps st st' \<longleftrightarrow> (node_ok st \<longrightarrow> node_ok st' \<and> evolves st st')"

lemma keeps_trans: "keeps a b \<Longrightarrow> keeps b c \<Longrightarrow> keeps a c"
  unfolding keeps_def by (blast intro: evolves_trans)

lemma keeps_refl [simp]: "keeps st st"
  by (simp add: keeps_def)

lemma keeps_switch: "MtmConsiderGenSwitch me gen dn st = Some st' \<Longrightarrow> keeps st st'"
  unfolding keeps_def using MtmConsiderGenSwitch_keeps by blast

text \<open>Handlers that leave the persistent part, the file and the receive mode alone.\<close>

definition same_gen :: "MtmState \<Rightarrow> MtmState \<Rightarrow> bool" where
  "same_gen st st' \<longleftrightarrow> persistent st' = persistent st \<and>
     last_saved (trace st') = last_saved (trace st) \<and> receive_mode st' = receive_mode st"

lemma keeps_same_gen: "same_gen st st' \<Longrightarrow> keeps st st'"
  by (auto simp: same_gen_def keeps_def node_ok_def gens_ordered_def synced_def mode_ok_def
      evolves_def persistent_def MtmGetCurrentGen_def)

lemma same_gen_updates [simp]:
  "same_gen st (st\<lparr>campaigner_on_tour := b\<rparr>)"
  "same_gen st (st\<lparr>referee_grant_turn_in_pending := n\<rparr>)"
  "same_gen st (st\<lparr>campaigner_on_tour := b, referee_grant_turn_in_pending := n\<rparr>)"
  "same_gen st (st\<lparr>catchup_node_id := i, catchup_ts := t\<rparr>)"
  by (simp_all add: same_gen_def persistent_def MtmGetCurrentGen_def)

lemma keeps_emit [simp]:
  "keeps st (emit (Send d s msg) st)" "keeps st (emit WakeCampaigner st)"
  "keeps st (emit (RefereeRequestGrant i n) st)" "keeps st (emit (RefereeClear n i k) st)"
  "keeps st (emit (TermWalReceiver i) st)"
  by (rule keeps_same_gen; simp add: same_gen_def emit_def persistent_def MtmGetCurrentGen_def)+

lemma keeps_receive_mode:
  "last_online_in st \<noteq> current_gen_num st \<Longrightarrow> m \<noteq> RECEIVE_MODE_NORMAL \<Longrightarrow> keeps st (MtmSetReceiveMode m st)"
  by (simp add: keeps_def state_prims node_ok_def gens_ordered_def synced_def mode_ok_def evolves_def)

text \<open>A vote for a higher generation, saved at once.\<close>

lemma keeps_vote:
  assumes "num (last_vote st) < num gen"
  shows "keeps st (MtmStateSave (st\<lparr>last_vote := gen\<rparr>))"
  using assms
  by (auto simp: keeps_def state_prims node_ok_def gens_ordered_def synced_def mode_ok_def evolves_def)

lemma status_cases:
  assumes "MtmGetCurrentStatusInGen me st = Some s"
  shows "s = MTM_GEN_ONLINE \<longleftrightarrow> last_online_in st = current_gen_num st"
    and "s = MTM_GEN_RECOVERY \<Longrightarrow> current_gen_num st = num (last_vote st)"
  using assms by (auto simp: MtmGetCurrentStatusInGen_def split: if_splits)

lemma MtmHandleParallelSafe_keeps:
  assumes "MtmHandleParallelSafe me ref gen dn is_recovery st = Some (again, st')"
  shows "keeps st st'"
proof -
  obtain st1 where st1: "MtmConsiderGenSwitch me gen dn st = Some st1"
    using assms by (auto simp: MtmHandleParallelSafe_def Option.bind_eq_Some_conv)
  note k1 = keeps_switch [OF st1]
  show ?thesis
  proof (cases "st' = st1")
    case True
    with k1 show ?thesis by simp
  next
    case False
    with assms st1 have st: "num gen = current_gen_num st1"
      "MtmGetCurrentStatusInGen me st1 = Some MTM_GEN_RECOVERY"
      "st' = go_online gen dn st1 \<or> st' = (go_online gen dn st1)\<lparr>referee_grant_turn_in_pending := num gen\<rparr>"
      by (auto simp: MtmHandleParallelSafe_def Option.bind_eq_Some_conv Let_def go_online_def
          split: if_splits)
    have "keeps st1 (go_online gen dn st1)"
      using go_online_keeps [of st1 gen dn] st(1) status_cases(2) [OF st(2)]
      by (auto simp: keeps_def node_ok_def)
    moreover have "keeps (go_online gen dn st1) st'"
      using st(3) by (auto intro: keeps_same_gen)
    ultimately show ?thesis using k1 keeps_trans by blast
  qed
qed

lemma give_vote_keeps:
  assumes "give_vote me gen st = Some (st', resp)" and "num (last_vote st) < num gen"
  shows "keeps st st'"
proof -
  let ?st1 = "MtmStateSave (st\<lparr>last_vote := gen\<rparr>)"
  obtain s s' where s: "MtmGetCurrentStatusInGen me st = Some s" "MtmGetCurrentStatusInGen me ?st1 = Some s'"
    "st' = (if s = MTM_GEN_RECOVERY \<and> s' = MTM_GEN_DEAD
            then MtmSetReceiveMode RECEIVE_MODE_DISABLED ?st1 else ?st1)"
    using assms(1) by (auto simp: give_vote_def Option.bind_eq_Some_conv Let_def)
  have "keeps ?st1 st'"
  proof (cases "s = MTM_GEN_RECOVERY \<and> s' = MTM_GEN_DEAD")
    case True
    then have "last_online_in ?st1 \<noteq> current_gen_num ?st1" using status_cases(1) [OF s(2)] by auto
    with True s(3) show ?thesis by (auto intro: keeps_receive_mode)
  qed (use s(3) in auto)
  with keeps_vote [OF assms(2)] show ?thesis by (rule keeps_trans)
qed

lemma decide_vote_keeps:
  assumes "decide_vote me cfg gen sender clique st = Some (st', resp)"
  shows "keeps st st'"
  using assms give_vote_keeps
  by (auto simp: decide_vote_def Let_def Option.bind_eq_Some_conv not_le split: if_splits)

lemma HandleGenVoteRequest_keeps:
  assumes "HandleGenVoteRequest me cfg gen sender dest st = Some st'"
  shows "keeps st st'"
proof -
  obtain clique st1 resp where "decide_vote me cfg gen sender clique st = Some (st1, resp)"
    "st' = emit (Send dest ''genvoteresp'' (T_MtmGenVoteResponse resp)) st1"
    using assms by (auto simp: HandleGenVoteRequest_def Option.bind_eq_Some_conv)
  then show ?thesis by (auto intro: keeps_trans [OF decide_vote_keeps])
qed

lemma word_less_succ:
  fixes w :: "'a::len word"
  assumes "w \<noteq> - 1"
  shows "w < w + 1"
proof -
  have "w + 1 \<noteq> 0" using assms by (simp add: eq_neg_iff_add_eq_0)
  then have "unat (1 + w) = Suc (unat w)" by (intro unatSuc) (simp add: add.commute)
  then show ?thesis by (simp add: word_less_nat_alt add.commute)
qed

lemma vote_myself_keeps:
  assumes "vote_myself me mem conf clique st = (st', c)" and "num (last_vote st) \<noteq> - 1"
  shows "keeps st st'"
proof -
  let ?st = "st\<lparr>campaigner_on_tour := True\<rparr>"
  have k: "keeps st ?st" by (rule keeps_same_gen) simp
  show ?thesis
  proof (cases "mem = members (last_vote st) \<and> conf = configured (last_vote st)")
    case True
    with assms(1) k show ?thesis by (auto simp: vote_myself_def Let_def)
  next
    case False
    let ?cand = "\<lparr>num = num (last_vote st) + 1, members = mem, configured = conf\<rparr>"
    have "st' = MtmStateSave (?st\<lparr>last_vote := ?cand\<rparr>)"
      using assms(1) False by (auto simp: vote_myself_def Let_def)
    moreover have "keeps ?st (MtmStateSave (?st\<lparr>last_vote := ?cand\<rparr>))"
      using word_less_succ [OF assms(2)] by (intro keeps_vote) simp
    ultimately show ?thesis using k keeps_trans by simp
  qed
qed

lemma most_advanced_range:
  assumes "most_advanced connected lois = (node, gen)"
  shows "gen = MtmInvalidGenNum \<or> 1 \<le> node \<and> node \<le> 16"
proof -
  have "case fold (\<lambda>i (node, gen).
       if BIT_CHECK connected i \<and> lois ! i > gen then (int i + 1, lois ! i) else (node, gen)) is (n0, g0)
     of (n, g) \<Rightarrow> g = 0 \<or> 1 \<le> n \<and> n \<le> 16"
    if "g0 = 0 \<or> 1 \<le> n0 \<and> n0 \<le> 16" and "\<forall>i\<in>set is. i < 16" for "is" n0 and g0 :: uint64
    using that by (induction "is" arbitrary: n0 g0) auto
  from this [of MtmInvalidGenNum MtmInvalidNodeId "[0..<16]"] assms show ?thesis
    by (auto simp: most_advanced_def simp del: upt_rec_numeral)
qed

lemma node_word_not_normal:
  assumes "1 \<le> n" and "n \<le> 16"
  shows "(word_of_int n :: uint32) \<noteq> 0"
proof -
  have "uint (word_of_int n :: uint32) = n"
    using assms by (simp only: uint_word_of_int_eq) (simp add: take_bit_int_eq_self)
  with assms show ?thesis by (metis not_one_le_zero unsigned_0)
qed

lemma SetCatchupDonor_keeps:
  assumes "SetCatchupDonor connected st = Some (gen, st')" and "last_online_in st \<noteq> current_gen_num st"
  shows "keeps st st'" and "last_vote st' = last_vote st"
proof -
  obtain node g where m: "most_advanced connected (others_last_online_in st) = (node, g)" by fastforce
  have "st' = st \<or> (g \<noteq> 0 \<and> st' = MtmSetReceiveMode (word_of_int node) st)"
    using assms(1) by (auto simp: SetCatchupDonor_def Let_def m split: if_splits)
  then show "keeps st st'" "last_vote st' = last_vote st"
    using most_advanced_range [OF m] node_word_not_normal [of node] keeps_receive_mode [OF assms(2)]
    by (auto simp: MtmSetReceiveMode_def emit_def Let_def)
qed

lemma campaign_catchup_keeps:
  assumes "campaign_catchup me env sg seen st = Some (lagging, st')"
    and "MtmGetCurrentStatusInGen me st = Some sg"
  shows "keeps st st'" and "last_vote st' = last_vote st"
proof -
  have "last_online_in st \<noteq> current_gen_num st" if "sg = MTM_GEN_DEAD"
    using status_cases(1) [OF assms(2)] that by auto
  with assms(1) SetCatchupDonor_keeps show "keeps st st'" "last_vote st' = last_vote st"
    by (auto simp: campaign_catchup_def Option.bind_eq_Some_conv split: if_splits)
qed

text \<open>The ways a campaign decision ends.\<close>

lemma CampaignMyself_cases:
  assumes "CampaignMyself me cfg env st = Some (st', c)" and "backup_node_id cfg = MtmInvalidNodeId"
  obtains (nothing) "st' = st" "c = NoCampaign"
  | (disabled) "MtmGetCurrentStatusInGen me st = Some MTM_GEN_DEAD" "c = NoCampaign"
      "st' = MtmSetReceiveMode RECEIVE_MODE_DISABLED st"
  | (catchup) seen sg lagging where "MtmGetCurrentStatusInGen me st = Some sg"
      "campaign_catchup me env sg seen st = Some (lagging, st')" "c = NoCampaign"
  | (vote) seen clique sg st1 mem where "MtmGetCurrentStatusInGen me st = Some sg"
      "MtmGetConnectivityClique me st = Some clique"
      "campaign_catchup me env sg seen st = Some (False, st1)"
      "mem = BIT_SET (current_gen_members st1 AND clique) (pos me)"
      "\<not> (mem = current_gen_members st1 \<and>
          (sg \<noteq> MTM_GEN_DEAD \<or> num (last_vote st1) = current_gen_num st1))"
      "vote_myself me mem (cfg_mask cfg) clique st1 = (st', c)"
proof -
  obtain seen clique sg where s: "MtmGetConnectedMaskWithMe me st = Some seen"
    "MtmGetConnectivityClique me st = Some clique" "MtmGetCurrentStatusInGen me st = Some sg"
    using assms by (auto simp: CampaignMyself_def Option.bind_eq_Some_conv)
  note eq = assms(1)[unfolded CampaignMyself_def, simplified assms(2) s, simplified]
  show thesis
  proof (cases "\<not> replier_loaded env \<or> sg = MTM_GEN_ONLINE \<and> is_submask (current_gen_members st) seen")
    case True
    with eq have "st' = st" "c = NoCampaign" by (auto split: if_splits)
    then show thesis by (rule nothing)
  next
    case go: False
    show thesis
    proof (cases "(\<not> MtmQuorum cfg (popcount clique) \<or> \<not> BIT_CHECK clique (pos me)) \<and>
        \<not> (referee_enabled env \<and> sg = MTM_GEN_ONLINE)")
      case True
      with eq go have c: "c = NoCampaign"
        and st': "st' = (if sg = MTM_GEN_DEAD then MtmSetReceiveMode RECEIVE_MODE_DISABLED st else st)"
        by (auto split: if_splits)
      show thesis
      proof (cases "sg = MTM_GEN_DEAD")
        case True
        with s(3) c st' show thesis by - (rule disabled, auto)
      next
        case False
        with c st' show thesis by - (rule nothing, auto)
      qed
    next
      case False
      obtain lagging st1 where st1: "campaign_catchup me env sg seen st = Some (lagging, st1)"
        using eq go False by (auto simp: Option.bind_eq_Some_conv split: if_splits)
      let ?mem = "BIT_SET (current_gen_members st1 AND clique) (pos me)"
      let ?same = "?mem = current_gen_members st1 \<and>
        (sg \<noteq> MTM_GEN_DEAD \<or> num (last_vote st1) = current_gen_num st1)"
      have res: "(st', c) = (if lagging \<or> ?same then (st1, NoCampaign)
          else vote_myself me ?mem (cfg_mask cfg) clique st1)"
        using eq go False st1 by (auto simp: Let_def split: if_splits)
      show thesis
      proof (cases "lagging \<or> ?same")
        case True
        with res have "st' = st1" "c = NoCampaign" by auto
        with st1 s(3) show thesis by - (rule catchup, auto)
      next
        case False
        with res have "vote_myself me ?mem (cfg_mask cfg) clique st1 = (st', c)" by auto
        with False st1 s(2,3) show thesis by - (rule vote, auto)
      qed
    qed
  qed
qed

lemma CampaignMyself_keeps:
  assumes "CampaignMyself me cfg env st = Some (st', c)"
    and "backup_node_id cfg = MtmInvalidNodeId" and "num (last_vote st) \<noteq> - 1"
  shows "keeps st st'"
  using assms(1,2)
proof (cases rule: CampaignMyself_cases)
  case disabled
  then have "last_online_in st \<noteq> current_gen_num st" using status_cases(1) by fastforce
  with disabled show ?thesis by (auto intro: keeps_receive_mode)
next
  case catchup
  then show ?thesis by (blast intro: campaign_catchup_keeps)
next
  case (vote seen clique sg st1)
  note k = campaign_catchup_keeps [OF vote(3,1)]
  have "keeps st1 st'" using vote_myself_keeps [OF vote(6)] k(2) assms(3) by simp
  with k(1) show ?thesis by (rule keeps_trans)
qed simp

lemma process_responses_keeps:
  "process_responses me cand msgs t st = Some (t', st') \<Longrightarrow> keeps st st'"
proof (induction msgs arbitrary: t st)
  case (Cons m msgs)
  obtain sender msg where m: "m = (sender, msg)" by (cases m)
  obtain st1 where st1: "(if num (vr_curr_gen msg) \<noteq> 0
      then MtmConsiderGenSwitch me (vr_curr_gen msg) (vr_curr_gen_donors msg) st else Some st) = Some st1"
    "process_responses me cand msgs (count_response cand sender msg t) st1 = Some (t', st')"
    using Cons.prems by (auto simp: m Option.bind_eq_Some_conv simp del: count_response_def)
  then have "keeps st st1" by (auto split: if_splits intro: keeps_switch)
  with Cons.IH [OF st1(2)] show ?case by (blast intro: keeps_trans)
qed simp

lemma bump_last_vote_keeps: "keeps st (bump_last_vote t st)"
  by (auto simp: bump_last_vote_def keeps_def state_prims node_ok_def gens_ordered_def synced_def
      mode_ok_def evolves_def bumped_def)

lemma keeps_scatter: "keeps st (st\<lparr>trace := trace st @ scatter cfg dest cmask s msg\<rparr>)"
proof (rule keeps_same_gen)
  have "last_saved (scatter cfg dest cmask s msg) = None"
    by (rule last_saved_Sends) (auto simp: scatter_def)
  then show "same_gen st (st\<lparr>trace := trace st @ scatter cfg dest cmask s msg\<rparr>)"
    by (simp add: same_gen_def persistent_def MtmGetCurrentGen_def)
qed

text \<open>The stages of a poll.\<close>

lemma CampaignTour_stages:
  assumes "CampaignTour me cfg dest cand cohort my_loi msgs st = Some st'"
  obtains st0 t st1 st2 where
    "st0 = st\<lparr>trace := trace st @ scatter cfg dest cohort ''reqresp'' (T_MtmGenVoteRequest \<lparr>vq_gen = cand\<rparr>)\<rparr>"
    "process_responses me cand msgs (tour_start me cand my_loi) st0 = Some (t, st1)"
    "(if tour_won cfg t then MtmConsiderGenSwitch me cand (tour_donors t) st1 else Some st1) = Some st2"
    "st' = (bump_last_vote t st2)\<lparr>campaigner_on_tour := False\<rparr>"
  using assms by (auto simp: CampaignTour_def Let_def Option.bind_eq_Some_conv)

lemma CampaignTour_keeps:
  assumes "CampaignTour me cfg dest cand cohort my_loi msgs st = Some st'"
  shows "keeps st st'"
  using assms
proof (rule CampaignTour_stages)
  fix st0 t st1 st2
  assume st: "st0 = st\<lparr>trace := trace st @ scatter cfg dest cohort ''reqresp'' (T_MtmGenVoteRequest \<lparr>vq_gen = cand\<rparr>)\<rparr>"
    "process_responses me cand msgs (tour_start me cand my_loi) st0 = Some (t, st1)"
    "(if tour_won cfg t then MtmConsiderGenSwitch me cand (tour_donors t) st1 else Some st1) = Some st2"
    "st' = (bump_last_vote t st2)\<lparr>campaigner_on_tour := False\<rparr>"
  have "keeps st st0" using st(1) keeps_scatter by simp
  moreover have "keeps st0 st1" by (rule process_responses_keeps [OF st(2)])
  moreover have "keeps st1 st2" using st(3) by (auto split: if_splits intro: keeps_switch)
  moreover have "keeps st2 st'"
    using st(4) bump_last_vote_keeps [of st2 t] by (auto intro: keeps_trans [OF _ keeps_same_gen])
  ultimately show ?thesis using keeps_trans by blast
qed

lemma CampaignReferee_keeps:
  assumes "CampaignReferee me cand reply st = Some st'"
  shows "keeps st st'"
proof -
  let ?st = "emit (RefereeRequestGrant me (num cand)) st"
  have emit: "keeps st ?st" by simp
  consider "same_gen st st'" | "same_gen ?st st'"
    | st1 where "MtmConsiderGenSwitch me cand (BIT_SET 0 (pos me)) ?st = Some st1"
        "st' = st1\<lparr>campaigner_on_tour := False\<rparr>"
    using assms by (auto simp: CampaignReferee_def Let_def split: if_splits referee_reply.splits)
  then show ?thesis
  proof cases
    case 3
    then have "keeps ?st st'" by (auto intro: keeps_trans [OF keeps_switch keeps_same_gen])
    with emit show ?thesis by (rule keeps_trans)
  qed (use emit keeps_same_gen keeps_trans in blast)+
qed

lemma RefereeClearGrant_keeps:
  assumes "RefereeClearGrant me reply st = Some st'"
  shows "keeps st st'"
proof -
  let ?st = "emit (RefereeClear (current_gen_num st) me (num (last_vote st))) st"
  have "st' = st \<or> st' = ?st \<or> same_gen st st' \<or> same_gen ?st st'"
    using assms
    by (auto simp: RefereeClearGrant_def Let_def Option.bind_eq_Some_conv split: if_splits)
  moreover have "keeps st ?st" by simp
  ultimately show ?thesis by (metis keeps_refl keeps_same_gen keeps_trans)
qed

lemma same_gen_wake: "same_gen st st1 \<Longrightarrow> same_gen st (wake_if b st1)"
  by (simp add: same_gen_def wake_if_def CampaignerWake_def emit_def persistent_def MtmGetCurrentGen_def)

lemma same_gen_masks [simp]:
  "same_gen st (st\<lparr>dmq_receivers_mask := m\<rparr>)" "same_gen st (st\<lparr>dmq_senders_mask := m\<rparr>)"
  "same_gen st (st\<lparr>dmq_receivers_mask := m, connectivity_matrix := a\<rparr>)"
  "same_gen st (st\<lparr>others_last_online_in := l, connectivity_matrix := a\<rparr>)"
  by (simp_all add: same_gen_def persistent_def MtmGetCurrentGen_def)

lemma same_gen_trans: "same_gen a b \<Longrightarrow> same_gen b c \<Longrightarrow> same_gen a c"
  by (simp add: same_gen_def)

lemma MtmOnDmqReceiverConnect_same_gen:
  assumes "MtmOnDmqReceiverConnect cfg ml rl name st = Some st'"
  shows "same_gen st st'"
proof -
  obtain m where "st' = wake_if True (st\<lparr>dmq_receivers_mask := m\<rparr>)"
    using assms unfolding MtmOnDmqReceiverConnect_def wake_if_def
    by (cases "dmq_node_id name") (auto split: if_splits)
  then show ?thesis by (auto intro!: same_gen_wake)
qed

lemma MtmOnDmqSender_same_gen:
  assumes "MtmOnDmqSenderConnect name st = Some st' \<or> MtmOnDmqSenderDisconnect name st = Some st'"
  shows "same_gen st st'"
proof -
  obtain b m where "st' = wake_if b (st\<lparr>dmq_senders_mask := m\<rparr>)"
    using assms unfolding MtmOnDmqSenderConnect_def MtmOnDmqSenderDisconnect_def Let_def
    by (cases "dmq_node_id name") auto
  then show ?thesis by (auto intro!: same_gen_wake)
qed

lemma MtmOnDmqReceiverDisconnect_same_gen:
  assumes "MtmOnDmqReceiverDisconnect wr name st = Some st'"
  shows "same_gen st st'"
proof -
  obtain nid b m a where
    "st' = (if wr then emit (TermWalReceiver nid) (wake_if b (st\<lparr>dmq_receivers_mask := m, connectivity_matrix := a\<rparr>))
            else wake_if b (st\<lparr>dmq_receivers_mask := m, connectivity_matrix := a\<rparr>))"
    using assms unfolding MtmOnDmqReceiverDisconnect_def Let_def
    by (auto simp: Option.bind_eq_Some_conv)
  moreover have "same_gen st (wake_if b (st\<lparr>dmq_receivers_mask := m, connectivity_matrix := a\<rparr>))"
    by (auto intro!: same_gen_wake)
  moreover have "same_gen x (emit (TermWalReceiver nid) x)" for x
    by (simp add: same_gen_def emit_def persistent_def MtmGetCurrentGen_def)
  ultimately show ?thesis by (auto intro: same_gen_trans)
qed

lemmas dmq_same_gen = MtmOnDmqReceiverConnect_same_gen MtmOnDmqReceiverDisconnect_same_gen
  MtmOnDmqSender_same_gen

lemma MtmOnDmqReceiverHeartbeat_keeps:
  assumes "MtmOnDmqReceiverHeartbeat me name (Some (T_MtmHeartbeat msg)) st = Some st'"
  shows "keeps st st'"
proof -
  obtain st1 b l a where "MtmConsiderGenSwitch me (hb_current_gen msg) (hb_donors msg) st = Some st1"
    "st' = wake_if b (st1\<lparr>others_last_online_in := l, connectivity_matrix := a\<rparr>)"
    using assms unfolding MtmOnDmqReceiverHeartbeat_def
    by (auto simp: Option.bind_eq_Some_conv)
  then show ?thesis by (auto intro!: keeps_trans [OF keeps_switch keeps_same_gen] same_gen_wake)
qed

text \<open>A restart reads back what was saved last.\<close>

lemma persistent_load [simp]: "persistent (MtmStateLoad p st) = p"
  by (simp add: persistent_def MtmStateLoad_def MtmGetCurrentGen_def)

lemma finish_logging_keeps: "keeps st (finish_logging st)"
  by (simp add: finish_logging_def keeps_def state_prims node_ok_def gens_ordered_def synced_def
      mode_ok_def evolves_def)

lemma restore_receive_mode_sound:
  assumes "restore_receive_mode me st = Some st'"
  shows "\<exists>m. st' = st\<lparr>receive_mode := m\<rparr> \<and>
    (m = RECEIVE_MODE_NORMAL \<longleftrightarrow> last_online_in st = current_gen_num st)"
proof -
  obtain sg where sg: "MtmGetCurrentStatusInGen me st = Some sg"
    using assms by (auto simp: restore_receive_mode_def Option.bind_eq_Some_conv)
  with assms donor_not_normal [of "donors st"] status_cases(1) [OF sg] show ?thesis
    by (cases sg) (auto simp: restore_receive_mode_def Let_def split: if_splits)
qed

lemma MtmStateStartup_keeps:
  assumes ok: "gens_ordered old" "synced old" and disk: "last_saved (trace old) = Some disk"
    and tr: "trace fresh = trace old"
    and start: "MtmStateStartup me disk fresh = Some st'"
  shows "node_ok st' \<and> evolves old st'"
proof -
  have disk': "disk = persistent old" using ok(2) disk by (simp add: synced_def)
  let ?st = "MtmStateLoad disk fresh"
  have f: "current_gen_num ?st = current_gen_num old" "last_online_in ?st = last_online_in old"
    "last_vote ?st = last_vote old" "trace ?st = trace old"
    using tr by (simp_all add: disk' MtmStateLoad_def persistent_def MtmGetCurrentGen_def)
  obtain st1 where st1: "restore_receive_mode me ?st = Some st1" "st' = finish_logging st1"
    using start by (auto simp: MtmStateStartup_def)
  obtain m where m: "st1 = ?st\<lparr>receive_mode := m\<rparr>"
    "m = RECEIVE_MODE_NORMAL \<longleftrightarrow> last_online_in ?st = current_gen_num ?st"
    using restore_receive_mode_sound [OF st1(1)] by blast
  have "persistent st1 = disk"
    using persistent_load [of disk fresh] by (simp add: m(1) persistent_def MtmGetCurrentGen_def)
  then have "node_ok st1 \<and> evolves old st1"
    using ok(1) f m disk by (auto simp: node_ok_def gens_ordered_def synced_def mode_ok_def evolves_def)
  then show ?thesis
    using finish_logging_keeps [of st1] st1(2) evolves_trans unfolding keeps_def by blast
qed

section \<open>Runs of a node\<close>

text \<open>
  One step of node \<open>me\<close>: any handler with any input, or a crash followed by a restart from the
  state file (the memory that does not come from the file is arbitrary).
\<close>

inductive node_step :: "int \<Rightarrow> MtmConfig \<Rightarrow> MtmState \<Rightarrow> MtmState \<Rightarrow> bool" for me cfg where
  switch: "MtmConsiderGenSwitch me gen dn st = Some st' \<Longrightarrow> node_step me cfg st st'"
| parallel_safe: "MtmHandleParallelSafe me ref gen dn rec st = Some (again, st') \<Longrightarrow> node_step me cfg st st'"
| vote_request: "HandleGenVoteRequest me cfg gen sender dest st = Some st' \<Longrightarrow> node_step me cfg st st'"
| campaign: "CampaignMyself me cfg env st = Some (st', c) \<Longrightarrow> num (last_vote st) \<noteq> - 1 \<Longrightarrow> node_step me cfg st st'"
| tour: "CampaignTour me cfg dest' cand cohort loi msgs st = Some st' \<Longrightarrow> node_step me cfg st st'"
| referee: "CampaignReferee me cand reply st = Some st' \<Longrightarrow> node_step me cfg st st'"
| clear_grant: "RefereeClearGrant me reply st = Some st' \<Longrightarrow> node_step me cfg st st'"
| receiver_connect: "MtmOnDmqReceiverConnect cfg ml rl name st = Some st' \<Longrightarrow> node_step me cfg st st'"
| heartbeat: "MtmOnDmqReceiverHeartbeat me name (Some (T_MtmHeartbeat msg)) st = Some st' \<Longrightarrow> node_step me cfg st st'"
| receiver_disconnect: "MtmOnDmqReceiverDisconnect wr name st = Some st' \<Longrightarrow> node_step me cfg st st'"
| sender_connect: "MtmOnDmqSenderConnect name st = Some st' \<Longrightarrow> node_step me cfg st st'"
| sender_disconnect: "MtmOnDmqSenderDisconnect name st = Some st' \<Longrightarrow> node_step me cfg st st'"
| caughtup: "node_step me cfg st (MtmReportReceiverCaughtup nid now st)"
| restart: "last_saved (trace st) = Some disk \<Longrightarrow> trace fresh = trace st \<Longrightarrow>
     MtmStateStartup me disk fresh = Some st' \<Longrightarrow> node_step me cfg st st'"

lemma node_step_keeps:
  assumes "node_step me cfg st st'" and "backup_node_id cfg = MtmInvalidNodeId"
  shows "keeps st st'"
  using assms(1)
proof cases
  case (restart disk fresh)
  then show ?thesis unfolding keeps_def node_ok_def
    using MtmStateStartup_keeps node_ok_def by blast
next
  case caughtup
  then show ?thesis by (auto intro!: keeps_same_gen simp: MtmReportReceiverCaughtup_def)
next
  case campaign
  then show ?thesis using CampaignMyself_keeps assms(2) by blast
qed (auto intro: keeps_switch MtmHandleParallelSafe_keeps HandleGenVoteRequest_keeps
  CampaignTour_keeps CampaignReferee_keeps RefereeClearGrant_keeps MtmOnDmqReceiverHeartbeat_keeps
  keeps_same_gen dmq_same_gen)

text \<open>
  The contract of a voter: votes only grow, and going online in a generation happens only in one
  that is not below the last vote.
\<close>

locale promise_keeper =
  fixes ok :: "'s \<Rightarrow> bool"
    and step :: "'s \<Rightarrow> 's \<Rightarrow> bool"
    and vote_num :: "'s \<Rightarrow> 'n::linorder"
    and online_in :: "'s \<Rightarrow> 'n"
  assumes ok_step: "ok s \<Longrightarrow> step s s' \<Longrightarrow> ok s'"
    and vote_mono: "ok s \<Longrightarrow> step s s' \<Longrightarrow> vote_num s \<le> vote_num s'"
    and online_mono: "ok s \<Longrightarrow> step s s' \<Longrightarrow> online_in s \<le> online_in s'"
    and online_after_vote: "ok s \<Longrightarrow> step s s' \<Longrightarrow> online_in s' \<noteq> online_in s \<Longrightarrow> vote_num s \<le> online_in s'"
begin

lemma ok_run: "step\<^sup>*\<^sup>* s s' \<Longrightarrow> ok s \<Longrightarrow> ok s'"
  by (induction rule: rtranclp_induct) (auto intro: ok_step)

text \<open>
  Once a vote for \<open>n\<close> has been given, the last online generation stays what it was until the
  node goes online in a generation that is at least \<open>n\<close>.
\<close>

lemma promise:
  assumes "step\<^sup>*\<^sup>* s s'" and "ok s" and "n \<le> vote_num s"
  shows "n \<le> vote_num s' \<and> online_in s \<le> online_in s' \<and> (online_in s' = online_in s \<or> n \<le> online_in s')"
  using assms
proof (induction rule: rtranclp_induct)
  case (step s1 s2)
  have ok: "ok s1" by (rule ok_run [OF step(1,4)])
  show ?case
    using step.IH [OF step(4,5)] vote_mono [OF ok step(2)] online_mono [OF ok step(2)]
      online_after_vote [OF ok step(2)] by force
qed simp

end

lemma node_ok_step:
  assumes "backup_node_id cfg = MtmInvalidNodeId" and "node_ok st" and "node_step me cfg st st'"
  shows "node_ok st'" and "evolves st st'"
  using node_step_keeps [OF assms(3,1)] assms(2) by (auto simp: keeps_def)

interpretation mtm_voter: promise_keeper
  "\<lambda>st. node_ok st \<and> backup_node_id cfg = MtmInvalidNodeId" "node_step me cfg"
  "\<lambda>st. num (last_vote st)" last_online_in
  for me cfg
proof (unfold_locales, goal_cases)
  case (1 s s')
  then show ?case using node_ok_step(1) [of cfg s me s'] by simp
next
  case (2 s s')
  then show ?case using node_ok_step(2) [of cfg s me s'] by (simp add: evolves_def)
next
  case (3 s s')
  then show ?case using node_ok_step(2) [of cfg s me s'] by (simp add: evolves_def)
next
  case (4 s s')
  then show ?case using node_ok_step(2) [of cfg s me s'] by (simp add: evolves_def)
qed

text \<open>
  C7. From a node state in which the last online generation is not above the current one, the
  current one not above the last vote, the state file is up to date and the receive mode fits, no
  sequence of handlers, crashes and restarts leads out of these conditions; in particular
  receivers pull in normal mode exactly while the node is online in its current generation, and a
  crash loses nothing of the generation state.
\<close>

theorem node_invariant:
  assumes "(node_step me cfg)\<^sup>*\<^sup>* st st'" and "node_ok st" and "backup_node_id cfg = MtmInvalidNodeId"
  shows "node_ok st'"
  using mtm_voter.ok_run [OF assms(1)] assms(2,3) by blast

text \<open>
  C6. The promise of a vote. After a node has voted for generation \<open>n\<close>, whatever it does and
  however often it crashes, its last online generation stays the one it reported with the vote,
  until it goes online in a generation not below \<open>n\<close>.
\<close>

theorem voting_promise:
  assumes "(node_step me cfg)\<^sup>*\<^sup>* st st'" and "node_ok st" and "backup_node_id cfg = MtmInvalidNodeId"
    and "n \<le> num (last_vote st)"
  shows "last_online_in st' = last_online_in st \<or> n \<le> last_online_in st'"
  using mtm_voter.promise [OF assms(1) _ assms(4)] assms(2,3) by blast

text \<open>A node right after cluster creation and startup, for concrete runs.\<close>

definition boot_state :: MtmState where
  "boot_state = \<lparr>current_gen_num = 0, current_gen_members = 0, current_gen_configured = 0, donors = 0,
     last_online_in = 0, last_vote = \<lparr>num = 0, members = 0, configured = 0\<rparr>, ps_logged = False,
     others_last_online_in = replicate 16 0, dmq_receivers_mask = 0, dmq_senders_mask = 0,
     connectivity_matrix = replicate 16 0, receive_mode = RECEIVE_MODE_DISABLED,
     campaigner_on_tour = False, catchup_node_id = 0, catchup_ts = 0,
     referee_grant_turn_in_pending = 0, trace = []\<rparr>"

definition started :: "int \<Rightarrow> nat \<Rightarrow> MtmState" where
  "started me n = the (Option.bind (mtm_state_create (map int [1..<Suc n]) boot_state)
     (\<lambda>st. MtmStateStartup me (the (last_saved (trace st))) st))"

lemma started_node_ok: "node_ok (started 1 3)"
  by code_simp

lemma one_step: "node_step me cfg st st' \<Longrightarrow> (node_step me cfg)\<^sup>*\<^sup>* st st'"
  by (rule r_into_rtranclp)

definition gen2 :: MtmGeneration where
  "gen2 = \<lparr>num = 2, members = 3, configured = 7\<rparr>"

lemma started_switches: "MtmConsiderGenSwitch 1 gen2 3 (started 1 3) \<noteq> None"
  by code_simp

theorem node_invariant_witness:
  "\<exists>st'. MtmConsiderGenSwitch 1 gen2 3 (started 1 3) = Some st' \<and> node_ok st'"
proof -
  obtain st' where st': "MtmConsiderGenSwitch 1 gen2 3 (started 1 3) = Some st'"
    using started_switches by blast
  have "node_ok st'"
    by (rule node_invariant [OF one_step [OF switch [OF st', of "sample_cfg [1, 2, 3]"]] started_node_ok])
      (simp add: sample_cfg_def)
  with st' show ?thesis by blast
qed

theorem voting_promise_witness:
  "\<exists>st'. MtmConsiderGenSwitch 1 gen2 3 (started 1 3) = Some st' \<and>
     (last_online_in st' = last_online_in (started 1 3) \<or> 1 \<le> last_online_in st')"
proof -
  obtain st' where st': "MtmConsiderGenSwitch 1 gen2 3 (started 1 3) = Some st'"
    using started_switches by blast
  have "1 \<le> num (last_vote (started 1 3))" by code_simp
  with voting_promise [OF one_step [OF switch [OF st', of "sample_cfg [1, 2, 3]"]] started_node_ok]
  have "last_online_in st' = last_online_in (started 1 3) \<or> 1 \<le> last_online_in st'"
    by (simp add: sample_cfg_def)
  with st' show ?thesis by blast
qed

section \<open>A vote is on disk before it is answered\<close>

lemma decide_vote_cases:
  assumes "decide_vote me cfg gen sender clique st = Some (st', resp)"
  obtains (same) "st' = st" "vr_gen_num resp = num gen"
      "vr_vote_ok resp \<noteq> 0 \<longrightarrow> current_gen_num st < num gen \<and> last_vote st = gen \<and>
         vr_last_online_in resp = last_online_in st"
      "num (vr_curr_gen resp) \<noteq> 0 \<longrightarrow>
         vr_curr_gen resp = MtmGetCurrentGen st \<and> vr_curr_gen_donors resp = donors st"
  | (new) "give_vote me gen st = Some (st', resp)" "current_gen_num st < num gen"
      "num (last_vote st) < num gen" "configured gen = cfg_mask cfg"
  using assms
  by (auto simp: decide_vote_def no_response_def Let_def Option.bind_eq_Some_conv vote_acceptable_def
      not_le split: if_splits)

lemma give_vote_effect:
  assumes "give_vote me gen st = Some (st', resp)"
  shows "vr_gen_num resp = num gen" and "vr_vote_ok resp = 1"
    and "vr_last_online_in resp = last_online_in st" and "num (vr_curr_gen resp) = 0"
    and "\<exists>es. trace st' = trace st @ SaveState (persistent (st\<lparr>last_vote := gen\<rparr>)) # es \<and> set es \<subseteq> {WakeReceivers}"
    and "last_vote st' = gen" and "last_online_in st' = last_online_in st"
    and "MtmGetCurrentGen st' = MtmGetCurrentGen st" and "donors st' = donors st"
  using assms
  by (auto simp: give_vote_def Option.bind_eq_Some_conv Let_def MtmStateSave_def MtmSetReceiveMode_def
      emit_def no_response_def MtmGetCurrentGen_def)

text \<open>
  Whenever a vote request is answered with a positive vote, the state file written before the
  answer leaves the node contains that vote, so no crash can make the node vote differently for
  the same number.
\<close>

theorem vote_saved_before_answer:
  assumes "synced st" and "HandleGenVoteRequest me cfg gen sender dest st = Some st'"
  shows "\<exists>es resp. trace st' = trace st @ es @ [Send dest ''genvoteresp'' (T_MtmGenVoteResponse resp)] \<and>
    (vr_vote_ok resp \<noteq> 0 \<longrightarrow>
       (\<exists>p. last_saved (trace st @ es) = Some p \<and> p_last_vote p = gen \<and>
            p_last_online_in p = vr_last_online_in resp))"
proof -
  obtain clique st1 resp where d: "decide_vote me cfg gen sender clique st = Some (st1, resp)"
    and st': "st' = emit (Send dest ''genvoteresp'' (T_MtmGenVoteResponse resp)) st1"
    using assms(2) by (auto simp: HandleGenVoteRequest_def Option.bind_eq_Some_conv)
  from d show ?thesis
  proof (cases rule: decide_vote_cases)
    case same
    with assms(1) st' show ?thesis
      by (intro exI [of _ "[]"] exI [of _ resp]) (auto simp: emit_def synced_def persistent_def)
  next
    case new
    note eff = give_vote_effect [OF new(1)]
    then obtain es where es: "trace st1 = trace st @ SaveState (persistent (st\<lparr>last_vote := gen\<rparr>)) # es"
      "set es \<subseteq> {WakeReceivers}" by blast
    have "set xs \<subseteq> {WakeReceivers} \<Longrightarrow> last_saved xs = None" for xs by (induction xs) auto
    with es(2) have "last_saved es = None" by blast
    with es st' eff(3) show ?thesis
      by (intro exI [of _ "SaveState (persistent (st\<lparr>last_vote := gen\<rparr>)) # es"] exI [of _ resp])
        (simp add: emit_def persistent_def)
  qed
qed

lemma status_total:
  "me \<noteq> MtmInvalidNodeId \<Longrightarrow> current_gen_num st \<noteq> MtmInvalidGenNum \<Longrightarrow>
    \<exists>s. MtmGetCurrentStatusInGen me st = Some s"
  by (auto simp: MtmGetCurrentStatusInGen_def)

lemma decide_vote_total:
  assumes "known_node me st" and "current_gen_num st \<noteq> MtmInvalidGenNum"
  shows "\<exists>st' resp. decide_vote me cfg gen sender clique st = Some (st', resp)"
proof -
  have me: "me \<noteq> 0" using assms(1) by (auto simp: known_node_def)
  have "\<exists>b. vote_acceptable me cfg gen sender clique st = Some b"
    using assms(1) MtmIsConnectivityClique_spec status_total [OF me assms(2)]
    by (auto simp: vote_acceptable_def Let_def known_node_def)
  moreover have "\<exists>st' resp. give_vote me gen st = Some (st', resp)"
    using status_total [OF me assms(2)] status_total [OF me, of "MtmStateSave (st\<lparr>last_vote := gen\<rparr>)"] assms(2)
    by (auto simp: give_vote_def Let_def state_prims)
  ultimately show ?thesis
    unfolding decide_vote_def Let_def by (auto split: if_splits)
qed

lemma decide_vote_answer:
  assumes "decide_vote me cfg gen sender clique st = Some (st', resp)"
  shows "vr_gen_num resp = num gen \<and> (\<exists>es. trace st' = trace st @ es \<and> (\<forall>d s m. Send d s m \<notin> set es))"
  using assms
proof (cases rule: decide_vote_cases)
  case new
  then show ?thesis using give_vote_effect(1,5) [OF new(1)] by fastforce
qed simp

text \<open>
  Every vote request that reaches a configured node whose generation state is loaded is
  answered, exactly once, with a message that names the requested generation.
\<close>

theorem vote_request_answered:
  assumes "known_node me st" and "current_gen_num st \<noteq> MtmInvalidGenNum"
  shows "\<exists>st' es resp. HandleGenVoteRequest me cfg gen sender dest st = Some st' \<and>
    trace st' = trace st @ es @ [Send dest ''genvoteresp'' (T_MtmGenVoteResponse resp)] \<and>
    (\<forall>d s m. Send d s m \<notin> set es) \<and> vr_gen_num resp = num gen"
proof -
  obtain clique where c: "MtmGetConnectivityClique me st = Some clique"
    using MtmGetConnectivityClique_spec [OF assms(1)] by blast
  obtain st1 resp where d: "decide_vote me cfg gen sender clique st = Some (st1, resp)"
    using decide_vote_total [OF assms] by blast
  with c decide_vote_answer [OF d] show ?thesis
    by (auto simp: HandleGenVoteRequest_def emit_def)
qed

lemma started_known: "known_node 1 (started 1 3)" "current_gen_num (started 1 3) = 1"
  by code_simp+

theorem vote_request_answered_witness:
  "\<exists>st' es resp. HandleGenVoteRequest 1 (sample_cfg [1, 2, 3]) gen2 2 5 (started 1 3) = Some st' \<and>
    trace st' = trace (started 1 3) @ es @ [Send 5 ''genvoteresp'' (T_MtmGenVoteResponse resp)] \<and>
    vr_gen_num resp = 2"
  using vote_request_answered [OF started_known(1), of "sample_cfg [1, 2, 3]" gen2 2 5] started_known(2)
  by (auto simp: gen2_def)

theorem vote_saved_before_answer_witness:
  "\<exists>st' resp. HandleGenVoteRequest 1 (sample_cfg [1, 2, 3]) gen2 2 5 (started 1 3) = Some st' \<and>
     last (trace st') = Send 5 ''genvoteresp'' (T_MtmGenVoteResponse resp)"
proof -
  obtain clique st1 resp where "MtmGetConnectivityClique 1 (started 1 3) = Some clique"
    "decide_vote 1 (sample_cfg [1, 2, 3]) gen2 2 clique (started 1 3) = Some (st1, resp)"
    using MtmGetConnectivityClique_spec [OF started_known(1)]
      decide_vote_total [OF started_known(1), of "sample_cfg [1, 2, 3]" gen2 2] started_known(2)
    by (metis zero_neq_one)
  then obtain st' where st': "HandleGenVoteRequest 1 (sample_cfg [1, 2, 3]) gen2 2 5 (started 1 3) = Some st'"
    by (auto simp: HandleGenVoteRequest_def)
  moreover have "synced (started 1 3)" using started_node_ok by (simp add: node_ok_def)
  ultimately show ?thesis
    using vote_saved_before_answer [OF _ st'] by (metis append_assoc last_snoc)
qed

end
