(* ===== verification/Gen_Cluster.thy ===== *)
theory Gen_Cluster
  imports Gen_Invariants
begin

text \<open>
  Elections in the whole cluster. The nodes run the handlers of \<open>Mtm_State\<close>; requests and
  answers may be lost, delayed, repeated and reordered, and nodes may crash at any time. The
  cluster state records, besides the node states, every vote ever given, every campaign, every
  answer sent, every generation elected and in which generations each node has ever been online.

  Dynamic changes of the set of configured nodes, which the source says are not handled, and
  referee-granted generations, which need no majority, are left out: the set of nodes is fixed
  and has not exactly two members.
\<close>

section \<open>What a step may do to generation and online status\<close>

definition viable :: "MtmGeneration \<Rightarrow> bool" where
  "viable g \<longleftrightarrow> Quorum (popcount (configured g)) (popcount (members g)) \<or>
     IS_REFEREE_GEN (members g) (configured g)"

text \<open>Relative to a set \<open>E\<close> of generations (with donors) that may be learned.\<close>

definition moves :: "(MtmGeneration \<times> nodemask_t) set \<Rightarrow> MtmState \<Rightarrow> MtmState \<Rightarrow> bool" where
  "moves E st st' \<longleftrightarrow>
     (MtmGetCurrentGen st' = MtmGetCurrentGen st \<and> donors st' = donors st \<or>
      (MtmGetCurrentGen st', donors st') \<in> E) \<and>
     (last_online_in st' = last_online_in st \<or>
      (\<exists>h. (h = MtmGetCurrentGen st \<or> h \<in> fst ` E) \<and> num h = last_online_in st' \<and> viable h))"

lemma moves_refl [simp]: "moves E st st"
  by (simp add: moves_def)

lemma moves_trans:
  assumes "moves E a b" and "moves E b c"
  shows "moves E a c"
proof -
  have "MtmGetCurrentGen b = MtmGetCurrentGen a \<or> MtmGetCurrentGen b \<in> fst ` E"
    using assms(1) unfolding moves_def by force
  with assms show ?thesis unfolding moves_def by metis
qed

lemma moves_same_gen:
  assumes "same_gen st st'"
  shows "moves E st st'"
  using assms by (simp add: same_gen_def moves_def persistent_def)

lemma current_gen_eq: "MtmGetCurrentGen st = \<lparr>num = current_gen_num st,
    members = current_gen_members st, configured = current_gen_configured st\<rparr>"
  by (simp add: MtmGetCurrentGen_def)

lemma switched_gen [simp]: "MtmGetCurrentGen (switched gen dn st) = gen" "donors (switched gen dn st) = dn"
  by (simp_all add: switched_def MtmGetCurrentGen_def)

lemma moves_switch:
  assumes "MtmConsiderGenSwitch me gen dn st = Some st'" and "(gen, dn) \<in> E"
  shows "moves E st st'"
  using assms(1)
proof (cases rule: MtmConsiderGenSwitch_cases)
  case dead
  then have "MtmGetCurrentGen st' = gen" "donors st' = dn" "last_online_in st' = last_online_in st"
    by (simp_all add: state_prims switched_def)
  with assms(2) show ?thesis by (simp add: moves_def)
next
  case online
  then have "MtmGetCurrentGen st' = gen" "donors st' = dn" "last_online_in st' = num gen" "viable gen"
    by (simp_all add: go_online_def state_prims switched_def switch_dead_def viable_def)
  with assms(2) show ?thesis unfolding moves_def by force
next
  case recovery
  then have "MtmGetCurrentGen st' = gen" "donors st' = dn" "last_online_in st' = last_online_in st"
    by (simp_all add: state_prims switched_def)
  with assms(2) show ?thesis by (simp add: moves_def)
qed simp

lemma moves_go_online:
  assumes "num gen = current_gen_num st" and "MtmGetCurrentStatusInGen me st = Some MTM_GEN_RECOVERY"
  shows "moves E st (go_online gen dn st)"
proof -
  have "viable (MtmGetCurrentGen st)"
    using assms(2) by (auto simp: MtmGetCurrentStatusInGen_def viable_def MtmGetCurrentGen_def split: if_splits)
  moreover have "MtmGetCurrentGen (go_online gen dn st) = MtmGetCurrentGen st"
    "donors (go_online gen dn st) = donors st" "last_online_in (go_online gen dn st) = num gen"
    by (simp_all add: go_online_def state_prims)
  moreover have "num (MtmGetCurrentGen st) = current_gen_num st" by (simp add: MtmGetCurrentGen_def)
  ultimately show ?thesis unfolding moves_def using assms(1) by metis
qed

lemma MtmHandleParallelSafe_cases:
  assumes "MtmHandleParallelSafe me ref gen dn is_recovery st = Some (again, st')"
  obtains st1 where "MtmConsiderGenSwitch me gen dn st = Some st1"
    and "st' = st1 \<or> (num gen = current_gen_num st1 \<and>
      MtmGetCurrentStatusInGen me st1 = Some MTM_GEN_RECOVERY \<and> same_gen (go_online gen dn st1) st')"
proof -
  obtain st1 where st1: "MtmConsiderGenSwitch me gen dn st = Some st1"
    using assms by (auto simp: MtmHandleParallelSafe_def Option.bind_eq_Some_conv)
  show thesis
  proof (rule that [OF st1], cases "st' = st1")
    case False
    with assms st1 have "num gen = current_gen_num st1"
      "MtmGetCurrentStatusInGen me st1 = Some MTM_GEN_RECOVERY"
      "st' = go_online gen dn st1 \<or> st' = (go_online gen dn st1)\<lparr>referee_grant_turn_in_pending := num gen\<rparr>"
      by (auto simp: MtmHandleParallelSafe_def Option.bind_eq_Some_conv Let_def go_online_def
          split: if_splits)
    then show "st' = st1 \<or> (num gen = current_gen_num st1 \<and>
      MtmGetCurrentStatusInGen me st1 = Some MTM_GEN_RECOVERY \<and> same_gen (go_online gen dn st1) st')"
      by (auto simp: same_gen_def persistent_def MtmGetCurrentGen_def)
  qed simp
qed

lemma moves_parallel_safe:
  assumes "MtmHandleParallelSafe me ref gen dn is_recovery st = Some (again, st')" and "(gen, dn) \<in> E"
  shows "moves E st st'"
  using assms(1)
proof (rule MtmHandleParallelSafe_cases)
  fix st1
  assume st1: "MtmConsiderGenSwitch me gen dn st = Some st1"
    "st' = st1 \<or> (num gen = current_gen_num st1 \<and>
      MtmGetCurrentStatusInGen me st1 = Some MTM_GEN_RECOVERY \<and> same_gen (go_online gen dn st1) st')"
  have "moves E st st1" by (rule moves_switch [OF st1(1) assms(2)])
  with st1(2) moves_go_online moves_same_gen moves_trans show ?thesis by metis
qed

lemma moves_receive_mode [simp]: "moves E st (MtmSetReceiveMode m st)"
  by (simp add: moves_def state_prims)

lemma moves_vote: "moves E st (MtmStateSave (st\<lparr>last_vote := g\<rparr>))"
  by (simp add: moves_def state_prims)

lemma moves_process_responses:
  assumes "process_responses me cand msgs t st = Some (t', st')"
    and "\<forall>(k, r)\<in>set msgs. num (vr_curr_gen r) \<noteq> 0 \<longrightarrow> (vr_curr_gen r, vr_curr_gen_donors r) \<in> E"
  shows "moves E st st'"
  using assms
proof (induction msgs arbitrary: t st)
  case (Cons m msgs)
  obtain sender msg where m: "m = (sender, msg)" by (cases m)
  obtain st1 where st1: "(if num (vr_curr_gen msg) \<noteq> 0
      then MtmConsiderGenSwitch me (vr_curr_gen msg) (vr_curr_gen_donors msg) st else Some st) = Some st1"
    "process_responses me cand msgs (count_response cand sender msg t) st1 = Some (t', st')"
    using Cons.prems(1) by (auto simp: m Option.bind_eq_Some_conv)
  then have "moves E st st1"
    using Cons.prems(2) by (auto simp: m split: if_splits intro: moves_switch)
  with Cons.IH [OF st1(2)] Cons.prems(2) show ?case by (auto intro: moves_trans)
qed simp

section \<open>Counting the answers to a poll\<close>

text \<open>The positive answers among the gathered messages, with the voter and its last online generation.\<close>

definition ok_votes :: "MtmGeneration \<Rightarrow> (int \<times> MtmGenVoteResponse) list \<Rightarrow> (int \<times> uint64) list" where
  "ok_votes cand msgs = [(k, vr_last_online_in r). (k, r) \<leftarrow> msgs, vr_gen_num r = num cand \<and> vr_vote_ok r \<noteq> 0]"

definition tour_inv :: "tour \<Rightarrow> (int \<times> uint64) list \<Rightarrow> bool" where
  "tour_inv t ws \<longleftrightarrow> nvotes t = length ws \<and> (\<forall>(i, l)\<in>set ws. l \<le> max_last_online_in t) \<and>
     max_last_online_in t \<in> snd ` set ws \<and>
     nodes_of (tour_donors t) = pos ` {i. (i, max_last_online_in t) \<in> set ws}"

lemma count_response_inv:
  assumes "tour_inv t ws" and "1 \<le> k" and "k \<le> 16"
  shows "tour_inv (count_response cand k r t) (ws @ ok_votes cand [(k, r)])"
proof -
  have p: "pos k < MTM_MAX_NODES" using assms(2,3) by auto
  show ?thesis
  proof (cases "vr_gen_num r = num cand \<and> vr_vote_ok r \<noteq> 0")
    case False
    with assms(1) show ?thesis by (auto simp: tour_inv_def count_response_def ok_votes_def Let_def)
  next
    case True
    consider "vr_last_online_in r = max_last_online_in t" | "vr_last_online_in r > max_last_online_in t"
      | "vr_last_online_in r < max_last_online_in t" by fastforce
    then show ?thesis
    proof cases
      case 1
      with True assms(1) p show ?thesis
        by (auto simp: tour_inv_def count_response_def ok_votes_def Let_def nodes_of_BIT_SET)
    next
      case 2
      then have "{i. (i, vr_last_online_in r) \<in> set ws} = {}"
        using assms(1) by (force simp: tour_inv_def)
      with 2 True assms(1) p show ?thesis
        by (force simp: tour_inv_def count_response_def ok_votes_def Let_def nodes_of_BIT_SET)
    next
      case 3
      with True assms(1) show ?thesis
        by (auto simp: tour_inv_def count_response_def ok_votes_def Let_def)
    qed
  qed
qed

text \<open>The count does not depend on what the switches of the loop do.\<close>

definition tour_count :: "MtmGeneration \<Rightarrow> (int \<times> MtmGenVoteResponse) list \<Rightarrow> tour \<Rightarrow> tour" where
  "tour_count cand msgs t = fold (\<lambda>(k, r). count_response cand k r) msgs t"

lemma process_responses_count:
  "process_responses me cand msgs t st = Some (t', st') \<Longrightarrow> t' = tour_count cand msgs t"
proof (induction msgs arbitrary: t st)
  case (Cons m msgs)
  then show ?case by (cases m) (auto simp: tour_count_def Option.bind_eq_Some_conv)
qed (simp add: tour_count_def)

lemma tour_count_inv:
  assumes "tour_inv t ws" and "\<forall>(k, r)\<in>set msgs. 1 \<le> k \<and> k \<le> 16"
  shows "tour_inv (tour_count cand msgs t) (ws @ ok_votes cand msgs)"
  using assms
proof (induction msgs arbitrary: t ws)
  case Nil
  then show ?case by (simp add: ok_votes_def tour_count_def)
next
  case (Cons m msgs)
  obtain k r where m: "m = (k, r)" by (cases m)
  from Cons.IH [OF count_response_inv [OF Cons.prems(1)]] Cons.prems(2)
  have "tour_inv (tour_count cand msgs (count_response cand k r t))
      ((ws @ ok_votes cand [(k, r)]) @ ok_votes cand msgs)" by (auto simp: m)
  moreover have "ok_votes cand (m # msgs) = ok_votes cand [(k, r)] @ ok_votes cand msgs"
    by (simp add: ok_votes_def m)
  ultimately show ?case by (simp add: tour_count_def m)
qed

lemma tour_start_inv: "1 \<le> me \<Longrightarrow> me \<le> 16 \<Longrightarrow> tour_inv (tour_start me cand l) [(me, l)]"
  by (auto simp: tour_inv_def tour_start_def nodes_of_BIT_SET)

lemma ok_votes_fst: "set (map fst (ok_votes cand msgs)) \<subseteq> set (map fst msgs)"
  by (force simp: ok_votes_def)

lemma ok_votes_distinct: "distinct (map fst msgs) \<Longrightarrow> distinct (map fst (ok_votes cand msgs))"
proof (induction msgs)
  case (Cons m msgs)
  obtain k r where m: "m = (k, r)" by (cases m)
  have "ok_votes cand (m # msgs) = ok_votes cand [m] @ ok_votes cand msgs"
    by (simp add: ok_votes_def)
  moreover have "k \<notin> set (map fst (ok_votes cand msgs))"
    using Cons.prems ok_votes_fst [of cand msgs] by (auto simp: m)
  moreover have "ok_votes cand [m] = [] \<or> (\<exists>l. ok_votes cand [m] = [(k, l)])"
    by (simp add: ok_votes_def m)
  ultimately show ?case using Cons by (force simp: image_iff)
qed (simp add: ok_votes_def)

section \<open>The cluster\<close>

record cluster =
  nst :: "int \<Rightarrow> MtmState"
  votes :: "(int \<times> MtmGeneration \<times> uint64) set"
  camps :: "(int \<times> MtmGeneration \<times> uint64) set"
  resps :: "(int \<times> int \<times> MtmGenVoteResponse) set"
  elected :: "(MtmGeneration \<times> nodemask_t) set"
  onl :: "(int \<times> uint64) set"

abbreviation ids :: "MtmConfig \<Rightarrow> int set" where "ids cfg \<equiv> node_id ` set (nodes cfg)"

definition first_gen :: "MtmConfig \<Rightarrow> MtmGeneration" where
  "first_gen cfg = \<lparr>num = 1, members = cfg_mask cfg, configured = cfg_mask cfg\<rparr>"

text \<open>The cluster after creation: everybody is online in generation 1.\<close>

definition init_cluster :: "MtmConfig \<Rightarrow> cluster \<Rightarrow> bool" where
  "init_cluster cfg s \<longleftrightarrow>
     (\<forall>i\<in>ids cfg. node_ok (nst s i) \<and> MtmGetCurrentGen (nst s i) = first_gen cfg \<and>
        donors (nst s i) = cfg_mask cfg \<and> last_online_in (nst s i) = 1 \<and>
        num (last_vote (nst s i)) = 1 \<and> configured (last_vote (nst s i)) = 0) \<and>
     votes s = {} \<and> camps s = {} \<and> resps s = {} \<and>
     elected s = {(first_gen cfg, cfg_mask cfg)} \<and> onl s = ids cfg \<times> {1}"

text \<open>Steps of a node that neither give votes nor count them.\<close>

inductive quiet :: "MtmConfig \<Rightarrow> (MtmGeneration \<times> nodemask_t) set \<Rightarrow> int \<Rightarrow> MtmState \<Rightarrow> MtmState \<Rightarrow> bool"
  for cfg E i where
  heartbeat: "MtmOnDmqReceiverHeartbeat i name (Some (T_MtmHeartbeat msg)) st = Some st' \<Longrightarrow>
     (hb_current_gen msg, hb_donors msg) \<in> E \<Longrightarrow> quiet cfg E i st st'"
| parallel_safe: "MtmHandleParallelSafe i ref gen dn rec st = Some (again, st') \<Longrightarrow> (gen, dn) \<in> E \<Longrightarrow>
     quiet cfg E i st st'"
| no_campaign: "CampaignMyself i cfg env st = Some (st', NoCampaign) \<Longrightarrow> num (last_vote st) \<noteq> - 1 \<Longrightarrow>
     quiet cfg E i st st'"
| receiver_connect: "MtmOnDmqReceiverConnect cfg ml rl name st = Some st' \<Longrightarrow> quiet cfg E i st st'"
| receiver_disconnect: "MtmOnDmqReceiverDisconnect wr name st = Some st' \<Longrightarrow> quiet cfg E i st st'"
| sender_connect: "MtmOnDmqSenderConnect name st = Some st' \<Longrightarrow> quiet cfg E i st st'"
| sender_disconnect: "MtmOnDmqSenderDisconnect name st = Some st' \<Longrightarrow> quiet cfg E i st st'"
| caughtup: "quiet cfg E i st (MtmReportReceiverCaughtup nid now st)"
| restart: "last_saved (trace st) = Some disk \<Longrightarrow> trace fresh = trace st \<Longrightarrow>
     MtmStateStartup i disk fresh = Some st' \<Longrightarrow> quiet cfg E i st st'"

text \<open>Node \<open>i\<close> is in state \<open>st'\<close>, with the generations it elected.\<close>

definition upd :: "int \<Rightarrow> MtmState \<Rightarrow> (MtmGeneration \<times> nodemask_t) set \<Rightarrow> cluster \<Rightarrow> cluster" where
  "upd i st' E s = s\<lparr>nst := (nst s)(i := st'), elected := elected s \<union> E,
     onl := insert (i, last_online_in st') (onl s)\<rparr>"

inductive cstep :: "MtmConfig \<Rightarrow> cluster \<Rightarrow> cluster \<Rightarrow> bool" for cfg where
  local: "i \<in> ids cfg \<Longrightarrow> quiet cfg (elected s) i (nst s i) st' \<Longrightarrow> cstep cfg s (upd i st' {} s)"
| vote: "i \<in> ids cfg \<Longrightarrow> (j, g, l) \<in> camps s \<Longrightarrow>
     HandleGenVoteRequest i cfg g j dest (nst s i) = Some st' \<Longrightarrow>
     last (trace st') = Send dest ''genvoteresp'' (T_MtmGenVoteResponse r) \<Longrightarrow>
     cstep cfg s ((upd i st' {} s)\<lparr>
       votes := (if vr_vote_ok r \<noteq> 0 then insert (i, g, vr_last_online_in r) (votes s) else votes s),
       resps := insert (j, i, r) (resps s)\<rparr>)"
| campaign: "i \<in> ids cfg \<Longrightarrow> CampaignMyself i cfg env (nst s i) = Some (st', Campaign g cohort l) \<Longrightarrow>
     num (last_vote (nst s i)) \<noteq> - 1 \<Longrightarrow>
     cstep cfg s ((upd i st' {} s)\<lparr>votes := insert (i, g, l) (votes s), camps := insert (i, g, l) (camps s)\<rparr>)"
| tour: "i \<in> ids cfg \<Longrightarrow> (i, g, l) \<in> camps s \<Longrightarrow>
     distinct (map fst msgs) \<Longrightarrow> i \<notin> fst ` set msgs \<Longrightarrow>
     \<forall>(k, r)\<in>set msgs. (i, k, r) \<in> resps s \<and> vr_gen_num r = num g \<Longrightarrow>
     CampaignTour i cfg dest' g cohort l msgs (nst s i) = Some st' \<Longrightarrow>
     t = tour_count g msgs (tour_start i g l) \<Longrightarrow>
     cstep cfg s (upd i st' (if tour_won cfg t then {(g, tour_donors t)} else {}) s)"

section \<open>The cluster invariant\<close>

definition gen_ok :: "MtmConfig \<Rightarrow> MtmGeneration \<Rightarrow> bool" where
  "gen_ok cfg g \<longleftrightarrow> configured g = cfg_mask cfg \<and> nodes_of (members g) \<subseteq> nodes_of (cfg_mask cfg) \<and>
     nodes_of (members g) \<noteq> {}"

text \<open>A vote of a node, as its present state has to respect it.\<close>

definition vote_inv :: "MtmState \<Rightarrow> MtmGeneration \<Rightarrow> uint64 \<Rightarrow> bool" where
  "vote_inv st g l \<longleftrightarrow> num g \<le> num (last_vote st) \<and>
     (num g = num (last_vote st) \<longrightarrow> g = last_vote st \<or> bumped (last_vote st)) \<and>
     (last_online_in st = l \<or> num g \<le> last_online_in st)"

text \<open>The votes by which a generation was elected, and its donors: the voters with the highest
  last online generation.\<close>

definition won :: "MtmConfig \<Rightarrow> (int \<times> MtmGeneration \<times> uint64) set \<Rightarrow> MtmGeneration \<Rightarrow> nodemask_t \<Rightarrow> bool" where
  "won cfg V g d \<longleftrightarrow> (\<exists>ws top. distinct (map fst ws) \<and> (\<forall>(i, l)\<in>set ws. (i, g, l) \<in> V) \<and>
     Quorum (n_nodes cfg) (length ws) \<and> (\<forall>(i, l)\<in>set ws. l \<le> top) \<and> top \<in> snd ` set ws \<and>
     nodes_of d = pos ` {i. (i, top) \<in> set ws})"

definition nodes_inv :: "MtmConfig \<Rightarrow> cluster \<Rightarrow> bool" where
  "nodes_inv cfg s \<longleftrightarrow> (\<forall>i\<in>ids cfg. node_ok (nst s i) \<and>
     (MtmGetCurrentGen (nst s i), donors (nst s i)) \<in> elected s \<and>
     (i, last_online_in (nst s i)) \<in> onl s \<and>
     (num (last_vote (nst s i)) = 1 \<longrightarrow> configured (last_vote (nst s i)) = 0))"

text \<open>No node votes for two generations with the same number.\<close>

definition votes_unique :: "(int \<times> MtmGeneration \<times> uint64) set \<Rightarrow> bool" where
  "votes_unique V \<longleftrightarrow> (\<forall>i g l g' l'. (i, g, l) \<in> V \<longrightarrow> (i, g', l') \<in> V \<longrightarrow> num g = num g' \<longrightarrow> g = g')"

definition votes_inv :: "MtmConfig \<Rightarrow> cluster \<Rightarrow> bool" where
  "votes_inv cfg s \<longleftrightarrow>
     (\<forall>(i, g, l)\<in>votes s. i \<in> ids cfg \<and> vote_inv (nst s i) g l \<and> gen_ok cfg g \<and> num g \<noteq> 1 \<and> (i, l) \<in> onl s) \<and>
     votes_unique (votes s) \<and> camps s \<subseteq> votes s"

definition resps_inv :: "MtmConfig \<Rightarrow> cluster \<Rightarrow> bool" where
  "resps_inv cfg s \<longleftrightarrow> (\<forall>(j, i, r)\<in>resps s. i \<in> ids cfg \<and>
     (vr_vote_ok r \<noteq> 0 \<longrightarrow> (\<exists>g l. (j, g, l) \<in> camps s \<and> num g = vr_gen_num r \<and>
        (i, g, vr_last_online_in r) \<in> votes s)) \<and>
     (num (vr_curr_gen r) \<noteq> 0 \<longrightarrow> (vr_curr_gen r, vr_curr_gen_donors r) \<in> elected s))"

text \<open>Being online in \<open>m\<close> breaks no promise of the votes in \<open>V\<close>.\<close>

definition kept :: "(int \<times> MtmGeneration \<times> uint64) set \<Rightarrow> int \<Rightarrow> uint64 \<Rightarrow> bool" where
  "kept V i m \<longleftrightarrow> (\<forall>g l. (i, g, l) \<in> V \<longrightarrow> m \<le> l \<or> num g \<le> m)"

definition online_inv :: "MtmConfig \<Rightarrow> cluster \<Rightarrow> bool" where
  "online_inv cfg s \<longleftrightarrow> (\<forall>(i, m)\<in>onl s. i \<in> ids cfg \<and> m \<le> last_online_in (nst s i) \<and>
     kept (votes s) i m \<and> (\<exists>h\<in>fst ` elected s. num h = m \<and> viable h))"

definition elected_inv :: "MtmConfig \<Rightarrow> cluster \<Rightarrow> bool" where
  "elected_inv cfg s \<longleftrightarrow> (\<forall>(g, d)\<in>elected s. gen_ok cfg g \<and>
     (g = first_gen cfg \<or> num g \<noteq> 1 \<and> won cfg (votes s) g d))"

definition cluster_inv :: "MtmConfig \<Rightarrow> cluster \<Rightarrow> bool" where
  "cluster_inv cfg s \<longleftrightarrow> nodes_inv cfg s \<and> votes_inv cfg s \<and> resps_inv cfg s \<and> online_inv cfg s \<and>
     elected_inv cfg s"

lemma vote_inv_evolves: "vote_inv st g l \<Longrightarrow> evolves st st' \<Longrightarrow> vote_inv st' g l"
proof -
  assume v: "vote_inv st g l" and e: "evolves st st'"
  have "g = last_vote st' \<or> bumped (last_vote st')" if eq: "num g = num (last_vote st')"
  proof -
    have "num (last_vote st') = num (last_vote st)"
      using v e eq unfolding vote_inv_def evolves_def by (simp add: order_antisym)
    then show ?thesis using v e eq unfolding vote_inv_def evolves_def by metis
  qed
  moreover have "last_online_in st' = l \<or> num g \<le> last_online_in st'"
    using v e unfolding vote_inv_def evolves_def by (metis order_trans)
  ultimately show "vote_inv st' g l"
    using v e unfolding vote_inv_def evolves_def by (blast intro: order_trans)
qed

lemma won_mono: "won cfg V g d \<Longrightarrow> V \<subseteq> V' \<Longrightarrow> won cfg V' g d"
proof -
  assume w: "won cfg V g d" and sub: "V \<subseteq> V'"
  from w obtain ws top where ws: "distinct (map fst ws)" "\<forall>(i, l)\<in>set ws. (i, g, l) \<in> V"
    "Quorum (n_nodes cfg) (length ws)" "\<forall>(i, l)\<in>set ws. l \<le> top" "top \<in> snd ` set ws"
    "nodes_of d = pos ` {i. (i, top) \<in> set ws}" unfolding won_def by blast
  moreover have "\<forall>(i, l)\<in>set ws. (i, g, l) \<in> V'" using ws(2) sub by blast
  ultimately show "won cfg V' g d" unfolding won_def by blast
qed

lemma gen_ok_not_bumped: "gen_ok cfg g \<Longrightarrow> \<not> bumped g"
  by (auto simp: gen_ok_def bumped_def)

lemma nodes_invD:
  assumes "nodes_inv cfg s" and "i \<in> ids cfg"
  shows "node_ok (nst s i)" and "(MtmGetCurrentGen (nst s i), donors (nst s i)) \<in> elected s"
    and "(i, last_online_in (nst s i)) \<in> onl s"
    and "num (last_vote (nst s i)) = 1 \<Longrightarrow> configured (last_vote (nst s i)) = 0"
  using assms unfolding nodes_inv_def by blast+

lemma online_inv_upd:
  assumes inv: "cluster_inv cfg s" and i: "i \<in> ids cfg" and ev: "evolves (nst s i) st'"
    and mv: "moves (elected s \<union> E) (nst s i) st'"
  shows "online_inv cfg (upd i st' E s)"
proof -
  have o: "online_inv cfg s" and v: "votes_inv cfg s" and n: "nodes_inv cfg s"
    using inv by (simp_all add: cluster_inv_def)
  let ?P = "\<lambda>k m. k \<in> ids cfg \<and> m \<le> last_online_in (((nst s)(i := st')) k) \<and>
     kept (votes s) k m \<and> (\<exists>h\<in>fst ` (elected s \<union> E). num h = m \<and> viable h)"
  have old: "?P k m" if "(k, m) \<in> onl s" for k m
  proof -
    have "m \<le> last_online_in (nst s k)" using o that by (auto simp: online_inv_def)
    then have "m \<le> last_online_in (((nst s)(i := st')) k)"
      using ev by (auto simp: evolves_def)
    with o that show ?thesis unfolding online_inv_def by (force simp: image_Un)
  qed
  have new: "?P i (last_online_in st')"
  proof (cases "last_online_in st' = last_online_in (nst s i)")
    case True
    from old [OF nodes_invD(3) [OF n i]] show ?thesis unfolding True .
  next
    case False
    have "num g \<le> last_online_in st'" if "(i, g, l) \<in> votes s" for g l
    proof -
      have "num g \<le> num (last_vote (nst s i))" using v that by (auto simp: votes_inv_def vote_inv_def)
      also have "\<dots> \<le> last_online_in st'" using ev False by (simp add: evolves_def)
      finally show ?thesis .
    qed
    moreover have "MtmGetCurrentGen (nst s i) \<in> fst ` elected s"
      using nodes_invD(2) [OF n i] by force
    then have "\<exists>h\<in>fst ` (elected s \<union> E). num h = last_online_in st' \<and> viable h"
      using mv False unfolding moves_def by (auto simp: image_Un)
    ultimately show ?thesis using i unfolding kept_def by simp
  qed
  show ?thesis unfolding online_inv_def upd_def using old new by auto
qed

text \<open>A node step that gives no vote.\<close>

lemma upd_inv:
  assumes inv: "cluster_inv cfg s" and i: "i \<in> ids cfg" and ok: "node_ok st'" and ev: "evolves (nst s i) st'"
    and mv: "moves (elected s \<union> E) (nst s i) st'"
    and E: "\<forall>(g, d)\<in>E. gen_ok cfg g \<and> num g \<noteq> 1 \<and> won cfg (votes s) g d"
  shows "cluster_inv cfg (upd i st' E s)"
proof -
  have n: "nodes_inv cfg s" using inv by (simp add: cluster_inv_def)
  note ni = nodes_invD [OF n i]
  have v: "votes_inv cfg s" and r: "resps_inv cfg s" and o: "online_inv cfg s" and e: "elected_inv cfg s"
    using inv by (simp_all add: cluster_inv_def)
  have cur: "(MtmGetCurrentGen st', donors st') \<in> elected s \<union> E"
    using mv ni(2) unfolding moves_def by (metis UnI1)
  have lv: "num (last_vote st') = 1 \<longrightarrow> configured (last_vote st') = 0"
  proof
    assume one: "num (last_vote st') = 1"
    have le: "num (last_vote (nst s i)) \<le> 1" using ev one by (simp add: evolves_def)
    moreover have "num (last_vote (nst s i)) \<noteq> 0"
      using ni(1) by (auto simp: node_ok_def gens_ordered_def)
    ultimately have "num (last_vote (nst s i)) = 1" by (metis order_le_less word_less_1)
    then show "configured (last_vote st') = 0"
      using ev one ni(4) unfolding evolves_def bumped_def by metis
  qed
  have "nodes_inv cfg (upd i st' E s)"
    using n ok cur lv unfolding nodes_inv_def upd_def by simp
  moreover have "votes_inv cfg (upd i st' E s)"
  proof -
    have "vote_inv (((nst s)(i := st')) k) g l" if "(k, g, l) \<in> votes s" for k g l
      using v that vote_inv_evolves [OF _ ev] by (auto simp: votes_inv_def)
    with v show ?thesis unfolding votes_inv_def upd_def by auto
  qed
  moreover have "resps_inv cfg (upd i st' E s)"
    using r unfolding resps_inv_def upd_def by auto
  moreover have "elected_inv cfg (upd i st' E s)"
    using e E unfolding elected_inv_def upd_def by auto
  moreover have "online_inv cfg (upd i st' E s)"
    by (rule online_inv_upd [OF inv i ev mv])
  ultimately show ?thesis by (simp add: cluster_inv_def)
qed

text \<open>Recording a vote, a campaign, an answer.\<close>

lemma inv_camps [simp]:
  "nodes_inv cfg (s\<lparr>camps := X\<rparr>) = nodes_inv cfg s" "online_inv cfg (s\<lparr>camps := X\<rparr>) = online_inv cfg s"
  "elected_inv cfg (s\<lparr>camps := X\<rparr>) = elected_inv cfg s"
  by (simp_all add: nodes_inv_def online_inv_def elected_inv_def)

lemma inv_resps [simp]:
  "nodes_inv cfg (s\<lparr>resps := X\<rparr>) = nodes_inv cfg s" "online_inv cfg (s\<lparr>resps := X\<rparr>) = online_inv cfg s"
  "elected_inv cfg (s\<lparr>resps := X\<rparr>) = elected_inv cfg s" "votes_inv cfg (s\<lparr>resps := X\<rparr>) = votes_inv cfg s"
  by (simp_all add: nodes_inv_def online_inv_def elected_inv_def votes_inv_def)

lemma votes_unique_insert:
  assumes "votes_unique V" and "\<And>g' l'. (i, g', l') \<in> V \<Longrightarrow> num g' = num g \<Longrightarrow> g' = g"
  shows "votes_unique (insert (i, g, l) V)"
  unfolding votes_unique_def
proof (intro allI impI)
  fix k h m h' m'
  assume "(k, h, m) \<in> insert (i, g, l) V" "(k, h', m') \<in> insert (i, g, l) V" "num h = num h'"
  then show "h = h'"
    using assms(1) [unfolded votes_unique_def] assms(2) by (elim insertE) (simp_all, metis+)
qed

lemma add_vote_inv:
  assumes inv: "cluster_inv cfg s" and i: "i \<in> ids cfg" and lv: "last_vote (nst s i) = g"
    and loi: "last_online_in (nst s i) = l" and g: "gen_ok cfg g" "num g \<noteq> 1"
  shows "cluster_inv cfg (s\<lparr>votes := insert (i, g, l) (votes s)\<rparr>)"
proof -
  have n: "nodes_inv cfg s" and v: "votes_inv cfg s" and r: "resps_inv cfg s" and o: "online_inv cfg s"
    and e: "elected_inv cfg s" using inv by (simp_all add: cluster_inv_def)
  have same: "g' = g" if "(i, g', l') \<in> votes s" "num g' = num g" for g' l'
  proof -
    have "vote_inv (nst s i) g' l'" using v that(1) by (auto simp: votes_inv_def)
    with that(2) lv gen_ok_not_bumped [OF g(1)] show ?thesis by (auto simp: vote_inv_def)
  qed
  have new: "vote_inv (nst s i) g l" using lv loi by (simp add: vote_inv_def)
  have at: "(i, l) \<in> onl s" using nodes_invD(3) [OF n i] loi by simp
  let ?s = "s\<lparr>votes := insert (i, g, l) (votes s)\<rparr>"
  have "votes_inv cfg ?s"
    using v i g new at votes_unique_insert [of "votes s" i g l] same unfolding votes_inv_def by auto
  moreover have "online_inv cfg ?s"
  proof -
    have "kept (insert (i, g, l) (votes s)) k m" if "(k, m) \<in> onl s" for k m
    proof -
      have "m \<le> last_online_in (nst s k)" "kept (votes s) k m" using o that by (auto simp: online_inv_def)
      with loi show ?thesis unfolding kept_def by auto
    qed
    with o show ?thesis unfolding online_inv_def by auto
  qed
  moreover have "elected_inv cfg ?s"
  proof -
    have "won cfg (insert (i, g, l) (votes s)) h d" if "won cfg (votes s) h d" for h d
      using that won_mono by blast
    with e show ?thesis unfolding elected_inv_def by auto
  qed
  moreover have "nodes_inv cfg ?s" using n by (simp add: nodes_inv_def)
  moreover have "resps_inv cfg ?s" using r unfolding resps_inv_def by fastforce
  ultimately show ?thesis by (simp add: cluster_inv_def)
qed

lemma add_camp_inv:
  assumes "cluster_inv cfg s" and "(i, g, l) \<in> votes s"
  shows "cluster_inv cfg (s\<lparr>camps := insert (i, g, l) (camps s)\<rparr>)"
proof -
  have "resps_inv cfg (s\<lparr>camps := insert (i, g, l) (camps s)\<rparr>)"
    using assms(1) unfolding cluster_inv_def resps_inv_def by fastforce
  moreover have "votes_inv cfg (s\<lparr>camps := insert (i, g, l) (camps s)\<rparr>)"
  proof -
    have "votes_inv cfg s" using assms(1) by (simp add: cluster_inv_def)
    then show ?thesis using assms(2) unfolding votes_inv_def by simp
  qed
  ultimately show ?thesis using assms(1) by (simp add: cluster_inv_def)
qed

lemma add_resp_inv:
  assumes "cluster_inv cfg s" and "i \<in> ids cfg"
    and "vr_vote_ok r \<noteq> 0 \<Longrightarrow> \<exists>g l. (j, g, l) \<in> camps s \<and> num g = vr_gen_num r \<and> (i, g, vr_last_online_in r) \<in> votes s"
    and "num (vr_curr_gen r) \<noteq> 0 \<Longrightarrow> (vr_curr_gen r, vr_curr_gen_donors r) \<in> elected s"
  shows "cluster_inv cfg (s\<lparr>resps := insert (j, i, r) (resps s)\<rparr>)"
proof -
  have "resps_inv cfg (s\<lparr>resps := insert (j, i, r) (resps s)\<rparr>)"
    using assms unfolding cluster_inv_def resps_inv_def by auto
  with assms(1) show ?thesis by (simp add: cluster_inv_def)
qed

section \<open>Every step keeps the invariant\<close>

lemma moves_catchup:
  assumes "campaign_catchup me env sg seen st = Some (lagging, st')"
  shows "moves E st st' \<and> last_online_in st' = last_online_in st \<and> MtmGetCurrentGen st' = MtmGetCurrentGen st \<and>
    donors st' = donors st"
proof -
  have "st' = st \<or> (\<exists>m. st' = MtmSetReceiveMode m st)"
    using assms
    by (auto simp: campaign_catchup_def SetCatchupDonor_def Let_def Option.bind_eq_Some_conv
        split: if_splits prod.splits)
  then show ?thesis by (auto simp: moves_def state_prims)
qed

lemma vote_myself_result:
  assumes "vote_myself me mem conf clique st = (st', c)"
  shows "\<exists>g. c = Campaign g (BIT_CLEAR clique (pos me)) (last_online_in st) \<and> last_vote st' = g \<and>
    members g = mem \<and> configured g = conf \<and> last_online_in st' = last_online_in st \<and> moves E st st' \<and>
    (g = last_vote st \<or> num g = num (last_vote st) + 1)"
  using assms
  by (auto simp: vote_myself_def Let_def moves_def state_prims split: if_splits)

lemma no_campaign_moves:
  assumes "CampaignMyself me cfg env st = Some (st', NoCampaign)" and "backup_node_id cfg = MtmInvalidNodeId"
  shows "moves E st st'"
  using assms
proof (cases rule: CampaignMyself_cases)
  case catchup
  then show ?thesis using moves_catchup by blast
next
  case (vote seen clique sg st1 mem)
  from vote_myself_result [OF vote(6)] show ?thesis by blast
qed simp_all

lemma restart_moves:
  assumes "synced old" and "last_saved (trace old) = Some disk" and "MtmStateStartup me disk fresh = Some st'"
  shows "moves E old st'"
proof -
  have disk: "disk = persistent old" using assms(1,2) by (simp add: synced_def)
  obtain st1 where st1: "restore_receive_mode me (MtmStateLoad disk fresh) = Some st1" "st' = finish_logging st1"
    using assms(3) by (auto simp: MtmStateStartup_def)
  obtain m where "st1 = (MtmStateLoad disk fresh)\<lparr>receive_mode := m\<rparr>"
    using restore_receive_mode_sound [OF st1(1)] by blast
  with st1(2) show ?thesis
    by (simp add: moves_def finish_logging_def state_prims MtmStateLoad_def disk)
qed

lemma moves_heartbeat:
  assumes "MtmOnDmqReceiverHeartbeat me name (Some (T_MtmHeartbeat msg)) st = Some st'"
    and "(hb_current_gen msg, hb_donors msg) \<in> E"
  shows "moves E st st'"
proof -
  obtain st1 b l a where st1: "MtmConsiderGenSwitch me (hb_current_gen msg) (hb_donors msg) st = Some st1"
    "st' = wake_if b (st1\<lparr>others_last_online_in := l, connectivity_matrix := a\<rparr>)"
    using assms(1) unfolding MtmOnDmqReceiverHeartbeat_def by (auto simp: Option.bind_eq_Some_conv)
  have "same_gen st1 st'" using st1(2) by (auto intro!: same_gen_wake)
  then have "moves E st1 st'" by (rule moves_same_gen)
  with moves_switch [OF st1(1) assms(2)] show ?thesis by (rule moves_trans)
qed

lemma quiet_node_step: "quiet cfg E i st st' \<Longrightarrow> node_step i cfg st st'"
  by (induction rule: quiet.induct) (blast intro: node_step.intros)+

lemma quiet_moves:
  assumes "quiet cfg E i st st'" and "node_ok st" and "backup_node_id cfg = MtmInvalidNodeId"
  shows "moves E st st'"
  using assms(1)
proof cases
  case caughtup
  then show ?thesis by (simp add: moves_def MtmReportReceiverCaughtup_def MtmGetCurrentGen_def)
next
  case restart
  then show ?thesis using assms(2) restart_moves unfolding node_ok_def by blast
qed (use assms(3) in \<open>auto intro: moves_heartbeat moves_parallel_safe no_campaign_moves moves_same_gen dmq_same_gen\<close>)

lemma local_inv:
  assumes inv: "cluster_inv cfg s" and bk: "backup_node_id cfg = MtmInvalidNodeId"
    and i: "i \<in> ids cfg" and q: "quiet cfg (elected s) i (nst s i) st'"
  shows "cluster_inv cfg (upd i st' {} s)"
proof -
  have ok: "node_ok (nst s i)" using inv nodes_invD(1) [OF _ i] by (simp add: cluster_inv_def)
  from node_ok_step [OF bk ok quiet_node_step [OF q]] quiet_moves [OF q ok bk]
  show ?thesis using upd_inv [OF inv i, of st' "{}"] by simp
qed

text \<open>What a vote request does to the voter and what it answers.\<close>

lemma vote_request_effect:
  assumes "HandleGenVoteRequest i cfg g j dest st = Some st'"
    and "last (trace st') = Send dest ''genvoteresp'' (T_MtmGenVoteResponse r)"
  shows "moves E st st'" and "vr_gen_num r = num g"
    and "vr_vote_ok r \<noteq> 0 \<Longrightarrow> last_vote st' = g \<and> last_online_in st' = vr_last_online_in r"
    and "num (vr_curr_gen r) \<noteq> 0 \<Longrightarrow> vr_curr_gen r = MtmGetCurrentGen st \<and> vr_curr_gen_donors r = donors st"
proof -
  obtain clique st1 where d: "decide_vote i cfg g j clique st = Some (st1, r)"
    and st': "st' = emit (Send dest ''genvoteresp'' (T_MtmGenVoteResponse r)) st1"
    using assms by (auto simp: HandleGenVoteRequest_def Option.bind_eq_Some_conv emit_def)
  have e: "MtmGetCurrentGen st' = MtmGetCurrentGen st1" "donors st' = donors st1"
    "last_vote st' = last_vote st1" "last_online_in st' = last_online_in st1"
    by (simp_all add: st' emit_def MtmGetCurrentGen_def)
  from d have "moves E st st' \<and> vr_gen_num r = num g \<and>
    (vr_vote_ok r \<noteq> 0 \<longrightarrow> last_vote st' = g \<and> last_online_in st' = vr_last_online_in r) \<and>
    (num (vr_curr_gen r) \<noteq> 0 \<longrightarrow> vr_curr_gen r = MtmGetCurrentGen st \<and> vr_curr_gen_donors r = donors st)"
  proof (cases rule: decide_vote_cases)
    case same
    with e show ?thesis by (auto simp: moves_def)
  next
    case new
    from give_vote_effect [OF new(1)] e show ?thesis by (simp add: moves_def)
  qed
  then show "moves E st st'" "vr_gen_num r = num g"
    "vr_vote_ok r \<noteq> 0 \<Longrightarrow> last_vote st' = g \<and> last_online_in st' = vr_last_online_in r"
    "num (vr_curr_gen r) \<noteq> 0 \<Longrightarrow> vr_curr_gen r = MtmGetCurrentGen st \<and> vr_curr_gen_donors r = donors st"
    by blast+
qed

lemma upd_simps [simp]:
  "nst (upd i st' E s) i = st'" "votes (upd i st' E s) = votes s" "camps (upd i st' E s) = camps s"
  "resps (upd i st' E s) = resps s" "elected (upd i st' E s) = elected s \<union> E"
  by (simp_all add: upd_def)

lemma vote_step_inv:
  assumes inv: "cluster_inv cfg s" and i: "i \<in> ids cfg" and c: "(j, g, l) \<in> camps s"
    and h: "HandleGenVoteRequest i cfg g j dest (nst s i) = Some st'"
    and r: "last (trace st') = Send dest ''genvoteresp'' (T_MtmGenVoteResponse r)"
  shows "cluster_inv cfg ((upd i st' {} s)\<lparr>
       votes := (if vr_vote_ok r \<noteq> 0 then insert (i, g, vr_last_online_in r) (votes s) else votes s),
       resps := insert (j, i, r) (resps s)\<rparr>)"
proof -
  note eff = vote_request_effect [OF h r]
  have n: "nodes_inv cfg s" and v: "votes_inv cfg s" using inv by (simp_all add: cluster_inv_def)
  have ok: "node_ok (nst s i)" by (rule nodes_invD(1) [OF n i])
  have g: "gen_ok cfg g" "num g \<noteq> 1" using v c by (auto simp: votes_inv_def)
  from HandleGenVoteRequest_keeps [OF h] ok eff(1)
  have u: "cluster_inv cfg (upd i st' {} s)" by (intro upd_inv [OF inv i]) (auto simp: keeps_def)
  let ?V = "if vr_vote_ok r \<noteq> 0 then insert (i, g, vr_last_online_in r) (votes s) else votes s"
  let ?s = "(upd i st' {} s)\<lparr>votes := ?V\<rparr>"
  have "cluster_inv cfg ?s"
  proof (cases "vr_vote_ok r = 0")
    case True
    with u show ?thesis by (simp add: upd_def)
  next
    case False
    with add_vote_inv [OF u i _ _ g] eff(3) show ?thesis by simp
  qed
  from add_resp_inv [OF this i, of r j]
  show ?thesis using c eff(2,4) nodes_invD(2) [OF n i] by force
qed

lemma ids_pos:
  assumes "cfg_ok cfg" and "i \<in> ids cfg"
  shows "1 \<le> i" and "i \<le> 16" and "pos i \<in> nodes_of (cfg_mask cfg)"
  using assms cfg_ok_mask [OF assms(1)] by (auto simp: cfg_ok_def list_all_iff)

text \<open>The candidate generation of a campaign.\<close>

lemma campaign_effect:
  assumes cfg: "cfg_ok cfg" "backup_node_id cfg = MtmInvalidNodeId" and i: "i \<in> ids cfg"
    and c: "CampaignMyself i cfg env st = Some (st', Campaign g cohort l)"
    and ok: "node_ok st" and cur: "gen_ok cfg (MtmGetCurrentGen st)"
    and lv: "num (last_vote st) = 1 \<Longrightarrow> configured (last_vote st) = 0"
  shows "last_vote st' = g" and "last_online_in st' = l" and "gen_ok cfg g" and "num g \<noteq> 1"
    and "moves E st st'"
proof -
  from c cfg(2) obtain seen clique sg st1 mem where vote: "MtmGetCurrentStatusInGen i st = Some sg"
    "campaign_catchup i env sg seen st = Some (False, st1)"
    "mem = BIT_SET (current_gen_members st1 AND clique) (pos i)"
    "vote_myself i mem (cfg_mask cfg) clique st1 = (st', Campaign g cohort l)"
    by (cases rule: CampaignMyself_cases) auto
  note pos = ids_pos [OF cfg(1) i]
  note cu = moves_catchup [OF vote(2), of E]
  have lv1: "last_vote st1 = last_vote st" by (rule campaign_catchup_keeps(2) [OF vote(2,1)])
  from vote_myself_result [OF vote(4), of E] have g: "last_vote st' = g" "members g = mem"
    "configured g = cfg_mask cfg" "last_online_in st' = l" "moves E st1 st'"
    "g = last_vote st \<or> num g = num (last_vote st) + 1"
    by (auto simp: vote_myself_def Let_def lv1)
  show "last_vote st' = g" "last_online_in st' = l" by (fact g)+
  show "moves E st st'" using cu g(5) moves_trans by blast
  have "current_gen_members st1 = current_gen_members st"
    using cu by (simp add: MtmGetCurrentGen_def)
  then have "nodes_of mem = insert (pos i) (nodes_of (current_gen_members st) \<inter> nodes_of clique)"
    using vote(3) pos by (simp add: nodes_of_BIT_SET nodes_of_and)
  with g cur pos show "gen_ok cfg g" by (auto simp: gen_ok_def MtmGetCurrentGen_def)
  have "num (last_vote st) \<noteq> 0" using ok by (auto simp: node_ok_def gens_ordered_def)
  moreover have "cfg_mask cfg \<noteq> 0" using pos(3) by auto
  ultimately show "num g \<noteq> 1" using g(3,6) lv by auto
qed

lemma campaign_step_inv:
  assumes cfg: "cfg_ok cfg" "backup_node_id cfg = MtmInvalidNodeId" and inv: "cluster_inv cfg s"
    and i: "i \<in> ids cfg" and c: "CampaignMyself i cfg env (nst s i) = Some (st', Campaign g cohort l)"
    and nw: "num (last_vote (nst s i)) \<noteq> - 1"
  shows "cluster_inv cfg ((upd i st' {} s)\<lparr>votes := insert (i, g, l) (votes s), camps := insert (i, g, l) (camps s)\<rparr>)"
proof -
  have n: "nodes_inv cfg s" and e: "elected_inv cfg s" using inv by (simp_all add: cluster_inv_def)
  note ni = nodes_invD [OF n i]
  have cur: "gen_ok cfg (MtmGetCurrentGen (nst s i))" using e ni(2) by (auto simp: elected_inv_def)
  note eff = campaign_effect [OF cfg i c ni(1) cur ni(4)]
  from CampaignMyself_keeps [OF c cfg(2) nw] ni(1) eff(5)
  have "cluster_inv cfg (upd i st' {} s)" by (intro upd_inv [OF inv i]) (auto simp: keeps_def)
  from add_vote_inv [OF this i _ _ eff(3,4)] eff(1,2)
  have "cluster_inv cfg ((upd i st' {} s)\<lparr>votes := insert (i, g, l) (votes s)\<rparr>)" by simp
  from add_camp_inv [OF this, of i g l] show ?thesis by simp
qed

text \<open>Counting the answers to a poll.\<close>

lemma resps_invD:
  assumes "resps_inv cfg s" and "(j, i, r) \<in> resps s"
  shows "i \<in> ids cfg"
    and "vr_vote_ok r \<noteq> 0 \<Longrightarrow>
      \<exists>g l. (j, g, l) \<in> camps s \<and> num g = vr_gen_num r \<and> (i, g, vr_last_online_in r) \<in> votes s"
    and "num (vr_curr_gen r) \<noteq> 0 \<Longrightarrow> (vr_curr_gen r, vr_curr_gen_donors r) \<in> elected s"
  using bspec [OF assms(1) [unfolded resps_inv_def] assms(2)] by simp_all

lemma votes_invD:
  assumes "votes_inv cfg s"
  shows "(i, g, l) \<in> votes s \<Longrightarrow> (i, g', l') \<in> votes s \<Longrightarrow> num g = num g' \<Longrightarrow> g = g'"
    and "camps s \<subseteq> votes s"
proof -
  have "votes_unique (votes s)" and c: "camps s \<subseteq> votes s" using assms by (simp_all add: votes_inv_def)
  then show "(i, g, l) \<in> votes s \<Longrightarrow> (i, g', l') \<in> votes s \<Longrightarrow> num g = num g' \<Longrightarrow> g = g'"
    unfolding votes_unique_def by iprover
  show "camps s \<subseteq> votes s" by (fact c)
qed

lemma tour_moves:
  assumes t: "CampaignTour i cfg dest' g cohort l msgs st = Some st'"
    and E: "\<forall>(k, r)\<in>set msgs. num (vr_curr_gen r) \<noteq> 0 \<longrightarrow> (vr_curr_gen r, vr_curr_gen_donors r) \<in> E"
    and w: "t = tour_count g msgs (tour_start i g l)" "tour_won cfg t \<Longrightarrow> (g, tour_donors t) \<in> E"
  shows "moves E st st'"
  using t
proof (rule CampaignTour_stages)
  fix st0 t' st1 st2
  assume st: "st0 = st\<lparr>trace := trace st @ scatter cfg dest' cohort ''reqresp'' (T_MtmGenVoteRequest \<lparr>vq_gen = g\<rparr>)\<rparr>"
    "process_responses i g msgs (tour_start i g l) st0 = Some (t', st1)"
    "(if tour_won cfg t' then MtmConsiderGenSwitch i g (tour_donors t') st1 else Some st1) = Some st2"
    "st' = (bump_last_vote t' st2)\<lparr>campaigner_on_tour := False\<rparr>"
  have t': "t' = t" using process_responses_count [OF st(2)] w(1) by simp
  have "moves E st st0" using st(1) by (simp add: moves_def MtmGetCurrentGen_def)
  moreover have "moves E st0 st1" by (rule moves_process_responses [OF st(2) E])
  moreover have "moves E st1 st2" using st(3) w(2) by (auto simp: t' split: if_splits intro: moves_switch)
  moreover have "moves E st2 st'"
    using st(4) by (simp add: moves_def bump_last_vote_def state_prims)
  ultimately show ?thesis using moves_trans by blast
qed

lemma tour_votes:
  assumes inv: "votes_inv cfg s" "resps_inv cfg s" and c: "(i, g, l) \<in> camps s"
    and m: "\<forall>(k, r)\<in>set msgs. (i, k, r) \<in> resps s \<and> vr_gen_num r = num g"
    and x: "(k, x) \<in> set (ok_votes g msgs)"
  shows "(k, g, x) \<in> votes s"
proof -
  from x obtain r where r: "(k, r) \<in> set msgs" "vr_vote_ok r \<noteq> 0" "x = vr_last_online_in r"
    by (auto simp: ok_votes_def)
  from m r(1) have "(i, k, r) \<in> resps s" "vr_gen_num r = num g" by auto
  with resps_invD [OF inv(2)] r(2,3)
  obtain g' l' where g': "(i, g', l') \<in> camps s" "num g' = num g" "(k, g', x) \<in> votes s" by metis
  have "(i, g, l) \<in> votes s" "(i, g', l') \<in> votes s" using votes_invD(2) [OF inv(1)] c g'(1) by blast+
  with g'(2) have "g' = g" using votes_invD(1) [OF inv(1)] by metis
  with g'(3) show ?thesis by simp
qed

lemma tour_won_votes:
  assumes cfg: "cfg_ok cfg" and i: "i \<in> ids cfg" and inv: "votes_inv cfg s" "resps_inv cfg s"
    and c: "(i, g, l) \<in> camps s" and d: "distinct (map fst msgs)" "i \<notin> fst ` set msgs"
    and m: "\<forall>(k, r)\<in>set msgs. (i, k, r) \<in> resps s \<and> vr_gen_num r = num g"
    and t: "t = tour_count g msgs (tour_start i g l)" "tour_won cfg t"
  shows "won cfg (votes s) g (tour_donors t)"
proof -
  let ?ws = "(i, l) # ok_votes g msgs"
  have r: "1 \<le> k \<and> k \<le> 16" if "(k, r) \<in> set msgs" for k r
  proof -
    have "(i, k, r) \<in> resps s" using m that by blast
    then have "k \<in> ids cfg" by (rule resps_invD(1) [OF inv(2)])
    then show ?thesis using ids_pos [OF cfg] by blast
  qed
  have "tour_inv t ([(i, l)] @ ok_votes g msgs)"
    unfolding t(1) using r ids_pos(1,2) [OF cfg i] by (intro tour_count_inv tour_start_inv) auto
  then have inv_t: "tour_inv t ?ws" by simp
  have dist: "distinct (map fst ?ws)"
    using ok_votes_distinct [OF d(1), of g] ok_votes_fst [of g msgs] d(2) by auto
  have in_votes: "\<forall>(k, x)\<in>set ?ws. (k, g, x) \<in> votes s"
    using tour_votes [OF inv c m] c votes_invD(2) [OF inv(1)] by auto
  show ?thesis unfolding won_def
    by (rule exI [of _ ?ws], rule exI [of _ "max_last_online_in t"])
      (use inv_t dist in_votes t(2) in \<open>auto simp: tour_inv_def tour_won_def MtmQuorum_def\<close>)
qed

lemma tour_step_inv:
  assumes cfg: "cfg_ok cfg" and inv: "cluster_inv cfg s" and i: "i \<in> ids cfg" and c: "(i, g, l) \<in> camps s"
    and d: "distinct (map fst msgs)" "i \<notin> fst ` set msgs"
    and m: "\<forall>(k, r)\<in>set msgs. (i, k, r) \<in> resps s \<and> vr_gen_num r = num g"
    and st': "CampaignTour i cfg dest' g cohort l msgs (nst s i) = Some st'"
    and t: "t = tour_count g msgs (tour_start i g l)"
  shows "cluster_inv cfg (upd i st' (if tour_won cfg t then {(g, tour_donors t)} else {}) s)"
proof -
  have n: "nodes_inv cfg s" and v: "votes_inv cfg s" and r: "resps_inv cfg s"
    using inv by (simp_all add: cluster_inv_def)
  let ?E = "if tour_won cfg t then {(g, tour_donors t)} else {}"
  have "node_ok st'" "evolves (nst s i) st'"
    using CampaignTour_keeps [OF st'] nodes_invD(1) [OF n i] by (auto simp: keeps_def)
  moreover have "moves (elected s \<union> ?E) (nst s i) st'"
    using m resps_invD(3) [OF r] by (intro tour_moves [OF st' _ t]) auto
  moreover have "gen_ok cfg g" "num g \<noteq> 1" using v c by (auto simp: votes_inv_def)
  moreover have "tour_won cfg t \<Longrightarrow> won cfg (votes s) g (tour_donors t)"
    by (rule tour_won_votes [OF cfg i v r c d m t])
  ultimately show ?thesis by (intro upd_inv [OF inv i]) auto
qed

lemma cstep_inv:
  assumes "cstep cfg s s'" and "cfg_ok cfg" and "backup_node_id cfg = MtmInvalidNodeId"
    and "cluster_inv cfg s"
  shows "cluster_inv cfg s'"
  using assms(1)
proof cases
  case local
  then show ?thesis using local_inv assms by blast
next
  case vote
  then show ?thesis using vote_step_inv assms(4) by blast
next
  case campaign
  then show ?thesis using campaign_step_inv assms(2-4) by blast
next
  case tour
  then show ?thesis using tour_step_inv assms(2,4) by blast
qed

end
