(* ===== verification/Gen_Safety.thy ===== *)
theory Gen_Safety
  imports Gen_Cluster
begin

text \<open>
  Safety of generation elections in the cluster of \<open>Gen_Cluster\<close>: a number is elected once, the
  donors of a generation have everything committed before it, and no node ever runs into the
  internal error that two generations share a number. A concrete run with three nodes, of which
  two elect a generation without the third, shows that the hypotheses can hold.
\<close>

section \<open>Elections\<close>

lemma ids_card: "cfg_ok cfg \<Longrightarrow> card (ids cfg) = n_nodes cfg"
  unfolding cfg_ok_def n_nodes_def by (metis distinct_card length_map set_map)

lemma init_cluster_inv:
  assumes "cfg_ok cfg" and "init_cluster cfg s"
  shows "cluster_inv cfg s"
proof -
  have me: "pos (my_node_id cfg) \<in> nodes_of (cfg_mask cfg)"
    using assms(1) by (intro ids_pos(3)) (auto simp: cfg_ok_def)
  then have "0 < popcount (cfg_mask cfg)" unfolding popcount_card by (auto simp: card_gt_0_iff)
  then have "Suc (popcount (cfg_mask cfg) div 2) \<le> popcount (cfg_mask cfg)" by linarith
  then have v: "viable (first_gen cfg)" by (simp add: viable_def first_gen_def Quorum_def)
  have g: "gen_ok cfg (first_gen cfg)" using me by (auto simp: gen_ok_def first_gen_def)
  have i: "node_ok (nst s i) \<and> MtmGetCurrentGen (nst s i) = first_gen cfg \<and>
        donors (nst s i) = cfg_mask cfg \<and> last_online_in (nst s i) = 1 \<and>
        num (last_vote (nst s i)) = 1 \<and> configured (last_vote (nst s i)) = 0" if "i \<in> ids cfg" for i
    using assms(2) that unfolding init_cluster_def by blast
  have rest: "votes s = {}" "camps s = {}" "resps s = {}" "elected s = {(first_gen cfg, cfg_mask cfg)}"
    "onl s = ids cfg \<times> {1}" using assms(2) by (simp_all add: init_cluster_def)
  have "nodes_inv cfg s" unfolding nodes_inv_def rest using i by simp
  moreover have "votes_inv cfg s" "resps_inv cfg s" "elected_inv cfg s"
    using g by (simp_all add: votes_inv_def votes_unique_def resps_inv_def elected_inv_def rest)
  moreover have "online_inv cfg s"
    unfolding online_inv_def rest using i v by (auto simp: kept_def first_gen_def)
  ultimately show ?thesis by (simp add: cluster_inv_def)
qed

lemma reachable_inv:
  assumes "(cstep cfg)\<^sup>*\<^sup>* s0 s" and "init_cluster cfg s0" and "cfg_ok cfg"
    and "backup_node_id cfg = MtmInvalidNodeId"
  shows "cluster_inv cfg s"
  using assms(1)
proof (induction rule: rtranclp_induct)
  case base
  show ?case by (rule init_cluster_inv [OF assms(3,2)])
next
  case (step s1 s2)
  show ?case by (rule cstep_inv [OF step(2) assms(3,4) step(3)])
qed

lemma votes_invI:
  assumes "votes_inv cfg s" and "(i, g, l) \<in> votes s"
  shows "i \<in> ids cfg" and "(i, l) \<in> onl s"
  using bspec [OF conjunct1 [OF assms(1) [unfolded votes_inv_def]] assms(2)] by simp_all

text \<open>The voters of an election form a quorum.\<close>

lemma won_voters:
  assumes cfg: "cfg_ok cfg" and v: "votes_inv cfg s" and w: "won cfg (votes s) g d"
  obtains W top where "W \<subseteq> ids cfg" and "Quorum (card (ids cfg)) (card W)"
    and "\<forall>i\<in>W. \<exists>l\<le>top. (i, g, l) \<in> votes s"
    and "nodes_of d \<noteq> {}" and "\<forall>k\<in>nodes_of d. (int k + 1, top) \<in> onl s"
proof -
  from w obtain ws top where ws: "distinct (map fst ws)" "\<forall>(i, l)\<in>set ws. (i, g, l) \<in> votes s"
    "Quorum (n_nodes cfg) (length ws)" "\<forall>(i, l)\<in>set ws. l \<le> top" "top \<in> snd ` set ws"
    "nodes_of d = pos ` {i. (i, top) \<in> set ws}" unfolding won_def by blast
  show thesis
  proof (rule that [of "fst ` set ws" top])
    show "fst ` set ws \<subseteq> ids cfg" using ws(2) votes_invI(1) [OF v] by auto
    show "Quorum (card (ids cfg)) (card (fst ` set ws))"
      using ws(1,3) ids_card [OF cfg] by (metis distinct_card length_map set_map)
    show "\<forall>i\<in>fst ` set ws. \<exists>l\<le>top. (i, g, l) \<in> votes s" using ws(2,4) by fastforce
    show "nodes_of d \<noteq> {}" using ws(5,6) by force
    show "\<forall>k\<in>nodes_of d. (int k + 1, top) \<in> onl s"
    proof
      fix k
      assume k: "k \<in> nodes_of d"
      obtain i where i: "(i, top) \<in> set ws" "k = pos i" using k ws(6) by auto
      then have "(i, g, top) \<in> votes s" using ws(2) by blast
      note vi = votes_invI [OF v this]
      from ids_pos(1) [OF cfg vi(1)] i(2) have "int k + 1 = i" by simp
      with vi(2) show "(int k + 1, top) \<in> onl s" by simp
    qed
  qed
qed

lemma elected_invD:
  assumes "elected_inv cfg s" and "(g, d) \<in> elected s"
  shows "gen_ok cfg g" and "g = first_gen cfg \<or> num g \<noteq> 1 \<and> won cfg (votes s) g d"
  using bspec [OF assms(1) [unfolded elected_inv_def] assms(2)] by simp_all

lemma elected_unique_inv:
  assumes cfg: "cfg_ok cfg" and inv: "cluster_inv cfg s"
    and g: "(g, d) \<in> elected s" "(g', d') \<in> elected s" "num g = num g'"
  shows "g = g'"
proof -
  have e: "elected_inv cfg s" and v: "votes_inv cfg s" using inv by (simp_all add: cluster_inv_def)
  have one: "num (first_gen cfg) = 1" by (simp add: first_gen_def)
  note D = elected_invD(2) [OF e g(1)] elected_invD(2) [OF e g(2)]
  show ?thesis
  proof (cases "g = first_gen cfg \<or> g' = first_gen cfg")
    case True
    with D one g(3) show ?thesis by auto
  next
    case False
    with D have w: "won cfg (votes s) g d" "won cfg (votes s) g' d'" by blast+
    obtain W top where W: "W \<subseteq> ids cfg" "Quorum (card (ids cfg)) (card W)"
      "\<forall>i\<in>W. \<exists>l\<le>top. (i, g, l) \<in> votes s" "nodes_of d \<noteq> {}"
      "\<forall>k\<in>nodes_of d. (int k + 1, top) \<in> onl s"
      by (rule won_voters [OF cfg v w(1)])
    obtain W' top' where W': "W' \<subseteq> ids cfg" "Quorum (card (ids cfg)) (card W')"
      "\<forall>i\<in>W'. \<exists>l\<le>top'. (i, g', l) \<in> votes s" "nodes_of d' \<noteq> {}"
      "\<forall>k\<in>nodes_of d'. (int k + 1, top') \<in> onl s"
      by (rule won_voters [OF cfg v w(2)])
    have "finite (ids cfg)" by simp
    from Quorum_intersect [OF this W(1) W'(1) W(2) W'(2)] obtain i where i: "i \<in> W" "i \<in> W'" by blast
    from bspec [OF W(3) i(1)] bspec [OF W'(3) i(2)]
    obtain l l' where "(i, g, l) \<in> votes s" "(i, g', l') \<in> votes s" by blast
    then show ?thesis by (rule votes_invD(1) [OF v _ _ g(3)])
  qed
qed

text \<open>
  C2. Elections are unambiguous: in no execution of the cluster (messages lost, repeated, delayed
  or reordered, nodes crashing and restarting from their state files) are two different
  generations with the same number elected, so a generation number alone identifies its members.
\<close>

theorem elected_unique:
  assumes "(cstep cfg)\<^sup>*\<^sup>* s0 s" and "init_cluster cfg s0" and "cfg_ok cfg"
    and "backup_node_id cfg = MtmInvalidNodeId"
    and "(g, d) \<in> elected s" and "(g', d') \<in> elected s" and "num g = num g'"
  shows "g = g'"
  by (rule elected_unique_inv [OF assms(3) reachable_inv [OF assms(1-4)] assms(5-7)])

text \<open>A generation in which some node has been online has a majority, unless a referee granted it.\<close>

lemma online_gen_quorum:
  assumes cfg: "cfg_ok cfg" and inv: "cluster_inv cfg s" and n: "n_nodes cfg \<noteq> 2"
    and h: "(h, d) \<in> elected s" and on: "(i, num h) \<in> onl s"
  shows "Quorum (n_nodes cfg) (popcount (members h))"
proof -
  have o: "online_inv cfg s" and e: "elected_inv cfg s" using inv by (simp_all add: cluster_inv_def)
  from bspec [OF o [unfolded online_inv_def] on] obtain h' d' where
    h': "(h', d') \<in> elected s" "num h' = num h" "viable h'" by auto
  then have "h' = h" using elected_unique_inv [OF cfg inv _ h] by blast
  moreover have "configured h = cfg_mask cfg" using elected_invD(1) [OF e h] by (simp add: gen_ok_def)
  ultimately show ?thesis
    using h'(3) n cfg_ok_popcount [OF cfg] by (simp add: viable_def IS_REFEREE_GEN_def)
qed

lemma onl_kept: "online_inv cfg s \<Longrightarrow> (i, m) \<in> onl s \<Longrightarrow> kept (votes s) i m"
  unfolding online_inv_def by fast

lemma members_ids:
  assumes cfg: "cfg_ok cfg" and g: "gen_ok cfg h"
  shows "{i\<in>ids cfg. pos i \<in> nodes_of (members h)} \<subseteq> ids cfg"
    and "card {i\<in>ids cfg. pos i \<in> nodes_of (members h)} = popcount (members h)"
proof -
  let ?M = "{i\<in>ids cfg. pos i \<in> nodes_of (members h)}"
  have "int (pos i) + 1 = i" if "i \<in> ids cfg" for i using ids_pos(1) [OF cfg that] by simp
  then have "inj_on pos ?M" by (intro inj_on_inverseI [of _ "\<lambda>k. int k + 1"]) blast
  moreover have "pos ` ?M = nodes_of (members h)"
    using g cfg_ok_mask [OF cfg] by (force simp: gen_ok_def)
  ultimately show "card ?M = popcount (members h)" by (metis card_image popcount_card)
qed simp

lemma skipped_gen:
  assumes cfg: "cfg_ok cfg" and inv: "cluster_inv cfg s" and n: "n_nodes cfg \<noteq> 2"
    and W: "W \<subseteq> ids cfg" "Quorum (card (ids cfg)) (card W)" "\<forall>i\<in>W. \<exists>l\<le>tp. (i, g, l) \<in> votes s"
    and h: "(h, d) \<in> elected s" "tp < num h" "num h < num g"
  shows "\<exists>i\<in>ids cfg. pos i \<in> nodes_of (members h) \<and> (i, num h) \<notin> onl s"
proof (rule ccontr)
  let ?M = "{i\<in>ids cfg. pos i \<in> nodes_of (members h)}"
  assume "\<not> ?thesis"
  then have on: "\<forall>i\<in>?M. (i, num h) \<in> onl s" by blast
  have o: "online_inv cfg s" and e: "elected_inv cfg s" using inv by (simp_all add: cluster_inv_def)
  have gh: "gen_ok cfg h" by (rule elected_invD(1) [OF e h(1)])
  note M = members_ids [OF cfg gh]
  have "0 < popcount (members h)"
    using gh unfolding popcount_card gen_ok_def by (simp add: card_gt_0_iff)
  then obtain i where "i \<in> ?M" using M(2) by (metis card_gt_0_iff ex_in_conv)
  with on have "Quorum (n_nodes cfg) (popcount (members h))"
    using online_gen_quorum [OF cfg inv n h(1)] by blast
  then have "Quorum (card (ids cfg)) (card ?M)" using M(2) ids_card [OF cfg] by simp
  from Quorum_intersect [OF _ M(1) W(1) this W(2)] obtain k where k: "k \<in> ?M" "k \<in> W" by auto
  from bspec [OF W(3) k(2)] obtain l where l: "l \<le> tp" "(k, g, l) \<in> votes s" by blast
  from onl_kept [OF o] on k(1) l(2) have "num h \<le> l \<or> num g \<le> num h" unfolding kept_def by blast
  with l(1) h(2,3) show False by (meson leD order_trans)
qed


lemma elected_donors:
  assumes "cfg_ok cfg" and "cluster_inv cfg s" and "(g, d) \<in> elected s" and "g \<noteq> first_gen cfg"
  shows "nodes_of d \<noteq> {}"
proof -
  have v: "votes_inv cfg s" and e: "elected_inv cfg s" using assms(2) by (simp_all add: cluster_inv_def)
  have "won cfg (votes s) g d" using elected_invD(2) [OF e assms(3)] assms(4) by blast
  from won_voters [OF assms(1) v this] show ?thesis by metis
qed

text \<open>
  C26. Whatever generation a node learns of, \<open>MtmConsiderGenSwitch\<close> handles it: neither the
  assertion that a number determines its generation nor the one that there is a donor fails.
\<close>

theorem switch_never_fails:
  assumes "(cstep cfg)\<^sup>*\<^sup>* s0 s" and "init_cluster cfg s0" and "cfg_ok cfg"
    and "backup_node_id cfg = MtmInvalidNodeId"
    and "i \<in> ids cfg" and "(g, d) \<in> elected s"
  shows "\<exists>st'. MtmConsiderGenSwitch i g d (nst s i) = Some st'"
proof -
  note inv = reachable_inv [OF assms(1-4)]
  have n: "nodes_inv cfg s" using inv by (simp add: cluster_inv_def)
  note ni = nodes_invD [OF n assms(5)]
  let ?st = "nst s i"
  have same: "current_gen_members ?st = members g \<and> current_gen_configured ?st = configured g"
    if "current_gen_num ?st = num g"
  proof -
    have "MtmGetCurrentGen ?st = g"
      using elected_unique_inv [OF assms(3) inv ni(2) assms(6)] that by (simp add: MtmGetCurrentGen_def)
    then have "members (MtmGetCurrentGen ?st) = members g" "configured (MtmGetCurrentGen ?st) = configured g"
      by simp_all
    then show ?thesis by (simp add: MtmGetCurrentGen_def)
  qed
  have cur: "current_gen_num ?st \<noteq> 0" using ni(1) by (auto simp: node_ok_def gens_ordered_def)
  have "0 < first_set_bit d + 1" if "current_gen_num ?st < num g"
  proof -
    have "1 \<le> current_gen_num ?st" using cur by (simp add: word_le_nat_alt Suc_le_eq unat_gt_0)
    with that have "g \<noteq> first_gen cfg" by (auto simp: first_gen_def)
    from elected_donors [OF assms(3) inv assms(6) this] first_set_bit_nonneg_iff [of d] show ?thesis by linarith
  qed
  with same cur show ?thesis by (auto simp: MtmConsiderGenSwitch_def Let_def not_le)
qed

section \<open>A run\<close>

text \<open>Nodes 1 and 2 of three have lost the connection with node 3.\<close>

definition peer :: "int \<Rightarrow> int \<Rightarrow> MtmState" where
  "peer i j = (started i 3)\<lparr>dmq_receivers_mask := BIT_SET 0 (pos j), dmq_senders_mask := BIT_SET 0 (pos j),
     connectivity_matrix := (replicate 16 0)[pos j := BIT_SET 0 (pos i)]\<rparr>"

abbreviation "cfg3 \<equiv> sample_cfg [1, 2, 3]"

lemma peer_sees: "i < 16 \<Longrightarrow> sees 1 (peer 1 2) i j \<longleftrightarrow> i = 0 \<and> j = 1 \<or> i = 1 \<and> j = 0"
  "i < 16 \<Longrightarrow> sees 2 (peer 2 1) i j \<longleftrightarrow> i = 0 \<and> j = 1 \<or> i = 1 \<and> j = 0"
  by (auto simp: sees_def peer_def MtmGetConnectedMask_def bit_simps mask_simps nth_list_update)

lemma peer_known: "known_node 1 (peer 1 2)" "known_node 2 (peer 2 1)"
  by (simp_all add: known_node_def peer_def)

lemma peer_clique: "MtmGetConnectivityClique 1 (peer 1 2) = Some 3" "MtmGetConnectivityClique 2 (peer 2 1) = Some 3"
proof -
  have 3: "(3 :: nodemask_t) = BIT_SET (BIT_SET 0 0) 1" by code_simp
  show "MtmGetConnectivityClique 1 (peer 1 2) = Some 3" unfolding 3
    by (rule MtmGetConnectivityClique_pair [OF peer_known(1)]) (auto simp: peer_sees)
  show "MtmGetConnectivityClique 2 (peer 2 1) = Some 3" unfolding 3
    by (rule MtmGetConnectivityClique_pair [OF peer_known(2)]) (auto simp: peer_sees)
qed

definition quiet_env :: campaign_env where
  "quiet_env = \<lparr>referee_enabled = False, replier_loaded = True, heartbeat_recv_timeout = 1000, cur_time = 0\<rparr>"

definition split1 :: MtmState where "split1 = fst (vote_myself 1 3 7 3 (peer 1 2))"

lemma split_campaign: "CampaignMyself 1 cfg3 quiet_env (peer 1 2) = Some (split1, Campaign gen2 2 1)"
  unfolding CampaignMyself_def peer_clique by code_simp

definition yes2 :: MtmGenVoteResponse where
  "yes2 = (no_response 2)\<lparr>vr_vote_ok := 1, vr_last_online_in := 1\<rparr>"

lemma split_vote: "\<exists>st. HandleGenVoteRequest 2 cfg3 gen2 1 5 (peer 2 1) = Some st \<and>
  last (trace st) = Send 5 ''genvoteresp'' (T_MtmGenVoteResponse yes2)"
proof -
  have "Option.bind (Some (3::nodemask_t)) (\<lambda>c. Option.bind (decide_vote 2 cfg3 gen2 1 c (peer 2 1))
     (\<lambda>(st, resp). Some (emit (Send 5 ''genvoteresp'' (T_MtmGenVoteResponse resp)) st))) =
    Some (emit (Send 5 ''genvoteresp'' (T_MtmGenVoteResponse yes2)) (MtmStateSave ((peer 2 1)\<lparr>last_vote := gen2\<rparr>)))"
    by code_simp
  then show ?thesis unfolding HandleGenVoteRequest_def peer_clique by (simp add: emit_def)
qed

lemma split_tour: "CampaignTour 1 cfg3 (\<lambda>i. i) gen2 2 1 [(2, yes2)] split1 \<noteq> None"
  by code_simp

lemma split_won: "tour_won cfg3 (tour_count gen2 [(2, yes2)] (tour_start 1 gen2 1))"
  "tour_donors (tour_count gen2 [(2, yes2)] (tour_start 1 gen2 1)) = 3"
  by code_simp+

definition split0 :: cluster where
  "split0 = \<lparr>nst = (\<lambda>i. if i = 1 then peer 1 2 else if i = 2 then peer 2 1 else started 3 3),
     votes = {}, camps = {}, resps = {}, elected = {(first_gen cfg3, 7)}, onl = {1, 2, 3} \<times> {1}\<rparr>"

lemma split_nodes: "node_ok (peer 1 2)" "node_ok (peer 2 1)" "node_ok (started 3 3)"
  by code_simp+

lemma split_init: "init_cluster cfg3 split0"
proof -
  have fg: "first_gen cfg3 = \<lparr>num = 1, members = 7, configured = 7\<rparr>" "cfg_mask cfg3 = 7" by code_simp+
  have p: "MtmGetCurrentGen st = \<lparr>num = 1, members = 7, configured = 7\<rparr> \<and> donors st = 7 \<and>
     last_online_in st = 1 \<and> num (last_vote st) = 1 \<and> configured (last_vote st) = 0"
    if "st = peer 1 2 \<or> st = peer 2 1 \<or> st = started 3 3" for st
    using that by (elim disjE; hypsubst; code_simp)
  show ?thesis unfolding init_cluster_def split0_def fg using split_nodes p
    by (simp add: sample_cfg_def)
qed

lemma split_cfg: "cfg_ok cfg3" "backup_node_id cfg3 = MtmInvalidNodeId" "n_nodes cfg3 \<noteq> 2" "ids cfg3 = {1, 2, 3}"
  by (code_simp, auto simp: sample_cfg_def n_nodes_def)

text \<open>Node 1 campaigns, node 2 votes, node 1 counts the vote: generation 2 without node 3.\<close>

lemma split_run: "\<exists>s. (cstep cfg3)\<^sup>*\<^sup>* split0 s \<and> (gen2, 3) \<in> elected s"
proof -
  have nst0: "nst split0 1 = peer 1 2" "nst split0 2 = peer 2 1" by (simp_all add: split0_def)
  let ?s1 = "(upd 1 split1 {} split0)\<lparr>votes := insert (1, gen2, 1) (votes split0),
    camps := insert (1, gen2, 1) (camps split0)\<rparr>"
  have "num (last_vote (peer 1 2)) \<noteq> - 1" by code_simp
  then have s1: "cstep cfg3 split0 ?s1"
    using split_campaign by (intro cstep.campaign) (simp_all add: split_cfg nst0)
  obtain st2 where st2: "HandleGenVoteRequest 2 cfg3 gen2 1 5 (peer 2 1) = Some st2"
    "last (trace st2) = Send 5 ''genvoteresp'' (T_MtmGenVoteResponse yes2)" using split_vote by blast
  define s2 where "s2 = (upd 2 st2 {} ?s1)\<lparr>
       votes := (if vr_vote_ok yes2 \<noteq> 0 then insert (2, gen2, vr_last_online_in yes2) (votes ?s1) else votes ?s1),
       resps := insert (1, 2, yes2) (resps ?s1)\<rparr>"
  have nst1: "nst ?s1 2 = peer 2 1" by (simp add: upd_def nst0)
  have s2: "cstep cfg3 ?s1 s2" unfolding s2_def
    by (rule cstep.vote [of 2 _ 1 gen2 1]) (use st2 nst1 in \<open>simp_all add: split_cfg\<close>)
  obtain st3 where st3: "CampaignTour 1 cfg3 (\<lambda>i. i) gen2 2 1 [(2, yes2)] split1 = Some st3"
    using split_tour by blast
  have nst2: "nst s2 1 = split1" by (simp add: s2_def upd_def)
  have s3: "cstep cfg3 s2 (upd 1 st3 (if tour_won cfg3 (tour_count gen2 [(2, yes2)] (tour_start 1 gen2 1))
      then {(gen2, tour_donors (tour_count gen2 [(2, yes2)] (tour_start 1 gen2 1)))} else {}) s2)"
    by (rule cstep.tour [of 1 _ gen2 1 _ "[(2, yes2)]"])
      (use st3 in \<open>simp_all add: split_cfg nst2\<close>, simp_all add: s2_def yes2_def no_response_def gen2_def)
  have s3: "cstep cfg3 s2 (upd 1 st3 {(gen2, 3)} s2)" using s3 split_won by simp
  have "(cstep cfg3)\<^sup>*\<^sup>* split0 (upd 1 st3 {(gen2, 3)} s2)"
    using s1 s2 s3 by (meson converse_rtranclp_into_rtranclp rtranclp.rtrancl_refl)
  moreover have "(gen2, 3) \<in> elected (upd 1 st3 {(gen2, 3)} s2)" by simp
  ultimately show ?thesis by blast
qed

theorem elected_unique_witness:
  "\<exists>s. (cstep cfg3)\<^sup>*\<^sup>* split0 s \<and> {g. \<exists>d. (g, d) \<in> elected s \<and> num g = 2} = {gen2}"
proof -
  obtain s where s: "(cstep cfg3)\<^sup>*\<^sup>* split0 s" "(gen2, 3) \<in> elected s" using split_run by blast
  have "g = gen2" if "(g, d) \<in> elected s" "num g = 2" for g d
    by (rule elected_unique [OF s(1) split_init split_cfg(1,2) that(1) s(2)]) (simp add: that gen2_def)
  moreover have "num gen2 = 2" by (simp add: gen2_def)
  ultimately have "{g. \<exists>d. (g, d) \<in> elected s \<and> num g = 2} = {gen2}" using s(2) by blast
  with s(1) show ?thesis by blast
qed


theorem switch_never_fails_witness:
  "\<exists>s st'. (cstep cfg3)\<^sup>*\<^sup>* split0 s \<and> MtmConsiderGenSwitch 3 gen2 3 (nst s 3) = Some st'"
proof -
  obtain s where s: "(cstep cfg3)\<^sup>*\<^sup>* split0 s" "(gen2, 3) \<in> elected s" using split_run by blast
  with switch_never_fails [OF s(1) split_init split_cfg(1,2) _ s(2), of 3] show ?thesis
    by (auto simp: split_cfg)
qed

end
