(* ===== verification/Prepare_Barrier.thy ===== *)
theory Prepare_Barrier
  imports Mtm_Prelude
begin

text \<open>
  The prepare barrier of \<open>src/src/state.c\<close> (\<open>AcquirePBByPreparer\<close>, \<open>AcquirePBByHolder\<close>,
  \<open>ReleasePB\<close>), by which a generation switch excludes concurrent PREPAREs. The counters are shared
  by all processes and every section under the spinlock is one step; the mode in which a process
  has acquired the barrier is its own. A process that sleeps on the condition variable repeats its
  check, so a check that fails is a step that changes nothing.
\<close>

section \<open>State and operations\<close>

datatype PrepareBarrierMode =
  PB_NONE | PB_APPLY_PREPARER | PB_BACKEND_PREPARER | PB_BACKEND_HOLDER | PB_FULL_HOLDER

record barrier =
  n_apply_preparers :: int
  n_backend_preparers :: int
  n_backend_holders :: int
  n_full_holders :: int

text \<open>One round of the loop of a preparer, with the mode it leaves; it goes on while the mode is none.\<close>

definition preparer_round :: "bool \<Rightarrow> barrier \<Rightarrow> barrier \<times> PrepareBarrierMode" where
  "preparer_round backend b =
     (if backend
      then if n_backend_holders b = 0 \<and> n_full_holders b = 0
           then (b\<lparr>n_backend_preparers := n_backend_preparers b + 1\<rparr>, PB_BACKEND_PREPARER)
           else (b, PB_NONE)
      else if n_full_holders b = 0
           then (b\<lparr>n_apply_preparers := n_apply_preparers b + 1\<rparr>, PB_APPLY_PREPARER)
           else (b, PB_NONE))"

text \<open>A holder first announces itself, then waits until the preparers it excludes are gone.\<close>

definition holder_announce :: "bool \<Rightarrow> barrier \<Rightarrow> barrier \<times> PrepareBarrierMode" where
  "holder_announce full b =
     (if full then (b\<lparr>n_full_holders := n_full_holders b + 1\<rparr>, PB_FULL_HOLDER)
      else (b\<lparr>n_backend_holders := n_backend_holders b + 1\<rparr>, PB_BACKEND_HOLDER))"

definition holder_done :: "bool \<Rightarrow> barrier \<Rightarrow> bool" where
  "holder_done full b = (n_backend_preparers b = 0 \<and> (\<not> full \<or> n_apply_preparers b = 0))"

definition ReleasePB :: "PrepareBarrierMode \<Rightarrow> barrier \<Rightarrow> barrier \<times> PrepareBarrierMode" where
  "ReleasePB mode b = (case mode of
     PB_NONE \<Rightarrow> (b, PB_NONE)
   | PB_APPLY_PREPARER \<Rightarrow> (b\<lparr>n_apply_preparers := n_apply_preparers b - 1\<rparr>, PB_NONE)
   | PB_BACKEND_PREPARER \<Rightarrow> (b\<lparr>n_backend_preparers := n_backend_preparers b - 1\<rparr>, PB_NONE)
   | PB_BACKEND_HOLDER \<Rightarrow> (b\<lparr>n_backend_holders := n_backend_holders b - 1\<rparr>, PB_NONE)
   | PB_FULL_HOLDER \<Rightarrow> (b\<lparr>n_full_holders := n_full_holders b - 1\<rparr>, PB_NONE))"

section \<open>Processes\<close>

text \<open>
  A process is identified by a number; \<open>entered\<close> says that it has returned from the acquisition.
\<close>

record pb_system =
  bar :: barrier
  pb_mode :: "nat \<Rightarrow> PrepareBarrierMode"
  entered :: "nat set"

definition pb_init :: pb_system where
  "pb_init = \<lparr>bar = \<lparr>n_apply_preparers = 0, n_backend_preparers = 0, n_backend_holders = 0, n_full_holders = 0\<rparr>,
     pb_mode = (\<lambda>p. PB_NONE), entered = {}\<rparr>"

text \<open>
  \<open>release\<close> is a normal release, the release of a waiting holder that was interrupted, and the one
  at process exit.
\<close>

inductive pb_step :: "pb_system \<Rightarrow> pb_system \<Rightarrow> bool" where
  prepare: "pb_mode s p = PB_NONE \<Longrightarrow> preparer_round backend (bar s) = (b, m) \<Longrightarrow>
    pb_step s (s\<lparr>bar := b, pb_mode := (pb_mode s)(p := m),
                 entered := (if m = PB_NONE then entered s else insert p (entered s))\<rparr>)"
| announce: "pb_mode s p = PB_NONE \<Longrightarrow> holder_announce full (bar s) = (b, m) \<Longrightarrow>
    pb_step s (s\<lparr>bar := b, pb_mode := (pb_mode s)(p := m)\<rparr>)"
| enter: "pb_mode s p = (if full then PB_FULL_HOLDER else PB_BACKEND_HOLDER) \<Longrightarrow> p \<notin> entered s \<Longrightarrow>
    holder_done full (bar s) \<Longrightarrow> pb_step s (s\<lparr>entered := insert p (entered s)\<rparr>)"
| release: "ReleasePB (pb_mode s p) (bar s) = (b, m) \<Longrightarrow>
    pb_step s (s\<lparr>bar := b, pb_mode := (pb_mode s)(p := m), entered := entered s - {p}\<rparr>)"

section \<open>The counters count\<close>

definition in_mode :: "(nat \<Rightarrow> PrepareBarrierMode) \<Rightarrow> PrepareBarrierMode \<Rightarrow> nat set" where
  "in_mode f m = {p. f p = m}"

definition counts :: "barrier \<Rightarrow> (nat \<Rightarrow> PrepareBarrierMode) \<Rightarrow> bool" where
  "counts b f \<longleftrightarrow> finite {p. f p \<noteq> PB_NONE} \<and>
     n_apply_preparers b = int (card (in_mode f PB_APPLY_PREPARER)) \<and>
     n_backend_preparers b = int (card (in_mode f PB_BACKEND_PREPARER)) \<and>
     n_backend_holders b = int (card (in_mode f PB_BACKEND_HOLDER)) \<and>
     n_full_holders b = int (card (in_mode f PB_FULL_HOLDER))"

lemma in_mode_upd: "in_mode (f(p := m)) m' = (if m = m' then insert p (in_mode f m') else in_mode f m' - {p})"
  by (auto simp: in_mode_def)

lemma finite_in_mode: "finite {p. f p \<noteq> PB_NONE} \<Longrightarrow> m \<noteq> PB_NONE \<Longrightarrow> finite (in_mode f m)"
  by (rule finite_subset [of _ "{p. f p \<noteq> PB_NONE}"]) (auto simp: in_mode_def)

lemma card_in_mode_add:
  assumes "finite {p. f p \<noteq> PB_NONE}" and "f p = PB_NONE" and "m \<noteq> PB_NONE" and "m' \<noteq> PB_NONE"
  shows "int (card (in_mode (f(p := m)) m')) = int (card (in_mode f m')) + (if m = m' then 1 else 0)"
proof -
  have "p \<notin> in_mode f m'" using assms(2,4) by (simp add: in_mode_def)
  with finite_in_mode [OF assms(1,4)] show ?thesis by (simp add: in_mode_upd)
qed

lemma card_in_mode_drop:
  assumes "finite {p. f p \<noteq> PB_NONE}" and "m' \<noteq> PB_NONE"
  shows "int (card (in_mode (f(p := PB_NONE)) m')) = int (card (in_mode f m')) - (if f p = m' then 1 else 0)"
proof (cases "f p = m'")
  case True
  then have "p \<in> in_mode f m'" by (simp add: in_mode_def)
  with finite_in_mode [OF assms] have "Suc (card (in_mode f m' - {p})) = card (in_mode f m')"
    by (rule card_Suc_Diff1)
  with True assms(2) show ?thesis by (simp add: in_mode_upd)
next
  case False
  then have "in_mode f m' - {p} = in_mode f m'" by (auto simp: in_mode_def)
  with False assms(2) show ?thesis by (simp add: in_mode_upd)
qed

lemma finite_modes_upd: "finite {p. f p \<noteq> PB_NONE} \<Longrightarrow> finite {q. (f(p := m)) q \<noteq> PB_NONE}"
  by (rule finite_subset [of _ "insert p {p. f p \<noteq> PB_NONE}"]) auto

lemma counts_preparer:
  assumes "counts b f" and "f p = PB_NONE" and "preparer_round backend b = (b', m)"
  shows "counts b' (f(p := m))"
proof (cases "m = PB_NONE")
  case True
  with assms show ?thesis by (auto simp: preparer_round_def fun_upd_idem split: if_splits)
next
  case False
  with assms card_in_mode_add [of f p m] finite_modes_upd [of f p m] show ?thesis
    by (auto simp: counts_def preparer_round_def split: if_splits)
qed

lemma counts_holder:
  assumes "counts b f" and "f p = PB_NONE" and "holder_announce full b = (b', m)"
  shows "counts b' (f(p := m))"
proof -
  have "m \<noteq> PB_NONE" using assms(3) by (auto simp: holder_announce_def split: if_splits)
  with assms card_in_mode_add [of f p m] finite_modes_upd [of f p m] show ?thesis
    by (auto simp: counts_def holder_announce_def split: if_splits)
qed

lemma counts_release:
  assumes "counts b f" and "ReleasePB (f p) b = (b', m)"
  shows "counts b' (f(p := m))" and "m = PB_NONE"
proof -
  show m: "m = PB_NONE" using assms(2) by (auto simp: ReleasePB_def split: PrepareBarrierMode.splits)
  with assms card_in_mode_drop [of f _ p] finite_modes_upd [of f p m] show "counts b' (f(p := m))"
    by (cases "f p") (auto simp: counts_def ReleasePB_def fun_upd_idem)
qed

lemma counts_zero:
  assumes "counts b f"
  shows "n_apply_preparers b = 0 \<longleftrightarrow> (\<forall>p. f p \<noteq> PB_APPLY_PREPARER)"
    and "n_backend_preparers b = 0 \<longleftrightarrow> (\<forall>p. f p \<noteq> PB_BACKEND_PREPARER)"
    and "n_backend_holders b = 0 \<longleftrightarrow> (\<forall>p. f p \<noteq> PB_BACKEND_HOLDER)"
    and "n_full_holders b = 0 \<longleftrightarrow> (\<forall>p. f p \<noteq> PB_FULL_HOLDER)"
  using assms finite_in_mode [of f] by (auto simp: counts_def in_mode_def card_eq_0_iff)

section \<open>Exclusion\<close>

definition is_preparer :: "PrepareBarrierMode \<Rightarrow> bool" where
  "is_preparer m \<longleftrightarrow> m = PB_APPLY_PREPARER \<or> m = PB_BACKEND_PREPARER"

definition excluded :: "(nat \<Rightarrow> PrepareBarrierMode) \<Rightarrow> nat \<Rightarrow> bool" where
  "excluded f p \<longleftrightarrow> (f p = PB_FULL_HOLDER \<longrightarrow> (\<forall>q. \<not> is_preparer (f q))) \<and>
     (f p = PB_BACKEND_HOLDER \<longrightarrow> (\<forall>q. f q \<noteq> PB_BACKEND_PREPARER))"

definition pb_inv :: "pb_system \<Rightarrow> bool" where
  "pb_inv s \<longleftrightarrow> counts (bar s) (pb_mode s) \<and> (\<forall>p\<in>entered s. pb_mode s p \<noteq> PB_NONE \<and> excluded (pb_mode s) p)"

lemma preparer_admitted:
  assumes "counts b f" and "preparer_round backend b = (b', m)" and "m \<noteq> PB_NONE"
  shows "is_preparer m" and "\<forall>q. f q \<noteq> PB_FULL_HOLDER"
    and "m = PB_BACKEND_PREPARER \<Longrightarrow> \<forall>q. f q \<noteq> PB_BACKEND_HOLDER"
  using assms counts_zero [OF assms(1)]
  by (auto simp: preparer_round_def is_preparer_def split: if_splits)

lemma prepare_excluded:
  assumes inv: "pb_inv s" and p: "pb_mode s p = PB_NONE" and r: "preparer_round backend (bar s) = (b, m)"
    and m: "m \<noteq> PB_NONE" and q: "q \<in> insert p (entered s)"
  shows "excluded ((pb_mode s)(p := m)) q"
proof -
  have c: "counts (bar s) (pb_mode s)" using inv by (simp add: pb_inv_def)
  note a = preparer_admitted [OF c r m]
  show ?thesis
  proof (cases "q = p")
    case True
    with a(1) show ?thesis by (auto simp: excluded_def is_preparer_def)
  next
    case False
    with q inv have "excluded (pb_mode s) q" by (simp add: pb_inv_def)
    with False a show ?thesis by (auto simp: excluded_def is_preparer_def)
  qed
qed

lemma pb_inv_step:
  assumes inv: "pb_inv s" and step: "pb_step s s'"
  shows "pb_inv s'"
  using step
proof cases
  case (prepare p backend b m)
  with inv have "counts b ((pb_mode s)(p := m))" by (auto simp: pb_inv_def intro: counts_preparer)
  moreover have "pb_mode s q \<noteq> PB_NONE" if "q \<in> entered s" for q using inv that by (simp add: pb_inv_def)
  ultimately show ?thesis
    using inv prepare prepare_excluded [OF inv prepare(2,3)]
    by (auto simp: pb_inv_def fun_upd_idem)
next
  case (announce p full b m)
  then have m: "m = PB_FULL_HOLDER \<or> m = PB_BACKEND_HOLDER"
    by (auto simp: holder_announce_def split: if_splits)
  have "p \<notin> entered s" using inv announce(2) by (auto simp: pb_inv_def)
  moreover have "counts b ((pb_mode s)(p := m))"
    using inv announce by (auto simp: pb_inv_def intro: counts_holder)
  ultimately show ?thesis using inv m announce(1) by (auto simp: pb_inv_def excluded_def is_preparer_def)
next
  case (enter p full)
  have "counts (bar s) (pb_mode s)" using inv by (simp add: pb_inv_def)
  from counts_zero [OF this] enter(4) have "excluded (pb_mode s) p"
    using enter(2) by (auto simp: holder_done_def excluded_def is_preparer_def split: if_splits)
  with inv enter(1,2) show ?thesis by (auto simp: pb_inv_def)
next
  case (release p b m)
  have c: "counts (bar s) (pb_mode s)" using inv by (simp add: pb_inv_def)
  from counts_release [OF c release(2)] inv release(1) show ?thesis
    by (auto simp: pb_inv_def excluded_def is_preparer_def)
qed

interpretation pb: inductive_invariant pb_step pb_inv
  by unfold_locales (rule pb_inv_step)

lemma pb_init_inv: "pb_inv pb_init"
  by (simp add: pb_inv_def pb_init_def counts_def in_mode_def)

text \<open>
  C27. While a generation switch is inside the barrier as a full holder no process prepares; while
  one is inside as a backend holder no backend prepares. This holds in every interleaving of
  acquisitions, failed attempts, interrupted waits and releases.
\<close>

theorem prepare_barrier_exclusion:
  assumes "pb_step\<^sup>*\<^sup>* pb_init s" and "p \<in> entered s"
  shows "(pb_mode s p = PB_FULL_HOLDER \<longrightarrow> pb_mode s q \<noteq> PB_APPLY_PREPARER \<and> pb_mode s q \<noteq> PB_BACKEND_PREPARER) \<and>
    (pb_mode s p = PB_BACKEND_HOLDER \<longrightarrow> pb_mode s q \<noteq> PB_BACKEND_PREPARER)"
  using pb.reachable [OF assms(1) pb_init_inv] assms(2)
  by (auto simp: pb_inv_def excluded_def is_preparer_def)

text \<open>
  C28. The holder has priority and waits for nobody but preparers: from its announcement on no new
  preparer is admitted, and as soon as the preparers present have released the barrier its next
  check succeeds, whatever other holders do.
\<close>

theorem prepare_barrier_progress:
  assumes "pb_step\<^sup>*\<^sup>* pb_init s" and "pb_mode s p = PB_FULL_HOLDER"
  shows "preparer_round backend (bar s) = (bar s, PB_NONE) \<and>
    (holder_done True (bar s) \<longleftrightarrow> (\<forall>q. pb_mode s q \<noteq> PB_APPLY_PREPARER \<and> pb_mode s q \<noteq> PB_BACKEND_PREPARER))"
proof -
  have "counts (bar s) (pb_mode s)" using pb.reachable [OF assms(1) pb_init_inv] by (simp add: pb_inv_def)
  note z = counts_zero [OF this]
  from z(4) assms(2) have "n_full_holders (bar s) \<noteq> 0" by blast
  then have "preparer_round backend (bar s) = (bar s, PB_NONE)" by (simp add: preparer_round_def)
  moreover from z(1,2) have "holder_done True (bar s) \<longleftrightarrow>
      (\<forall>q. pb_mode s q \<noteq> PB_APPLY_PREPARER \<and> pb_mode s q \<noteq> PB_BACKEND_PREPARER)"
    by (auto simp: holder_done_def)
  ultimately show ?thesis by blast
qed

text \<open>A run: a switch announces itself, enters, and keeps a backend out.\<close>

lemma pb_run: "\<exists>s. pb_step\<^sup>*\<^sup>* pb_init s \<and> 7 \<in> entered s \<and> pb_mode s 7 = PB_FULL_HOLDER"
proof -
  obtain b where b: "holder_announce True (bar pb_init) = (b, PB_FULL_HOLDER)" "holder_done True b"
    by (simp add: holder_announce_def pb_init_def holder_done_def)
  let ?s1 = "pb_init\<lparr>bar := b, pb_mode := (pb_mode pb_init)(7 := PB_FULL_HOLDER)\<rparr>"
  have "pb_step pb_init ?s1" by (rule announce [OF _ b(1)]) (simp add: pb_init_def)
  moreover have "pb_step ?s1 (?s1\<lparr>entered := insert 7 (entered ?s1)\<rparr>)"
    by (rule enter [of _ _ True]) (use b(2) in \<open>simp_all add: pb_init_def\<close>)
  ultimately have "pb_step\<^sup>*\<^sup>* pb_init (?s1\<lparr>entered := insert 7 (entered ?s1)\<rparr>)" by (meson r_into_rtranclp rtranclp_trans)
  moreover have "pb_mode (?s1\<lparr>entered := insert 7 (entered ?s1)\<rparr>) 7 = PB_FULL_HOLDER" by simp
  ultimately show ?thesis by (metis insertI1 pb_system.select_convs(3) pb_system.surjective pb_system.update_convs(3))
qed

theorem prepare_barrier_exclusion_witness:
  "\<exists>s. pb_step\<^sup>*\<^sup>* pb_init s \<and> 7 \<in> entered s \<and> pb_mode s 7 = PB_FULL_HOLDER \<and> pb_mode s 3 \<noteq> PB_BACKEND_PREPARER"
  using pb_run prepare_barrier_exclusion by blast

theorem prepare_barrier_progress_witness:
  "\<exists>s. pb_step\<^sup>*\<^sup>* pb_init s \<and> preparer_round True (bar s) = (bar s, PB_NONE)"
  using pb_run prepare_barrier_progress by blast

end
