(* ===== verification/State_Disk.thy ===== *)
theory State_Disk
  imports Mtm_State
begin

text \<open>
  The state file (\<open>MtmStateOnDisk\<close>, \<open>MtmStateSave\<close> and \<open>MtmStateLoad\<close> of \<open>src/src/state.c\<close>).
  \<open>Mtm_State\<close> treats a save as one effect; here it is the sequence of file operations of the
  source, any of which may be the last before a crash, since a failure inside the critical section
  is a PANIC. What a crash may leave behind is what POSIX leaves open: the contents of a file that
  was not synced are arbitrary, and a renaming that was not synced may or may not have happened.

  The CRC-32C of Postgres is a parameter, a function of the checksummed part of the structure.
\<close>

section \<open>The file\<close>

record MtmStateOnDisk =
  magic :: uint32
  checksum :: uint32
  version :: uint32
  od_state :: MtmPersistent

definition MTMSTATE_MAGIC :: uint32 where "MTMSTATE_MAGIC = 0xC6068767"
definition MTMSTATE_VERSION :: uint32 where "MTMSTATE_VERSION = 1"

text \<open>A file holds a whole structure or is shorter.\<close>

datatype contents = Full MtmStateOnDisk | Short nat

definition fill_ondisk :: "(uint32 \<times> MtmPersistent \<Rightarrow> uint32) \<Rightarrow> MtmPersistent \<Rightarrow> MtmStateOnDisk" where
  "fill_ondisk crc p = \<lparr>magic = MTMSTATE_MAGIC, checksum = crc (MTMSTATE_VERSION, p),
     version = MTMSTATE_VERSION, od_state = p\<rparr>"

section \<open>Saving\<close>

text \<open>
  The two files of the directory \<^verbatim>\<open>pg_mtm\<close> as processes see them, whether their data has been
  synced, and the contents of the state file according to the directory last synced to disk.
\<close>

record fs =
  tmp_file :: "contents option"
  tmp_synced :: bool
  state_file :: "contents option"
  state_synced :: bool
  durable_entry :: "contents option"

datatype fs_op = OpenTmp | WriteTmp MtmStateOnDisk | FsyncTmp | CloseTmp | FsyncDir | RenameTmp | FsyncState

fun fs_exec :: "fs_op \<Rightarrow> fs \<Rightarrow> fs" where
  "fs_exec OpenTmp f = f\<lparr>tmp_file := Some (Short 0), tmp_synced := False\<rparr>"
| "fs_exec (WriteTmp d) f = f\<lparr>tmp_file := Some (Full d), tmp_synced := False\<rparr>"
| "fs_exec FsyncTmp f = f\<lparr>tmp_synced := True\<rparr>"
| "fs_exec CloseTmp f = f"
| "fs_exec FsyncDir f = (if state_synced f then f\<lparr>durable_entry := state_file f\<rparr> else f)"
| "fs_exec RenameTmp f = f\<lparr>state_file := tmp_file f, state_synced := tmp_synced f, tmp_file := None\<rparr>"
| "fs_exec FsyncState f = f\<lparr>state_synced := True\<rparr>"

text \<open>
  The operations of \<open>MtmStateSave\<close>, in order. A short write is an error: the save stops there.
\<close>

definition save_ops :: "(uint32 \<times> MtmPersistent \<Rightarrow> uint32) \<Rightarrow> MtmPersistent \<Rightarrow> fs_op list" where
  "save_ops crc p =
     [OpenTmp, WriteTmp (fill_ondisk crc p), FsyncTmp, CloseTmp, FsyncDir, RenameTmp, FsyncState, FsyncDir]"

text \<open>What the state file may hold after a crash.\<close>

definition after_crash :: "fs \<Rightarrow> contents option set" where
  "after_crash f = insert (durable_entry f) (if state_synced f then {state_file f} else UNIV)"

definition settled :: "fs \<Rightarrow> bool" where
  "settled f \<longleftrightarrow> state_synced f \<and> durable_entry f = state_file f"

section \<open>Loading\<close>

datatype load_error =
  OpenFailed | ReadFailed | ShortRead nat | WrongMagic uint32 | WrongVersion uint32
| ChecksumMismatch uint32 uint32 | CloseFailed

text \<open>\<open>open_ok\<close>, \<open>read_ok\<close> and \<open>close_ok\<close> are the outcomes of the system calls.\<close>

definition load_file ::
  "(uint32 \<times> MtmPersistent \<Rightarrow> uint32) \<Rightarrow> bool \<Rightarrow> bool \<Rightarrow> bool \<Rightarrow> contents option \<Rightarrow> load_error + MtmPersistent" where
  "load_file crc open_ok read_ok close_ok file =
     (case file of
        None \<Rightarrow> Inl OpenFailed
      | Some c \<Rightarrow>
          if \<not> open_ok then Inl OpenFailed
          else if \<not> read_ok then Inl ReadFailed
          else case c of
            Short n \<Rightarrow> Inl (ShortRead n)
          | Full d \<Rightarrow>
              if magic d \<noteq> MTMSTATE_MAGIC then Inl (WrongMagic (magic d))
              else if version d \<noteq> MTMSTATE_VERSION then Inl (WrongVersion (version d))
              else let sum = crc (version d, od_state d)
                   in if sum \<noteq> checksum d then Inl (ChecksumMismatch sum (checksum d))
                      else if \<not> close_ok then Inl CloseFailed
                      else Inr (od_state d))"

definition load_state ::
  "(uint32 \<times> MtmPersistent \<Rightarrow> uint32) \<Rightarrow> bool \<Rightarrow> bool \<Rightarrow> bool \<Rightarrow> contents option \<Rightarrow> MtmState \<Rightarrow> load_error + MtmState" where
  "load_state crc open_ok read_ok close_ok file st =
     (case load_file crc open_ok read_ok close_ok file of
        Inl e \<Rightarrow> Inl e
      | Inr p \<Rightarrow> Inr (MtmStateLoad p st))"

section \<open>Saving is atomic\<close>

lemma take_save_ops:
  "take k (save_ops crc p) \<in> (\<lambda>k. take k (save_ops crc p)) ` {0, 1, 2, 3, 4, 5, 6, 7, 8}"
proof (cases "k < 8")
  case True
  then have "k = 0 \<or> k = 1 \<or> k = 2 \<or> k = 3 \<or> k = 4 \<or> k = 5 \<or> k = 6 \<or> k = 7" by linarith
  then show ?thesis by blast
next
  case False
  then have "take k (save_ops crc p) = take 8 (save_ops crc p)" by (simp add: save_ops_def)
  then show ?thesis by blast
qed

lemma save_prefix:
  assumes "settled f"
  shows "after_crash (fold fs_exec (take k (save_ops crc p)) f) \<subseteq>
    {state_file f, Some (Full (fill_ondisk crc p))}"
proof -
  have "\<forall>ops\<in>(\<lambda>k. take k (save_ops crc p)) ` {0, 1, 2, 3, 4, 5, 6, 7, 8}.
    after_crash (fold fs_exec ops f) \<subseteq> {state_file f, Some (Full (fill_ondisk crc p))}"
    using assms by (simp add: save_ops_def after_crash_def settled_def take_Cons')
  then show ?thesis using take_save_ops by (rule bspec)
qed

lemma save_complete:
  assumes "settled f"
  shows "settled (fold fs_exec (save_ops crc p) f)"
    and "state_file (fold fs_exec (save_ops crc p) f) = Some (Full (fill_ondisk crc p))"
  using assms by (simp_all add: save_ops_def settled_def)

lemma load_fill: "load_file crc True True True (Some (Full (fill_ondisk crc p))) = Inr p"
  by (simp add: load_file_def fill_ondisk_def)

text \<open>
  C29. A save is atomic: wherever in the sequence of file operations the node dies, the restart reads
  either the state saved before or the new one, never a mixture, a short file or no file; and once
  the save has returned, a restart reads the new one.
\<close>

theorem state_save_atomic:
  assumes "settled f" and "state_file f = Some (Full (fill_ondisk crc old))"
  shows "(\<forall>k. \<forall>c\<in>after_crash (fold fs_exec (take k (save_ops crc p)) f).
            load_file crc True True True c \<in> {Inr old, Inr p}) \<and>
    (\<forall>c\<in>after_crash (fold fs_exec (save_ops crc p) f). load_file crc True True True c = Inr p)"
proof (intro conjI allI ballI)
  fix k c
  assume "c \<in> after_crash (fold fs_exec (take k (save_ops crc p)) f)"
  with save_prefix [OF assms(1), of k crc p] have "c = state_file f \<or> c = Some (Full (fill_ondisk crc p))" by blast
  with assms(2) load_fill show "load_file crc True True True c \<in> {Inr old, Inr p}" by auto
next
  fix c
  assume "c \<in> after_crash (fold fs_exec (save_ops crc p) f)"
  moreover have "after_crash g = {state_file g}" if "settled g" for g :: fs
    using that by (simp add: after_crash_def settled_def)
  ultimately have "c = Some (Full (fill_ondisk crc p))"
    using save_complete [OF assms(1), of crc p] by auto
  with load_fill show "load_file crc True True True c = Inr p" by simp
qed

text \<open>
  A state that is loaded is the one in the file: magic number, version and checksum fit, and all
  of the generation state (and nothing else of the memory) is what the file says. A file of which
  anything covered by the checksum was damaged is refused unless the checksums collide.
\<close>

theorem state_load_sound:
  assumes "load_state crc o_ok r_ok c_ok file st = Inr st'"
  shows "\<exists>d. file = Some (Full d) \<and> magic d = MTMSTATE_MAGIC \<and> version d = MTMSTATE_VERSION \<and>
    checksum d = crc (version d, od_state d) \<and> persistent st' = od_state d \<and>
    trace st' = trace st \<and> receive_mode st' = receive_mode st \<and> connectivity_matrix st' = connectivity_matrix st"
  using assms
  by (auto simp: load_state_def load_file_def Let_def persistent_def MtmStateLoad_def MtmGetCurrentGen_def
      split: option.splits contents.splits if_splits sum.splits)

definition sum_crc :: "uint32 \<times> MtmPersistent \<Rightarrow> uint32" where
  "sum_crc x = fst x + ucast (p_last_online_in (snd x))"

definition no_persistent :: "uint64 \<Rightarrow> MtmPersistent" where
  "no_persistent n = \<lparr>p_current_gen = \<lparr>num = n, members = 7, configured = 7\<rparr>, p_donors = 7, p_last_online_in = n,
     p_last_vote = \<lparr>num = n, members = 7, configured = 7\<rparr>, p_ps_logged = True\<rparr>"

definition fs_with :: "contents \<Rightarrow> fs" where
  "fs_with c = \<lparr>tmp_file = None, tmp_synced = False, state_file = Some c, state_synced = True, durable_entry = Some c\<rparr>"

theorem state_save_atomic_witness:
  "\<forall>k. load_file sum_crc True True True
      (durable_entry (fold fs_exec (take k (save_ops sum_crc (no_persistent 5)))
         (fs_with (Full (fill_ondisk sum_crc (no_persistent 4)))))) \<in> {Inr (no_persistent 4), Inr (no_persistent 5)}"
proof -
  let ?f = "fs_with (Full (fill_ondisk sum_crc (no_persistent 4)))"
  have "settled ?f" "state_file ?f = Some (Full (fill_ondisk sum_crc (no_persistent 4)))"
    by (simp_all add: fs_with_def settled_def)
  from state_save_atomic [OF this, of "no_persistent 5"] show ?thesis by (auto simp: after_crash_def)
qed

theorem state_load_sound_witness:
  "\<exists>st st'. load_state sum_crc True True True (Some (Full (fill_ondisk sum_crc (no_persistent 4)))) st = Inr st' \<and>
     persistent st' = no_persistent 4"
proof -
  fix st :: MtmState
  obtain st' where st': "load_state sum_crc True True True (Some (Full (fill_ondisk sum_crc (no_persistent 4)))) st = Inr st'"
    by (simp add: load_state_def load_fill)
  from state_load_sound [OF this] have "persistent st' = no_persistent 4" by (auto simp: fill_ondisk_def)
  with st' show ?thesis by blast
qed

end
