(* ===== verification/Xact_Node.thy ===== *)
theory Xact_Node
  imports Messaging
begin

text \<open>
  What the processes that vote on and finish global transactions share: the table of
  \<open>Global_Tx\<close>, a trace of what they ask of Postgres and of the message queue, and the pattern
  in which each of them works, namely to lock an entry, to change it, and to release it.

  Postgres keeps the prepared transactions and their states; the sources only call it
  (\<open>SetPreparedTransactionState\<close>, \<open>FinishPreparedTransaction\<close>,
  \<open>PrepareTransactionBlockWithState3PC\<close>). These calls are recorded in the trace, in order.
\<close>

section \<open>Effects and errors\<close>

datatype xeffect =
  Prepare string string
| SetState string string
| Finish string bool
| Reply int string MtmMessage

datatype xact_err = Blocked | BrokenAssert

definition sbind :: "'e + 'a \<Rightarrow> ('a \<Rightarrow> 'e + 'b) \<Rightarrow> 'e + 'b" where
  "sbind m f = (case m of Inl e \<Rightarrow> Inl e | Inr a \<Rightarrow> f a)"

lemma sbind_simps [simp]: "sbind (Inl e) f = Inl e" "sbind (Inr a) f = f a"
  by (simp_all add: sbind_def)

lemma sbind_Inr_iff: "sbind m f = Inr b \<longleftrightarrow> (\<exists>a. m = Inr a \<and> f a = Inr b)"
  by (auto simp: sbind_def split: sum.splits)

record xnode =
  xtab :: gid2gtx
  xtrace :: "xeffect list"

definition xemit :: "xeffect list \<Rightarrow> xnode \<Rightarrow> xnode" where
  "xemit es st = st\<lparr>xtrace := xtrace st @ es\<rparr>"

lemma xemit_simps [simp]: "xtab (xemit es st) = xtab st" "xtrace (xemit es st) = xtrace st @ es"
  by (simp_all add: xemit_def)

text \<open>Gids that start with \<^verbatim>\<open>MTM-\<close> are made by multimaster, all others by the user.\<close>

definition IS_EXPLICIT_2PC_GID :: "string \<Rightarrow> bool" where
  "IS_EXPLICIT_2PC_GID g = (take 4 g \<noteq> ''MTM-'')"

definition set_state :: "GlobalTx \<Rightarrow> GTxState \<Rightarrow> xeffect" where
  "set_state gtx st = SetState (gid gtx) (serialize_xstate (xinfo gtx) st)"

section \<open>Locking an existing entry\<close>

datatype locked = Got GlobalTx | Missing | Busy

definition zero_gtx :: GlobalTx where
  "zero_gtx = \<lparr>gid = [], xinfo = \<lparr>coordinator = 0, xi_xid = 0, xi_gen_num = 0, xi_configured = 0\<rparr>,
     coordinator_end_lsn = 0, acquired_by = 0,
     gtx_state = \<lparr>proposal = InvalidGTxTerm, accepted = InvalidGTxTerm, status = GTXInvalid\<rparr>,
     prepared = False, orphaned = False, phase1_acks = zero_acks, phase2_acks = zero_acks,
     resolver_stage = GTRS_AwaitStatus\<rparr>"

text \<open>
  One attempt: \<open>Blocked\<close> says that the entry is locked by somebody else and the process sleeps
  before it tries again.
\<close>

definition lock_gtx :: "int \<Rightarrow> int \<Rightarrow> string \<Rightarrow> bool \<Rightarrow> int \<Rightarrow> gid2gtx \<Rightarrow> xact_err + (gid2gtx \<times> locked)" where
  "lock_gtx MyBackendId me g nowait_own_live coord tab =
     (case GlobalTxAcquire MyBackendId me zero_gtx g False nowait_own_live coord [] tab of
        Waiting _ \<Rightarrow> Inl Blocked
      | AssertFailed \<Rightarrow> Inl BrokenAssert
      | Acquired tab' None _ \<Rightarrow> Inr (tab', Missing)
      | Acquired tab' (Some gtx) _ \<Rightarrow> Inr (tab', Got gtx)
      | NoWait tab' \<Rightarrow> Inr (tab', Busy))"

definition release_gtx :: "int \<Rightarrow> string \<Rightarrow> GlobalTx \<Rightarrow> gid2gtx \<Rightarrow> xact_err + gid2gtx" where
  "release_gtx MyBackendId g gtx tab =
     (case GlobalTxRelease MyBackendId g (AList.update g gtx tab) of
        None \<Rightarrow> Inl BrokenAssert | Some tab' \<Rightarrow> Inr tab')"

lemma lock_gtx_total:
  assumes "gtx_table_ok tab" and "b \<noteq> InvalidBackendId"
  shows "lock_gtx b me g nowait coord tab = Inl Blocked \<or>
    (\<exists>tab' r. lock_gtx b me g nowait coord tab = Inr (tab', r))"
  using GlobalTxAcquire_post [OF assms, of "[]" g False zero_gtx me nowait coord]
  by (auto simp: lock_gtx_def split: acquired.splits option.splits)

lemma lock_gtx_Got:
  assumes "gtx_table_ok tab" and "b \<noteq> InvalidBackendId"
    and "lock_gtx b me g nowait coord tab = Inr (tab', Got gtx)"
  shows "gtx_table_ok tab'" and "map_of tab' g = Some gtx" and "acquired_by gtx = b"
    and "prepared gtx" and "\<not> gtx_final gtx" and "gid gtx = g"
proof -
  from assms(3) obtain busy where "GlobalTxAcquire b me zero_gtx g False nowait coord [] tab =
      Acquired tab' (Some gtx) busy"
    by (auto simp: lock_gtx_def split: acquired.splits option.splits)
  with GlobalTxAcquire_post [OF assms(1,2), of "[]" g False zero_gtx me nowait coord]
  show "gtx_table_ok tab'" "map_of tab' g = Some gtx" "acquired_by gtx = b" "prepared gtx"
    "\<not> gtx_final gtx" "gid gtx = g"
    by (auto dest: gtx_table_okD(1))
qed

lemma lock_gtx_table:
  assumes "lock_gtx b me g nowait coord tab = Inr (tab', r)"
  shows "map_of tab' k = (case r of
      Got gtx \<Rightarrow> if k = g then Some gtx else map_of tab k | Missing \<Rightarrow> map_of tab k | Busy \<Rightarrow> map_of tab k)"
    and "r = Got gtx \<Longrightarrow> \<exists>old. map_of tab g = Some old \<and> acquired_by old = InvalidBackendId \<and> gtx = old\<lparr>acquired_by := b\<rparr>"
    and "r = Missing \<Longrightarrow> map_of tab g = None"
  using assms
  by (auto simp: lock_gtx_def GlobalTxAcquire.simps GlobalTxAcquire_round_def update_conv'
      split: option.splits if_splits)

lemma lock_gtx_ok:
  assumes "gtx_table_ok tab" and "b \<noteq> InvalidBackendId"
    and "lock_gtx b me g nowait coord tab = Inr (tab', r)"
  shows "gtx_table_ok tab'"
  using GlobalTxAcquire_post [OF assms(1,2), of "[]" g False zero_gtx me nowait coord] assms(3)
  by (auto simp: lock_gtx_def split: acquired.splits option.splits)

text \<open>Releasing an entry the process holds always works, whatever it did to the voting state.\<close>

lemma release_gtx_total:
  assumes "gtx_table_ok tab" and "gid gtx = g" and "acquired_by gtx = b" and "b \<noteq> InvalidBackendId"
  shows "\<exists>tab'. release_gtx b g gtx tab = Inr tab' \<and> gtx_table_ok tab'"
proof -
  have ok: "gtx_table_ok (AList.update g gtx tab)"
    using assms by (auto intro: gtx_table_ok_update)
  have m: "map_of (AList.update g gtx tab) g = Some gtx" by (simp add: update_conv')
  have "GlobalTxRelease b g (AList.update g gtx tab) \<noteq> None"
    using assms(3) by (simp add: GlobalTxRelease_def m)
  then obtain tab' where t: "GlobalTxRelease b g (AList.update g gtx tab) = Some tab'" by blast
  with GlobalTxRelease_ok [OF ok t] show ?thesis by (simp add: release_gtx_def)
qed

lemma release_gtx_entry:
  assumes "release_gtx b g gtx tab = Inr tab'"
  shows "map_of tab' k = (if k = g then (if gtx_final gtx \<or> \<not> prepared gtx then None
      else Some (gtx\<lparr>acquired_by := InvalidBackendId\<rparr>)) else map_of tab k)"
  using assms
  by (auto simp: release_gtx_def GlobalTxRelease_def update_conv' delete_conv' gtx_final_def
      split: option.splits if_splits)

section \<open>Finishing an entry\<close>

text \<open>
  Several processes finish a transaction in the same way: lock the entry, if there still is one,
  decide, let Postgres finish it, and release the entry, which removes it.
\<close>

definition finish_gtx :: "bool \<Rightarrow> GlobalTx \<Rightarrow> GlobalTx" where
  "finish_gtx commit gtx =
     gtx\<lparr>gtx_state := (gtx_state gtx)\<lparr>status := (if commit then GTXCommitted else GTXAborted)\<rparr>\<rparr>"

definition finish_entry :: "int \<Rightarrow> int \<Rightarrow> (GlobalTx \<Rightarrow> bool) \<Rightarrow> string \<Rightarrow> xnode \<Rightarrow> xact_err + xnode" where
  "finish_entry b me decide g st =
     sbind (lock_gtx b me g False 0 (xtab st)) (\<lambda>(tab, l).
       case l of
         Got gtx \<Rightarrow>
           sbind (release_gtx b g (finish_gtx (decide gtx) gtx) tab) (\<lambda>tab.
             Inr (xemit [Finish g (decide gtx)] (st\<lparr>xtab := tab\<rparr>)))
       | _ \<Rightarrow> Inr (st\<lparr>xtab := tab\<rparr>))"

fun finish_all :: "int \<Rightarrow> int \<Rightarrow> (GlobalTx \<Rightarrow> bool) \<Rightarrow> string list \<Rightarrow> xnode \<Rightarrow> xact_err + xnode" where
  "finish_all b me decide [] st = Inr st"
| "finish_all b me decide (g # gs) st =
     sbind (finish_entry b me decide g st) (finish_all b me decide gs)"

section \<open>What Postgres remembers\<close>

text \<open>The state kept with a prepared transaction, according to the calls made.\<close>

fun durable_state :: "string \<Rightarrow> xeffect list \<Rightarrow> string option \<Rightarrow> string option" where
  "durable_state g [] acc = acc"
| "durable_state g (e # es) acc = durable_state g es (case e of
     Prepare g' s \<Rightarrow> if g' = g then Some s else acc
   | SetState g' s \<Rightarrow> if g' = g then Some s else acc
   | Finish g' _ \<Rightarrow> if g' = g then None else acc
   | Reply _ _ _ \<Rightarrow> acc)"

lemma durable_state_append [simp]:
  "durable_state g (es @ fs) acc = durable_state g fs (durable_state g es acc)"
  by (induction es arbitrary: acc) auto

text \<open>Memory and Postgres agree on every entry nobody is working on.\<close>

definition xsynced :: "xnode \<Rightarrow> bool" where
  "xsynced st \<longleftrightarrow> (\<forall>g. durable_state g (xtrace st) None =
     (case map_of (xtab st) g of
        Some gtx \<Rightarrow> if prepared gtx then Some (serialize_xstate (xinfo gtx) (gtx_state gtx)) else None
      | None \<Rightarrow> None))"

definition xnode_ok :: "xnode \<Rightarrow> bool" where
  "xnode_ok st \<longleftrightarrow> gtx_table_ok (xtab st) \<and> xsynced st"

lemma xsynced_lock:
  assumes "xsynced st" and "lock_gtx b me g nowait coord (xtab st) = Inr (tab', r)"
  shows "xsynced (st\<lparr>xtab := tab'\<rparr>)"
  unfolding xsynced_def
proof
  fix k
  have "map_of tab' k = map_of (xtab st) k \<or>
    (\<exists>old. map_of (xtab st) k = Some old \<and> map_of tab' k = Some (old\<lparr>acquired_by := b\<rparr>))"
    using lock_gtx_table(1) [OF assms(2), of k] lock_gtx_table(2) [OF assms(2)]
    by (cases r) (auto split: if_splits)
  with assms(1) show "durable_state k (xtrace (st\<lparr>xtab := tab'\<rparr>)) None =
     (case map_of (xtab (st\<lparr>xtab := tab'\<rparr>)) k of
        Some gtx \<Rightarrow> if prepared gtx then Some (serialize_xstate (xinfo gtx) (gtx_state gtx)) else None
      | None \<Rightarrow> None)"
    by (auto simp: xsynced_def)
qed

text \<open>
  A process that locks an entry, changes its voting state, tells Postgres and releases it leaves
  memory and Postgres in agreement.
\<close>

lemma xsynced_vote:
  assumes s: "xsynced st" and m: "map_of (xtab st) g = Some old" "prepared old"
    and gtx: "gid gtx = g" "xinfo gtx = xinfo old" "prepared gtx" "\<not> gtx_final gtx"
    and r: "release_gtx b g gtx (xtab st) = Inr tab'"
    and es: "durable_state g es (Some (serialize_xstate (xinfo old) (gtx_state old))) =
        Some (serialize_xstate (xinfo gtx) (gtx_state gtx))"
      "\<And>k acc. k \<noteq> g \<Longrightarrow> durable_state k es acc = acc"
  shows "xsynced (xemit es (st\<lparr>xtab := tab'\<rparr>))"
  unfolding xsynced_def
proof
  fix k
  show "durable_state k (xtrace (xemit es (st\<lparr>xtab := tab'\<rparr>))) None =
     (case map_of (xtab (xemit es (st\<lparr>xtab := tab'\<rparr>))) k of
        Some gtx \<Rightarrow> if prepared gtx then Some (serialize_xstate (xinfo gtx) (gtx_state gtx)) else None
      | None \<Rightarrow> None)"
    using s m gtx es by (cases "k = g") (simp_all add: xsynced_def release_gtx_entry [OF r])
qed

lemma xsynced_finish:
  assumes s: "xsynced st" and gtx: "gtx_final gtx"
    and r: "release_gtx b g gtx (xtab st) = Inr tab'"
  shows "xsynced (xemit [Finish g c] (st\<lparr>xtab := tab'\<rparr>))"
  unfolding xsynced_def
proof
  fix k
  show "durable_state k (xtrace (xemit [Finish g c] (st\<lparr>xtab := tab'\<rparr>))) None =
     (case map_of (xtab (xemit [Finish g c] (st\<lparr>xtab := tab'\<rparr>))) k of
        Some gtx \<Rightarrow> if prepared gtx then Some (serialize_xstate (xinfo gtx) (gtx_state gtx)) else None
      | None \<Rightarrow> None)"
    using s gtx by (cases "k = g") (simp_all add: xsynced_def release_gtx_entry [OF r])
qed

lemma xsynced_reply: "xsynced (xemit [Reply d s m] st) = xsynced st"
  by (simp add: xsynced_def)


text \<open>What a process that votes may not change of the entry it has locked.\<close>

definition same_entry :: "GlobalTx \<Rightarrow> GlobalTx \<Rightarrow> bool" where
  "same_entry gtx gtx' \<longleftrightarrow> gid gtx' = gid gtx \<and> xinfo gtx' = xinfo gtx \<and> prepared gtx' = prepared gtx \<and>
     acquired_by gtx' = acquired_by gtx \<and> orphaned gtx' = orphaned gtx"

lemma same_entry_refl [simp]: "same_entry gtx gtx"
  by (simp add: same_entry_def)

lemma same_entry_update [simp]: "same_entry gtx (gtx\<lparr>gtx_state := s\<rparr>)"
  by (simp add: same_entry_def)

lemma vote_and_release:
  assumes st: "gtx_table_ok (xtab st)" "xsynced st"
    and gtx: "map_of (xtab st) g = Some gtx" "acquired_by gtx = b" "prepared gtx" "\<not> gtx_final gtx" "gid gtx = g"
    and b: "b \<noteq> InvalidBackendId"
    and new: "same_entry gtx gtx'" "\<not> gtx_final gtx'"
    and es: "es = [] \<and> gtx_state gtx' = gtx_state gtx \<or> es = [set_state gtx (gtx_state gtx')]"
  shows "\<exists>tab'. release_gtx b g gtx' (xtab st) = Inr tab' \<and> xnode_ok (xemit es (st\<lparr>xtab := tab'\<rparr>)) \<and>
    (\<forall>k. map_of tab' k = (if k = g then Some (gtx'\<lparr>acquired_by := InvalidBackendId\<rparr>) else map_of (xtab st) k))"
proof -
  have "gid gtx' = g" "acquired_by gtx' = b" using gtx new(1) by (simp_all add: same_entry_def)
  from release_gtx_total [OF st(1) this b] obtain tab' where
    r: "release_gtx b g gtx' (xtab st) = Inr tab'" "gtx_table_ok tab'" by blast
  have "xsynced (xemit es (st\<lparr>xtab := tab'\<rparr>))"
    by (rule xsynced_vote [OF st(2) gtx(1,3) _ _ _ new(2) r(1)])
      (use gtx new es in \<open>auto simp: set_state_def same_entry_def split: if_splits\<close>)
  with r show ?thesis
    using new gtx(3) release_gtx_entry [OF r(1)] by (auto simp: xnode_ok_def same_entry_def)
qed

lemma lock_node_ok:
  assumes "xnode_ok st" and "b \<noteq> InvalidBackendId" and "lock_gtx b me g nowait coord (xtab st) = Inr (tab, r)"
  shows "gtx_table_ok tab" "xsynced (st\<lparr>xtab := tab\<rparr>)" "xnode_ok (st\<lparr>xtab := tab\<rparr>)"
  using assms lock_gtx_ok [of "xtab st" b me g nowait coord tab r] xsynced_lock [of st b me g nowait coord tab r]
  by (simp_all add: xnode_ok_def)

lemma finish_gtx_simps [simp]:
  "gtx_final (finish_gtx c gtx)" "gid (finish_gtx c gtx) = gid gtx"
  "acquired_by (finish_gtx c gtx) = acquired_by gtx" "xinfo (finish_gtx c gtx) = xinfo gtx"
  by (simp_all add: finish_gtx_def gtx_final_def)

lemma finish_release:
  assumes st: "xnode_ok st" and b: "b \<noteq> InvalidBackendId"
    and lock: "lock_gtx b me g nowait coord (xtab st) = Inr (tab, Got gtx)"
  shows "\<exists>tab'. release_gtx b g (finish_gtx c gtx) tab = Inr tab' \<and>
    xnode_ok (xemit [Finish g c] (st\<lparr>xtab := tab'\<rparr>)) \<and>
    (\<forall>k. map_of tab' k = (if k = g then None else map_of (xtab st) k))"
proof -
  have tok: "gtx_table_ok (xtab st)" using st by (simp add: xnode_ok_def)
  note ok = lock_node_ok [OF st b lock] and gtx = lock_gtx_Got [OF tok b lock]
  have "gid (finish_gtx c gtx) = g" "acquired_by (finish_gtx c gtx) = b" using gtx by simp_all
  from release_gtx_total [OF ok(1) this b] obtain tab' where
    r: "release_gtx b g (finish_gtx c gtx) tab = Inr tab'" "gtx_table_ok tab'" by blast
  from r(1) have "release_gtx b g (finish_gtx c gtx) (xtab (st\<lparr>xtab := tab\<rparr>)) = Inr tab'" by simp
  from xsynced_finish [OF ok(2) _ this, of c] have "xsynced (xemit [Finish g c] (st\<lparr>xtab := tab'\<rparr>))" by simp
  moreover have "map_of tab' k = (if k = g then None else map_of (xtab st) k)" for k
    using release_gtx_entry [OF r(1), of k] lock_gtx_table(1) [OF lock, of k] by simp
  ultimately show ?thesis using r by (auto simp: xnode_ok_def)
qed

text \<open>Finishing an entry that is there removes it, and never breaks the node.\<close>

lemma finish_entry_spec:
  assumes st: "xnode_ok st" and b: "b \<noteq> InvalidBackendId"
  shows "finish_entry b me decide g st = Inl Blocked \<or>
    (\<exists>st'. finish_entry b me decide g st = Inr st' \<and> xnode_ok st' \<and>
       (\<forall>k. map_of (xtab st') k = (if k = g then None else map_of (xtab st) k)) \<and>
       xtrace st' = xtrace st @ (case map_of (xtab st) g of None \<Rightarrow> []
         | Some gtx \<Rightarrow> [Finish g (decide (gtx\<lparr>acquired_by := b\<rparr>))]))"
proof -
  have tok: "gtx_table_ok (xtab st)" using st by (simp add: xnode_ok_def)
  let ?lock = "lock_gtx b me g False 0 (xtab st)"
  consider "?lock = Inl Blocked" | (got) tab gtx where "?lock = Inr (tab, Got gtx)"
    | (no) tab where "?lock = Inr (tab, Missing)"
    using lock_gtx_total [OF tok b, of me g False 0]
    by (auto simp: lock_gtx_def GlobalTxAcquire.simps GlobalTxAcquire_round_def split: option.splits if_splits)
  then show ?thesis
  proof cases
    case 1
    then show ?thesis by (simp add: finish_entry_def)
  next
    case got
    from finish_release [OF st b got, of "decide gtx"] lock_gtx_table(2) [OF got, of gtx] got
    show ?thesis by (auto simp: finish_entry_def)
  next
    case no
    from lock_node_ok(3) [OF st b no] lock_gtx_table(1) [OF no] lock_gtx_table(3) [OF no] no
    show ?thesis by (auto simp: finish_entry_def)
  qed
qed

section \<open>Other processes\<close>

text \<open>What was pushed to other nodes, and what other processes may do to the node meanwhile.\<close>

definition replies :: "xeffect list \<Rightarrow> (int \<times> MtmMessage) list" where
  "replies es = concat (map (\<lambda>e. case e of Reply d _ m \<Rightarrow> [(d, m)] | _ \<Rightarrow> []) es)"

lemma replies_simps [simp]:
  "replies [] = []" "replies (es @ fs) = replies es @ replies fs"
  "replies (Reply d s m # es) = (d, m) # replies es" "replies (set_state gtx t # es) = replies es"
  "replies (Finish g c # es) = replies es"
  by (simp_all add: replies_def set_state_def)

definition harmless :: "(xnode \<Rightarrow> xnode) \<Rightarrow> bool" where
  "harmless others \<longleftrightarrow>
     (\<forall>st. xnode_ok st \<longrightarrow> xnode_ok (others st) \<and> replies (xtrace (others st)) = replies (xtrace st))"

text \<open>The calls that concern one transaction, and processes that leave a locked entry alone.\<close>

definition gid_effects :: "string \<Rightarrow> xeffect list \<Rightarrow> xeffect list" where
  "gid_effects g es = filter (\<lambda>e. case e of Prepare k _ \<Rightarrow> k = g | SetState k _ \<Rightarrow> k = g | Finish k _ \<Rightarrow> k = g
     | Reply _ _ _ \<Rightarrow> False) es"

lemma gid_effects_append [simp]: "gid_effects g (es @ fs) = gid_effects g es @ gid_effects g fs"
  by (simp add: gid_effects_def)

definition respects_lock :: "int \<Rightarrow> string \<Rightarrow> (xnode \<Rightarrow> xnode) \<Rightarrow> bool" where
  "respects_lock b g others \<longleftrightarrow> harmless others \<and>
     (\<forall>st gtx. map_of (xtab st) g = Some gtx \<and> acquired_by gtx = b \<longrightarrow>
        map_of (xtab (others st)) g = Some gtx \<and>
        gid_effects g (xtrace (others st)) = gid_effects g (xtrace st))"

lemma respects_lock_id: "respects_lock b g (\<lambda>st. st)"
  by (simp add: respects_lock_def harmless_def)

lemma harmless_id: "harmless (\<lambda>st. st)"
  by (simp add: harmless_def)

definition sample_prepared :: "string \<Rightarrow> GlobalTx" where
  "sample_prepared g = zero_gtx\<lparr>gid := g, acquired_by := InvalidBackendId, prepared := True, orphaned := True,
     gtx_state := \<lparr>proposal = InitialGTxTerm, accepted = InvalidGTxTerm, status = GTXInvalid\<rparr>\<rparr>"

definition sample_node :: xnode where
  "sample_node = \<lparr>xtab = [(''MTM-2-1'', sample_prepared ''MTM-2-1'')],
     xtrace = [Prepare ''MTM-2-1'' (serialize_xstate (xinfo (sample_prepared []))
       \<lparr>proposal = InitialGTxTerm, accepted = InvalidGTxTerm, status = GTXInvalid\<rparr>)]\<rparr>"

lemma sample_node_ok: "xnode_ok sample_node"
  by (auto simp: xnode_ok_def sample_node_def gtx_table_ok_def gtx_final_def sample_prepared_def xsynced_def zero_gtx_def)

end
