(* ===== verification/Gid.thy ===== *)
theory Gid
  imports Xact_Node
begin

text \<open>
  Global transaction identifiers (\<open>MtmGenerateGid\<close>, \<open>MtmGidParseGenNum\<close>, \<open>MtmGidParseNodeId\<close> and
  \<open>MtmGidParseXid\<close> of \<open>src/src/commit.c\<close>). The node and the transaction id are read back as they
  were written; the generation number is written in decimal and read in hexadecimal.
\<close>

definition MtmGenerateGid :: "int \<Rightarrow> TransactionId \<Rightarrow> uint64 \<Rightarrow> string" where
  "MtmGenerateGid nid xid gen_num =
     ''MTM-'' @ print_int nid @ ''-'' @ print_uint xid @ ''-'' @ print_uint gen_num"

text \<open>\<open>None\<close> is the failed assertion that a generation number was found.\<close>

definition MtmGidParseGenNum :: "string \<Rightarrow> uint64 option" where
  "MtmGidParseGenNum g =
     (let (n, vs) = sscanf (lits ''MTM-'' @ Skip_d # lits ''-'' @ Conv_u # lits ''-'' @ [Conv_X]) g;
          gen_num = arg_word vs 1 MtmInvalidGenNum
      in if gen_num = MtmInvalidGenNum then None else Some gen_num)"

definition MtmGidParseNodeId :: "string \<Rightarrow> int" where
  "MtmGidParseNodeId g =
     (let (n, vs) = sscanf (lits ''MTM-'' @ Conv_d # lits ''-'' @ [Skip_d]) g in arg_int vs 0 (-1))"

definition MtmGidParseXid :: "string \<Rightarrow> TransactionId option" where
  "MtmGidParseXid g =
     (let (n, vs) = sscanf (lits ''MTM-'' @ Skip_d # lits ''-'' @ [Conv_u]) g;
          xid = arg_word vs 0 0
      in if xid = 0 then None else Some xid)"

text \<open>The directives of the formats, applied to a generated gid.\<close>

lemma scan_dash [scan_simps]: "scan_all (lits ''-'' @ fs) b (CHR ''-'' # rest) = scan_all fs b rest"
  using scan_all_lits [of "''-''" fs b rest] by simp

lemma scan_mtm [scan_simps]:
  "scan_all (lits ''MTM-'' @ fs) b (CHR ''M'' # CHR ''T'' # CHR ''M'' # CHR ''-'' # rest) = scan_all fs b rest"
  using scan_all_lits [of "''MTM-''" fs b rest] by simp

lemma gid_not_explicit [simp]: "\<not> IS_EXPLICIT_2PC_GID (MtmGenerateGid nid xid gen_num)"
  by (simp add: IS_EXPLICIT_2PC_GID_def MtmGenerateGid_def)

lemma gid_node_id: "MtmGidParseNodeId (MtmGenerateGid nid xid gen_num) = nid"
proof -
  let ?rest = "CHR ''-'' # print_uint xid @ CHR ''-'' # print_uint gen_num"
  obtain vs e where "scan_all (lits ''-'' @ [Skip_d]) True ?rest = (vs, e)" by fastforce
  moreover have "scan_all (lits ''MTM-'' @ Conv_d # lits ''-'' @ [Skip_d]) False (MtmGenerateGid nid xid gen_num) =
    (let (vs, e) = scan_all (lits ''-'' @ [Skip_d]) True ?rest in (Arg_int nid # vs, e))"
    by (simp add: MtmGenerateGid_def scan_mtm scan_all_d del: scan_all.simps)
  ultimately show ?thesis
    by (simp add: MtmGidParseNodeId_def sscanf_def arg_int_def nth_opt_def)
qed

lemma gid_fields:
  "scan_all (lits ''MTM-'' @ Skip_d # lits ''-'' @ Conv_u # fs) False (MtmGenerateGid nid xid gen_num) =
    (let (vs, e) = scan_all fs True (CHR ''-'' # print_uint gen_num) in (Arg_int (uint xid) # vs, e))"
  by (simp add: MtmGenerateGid_def scan_simps del: scan_all.simps)

lemma gid_xid: "xid \<noteq> 0 \<Longrightarrow> MtmGidParseXid (MtmGenerateGid nid xid gen_num) = Some xid"
  by (simp add: MtmGidParseXid_def sscanf_def gid_fields arg_word_def nth_opt_def Let_def
      split: prod.splits)

lemma print_small_hex: "w < 10 \<Longrightarrow> print_uint (w :: uint64) = print_hex w"
proof -
  assume "w < 10"
  then have "unat w < 10" by (simp add: word_less_nat_alt)
  then show ?thesis by (simp add: print_uint_def print_hex_def print_nat.simps)
qed

lemma gid_gen_num_small:
  assumes "gen_num \<noteq> 0" and "gen_num < 10"
  shows "MtmGidParseGenNum (MtmGenerateGid nid xid gen_num) = Some gen_num"
proof -
  have "scan_all [Conv_X] True (print_hex gen_num @ []) = ([Arg_int (uint gen_num)], False)"
    by (subst scan_all_X) (simp_all add: Let_def)
  then have "scan_all (lits ''-'' @ [Conv_X]) True (CHR ''-'' # print_uint gen_num) = ([Arg_int (uint gen_num)], False)"
    by (simp add: scan_dash print_small_hex [OF assms(2)] del: scan_all.simps)
  with assms(1) show ?thesis
    by (simp add: MtmGidParseGenNum_def sscanf_def gid_fields arg_word_def nth_opt_def)
qed

text \<open>
  The coordinator and the transaction id can be read back from every generated gid.
\<close>

theorem gid_roundtrip:
  assumes "xid \<noteq> 0"
  shows "MtmGidParseNodeId (MtmGenerateGid nid xid gen_num) = nid \<and>
    MtmGidParseXid (MtmGenerateGid nid xid gen_num) = Some xid \<and>
    \<not> IS_EXPLICIT_2PC_GID (MtmGenerateGid nid xid gen_num)"
  using gid_node_id gid_xid [OF assms] by simp

theorem gid_roundtrip_witness: "MtmGidParseXid (MtmGenerateGid 3 701 12) = Some 701"
  using gid_roundtrip [of 701 3 12] by simp

text \<open>
  The generation number is not: one-digit numbers survive, but the number is printed in decimal
  and scanned in hexadecimal, so that the gid of generation 10 is read as one of generation 16.
\<close>

theorem gid_gen_num_hex:
  "(\<forall>n. n \<noteq> 0 \<and> n < 10 \<longrightarrow> MtmGidParseGenNum (MtmGenerateGid nid xid n) = Some n) \<and>
   MtmGidParseGenNum (MtmGenerateGid 1 700 10) = Some 16"
proof (intro conjI allI impI)
  show "MtmGidParseGenNum (MtmGenerateGid nid xid n) = Some n" if "n \<noteq> 0 \<and> n < 10" for n
    using that gid_gen_num_small by blast
  show "MtmGidParseGenNum (MtmGenerateGid 1 700 10) = Some 16" by code_simp
qed

theorem gid_gen_num_hex_witness: "MtmGidParseGenNum (MtmGenerateGid 2 9 7) = Some 7"
  using gid_gen_num_hex [of 2 9] by (auto dest: spec [of _ 7])

end
