(* ===== verification/Replier.thy ===== *)
theory Replier
  imports Gid Mtm_State
begin

text \<open>
  The replier process (\<open>handle_1a\<close>, \<open>handle_1a_batch\<close>, \<open>handle_2a\<close>, \<open>check_status_requests\<close> and
  \<open>GetLoggedPreparedXactState\<close> of \<open>src/src/state.c\<close>): the acceptor of the voting on orphaned
  transactions. Status requests (1a) are collected in a batch and answered after the others, so
  that one scan of the log serves all of them. The log is the list of its segments in the order
  the scan visits them, the newest first, each with its records in log order.
\<close>

section \<open>Scanning the log for outcomes\<close>

datatype wal_record = WalPrepare string | WalCommitPrepared string | WalAbortPrepared string | WalOther

record txset_entry =
  te_req :: MtmTxRequest
  te_resp :: MtmTxStatusResponse
  te_prepare_seen :: bool
  te_dest_node_id :: int
  te_dest_id :: int

type_synonym txset = "(string \<times> txset_entry) list"

definition set_status :: "GlobalTxStatus \<Rightarrow> txset_entry \<Rightarrow> txset_entry" where
  "set_status s txse = txse\<lparr>te_resp := (te_resp txse)\<lparr>sr_state := (sr_state (te_resp txse))\<lparr>status := s\<rparr>\<rparr>\<rparr>"

fun scan_record :: "wal_record \<Rightarrow> txset \<times> int \<Rightarrow> txset \<times> int" where
  "scan_record (WalPrepare g) (ts, n) =
     (case map_of ts g of
        Some txse \<Rightarrow> (AList.update g (txse\<lparr>te_prepare_seen := True\<rparr>) ts, n) | None \<Rightarrow> (ts, n))"
| "scan_record (WalCommitPrepared g) (ts, n) =
     (case map_of ts g of
        Some txse \<Rightarrow> (AList.update g (set_status GTXCommitted txse) ts, n - 1) | None \<Rightarrow> (ts, n))"
| "scan_record (WalAbortPrepared g) (ts, n) =
     (case map_of ts g of
        Some txse \<Rightarrow> (AList.update g (set_status GTXAborted txse) ts, n - 1) | None \<Rightarrow> (ts, n))"
| "scan_record WalOther x = x"

text \<open>The loops over the records of a segment and over the segments.\<close>

fun scan_segment :: "wal_record list \<Rightarrow> txset \<times> int \<Rightarrow> txset \<times> int" where
  "scan_segment [] x = x"
| "scan_segment (r # rs) x =
     (let x' = scan_record r x in if 0 < snd x' then scan_segment rs x' else x')"

fun scan_segments :: "wal_record list list \<Rightarrow> txset \<times> int \<Rightarrow> txset \<times> int" where
  "scan_segments [] x = x"
| "scan_segments (seg # segs) x =
     (let x' = scan_segment seg x in if snd x' = 0 then x' else scan_segments segs x')"

definition GetLoggedPreparedXactState :: "wal_record list list \<Rightarrow> txset \<Rightarrow> txset" where
  "GetLoggedPreparedXactState wal ts = fst (scan_segments wal (ts, int (length ts)))"

definition empty_entry :: "MtmTxRequest \<Rightarrow> int \<Rightarrow> int \<Rightarrow> int \<Rightarrow> txset_entry" where
  "empty_entry req me dest_node_id dest_id = \<lparr>te_req = req,
     te_resp = \<lparr>sr_node_id = me,
       sr_state = \<lparr>proposal = InvalidGTxTerm, accepted = InvalidGTxTerm, status = GTXInvalid\<rparr>,
       sr_gid = rq_gid req\<rparr>,
     te_prepare_seen = False, te_dest_node_id = dest_node_id, te_dest_id = dest_id\<rparr>"

definition mtm_get_logged_prepared_xact_state :: "wal_record list list \<Rightarrow> MtmTxRequest \<Rightarrow> string \<Rightarrow> string option" where
  "mtm_get_logged_prepared_xact_state wal garbage g =
     (case map_of (GetLoggedPreparedXactState wal [(g, empty_entry garbage 0 0 0)]) g of
        None \<Rightarrow> None
      | Some txse \<Rightarrow>
          (case status (sr_state (te_resp txse)) of
             GTXCommitted \<Rightarrow> Some ''committed''
           | GTXAborted \<Rightarrow> Some ''aborted''
           | GTXInvalid \<Rightarrow> Some ''notfound''
           | _ \<Rightarrow> None))"

section \<open>Phase 1\<close>

definition handle_1a_gtx ::
  "MtmTxRequest \<Rightarrow> GlobalTx \<Rightarrow> MtmTxStatusResponse \<Rightarrow> xeffect list \<times> GlobalTx \<times> MtmTxStatusResponse" where
  "handle_1a_gtx msg gtx resp =
     (if term_cmp (rq_term msg) (proposal (gtx_state gtx)) > 0
      then (let new_gtx_state = \<lparr>proposal = rq_term msg, accepted = accepted (gtx_state gtx),
                                 status = status (gtx_state gtx)\<rparr>;
                gtx' = gtx\<lparr>gtx_state := (gtx_state gtx)\<lparr>proposal := rq_term msg\<rparr>\<rparr>
            in ([set_state gtx new_gtx_state], gtx', resp\<lparr>sr_state := gtx_state gtx'\<rparr>))
      else ([], gtx, resp))"

text \<open>The vote on a transaction that is prepared here, and the release of its entry.\<close>

definition answer_1a :: "int \<Rightarrow> txset_entry \<Rightarrow> GlobalTx \<Rightarrow> xnode \<Rightarrow> xact_err + (txset_entry \<times> xnode)" where
  "answer_1a b txse gtx st =
     (let (es, gtx', resp) = (if \<not> IS_EXPLICIT_2PC_GID (gid gtx)
                              then handle_1a_gtx (te_req txse) gtx (te_resp txse)
                              else ([], gtx, te_resp txse))
      in sbind (release_gtx b (rq_gid (te_req txse)) gtx' (xtab st))
           (\<lambda>tab. Inr (txse\<lparr>te_resp := resp\<rparr>, xemit es (st\<lparr>xtab := tab\<rparr>))))"

definition reply_1a :: "txset_entry \<Rightarrow> xnode \<Rightarrow> xnode" where
  "reply_1a txse st = xemit [Reply (te_dest_id txse) ''txresp'' (T_MtmTxStatusResponse (te_resp txse))] st"

record batch =
  bt_set :: txset
  bt_node :: xnode
  bt_wal_scanned :: bool
  bt_last_online_in :: uint64

definition scan_once :: "wal_record list list \<Rightarrow> uint64 \<Rightarrow> batch \<Rightarrow> batch" where
  "scan_once wal loi bt =
     (if bt_wal_scanned bt then bt
      else bt\<lparr>bt_last_online_in := loi, bt_set := GetLoggedPreparedXactState wal (bt_set bt),
              bt_wal_scanned := True\<rparr>)"

text \<open>The answer for a transaction of which neither an entry nor an outcome was found.\<close>

definition direct_abort :: "txset_entry \<Rightarrow> uint64 \<Rightarrow> bool" where
  "direct_abort txse loi =
     (\<not> te_prepare_seen txse \<and> loi > rq_gen_num (te_req txse))"

definition finish_1a :: "string \<Rightarrow> batch \<Rightarrow> txset_entry \<times> xnode \<Rightarrow> batch" where
  "finish_1a g bt r = (case r of (txse, st) \<Rightarrow>
     bt\<lparr>bt_set := AList.update g txse (bt_set bt), bt_node := reply_1a txse st\<rparr>)"

definition handle_1a_logged :: "int \<Rightarrow> int \<Rightarrow> string \<Rightarrow> txset_entry \<Rightarrow> batch \<Rightarrow> xact_err + batch" where
  "handle_1a_logged b me g txse bt =
     (if status (sr_state (te_resp txse)) = GTXCommitted \<or> status (sr_state (te_resp txse)) = GTXAborted
      then Inr (finish_1a g bt (txse, bt_node bt))
      else sbind (lock_gtx b me g False 0 (xtab (bt_node bt))) (\<lambda>(tab, r).
        let st = (bt_node bt)\<lparr>xtab := tab\<rparr>
        in case r of
             Got gtx \<Rightarrow> sbind (answer_1a b txse gtx st) (\<lambda>x. Inr (finish_1a g bt x))
           | _ \<Rightarrow> Inr (finish_1a g bt
                 (if direct_abort txse (bt_last_online_in bt) then set_status GTXAborted txse else txse, st))))"

text \<open>
  While the log is scanned the other processes go on; \<open>others\<close> is what they do to the node meanwhile.
\<close>

definition handle_1a ::
  "int \<Rightarrow> int \<Rightarrow> wal_record list list \<Rightarrow> uint64 \<Rightarrow> (xnode \<Rightarrow> xnode) \<Rightarrow> string \<Rightarrow> batch \<Rightarrow> xact_err + batch" where
  "handle_1a b me wal loi others g bt =
     (case map_of (bt_set bt) g of
        None \<Rightarrow> Inl BrokenAssert
      | Some txse \<Rightarrow>
          sbind (lock_gtx b me g True (rq_coordinator (te_req txse)) (xtab (bt_node bt))) (\<lambda>(tab, r).
            let bt = bt\<lparr>bt_node := (bt_node bt)\<lparr>xtab := tab\<rparr>\<rparr>
            in case r of
                 Got gtx \<Rightarrow> sbind (answer_1a b txse gtx (bt_node bt)) (\<lambda>x. Inr (finish_1a g bt x))
               | Busy \<Rightarrow> Inr (finish_1a g bt (txse, bt_node bt))
               | Missing \<Rightarrow>
                   (let bt = scan_once wal loi bt;
                        bt = bt\<lparr>bt_node := others (bt_node bt)\<rparr>
                    in case map_of (bt_set bt) g of
                         None \<Rightarrow> Inl BrokenAssert
                       | Some txse \<Rightarrow> handle_1a_logged b me g txse bt)))"

fun batch_loop ::
  "int \<Rightarrow> int \<Rightarrow> wal_record list list \<Rightarrow> uint64 \<Rightarrow> (xnode \<Rightarrow> xnode) \<Rightarrow> string list \<Rightarrow> batch \<Rightarrow> xact_err + batch" where
  "batch_loop b me wal loi others [] bt = Inr bt"
| "batch_loop b me wal loi others (g # gs) bt =
     sbind (handle_1a b me wal loi others g bt) (batch_loop b me wal loi others gs)"

definition handle_1a_batch ::
  "int \<Rightarrow> int \<Rightarrow> wal_record list list \<Rightarrow> uint64 \<Rightarrow> (xnode \<Rightarrow> xnode) \<Rightarrow> txset \<Rightarrow> xnode \<Rightarrow> xact_err + xnode" where
  "handle_1a_batch b me wal loi others ts st =
     sbind (batch_loop b me wal loi others (map fst ts)
              \<lparr>bt_set = ts, bt_node = st, bt_wal_scanned = False, bt_last_online_in = 0\<rparr>)
       (\<lambda>bt. Inr (bt_node bt))"

section \<open>Phase 2 and final decisions\<close>

definition accept_2a :: "MtmTxRequest \<Rightarrow> GlobalTx \<Rightarrow> (xeffect list \<times> GlobalTx) option" where
  "accept_2a msg gtx =
     (if term_cmp (rq_term msg) (proposal (gtx_state gtx)) \<ge> 0
      then (let new_status = (if rq_type msg = MTReq_Precommit then GTXPreCommitted else GTXPreAborted);
                new_gtx_state = \<lparr>proposal = rq_term msg, accepted = rq_term msg, status = new_status\<rparr>
            in Some ([set_state gtx new_gtx_state], gtx\<lparr>gtx_state := new_gtx_state\<rparr>))
      else None)"

definition handle_2a :: "int \<Rightarrow> int \<Rightarrow> MtmTxRequest \<Rightarrow> int \<Rightarrow> xnode \<Rightarrow> xact_err + xnode" where
  "handle_2a b me msg dest_id st =
     (let resp = \<lparr>a2_node_id = me, a2_status = GTXInvalid, a2_accepted_term = InvalidGTxTerm,
                  a2_errcode = 0, a2_errmsg = [], a2_gid = rq_gid msg\<rparr>;
          reply = (\<lambda>r. xemit [Reply dest_id ''txresp'' (T_Mtm2AResponse r)])
      in sbind (lock_gtx b me (rq_gid msg) True (MtmGidParseNodeId (rq_gid msg)) (xtab st)) (\<lambda>(tab, l).
           let st = st\<lparr>xtab := tab\<rparr>
           in case l of
                Got gtx \<Rightarrow>
                  (case accept_2a msg gtx of
                     Some (es, gtx') \<Rightarrow>
                       sbind (release_gtx b (rq_gid msg) gtx' tab) (\<lambda>tab.
                         Inr (reply (resp\<lparr>a2_status := status (gtx_state gtx'), a2_accepted_term := rq_term msg\<rparr>)
                               (xemit es (st\<lparr>xtab := tab\<rparr>))))
                   | None \<Rightarrow>
                       sbind (release_gtx b (rq_gid msg) gtx tab) (\<lambda>tab. Inr (reply resp (st\<lparr>xtab := tab\<rparr>))))
              | _ \<Rightarrow> Inr (reply resp st)))"

definition handle_finish :: "int \<Rightarrow> int \<Rightarrow> MtmTxRequest \<Rightarrow> xnode \<Rightarrow> xact_err + xnode" where
  "handle_finish b me msg st = finish_entry b me (\<lambda>_. rq_type msg = MTReq_Commit) (rq_gid msg) st"

section \<open>The message loop\<close>

record replier =
  rp_state :: MtmState
  rp_node :: xnode
  rp_set :: txset

definition check_message ::
  "int \<Rightarrow> int \<Rightarrow> MtmConfig \<Rightarrow> (int \<Rightarrow> int) \<Rightarrow> int \<times> MtmMessage \<Rightarrow> replier \<Rightarrow> xact_err + replier" where
  "check_message b me cfg dmq_dest_id m rp =
     (case m of (sender_mask_pos, raw_msg) \<Rightarrow>
      let sender_node_id = sender_mask_pos + 1;
          dest_id = dmq_dest_id sender_node_id
      in if dest_id < 0 then Inl BrokenAssert
         else case raw_msg of
           T_MtmTxRequest msg \<Rightarrow>
             (case rq_type msg of
                MTReq_Status \<Rightarrow>
                  Inr (rp\<lparr>rp_set := AList.update (rq_gid msg) (empty_entry msg me sender_node_id dest_id) (rp_set rp)\<rparr>)
              | MTReq_Preabort \<Rightarrow> sbind (handle_2a b me msg dest_id (rp_node rp)) (\<lambda>st. Inr (rp\<lparr>rp_node := st\<rparr>))
              | MTReq_Precommit \<Rightarrow> sbind (handle_2a b me msg dest_id (rp_node rp)) (\<lambda>st. Inr (rp\<lparr>rp_node := st\<rparr>))
              | _ \<Rightarrow> sbind (handle_finish b me msg (rp_node rp)) (\<lambda>st. Inr (rp\<lparr>rp_node := st\<rparr>)))
         | T_MtmGenVoteRequest req \<Rightarrow>
             (case HandleGenVoteRequest me cfg (vq_gen req) sender_node_id dest_id (rp_state rp) of
                None \<Rightarrow> Inl BrokenAssert | Some s \<Rightarrow> Inr (rp\<lparr>rp_state := s\<rparr>))
         | _ \<Rightarrow> Inl BrokenAssert)"

text \<open>
  \<open>msgs\<close> are the messages that can be popped, \<open>room\<close> is how many more the loop may take. The result
  says whether the loop stopped because the batch was full.
\<close>

fun check_loop ::
  "int \<Rightarrow> int \<Rightarrow> MtmConfig \<Rightarrow> (int \<Rightarrow> int) \<Rightarrow> nat \<Rightarrow> (int \<times> MtmMessage) list \<Rightarrow> replier \<Rightarrow> xact_err + (bool \<times> replier)" where
  "check_loop b me cfg dests room [] rp = Inr (False, rp)"
| "check_loop b me cfg dests room (m # ms) rp =
     sbind (check_message b me cfg dests m rp) (\<lambda>rp.
       if room \<le> 1 then Inr (True, rp) else check_loop b me cfg dests (room - 1) ms rp)"

text \<open>\<open>broken\<close> says that the last pop failed for another reason than an empty queue.\<close>

definition check_status_requests ::
  "int \<Rightarrow> int \<Rightarrow> MtmConfig \<Rightarrow> (int \<Rightarrow> int) \<Rightarrow> nat \<Rightarrow> wal_record list list \<Rightarrow> (xnode \<Rightarrow> xnode) \<Rightarrow>
   (int \<times> MtmMessage) list \<Rightarrow> bool \<Rightarrow> bool \<Rightarrow> MtmState \<Rightarrow> xnode \<Rightarrow> xact_err + (bool \<times> MtmState \<times> xnode)" where
  "check_status_requests b me cfg dests MaxBackends wal others msgs broken job_pending s st =
     sbind (check_loop b me cfg dests (n_nodes cfg * MaxBackends + 100) msgs
              \<lparr>rp_state = s, rp_node = st, rp_set = []\<rparr>) (\<lambda>(full, rp).
       sbind (handle_1a_batch b me wal (last_online_in (rp_state rp)) others (rp_set rp) (rp_node rp)) (\<lambda>st.
         Inr (job_pending \<or> full \<or> broken, rp_state rp, st)))"


section \<open>The scan finds the outcomes\<close>

definition logged_outcome :: "string \<Rightarrow> wal_record list \<Rightarrow> GlobalTxStatus" where
  "logged_outcome g rs = (if WalCommitPrepared g \<in> set rs then GTXCommitted
     else if WalAbortPrepared g \<in> set rs then GTXAborted else GTXInvalid)"

definition one_outcome :: "wal_record list \<Rightarrow> string \<Rightarrow> bool" where
  "one_outcome rs g \<longleftrightarrow>
     length (filter (\<lambda>r. r = WalCommitPrepared g \<or> r = WalAbortPrepared g) rs) \<le> 1"

lemma one_outcome_step:
  assumes "one_outcome (seen @ r # rest) g" and "r = WalCommitPrepared g \<or> r = WalAbortPrepared g"
  shows "logged_outcome g seen = GTXInvalid"
  using assms by (auto simp: one_outcome_def logged_outcome_def filter_empty_conv)

lemma one_outcome_final:
  assumes "one_outcome (seen @ rest) g" and "logged_outcome g seen \<noteq> GTXInvalid"
  shows "logged_outcome g (seen @ rest) = logged_outcome g seen"
proof -
  let ?P = "\<lambda>r. r = WalCommitPrepared g \<or> r = WalAbortPrepared g"
  have "filter ?P seen \<noteq> []" using assms(2) by (auto simp: logged_outcome_def filter_empty_conv split: if_splits)
  then have "0 < length (filter ?P seen)" by blast
  with assms(1) have "length (filter ?P rest) = 0"
    unfolding one_outcome_def filter_append length_append by linarith
  then have "\<forall>r \<in> set rest. \<not> ?P r" by (simp add: filter_empty_conv)
  then show ?thesis by (auto simp: logged_outcome_def)
qed

text \<open>After the records \<open>seen\<close>, the set tells their outcomes and \<open>n\<close> how many are missing.\<close>

definition scanned :: "string set \<Rightarrow> wal_record list \<Rightarrow> txset \<times> int \<Rightarrow> bool" where
  "scanned G seen x \<longleftrightarrow> dom (map_of (fst x)) = G \<and>
     snd x = int (card {g \<in> G. logged_outcome g seen = GTXInvalid}) \<and>
     (\<forall>g txse. map_of (fst x) g = Some txse \<longrightarrow> status (sr_state (te_resp txse)) = logged_outcome g seen \<and>
        (te_prepare_seen txse \<longleftrightarrow> WalPrepare g \<in> set seen))"

lemma logged_outcome_snoc [simp]:
  "logged_outcome g (seen @ [WalPrepare k]) = logged_outcome g seen"
  "logged_outcome g (seen @ [WalOther]) = logged_outcome g seen"
  "logged_outcome g (seen @ [WalCommitPrepared k]) = (if k = g then GTXCommitted else logged_outcome g seen)"
  "k \<noteq> g \<Longrightarrow> logged_outcome g (seen @ [WalAbortPrepared k]) = logged_outcome g seen"
  "logged_outcome g seen = GTXInvalid \<Longrightarrow> logged_outcome g (seen @ [WalAbortPrepared g]) = GTXAborted"
  by (auto simp: logged_outcome_def)

lemma missing_decreases:
  assumes "finite G" and "g \<in> G" and "logged_outcome g seen = GTXInvalid"
    and "\<And>k. logged_outcome k seen' = (if k = g then s else logged_outcome k seen)" and "s \<noteq> GTXInvalid"
  shows "int (card {k \<in> G. logged_outcome k seen' = GTXInvalid}) =
    int (card {k \<in> G. logged_outcome k seen = GTXInvalid}) - 1"
proof -
  have "{k \<in> G. logged_outcome k seen = GTXInvalid} = insert g {k \<in> G. logged_outcome k seen' = GTXInvalid}"
    using assms(2-5) by auto
  moreover have "g \<notin> {k \<in> G. logged_outcome k seen' = GTXInvalid}" using assms(4,5) by simp
  ultimately show ?thesis using assms(1) by simp
qed

lemma scanned_finite: "scanned G seen x \<Longrightarrow> finite G"
  using finite_dom_map_of [of "fst x"] by (auto simp: scanned_def)

lemma scanned_outcome:
  assumes x: "scanned G seen (ts, n)" and g: "map_of ts g = Some txse"
    and new: "logged_outcome g seen = GTXInvalid"
    and r: "r = WalCommitPrepared g \<and> s = GTXCommitted \<or> r = WalAbortPrepared g \<and> s = GTXAborted"
  shows "scanned G (seen @ [r]) (AList.update g (set_status s txse) ts, n - 1)"
proof -
  have out: "logged_outcome k (seen @ [r]) = (if k = g then s else logged_outcome k seen)" for k
    using r new by auto
  have "g \<in> G" using x g by (auto simp: scanned_def)
  from missing_decreases [OF scanned_finite [OF x] this new out] r x
  have "n - 1 = int (card {k \<in> G. logged_outcome k (seen @ [r]) = GTXInvalid})"
    by (auto simp: scanned_def)
  then show ?thesis
    using x g r unfolding scanned_def out
    by (auto simp: update_conv' set_status_def dom_def split: if_splits)
qed

lemma scanned_record:
  assumes x: "scanned G seen x" and one: "\<forall>g \<in> G. one_outcome (seen @ r # rest) g"
  shows "scanned G (seen @ [r]) (scan_record r x)"
proof -
  obtain ts n where xx: "x = (ts, n)" by (cases x)
  have new: "logged_outcome g seen = GTXInvalid"
    if "map_of ts g = Some txse" "r = WalCommitPrepared g \<or> r = WalAbortPrepared g" for g txse
  proof (rule one_outcome_step)
    have "g \<in> G" using x that(1) by (auto simp: scanned_def xx)
    with one show "one_outcome (seen @ r # rest) g" by blast
  qed (rule that(2))
  have absent: "logged_outcome k (seen @ [r]) = logged_outcome k seen"
    if "map_of ts g = None" "r = WalCommitPrepared g \<or> r = WalAbortPrepared g" "k \<in> G" for g k
    using that x by (cases "k = g") (auto simp: scanned_def xx)
  show ?thesis
  proof (cases r)
    case (WalPrepare g)
    then show ?thesis
      using x by (auto simp: scanned_def xx update_conv' dom_def split: option.splits if_splits)
  next
    case (WalCommitPrepared g)
    then show ?thesis
      using x new absent scanned_outcome [OF x [unfolded xx], of g _ r GTXCommitted]
      by (cases "map_of ts g") (force simp: scanned_def xx cong: conj_cong)+
  next
    case (WalAbortPrepared g)
    then show ?thesis
      using x new absent scanned_outcome [OF x [unfolded xx], of g _ r GTXAborted]
      by (cases "map_of ts g") (force simp: scanned_def xx cong: conj_cong)+
  next
    case WalOther
    then show ?thesis using x by (auto simp: scanned_def)
  qed
qed


text \<open>The loops stop early only when nothing is missing.\<close>

definition scanned_enough :: "string set \<Rightarrow> wal_record list \<Rightarrow> txset \<times> int \<Rightarrow> bool" where
  "scanned_enough G rs x \<longleftrightarrow>
     (\<exists>seen rest. rs = seen @ rest \<and> scanned G seen x \<and> (snd x = 0 \<or> rest = []))"

lemma scanned_nonneg: "scanned G seen x \<Longrightarrow> 0 \<le> snd x"
  by (simp add: scanned_def)

lemma scan_segment_enough:
  assumes "scanned G seen x" and "\<forall>g \<in> G. one_outcome (seen @ rs) g"
  shows "scanned_enough G (seen @ rs) (scan_segment rs x)"
  using assms
proof (induction rs arbitrary: seen x)
  case Nil
  then show ?case by (auto simp: scanned_enough_def)
next
  case (Cons r rs)
  let ?x = "scan_record r x"
  have x: "scanned G (seen @ [r]) ?x" using scanned_record [OF Cons.prems] .
  show ?case
  proof (cases "0 < snd ?x")
    case True
    then show ?thesis using Cons.IH [OF x] Cons.prems(2) by simp
  next
    case False
    then have "snd ?x = 0" using scanned_nonneg [OF x] by simp
    with x show ?thesis
      by (auto simp: scanned_enough_def intro: exI [of _ "seen @ [r]"])
  qed
qed

lemma scan_segments_enough:
  assumes "scanned G seen x" and "\<forall>g \<in> G. one_outcome (seen @ concat segs) g"
  shows "scanned_enough G (seen @ concat segs) (scan_segments segs x)"
  using assms
proof (induction segs arbitrary: seen x)
  case Nil
  then show ?case by (auto simp: scanned_enough_def)
next
  case (Cons rs segs)
  let ?x = "scan_segment rs x"
  have "\<forall>g \<in> G. one_outcome (seen @ rs) g" using Cons.prems(2) by (auto simp: one_outcome_def)
  from scan_segment_enough [OF Cons.prems(1) this] obtain s rest where
    s: "seen @ rs = s @ rest" "scanned G s ?x" "snd ?x = 0 \<or> rest = []"
    by (auto simp: scanned_enough_def)
  show ?case
  proof (cases "snd ?x = 0")
    case True
    moreover have "seen @ concat (rs # segs) = s @ rest @ concat segs"
      using s(1) by (metis append.assoc concat.simps(2))
    ultimately show ?thesis using s(2) unfolding scanned_enough_def
      by (intro exI [of _ s] exI [of _ "rest @ concat segs"]) simp
  next
    case False
    with s have "scanned G (seen @ rs) ?x" by simp
    from Cons.IH [OF this] Cons.prems(2) False show ?thesis by simp
  qed
qed

definition fresh_txset :: "txset \<Rightarrow> bool" where
  "fresh_txset ts \<longleftrightarrow> distinct (map fst ts) \<and>
     list_all (\<lambda>(g, txse). rq_gid (te_req txse) = g \<and> \<not> te_prepare_seen txse \<and>
       sr_state (te_resp txse) = \<lparr>proposal = InvalidGTxTerm, accepted = InvalidGTxTerm, status = GTXInvalid\<rparr>) ts"

lemma fresh_txset_scanned:
  assumes "fresh_txset ts"
  shows "scanned (fst ` set ts) [] (ts, int (length ts))"
proof -
  have "card (fst ` set ts) = length ts"
    using assms distinct_card [of "map fst ts"] by (simp add: fresh_txset_def)
  with assms show ?thesis
    by (auto simp: scanned_def fresh_txset_def logged_outcome_def dom_map_of_conv_image_fst list_all_iff
        dest!: map_of_SomeD)
qed


definition sample_req :: "string \<Rightarrow> MtmTxRequest" where
  "sample_req g = \<lparr>rq_type = MTReq_Status, rq_term = GlobalTxTerm 2 1, rq_gid = g, rq_coordinator = 2,
     rq_gen_num = 3, rq_coordinator_end_lsn = 0\<rparr>"


text \<open>
  The scan counts records, not gids: when the log has two outcomes of one requested gid (a user
  may prepare and finish the same name twice), the scan stops before the outcome of another one.
\<close>

theorem wal_scan_counts_records:
  assumes "a \<noteq> g"
  shows "map_of (GetLoggedPreparedXactState [[WalCommitPrepared a, WalCommitPrepared a, WalCommitPrepared g]]
      [(a, ea), (g, eg)]) g = Some eg"
  using assms by (simp add: GetLoggedPreparedXactState_def update_conv')

theorem wal_scan_counts_records_witness:
  "map_of (GetLoggedPreparedXactState [[WalCommitPrepared ''a'', WalCommitPrepared ''a'', WalCommitPrepared ''b'']]
      [(''a'', empty_entry (sample_req ''a'') 1 2 0), (''b'', empty_entry (sample_req ''b'') 1 2 0)]) ''b''
    = Some (empty_entry (sample_req ''b'') 1 2 0)"
  by (rule wal_scan_counts_records) simp


section \<open>Answers to status requests\<close>

definition invalid_state :: GTxState where
  "invalid_state = \<lparr>proposal = InvalidGTxTerm, accepted = InvalidGTxTerm, status = GTXInvalid\<rparr>"

text \<open>
  What may happen to the voting state of a gid when a status request for it is answered: a promise
  for the term of the request, which must be newer than any promise given before, or nothing.
\<close>

definition promised :: "MtmTxRequest \<Rightarrow> gid2gtx \<Rightarrow> gid2gtx \<Rightarrow> GTxState \<Rightarrow> bool" where
  "promised req tab tab' st \<longleftrightarrow> \<not> IS_EXPLICIT_2PC_GID (rq_gid req) \<and>
     (\<exists>gtx. map_of tab (rq_gid req) = Some gtx \<and> proposal (gtx_state gtx) < rq_term req \<and>
        st = (gtx_state gtx)\<lparr>proposal := rq_term req\<rparr> \<and>
        (\<exists>gtx'. map_of tab' (rq_gid req) = Some gtx' \<and> prepared gtx' \<and> gtx_state gtx' = st))"

definition untouched :: "string \<Rightarrow> gid2gtx \<Rightarrow> gid2gtx \<Rightarrow> bool" where
  "untouched g tab tab' \<longleftrightarrow> map_option gtx_state (map_of tab' g) = map_option gtx_state (map_of tab g)"

lemma gtx_state_promise: "\<lparr>proposal = t, accepted = accepted s, status = status s\<rparr> = s\<lparr>proposal := t\<rparr>"
  by (cases s) simp

lemma handle_1a_gtx_cases:
  obtains (vote) "proposal (gtx_state gtx) < rq_term msg"
      "handle_1a_gtx msg gtx resp =
         ([set_state gtx ((gtx_state gtx)\<lparr>proposal := rq_term msg\<rparr>)],
          gtx\<lparr>gtx_state := (gtx_state gtx)\<lparr>proposal := rq_term msg\<rparr>\<rparr>,
          resp\<lparr>sr_state := (gtx_state gtx)\<lparr>proposal := rq_term msg\<rparr>\<rparr>)"
  | (stale) "rq_term msg \<le> proposal (gtx_state gtx)" "handle_1a_gtx msg gtx resp = ([], gtx, resp)"
proof (cases "proposal (gtx_state gtx) < rq_term msg")
  case True
  then show ?thesis by (intro vote) (simp_all add: handle_1a_gtx_def gtx_state_promise)
next
  case False
  then show ?thesis by (intro stale) (simp_all add: handle_1a_gtx_def)
qed

lemma answer_1a_spec:
  assumes st: "gtx_table_ok (xtab st)" "xsynced st"
    and gtx: "map_of (xtab st) g = Some gtx" "acquired_by gtx = b" "prepared gtx" "\<not> gtx_final gtx" "gid gtx = g"
    and b: "b \<noteq> InvalidBackendId" and g: "rq_gid (te_req txse) = g"
  shows "\<exists>es tab' resp. answer_1a b txse gtx st = Inr (txse\<lparr>te_resp := resp\<rparr>, xemit es (st\<lparr>xtab := tab'\<rparr>)) \<and>
    xnode_ok (xemit es (st\<lparr>xtab := tab'\<rparr>)) \<and> replies es = [] \<and> sr_gid resp = sr_gid (te_resp txse) \<and>
    (promised (te_req txse) (xtab st) tab' (sr_state resp) \<or>
     resp = te_resp txse \<and> untouched g (xtab st) tab')"
proof (cases "IS_EXPLICIT_2PC_GID g \<or> rq_term (te_req txse) \<le> proposal (gtx_state gtx)")
  case True
  have eq: "(if \<not> IS_EXPLICIT_2PC_GID (gid gtx) then handle_1a_gtx (te_req txse) gtx (te_resp txse)
      else ([], gtx, te_resp txse)) = ([], gtx, te_resp txse)"
    using True gtx(5) by (auto simp: handle_1a_gtx_def)
  obtain tab' where r: "release_gtx b g gtx (xtab st) = Inr tab'" "xnode_ok (xemit [] (st\<lparr>xtab := tab'\<rparr>))"
    "\<forall>k. map_of tab' k = (if k = g then Some (gtx\<lparr>acquired_by := InvalidBackendId\<rparr>) else map_of (xtab st) k)"
    using vote_and_release [OF st gtx b, of gtx "[]"] gtx(4) by auto
  then show ?thesis
    unfolding answer_1a_def eq
    by (intro exI [of _ "[]"] exI [of _ tab'] exI [of _ "te_resp txse"])
      (simp add: g gtx(1) untouched_def)
next
  case False
  let ?s = "(gtx_state gtx)\<lparr>proposal := rq_term (te_req txse)\<rparr>"
  let ?gtx = "gtx\<lparr>gtx_state := ?s\<rparr>" and ?es = "[set_state gtx ?s]"
  have eq: "(if \<not> IS_EXPLICIT_2PC_GID (gid gtx) then handle_1a_gtx (te_req txse) gtx (te_resp txse)
      else ([], gtx, te_resp txse)) = (?es, ?gtx, (te_resp txse)\<lparr>sr_state := ?s\<rparr>)"
    using False gtx(5) by (auto simp: handle_1a_gtx_def gtx_state_promise)
  obtain tab' where r: "release_gtx b g ?gtx (xtab st) = Inr tab'" "xnode_ok (xemit ?es (st\<lparr>xtab := tab'\<rparr>))"
    "\<forall>k. map_of tab' k = (if k = g then Some (?gtx\<lparr>acquired_by := InvalidBackendId\<rparr>) else map_of (xtab st) k)"
    using vote_and_release [OF st gtx b, of ?gtx ?es] gtx(4) by (auto simp: gtx_final_def)
  then show ?thesis
    using False unfolding answer_1a_def eq
    by (intro exI [of _ ?es] exI [of _ tab'] exI [of _ "(te_resp txse)\<lparr>sr_state := ?s\<rparr>"])
      (simp add: g gtx(1,3) promised_def not_le)
qed


text \<open>An entry of the batch keeps who asked what, whatever is filled in as the answer.\<close>

definition same_request :: "txset_entry \<Rightarrow> txset_entry \<Rightarrow> bool" where
  "same_request txse txse' \<longleftrightarrow> te_req txse' = te_req txse \<and> te_dest_id txse' = te_dest_id txse \<and>
     sr_gid (te_resp txse') = sr_gid (te_resp txse)"

text \<open>The scan also leaves the terms of the answer.\<close>

definition same_terms :: "txset_entry \<Rightarrow> txset_entry \<Rightarrow> bool" where
  "same_terms txse txse' \<longleftrightarrow> same_request txse txse' \<and>
     proposal (sr_state (te_resp txse')) = proposal (sr_state (te_resp txse))"

definition rel_entries :: "(txset_entry \<Rightarrow> txset_entry \<Rightarrow> bool) \<Rightarrow> txset \<Rightarrow> txset \<Rightarrow> bool" where
  "rel_entries R ts ts' \<longleftrightarrow> (\<forall>g. rel_option R (map_of ts g) (map_of ts' g))"

abbreviation same_requests :: "txset \<Rightarrow> txset \<Rightarrow> bool" where
  "same_requests \<equiv> rel_entries same_request"

lemma same_request_order [simp]: "reflp same_request" "transp same_request" "reflp same_terms" "transp same_terms"
  by (auto simp: same_request_def same_terms_def reflp_def transp_def)

lemma same_request_refl [simp]: "same_request txse txse"
  by (simp add: same_request_def)

lemma rel_entries_refl [simp]: "reflp R \<Longrightarrow> rel_entries R ts ts"
  by (simp add: rel_entries_def option.rel_refl reflpD)

lemma rel_entries_trans:
  assumes "transp R" and "rel_entries R ts ts'" and "rel_entries R ts' ts''"
  shows "rel_entries R ts ts''"
  using assms(2,3) transpD [OF option.rel_transp [OF assms(1)]] unfolding rel_entries_def by blast

lemma rel_entries_update:
  "reflp R \<Longrightarrow> map_of ts g = Some txse \<Longrightarrow> R txse txse' \<Longrightarrow> rel_entries R ts (AList.update g txse' ts)"
  by (simp add: rel_entries_def update_conv' option.rel_refl reflpD)

lemma rel_entries_Some:
  assumes "rel_entries R ts ts'" and "map_of ts g = Some txse"
  obtains txse' where "map_of ts' g = Some txse'" "R txse txse'"
proof -
  have "rel_option R (Some txse) (map_of ts' g)"
    using assms unfolding rel_entries_def by metis
  then show ?thesis using that by (cases "map_of ts' g") auto
qed

lemma scan_record_terms: "rel_entries same_terms (fst x) (fst (scan_record r x))"
  by (cases "(r, x)" rule: scan_record.cases)
    (auto split: option.splits intro!: rel_entries_update simp: same_request_def same_terms_def set_status_def)

lemma scan_segment_terms: "rel_entries same_terms (fst x) (fst (scan_segment rs x))"
proof (induction rs arbitrary: x)
  case (Cons r rs)
  show ?case
    using rel_entries_trans [OF _ scan_record_terms Cons.IH] scan_record_terms
    by (auto simp: Let_def)
qed simp

lemma scan_segments_terms: "rel_entries same_terms (fst x) (fst (scan_segments segs x))"
proof (induction segs arbitrary: x)
  case (Cons rs segs)
  show ?case
    using rel_entries_trans [OF _ scan_segment_terms Cons.IH] scan_segment_terms
    by (auto simp: Let_def)
qed simp

lemma scan_once_terms: "rel_entries same_terms (bt_set bt) (bt_set (scan_once wal loi bt))"
  using scan_segments_terms [of "(bt_set bt, int (length (bt_set bt)))" wal]
  by (simp add: scan_once_def GetLoggedPreparedXactState_def)

lemma scan_once_requests: "same_requests (bt_set bt) (bt_set (scan_once wal loi bt))"
proof -
  have "same_terms \<le> same_request" by (auto simp: same_terms_def)
  from option.rel_mono [OF this] show ?thesis
    using scan_once_terms [of bt wal loi] unfolding rel_entries_def by blast
qed

text \<open>
  The kinds of answers: a promise; no answer to the question; the outcome the log has; and abort for
  a transaction that can no longer be prepared here. Only the first changes the vote.
\<close>

definition answered :: "string \<Rightarrow> xnode \<Rightarrow> batch \<Rightarrow> batch \<Rightarrow> txset_entry \<Rightarrow> bool" where
  "answered g st bt scn txse' \<longleftrightarrow>
     (\<exists>tab. promised (te_req txse') tab (xtab st) (sr_state (te_resp txse')) \<and>
            tab \<in> {xtab (bt_node bt), xtab (bt_node scn)}) \<or>
     untouched g (xtab (bt_node bt)) (xtab st) \<and> map_option te_resp (map_of (bt_set bt) g) = Some (te_resp txse') \<or>
     untouched g (xtab (bt_node scn)) (xtab st) \<and>
       (\<exists>txse. map_of (bt_set scn) g = Some txse \<and>
          (txse' = txse \<or>
           status (sr_state (te_resp txse)) \<noteq> GTXCommitted \<and> map_of (xtab (bt_node scn)) g = None \<and>
           direct_abort txse (bt_last_online_in scn) \<and> txse' = set_status GTXAborted txse))"

text \<open>The batch when the second look at the table is taken.\<close>

definition rescan :: "wal_record list list \<Rightarrow> uint64 \<Rightarrow> (xnode \<Rightarrow> xnode) \<Rightarrow> batch \<Rightarrow> batch" where
  "rescan wal loi others bt = (scan_once wal loi bt)\<lparr>bt_node := others (bt_node bt)\<rparr>"

definition step_1a :: "string \<Rightarrow> batch \<Rightarrow> batch \<Rightarrow> batch \<Rightarrow> bool" where
  "step_1a g bt scn bt' \<longleftrightarrow> xnode_ok (bt_node bt') \<and> same_requests (bt_set bt) (bt_set bt') \<and>
     (\<exists>txse'. map_of (bt_set bt') g = Some txse' \<and> answered g (bt_node bt') bt scn txse' \<and>
        replies (xtrace (bt_node bt')) = replies (xtrace (bt_node bt)) @
          [(te_dest_id txse', T_MtmTxStatusResponse (te_resp txse'))])"

lemma lock_untouched:
  assumes "lock_gtx b me g nowait coord tab = Inr (tab', r)"
  shows "untouched g tab tab'" "promised req tab' tab'' s \<Longrightarrow> rq_gid req = g \<Longrightarrow> promised req tab tab'' s"
  using lock_gtx_table [OF assms]
  by (auto simp: untouched_def promised_def split: locked.splits if_splits)

lemma finish_1a_step:
  assumes "xnode_ok st" and "replies (xtrace st) = replies (xtrace (bt_node bt))"
    and "same_requests (bt_set bt) (bt_set bt1)" and "map_of (bt_set bt1) g = Some txse" and "same_request txse txse'"
    and "answered g st bt scn txse'"
  shows "step_1a g bt scn (finish_1a g bt1 (txse', st))"
proof -
  have "same_requests (bt_set bt) (AList.update g txse' (bt_set bt1))"
    by (rule rel_entries_trans [OF _ assms(3) rel_entries_update [of same_request, OF _ assms(4,5)]]) simp_all
  moreover have "xnode_ok (reply_1a txse' st)"
    using assms(1) by (simp add: xnode_ok_def reply_1a_def xsynced_reply)
  ultimately show ?thesis
    using assms(2,6) by (simp add: step_1a_def finish_1a_def update_conv' reply_1a_def answered_def)
qed


lemma got_1a_step:
  assumes st: "xnode_ok st" and b: "b \<noteq> InvalidBackendId" and g: "rq_gid (te_req txse) = g"
    and lock: "lock_gtx b me g nowait coord (xtab st) = Inr (tab, Got gtx)"
    and bt1: "same_requests (bt_set bt) (bt_set bt1)" "map_of (bt_set bt1) g = Some txse"
    and tr: "replies (xtrace st) = replies (xtrace (bt_node bt))"
    and ans: "\<And>st' resp. promised (te_req txse) (xtab st) (xtab st') (sr_state resp) \<or>
        resp = te_resp txse \<and> untouched g (xtab st) (xtab st') \<Longrightarrow> answered g st' bt scn (txse\<lparr>te_resp := resp\<rparr>)"
  shows "\<exists>bt'. sbind (answer_1a b txse gtx (st\<lparr>xtab := tab\<rparr>)) (\<lambda>x. Inr (finish_1a g bt1 x)) = Inr bt' \<and>
    step_1a g bt scn bt'"
proof -
  note ok = lock_node_ok [OF st b lock]
  have tok: "gtx_table_ok (xtab st)" using st by (simp add: xnode_ok_def)
  note gtx = lock_gtx_Got [OF tok b lock]
  have "gtx_table_ok (xtab (st\<lparr>xtab := tab\<rparr>))" "map_of (xtab (st\<lparr>xtab := tab\<rparr>)) g = Some gtx"
    using ok(1) gtx(2) by simp_all
  from answer_1a_spec [OF this(1) ok(2) this(2) gtx(3-6) b g] obtain es tab' resp where
    a: "answer_1a b txse gtx (st\<lparr>xtab := tab\<rparr>) = Inr (txse\<lparr>te_resp := resp\<rparr>, xemit es (st\<lparr>xtab := tab'\<rparr>))"
      "xnode_ok (xemit es (st\<lparr>xtab := tab'\<rparr>))" "replies es = []" "sr_gid resp = sr_gid (te_resp txse)"
      "promised (te_req txse) tab tab' (sr_state resp) \<or> resp = te_resp txse \<and> untouched g tab tab'"
    by auto
  have "promised (te_req txse) (xtab st) tab' (sr_state resp) \<or> resp = te_resp txse \<and> untouched g (xtab st) tab'"
    using a(5) lock_untouched [OF lock] g by (auto simp: untouched_def)
  then have "answered g (xemit es (st\<lparr>xtab := tab'\<rparr>)) bt scn (txse\<lparr>te_resp := resp\<rparr>)" by (intro ans) simp
  with finish_1a_step [OF a(2) _ bt1, of "txse\<lparr>te_resp := resp\<rparr>" scn] a(1,3,4) tr
  show ?thesis by (auto simp: same_request_def)
qed

lemma handle_1a_logged_step:
  assumes st: "xnode_ok (bt_node scn)" and b: "b \<noteq> InvalidBackendId"
    and req: "same_requests (bt_set bt) (bt_set scn)" "map_of (bt_set scn) g = Some txse" "rq_gid (te_req txse) = g"
    and tr: "replies (xtrace (bt_node scn)) = replies (xtrace (bt_node bt))"
  shows "handle_1a_logged b me g txse scn = Inl Blocked \<or>
    (\<exists>bt'. handle_1a_logged b me g txse scn = Inr bt' \<and> step_1a g bt scn bt')"
proof (cases "status (sr_state (te_resp txse)) = GTXCommitted \<or> status (sr_state (te_resp txse)) = GTXAborted")
  case True
  moreover have "answered g (bt_node scn) bt scn txse"
    using req(2) by (simp add: answered_def untouched_def)
  ultimately show ?thesis
    using finish_1a_step [OF st tr req(1,2), of txse scn] by (auto simp: handle_1a_logged_def)
next
  case False
  have tok: "gtx_table_ok (xtab (bt_node scn))" using st by (simp add: xnode_ok_def)
  consider "lock_gtx b me g False 0 (xtab (bt_node scn)) = Inl Blocked"
    | (lock) tab r where "lock_gtx b me g False 0 (xtab (bt_node scn)) = Inr (tab, r)"
    using lock_gtx_total [OF tok b] by metis
  then show ?thesis
  proof cases
    case 1
    then show ?thesis using False by (simp add: handle_1a_logged_def)
  next
    case (lock tab r)
    note ok = lock_node_ok [OF st b lock]
    show ?thesis
    proof (cases "\<exists>gtx. r = Got gtx")
      case True
      then obtain gtx where r: "r = Got gtx" by blast
      have "answered g st' bt scn (txse\<lparr>te_resp := resp\<rparr>)"
        if "promised (te_req txse) (xtab (bt_node scn)) (xtab st') (sr_state resp) \<or>
          resp = te_resp txse \<and> untouched g (xtab (bt_node scn)) (xtab st')" for st' resp
        using that req(2) by (auto simp: answered_def)
      with got_1a_step [OF st b req(3) lock [unfolded r] req(1,2) tr] show ?thesis
        using False lock by (auto simp: handle_1a_logged_def r)
    next
      case no: False
      let ?t = "if direct_abort txse (bt_last_online_in scn) then set_status GTXAborted txse else txse"
      have "map_of (xtab (bt_node scn)) g = None"
        using no lock by (auto simp: lock_gtx_def GlobalTxAcquire.simps GlobalTxAcquire_round_def
            split: option.splits if_splits)
      then have "answered g ((bt_node scn)\<lparr>xtab := tab\<rparr>) bt scn ?t"
        using req(2) False lock_untouched(1) [OF lock] by (auto simp: answered_def)
      moreover have "same_request txse ?t" by (simp add: same_request_def set_status_def)
      ultimately have "step_1a g bt scn (finish_1a g scn (?t, (bt_node scn)\<lparr>xtab := tab\<rparr>))"
        using tr by (intro finish_1a_step [OF ok(3) _ req(1,2)]) simp_all
      moreover have "handle_1a_logged b me g txse scn = Inr (finish_1a g scn (?t, (bt_node scn)\<lparr>xtab := tab\<rparr>))"
        using False no lock by (cases r) (simp_all add: handle_1a_logged_def Let_def)
      ultimately show ?thesis by blast
    qed
  qed
qed

lemma handle_1a_step:
  assumes st: "xnode_ok (bt_node bt)" and b: "b \<noteq> InvalidBackendId" and oth: "harmless others"
    and req: "map_of (bt_set bt) g = Some txse" "rq_gid (te_req txse) = g"
  shows "handle_1a b me wal loi others g bt = Inl Blocked \<or>
    (\<exists>bt'. handle_1a b me wal loi others g bt = Inr bt' \<and> step_1a g bt (rescan wal loi others bt) bt')"
proof -
  let ?lock = "lock_gtx b me g True (rq_coordinator (te_req txse)) (xtab (bt_node bt))"
  have tok: "gtx_table_ok (xtab (bt_node bt))" using st by (simp add: xnode_ok_def)
  consider "?lock = Inl Blocked" | (lock) tab r where "?lock = Inr (tab, r)"
    using lock_gtx_total [OF tok b] by metis
  then show ?thesis
  proof cases
    case 1
    then show ?thesis using req(1) by (simp add: handle_1a_def)
  next
    case (lock tab r)
    note ok = lock_node_ok [OF st b lock]
    let ?bt = "bt\<lparr>bt_node := (bt_node bt)\<lparr>xtab := tab\<rparr>\<rparr>"
    let ?scn = "rescan wal loi others bt"
    show ?thesis
    proof (cases r)
      case (Got gtx)
      have "answered g st' bt ?scn (txse\<lparr>te_resp := resp\<rparr>)"
        if "promised (te_req txse) (xtab (bt_node bt)) (xtab st') (sr_state resp) \<or>
          resp = te_resp txse \<and> untouched g (xtab (bt_node bt)) (xtab st')" for st' resp
        using that req(1) by (auto simp: answered_def)
      with got_1a_step [OF st b req(2) lock [unfolded Got], of bt ?bt ?scn] show ?thesis
        using lock req(1) by (auto simp: handle_1a_def Got)
    next
      case Busy
      have "answered g ((bt_node bt)\<lparr>xtab := tab\<rparr>) bt ?scn txse"
        using lock_untouched(1) [OF lock] req(1) by (simp add: answered_def)
      with finish_1a_step [OF ok(3), of bt ?bt g txse txse ?scn] show ?thesis
        using lock req(1) by (auto simp: handle_1a_def Busy)
    next
      case Missing
      have bt: "?bt = bt"
        using lock unfolding Missing
        by (auto simp: lock_gtx_def GlobalTxAcquire.simps GlobalTxAcquire_round_def
            split: option.splits if_splits)
      have scn: "xnode_ok (bt_node ?scn)" "replies (xtrace (bt_node ?scn)) = replies (xtrace (bt_node bt))"
        using oth st by (simp_all add: rescan_def harmless_def)
      have same: "same_requests (bt_set bt) (bt_set ?scn)"
        using scan_once_requests [of bt wal loi] by (simp add: rescan_def)
      from rel_entries_Some [OF this req(1)] obtain txse' where
        t: "map_of (bt_set ?scn) g = Some txse'" "same_request txse txse'" by blast
      have "rq_gid (te_req txse') = g" using t(2) req(2) by (simp add: same_request_def)
      from handle_1a_logged_step [OF scn(1) b same t(1) this scn(2), of me]
      have "handle_1a_logged b me g txse' ?scn = Inl Blocked \<or>
        (\<exists>bt'. handle_1a_logged b me g txse' ?scn = Inr bt' \<and> step_1a g bt ?scn bt')" .
      moreover have "handle_1a b me wal loi others g bt = handle_1a_logged b me g txse' ?scn"
        using lock req(1) t(1) by (simp add: handle_1a_def Missing rescan_def Let_def scan_once_def bt)
      ultimately show ?thesis by metis
    qed
  qed
qed


definition answer_to :: "txset_entry \<Rightarrow> int \<times> MtmMessage \<Rightarrow> bool" where
  "answer_to txse a \<longleftrightarrow> fst a = te_dest_id txse \<and>
     (\<exists>resp. snd a = T_MtmTxStatusResponse resp \<and> sr_gid resp = sr_gid (te_resp txse))"

lemma answer_to_same: "same_request txse txse' \<Longrightarrow> answer_to txse' a \<Longrightarrow> answer_to txse a"
  by (auto simp: answer_to_def same_request_def)

lemma step_1a_answer:
  assumes "step_1a g bt scn bt'" and "map_of (bt_set bt) g = Some txse"
  obtains a where "answer_to txse a"
    "replies (xtrace (bt_node bt')) = replies (xtrace (bt_node bt)) @ [a]"
proof -
  from assms(1) obtain txse' where t: "map_of (bt_set bt') g = Some txse'" "same_requests (bt_set bt) (bt_set bt')"
    "replies (xtrace (bt_node bt')) = replies (xtrace (bt_node bt)) @
          [(te_dest_id txse', T_MtmTxStatusResponse (te_resp txse'))]"
    by (auto simp: step_1a_def)
  obtain txse'' where "map_of (bt_set bt') g = Some txse''" "same_request txse txse''"
    by (rule rel_entries_Some [OF t(2) assms(2)])
  with t(1) have "same_request txse txse'" by simp
  then have "answer_to txse (te_dest_id txse', T_MtmTxStatusResponse (te_resp txse'))"
    by (auto simp: answer_to_def same_request_def)
  with t(3) show ?thesis by (rule that [rotated])
qed

lemma batch_loop_spec:
  assumes "xnode_ok (bt_node bt)" and "b \<noteq> InvalidBackendId" and "harmless others"
    and "list_all2 (\<lambda>g txse. \<exists>txse'. map_of (bt_set bt) g = Some txse' \<and> same_request txse txse' \<and> rq_gid (te_req txse) = g) gs txses"
  shows "batch_loop b me wal loi others gs bt = Inl Blocked \<or>
    (\<exists>bt' as. batch_loop b me wal loi others gs bt = Inr bt' \<and> xnode_ok (bt_node bt') \<and>
       replies (xtrace (bt_node bt')) = replies (xtrace (bt_node bt)) @ as \<and> list_all2 answer_to txses as)"
  using assms(1,4)
proof (induction gs arbitrary: txses bt)
  case Nil
  then show ?case by simp
next
  case (Cons g gs)
  from Cons.prems(2) obtain txse txses' txse' where ts: "txses = txse # txses'"
    and t: "map_of (bt_set bt) g = Some txse'" "same_request txse txse'" "rq_gid (te_req txse') = g"
    and rest: "list_all2 (\<lambda>g txse. \<exists>txse'. map_of (bt_set bt) g = Some txse' \<and> same_request txse txse' \<and> rq_gid (te_req txse) = g) gs txses'"
    by (auto simp: list_all2_Cons1 same_request_def)
  consider "handle_1a b me wal loi others g bt = Inl Blocked"
    | (ok) bt1 scn where "handle_1a b me wal loi others g bt = Inr bt1" "step_1a g bt scn bt1"
    using handle_1a_step [OF Cons.prems(1) assms(2,3) t(1,3), of me wal loi] by metis
  then show ?case
  proof cases
    case 1
    then show ?thesis by simp
  next
    case ok
    obtain a where a: "answer_to txse' a" "replies (xtrace (bt_node bt1)) = replies (xtrace (bt_node bt)) @ [a]"
      by (rule step_1a_answer [OF ok(2) t(1)])
    have bt1: "xnode_ok (bt_node bt1)" "same_requests (bt_set bt) (bt_set bt1)"
      using ok(2) by (auto simp: step_1a_def)
    have "list_all2 (\<lambda>g txse. \<exists>txse'. map_of (bt_set bt1) g = Some txse' \<and> same_request txse txse' \<and> rq_gid (te_req txse) = g) gs txses'"
      using rest
    proof (rule list_all2_mono)
      fix k e
      assume "\<exists>e'. map_of (bt_set bt) k = Some e' \<and> same_request e e' \<and> rq_gid (te_req e) = k"
      then obtain e' where e: "map_of (bt_set bt) k = Some e'" "same_request e e'" "rq_gid (te_req e) = k" by blast
      obtain e'' where "map_of (bt_set bt1) k = Some e''" "same_request e' e''"
        by (rule rel_entries_Some [OF bt1(2) e(1)])
      with e show "\<exists>e'. map_of (bt_set bt1) k = Some e' \<and> same_request e e' \<and> rq_gid (te_req e) = k"
        by (auto simp: same_request_def)
    qed
    from Cons.IH [OF bt1(1) this] show ?thesis
      using ok(1) a answer_to_same [OF t(2) a(1)] by (auto simp: ts)
  qed
qed



definition sample_batch :: "txset" where
  "sample_batch = [(''MTM-2-1'', empty_entry (sample_req ''MTM-2-1'') 1 2 0), (''u'', empty_entry (sample_req ''u'') 1 2 0)]"

lemma sample_batch_fresh: "fresh_txset sample_batch"
  by (simp add: sample_batch_def fresh_txset_def empty_entry_def sample_req_def)

lemma sample_batch_runs: "\<not> (handle_1a_batch 4 1 [] 5 (\<lambda>st. st) sample_batch sample_node = Inl Blocked)"
  by code_simp


text \<open>
  C30. A status answer that carries a proposal is a promise: it is given only for a transaction
  multimaster itself named, only for the term that was asked, which is newer than the last promise
  for that transaction, and Postgres has it on record when the answer is sent.
\<close>

theorem promise_is_durable:
  assumes "xnode_ok (bt_node bt)" and "b \<noteq> InvalidBackendId" and "harmless others"
    and "map_of (bt_set bt) g = Some txse" and "rq_gid (te_req txse) = g"
    and "proposal (sr_state (te_resp txse)) = InvalidGTxTerm"
    and "handle_1a b me wal loi others g bt = Inr bt'" and "map_of (bt_set bt') g = Some txse'"
    and "proposal (sr_state (te_resp txse')) \<noteq> InvalidGTxTerm"
  shows "\<not> IS_EXPLICIT_2PC_GID g \<and> proposal (sr_state (te_resp txse')) = rq_term (te_req txse) \<and>
    (\<exists>xi. durable_state g (xtrace (bt_node bt')) None = Some (serialize_xstate xi (sr_state (te_resp txse')))) \<and>
    (\<exists>tab \<in> {xtab (bt_node bt), xtab (others (bt_node bt))}.
       \<exists>gtx. map_of tab g = Some gtx \<and> proposal (gtx_state gtx) < rq_term (te_req txse))"
proof -
  let ?scn = "rescan wal loi others bt"
  have step: "step_1a g bt ?scn bt'"
    using handle_1a_step [OF assms(1-5), of me wal loi] assms(7) by auto
  then have ok: "xnode_ok (bt_node bt')" and ans: "answered g (bt_node bt') bt ?scn txse'"
    and req: "same_requests (bt_set bt) (bt_set bt')"
    using assms(8) by (auto simp: step_1a_def)
  obtain e where "map_of (bt_set bt') g = Some e" "same_request txse e"
    by (rule rel_entries_Some [OF req assms(4)])
  with assms(8) have same: "te_req txse' = te_req txse" by (simp add: same_request_def)
  obtain scanned where sc: "map_of (bt_set ?scn) g = Some scanned" "same_terms txse scanned"
    using rel_entries_Some [OF scan_once_terms assms(4)] by (auto simp: rescan_def)
  then have "proposal (sr_state (te_resp scanned)) = InvalidGTxTerm"
    using assms(6) by (simp add: same_terms_def)
  then obtain tab where p: "promised (te_req txse') tab (xtab (bt_node bt')) (sr_state (te_resp txse'))"
    "tab \<in> {xtab (bt_node bt), xtab (bt_node ?scn)}"
    using ans assms(4,6,9) sc(1) by (auto simp: answered_def set_status_def)
  then obtain gtx gtx' where gtx: "map_of tab g = Some gtx" "proposal (gtx_state gtx) < rq_term (te_req txse)"
    "\<not> IS_EXPLICIT_2PC_GID g" "sr_state (te_resp txse') = (gtx_state gtx)\<lparr>proposal := rq_term (te_req txse)\<rparr>"
    "map_of (xtab (bt_node bt')) g = Some gtx'" "gtx_state gtx' = sr_state (te_resp txse')" "prepared gtx'"
    unfolding promised_def same assms(5) by auto
  with ok have "durable_state g (xtrace (bt_node bt')) None = Some (serialize_xstate (xinfo gtx') (sr_state (te_resp txse')))"
    by (auto simp: xnode_ok_def xsynced_def)
  with gtx p(2) show ?thesis by (auto simp: rescan_def)
qed


definition sample_bt :: batch where
  "sample_bt = \<lparr>bt_set = sample_batch, bt_node = sample_node, bt_wal_scanned = False, bt_last_online_in = 0\<rparr>"

lemma sample_promise:
  "\<exists>bt' txse'. handle_1a 4 1 [] 5 (\<lambda>st. st) ''MTM-2-1'' sample_bt = Inr bt' \<and>
     map_of (bt_set bt') ''MTM-2-1'' = Some txse' \<and> proposal (sr_state (te_resp txse')) \<noteq> InvalidGTxTerm"
proof -
  have "(case handle_1a 4 1 [] 5 (\<lambda>st. st) ''MTM-2-1'' sample_bt of Inl _ \<Rightarrow> False
     | Inr bt' \<Rightarrow> (case map_of (bt_set bt') ''MTM-2-1'' of None \<Rightarrow> False
         | Some txse' \<Rightarrow> ballot (proposal (sr_state (te_resp txse'))) \<noteq> 0))"
    by code_simp
  then show ?thesis by (auto simp: InvalidGTxTerm_def split: sum.splits option.splits)
qed

theorem promise_is_durable_witness:
  "\<exists>bt' (txse' :: txset_entry) xi. handle_1a 4 1 [] 5 (\<lambda>st. st) ''MTM-2-1'' sample_bt = Inr bt' \<and>
     proposal (sr_state (te_resp txse')) = GlobalTxTerm 2 1 \<and>
     durable_state ''MTM-2-1'' (xtrace (bt_node bt')) None = Some (serialize_xstate xi (sr_state (te_resp txse')))"
proof -
  obtain bt' txse' where r: "handle_1a 4 1 [] 5 (\<lambda>st. st) ''MTM-2-1'' sample_bt = Inr bt'"
    "map_of (bt_set bt') ''MTM-2-1'' = Some txse'" "proposal (sr_state (te_resp txse')) \<noteq> InvalidGTxTerm"
    using sample_promise by blast
  have "xnode_ok (bt_node sample_bt)" using sample_node_ok by (simp add: sample_bt_def)
  moreover have "map_of (bt_set sample_bt) ''MTM-2-1'' = Some (empty_entry (sample_req ''MTM-2-1'') 1 2 0)"
    by (simp add: sample_bt_def sample_batch_def)
  moreover have "rq_gid (te_req (empty_entry (sample_req ''MTM-2-1'') 1 2 0)) = ''MTM-2-1''"
    "proposal (sr_state (te_resp (empty_entry (sample_req ''MTM-2-1'') 1 2 0))) = InvalidGTxTerm"
    "rq_term (te_req (empty_entry (sample_req ''MTM-2-1'') 1 2 0)) = GlobalTxTerm 2 1"
    by (simp_all add: empty_entry_def sample_req_def)
  ultimately have "proposal (sr_state (te_resp txse')) = GlobalTxTerm 2 1 \<and>
     (\<exists>xi. durable_state ''MTM-2-1'' (xtrace (bt_node bt')) None = Some (serialize_xstate xi (sr_state (te_resp txse'))))"
    using promise_is_durable [of sample_bt 4 "\<lambda>st. st" "''MTM-2-1''" _ 1 "[]" 5, OF _ _ harmless_id _ _ _ r] by simp
  with r(1) show ?thesis by blast
qed

section \<open>Answers to votes\<close>

lemma accept_2a_Some:
  "accept_2a msg gtx = Some (es, gtx') \<longleftrightarrow> proposal (gtx_state gtx) \<le> rq_term msg \<and>
     (let s = \<lparr>proposal = rq_term msg, accepted = rq_term msg,
               status = if rq_type msg = MTReq_Precommit then GTXPreCommitted else GTXPreAborted\<rparr>
      in es = [set_state gtx s] \<and> gtx' = gtx\<lparr>gtx_state := s\<rparr>)"
  by (auto simp: accept_2a_def Let_def)

lemma accept_2a_None: "accept_2a msg gtx = None \<longleftrightarrow> rq_term msg < proposal (gtx_state gtx)"
  by (auto simp: accept_2a_def Let_def)

definition voted_2a :: "MtmTxRequest \<Rightarrow> xnode \<Rightarrow> xnode \<Rightarrow> Mtm2AResponse \<Rightarrow> bool" where
  "voted_2a msg st st' resp \<longleftrightarrow>
     (\<exists>gtx. map_of (xtab st) (rq_gid msg) = Some gtx \<and> proposal (gtx_state gtx) \<le> rq_term msg \<and>
        a2_accepted_term resp = rq_term msg \<and>
        a2_status resp = (if rq_type msg = MTReq_Precommit then GTXPreCommitted else GTXPreAborted) \<and>
        durable_state (rq_gid msg) (xtrace st') None = Some (serialize_xstate (xinfo gtx)
          \<lparr>proposal = rq_term msg, accepted = rq_term msg, status = a2_status resp\<rparr>))"

lemma handle_2a_Got:
  assumes st: "xnode_ok st" and b: "b \<noteq> InvalidBackendId"
    and lock: "lock_gtx b me (rq_gid msg) True (MtmGidParseNodeId (rq_gid msg)) (xtab st) = Inr (tab, Got gtx)"
  shows "\<exists>st' resp. handle_2a b me msg d st = Inr st' \<and> xnode_ok st' \<and> a2_gid resp = rq_gid msg \<and>
    replies (xtrace st') = replies (xtrace st) @ [(d, T_Mtm2AResponse resp)] \<and>
    (voted_2a msg st st' resp \<or>
     a2_accepted_term resp = InvalidGTxTerm \<and> a2_status resp = GTXInvalid \<and> untouched (rq_gid msg) (xtab st) (xtab st'))"
proof -
  let ?g = "rq_gid msg" and ?st = "st\<lparr>xtab := tab\<rparr>"
  have tok: "gtx_table_ok (xtab st)" using st by (simp add: xnode_ok_def)
  note ok = lock_node_ok [OF st b lock] and gtx = lock_gtx_Got [OF tok b lock]
  have ok': "gtx_table_ok (xtab ?st)" "map_of (xtab ?st) ?g = Some gtx" using ok(1) gtx(2) by simp_all
  note vr = vote_and_release [OF ok'(1) ok(2) ok'(2) gtx(3-6) b]
  obtain old where old: "map_of (xtab st) ?g = Some old" "gtx = old\<lparr>acquired_by := b\<rparr>"
    using lock_gtx_table(2) [OF lock] by blast
  show ?thesis
  proof (cases "accept_2a msg gtx")
    case None
    obtain tab' where r: "release_gtx b ?g gtx tab = Inr tab'" "xnode_ok (xemit [] (?st\<lparr>xtab := tab'\<rparr>))"
      "\<forall>k. map_of tab' k = (if k = ?g then Some (gtx\<lparr>acquired_by := InvalidBackendId\<rparr>) else map_of tab k)"
      using vr [of gtx "[]"] gtx(5) by auto
    then show ?thesis
      using lock None old by (simp add: handle_2a_def xnode_ok_def xsynced_reply xemit_def untouched_def xsynced_def)
  next
    case (Some x)
    obtain es gtx' where x: "x = (es, gtx')" by (cases x)
    let ?s = "\<lparr>proposal = rq_term msg, accepted = rq_term msg,
               status = if rq_type msg = MTReq_Precommit then GTXPreCommitted else GTXPreAborted\<rparr>"
    have a: "proposal (gtx_state gtx) \<le> rq_term msg" "es = [set_state gtx ?s]" "gtx' = gtx\<lparr>gtx_state := ?s\<rparr>"
      using Some by (simp_all add: x accept_2a_Some Let_def)
    have nf: "same_entry gtx gtx'" "\<not> gtx_final gtx'"
      "es = [] \<and> gtx_state gtx' = gtx_state gtx \<or> es = [set_state gtx (gtx_state gtx')]"
      by (simp_all add: a gtx_final_def)
    obtain tab' where r: "release_gtx b ?g gtx' tab = Inr tab'" "xnode_ok (xemit es (?st\<lparr>xtab := tab'\<rparr>))"
      "map_of tab' ?g = Some (gtx'\<lparr>acquired_by := InvalidBackendId\<rparr>)"
      using vr [OF nf] by auto
    have "xsynced (xemit es (?st\<lparr>xtab := tab'\<rparr>))" using r(2) by (simp add: xnode_ok_def)
    then have "durable_state ?g (xtrace (xemit es (?st\<lparr>xtab := tab'\<rparr>))) None = Some (serialize_xstate (xinfo old) ?s)"
      using r(3) a(3) old gtx(4) by (simp add: xsynced_def)
    with r lock Some old a show ?thesis
      by (simp add: handle_2a_def x voted_2a_def xnode_ok_def xsynced_reply)
  qed
qed


definition sample_2a :: MtmTxRequest where
  "sample_2a = (sample_req ''MTM-2-1'')\<lparr>rq_type := MTReq_Preabort\<rparr>"

lemma sample_2a_runs: "\<not> (handle_2a 4 1 sample_2a 0 sample_node = Inl Blocked)"
  by code_simp


end
