(* ===== verification/Resolver.thy ===== *)
theory Resolver
  imports Gid Mtm_State
begin

text \<open>
  The resolver process (\<open>src/src/resolver.c\<close>): the proposer of the voting on orphaned
  transactions. It stamps them with a new term and asks the other nodes for their votes
  (\<open>scatter_status_requests\<close>), turns a majority of answers into a proposed outcome and a majority
  of votes for it into the outcome (\<open>handle_response\<close>), aborts its own transactions that never
  got precommitted (\<open>finish_ready\<close>), and decides alone when the referee has granted it the cluster
  (\<open>ResolveForRefereeWinner\<close>).

  The messages pushed to the other nodes are part of the trace of the node. A failed assertion
  and an access outside the arrays of acks are \<open>BrokenAssert\<close>.
\<close>

section \<open>Finishing without a vote\<close>

definition ResolveForRefereeWinner ::
  "int \<Rightarrow> int \<Rightarrow> (xnode \<Rightarrow> xnode) \<Rightarrow> MtmState \<Rightarrow> xnode \<Rightarrow> xact_err + xnode" where
  "ResolveForRefereeWinner b me others s st =
     (let curr_gen = MtmGetCurrentGen s
      in if \<not> IS_REFEREE_GEN (members curr_gen) (configured curr_gen) \<or>
            MtmGetCurrentStatusInGen me s \<noteq> Some MTM_GEN_ONLINE
         then Inr st
         else let gids = map fst (filter (\<lambda>(g, gtx). orphaned gtx) (xtab st))
              in finish_all b me (\<lambda>gtx. status (gtx_state gtx) = GTXPreCommitted) gids (others st))"

text \<open>Orphaned entries nobody works on, and those of them this node may abort by itself.\<close>

definition idle_orphan :: "GlobalTx \<Rightarrow> bool" where
  "idle_orphan gtx = (acquired_by gtx = InvalidBackendId \<and> orphaned gtx \<and> prepared gtx)"

definition own_unvoted :: "int \<Rightarrow> GlobalTx \<Rightarrow> bool" where
  "own_unvoted me gtx = (coordinator (xinfo gtx) = me \<and> status (gtx_state gtx) = GTXInvalid \<and>
     \<not> IS_EXPLICIT_2PC_GID (gid gtx))"

definition finish_ready :: "int \<Rightarrow> int \<Rightarrow> (xnode \<Rightarrow> xnode) \<Rightarrow> xnode \<Rightarrow> xact_err + (bool \<times> xnode)" where
  "finish_ready b me others st =
     (let idle = filter (\<lambda>(g, gtx). idle_orphan gtx) (xtab st);
          agids = map fst (filter (\<lambda>(g, gtx). own_unvoted me gtx) idle);
          job_pending = list_ex (\<lambda>(g, gtx). \<not> own_unvoted me gtx) idle
      in sbind (finish_all b me (\<lambda>_. False) agids (others st)) (\<lambda>st. Inr (job_pending, st)))"

section \<open>Starting a ballot\<close>

definition scatter_msg ::
  "MtmConfig \<Rightarrow> (int \<Rightarrow> int) \<Rightarrow> nodemask_t \<Rightarrow> string \<Rightarrow> MtmMessage \<Rightarrow> xact_err + xeffect list" where
  "scatter_msg mtm_cfg dmq_dest_id cmask stream_name msg =
     (let ids = [node_id n. n \<leftarrow> nodes mtm_cfg, BIT_CHECK cmask (nat (node_id n - 1))]
      in if list_all (\<lambda>i. 0 \<le> dmq_dest_id i) ids
         then Inr (map (\<lambda>i. Reply (dmq_dest_id i) stream_name msg) ids)
         else Inl BrokenAssert)"

definition next_term :: "int \<Rightarrow> gid2gtx \<Rightarrow> GlobalTxTerm" where
  "next_term me tab = GlobalTxTerm (ballot (GlobalTxGetMaxProposal tab) + 1) me"

definition stampable :: "GlobalTxTerm \<Rightarrow> GlobalTx \<Rightarrow> bool" where
  "stampable new_term gtx =
     (orphaned gtx \<and> acquired_by gtx = InvalidBackendId \<and> term_cmp new_term (proposal (gtx_state gtx)) > 0)"

definition status_request :: "GlobalTxTerm \<Rightarrow> GlobalTx \<Rightarrow> MtmTxRequest" where
  "status_request new_term gtx = \<lparr>rq_type = MTReq_Status, rq_term = new_term, rq_gid = gid gtx,
     rq_coordinator = coordinator (xinfo gtx), rq_gen_num = xi_gen_num (xinfo gtx),
     rq_coordinator_end_lsn = coordinator_end_lsn gtx\<rparr>"

definition stamp_gtx :: "GlobalTxTerm \<Rightarrow> GlobalTx \<Rightarrow> xeffect list \<times> GlobalTx" where
  "stamp_gtx new_term gtx =
     (let (es, gtx') = (if \<not> IS_EXPLICIT_2PC_GID (gid gtx)
                        then ([set_state gtx \<lparr>proposal = new_term, accepted = accepted (gtx_state gtx),
                                 status = status (gtx_state gtx)\<rparr>],
                              gtx\<lparr>gtx_state := (gtx_state gtx)\<lparr>proposal := new_term\<rparr>\<rparr>)
                        else ([], gtx))
      in (es, gtx'\<lparr>resolver_stage := GTRS_AwaitStatus\<rparr>))"

text \<open>The loop over the table, which is locked all the time.\<close>

fun stamp_entries ::
  "MtmConfig \<Rightarrow> (int \<Rightarrow> int) \<Rightarrow> nodemask_t \<Rightarrow> GlobalTxTerm \<Rightarrow> gid2gtx \<Rightarrow> xact_err + (xeffect list \<times> gid2gtx)" where
  "stamp_entries mtm_cfg dests connected new_term [] = Inr ([], [])"
| "stamp_entries mtm_cfg dests connected new_term ((g, gtx) # tab) =
     (if stampable new_term gtx
      then (let (es, gtx') = stamp_gtx new_term gtx
            in sbind (scatter_msg mtm_cfg dests connected ''reqresp''
                        (T_MtmTxRequest (status_request new_term gtx))) (\<lambda>ms.
               sbind (stamp_entries mtm_cfg dests connected new_term tab) (\<lambda>(es', tab').
                 Inr (es @ ms @ es', (g, gtx') # tab'))))
      else sbind (stamp_entries mtm_cfg dests connected new_term tab) (\<lambda>(es', tab').
             Inr (es', (g, gtx) # tab')))"

text \<open>Between picking the term and stamping with it other processes may run.\<close>

definition scatter_status_requests ::
  "MtmConfig \<Rightarrow> (int \<Rightarrow> int) \<Rightarrow> (xnode \<Rightarrow> xnode) \<Rightarrow> MtmState \<Rightarrow> xnode \<Rightarrow> xact_err + xnode" where
  "scatter_status_requests mtm_cfg dests others s st =
     (case MtmGetConnectedMaskWithMe (my_node_id mtm_cfg) s of
        None \<Rightarrow> Inl BrokenAssert
      | Some cm \<Rightarrow>
          if \<not> MtmQuorum mtm_cfg (popcount cm) then Inr st
          else let new_term = next_term (my_node_id mtm_cfg) (xtab st);
                   st = others st
               in sbind (stamp_entries mtm_cfg dests (MtmGetConnectedMask s) new_term (xtab st))
                    (\<lambda>(es, tab). Inr (xemit es (st\<lparr>xtab := tab\<rparr>))))"

section \<open>Counting answers\<close>

definition ack_term :: "GTxState \<Rightarrow> GlobalTxTerm \<Rightarrow> bool" where
  "ack_term s t = (term_cmp (proposal s) InvalidGTxTerm \<noteq> 0 \<and> term_cmp t (proposal s) = 0)"

definition quorum :: "MtmConfig \<Rightarrow> GTxState list \<Rightarrow> bool" where
  "quorum mtm_cfg all_states =
     (let my_state = all_states ! nat (my_node_id mtm_cfg - 1)
      in term_node_id (proposal my_state) = my_node_id mtm_cfg \<and>
         MtmQuorum mtm_cfg (length (filter (\<lambda>s. ack_term s (proposal my_state)) all_states)))"

definition max_accepted :: "GTxState list \<Rightarrow> GlobalTxTerm \<Rightarrow> GlobalTxTerm" where
  "max_accepted acks t0 = fold (\<lambda>s m.
     if term_cmp (proposal s) InvalidGTxTerm = 0 then m
     else if term_cmp (accepted s) m > 0 then accepted s else m) acks t0"

text \<open>The second loop, with its two assertions.\<close>

fun decree :: "GlobalTxTerm \<Rightarrow> GTxState list \<Rightarrow> GlobalTxStatus \<Rightarrow> xact_err + GlobalTxStatus" where
  "decree m [] decision = Inr decision"
| "decree m (s # acks) decision =
     (if term_cmp (proposal s) InvalidGTxTerm = 0 \<or> term_cmp (accepted s) m \<noteq> 0
      then decree m acks decision
      else if status s = GTXPreCommitted
      then (if decision = GTXPreAborted then Inl BrokenAssert else decree m acks GTXPreCommitted)
      else (if decision = GTXPreCommitted then Inl BrokenAssert else decree m acks GTXPreAborted))"

definition put_ack :: "int \<Rightarrow> GTxState \<Rightarrow> GTxState list \<Rightarrow> xact_err + GTxState list" where
  "put_ack nid s acks =
     (if 1 \<le> nid \<and> nid \<le> int (length acks) then Inr (acks[nat (nid - 1) := s]) else Inl BrokenAssert)"

section \<open>Handling a response\<close>

text \<open>
  The outcome of one response for a locked entry: what is asked of Postgres, the new entry, and
  the request that goes to the connected nodes.
\<close>

type_synonym response_outcome = "xeffect list \<times> GlobalTx \<times> MtmTxRequest option"

definition request_2a :: "GlobalTx \<Rightarrow> GlobalTxStatus \<Rightarrow> MtmTxRequest" where
  "request_2a gtx decision = \<lparr>rq_type = (if decision = GTXPreCommitted then MTReq_Precommit else MTReq_Preabort),
     rq_term = accepted (gtx_state gtx), rq_gid = gid gtx, rq_coordinator = coordinator (xinfo gtx),
     rq_gen_num = xi_gen_num (xinfo gtx), rq_coordinator_end_lsn = 0\<rparr>"

definition request_finish :: "string \<Rightarrow> bool \<Rightarrow> MtmTxRequest" where
  "request_finish g commit = \<lparr>rq_type = (if commit then MTReq_Commit else MTReq_Abort),
     rq_term = InvalidGTxTerm, rq_gid = g, rq_coordinator = MtmInvalidNodeId,
     rq_gen_num = MtmInvalidGenNum, rq_coordinator_end_lsn = 0\<rparr>"

definition propose_decree :: "GlobalTx \<Rightarrow> xact_err + response_outcome" where
  "propose_decree gtx =
     sbind (decree (max_accepted (phase1_acks gtx) (accepted (gtx_state gtx))) (phase1_acks gtx) GTXInvalid)
       (\<lambda>decision.
          if decision = GTXInvalid then Inl BrokenAssert
          else let new_gtx_state = \<lparr>proposal = proposal (gtx_state gtx), accepted = proposal (gtx_state gtx),
                                    status = decision\<rparr>;
                   gtx' = gtx\<lparr>gtx_state := new_gtx_state, resolver_stage := GTRS_AwaitAcks\<rparr>
               in Inr ([set_state gtx new_gtx_state], gtx', Some (request_2a gtx' decision)))"

definition status_decide :: "MtmConfig \<Rightarrow> GTxState \<Rightarrow> GlobalTx \<Rightarrow> xact_err + response_outcome" where
  "status_decide mtm_cfg st gtx =
     (if status st = GTXCommitted
      then Inr ([Finish (gid gtx) True], finish_gtx True gtx, None)
      else if status st = GTXAborted
      then Inr ([Finish (gid gtx) False], finish_gtx False gtx, None)
      else if quorum mtm_cfg (phase1_acks gtx) \<and> \<not> IS_EXPLICIT_2PC_GID (gid gtx)
      then propose_decree gtx
      else Inr ([], gtx, None))"

definition status_response :: "MtmConfig \<Rightarrow> MtmTxStatusResponse \<Rightarrow> GlobalTx \<Rightarrow> xact_err + response_outcome" where
  "status_response mtm_cfg msg gtx =
     sbind (put_ack (my_node_id mtm_cfg) (gtx_state gtx) (phase1_acks gtx)) (\<lambda>acks.
     sbind (put_ack (sr_node_id msg) (sr_state msg) acks) (\<lambda>acks.
       status_decide mtm_cfg (sr_state msg) (gtx\<lparr>phase1_acks := acks\<rparr>)))"

definition twoa_decide :: "MtmConfig \<Rightarrow> Mtm2AResponse \<Rightarrow> GlobalTx \<Rightarrow> xact_err + response_outcome" where
  "twoa_decide mtm_cfg msg gtx =
     (if quorum mtm_cfg (phase2_acks gtx)
      then (if status (gtx_state gtx) \<noteq> a2_status msg then Inl BrokenAssert
            else let commit = (a2_status msg = GTXPreCommitted)
                 in Inr ([Finish (a2_gid msg) commit], finish_gtx commit gtx,
                         Some (request_finish (a2_gid msg) commit)))
      else Inr ([], gtx, None))"

definition twoa_response :: "MtmConfig \<Rightarrow> Mtm2AResponse \<Rightarrow> GlobalTx \<Rightarrow> xact_err + response_outcome" where
  "twoa_response mtm_cfg msg gtx =
     (if a2_gid msg = [] \<or> IS_EXPLICIT_2PC_GID (gid gtx) then Inl BrokenAssert
      else if \<not> (a2_status msg = GTXPreAborted \<or> a2_status msg = GTXPreCommitted) then Inr ([], gtx, None)
      else sbind (put_ack (my_node_id mtm_cfg) (gtx_state gtx) (phase2_acks gtx)) (\<lambda>acks.
           sbind (put_ack (a2_node_id msg)
                    \<lparr>proposal = a2_accepted_term msg, accepted = a2_accepted_term msg, status = a2_status msg\<rparr> acks) (\<lambda>acks.
             twoa_decide mtm_cfg msg (gtx\<lparr>phase2_acks := acks\<rparr>))))"

definition respond :: "MtmConfig \<Rightarrow> MtmMessage \<Rightarrow> GlobalTx \<Rightarrow> xact_err + response_outcome" where
  "respond mtm_cfg raw_msg gtx =
     (case (resolver_stage gtx, raw_msg) of
        (GTRS_AwaitStatus, T_MtmTxStatusResponse msg) \<Rightarrow> status_response mtm_cfg msg gtx
      | (GTRS_AwaitAcks, T_Mtm2AResponse msg) \<Rightarrow> twoa_response mtm_cfg msg gtx
      | _ \<Rightarrow> Inr ([], gtx, None))"

definition handle_response ::
  "int \<Rightarrow> MtmConfig \<Rightarrow> (int \<Rightarrow> int) \<Rightarrow> nodemask_t \<Rightarrow> MtmMessage \<Rightarrow> string \<Rightarrow> xnode \<Rightarrow> xact_err + xnode" where
  "handle_response b mtm_cfg dests connected raw_msg g st =
     sbind (lock_gtx b (my_node_id mtm_cfg) g False 0 (xtab st)) (\<lambda>(tab, l).
       case l of
         Got gtx \<Rightarrow>
           sbind (respond mtm_cfg raw_msg gtx) (\<lambda>(es, gtx', req).
           sbind (case req of None \<Rightarrow> Inr []
                  | Some r \<Rightarrow> scatter_msg mtm_cfg dests connected ''reqresp'' (T_MtmTxRequest r)) (\<lambda>ms.
           sbind (release_gtx b g gtx' tab) (\<lambda>tab.
             Inr (xemit (es @ ms) (st\<lparr>xtab := tab\<rparr>)))))
       | _ \<Rightarrow> Inr (st\<lparr>xtab := tab\<rparr>))"

text \<open>The loop over the messages that can be popped; other messages are dropped.\<close>

fun handle_responses ::
  "int \<Rightarrow> MtmConfig \<Rightarrow> (int \<Rightarrow> int) \<Rightarrow> nodemask_t \<Rightarrow> MtmMessage list \<Rightarrow> xnode \<Rightarrow> xact_err + xnode" where
  "handle_responses b mtm_cfg dests connected [] st = Inr st"
| "handle_responses b mtm_cfg dests connected (raw_msg # msgs) st =
     sbind (case raw_msg of
              T_MtmTxStatusResponse msg \<Rightarrow> handle_response b mtm_cfg dests connected raw_msg (sr_gid msg) st
            | T_Mtm2AResponse msg \<Rightarrow> handle_response b mtm_cfg dests connected raw_msg (a2_gid msg) st
            | _ \<Rightarrow> Inr st)
       (handle_responses b mtm_cfg dests connected msgs)"


text \<open>One round of the main loop.\<close>

definition resolver_round ::
  "int \<Rightarrow> MtmConfig \<Rightarrow> (int \<Rightarrow> int) \<Rightarrow> (xnode \<Rightarrow> xnode) \<Rightarrow> bool \<Rightarrow> bool \<Rightarrow> MtmState \<Rightarrow> MtmMessage list \<Rightarrow> xnode \<Rightarrow>
   xact_err + xnode" where
  "resolver_round b mtm_cfg dests others referee_on send_requests s msgs st =
     sbind (if send_requests
            then sbind (if referee_on then ResolveForRefereeWinner b (my_node_id mtm_cfg) others s st else Inr st) (\<lambda>st.
                 sbind (finish_ready b (my_node_id mtm_cfg) others st) (\<lambda>(job_pending, st).
                   if job_pending then scatter_status_requests mtm_cfg dests others s st else Inr st))
            else Inr st)
       (handle_responses b mtm_cfg dests (MtmGetConnectedMask s) msgs)"

section \<open>The highest vote and its decree\<close>

definition voters :: "GTxState list \<Rightarrow> GTxState list" where
  "voters acks = filter (\<lambda>s. proposal s \<noteq> InvalidGTxTerm) acks"

lemma max_accepted_fold: "max_accepted acks t0 = fold (\<lambda>s m. max m (accepted s)) (voters acks) t0"
proof (induction acks arbitrary: t0)
  case (Cons s acks)
  have "max_accepted (s # acks) t0 =
    max_accepted acks (if proposal s = InvalidGTxTerm then t0 else if t0 < accepted s then accepted s else t0)"
    by (simp add: max_accepted_def)
  also have "\<dots> = fold (\<lambda>s m. max m (accepted s)) (voters (s # acks)) t0"
    unfolding Cons.IH by (auto simp: voters_def max_def)
  finally show ?case .
qed (simp add: max_accepted_def voters_def)

lemma fold_max_ge: "m \<le> fold (\<lambda>s m. max m (f s :: 'a :: linorder)) xs m"
proof (induction xs arbitrary: m)
  case (Cons x xs)
  show ?case using Cons.IH [of "max m (f x)"] by simp
qed simp

lemma fold_max_upper: "x \<in> set xs \<Longrightarrow> f x \<le> fold (\<lambda>s m. max m (f s :: 'a :: linorder)) xs m"
proof (induction xs arbitrary: m)
  case (Cons y xs)
  then show ?case using fold_max_ge [of "max m (f y)" f xs] by auto
qed simp

lemma fold_max_attained:
  "fold (\<lambda>s m. max m (f s :: 'a :: linorder)) xs m = m \<or> (\<exists>x \<in> set xs. fold (\<lambda>s m. max m (f s)) xs m = f x)"
proof (induction xs arbitrary: m)
  case (Cons y xs)
  then show ?case using Cons.IH [of "max m (f y)"] by (auto simp: max_def)
qed simp

lemma max_accepted_upper: "s \<in> set acks \<Longrightarrow> proposal s \<noteq> InvalidGTxTerm \<Longrightarrow> accepted s \<le> max_accepted acks t0"
  unfolding max_accepted_fold by (rule fold_max_upper) (simp add: voters_def)

lemma max_accepted_base: "t0 \<le> max_accepted acks t0"
  unfolding max_accepted_fold by (rule fold_max_ge)

lemma max_accepted_attained:
  obtains (base) "max_accepted acks t0 = t0"
  | (vote) s where "s \<in> set acks" "proposal s \<noteq> InvalidGTxTerm" "max_accepted acks t0 = accepted s"
  using fold_max_attained [of accepted "voters acks" t0]
  unfolding max_accepted_fold by (auto simp: voters_def)

text \<open>When the votes with the highest term agree, their decree is the decision and no assertion fails.\<close>

definition decree_votes :: "GlobalTxTerm \<Rightarrow> GTxState list \<Rightarrow> GTxState list" where
  "decree_votes m acks = filter (\<lambda>s. accepted s = m) (voters acks)"

lemma decree_agreed:
  assumes "\<forall>s \<in> set (decree_votes m acks). status s = GTXPreCommitted \<longleftrightarrow> c"
    and "d \<in> {GTXInvalid, if c then GTXPreCommitted else GTXPreAborted}"
  shows "decree m acks d =
    Inr (if decree_votes m acks = [] then d else if c then GTXPreCommitted else GTXPreAborted)"
  using assms
proof (induction acks arbitrary: d)
  case (Cons s acks)
  show ?case
  proof (cases "proposal s = InvalidGTxTerm \<or> accepted s \<noteq> m")
    case True
    then show ?thesis using Cons by (auto simp: decree_votes_def voters_def)
  next
    case False
    then have "status s = GTXPreCommitted \<longleftrightarrow> c" using Cons.prems(1) by (auto simp: decree_votes_def voters_def)
    then show ?thesis
      using False Cons.prems Cons.IH [of "if c then GTXPreCommitted else GTXPreAborted"]
      by (auto simp: decree_votes_def voters_def split: if_splits)
  qed
qed (simp add: decree_votes_def voters_def)

text \<open>Conversely, a decision that comes out is the decree of the votes with the highest term.\<close>

lemma decree_forced:
  assumes "decree m acks (if c then GTXPreCommitted else GTXPreAborted) = Inr r"
  shows "r = (if c then GTXPreCommitted else GTXPreAborted) \<and>
    (\<forall>s \<in> set (decree_votes m acks). status s = GTXPreCommitted \<longleftrightarrow> c)"
  using assms
proof (induction acks)
  case (Cons s acks)
  then show ?case by (cases c) (auto simp: decree_votes_def voters_def split: if_splits)
qed (simp add: decree_votes_def voters_def)

lemma decree_Inr:
  assumes "decree m acks GTXInvalid = Inr r"
  shows "r = GTXInvalid \<and> decree_votes m acks = [] \<or>
    (\<exists>c. r = (if c then GTXPreCommitted else GTXPreAborted) \<and>
       (\<forall>s \<in> set (decree_votes m acks). status s = GTXPreCommitted \<longleftrightarrow> c))"
  using assms
proof (induction acks)
  case (Cons s acks)
  show ?case
  proof (cases "proposal s = InvalidGTxTerm \<or> accepted s \<noteq> m")
    case True
    then have "decree m (s # acks) GTXInvalid = decree m acks GTXInvalid"
      "decree_votes m (s # acks) = decree_votes m acks"
      by (auto simp: decree_votes_def voters_def)
    with Cons show ?thesis by simp
  next
    case False
    define c where "c = (status s = GTXPreCommitted)"
    have "decree m acks (if c then GTXPreCommitted else GTXPreAborted) = Inr r"
      using False Cons.prems by (auto simp: c_def split: if_splits)
    note f = decree_forced [OF this]
    have "decree_votes m (s # acks) = s # decree_votes m acks"
      using False by (simp add: decree_votes_def voters_def)
    with f have "r = (if c then GTXPreCommitted else GTXPreAborted) \<and>
       (\<forall>s' \<in> set (decree_votes m (s # acks)). status s' = GTXPreCommitted \<longleftrightarrow> c)"
      by (simp add: c_def)
    then show ?thesis by blast
  qed
qed (simp add: decree_votes_def voters_def)


section \<open>What a response can do\<close>

definition msg_gid :: "MtmMessage \<Rightarrow> string \<Rightarrow> bool" where
  "msg_gid m g = (case m of T_MtmTxStatusResponse r \<Rightarrow> sr_gid r = g | T_Mtm2AResponse r \<Rightarrow> a2_gid r = g | _ \<Rightarrow> True)"

text \<open>Nothing but acks, a vote of its own for a proposal, or the outcome.\<close>

lemma propose_decreeD:
  assumes "propose_decree gtx = Inr (es, gtx', req)"
  shows "es = [set_state gtx (gtx_state gtx')] \<and> same_entry gtx gtx' \<and> \<not> gtx_final gtx' \<and>
    req = Some (request_2a gtx' (status (gtx_state gtx'))) \<and>
    gtx_state gtx' = \<lparr>proposal = proposal (gtx_state gtx), accepted = proposal (gtx_state gtx), status = status (gtx_state gtx')\<rparr> \<and>
    decree (max_accepted (phase1_acks gtx) (accepted (gtx_state gtx))) (phase1_acks gtx) GTXInvalid = Inr (status (gtx_state gtx')) \<and>
    resolver_stage gtx' = GTRS_AwaitAcks \<and> phase1_acks gtx' = phase1_acks gtx \<and> phase2_acks gtx' = phase2_acks gtx"
proof -
  from assms obtain d where d: "decree (max_accepted (phase1_acks gtx) (accepted (gtx_state gtx))) (phase1_acks gtx) GTXInvalid = Inr d"
    "d \<noteq> GTXInvalid"
    by (auto simp: propose_decree_def sbind_Inr_iff split: if_splits)
  from decree_Inr [OF d(1)] d(2) have "d = GTXPreCommitted \<or> d = GTXPreAborted" by (auto split: if_splits)
  with assms d show ?thesis by (auto simp: propose_decree_def Let_def same_entry_def gtx_final_def)
qed

definition benign_outcome :: "GlobalTx \<Rightarrow> response_outcome \<Rightarrow> bool" where
  "benign_outcome gtx r = (case r of (es, gtx', req) \<Rightarrow> same_entry gtx gtx' \<and>
     (es = [] \<and> gtx_state gtx' = gtx_state gtx \<or> es = [set_state gtx (gtx_state gtx')] \<and> \<not> gtx_final gtx' \<or>
      (\<exists>c. es = [Finish (gid gtx) c] \<and> gtx_state gtx' = (gtx_state gtx)\<lparr>status := if c then GTXCommitted else GTXAborted\<rparr>)))"

lemma same_entry_acks [simp]:
  "same_entry (gtx\<lparr>phase1_acks := a\<rparr>) gtx' = same_entry gtx gtx'"
  "same_entry (gtx\<lparr>phase2_acks := a\<rparr>) gtx' = same_entry gtx gtx'"
  "same_entry gtx (gtx\<lparr>phase1_acks := a\<rparr>)" "same_entry gtx (gtx\<lparr>phase2_acks := a\<rparr>)"
  "same_entry gtx (finish_gtx c gtx0) = same_entry gtx gtx0"
  by (auto simp: same_entry_def finish_gtx_def)

lemma set_state_acks [simp]: "set_state (gtx\<lparr>phase1_acks := a\<rparr>) s = set_state gtx s"
  by (simp add: set_state_def)

lemma benign_ack:
  "benign_outcome gtx ([], gtx, req)" "benign_outcome gtx ([], gtx\<lparr>phase1_acks := a\<rparr>, req)"
  "benign_outcome gtx ([], gtx\<lparr>phase2_acks := a\<rparr>, req)"
  by (simp_all add: benign_outcome_def)

lemma benign_finish:
  "benign_outcome gtx ([Finish (gid gtx) c], finish_gtx c (gtx\<lparr>phase1_acks := a\<rparr>), req)"
  "benign_outcome gtx ([Finish (gid gtx) c], finish_gtx c (gtx\<lparr>phase2_acks := a\<rparr>), req)"
  unfolding benign_outcome_def prod.case
  by (rule conjI, simp, rule disjI2, rule disjI2, rule exI [of _ c], simp add: finish_gtx_def)+

lemma benign_propose:
  assumes "propose_decree (gtx\<lparr>phase1_acks := a\<rparr>) = Inr r"
  shows "benign_outcome gtx r"
proof -
  obtain es gtx' req where x: "r = (es, gtx', req)" by (cases r)
  from propose_decreeD [OF assms [unfolded x]] show ?thesis by (simp add: benign_outcome_def x)
qed

lemma status_decide_benign:
  assumes "status_decide mtm_cfg t (gtx\<lparr>phase1_acks := acks\<rparr>) = Inr r"
  shows "benign_outcome gtx r"
proof -
  let ?gtx = "gtx\<lparr>phase1_acks := acks\<rparr>"
  have g: "gid ?gtx = gid gtx" by simp
  consider (c) "status t = GTXCommitted" | (a) "status t \<noteq> GTXCommitted" "status t = GTXAborted"
    | (p) "status t \<noteq> GTXCommitted" "status t \<noteq> GTXAborted" "quorum mtm_cfg (phase1_acks ?gtx) \<and> \<not> IS_EXPLICIT_2PC_GID (gid ?gtx)"
    | (n) "status t \<noteq> GTXCommitted" "status t \<noteq> GTXAborted" "\<not> (quorum mtm_cfg (phase1_acks ?gtx) \<and> \<not> IS_EXPLICIT_2PC_GID (gid ?gtx))"
    by blast
  then show ?thesis
  proof cases
    case c
    have "r = ([Finish (gid gtx) True], finish_gtx True ?gtx, None)"
      using assms unfolding status_decide_def if_P [OF c] g by blast
    then show ?thesis by (simp only: benign_finish)
  next
    case a
    have "r = ([Finish (gid gtx) False], finish_gtx False ?gtx, None)"
      using assms unfolding status_decide_def if_not_P [OF a(1)] if_P [OF a(2)] g by blast
    then show ?thesis by (simp only: benign_finish)
  next
    case p
    have "propose_decree ?gtx = Inr r"
      using assms unfolding status_decide_def if_not_P [OF p(1)] if_not_P [OF p(2)] if_P [OF p(3)] .
    then show ?thesis by (rule benign_propose)
  next
    case n
    have "r = ([], ?gtx, None)"
      using assms unfolding status_decide_def if_not_P [OF n(1)] if_not_P [OF n(2)] if_not_P [OF n(3)] by blast
    then show ?thesis by (simp only: benign_ack)
  qed
qed

lemma status_response_benign: "status_response mtm_cfg msg gtx = Inr r \<Longrightarrow> benign_outcome gtx r"
  unfolding status_response_def sbind_Inr_iff by (blast intro: status_decide_benign)

lemma twoa_decide_benign:
  assumes "twoa_decide mtm_cfg msg (gtx\<lparr>phase2_acks := acks\<rparr>) = Inr r" and "a2_gid msg = gid gtx"
  shows "benign_outcome gtx r"
  using assms by (auto simp: twoa_decide_def Let_def benign_finish benign_ack split: if_splits)

lemma twoa_response_benign:
  assumes "twoa_response mtm_cfg msg gtx = Inr r" and "a2_gid msg = gid gtx"
  shows "benign_outcome gtx r"
proof (cases "a2_status msg = GTXPreAborted \<or> a2_status msg = GTXPreCommitted")
  case True
  then obtain acks where "twoa_decide mtm_cfg msg (gtx\<lparr>phase2_acks := acks\<rparr>) = Inr r"
    using assms(1) unfolding twoa_response_def by (auto simp: sbind_Inr_iff split: if_splits)
  then show ?thesis by (rule twoa_decide_benign [OF _ assms(2)])
next
  case False
  then have "r = ([], gtx, None)" using assms(1) by (simp add: twoa_response_def split: if_splits)
  then show ?thesis by (simp add: benign_ack)
qed

lemma respond_benign:
  assumes "respond mtm_cfg m gtx = Inr r" and "msg_gid m (gid gtx)"
  shows "benign_outcome gtx r"
  using assms unfolding respond_def msg_gid_def
  by (cases "resolver_stage gtx"; cases m)
    (auto simp: benign_ack intro: status_response_benign twoa_response_benign)

lemma benign_release:
  assumes st: "xnode_ok st" and b: "b \<noteq> InvalidBackendId"
    and lock: "lock_gtx b me g nowait coord (xtab st) = Inr (tab, Got gtx)"
    and r: "benign_outcome gtx (es, gtx', req)"
  shows "\<exists>tab'. release_gtx b g gtx' tab = Inr tab' \<and> xnode_ok (xemit es (st\<lparr>xtab := tab'\<rparr>))"
proof -
  have tok: "gtx_table_ok (xtab st)" using st by (simp add: xnode_ok_def)
  note ok = lock_node_ok [OF st b lock] and gtx = lock_gtx_Got [OF tok b lock]
  have ok': "gtx_table_ok (xtab (st\<lparr>xtab := tab\<rparr>))" "map_of (xtab (st\<lparr>xtab := tab\<rparr>)) g = Some gtx"
    using ok(1) gtx(2) by simp_all
  have same: "same_entry gtx gtx'" using r by (simp add: benign_outcome_def)
  show ?thesis
  proof (cases "gtx_final gtx'")
    case True
    have "gid gtx' = g" "acquired_by gtx' = b" using same gtx by (simp_all add: same_entry_def)
    from release_gtx_total [OF ok'(1) this b] obtain tab' where
      rel: "release_gtx b g gtx' (xtab (st\<lparr>xtab := tab\<rparr>)) = Inr tab'" "gtx_table_ok tab'" by blast
    obtain c where "es = [Finish g c]"
      using r True gtx(5,6) by (auto simp: benign_outcome_def gtx_final_def split: if_splits)
    with xsynced_finish [OF ok(2) True rel(1), of c] rel show ?thesis by (auto simp: xnode_ok_def)
  next
    case False
    then have "es = [] \<and> gtx_state gtx' = gtx_state gtx \<or> es = [set_state gtx (gtx_state gtx')]"
      using r by (auto simp: benign_outcome_def gtx_final_def)
    from vote_and_release [OF ok'(1) ok(2) ok'(2) gtx(3-6) b same False this] show ?thesis by auto
  qed
qed

section \<open>The node stays consistent\<close>

lemma scatter_msg_replies:
  "scatter_msg mtm_cfg dests cm str m = Inr ms \<Longrightarrow> \<forall>e \<in> set ms. \<exists>d s m. e = Reply d s m"
  by (auto simp: scatter_msg_def Let_def split: if_splits)

lemma durable_replies: "\<forall>e \<in> set ms. \<exists>d s m. e = Reply d s m \<Longrightarrow> durable_state g ms acc = acc"
  by (induction ms arbitrary: acc) auto

lemma xnode_ok_emit_replies:
  assumes "\<forall>e \<in> set ms. \<exists>d s m. e = Reply d s m"
  shows "xnode_ok (xemit (es @ ms) st) = xnode_ok (xemit es st)"
  using durable_replies [OF assms] by (simp add: xnode_ok_def xsynced_def xemit_def)

lemma handle_response_ok:
  assumes st: "xnode_ok st" and b: "b \<noteq> InvalidBackendId" and m: "msg_gid m g"
    and run: "handle_response b mtm_cfg dests connected m g st = Inr st'"
  shows "xnode_ok st'"
proof -
  have tok: "gtx_table_ok (xtab st)" using st by (simp add: xnode_ok_def)
  from run obtain tab l where lock: "lock_gtx b (my_node_id mtm_cfg) g False 0 (xtab st) = Inr (tab, l)"
    by (auto simp: handle_response_def sbind_Inr_iff)
  show ?thesis
  proof (cases "\<exists>gtx. l = Got gtx")
    case True
    then obtain gtx where l: "l = Got gtx" by blast
    from run lock obtain es gtx' req ms tab' where
      x: "respond mtm_cfg m gtx = Inr (es, gtx', req)"
        "(case req of None \<Rightarrow> Inr []
          | Some r \<Rightarrow> scatter_msg mtm_cfg dests connected ''reqresp'' (T_MtmTxRequest r)) = Inr ms"
        "release_gtx b g gtx' tab = Inr tab'" "st' = xemit (es @ ms) (st\<lparr>xtab := tab'\<rparr>)"
      by (auto simp: handle_response_def sbind_Inr_iff l)
    then have
      r: "respond mtm_cfg m gtx = Inr (es, gtx', req)" "\<forall>e \<in> set ms. \<exists>d s m. e = Reply d s m"
        "release_gtx b g gtx' tab = Inr tab'" "st' = xemit (es @ ms) (st\<lparr>xtab := tab'\<rparr>)"
      by (auto dest!: scatter_msg_replies split: option.splits)
    have "gid gtx = g" using lock_gtx_Got(6) [OF tok b lock [unfolded l]] .
    with respond_benign [OF r(1)] m have "benign_outcome gtx (es, gtx', req)" by simp
    from benign_release [OF st b lock [unfolded l] this] r show ?thesis
      by (auto simp: xnode_ok_emit_replies)
  next
    case False
    then have "st' = st\<lparr>xtab := tab\<rparr>" using run lock by (cases l) (auto simp: handle_response_def)
    with lock_node_ok(3) [OF st b lock] show ?thesis by simp
  qed
qed

lemma handle_responses_ok:
  assumes "b \<noteq> InvalidBackendId" and "xnode_ok st"
    and "handle_responses b mtm_cfg dests connected msgs st = Inr st'"
  shows "xnode_ok st'"
  using assms(2,3)
proof (induction msgs arbitrary: st)
  case (Cons m msgs)
  then obtain st1 where st1: "(case m of
      T_MtmTxStatusResponse r \<Rightarrow> handle_response b mtm_cfg dests connected m (sr_gid r) st
    | T_Mtm2AResponse r \<Rightarrow> handle_response b mtm_cfg dests connected m (a2_gid r) st
    | _ \<Rightarrow> Inr st) = Inr st1" "handle_responses b mtm_cfg dests connected msgs st1 = Inr st'"
    by (auto simp: sbind_Inr_iff)
  have "xnode_ok st1"
    using st1(1) Cons.prems(1)
    by (cases m) (auto elim!: handle_response_ok [OF _ assms(1), rotated 2] simp: msg_gid_def)
  then show ?case using Cons.IH st1(2) by blast
qed simp

lemma finish_all_spec:
  assumes "xnode_ok st" and "b \<noteq> InvalidBackendId"
  shows "finish_all b me decide gs st = Inl Blocked \<or>
    (\<exists>st'. finish_all b me decide gs st = Inr st' \<and> xnode_ok st' \<and>
       (\<forall>k. map_of (xtab st') k = (if k \<in> set gs then None else map_of (xtab st) k)))"
  using assms(1)
proof (induction gs arbitrary: st)
  case (Cons g gs)
  consider "finish_entry b me decide g st = Inl Blocked"
    | (ok) st1 where "finish_entry b me decide g st = Inr st1" "xnode_ok st1"
      "\<forall>k. map_of (xtab st1) k = (if k = g then None else map_of (xtab st) k)"
    using finish_entry_spec [OF Cons.prems assms(2), of me decide g] by blast
  then show ?case
  proof cases
    case ok
    with Cons.IH [OF ok(2)] show ?thesis by fastforce
  qed simp
qed simp

lemma finish_all_ok:
  assumes "xnode_ok st" and "b \<noteq> InvalidBackendId" and "finish_all b me decide gs st = Inr st'"
  shows "xnode_ok st'"
  using finish_all_spec [OF assms(1,2), of me decide gs] assms(3) by auto

text \<open>Stamping: the entries that are stamped are unlocked, so Postgres knows them.\<close>

lemma stamp_gtx_spec:
  "stamp_gtx t gtx = (es, gtx') \<Longrightarrow> same_entry gtx gtx' \<and>
     (es = [] \<and> gtx_state gtx' = gtx_state gtx \<or>
      es = [set_state gtx (gtx_state gtx')] \<and> gtx_state gtx' = (gtx_state gtx)\<lparr>proposal := t\<rparr>) \<and>
     (gtx_final gtx' = gtx_final gtx)"
  by (cases "gtx_state gtx")
    (auto simp: stamp_gtx_def same_entry_def gtx_final_def split: if_splits)

definition stamp_rel :: "string \<Rightarrow> gid2gtx \<Rightarrow> gid2gtx \<Rightarrow> xeffect list \<Rightarrow> bool" where
  "stamp_rel g tab tab' es \<longleftrightarrow> (\<forall>acc. case map_of tab g of
     None \<Rightarrow> map_of tab' g = None \<and> durable_state g es acc = acc
   | Some gtx \<Rightarrow> (\<exists>gtx'. map_of tab' g = Some gtx' \<and> same_entry gtx gtx' \<and> gtx_final gtx' = gtx_final gtx \<and>
       (gtx_state gtx' = gtx_state gtx \<and> durable_state g es acc = acc \<or>
        acquired_by gtx = InvalidBackendId \<and> durable_state g es acc = Some (serialize_xstate (xinfo gtx') (gtx_state gtx')))))"

lemma stamp_entries_spec:
  assumes "stamp_entries mtm_cfg dests cm t tab = Inr (es, tab')" and "distinct (map fst tab)"
    and "list_all (\<lambda>(g, gtx). gid gtx = g) tab"
  shows "map fst tab' = map fst tab \<and> (\<forall>g. stamp_rel g tab tab' es)"
  using assms
proof (induction tab arbitrary: es tab')
  case Nil
  then show ?case by (simp add: stamp_rel_def)
next
  case (Cons e tab)
  obtain k gtx where e: "e = (k, gtx)" by (cases e)
  obtain es0 gtx' ms es1 tab1 where run: "stamp_entries mtm_cfg dests cm t tab = Inr (es1, tab1)"
    and new: "es = es0 @ ms @ es1" "tab' = (k, gtx') # tab1" "\<forall>e \<in> set ms. \<exists>d s m. e = Reply d s m"
    and st: "stampable t gtx \<and> stamp_gtx t gtx = (es0, gtx') \<or> es0 = [] \<and> gtx' = gtx"
  proof (cases "stampable t gtx")
    case True
    obtain es0 gtx' where x: "stamp_gtx t gtx = (es0, gtx')" by (cases "stamp_gtx t gtx")
    with Cons.prems(1) True show ?thesis
      by (auto simp: e sbind_Inr_iff dest!: scatter_msg_replies intro!: that [of _ _ es0 _ gtx'])
  next
    case False
    with Cons.prems(1) show ?thesis by (auto simp: e sbind_Inr_iff intro!: that [of _ _ "[]" "[]" gtx])
  qed
  have IH: "map fst tab1 = map fst tab" "\<And>g. stamp_rel g tab tab1 es1"
    using Cons.IH [OF run] Cons.prems(2,3) by (auto simp: e)
  have k: "map_of tab k = None" "gid gtx = k" using Cons.prems(2,3) by (auto simp: e map_of_eq_None_iff)
  have "stamp_rel g (e # tab) tab' es" for g
  proof (cases "g = k")
    case True
    have "\<And>acc. durable_state k es1 acc = acc" using IH(2) [of k] k(1) by (simp add: stamp_rel_def)
    with st new True k(2) show ?thesis
      by (auto simp: stamp_rel_def e durable_replies set_state_def same_entry_def stampable_def
          dest!: stamp_gtx_spec)
  next
    case False
    then have "durable_state g es0 acc = acc" for acc
      using st k(2) by (auto simp: set_state_def dest!: stamp_gtx_spec)
    with new have d: "durable_state g es acc = durable_state g es1 acc" for acc by (simp add: durable_replies)
    have m: "map_of (e # tab) g = map_of tab g" "map_of tab' g = map_of tab1 g"
      using False new(2) by (simp_all add: e)
    show ?thesis using IH(2) [of g] unfolding stamp_rel_def d m .
  qed
  with IH(1) new(2) show ?case by (simp add: e)
qed

lemma stamp_entries_ok:
  assumes st: "xnode_ok st" and run: "stamp_entries mtm_cfg dests cm t (xtab st) = Inr (es, tab')"
  shows "xnode_ok (xemit es (st\<lparr>xtab := tab'\<rparr>))"
proof -
  have tok: "gtx_table_ok (xtab st)" and sy: "xsynced st" using st by (auto simp: xnode_ok_def)
  have "list_all (\<lambda>(g, gtx). gid gtx = g) (xtab st)" "distinct (map fst (xtab st))"
    using tok by (auto simp: gtx_table_ok_def list_all_iff)
  from stamp_entries_spec [OF run this(2,1)] have fst: "map fst tab' = map fst (xtab st)"
    and rel: "\<And>g. stamp_rel g (xtab st) tab' es" by auto
  have entry: "\<exists>gtx. map_of (xtab st) g = Some gtx \<and> same_entry gtx gtx' \<and> gtx_final gtx' = gtx_final gtx"
    if "map_of tab' g = Some gtx'" for g gtx'
    using rel [of g] that by (auto simp: stamp_rel_def split: option.splits)
  have "gtx_table_ok tab'"
    unfolding gtx_table_ok_iff fst
  proof (intro conjI allI impI)
    show "distinct (map fst (xtab st))" using tok by (simp add: gtx_table_ok_def)
    fix g gtx' assume g: "map_of tab' g = Some gtx'"
    then show "gid gtx' = g" using entry [OF g] gtx_table_okD(1) [OF tok] by (auto simp: same_entry_def)
    assume "acquired_by gtx' = InvalidBackendId"
    then show "prepared gtx'" "\<not> gtx_final gtx'"
      using entry [OF g] gtx_table_okD(2) [OF tok] by (auto simp: same_entry_def)
  qed
  moreover have "xsynced (xemit es (st\<lparr>xtab := tab'\<rparr>))"
    unfolding xsynced_def
  proof
    fix g
    show "durable_state g (xtrace (xemit es (st\<lparr>xtab := tab'\<rparr>))) None =
     (case map_of (xtab (xemit es (st\<lparr>xtab := tab'\<rparr>))) g of
        Some gtx \<Rightarrow> if prepared gtx then Some (serialize_xstate (xinfo gtx) (gtx_state gtx)) else None
      | None \<Rightarrow> None)"
    proof (cases "map_of (xtab st) g")
      case None
      with sy rel [of g] show ?thesis by (simp add: xsynced_def stamp_rel_def)
    next
      case (Some gtx)
      have "durable_state g (xtrace st) None =
        (if prepared gtx then Some (serialize_xstate (xinfo gtx) (gtx_state gtx)) else None)"
        using sy Some by (simp add: xsynced_def)
      with rel [of g] Some gtx_table_okD(2) [OF tok Some] show ?thesis
        by (auto simp: stamp_rel_def same_entry_def dest!: spec [of _ "durable_state g (xtrace st) None"])
    qed
  qed
  ultimately show ?thesis by (simp add: xnode_ok_def)
qed

lemma scatter_status_requests_ok:
  assumes "xnode_ok st" and "harmless others" and "scatter_status_requests mtm_cfg dests others s st = Inr st'"
  shows "xnode_ok st'"
  using assms stamp_entries_ok [of "others st"]
  by (auto simp: scatter_status_requests_def harmless_def sbind_Inr_iff Let_def split: option.splits if_splits)

lemma ResolveForRefereeWinner_ok:
  assumes "xnode_ok st" and "b \<noteq> InvalidBackendId" and "harmless others"
    and "ResolveForRefereeWinner b me others s st = Inr st'"
  shows "xnode_ok st'"
proof -
  have "xnode_ok (others st)" using assms(1,3) by (simp add: harmless_def)
  then show ?thesis
    using assms(1,4) by (auto simp: ResolveForRefereeWinner_def Let_def split: if_splits elim: finish_all_ok [OF _ assms(2)])
qed

lemma finish_ready_ok:
  assumes "xnode_ok st" and "b \<noteq> InvalidBackendId" and "harmless others"
    and "finish_ready b me others st = Inr (j, st')"
  shows "xnode_ok st'"
proof -
  have "xnode_ok (others st)" using assms(1,3) by (simp add: harmless_def)
  then show ?thesis
    using assms(4) by (auto simp: finish_ready_def Let_def sbind_Inr_iff elim: finish_all_ok [OF _ assms(2)])
qed

text \<open>
  Whatever responses arrive and whatever other processes do meanwhile, a round of the resolver
  leaves the table well-formed and every vote it changed on record in Postgres.
\<close>

theorem resolver_keeps_node:
  assumes "xnode_ok st" and "b \<noteq> InvalidBackendId" and "harmless others"
    and "resolver_round b mtm_cfg dests others referee_on send s msgs st = Inr st'"
  shows "xnode_ok st'"
proof -
  from assms(4) obtain st1 where st1: "handle_responses b mtm_cfg dests (MtmGetConnectedMask s) msgs st1 = Inr st'"
    and run: "\<not> send \<and> st1 = st \<or>
      (\<exists>st0 j st2. (ResolveForRefereeWinner b (my_node_id mtm_cfg) others s st = Inr st0 \<or> st0 = st) \<and>
         finish_ready b (my_node_id mtm_cfg) others st0 = Inr (j, st2) \<and>
         (scatter_status_requests mtm_cfg dests others s st2 = Inr st1 \<or> st1 = st2))"
    by (fastforce simp: resolver_round_def sbind_Inr_iff split: if_splits)
  then have "xnode_ok st1"
    using assms(1-3) ResolveForRefereeWinner_ok finish_ready_ok scatter_status_requests_ok by metis
  then show ?thesis by (rule handle_responses_ok [OF assms(2) _ st1])
qed

definition sample_1b :: MtmTxStatusResponse where
  "sample_1b = \<lparr>sr_node_id = 3,
     sr_state = \<lparr>proposal = GlobalTxTerm 2 1, accepted = InitialGTxTerm, status = GTXPreCommitted\<rparr>,
     sr_gid = ''MTM-2-1''\<rparr>"

lemma sample_round:
  "\<exists>st'. resolver_round 4 (sample_cfg [1, 2, 3]) (\<lambda>i. i) (\<lambda>st. st) True True connected_state
     [T_MtmTxStatusResponse sample_1b] sample_node = Inr st'"
proof -
  have "(case resolver_round 4 (sample_cfg [1, 2, 3]) (\<lambda>i. i) (\<lambda>st. st) True True connected_state
     [T_MtmTxStatusResponse sample_1b] sample_node of Inl _ \<Rightarrow> False | Inr st' \<Rightarrow> True)"
    by code_simp
  then show ?thesis by (auto split: sum.splits)
qed

theorem resolver_keeps_node_witness:
  "\<exists>st'. resolver_round 4 (sample_cfg [1, 2, 3]) (\<lambda>i. i) (\<lambda>st. st) True True connected_state
     [T_MtmTxStatusResponse sample_1b] sample_node = Inr st' \<and> xnode_ok st'"
proof -
  obtain st' where r: "resolver_round 4 (sample_cfg [1, 2, 3]) (\<lambda>i. i) (\<lambda>st. st) True True connected_state
     [T_MtmTxStatusResponse sample_1b] sample_node = Inr st'"
    using sample_round by blast
  from resolver_keeps_node [OF sample_node_ok _ harmless_id this] r show ?thesis by simp
qed

section \<open>Terms and proposals\<close>

text \<open>
  The term of a new ballot is this node's own and newer than every proposal in the table, so
  that a resolver never opens two ballots with one term for a transaction it still has.
\<close>

theorem next_term_fresh:
  assumes "map_of tab g = Some gtx"
  shows "proposal (gtx_state gtx) < next_term me tab \<and> term_node_id (next_term me tab) = me"
proof -
  have "proposal (gtx_state gtx) \<le> GlobalTxGetMaxProposal tab" by (rule GlobalTxGetMaxProposal_upper [OF assms])
  moreover have "GlobalTxGetMaxProposal tab < next_term me tab"
    by (simp add: next_term_def less_GlobalTxTerm_def term_cmp_def)
  ultimately show ?thesis by (auto simp: next_term_def)
qed

theorem next_term_fresh_witness:
  "proposal (gtx_state (sample_prepared ''MTM-2-1'')) < next_term 1 (xtab sample_node)"
  using next_term_fresh [of "xtab sample_node" "''MTM-2-1''" "sample_prepared ''MTM-2-1''" 1]
  by (simp add: sample_node_def)

text \<open>
  The resolver proposes an outcome only in a ballot of its own, after a majority of the nodes
  acknowledged exactly its term; the proposed outcome is the decree of the votes with the highest
  term among all answers it has, and abort when nobody has voted. Its own vote goes to Postgres
  before the proposal is sent.
\<close>

theorem proposal_by_majority:
  assumes "status_response mtm_cfg msg gtx = Inr (es, gtx', Some req)"
    and "1 \<le> my_node_id mtm_cfg" and "my_node_id mtm_cfg \<le> int (length (phase1_acks gtx))"
    and "sr_node_id msg \<noteq> my_node_id mtm_cfg"
  shows "rq_term req = proposal (gtx_state gtx) \<and> term_node_id (rq_term req) = my_node_id mtm_cfg \<and>
    MtmQuorum mtm_cfg (length (filter (\<lambda>s. ack_term s (rq_term req)) (phase1_acks gtx'))) \<and>
    es = [set_state gtx \<lparr>proposal = rq_term req, accepted = rq_term req, status = status (gtx_state gtx')\<rparr>] \<and>
    (let m = max_accepted (phase1_acks gtx') (accepted (gtx_state gtx)) in
     \<forall>s \<in> set (decree_votes m (phase1_acks gtx')). rq_type req = MTReq_Precommit \<longleftrightarrow> status s = GTXPreCommitted)"
proof -
  let ?me = "nat (my_node_id mtm_cfg - 1)"
  from assms(1) obtain acks where acks: "acks = (phase1_acks gtx)[?me := gtx_state gtx, nat (sr_node_id msg - 1) := sr_state msg]"
    and d: "status_decide mtm_cfg (sr_state msg) (gtx\<lparr>phase1_acks := acks\<rparr>) = Inr (es, gtx', Some req)"
    and r: "1 \<le> sr_node_id msg"
    by (auto simp: status_response_def sbind_Inr_iff put_ack_def split: if_splits)
  have me: "acks ! ?me = gtx_state gtx"
    unfolding acks using assms(2-4) r by (simp add: nth_list_update_neq nat_eq_iff)
  have q: "quorum mtm_cfg acks" and p: "propose_decree (gtx\<lparr>phase1_acks := acks\<rparr>) = Inr (es, gtx', Some req)"
    using d unfolding status_decide_def by (auto split: if_splits)
  note pd = propose_decreeD [OF p]
  from pd have st: "gtx_state gtx' = \<lparr>proposal = proposal (gtx_state gtx), accepted = proposal (gtx_state gtx), status = status (gtx_state gtx')\<rparr>"
    and req: "req = request_2a gtx' (status (gtx_state gtx'))" and a: "phase1_acks gtx' = acks" by auto
  have tm: "rq_term req = proposal (gtx_state gtx)" using req st by (simp add: request_2a_def) (metis GTxState.select_convs(2))
  have "decree (max_accepted acks (accepted (gtx_state gtx))) acks GTXInvalid = Inr (status (gtx_state gtx'))"
    using pd by simp
  from decree_Inr [OF this]
  have dec: "\<forall>s \<in> set (decree_votes (max_accepted acks (accepted (gtx_state gtx))) acks).
      rq_type req = MTReq_Precommit \<longleftrightarrow> status s = GTXPreCommitted"
    by (auto simp: req request_2a_def split: if_splits)
  have "es = [set_state gtx (gtx_state gtx')]" using pd by simp
  with st tm have es: "es = [set_state gtx \<lparr>proposal = rq_term req, accepted = rq_term req, status = status (gtx_state gtx')\<rparr>]"
    by metis
  have "term_node_id (rq_term req) = my_node_id mtm_cfg"
    "MtmQuorum mtm_cfg (length (filter (\<lambda>s. ack_term s (rq_term req)) acks))"
    using q by (simp_all add: quorum_def Let_def me tm)
  with tm es dec show ?thesis by (simp add: a Let_def)
qed

definition sample_stamped :: GlobalTx where
  "sample_stamped = (sample_prepared ''MTM-2-1'')\<lparr>
     gtx_state := \<lparr>proposal = GlobalTxTerm 2 1, accepted = InvalidGTxTerm, status = GTXInvalid\<rparr>\<rparr>"

lemma sample_propose: "\<exists>es gtx' req. status_response (sample_cfg [1, 2, 3]) sample_1b sample_stamped = Inr (es, gtx', Some req)"
proof -
  have "(case status_response (sample_cfg [1, 2, 3]) sample_1b sample_stamped of Inl _ \<Rightarrow> False | Inr (_, _, req) \<Rightarrow> req \<noteq> None)"
    by code_simp
  then show ?thesis by (auto split: sum.splits)
qed

theorem proposal_by_majority_witness:
  "\<exists>es gtx' req. status_response (sample_cfg [1, 2, 3]) sample_1b sample_stamped = Inr (es, gtx', Some req) \<and>
     rq_term req = GlobalTxTerm 2 1 \<and> MtmQuorum (sample_cfg [1, 2, 3]) (length (filter (\<lambda>s. ack_term s (GlobalTxTerm 2 1)) (phase1_acks gtx')))"
proof -
  obtain es gtx' req where r: "status_response (sample_cfg [1, 2, 3]) sample_1b sample_stamped = Inr (es, gtx', Some req)"
    using sample_propose by blast
  have h: "1 \<le> my_node_id (sample_cfg [1, 2, 3])" "my_node_id (sample_cfg [1, 2, 3]) \<le> int (length (phase1_acks sample_stamped))"
    "sr_node_id sample_1b \<noteq> my_node_id (sample_cfg [1, 2, 3])" "proposal (gtx_state sample_stamped) = GlobalTxTerm 2 1"
    by (simp_all add: sample_cfg_def sample_1b_def sample_stamped_def sample_prepared_def zero_gtx_def zero_acks_def)
  from proposal_by_majority [OF r h(1-3)] h(4)
  have "rq_term req = GlobalTxTerm 2 1"
    "MtmQuorum (sample_cfg [1, 2, 3]) (length (filter (\<lambda>s. ack_term s (rq_term req)) (phase1_acks gtx')))"
    by (metis, metis)
  with r show ?thesis by metis
qed

end
