(* ===== verification/Commit.thy ===== *)
theory Commit
  imports Gid Mtm_State
begin

text \<open>
  The commit sequence of a client transaction on its coordinator (\<open>MtmTwoPhaseCommit\<close>,
  \<open>MtmExplicitPrepare\<close>, \<open>MtmExplicitFinishPrepared\<close> and \<open>mtm_commit_cleanup\<close> of
  \<open>src/src/commit.c\<close>): prepare here and at every member of the generation, precommit here and at a
  majority, commit. An error before the precommit rolls the transaction back; after it the
  transaction is left to the resolver.

  What \<open>gather\<close> collected in each round is an argument. While the backend waits, other processes
  work on the node; \<open>others\<close> says what they did. The prepare barrier, which the backend holds
  while it prepares, is the subject of \<open>Prepare_Barrier\<close>.
\<close>

section \<open>Errors and messages\<close>

datatype commit_err =
  NodeNotOnline
| PrepareGenSwitch
| PrepareNetwork nodemask_t
| PeerRefused int int
| PrecommitGenSwitch
| PrecommitNetwork nodemask_t
| InternalGid
| GidInUse
| NoSuchGid

datatype commit_result = NotInteresting | Done nodemask_t | Failed commit_err

definition PrepareGatherHook :: "TransactionId \<Rightarrow> MtmMessage \<Rightarrow> bool" where
  "PrepareGatherHook xid anymsg = (case anymsg of T_MtmPrepareResponse msg \<Rightarrow> pr_xid msg = xid | _ \<Rightarrow> False)"

definition Paxos2AGatherHook :: "string \<Rightarrow> MtmMessage \<Rightarrow> bool" where
  "Paxos2AGatherHook g anymsg = (case anymsg of T_Mtm2AResponse msg \<Rightarrow> a2_gid msg = g | _ \<Rightarrow> False)"

section \<open>Cleanup after an error\<close>

text \<open>\<open>mtm_commit_state.gtx\<close> is the entry the backend holds, if any.\<close>

definition mtm_commit_cleanup :: "int \<Rightarrow> string \<Rightarrow> bool \<Rightarrow> xnode \<Rightarrow> xact_err + xnode" where
  "mtm_commit_cleanup b g holds st =
     (if \<not> holds then Inr st
      else case map_of (xtab st) g of
        None \<Rightarrow> Inl BrokenAssert
      | Some gtx \<Rightarrow>
          if prepared gtx \<and> (term_cmp (accepted (gtx_state gtx)) InvalidGTxTerm = 0 \<or> IS_EXPLICIT_2PC_GID g)
          then sbind (release_gtx b g (finish_gtx False gtx) (xtab st)) (\<lambda>tab.
                 Inr (xemit [Finish g False] (st\<lparr>xtab := tab\<rparr>)))
          else sbind (release_gtx b g gtx (xtab st)) (\<lambda>tab. Inr (st\<lparr>xtab := tab\<rparr>)))"

section \<open>Preparing\<close>

definition create_gtx :: "int \<Rightarrow> int \<Rightarrow> GlobalTx \<Rightarrow> string \<Rightarrow> gid2gtx \<Rightarrow> xact_err + (gid2gtx \<times> GlobalTx)" where
  "create_gtx b me garbage g tab =
     (case GlobalTxAcquire b me garbage g True False 0 [] tab of
        Waiting _ \<Rightarrow> Inl Blocked
      | Acquired tab' (Some gtx) _ \<Rightarrow> Inr (tab', gtx)
      | _ \<Rightarrow> Inl BrokenAssert)"

definition own_gtx :: "int \<Rightarrow> TransactionId \<Rightarrow> MtmGeneration \<Rightarrow> GlobalTx \<Rightarrow> GlobalTx" where
  "own_gtx me xid xact_gen gtx = gtx\<lparr>orphaned := True,
     xinfo := \<lparr>coordinator = me, xi_xid = xid, xi_gen_num = num xact_gen, xi_configured = configured xact_gen\<rparr>\<rparr>"

text \<open>From the acquisition of the entry to the end of the local prepare.\<close>

definition prepare_own ::
  "int \<Rightarrow> int \<Rightarrow> TransactionId \<Rightarrow> MtmGeneration \<Rightarrow> string \<Rightarrow> GlobalTx \<Rightarrow> xnode \<Rightarrow> xact_err + xnode" where
  "prepare_own b me xid xact_gen g gtx st =
     (let gtx = own_gtx me xid xact_gen gtx
      in if status (gtx_state gtx) \<noteq> GTXInvalid then Inl BrokenAssert
         else Inr (xemit [Prepare g (serialize_xstate (xinfo gtx) (gtx_state gtx))]
                (st\<lparr>xtab := AList.update g (gtx\<lparr>prepared := True\<rparr>) (xtab st)\<rparr>)))"

text \<open>The check of the prepare acks; \<open>ret\<close> is false when the generation has switched.\<close>

definition check_prepares :: "nodemask_t \<Rightarrow> bool \<Rightarrow> MtmPrepareResponse list \<Rightarrow> commit_err option" where
  "check_prepares cohort ret p_messages =
     (if \<not> ret then Some PrepareGenSwitch
      else if length p_messages \<noteq> popcount cohort
      then Some (PrepareNetwork (fold (\<lambda>m c. BIT_CLEAR c (pos (pr_node_id m))) p_messages cohort))
      else map_option (\<lambda>m. PeerRefused (pr_node_id m) (pr_errcode m))
             (List.find (\<lambda>m. \<not> pr_prepared m) p_messages))"

section \<open>Precommitting\<close>

definition precommitted_state :: GTxState where
  "precommitted_state = \<lparr>proposal = InitialGTxTerm, accepted = InitialGTxTerm, status = GTXPreCommitted\<rparr>"

definition precommit_own :: "string \<Rightarrow> xnode \<Rightarrow> xact_err + xnode" where
  "precommit_own g st =
     (case map_of (xtab st) g of
        None \<Rightarrow> Inl BrokenAssert
      | Some gtx \<Rightarrow> Inr (xemit [SetState g (serialize_xstate (xinfo gtx) precommitted_state)]
                     (st\<lparr>xtab := AList.update g (gtx\<lparr>gtx_state := precommitted_state\<rparr>) (xtab st)\<rparr>)))"

definition good_2b :: "Mtm2AResponse \<Rightarrow> bool" where
  "good_2b msg = (term_cmp (a2_accepted_term msg) InitialGTxTerm = 0 \<and> a2_status msg = GTXPreCommitted)"

definition success_cohort :: "Mtm2AResponse list \<Rightarrow> nodemask_t" where
  "success_cohort twoa_messages =
     fold (\<lambda>m c. if good_2b m then BIT_SET c (pos (a2_node_id m)) else c) twoa_messages 0"

definition check_precommits ::
  "MtmGeneration \<Rightarrow> nodemask_t \<Rightarrow> bool \<Rightarrow> Mtm2AResponse list \<Rightarrow> commit_err option" where
  "check_precommits xact_gen cohort ret twoa_messages =
     (let nvotes = 1 + length (filter good_2b twoa_messages)
      in if Quorum (popcount (configured xact_gen)) nvotes then None
         else if \<not> ret then Some PrecommitGenSwitch
         else Some (PrecommitNetwork (fold (\<lambda>i c. if BIT_CHECK (success_cohort twoa_messages) i then BIT_CLEAR c i else c)
                      [0..<MTM_MAX_NODES] cohort)))"

definition commit_own :: "int \<Rightarrow> string \<Rightarrow> xnode \<Rightarrow> xact_err + xnode" where
  "commit_own b g st =
     (case map_of (xtab st) g of
        None \<Rightarrow> Inl BrokenAssert
      | Some gtx \<Rightarrow>
          sbind (release_gtx b g (finish_gtx True gtx) (xtab st)) (\<lambda>tab.
            Inr (xemit [Finish g True] (st\<lparr>xtab := tab\<rparr>))))"

section \<open>The whole sequence\<close>

record xact_flags =
  MtmNo3PC :: bool
  contains_ddl :: bool
  contains_dml :: bool
  distributed :: bool

definition fail_cleanup :: "int \<Rightarrow> string \<Rightarrow> bool \<Rightarrow> commit_err \<Rightarrow> xnode \<Rightarrow> xact_err + (commit_result \<times> xnode)" where
  "fail_cleanup b g holds e st = sbind (mtm_commit_cleanup b g holds st) (\<lambda>st. Inr (Failed e, st))"

text \<open>After the local prepare: the two rounds and the commit.\<close>

definition commit_rounds ::
  "int \<Rightarrow> int \<Rightarrow> MtmGeneration \<Rightarrow> string \<Rightarrow> (xnode \<Rightarrow> xnode) \<Rightarrow> (xnode \<Rightarrow> xnode) \<Rightarrow>
   bool \<times> MtmPrepareResponse list \<Rightarrow> bool \<times> Mtm2AResponse list \<Rightarrow> xnode \<Rightarrow> xact_err + (commit_result \<times> xnode)" where
  "commit_rounds b me xact_gen g others1 others2 p_round pc_round st =
     (let cohort = BIT_CLEAR (members xact_gen) (pos me);
          st = others1 st
      in case check_prepares cohort (fst p_round) (snd p_round) of
           Some e \<Rightarrow> fail_cleanup b g True e st
         | None \<Rightarrow>
             sbind (precommit_own g st) (\<lambda>st.
               if IS_REFEREE_GEN (members xact_gen) (configured xact_gen)
               then sbind (commit_own b g st) (\<lambda>st. Inr (Done 0, st))
               else let st = others2 st
                    in case check_precommits xact_gen cohort (fst pc_round) (snd pc_round) of
                         Some e \<Rightarrow> fail_cleanup b g True e st
                       | None \<Rightarrow> sbind (commit_own b g st) (\<lambda>st. Inr (Done (success_cohort (snd pc_round)), st))))"

definition MtmTwoPhaseCommit ::
  "int \<Rightarrow> int \<Rightarrow> GlobalTx \<Rightarrow> xact_flags \<Rightarrow> TransactionId \<Rightarrow> (xnode \<Rightarrow> xnode) \<Rightarrow> (xnode \<Rightarrow> xnode) \<Rightarrow>
   bool \<times> MtmPrepareResponse list \<Rightarrow> bool \<times> Mtm2AResponse list \<Rightarrow> MtmState \<Rightarrow> xnode \<Rightarrow>
   xact_err + (commit_result \<times> xnode)" where
  "MtmTwoPhaseCommit b me garbage fl xid others1 others2 p_round pc_round s st =
     (if MtmNo3PC fl then Inr (NotInteresting, st)
      else if \<not> contains_ddl fl \<and> \<not> contains_dml fl then Inr (NotInteresting, st)
      else if \<not> distributed fl then Inr (NotInteresting, st)
      else if MtmGetCurrentStatusInGen me s \<noteq> Some MTM_GEN_ONLINE then fail_cleanup b [] False NodeNotOnline st
      else let xact_gen = MtmGetCurrentGen s;
               g = MtmGenerateGid me xid (num xact_gen)
           in sbind (create_gtx b me garbage g (xtab st)) (\<lambda>(tab, gtx).
              sbind (prepare_own b me xid xact_gen g gtx (st\<lparr>xtab := tab\<rparr>))
                (commit_rounds b me xact_gen g others1 others2 p_round pc_round)))"

section \<open>Explicit two-phase commit\<close>

text \<open>
  \<open>aborted_block\<close> says that the transaction block had already failed, \<open>block_ok\<close> is what Postgres
  answers to the prepare command.
\<close>

definition MtmExplicitPrepare ::
  "int \<Rightarrow> int \<Rightarrow> GlobalTx \<Rightarrow> bool \<Rightarrow> bool \<Rightarrow> string \<Rightarrow> TransactionId \<Rightarrow> (xnode \<Rightarrow> xnode) \<Rightarrow>
   bool \<times> MtmPrepareResponse list \<Rightarrow> MtmState \<Rightarrow> xnode \<Rightarrow> xact_err + (commit_result \<times> xnode)" where
  "MtmExplicitPrepare b me garbage aborted_block block_ok g xid others p_round s st =
     (if aborted_block then Inr (NotInteresting, st)
      else if \<not> IS_EXPLICIT_2PC_GID g then Inr (Failed InternalGid, st)
      else if MtmGetCurrentStatusInGen me s \<noteq> Some MTM_GEN_ONLINE then fail_cleanup b g False NodeNotOnline st
      else let xact_gen = MtmGetCurrentGen s;
               cohort = BIT_CLEAR (members xact_gen) (pos me)
           in sbind (create_gtx b me garbage g (xtab st)) (\<lambda>(tab, gtx).
              let st = st\<lparr>xtab := tab\<rparr>
              in if prepared gtx
                 then sbind (release_gtx b g gtx tab) (\<lambda>tab. fail_cleanup b g False GidInUse (st\<lparr>xtab := tab\<rparr>))
                 else if \<not> block_ok
                 then sbind (mtm_commit_cleanup b g True
                        (st\<lparr>xtab := AList.update g (own_gtx me xid xact_gen gtx) tab\<rparr>)) (\<lambda>st. Inr (NotInteresting, st))
                 else sbind (prepare_own b me xid xact_gen g gtx st) (\<lambda>st.
                      let st = others st
                      in case check_prepares cohort (fst p_round) (snd p_round) of
                           Some e \<Rightarrow> fail_cleanup b g True e st
                         | None \<Rightarrow>
                             (case map_of (xtab st) g of
                                None \<Rightarrow> Inl BrokenAssert
                              | Some gtx \<Rightarrow> sbind (release_gtx b g gtx (xtab st)) (\<lambda>tab.
                                  Inr (Done 0, st\<lparr>xtab := tab\<rparr>))))))"

text \<open>Finishing is local; with \<open>MtmWaitPeerCommits\<close> the acks of the others only lead to warnings.\<close>

definition MtmExplicitFinishPrepared ::
  "int \<Rightarrow> int \<Rightarrow> string \<Rightarrow> bool \<Rightarrow> xnode \<Rightarrow> xact_err + (commit_result \<times> xnode)" where
  "MtmExplicitFinishPrepared b me g isCommit st =
     sbind (lock_gtx b me g False 0 (xtab st)) (\<lambda>(tab, l).
       case l of
         Got gtx \<Rightarrow>
           sbind (release_gtx b g (finish_gtx isCommit gtx) tab) (\<lambda>tab.
             Inr (Done 0, xemit [Finish g isCommit] (st\<lparr>xtab := tab\<rparr>)))
       | _ \<Rightarrow> Inr (Failed NoSuchGid, st\<lparr>xtab := tab\<rparr>))"

section \<open>A backend that holds its entry\<close>

definition holds :: "int \<Rightarrow> string \<Rightarrow> GlobalTx \<Rightarrow> xnode \<Rightarrow> bool" where
  "holds b g gtx st \<longleftrightarrow> xnode_ok st \<and> map_of (xtab st) g = Some gtx \<and> acquired_by gtx = b \<and>
     gid gtx = g \<and> prepared gtx \<and> \<not> gtx_final gtx"

lemma holds_others:
  "holds b g gtx st \<Longrightarrow> respects_lock b g others \<Longrightarrow>
     holds b g gtx (others st) \<and> gid_effects g (xtrace (others st)) = gid_effects g (xtrace st)"
  by (auto simp: holds_def respects_lock_def harmless_def)

lemma create_gtx_new:
  assumes "map_of tab g = None"
  shows "create_gtx b me garbage g tab = Inr (AList.update g (new_gtx garbage g b) tab, new_gtx garbage g b)"
  using assms by (simp add: create_gtx_def GlobalTxAcquire.simps GlobalTxAcquire_round_def update_conv')

lemma new_gtx_simps [simp]:
  "gid (new_gtx garbage g b) = g" "acquired_by (new_gtx garbage g b) = b" "\<not> prepared (new_gtx garbage g b)"
  "gtx_state (new_gtx garbage g b) = \<lparr>proposal = InitialGTxTerm, accepted = InvalidGTxTerm, status = GTXInvalid\<rparr>"
  by (simp_all add: new_gtx_def)

lemma xnode_ok_update:
  assumes st: "xnode_ok st" and b: "b \<noteq> InvalidBackendId" and gtx: "gid gtx = g" "acquired_by gtx = b"
    and es: "durable_state g es (durable_state g (xtrace st) None) =
        (if prepared gtx then Some (serialize_xstate (xinfo gtx) (gtx_state gtx)) else None)"
      "\<And>k acc. k \<noteq> g \<Longrightarrow> durable_state k es acc = acc"
  shows "xnode_ok (xemit es (st\<lparr>xtab := AList.update g gtx (xtab st)\<rparr>))"
proof -
  have "gtx_table_ok (AList.update g gtx (xtab st))"
    using st b gtx by (intro gtx_table_ok_update) (auto simp: xnode_ok_def)
  moreover have "xsynced (xemit es (st\<lparr>xtab := AList.update g gtx (xtab st)\<rparr>))"
    unfolding xsynced_def
  proof
    fix k
    show "durable_state k (xtrace (xemit es (st\<lparr>xtab := AList.update g gtx (xtab st)\<rparr>))) None =
       (case map_of (xtab (xemit es (st\<lparr>xtab := AList.update g gtx (xtab st)\<rparr>))) k of
          Some gtx \<Rightarrow> if prepared gtx then Some (serialize_xstate (xinfo gtx) (gtx_state gtx)) else None
        | None \<Rightarrow> None)"
      using st es by (cases "k = g") (simp_all add: update_conv' xnode_ok_def xsynced_def)
  qed
  ultimately show ?thesis by (simp add: xnode_ok_def)
qed

lemma prepare_own_spec:
  assumes st: "xnode_ok st" and b: "b \<noteq> InvalidBackendId" and new: "map_of (xtab st) g = None"
  obtains gtx st' where "prepare_own b me xid gen g (new_gtx garbage g b)
        (st\<lparr>xtab := AList.update g (new_gtx garbage g b) (xtab st)\<rparr>) = Inr st'"
    "holds b g gtx st'" "orphaned gtx" "gtx_state gtx = \<lparr>proposal = InitialGTxTerm, accepted = InvalidGTxTerm, status = GTXInvalid\<rparr>"
    "xtrace st' = xtrace st @ [Prepare g (serialize_xstate (xinfo gtx) (gtx_state gtx))]"
proof -
  let ?gtx = "(own_gtx me xid gen (new_gtx garbage g b))\<lparr>prepared := True\<rparr>"
  let ?st = "xemit [Prepare g (serialize_xstate (xinfo ?gtx) (gtx_state ?gtx))] (st\<lparr>xtab := AList.update g ?gtx (xtab st)\<rparr>)"
  have run: "prepare_own b me xid gen g (new_gtx garbage g b)
        (st\<lparr>xtab := AList.update g (new_gtx garbage g b) (xtab st)\<rparr>) = Inr ?st"
    by (simp add: prepare_own_def own_gtx_def update_Some_unfold)
  have "xnode_ok ?st"
    by (rule xnode_ok_update [OF st b]) (auto simp: own_gtx_def)
  then have "holds b g ?gtx ?st"
    by (simp add: holds_def own_gtx_def gtx_final_def update_conv')
  with run show ?thesis by (rule that) (simp_all add: own_gtx_def)
qed

lemma precommit_own_spec:
  assumes h: "holds b g gtx st" and b: "b \<noteq> InvalidBackendId"
  obtains st' where "precommit_own g st = Inr st'" "holds b g (gtx\<lparr>gtx_state := precommitted_state\<rparr>) st'"
    "xtrace st' = xtrace st @ [SetState g (serialize_xstate (xinfo gtx) precommitted_state)]"
proof -
  let ?gtx = "gtx\<lparr>gtx_state := precommitted_state\<rparr>"
  let ?st = "xemit [SetState g (serialize_xstate (xinfo gtx) precommitted_state)] (st\<lparr>xtab := AList.update g ?gtx (xtab st)\<rparr>)"
  have "xnode_ok ?st"
    using h by (intro xnode_ok_update [OF _ b]) (auto simp: holds_def)
  then have "holds b g ?gtx ?st"
    using h by (simp add: holds_def gtx_final_def precommitted_state_def update_conv')
  moreover have "precommit_own g st = Inr ?st" using h by (simp add: precommit_own_def holds_def)
  ultimately show ?thesis by (intro that [of ?st]) simp_all
qed

lemma finish_own:
  assumes h: "holds b g gtx st" and b: "b \<noteq> InvalidBackendId"
  obtains tab where "release_gtx b g (finish_gtx c gtx) (xtab st) = Inr tab"
    "xnode_ok (xemit [Finish g c] (st\<lparr>xtab := tab\<rparr>))" "map_of tab g = None"
proof -
  have ok: "gtx_table_ok (xtab st)" "xsynced st" using h by (auto simp: holds_def xnode_ok_def)
  have "gid (finish_gtx c gtx) = g" "acquired_by (finish_gtx c gtx) = b" using h by (simp_all add: holds_def)
  from release_gtx_total [OF ok(1) this b] obtain tab where
    r: "release_gtx b g (finish_gtx c gtx) (xtab st) = Inr tab" "gtx_table_ok tab" by blast
  with xsynced_finish [OF ok(2) _ r(1), of c] release_gtx_entry [OF r(1), of g] show ?thesis
    by (intro that [of tab]) (simp_all add: xnode_ok_def)
qed

lemma commit_own_spec:
  assumes h: "holds b g gtx st" and b: "b \<noteq> InvalidBackendId"
  obtains st' where "commit_own b g st = Inr st'" "xnode_ok st'" "map_of (xtab st') g = None"
    "xtrace st' = xtrace st @ [Finish g True]"
proof -
  obtain tab where "release_gtx b g (finish_gtx True gtx) (xtab st) = Inr tab"
    "xnode_ok (xemit [Finish g True] (st\<lparr>xtab := tab\<rparr>))" "map_of tab g = None"
    by (rule finish_own [OF assms])
  then show ?thesis
    using h by (intro that [of "xemit [Finish g True] (st\<lparr>xtab := tab\<rparr>)"]) (simp_all add: commit_own_def holds_def)
qed

text \<open>The cleanup rolls back what was not precommitted and leaves the rest to the resolver.\<close>

lemma cleanup_rollback:
  assumes h: "holds b g gtx st" and b: "b \<noteq> InvalidBackendId"
    and a: "accepted (gtx_state gtx) = InvalidGTxTerm \<or> IS_EXPLICIT_2PC_GID g"
  obtains st' where "mtm_commit_cleanup b g True st = Inr st'" "xnode_ok st'" "map_of (xtab st') g = None"
    "xtrace st' = xtrace st @ [Finish g False]"
proof -
  obtain tab where "release_gtx b g (finish_gtx False gtx) (xtab st) = Inr tab"
    "xnode_ok (xemit [Finish g False] (st\<lparr>xtab := tab\<rparr>))" "map_of tab g = None"
    by (rule finish_own [OF h b])
  then show ?thesis
    using h a by (intro that [of "xemit [Finish g False] (st\<lparr>xtab := tab\<rparr>)"])
      (simp_all add: mtm_commit_cleanup_def holds_def)
qed

lemma cleanup_unknown:
  assumes h: "holds b g gtx st" and b: "b \<noteq> InvalidBackendId"
    and a: "accepted (gtx_state gtx) \<noteq> InvalidGTxTerm" "\<not> IS_EXPLICIT_2PC_GID g"
  obtains st' where "mtm_commit_cleanup b g True st = Inr st'" "xnode_ok st'"
    "map_of (xtab st') g = Some (gtx\<lparr>acquired_by := InvalidBackendId\<rparr>)" "xtrace st' = xtrace st"
proof -
  have ok: "gtx_table_ok (xtab st)" "xsynced st" "map_of (xtab st) g = Some gtx" "acquired_by gtx = b"
    "prepared gtx" "\<not> gtx_final gtx" "gid gtx = g" using h by (auto simp: holds_def xnode_ok_def)
  obtain tab where "release_gtx b g gtx (xtab st) = Inr tab" "xnode_ok (xemit [] (st\<lparr>xtab := tab\<rparr>))"
    "map_of tab g = Some (gtx\<lparr>acquired_by := InvalidBackendId\<rparr>)"
    using vote_and_release [OF ok b same_entry_refl ok(6), of "[]"] by auto
  then show ?thesis
    using h a by (intro that [of "st\<lparr>xtab := tab\<rparr>"]) (simp_all add: mtm_commit_cleanup_def holds_def xemit_def)
qed

section \<open>What the sequence does to the transaction\<close>

definition initial_state :: GTxState where
  "initial_state = \<lparr>proposal = InitialGTxTerm, accepted = InvalidGTxTerm, status = GTXInvalid\<rparr>"

fun precommit_err :: "commit_err \<Rightarrow> bool" where
  "precommit_err PrecommitGenSwitch = True"
| "precommit_err (PrecommitNetwork _) = True"
| "precommit_err _ = False"

text \<open>The calls to Postgres for each result of the sequence.\<close>

fun commit_trace :: "string \<Rightarrow> XactInfo \<Rightarrow> commit_result \<Rightarrow> xeffect list" where
  "commit_trace g xi NotInteresting = []"
| "commit_trace g xi (Done _) = [Prepare g (serialize_xstate xi initial_state),
     SetState g (serialize_xstate xi precommitted_state), Finish g True]"
| "commit_trace g xi (Failed e) =
     (if e = NodeNotOnline then []
      else if precommit_err e then [Prepare g (serialize_xstate xi initial_state), SetState g (serialize_xstate xi precommitted_state)]
      else [Prepare g (serialize_xstate xi initial_state), Finish g False])"

definition left_behind :: "string \<Rightarrow> commit_result \<Rightarrow> xnode \<Rightarrow> bool" where
  "left_behind g r st \<longleftrightarrow>
     (if \<exists>e. r = Failed e \<and> precommit_err e
      then \<exists>gtx. map_of (xtab st) g = Some gtx \<and> acquired_by gtx = InvalidBackendId \<and> orphaned gtx \<and>
             gtx_state gtx = precommitted_state
      else map_of (xtab st) g = None)"

lemma check_precommits_err: "check_precommits gen cohort ret ms = Some e \<Longrightarrow> precommit_err e"
  by (auto simp: check_precommits_def Let_def split: if_splits)

lemma check_prepares_err: "check_prepares cohort ret ms = Some e \<Longrightarrow> \<not> precommit_err e \<and> e \<noteq> NodeNotOnline"
  by (auto simp: check_prepares_def split: if_splits)

lemma gid_effects_own [simp]:
  "gid_effects g [Prepare g s] = [Prepare g s]" "gid_effects g [SetState g s] = [SetState g s]"
  "gid_effects g [Finish g c] = [Finish g c]"
  by (simp_all add: gid_effects_def)

lemma commit_rounds_spec:
  assumes h: "holds b g gtx st" and b: "b \<noteq> InvalidBackendId"
    and gtx: "orphaned gtx" "gtx_state gtx = initial_state" "\<not> IS_EXPLICIT_2PC_GID g"
    and o: "respects_lock b g others1" "respects_lock b g others2"
    and tr: "gid_effects g (xtrace st) = tr @ [Prepare g (serialize_xstate (xinfo gtx) initial_state)]"
  obtains r st' where "commit_rounds b me gen g others1 others2 p_round pc_round st = Inr (r, st')"
    "xnode_ok st'" "gid_effects g (xtrace st') = tr @ commit_trace g (xinfo gtx) r" "left_behind g r st'"
proof -
  let ?cohort = "BIT_CLEAR (members gen) (pos me)"
  let ?pc = "gtx\<lparr>gtx_state := precommitted_state\<rparr>"
  note h1 = holds_others [OF h o(1)]
  show ?thesis
  proof (cases "check_prepares ?cohort (fst p_round) (snd p_round)")
    case (Some e)
    obtain st' where s: "mtm_commit_cleanup b g True (others1 st) = Inr st'" "xnode_ok st'" "map_of (xtab st') g = None"
      "xtrace st' = xtrace (others1 st) @ [Finish g False]"
      by (rule cleanup_rollback [OF conjunct1 [OF h1] b]) (simp add: gtx initial_state_def)
    show ?thesis
      by (rule that [of "Failed e" st'])
        (use s Some h1 tr check_prepares_err [OF Some] in
          \<open>simp_all add: commit_rounds_def fail_cleanup_def left_behind_def\<close>)
  next
    case None
    obtain st2 where pc: "precommit_own g (others1 st) = Inr st2" "holds b g ?pc st2"
      "xtrace st2 = xtrace (others1 st) @ [SetState g (serialize_xstate (xinfo gtx) precommitted_state)]"
      by (rule precommit_own_spec [OF conjunct1 [OF h1] b])
    have tr2: "gid_effects g (xtrace st2) = tr @ [Prepare g (serialize_xstate (xinfo gtx) initial_state),
        SetState g (serialize_xstate (xinfo gtx) precommitted_state)]"
      using pc(3) h1 tr by simp
    show ?thesis
    proof (cases "IS_REFEREE_GEN (members gen) (configured gen)")
      case True
      obtain st' where s: "commit_own b g st2 = Inr st'" "xnode_ok st'" "map_of (xtab st') g = None"
        "xtrace st' = xtrace st2 @ [Finish g True]"
        by (rule commit_own_spec [OF pc(2) b])
      show ?thesis
        by (rule that [of "Done 0" st'])
          (use s pc(1) None True tr2 in \<open>simp_all add: commit_rounds_def left_behind_def\<close>)
    next
      case referee: False
      note h3 = holds_others [OF pc(2) o(2)]
      show ?thesis
      proof (cases "check_precommits gen ?cohort (fst pc_round) (snd pc_round)")
        case votes: None
        obtain st' where s: "commit_own b g (others2 st2) = Inr st'" "xnode_ok st'" "map_of (xtab st') g = None"
          "xtrace st' = xtrace (others2 st2) @ [Finish g True]"
          by (rule commit_own_spec [OF conjunct1 [OF h3] b])
        show ?thesis
          by (rule that [of "Done (success_cohort (snd pc_round))" st'])
            (use s pc(1) None referee votes tr2 h3 in \<open>simp_all add: commit_rounds_def left_behind_def\<close>)
      next
        case (Some e)
        obtain st' where s: "mtm_commit_cleanup b g True (others2 st2) = Inr st'" "xnode_ok st'"
          "map_of (xtab st') g = Some (?pc\<lparr>acquired_by := InvalidBackendId\<rparr>)" "xtrace st' = xtrace (others2 st2)"
          by (rule cleanup_unknown [OF conjunct1 [OF h3] b _ gtx(3)])
            (simp add: precommitted_state_def InitialGTxTerm_def InvalidGTxTerm_def)
        have e: "precommit_err e" "e \<noteq> NodeNotOnline" using check_precommits_err [OF Some] by auto
        show ?thesis
          by (rule that [of "Failed e" st'])
            (use s pc(1) None referee Some e tr2 h3 gtx(1) in
              \<open>simp_all add: commit_rounds_def fail_cleanup_def left_behind_def\<close>)
      qed
    qed
  qed
qed


definition sample_flags :: xact_flags where
  "sample_flags = \<lparr>MtmNo3PC = False, contains_ddl = False, contains_dml = True, distributed = True\<rparr>"

definition prepared_by :: "int \<Rightarrow> MtmPrepareResponse" where
  "prepared_by n = \<lparr>pr_node_id = n, pr_prepared = True, pr_errcode = 0, pr_errmsg = [], pr_xid = 700\<rparr>"

definition precommitted_by :: "int \<Rightarrow> Mtm2AResponse" where
  "precommitted_by n = \<lparr>a2_node_id = n, a2_status = GTXPreCommitted, a2_accepted_term = InitialGTxTerm,
     a2_errcode = 0, a2_errmsg = [], a2_gid = MtmGenerateGid 1 700 1\<rparr>"

definition empty_node :: xnode where
  "empty_node = \<lparr>xtab = [], xtrace = []\<rparr>"

lemma empty_node_ok: "xnode_ok empty_node"
  by (simp add: empty_node_def xnode_ok_def xsynced_def gtx_table_ok_def)

definition sample_commit :: "xact_err + (commit_result \<times> xnode)" where
  "sample_commit = MtmTwoPhaseCommit 4 1 zero_gtx sample_flags 700 (\<lambda>st. st) (\<lambda>st. st)
     (True, [prepared_by 2, prepared_by 3]) (True, [precommitted_by 3]) connected_state empty_node"

lemma sample_commit_done: "\<exists>st'. sample_commit = Inr (Done 4, st')"
proof -
  have "(case sample_commit of Inr (Done c, _) \<Rightarrow> c = 4 | _ \<Rightarrow> False)" by code_simp
  then show ?thesis by (auto split: sum.splits commit_result.splits)
qed


section \<open>Whose votes a commit needs\<close>

text \<open>What a round of \<open>gather\<close> returns: at most one message from each participant.\<close>

definition from_distinct :: "('m \<Rightarrow> int) \<Rightarrow> nodemask_t \<Rightarrow> 'm list \<Rightarrow> bool" where
  "from_distinct nid cohort ms \<longleftrightarrow> distinct (map (\<lambda>m. pos (nid m)) ms) \<and>
     (\<lambda>m. pos (nid m)) ` set ms \<subseteq> nodes_of cohort"

lemma from_distinct_all:
  assumes "from_distinct nid cohort ms" and "length ms = popcount cohort"
  shows "(\<lambda>m. pos (nid m)) ` set ms = nodes_of cohort"
proof -
  have "card ((\<lambda>m. pos (nid m)) ` set ms) = card (nodes_of cohort)"
    using assms distinct_card [of "map (\<lambda>m. pos (nid m)) ms"] by (simp add: from_distinct_def popcount_card)
  with assms(1) show ?thesis by (intro card_subset_eq) (auto simp: from_distinct_def)
qed

text \<open>
  A commit was made by a member that was online in its generation, with the prepare acknowledged by
  every other member of that generation, and, unless the referee gave this node the cluster, with
  the precommit of a majority of all configured nodes, this one included.
\<close>

lemma check_prepares_all:
  assumes "check_prepares cohort pr p_msgs = None" and "from_distinct pr_node_id cohort p_msgs" and "i \<in> nodes_of cohort"
  shows "\<exists>m \<in> set p_msgs. pos (pr_node_id m) = i \<and> pr_prepared m"
proof -
  have "length p_msgs = popcount cohort" and pp: "\<forall>m \<in> set p_msgs. pr_prepared m"
    using assms(1) by (auto simp: check_prepares_def find_None_iff split: if_splits)
  from from_distinct_all [OF assms(2) this(1)] assms(3) pp show ?thesis by (metis (no_types, lifting) imageE)
qed

lemma check_precommits_quorum:
  assumes "check_precommits gen cohort cr c_msgs = None" and "from_distinct a2_node_id cohort c_msgs"
  shows "\<exists>V \<subseteq> nodes_of cohort. (\<forall>i \<in> V. \<exists>m \<in> set c_msgs. pos (a2_node_id m) = i \<and> good_2b m) \<and>
    Quorum (popcount (configured gen)) (1 + card V)"
proof (intro exI conjI)
  let ?V = "(\<lambda>m. pos (a2_node_id m)) ` set (filter good_2b c_msgs)"
  have "inj_on (\<lambda>m. pos (a2_node_id m)) (set c_msgs)" "distinct c_msgs"
    using assms(2) by (auto simp: from_distinct_def distinct_map)
  then have "card ?V = length (filter good_2b c_msgs)"
    using distinct_card [of "filter good_2b c_msgs"]
    by (metis card_image distinct_filter filter_is_subset inj_on_subset)
  then show "Quorum (popcount (configured gen)) (1 + card ?V)"
    using assms(1) by (auto simp: check_precommits_def Let_def split: if_splits)
  show "?V \<subseteq> nodes_of cohort" using assms(2) by (auto simp: from_distinct_def)
qed auto

lemma commit_votes:
  assumes run: "MtmTwoPhaseCommit b me garbage fl xid others1 others2 (pr, p_msgs) (cr, c_msgs) s st = Inr (Done pc, st')"
    and "from_distinct pr_node_id (BIT_CLEAR (members (MtmGetCurrentGen s)) (pos me)) p_msgs"
    and "from_distinct a2_node_id (BIT_CLEAR (members (MtmGetCurrentGen s)) (pos me)) c_msgs"
  shows "MtmGetCurrentStatusInGen me s = Some MTM_GEN_ONLINE \<and>
    (\<forall>i \<in> nodes_of (members (MtmGetCurrentGen s)) - {pos me}. \<exists>m \<in> set p_msgs. pos (pr_node_id m) = i \<and> pr_prepared m) \<and>
    (IS_REFEREE_GEN (members (MtmGetCurrentGen s)) (configured (MtmGetCurrentGen s)) \<or>
     (\<exists>V \<subseteq> nodes_of (members (MtmGetCurrentGen s)) - {pos me}.
        (\<forall>i \<in> V. \<exists>m \<in> set c_msgs. pos (a2_node_id m) = i \<and> good_2b m) \<and>
        Quorum (popcount (configured (MtmGetCurrentGen s))) (1 + card V)))"
proof (intro conjI ballI)
  let ?gen = "MtmGetCurrentGen s" and ?cohort = "BIT_CLEAR (members (MtmGetCurrentGen s)) (pos me)"
  show "MtmGetCurrentStatusInGen me s = Some MTM_GEN_ONLINE"
    using run by (auto simp: MtmTwoPhaseCommit_def fail_cleanup_def sbind_Inr_iff split: if_splits)
  from run obtain g st1 where cr: "commit_rounds b me ?gen g others1 others2 (pr, p_msgs) (cr, c_msgs) st1 = Inr (Done pc, st')"
    by (auto simp: MtmTwoPhaseCommit_def fail_cleanup_def sbind_Inr_iff Let_def split: if_splits)
  have p: "check_prepares ?cohort pr p_msgs = None"
    using cr by (auto simp: commit_rounds_def fail_cleanup_def sbind_Inr_iff Let_def split: option.splits)
  show "\<exists>m \<in> set p_msgs. pos (pr_node_id m) = i \<and> pr_prepared m" if "i \<in> nodes_of (members ?gen) - {pos me}" for i
    using check_prepares_all [OF p assms(2)] that by (simp add: nodes_of_BIT_CLEAR)
  have "IS_REFEREE_GEN (members ?gen) (configured ?gen) \<or> check_precommits ?gen ?cohort cr c_msgs = None"
    using cr p by (auto simp: commit_rounds_def fail_cleanup_def sbind_Inr_iff Let_def split: option.splits if_splits)
  then show "IS_REFEREE_GEN (members ?gen) (configured ?gen) \<or>
     (\<exists>V \<subseteq> nodes_of (members ?gen) - {pos me}.
        (\<forall>i \<in> V. \<exists>m \<in> set c_msgs. pos (a2_node_id m) = i \<and> good_2b m) \<and>
        Quorum (popcount (configured ?gen)) (1 + card V))"
    using check_precommits_quorum [OF _ assms(3)] unfolding nodes_of_BIT_CLEAR by blast
qed

lemma sample_members: "MtmGetCurrentGen connected_state = \<lparr>num = 1, members = 7, configured = 7\<rparr>"
  by (simp add: MtmGetCurrentGen_def connected_state_def)

lemma sample_cohort: "nodes_of (BIT_CLEAR 7 0) = {1, 2}"
proof -
  have 7: "(7 :: nodemask_t) = BIT_SET (BIT_SET (BIT_SET 0 0) 1) 2" by code_simp
  have "nodes_of (7 :: nodemask_t) = {0, 1, 2}" unfolding 7 by (auto simp: nodes_of_BIT_SET)
  then show ?thesis by (auto simp: nodes_of_BIT_CLEAR)
qed

section \<open>A live transaction looks orphaned\<close>

text \<open>
  The entry of a transaction its backend is still committing is marked orphaned from the
  beginning, so another process of the coordinator that asks not to wait for a live transaction
  of this node waits for it nevertheless.
\<close>

theorem own_live_entry_blocks:
  assumes "prepare_own b me xid gen g (new_gtx garbage g b)
      (st\<lparr>xtab := AList.update g (new_gtx garbage g b) (xtab st)\<rparr>) = Inr st'"
    and "b \<noteq> InvalidBackendId"
  shows "lock_gtx b' me g True me (xtab st') = Inl Blocked"
  using assms
  by (auto simp: prepare_own_def Let_def own_gtx_def lock_gtx_def GlobalTxAcquire.simps
      GlobalTxAcquire_round_def update_conv')

theorem own_live_entry_blocks_witness:
  "\<exists>st'. prepare_own 4 1 700 (MtmGetCurrentGen connected_state) ''MTM-1-700-1'' (new_gtx zero_gtx ''MTM-1-700-1'' 4)
      (empty_node\<lparr>xtab := AList.update ''MTM-1-700-1'' (new_gtx zero_gtx ''MTM-1-700-1'' 4) (xtab empty_node)\<rparr>) = Inr st' \<and>
     lock_gtx 5 1 ''MTM-1-700-1'' True 1 (xtab st') = Inl Blocked"
proof -
  have n: "map_of (xtab empty_node) ''MTM-1-700-1'' = None" by (simp add: empty_node_def)
  obtain gtx st' where r: "prepare_own 4 1 700 (MtmGetCurrentGen connected_state) ''MTM-1-700-1'' (new_gtx zero_gtx ''MTM-1-700-1'' 4)
      (empty_node\<lparr>xtab := AList.update ''MTM-1-700-1'' (new_gtx zero_gtx ''MTM-1-700-1'' 4) (xtab empty_node)\<rparr>) = Inr st'"
    by (rule prepare_own_spec [OF empty_node_ok _ n, of 4]) simp
  from own_live_entry_blocks [OF r, of 5] r show ?thesis by auto
qed

end
