(* ===== verification/Apply_Commit.thy ===== *)
theory Apply_Commit
  imports Commit
begin

text \<open>
  The end of a replicated transaction at another node (\<open>process_remote_commit\<close>,
  \<open>mtm_send_prepare_reply\<close> and \<open>mtm_send_2a_reply\<close> of \<open>src/src/pglogical_apply.c\<close>, with the error
  handler of \<open>MtmExecutor\<close>): preparing it, voting for the precommit of the coordinator, and
  finishing it. The event has already been read from the stream; the rows of the transaction and
  what Postgres says to the prepare are not modelled, the latter is an argument.
\<close>

section \<open>Replies\<close>

record rwctx =
  rw_mode :: MtmReplicationMode
  rw_sender_node_id :: int
  rw_origin_xid :: TransactionId
  rw_bdr_like :: bool

definition xid_stream :: "TransactionId \<Rightarrow> string" where
  "xid_stream xid = ''xid'' @ print_uint xid"

definition mtm_send_prepare_reply ::
  "int \<Rightarrow> (int \<Rightarrow> int) \<Rightarrow> TransactionId \<Rightarrow> int \<Rightarrow> bool \<Rightarrow> (int \<times> string) option \<Rightarrow> xact_err + xeffect" where
  "mtm_send_prepare_reply me dmq_dest_id xid dst_node_id prepd edata =
     (if dmq_dest_id dst_node_id < 0 then Inl BrokenAssert
      else Inr (Reply (dmq_dest_id dst_node_id) (xid_stream xid)
        (T_MtmPrepareResponse \<lparr>pr_node_id = me, pr_prepared = prepd,
           pr_errcode = (case edata of None \<Rightarrow> 0 | Some (code, _) \<Rightarrow> code),
           pr_errmsg = (case edata of None \<Rightarrow> [] | Some (_, m) \<Rightarrow> m), pr_xid = xid\<rparr>)))"

definition mtm_send_2a_reply ::
  "int \<Rightarrow> (int \<Rightarrow> int) \<Rightarrow> string \<Rightarrow> TransactionId \<Rightarrow> GlobalTxStatus \<Rightarrow> GlobalTxTerm \<Rightarrow> int \<Rightarrow> xact_err + xeffect" where
  "mtm_send_2a_reply me dmq_dest_id g xid sg accepted_term dst_node_id =
     (if dmq_dest_id dst_node_id < 0 then Inl BrokenAssert
      else Inr (Reply (dmq_dest_id dst_node_id) (xid_stream xid)
        (T_Mtm2AResponse \<lparr>a2_node_id = me, a2_status = sg, a2_accepted_term = accepted_term,
           a2_errcode = 0, a2_errmsg = [], a2_gid = g\<rparr>)))"

section \<open>Outcomes of applying\<close>

text \<open>
  \<open>Raised\<close> is an error with its code and message, whether the entry is held, and the node as it
  is then; \<open>Died\<close> is an error that ends the process.
\<close>

datatype apply_outcome =
  Applied xnode
| Raised int string "string option" xnode
| Died
| Stuck xact_err

definition abind :: "xact_err + 'a \<Rightarrow> ('a \<Rightarrow> apply_outcome) \<Rightarrow> apply_outcome" where
  "abind m f = (case m of Inl e \<Rightarrow> Stuck e | Inr a \<Rightarrow> f a)"

lemma abind_simps [simp]: "abind (Inl e) f = Stuck e" "abind (Inr a) f = f a"
  by (simp_all add: abind_def)

definition reply_if :: "bool \<Rightarrow> xact_err + xeffect \<Rightarrow> xnode \<Rightarrow> apply_outcome" where
  "reply_if cond r st = (if cond then abind r (\<lambda>e. Applied (xemit [e] st)) else Applied st)"

section \<open>The vote for the precommit of the coordinator\<close>

text \<open>The rule for the vote: what is sent back, the new entry, and whether it changed.\<close>

definition accept_phase2a :: "GTxState \<Rightarrow> GlobalTx \<Rightarrow> (GlobalTxStatus \<times> GlobalTxTerm) \<times> GlobalTx \<times> bool" where
  "accept_phase2a msg_gtx_state gtx =
     (if term_cmp (proposal msg_gtx_state) (proposal (gtx_state gtx)) \<ge> 0
      then ((status msg_gtx_state, proposal msg_gtx_state), gtx\<lparr>gtx_state := msg_gtx_state\<rparr>, True)
      else ((GTXInvalid, InvalidGTxTerm), gtx, False))"

definition apply_phase2a ::
  "int \<Rightarrow> int \<Rightarrow> (int \<Rightarrow> int) \<Rightarrow> rwctx \<Rightarrow> int \<Rightarrow> string \<Rightarrow> string \<Rightarrow> xnode \<Rightarrow> apply_outcome" where
  "apply_phase2a b me dests ctx origin_node g xstate st =
     (case deserialize_xstate xstate (xinfo zero_gtx) (gtx_state zero_gtx) of
        None \<Rightarrow> Stuck BrokenAssert
      | Some (rc, xi, msg_gtx_state) \<Rightarrow>
          if rc \<noteq> 0 then Raised 0 [] None st
          else if status msg_gtx_state \<noteq> GTXPreCommitted then Stuck BrokenAssert
          else abind (lock_gtx b me g False 0 (xtab st)) (\<lambda>(tab, l).
            let st = st\<lparr>xtab := tab\<rparr>; normal = (rw_mode ctx = REPLMODE_NORMAL)
            in case l of
                 Got gtx \<Rightarrow>
                   (let ((reply_status, reply_acc), gtx', voted) = accept_phase2a msg_gtx_state gtx;
                        es = (if voted then [SetState g (serialize_xstate xi msg_gtx_state)] else [])
                    in abind (release_gtx b g gtx' tab) (\<lambda>tab.
                         reply_if normal (mtm_send_2a_reply me dests g (xi_xid xi) reply_status reply_acc origin_node)
                           (xemit es (st\<lparr>xtab := tab\<rparr>))))
               | _ \<Rightarrow> reply_if normal
                        (mtm_send_2a_reply me dests g (xi_xid xi) GTXInvalid InvalidGTxTerm origin_node) st))"

section \<open>Preparing\<close>

abbreviation ERRCODE_INTERNAL_ERROR :: int where "ERRCODE_INTERNAL_ERROR \<equiv> 2600"

text \<open>
  \<open>pg_err\<close> is the error Postgres raises when the transaction cannot be prepared. The assertions are
  that the entry is new.
\<close>

definition apply_prepare ::
  "int \<Rightarrow> int \<Rightarrow> GlobalTx \<Rightarrow> (int \<Rightarrow> int) \<Rightarrow> rwctx \<Rightarrow> MtmState \<Rightarrow> (int \<times> string) option \<Rightarrow> string \<Rightarrow> string \<Rightarrow> xnode \<Rightarrow>
   apply_outcome" where
  "apply_prepare b me garbage dests ctx s pg_err g xstate st =
     (case deserialize_xstate xstate (xinfo zero_gtx) (gtx_state zero_gtx) of
        None \<Rightarrow> Stuck BrokenAssert
      | Some (rc, xi, _) \<Rightarrow>
          if rc \<noteq> 0 then Raised 0 [] None st
          else if current_gen_num s < xi_gen_num xi then Died
          else if \<not> (rw_mode ctx = REPLMODE_RECOVERY \<or> current_gen_num s > xi_gen_num xi \<or>
                     MtmGetCurrentStatusInGen me s = Some MTM_GEN_ONLINE) then Died
          else if rw_mode ctx = REPLMODE_NORMAL \<and> xi_gen_num xi < current_gen_num s
          then Raised ERRCODE_INTERNAL_ERROR ''refusing transaction'' None st
          else (case GlobalTxAcquire b me garbage g True False 0 [] (xtab st) of
              Waiting _ \<Rightarrow> Stuck Blocked
            | Acquired tab (Some gtx) _ \<Rightarrow>
                (if prepared gtx \<or> term_cmp (proposal (gtx_state gtx)) InitialGTxTerm \<noteq> 0 then Stuck BrokenAssert
                 else let gtx = gtx\<lparr>xinfo := xi\<rparr>
                      in case pg_err of
                           Some (code, m) \<Rightarrow> Raised code m (Some g) (st\<lparr>xtab := AList.update g gtx tab\<rparr>)
                         | None \<Rightarrow>
                             abind (release_gtx b g (gtx\<lparr>prepared := True\<rparr>) tab) (\<lambda>tab.
                               reply_if (rw_mode ctx = REPLMODE_NORMAL)
                                 (mtm_send_prepare_reply me dests (rw_origin_xid ctx) (rw_sender_node_id ctx) True None)
                                 (xemit [Prepare g xstate] (st\<lparr>xtab := tab\<rparr>))))
            | _ \<Rightarrow> Stuck BrokenAssert))"

section \<open>Finishing\<close>

definition apply_commit_prepared ::
  "int \<Rightarrow> int \<Rightarrow> (int \<Rightarrow> int) \<Rightarrow> rwctx \<Rightarrow> int \<Rightarrow> string \<Rightarrow> TransactionId \<Rightarrow> xnode \<Rightarrow> apply_outcome" where
  "apply_commit_prepared b me dests ctx origin_node g xid st =
     abind (finish_entry b me (\<lambda>_. True) g st)
       (reply_if (rw_mode ctx = REPLMODE_NORMAL)
          (mtm_send_2a_reply me dests g xid GTXCommitted InvalidGTxTerm origin_node))"

definition apply_abort_prepared ::
  "int \<Rightarrow> int \<Rightarrow> (int \<Rightarrow> int) \<Rightarrow> rwctx \<Rightarrow> int \<Rightarrow> string \<Rightarrow> TransactionId \<Rightarrow> xnode \<Rightarrow> apply_outcome" where
  "apply_abort_prepared b me dests ctx origin_node g xid st =
     abind (finish_entry b me (\<lambda>_. False) g st)
       (reply_if (rw_mode ctx = REPLMODE_NORMAL \<and> IS_EXPLICIT_2PC_GID g)
          (mtm_send_2a_reply me dests g xid GTXAborted InvalidGTxTerm origin_node))"

section \<open>The error handler\<close>

datatype remote_event =
  PGLOGICAL_PREPARE_PHASE2A string string
| PGLOGICAL_PREPARE string string
| PGLOGICAL_COMMIT_PREPARED string TransactionId
| PGLOGICAL_ABORT_PREPARED string TransactionId
| PGLOGICAL_COMMIT

fun process_remote_commit ::
  "int \<Rightarrow> int \<Rightarrow> GlobalTx \<Rightarrow> (int \<Rightarrow> int) \<Rightarrow> rwctx \<Rightarrow> MtmState \<Rightarrow> (int \<times> string) option \<Rightarrow> int \<Rightarrow> remote_event \<Rightarrow> xnode \<Rightarrow>
   apply_outcome" where
  "process_remote_commit b me garbage dests ctx s pg_err origin_node (PGLOGICAL_PREPARE_PHASE2A g xstate) st =
     apply_phase2a b me dests ctx origin_node g xstate st"
| "process_remote_commit b me garbage dests ctx s pg_err origin_node (PGLOGICAL_PREPARE g xstate) st =
     apply_prepare b me garbage dests ctx s pg_err g xstate st"
| "process_remote_commit b me garbage dests ctx s pg_err origin_node (PGLOGICAL_COMMIT_PREPARED g xid) st =
     apply_commit_prepared b me dests ctx origin_node g xid st"
| "process_remote_commit b me garbage dests ctx s pg_err origin_node (PGLOGICAL_ABORT_PREPARED g xid) st =
     apply_abort_prepared b me dests ctx origin_node g xid st"
| "process_remote_commit b me garbage dests ctx s pg_err origin_node PGLOGICAL_COMMIT st = Applied st"

definition handle_error ::
  "int \<Rightarrow> int \<Rightarrow> (int \<Rightarrow> int) \<Rightarrow> rwctx \<Rightarrow> bool \<Rightarrow> apply_outcome \<Rightarrow> apply_outcome" where
  "handle_error b me dests ctx nontx_ddl r =
     (case r of
        Raised code m held st \<Rightarrow>
          if (rw_mode ctx = REPLMODE_RECOVERY \<or> rw_origin_xid ctx = 0 \<or> rw_bdr_like ctx) \<and> \<not> nontx_ddl
          then Died
          else abind (case held of None \<Rightarrow> Inr (xtab st)
                      | Some g \<Rightarrow> (case GlobalTxRelease b g (xtab st) of None \<Rightarrow> Inl BrokenAssert | Some tab \<Rightarrow> Inr tab))
                 (\<lambda>tab. reply_if (rw_origin_xid ctx \<noteq> 0 \<and> rw_mode ctx = REPLMODE_NORMAL)
                    (mtm_send_prepare_reply me dests (rw_origin_xid ctx) (rw_sender_node_id ctx) False (Some (code, m)))
                    (st\<lparr>xtab := tab\<rparr>))
      | _ \<Rightarrow> r)"

section \<open>Preparing at another node\<close>

lemma acquire_new:
  assumes "map_of tab g = None"
  shows "GlobalTxAcquire b me garbage g True False 0 [] tab =
    Acquired (AList.update g (new_gtx garbage g b) tab) (Some (new_gtx garbage g b)) None"
  using assms by (simp add: GlobalTxAcquire.simps GlobalTxAcquire_round_def update_conv')

text \<open>A new entry that is given up leaves no trace.\<close>

lemma release_unprepared:
  assumes st: "xnode_ok st" and new: "map_of (xtab st) g = None" and b: "b \<noteq> InvalidBackendId"
    and gtx: "gid gtx = g" "acquired_by gtx = b" "\<not> prepared gtx" "\<not> gtx_final gtx"
  shows "\<exists>tab. GlobalTxRelease b g (AList.update g gtx (xtab st)) = Some tab \<and> xnode_ok (st\<lparr>xtab := tab\<rparr>) \<and>
    map_of tab = map_of (xtab st)"
proof -
  let ?tab = "AList.delete g (AList.update g gtx (xtab st))"
  have rel: "GlobalTxRelease b g (AList.update g gtx (xtab st)) = Some ?tab"
    using gtx by (simp add: GlobalTxRelease_def update_conv' gtx_final_def)
  have "gtx_table_ok (AList.update g gtx (xtab st))"
    using st gtx b by (intro gtx_table_ok_update) (auto simp: xnode_ok_def)
  from GlobalTxRelease_ok [OF this rel] have ok: "gtx_table_ok ?tab" .
  have m: "map_of ?tab = map_of (xtab st)"
    using new by (auto simp: delete_conv' update_conv' fun_eq_iff)
  have "xsynced (st\<lparr>xtab := ?tab\<rparr>)" using st by (simp add: xnode_ok_def xsynced_def m)
  with rel ok m show ?thesis by (simp add: xnode_ok_def)
qed

lemma prepared_new:
  fixes garbage g b xi
  defines "gtx \<equiv> (new_gtx garbage g b)\<lparr>xinfo := xi\<rparr>"
  assumes st: "xnode_ok st" and new: "map_of (xtab st) g = None" and b: "b \<noteq> InvalidBackendId"
  shows "\<exists>tab. release_gtx b g (gtx\<lparr>prepared := True\<rparr>) (AList.update g (new_gtx garbage g b) (xtab st)) = Inr tab \<and>
    xnode_ok (xemit [Prepare g (serialize_xstate xi initial_state)] (st\<lparr>xtab := tab\<rparr>))"
proof -
  let ?tab = "AList.update g (new_gtx garbage g b) (xtab st)"
  have ok: "gtx_table_ok ?tab" using st b by (intro gtx_table_ok_update) (auto simp: xnode_ok_def)
  have "gid (gtx\<lparr>prepared := True\<rparr>) = g" "acquired_by (gtx\<lparr>prepared := True\<rparr>) = b" by (simp_all add: gtx_def)
  from release_gtx_total [OF ok this b] obtain tab where
    r: "release_gtx b g (gtx\<lparr>prepared := True\<rparr>) ?tab = Inr tab" "gtx_table_ok tab" by blast
  have m: "map_of tab k = (if k = g then Some (gtx\<lparr>prepared := True, acquired_by := InvalidBackendId\<rparr>) else map_of (xtab st) k)" for k
    using release_gtx_entry [OF r(1), of k] by (simp add: gtx_def gtx_final_def update_conv')
  have "xsynced (xemit [Prepare g (serialize_xstate xi initial_state)] (st\<lparr>xtab := tab\<rparr>))"
    using st by (auto simp: xsynced_def m xnode_ok_def gtx_def initial_state_def)
  with r show ?thesis by (auto simp: xnode_ok_def)
qed

text \<open>The generation conditions under which the applier gives up altogether.\<close>

definition wrong_gen :: "int \<Rightarrow> MtmState \<Rightarrow> uint64 \<Rightarrow> bool" where
  "wrong_gen me s n \<longleftrightarrow> current_gen_num s < n \<or> current_gen_num s = n \<and> MtmGetCurrentStatusInGen me s \<noteq> Some MTM_GEN_ONLINE"

definition normal_ctx :: "(int \<Rightarrow> int) \<Rightarrow> rwctx \<Rightarrow> bool" where
  "normal_ctx dests ctx \<longleftrightarrow> rw_mode ctx = REPLMODE_NORMAL \<and> rw_origin_xid ctx \<noteq> 0 \<and> \<not> rw_bdr_like ctx \<and>
     0 \<le> dests (rw_sender_node_id ctx)"

abbreviation prepare_reply :: "int \<Rightarrow> (int \<Rightarrow> int) \<Rightarrow> rwctx \<Rightarrow> bool \<Rightarrow> (int \<times> string) option \<Rightarrow> xeffect" where
  "prepare_reply me dests ctx p e \<equiv> Reply (dests (rw_sender_node_id ctx)) (xid_stream (rw_origin_xid ctx))
     (T_MtmPrepareResponse \<lparr>pr_node_id = me, pr_prepared = p,
        pr_errcode = (case e of None \<Rightarrow> 0 | Some (code, _) \<Rightarrow> code),
        pr_errmsg = (case e of None \<Rightarrow> [] | Some (_, m) \<Rightarrow> m), pr_xid = rw_origin_xid ctx\<rparr>)"

lemma normal_reply:
  assumes "normal_ctx dests ctx"
  shows "reply_if True (mtm_send_prepare_reply me dests (rw_origin_xid ctx) (rw_sender_node_id ctx) p e) st =
    Applied (xemit [prepare_reply me dests ctx p e] st)"
  using assms by (simp add: normal_ctx_def reply_if_def mtm_send_prepare_reply_def)

lemma normal_error:
  assumes "normal_ctx dests ctx" and "case held of None \<Rightarrow> tab = xtab st | Some g \<Rightarrow> GlobalTxRelease b g (xtab st) = Some tab"
  shows "handle_error b me dests ctx False (Raised code m held st) =
    Applied (xemit [prepare_reply me dests ctx False (Some (code, m))] (st\<lparr>xtab := tab\<rparr>))"
  using assms normal_reply [OF assms(1)]
  by (cases held) (auto simp: handle_error_def normal_ctx_def)

text \<open>The three ways a prepare can go once the generation is right.\<close>

lemma read_initial:
  "deserialize_xstate (serialize_xstate xi initial_state) (xinfo zero_gtx) (gtx_state zero_gtx) = Some (0, xi, initial_state)"
  by (rule xstate_rt)

lemma prepare_refused:
  assumes "normal_ctx dests ctx" and "\<not> wrong_gen me s (xi_gen_num xi)" and "xi_gen_num xi < current_gen_num s"
  shows "apply_prepare b me garbage dests ctx s pg_err g (serialize_xstate xi initial_state) st =
    Raised ERRCODE_INTERNAL_ERROR ''refusing transaction'' None st"
  using assms by (auto simp: apply_prepare_def read_initial wrong_gen_def normal_ctx_def)

lemma prepare_failed:
  assumes "normal_ctx dests ctx" and "\<not> wrong_gen me s (xi_gen_num xi)" and "xi_gen_num xi = current_gen_num s"
    and "map_of (xtab st) g = None"
  shows "apply_prepare b me garbage dests ctx s (Some (code, m)) g (serialize_xstate xi initial_state) st =
    Raised code m (Some g) (st\<lparr>xtab := AList.update g ((new_gtx garbage g b)\<lparr>xinfo := xi\<rparr>) (xtab st)\<rparr>)"
  using assms(1-3) acquire_new [OF assms(4)]
  by (auto simp: apply_prepare_def read_initial wrong_gen_def normal_ctx_def Let_def)

lemma prepare_done:
  assumes ctx: "normal_ctx dests ctx" and "\<not> wrong_gen me s (xi_gen_num xi)" and "xi_gen_num xi = current_gen_num s"
    and new: "map_of (xtab st) g = None" and st: "xnode_ok st" and b: "b \<noteq> InvalidBackendId"
  obtains tab where "apply_prepare b me garbage dests ctx s None g (serialize_xstate xi initial_state) st =
      Applied (xemit [prepare_reply me dests ctx True None] (xemit [Prepare g (serialize_xstate xi initial_state)] (st\<lparr>xtab := tab\<rparr>)))"
    "xnode_ok (xemit [Prepare g (serialize_xstate xi initial_state)] (st\<lparr>xtab := tab\<rparr>))"
proof -
  obtain tab where tab: "release_gtx b g ((new_gtx garbage g b)\<lparr>xinfo := xi, prepared := True\<rparr>)
        (AList.update g (new_gtx garbage g b) (xtab st)) = Inr tab"
      "xnode_ok (xemit [Prepare g (serialize_xstate xi initial_state)] (st\<lparr>xtab := tab\<rparr>))"
    using prepared_new [OF st new b] by blast
  then show ?thesis
    using assms(1-3) acquire_new [OF new] normal_reply [OF ctx]
    by (intro that [of tab]) (auto simp: apply_prepare_def read_initial wrong_gen_def normal_ctx_def Let_def)
qed

text \<open>
  C13. A transaction that comes from its coordinator in normal mode is answered exactly once, unless
  the applier dies because of its generation: with success when it has been prepared here, on record
  in Postgres in the generation this node is online in, and with a failure when it has not, in which
  case nothing of it is left.
\<close>

theorem remote_prepare_answered:
  assumes st: "xnode_ok st" and b: "b \<noteq> InvalidBackendId" and new: "map_of (xtab st) g = None" and ctx: "normal_ctx dests ctx"
    and r: "r = handle_error b me dests ctx False
      (process_remote_commit b me garbage dests ctx s pg_err origin_node
        (PGLOGICAL_PREPARE g (serialize_xstate xi initial_state)) st)"
  shows "r = Died \<and> wrong_gen me s (xi_gen_num xi) \<or>
    (\<exists>st' m. r = Applied st' \<and> xnode_ok st' \<and> \<not> wrong_gen me s (xi_gen_num xi) \<and>
       replies (xtrace st') = replies (xtrace st) @ [(dests (rw_sender_node_id ctx), T_MtmPrepareResponse m)] \<and>
       pr_xid m = rw_origin_xid ctx \<and> (pr_prepared m \<longleftrightarrow> xi_gen_num xi = current_gen_num s \<and> pg_err = None) \<and>
       (if pr_prepared m then durable_state g (xtrace st') None = Some (serialize_xstate xi initial_state)
        else map_of (xtab st') = map_of (xtab st)))"
proof -
  let ?p = "apply_prepare b me garbage dests ctx s pg_err g (serialize_xstate xi initial_state) st"
  let ?n = "xi_gen_num xi" and ?gtx = "(new_gtx garbage g b)\<lparr>xinfo := xi\<rparr>"
  have r': "r = handle_error b me dests ctx False ?p" using r by simp
  consider (gen) "wrong_gen me s ?n" | (old) "\<not> wrong_gen me s ?n" "?n < current_gen_num s"
    | (err) code m where "\<not> wrong_gen me s ?n" "?n = current_gen_num s" "pg_err = Some (code, m)"
    | (fine) "\<not> wrong_gen me s ?n" "?n = current_gen_num s" "pg_err = None"
    by (cases pg_err; force simp: wrong_gen_def)
  then show ?thesis
  proof cases
    case gen
    then have "?p = Died" using ctx by (auto simp: apply_prepare_def read_initial wrong_gen_def normal_ctx_def)
    with gen r' show ?thesis by (simp add: handle_error_def)
  next
    case old
    with r' st normal_error [OF ctx, where held = None and tab = "xtab st" and st = st] prepare_refused [OF ctx old] show ?thesis
      by (auto simp: xnode_ok_def xsynced_reply)
  next
    case err
    obtain tab where tab: "GlobalTxRelease b g (AList.update g ?gtx (xtab st)) = Some tab"
      "xnode_ok (st\<lparr>xtab := tab\<rparr>)" "map_of tab = map_of (xtab st)"
      using release_unprepared [OF st new b, of ?gtx] by (auto simp: gtx_final_def)
    with err r' normal_error [OF ctx, where held = "Some g" and tab = tab and st = "st\<lparr>xtab := AList.update g ?gtx (xtab st)\<rparr>" and b = b]
      prepare_failed [OF ctx err(1,2) new] show ?thesis
      by (auto simp: xnode_ok_def xsynced_reply)
  next
    case fine
    obtain tab where "?p = Applied (xemit [prepare_reply me dests ctx True None] (xemit [Prepare g (serialize_xstate xi initial_state)] (st\<lparr>xtab := tab\<rparr>)))"
      "xnode_ok (xemit [Prepare g (serialize_xstate xi initial_state)] (st\<lparr>xtab := tab\<rparr>))"
      using prepare_done [OF ctx fine(1,2) new st b] fine(3) by metis
    with fine r' show ?thesis by (auto simp: handle_error_def xnode_ok_def xsynced_reply replies_def)
  qed
qed

definition sample_ctx :: rwctx where
  "sample_ctx = \<lparr>rw_mode = REPLMODE_NORMAL, rw_sender_node_id = 2, rw_origin_xid = 77, rw_bdr_like = False\<rparr>"

definition sample_xinfo :: "uint64 \<Rightarrow> XactInfo" where
  "sample_xinfo n = \<lparr>coordinator = 2, xi_xid = 77, xi_gen_num = n, xi_configured = 7\<rparr>"

lemma connected_gen: "\<not> wrong_gen 1 connected_state 1" "current_gen_num connected_state = 1"
  by code_simp+

theorem remote_prepare_answered_witness:
  "\<exists>st'. process_remote_commit 4 1 zero_gtx (\<lambda>i. i) sample_ctx connected_state None 2
       (PGLOGICAL_PREPARE ''MTM-2-9'' (serialize_xstate (sample_xinfo 1) initial_state)) sample_node = Applied st' \<and>
     durable_state ''MTM-2-9'' (xtrace st') None = Some (serialize_xstate (sample_xinfo 1) initial_state)"
proof -
  let ?p = "process_remote_commit 4 1 zero_gtx (\<lambda>i. i) sample_ctx connected_state None 2
       (PGLOGICAL_PREPARE ''MTM-2-9'' (serialize_xstate (sample_xinfo 1) initial_state)) sample_node"
  have "map_of (xtab sample_node) ''MTM-2-9'' = None" by (simp add: sample_node_def)
  moreover have "xi_gen_num (sample_xinfo 1) = 1" by (simp add: sample_xinfo_def)
  moreover have "(case ?p of Raised _ _ _ _ \<Rightarrow> False | _ \<Rightarrow> True)" by code_simp
  then have "handle_error 4 1 (\<lambda>i. i) sample_ctx False ?p = ?p"
    by (auto simp: handle_error_def split: apply_outcome.splits)
  ultimately show ?thesis
    using remote_prepare_answered [OF sample_node_ok, of 4 "''MTM-2-9''" "\<lambda>i. i" sample_ctx ?p 1 zero_gtx connected_state
        None 2 "sample_xinfo 1"] connected_gen
    by (auto simp: sample_ctx_def normal_ctx_def)
qed

section \<open>Voting for the precommit\<close>

lemma accept_phase2a_cases:
  assumes "accept_phase2a precommitted_state gtx = ((sg, t), gtx', voted)"
  shows "voted \<and> sg = GTXPreCommitted \<and> t = InitialGTxTerm \<and> gtx' = gtx\<lparr>gtx_state := precommitted_state\<rparr> \<and>
      proposal (gtx_state gtx) \<le> InitialGTxTerm \<or>
    \<not> voted \<and> sg = GTXInvalid \<and> t = InvalidGTxTerm \<and> gtx' = gtx"
  using assms by (auto simp: accept_phase2a_def precommitted_state_def split: if_splits)

definition vote_2b :: "int \<Rightarrow> string \<Rightarrow> GlobalTxStatus \<Rightarrow> GlobalTxTerm \<Rightarrow> Mtm2AResponse" where
  "vote_2b me g sg t = \<lparr>a2_node_id = me, a2_status = sg, a2_accepted_term = t, a2_errcode = 0, a2_errmsg = [], a2_gid = g\<rparr>"

lemma read_precommitted:
  "deserialize_xstate (serialize_xstate xi precommitted_state) (xinfo zero_gtx) (gtx_state zero_gtx) = Some (0, xi, precommitted_state)"
  "status precommitted_state = GTXPreCommitted"
  by (rule xstate_rt) (simp add: precommitted_state_def)

lemma send_2b:
  "0 \<le> dests origin_node \<Longrightarrow> reply_if True (mtm_send_2a_reply me dests g xid sg t origin_node) st =
     Applied (xemit [Reply (dests origin_node) (xid_stream xid) (T_Mtm2AResponse (vote_2b me g sg t))] st)"
  by (simp add: reply_if_def mtm_send_2a_reply_def vote_2b_def)

lemma phase2a_got:
  assumes st: "xnode_ok st" and b: "b \<noteq> InvalidBackendId" and xi: "\<And>gtx. map_of (xtab st) g = Some gtx \<Longrightarrow> xinfo gtx = xi"
    and ctx: "rw_mode ctx = REPLMODE_NORMAL" "0 \<le> dests origin_node"
    and got: "lock_gtx b me g False 0 (xtab st) = Inr (tab, Got gtx)"
    and ac: "accept_phase2a precommitted_state gtx = ((sg, t), gtx', voted)"
  defines "es \<equiv> (if voted then [SetState g (serialize_xstate xi precommitted_state)] else [])"
  obtains tab' where "xnode_ok (xemit es (st\<lparr>xtab := tab'\<rparr>))"
    "apply_phase2a b me dests ctx origin_node g (serialize_xstate xi precommitted_state) st =
      Applied (xemit [Reply (dests origin_node) (xid_stream (xi_xid xi)) (T_Mtm2AResponse (vote_2b me g sg t))]
        (xemit es (st\<lparr>xtab := tab'\<rparr>)))"
proof -
  have tok: "gtx_table_ok (xtab st)" using st by (simp add: xnode_ok_def)
  note ok = lock_node_ok [OF st b got] and gtx = lock_gtx_Got [OF tok b got] and c = accept_phase2a_cases [OF ac]
  have ok': "gtx_table_ok (xtab (st\<lparr>xtab := tab\<rparr>))" "map_of (xtab (st\<lparr>xtab := tab\<rparr>)) g = Some gtx"
    using ok(1) gtx(2) by simp_all
  obtain old where old: "map_of (xtab st) g = Some old" "gtx = old\<lparr>acquired_by := b\<rparr>"
    using lock_gtx_table(2) [OF got] by blast
  have new: "same_entry gtx gtx'" "\<not> gtx_final gtx'" using c gtx(5) by (auto simp: gtx_final_def read_precommitted(2))
  have es: "es = [] \<and> gtx_state gtx' = gtx_state gtx \<or> es = [set_state gtx (gtx_state gtx')]"
    using c xi [OF old(1)] old(2) gtx(6) by (auto simp: es_def set_state_def)
  obtain tab' where tab': "release_gtx b g gtx' tab = Inr tab'" "xnode_ok (xemit es (st\<lparr>xtab := tab'\<rparr>))"
    using vote_and_release [OF ok'(1) ok(2) ok'(2) gtx(3-6) b new es] by auto
  show ?thesis
    by (rule that [OF tab'(2)])
      (use tab'(1) ctx(1) got send_2b [of dests, OF ctx(2)] ac in \<open>simp add: apply_phase2a_def read_precommitted es_def\<close>)
qed



end
