(* ===== verification/Vote_Spec.thy ===== *)
theory Vote_Spec
  imports Nodemask Global_Tx
begin

text \<open>
  The abstract specification of the vote on one transaction, independent of messages, locks and
  tables: nodes promise not to vote below a term, vote for proposed outcomes, and take over an
  outcome a majority has voted for. The coordinator alone may propose in the initial term, and only
  to commit; everybody else proposes in terms of its own, after a majority has promised the term,
  and repeats the newest vote of that majority. As long as the coordinator has not proposed it may
  abort alone. \<open>Vote_System\<close> shows that the code implements this specification.
\<close>

section \<open>Specification\<close>

record vspec =
  promise :: "int \<Rightarrow> GlobalTxTerm option"
  votes :: "int \<Rightarrow> (GlobalTxTerm \<times> bool) set"
  proposals :: "(GlobalTxTerm \<times> bool) set"
  outcome :: "int \<Rightarrow> bool option"
  coord_live :: bool

definition majority :: "int set \<Rightarrow> int set \<Rightarrow> bool" where
  "majority N Q \<longleftrightarrow> Q \<subseteq> N \<and> Quorum (card N) (card Q)"

text \<open>Node \<open>i\<close> will not vote below \<open>t\<close> any more.\<close>

definition past :: "int \<Rightarrow> GlobalTxTerm \<Rightarrow> vspec \<Rightarrow> bool" where
  "past i t s \<longleftrightarrow> outcome s i \<noteq> None \<or> (\<exists>p. promise s i = Some p \<and> t \<le> p)"

definition chosen :: "int set \<Rightarrow> bool \<Rightarrow> vspec \<Rightarrow> bool" where
  "chosen N v s \<longleftrightarrow> (\<exists>t Q. majority N Q \<and> (\<forall>i \<in> Q. (t, v) \<in> votes s i))"

text \<open>Proposing \<open>v\<close> in term \<open>t\<close> is justified by the votes of a majority.\<close>

definition justified :: "int set \<Rightarrow> GlobalTxTerm \<Rightarrow> bool \<Rightarrow> vspec \<Rightarrow> bool" where
  "justified N t v s \<longleftrightarrow> (\<exists>Q m. majority N Q \<and> (\<forall>i \<in> Q. past i t s) \<and>
     (\<forall>i \<in> Q. \<forall>(t', v') \<in> votes s i. t' < t \<longrightarrow> t' \<le> m) \<and>
     (m = InvalidGTxTerm \<and> \<not> v \<or> m < t \<and> (m, v) \<in> proposals s))"

definition cast_vote :: "int \<Rightarrow> GlobalTxTerm \<Rightarrow> bool \<Rightarrow> vspec \<Rightarrow> vspec" where
  "cast_vote i t v s = s\<lparr>promise := (promise s)(i := Some t), votes := (votes s)(i := insert (t, v) (votes s i))\<rparr>"

inductive vstep :: "int set \<Rightarrow> int \<Rightarrow> vspec \<Rightarrow> vspec \<Rightarrow> bool" for N c where
  prepare: "promise s i = None \<Longrightarrow> outcome s i = None \<Longrightarrow> i \<in> N \<Longrightarrow>
    vstep N c s (s\<lparr>promise := (promise s)(i := Some InitialGTxTerm)\<rparr>)"
| promise: "promise s i = Some p \<Longrightarrow> p \<le> t \<Longrightarrow> outcome s i = None \<Longrightarrow>
    vstep N c s (s\<lparr>promise := (promise s)(i := Some t)\<rparr>)"
| vote: "promise s i = Some p \<Longrightarrow> p \<le> t \<Longrightarrow> outcome s i = None \<Longrightarrow> (t, v) \<in> proposals s \<Longrightarrow>
    vstep N c s (cast_vote i t v s)"
| propose: "promise s i = Some t \<Longrightarrow> outcome s i = None \<Longrightarrow> term_node_id t = i \<Longrightarrow>
    (\<And>v'. (t, v') \<notin> votes s i) \<Longrightarrow> justified N t v s \<Longrightarrow>
    vstep N c s (cast_vote i t v (s\<lparr>proposals := insert (t, v) (proposals s)\<rparr>))"
| precommit: "coord_live s \<Longrightarrow> promise s c = Some InitialGTxTerm \<Longrightarrow> outcome s c = None \<Longrightarrow> votes s c = {} \<Longrightarrow>
    vstep N c s (cast_vote c InitialGTxTerm True (s\<lparr>proposals := insert (InitialGTxTerm, True) (proposals s)\<rparr>))"
| leave: "vstep N c s (s\<lparr>coord_live := False\<rparr>)"
| abort: "(InitialGTxTerm, True) \<notin> votes s c \<Longrightarrow> promise s c \<noteq> None \<Longrightarrow> outcome s c = None \<Longrightarrow>
    vstep N c s (s\<lparr>coord_live := False, outcome := (outcome s)(c := Some False)\<rparr>)"
| decide: "chosen N v s \<Longrightarrow> promise s i \<noteq> None \<Longrightarrow> outcome s i = None \<Longrightarrow>
    vstep N c s (s\<lparr>outcome := (outcome s)(i := Some v)\<rparr>)"
| learn: "outcome s j = Some v \<Longrightarrow> promise s i \<noteq> None \<Longrightarrow> outcome s i = None \<Longrightarrow>
    vstep N c s (s\<lparr>outcome := (outcome s)(i := Some v)\<rparr>)"

definition vinit :: vspec where
  "vinit = \<lparr>promise = \<lambda>_. None, votes = \<lambda>_. {}, proposals = {}, outcome = \<lambda>_. None, coord_live = True\<rparr>"

section \<open>Invariant\<close>

definition promises_ok :: "int set \<Rightarrow> vspec \<Rightarrow> bool" where
  "promises_ok N s \<longleftrightarrow> (\<forall>i. promise s i \<noteq> None \<longrightarrow> i \<in> N) \<and> (\<forall>i. promise s i = None \<longrightarrow> votes s i = {} \<and> outcome s i = None) \<and>
     (\<forall>i p t v. promise s i = Some p \<longrightarrow> InitialGTxTerm \<le> p \<and> ((t, v) \<in> votes s i \<longrightarrow> t \<le> p))"

definition votes_ok :: "vspec \<Rightarrow> bool" where
  "votes_ok s \<longleftrightarrow> (\<forall>i. votes s i \<subseteq> proposals s) \<and>
     (\<forall>t v v'. (t, v) \<in> proposals s \<longrightarrow> (t, v') \<in> proposals s \<longrightarrow> v = v')"

definition proposals_ok :: "int set \<Rightarrow> int \<Rightarrow> vspec \<Rightarrow> bool" where
  "proposals_ok N c s \<longleftrightarrow> (\<forall>t v. (t, v) \<in> proposals s \<longrightarrow>
     (t = InitialGTxTerm \<and> v \<and> (t, v) \<in> votes s c \<or>
      InitialGTxTerm < t \<and> (t, v) \<in> votes s (term_node_id t) \<and> (\<exists>Q. majority N Q \<and> (\<forall>i \<in> Q. past i t s))) \<and>
     (v \<longrightarrow> (InitialGTxTerm, True) \<in> proposals s))"

definition rivals_ok :: "int set \<Rightarrow> vspec \<Rightarrow> bool" where
  "rivals_ok N s \<longleftrightarrow> (\<forall>t v t' v'. (t, v) \<in> proposals s \<longrightarrow> (t', v') \<in> proposals s \<longrightarrow> t' < t \<longrightarrow> v' \<noteq> v \<longrightarrow>
     (\<exists>Q. majority N Q \<and> (\<forall>i \<in> Q. (t', v') \<notin> votes s i \<and> (\<exists>u > t'. past i u s))))"

definition outcomes_ok :: "int set \<Rightarrow> vspec \<Rightarrow> bool" where
  "outcomes_ok N s \<longleftrightarrow> (\<forall>i v. outcome s i = Some v \<longrightarrow>
     chosen N v s \<or> \<not> v \<and> \<not> coord_live s \<and> (InitialGTxTerm, True) \<notin> proposals s)"

definition vinv :: "int set \<Rightarrow> int \<Rightarrow> vspec \<Rightarrow> bool" where
  "vinv N c s \<longleftrightarrow> promises_ok N s \<and> votes_ok s \<and> proposals_ok N c s \<and> rivals_ok N s \<and> outcomes_ok N s"

lemma vinv_init: "vinv N c vinit"
  by (simp add: vinv_def vinit_def promises_ok_def votes_ok_def proposals_ok_def rivals_ok_def outcomes_ok_def)

section \<open>What a step may change\<close>

text \<open>Promises grow, votes and proposals are only added, outcomes stay.\<close>

definition vmono :: "vspec \<Rightarrow> vspec \<Rightarrow> bool" where
  "vmono s s' \<longleftrightarrow> (\<forall>i t. past i t s \<longrightarrow> past i t s') \<and> (\<forall>i. votes s i \<subseteq> votes s' i) \<and>
     proposals s \<subseteq> proposals s' \<and> (\<forall>i v. outcome s i = Some v \<longrightarrow> outcome s' i = Some v) \<and>
     (\<forall>i t v. (t, v) \<in> votes s' i - votes s i \<longrightarrow> \<not> (\<exists>u > t. past i u s)) \<and>
     (coord_live s' \<longrightarrow> coord_live s)"

lemma past_cast_vote:
  "promise s i = Some p \<Longrightarrow> p \<le> t \<Longrightarrow> past k u s \<Longrightarrow> past k u (cast_vote i t v s)"
  by (auto simp: past_def cast_vote_def split: if_splits)

lemma vstep_mono:
  assumes "vstep N c s s'"
  shows "vmono s s'"
  using assms
  by cases (force simp: vmono_def past_def cast_vote_def)+

lemma vinvD:
  assumes "vinv N c s"
  shows "promise s i = Some p \<Longrightarrow> i \<in> N" "promise s i = Some p \<Longrightarrow> InitialGTxTerm \<le> p"
    "promise s i = Some p \<Longrightarrow> (t, v) \<in> votes s i \<Longrightarrow> t \<le> p" "promise s i = None \<Longrightarrow> votes s i = {} \<and> outcome s i = None"
    "(t, v) \<in> votes s i \<Longrightarrow> (t, v) \<in> proposals s"
    "(t, v) \<in> proposals s \<Longrightarrow> (t, v') \<in> proposals s \<Longrightarrow> v = v'"
    "(t, True) \<in> proposals s \<Longrightarrow> (InitialGTxTerm, True) \<in> proposals s"
    "(InitialGTxTerm, v) \<in> proposals s \<Longrightarrow> v \<and> (InitialGTxTerm, v) \<in> votes s c"
  using assms unfolding vinv_def promises_ok_def votes_ok_def proposals_ok_def by blast+

lemma proposal_cases:
  assumes "vinv N c s" and "(t, v) \<in> proposals s"
  obtains (initial) "t = InitialGTxTerm" "v" "(t, v) \<in> votes s c"
  | (ballot) Q where "InitialGTxTerm < t" "(t, v) \<in> votes s (term_node_id t)" "majority N Q" "\<forall>i \<in> Q. past i t s"
  using assms unfolding vinv_def proposals_ok_def by blast

lemma own_term_fresh:
  assumes "vinv N c s" and "0 \<notin> N" and "promise s i = Some t" and "term_node_id t = i" and "\<And>v'. (t, v') \<notin> votes s i"
  shows "InitialGTxTerm < t" "(t, v) \<notin> proposals s"
proof -
  have "t \<noteq> InitialGTxTerm"
    using assms(2,4) vinvD(1) [OF assms(1,3)] by (auto simp: InitialGTxTerm_def)
  with vinvD(2) [OF assms(1,3)] show "InitialGTxTerm < t" by simp
  then show "(t, v) \<notin> proposals s"
    using assms(4,5) by (auto elim: proposal_cases [OF assms(1)])
qed

text \<open>A new proposal has no rival that could still win.\<close>

lemma justified_rivals:
  assumes inv: "vinv N c s" and j: "justified N t v s"
    and r: "(t', v') \<in> proposals s" "t' < t" "v' \<noteq> v"
  shows "\<exists>Q. majority N Q \<and> (\<forall>i \<in> Q. (t', v') \<notin> votes s i \<and> (\<exists>u > t'. past i u s))"
proof -
  from j obtain Q m where Q: "majority N Q" "\<forall>i \<in> Q. past i t s" "\<forall>i \<in> Q. \<forall>(t', v') \<in> votes s i. t' < t \<longrightarrow> t' \<le> m"
    and m: "m = InvalidGTxTerm \<and> \<not> v \<or> m < t \<and> (m, v) \<in> proposals s"
    unfolding justified_def by blast
  have "InvalidGTxTerm < t'"
    using r(1) by (auto elim!: proposal_cases [OF inv] simp: InvalidGTxTerm_def InitialGTxTerm_def less_GlobalTxTerm_def term_cmp_def split: if_splits)
  consider "m < t'" | "t' \<le> m" by fastforce
  then show ?thesis
  proof cases
    case 1
    have "(t', v') \<notin> votes s i \<and> (\<exists>u > t'. past i u s)" if "i \<in> Q" for i
      using that Q(2,3) r(2) 1 by fastforce
    with Q(1) show ?thesis by blast
  next
    case 2
    with \<open>InvalidGTxTerm < t'\<close> m have mv: "(m, v) \<in> proposals s" by auto
    with r vinvD(6) [OF inv] have "t' \<noteq> m" by blast
    with 2 have "t' < m" by simp
    with inv mv r(1,3) show ?thesis unfolding vinv_def rivals_ok_def by blast
  qed
qed

lemma majority_past:
  assumes "vinv N c s" and "(t, v) \<in> proposals s" and "InitialGTxTerm < t"
  obtains Q where "majority N Q" "\<forall>i \<in> Q. past i t s"
  using assms(2,3) by (auto elim!: proposal_cases [OF assms(1)])

lemma promises_ok_step:
  assumes "vinv N c s" and "vstep N c s s'"
  shows "promises_ok N s'"
  using assms(2,1)
proof cases
  case (vote i p t v)
  then show ?thesis using assms(1) by (fastforce simp: vinv_def promises_ok_def cast_vote_def)
next
  case (propose i t v)
  then show ?thesis using assms(1) by (fastforce simp: vinv_def promises_ok_def cast_vote_def)
next
  case (promise i p t)
  then show ?thesis using assms(1) by (fastforce simp: vinv_def promises_ok_def)
next
  case precommit
  then show ?thesis using assms(1) by (fastforce simp: vinv_def promises_ok_def cast_vote_def)
qed (auto simp: vinv_def promises_ok_def)

text \<open>The proposals of a step: at most one new one, and it is new.\<close>

lemma new_proposal:
  assumes inv: "vinv N c s" and N: "0 \<notin> N" and step: "vstep N c s s'"
    and p: "(t, v) \<in> proposals s'" "(t, v) \<notin> proposals s"
  shows "proposals s' = insert (t, v) (proposals s) \<and> (\<forall>v'. (t, v') \<notin> proposals s) \<and>
    ((t, v) = (InitialGTxTerm, True) \<and> coord_live s \<and> (t, v) \<in> votes s' c \<or>
     InitialGTxTerm < t \<and> (t, v) \<in> votes s' (term_node_id t) \<and> justified N t v s)"
  using step p
proof cases
  case (propose i u w)
  with own_term_fresh [OF inv N propose(2,4)] p show ?thesis by (auto simp: cast_vote_def)
next
  case precommit
  then have "(InitialGTxTerm, v') \<notin> proposals s" for v' using vinvD(8) [OF inv] by auto
  with precommit p show ?thesis by (auto simp: cast_vote_def)
qed (auto simp: cast_vote_def)

lemma new_vote: "vstep N c s s' \<Longrightarrow> (t, v) \<in> votes s' i \<Longrightarrow> (t, v) \<in> votes s i \<or> (t, v) \<in> proposals s'"
  by (cases rule: vstep.cases) (auto simp: cast_vote_def split: if_splits)

lemma vmonoD:
  assumes "vmono s s'"
  shows "past i t s \<Longrightarrow> past i t s'" "x \<in> votes s i \<Longrightarrow> x \<in> votes s' i" "x \<in> proposals s \<Longrightarrow> x \<in> proposals s'"
    "outcome s i = Some v \<Longrightarrow> outcome s' i = Some v" "coord_live s' \<Longrightarrow> coord_live s"
    "(t, v) \<in> votes s' i \<Longrightarrow> past i u s \<Longrightarrow> t < u \<Longrightarrow> (t, v) \<in> votes s i"
proof -
  show "past i t s \<Longrightarrow> past i t s'" "x \<in> votes s i \<Longrightarrow> x \<in> votes s' i" "x \<in> proposals s \<Longrightarrow> x \<in> proposals s'"
    "outcome s i = Some v \<Longrightarrow> outcome s' i = Some v" "coord_live s' \<Longrightarrow> coord_live s"
    using assms unfolding vmono_def by auto
  have "\<forall>i t v. (t, v) \<in> votes s' i - votes s i \<longrightarrow> \<not> (\<exists>u > t. past i u s)"
    using assms unfolding vmono_def by (elim conjE)
  then show "(t, v) \<in> votes s' i \<Longrightarrow> past i u s \<Longrightarrow> t < u \<Longrightarrow> (t, v) \<in> votes s i" by blast
qed

lemma votes_ok_step:
  assumes inv: "vinv N c s" and N: "0 \<notin> N" and step: "vstep N c s s'"
  shows "votes_ok s'"
  unfolding votes_ok_def
proof (intro conjI allI impI subsetI)
  note mono = vstep_mono [OF step]
  show "x \<in> proposals s'" if "x \<in> votes s' i" for i x
    using new_vote [OF step, of "fst x" "snd x" i] that vinvD(5) [OF inv, of "fst x" "snd x" i]
      vmonoD(3) [OF mono, of x] by auto
  show "v = v'" if p: "(t, v) \<in> proposals s'" "(t, v') \<in> proposals s'" for t v v'
  proof (cases "(t, v) \<in> proposals s \<and> (t, v') \<in> proposals s")
    case True
    then show ?thesis using vinvD(6) [OF inv] by blast
  next
    case False
    then obtain w where w: "(t, w) \<in> proposals s'" "(t, w) \<notin> proposals s" using p by blast
    have "proposals s' = insert (t, w) (proposals s)" "\<forall>v'. (t, v') \<notin> proposals s"
      using new_proposal [OF inv N step w] by blast+
    with p show ?thesis by auto
  qed
qed

lemma proposals_ok_step:
  assumes inv: "vinv N c s" and N: "0 \<notin> N" and step: "vstep N c s s'"
  shows "proposals_ok N c s'"
  unfolding proposals_ok_def
proof (intro allI impI)
  fix t v assume p: "(t, v) \<in> proposals s'"
  note mono = vstep_mono [OF step]
  show "(t = InitialGTxTerm \<and> v \<and> (t, v) \<in> votes s' c \<or>
      InitialGTxTerm < t \<and> (t, v) \<in> votes s' (term_node_id t) \<and> (\<exists>Q. majority N Q \<and> (\<forall>i \<in> Q. past i t s'))) \<and>
     (v \<longrightarrow> (InitialGTxTerm, True) \<in> proposals s')"
  proof (cases "(t, v) \<in> proposals s")
    case True
    have "v \<longrightarrow> (InitialGTxTerm, True) \<in> proposals s'"
      using True vinvD(7) [OF inv, of t] vmonoD(3) [OF mono] by (cases v) auto
    moreover have "t = InitialGTxTerm \<and> v \<and> (t, v) \<in> votes s' c \<or>
      InitialGTxTerm < t \<and> (t, v) \<in> votes s' (term_node_id t) \<and> (\<exists>Q. majority N Q \<and> (\<forall>i \<in> Q. past i t s'))"
      by (rule proposal_cases [OF inv True]) (use vmonoD(1,2) [OF mono] in blast)+
    ultimately show ?thesis by blast
  next
    case False
    from new_proposal [OF inv N step p False] show ?thesis
    proof (elim conjE disjE)
      assume a: "InitialGTxTerm < t" "(t, v) \<in> votes s' (term_node_id t)" "justified N t v s"
      then have "v \<longrightarrow> (InitialGTxTerm, True) \<in> proposals s"
        using vinvD(7) [OF inv] by (auto simp: justified_def)
      moreover have "\<exists>Q. majority N Q \<and> (\<forall>i \<in> Q. past i t s')"
        using a(3) vmonoD(1) [OF mono] unfolding justified_def by blast
      ultimately show ?thesis using a vmonoD(3) [OF mono] by blast
    qed auto
  qed
qed

lemma rivals_keep:
  assumes mono: "vmono s s'" and Q: "\<forall>i \<in> Q. (t', v') \<notin> votes s i \<and> (\<exists>u > t'. past i u s)"
  shows "\<forall>i \<in> Q. (t', v') \<notin> votes s' i \<and> (\<exists>u > t'. past i u s')"
proof
  fix i assume "i \<in> Q"
  with Q obtain u where u: "u > t'" "past i u s" "(t', v') \<notin> votes s i" by blast
  then show "(t', v') \<notin> votes s' i \<and> (\<exists>u > t'. past i u s')"
    using vmonoD(1,6) [OF mono] by blast
qed

lemma rivals_ok_step:
  assumes inv: "vinv N c s" and N: "0 \<notin> N" and step: "vstep N c s s'"
  shows "rivals_ok N s'"
  unfolding rivals_ok_def
proof (intro allI impI)
  fix t v t' v' assume p: "(t, v) \<in> proposals s'" "(t', v') \<in> proposals s'" "t' < t" "v' \<noteq> v"
  note mono = vstep_mono [OF step]
  have "\<exists>Q. majority N Q \<and> (\<forall>i \<in> Q. (t', v') \<notin> votes s i \<and> (\<exists>u > t'. past i u s))"
  proof (cases "(t, v) \<in> proposals s")
    case old: True
    show ?thesis
    proof (cases "(t', v') \<in> proposals s")
      case True
      with inv old p show ?thesis unfolding vinv_def rivals_ok_def by blast
    next
      case False
      have "InitialGTxTerm \<le> t'" using new_proposal [OF inv N step p(2) False] by auto
      with p(3) have "InitialGTxTerm < t" by simp
      then obtain Q where Q: "majority N Q" "\<forall>i \<in> Q. past i t s" by (rule majority_past [OF inv old])
      have "(t', v') \<notin> votes s i" for i using False vinvD(5) [OF inv] by blast
      with Q p(3) show ?thesis by blast
    qed
  next
    case False
    note new = new_proposal [OF inv N step p(1) False]
    then have old: "(t', v') \<in> proposals s" using p(2,3) by auto
    then have "InitialGTxTerm \<le> t'" by (auto elim: proposal_cases [OF inv])
    with new p(3) have "justified N t v s" by auto
    from justified_rivals [OF inv this old p(3,4)] show ?thesis .
  qed
  with rivals_keep [OF mono, of _ t' v'] show "\<exists>Q. majority N Q \<and> (\<forall>i \<in> Q. (t', v') \<notin> votes s' i \<and> (\<exists>u > t'. past i u s'))"
    by blast
qed

lemma chosen_mono: "vmono s s' \<Longrightarrow> chosen N v s \<Longrightarrow> chosen N v s'"
  unfolding chosen_def by (meson vmonoD(2))

lemma new_outcome:
  assumes inv: "vinv N c s" and step: "vstep N c s s'" and o: "outcome s' i = Some v" "outcome s i = None"
  shows "chosen N v s \<or> \<not> v \<and> \<not> coord_live s' \<and> (InitialGTxTerm, True) \<notin> proposals s'"
  using step o
proof cases
  case abort
  then show ?thesis using o vinvD(8) [OF inv] by (auto split: if_splits)
next
  case (learn j w k)
  then show ?thesis using o inv unfolding vinv_def outcomes_ok_def by (auto split: if_splits)
qed (auto simp: cast_vote_def split: if_splits)

lemma outcomes_ok_step:
  assumes inv: "vinv N c s" and N: "0 \<notin> N" and step: "vstep N c s s'"
  shows "outcomes_ok N s'"
  unfolding outcomes_ok_def
proof (intro allI impI)
  fix i v assume o: "outcome s' i = Some v"
  note mono = vstep_mono [OF step]
  show "chosen N v s' \<or> \<not> v \<and> \<not> coord_live s' \<and> (InitialGTxTerm, True) \<notin> proposals s'"
  proof (cases "outcome s i")
    case None
    from new_outcome [OF inv step o this] chosen_mono [OF mono] show ?thesis by blast
  next
    case (Some w)
    then have w: "w = v" using vmonoD(4) [OF mono] o by fastforce
    have "chosen N v s \<or> \<not> v \<and> \<not> coord_live s \<and> (InitialGTxTerm, True) \<notin> proposals s"
      using inv Some w unfolding vinv_def outcomes_ok_def by blast
    moreover have "(InitialGTxTerm, True) \<notin> proposals s'" if "\<not> coord_live s" "(InitialGTxTerm, True) \<notin> proposals s"
      using new_proposal [OF inv N step _ that(2)] that(1) by auto
    ultimately show ?thesis using chosen_mono [OF mono] vmonoD(5) [OF mono] by blast
  qed
qed

text \<open>The specification of one transaction is an instance of the invariant rule.\<close>

lemma vinv_step:
  assumes "0 \<notin> N" and "vinv N c s" and "vstep N c s s'"
  shows "vinv N c s'"
  unfolding vinv_def
  using promises_ok_step votes_ok_step proposals_ok_step rivals_ok_step outcomes_ok_step assms by blast

section \<open>Agreement\<close>

lemma chosen_proposed:
  assumes "vinv N c s" and "finite N" and "chosen N v s"
  obtains t Q where "(t, v) \<in> proposals s" "majority N Q" "\<forall>i \<in> Q. (t, v) \<in> votes s i"
proof -
  from assms(3) obtain t Q where Q: "majority N Q" "\<forall>i \<in> Q. (t, v) \<in> votes s i" unfolding chosen_def by blast
  then have "Q \<noteq> {}" by (auto simp: majority_def Quorum_def)
  with Q vinvD(5) [OF assms(1)] show ?thesis by (intro that [of t Q]) blast+
qed

lemma majorities_meet: "finite N \<Longrightarrow> majority N Q \<Longrightarrow> majority N Q' \<Longrightarrow> \<exists>i. i \<in> Q \<and> i \<in> Q'"
  using Quorum_intersect [of N Q Q'] unfolding majority_def by blast

lemma chosen_unique:
  assumes inv: "vinv N c s" and N: "finite N" and v: "chosen N v s" and w: "chosen N w s"
  shows "v = w"
proof (rule ccontr)
  assume ne: "v \<noteq> w"
  obtain t Q where t: "(t, v) \<in> proposals s" "majority N Q" "\<forall>i \<in> Q. (t, v) \<in> votes s i"
    by (rule chosen_proposed [OF inv N v])
  obtain u R where u: "(u, w) \<in> proposals s" "majority N R" "\<forall>i \<in> R. (u, w) \<in> votes s i"
    by (rule chosen_proposed [OF inv N w])
  have "t \<noteq> u" using t(1) u(1) ne vinvD(6) [OF inv] by blast
  then consider "u < t" | "t < u" by fastforce
  then show False
  proof cases
    case 1
    then obtain P where "majority N P" "\<forall>i \<in> P. (u, w) \<notin> votes s i"
      using inv t(1) u(1) ne unfolding vinv_def rivals_ok_def by metis
    with majorities_meet [OF N _ u(2)] u(3) show False by blast
  next
    case 2
    then obtain P where "majority N P" "\<forall>i \<in> P. (t, v) \<notin> votes s i"
      using inv t(1) u(1) ne unfolding vinv_def rivals_ok_def by metis
    with majorities_meet [OF N _ t(2)] t(3) show False by blast
  qed
qed

lemma outcome_unique:
  assumes inv: "vinv N c s" and N: "finite N" and o: "outcome s i = Some v" "outcome s j = Some w"
  shows "v = w"
proof -
  have no: "\<not> chosen N True s" if "(InitialGTxTerm, True) \<notin> proposals s"
    using that vinvD(7) [OF inv] by (auto elim: chosen_proposed [OF inv N])
  have "chosen N v s \<or> \<not> v \<and> (InitialGTxTerm, True) \<notin> proposals s"
    "chosen N w s \<or> \<not> w \<and> (InitialGTxTerm, True) \<notin> proposals s"
    using inv o unfolding vinv_def outcomes_ok_def by blast+
  then show ?thesis using chosen_unique [OF inv N] no by (cases v; cases w) auto
qed

end
