(* ===== verification/Vote_System.thy ===== *)
theory Vote_System
  imports Vote_Spec Replier Resolver Commit Apply_Commit
begin

text \<open>
  The vote on one transaction in a whole cluster: every node has at most one entry for it, and the
  steps of the system are the routines of \<open>Commit\<close>, \<open>Apply_Commit\<close>, \<open>Replier\<close> and \<open>Resolver\<close>
  that change such an entry, in any order at any node. Messages may be lost, repeated, delayed
  and reordered: the network is the set of all that were ever sent. Nodes may restart at any
  moment, with what Postgres kept. The system is shown to implement \<open>Vote_Spec\<close>; agreement on the
  outcome follows, and that no assertion of the resolver ever fails.

  Entries of transactions multimaster itself names are meant. Left out are the decisions taken
  without a vote that rest on generations: the winner of the referee, and the abort of a
  transaction that can no longer be prepared.
\<close>

section \<open>The system\<close>

record vsys =
  nd :: "int \<Rightarrow> GlobalTx option"
  fin :: "int \<Rightarrow> bool option"
  live :: bool
  doomed :: bool
  m1a :: "GlobalTxTerm set"
  m1b :: "(int \<times> MtmTxStatusResponse) set"
  m2a :: "(GlobalTxTerm \<times> bool) set"
  m2b :: "(int \<times> Mtm2AResponse) set"

definition node_ids :: "MtmConfig \<Rightarrow> int set" where
  "node_ids cfg = node_id ` set (nodes cfg)"

definition cfg_of :: "MtmConfig \<Rightarrow> int \<Rightarrow> MtmConfig" where
  "cfg_of cfg i = cfg\<lparr>my_node_id := i\<rparr>"

text \<open>The backend of the coordinator keeps its entry locked as long as it works on it.\<close>

definition free :: "int \<Rightarrow> int \<Rightarrow> vsys \<Rightarrow> bool" where
  "free c i s \<longleftrightarrow> \<not> (i = c \<and> live s)"

definition put :: "int \<Rightarrow> GlobalTx \<Rightarrow> vsys \<Rightarrow> vsys" where
  "put i gtx s = (if gtx_final gtx
     then s\<lparr>nd := (nd s)(i := None), fin := (fin s)(i := Some (status (gtx_state gtx) = GTXCommitted))\<rparr>
     else s\<lparr>nd := (nd s)(i := Some gtx)\<rparr>)"

definition request :: "string \<Rightarrow> GlobalTxTerm \<Rightarrow> MtmTxRequestValue \<Rightarrow> MtmTxRequest" where
  "request g t ty = \<lparr>rq_type = ty, rq_term = t, rq_gid = g, rq_coordinator = 0, rq_gen_num = 0, rq_coordinator_end_lsn = 0\<rparr>"

definition status_reply :: "string \<Rightarrow> int \<Rightarrow> GTxState \<Rightarrow> MtmTxStatusResponse" where
  "status_reply g i st = \<lparr>sr_node_id = i, sr_state = st, sr_gid = g\<rparr>"

definition vote_reply :: "string \<Rightarrow> int \<Rightarrow> GlobalTxStatus \<Rightarrow> GlobalTxTerm \<Rightarrow> Mtm2AResponse" where
  "vote_reply g i sg t = \<lparr>a2_node_id = i, a2_status = sg, a2_accepted_term = t, a2_errcode = 0, a2_errmsg = [], a2_gid = g\<rparr>"

definition request_value :: "MtmTxRequest option \<Rightarrow> (GlobalTxTerm \<times> bool) set" where
  "request_value req = (case req of Some r \<Rightarrow>
     (if rq_type r = MTReq_Precommit then {(rq_term r, True)}
      else if rq_type r = MTReq_Preabort then {(rq_term r, False)} else {}) | None \<Rightarrow> {})"

inductive sstep :: "MtmConfig \<Rightarrow> int \<Rightarrow> string \<Rightarrow> vsys \<Rightarrow> vsys \<Rightarrow> bool" for cfg c g where
  s_prepare: "i \<in> node_ids cfg \<Longrightarrow> nd s i = None \<Longrightarrow> fin s i = None \<Longrightarrow>
    sstep cfg c g s (s\<lparr>nd := (nd s)(i := Some ((new_gtx garbage g b)\<lparr>prepared := True\<rparr>))\<rparr>)"
| s_precommit: "live s \<Longrightarrow> nd s c = Some gtx \<Longrightarrow> accepted (gtx_state gtx) = InvalidGTxTerm \<Longrightarrow>
    sstep cfg c g s (s\<lparr>nd := (nd s)(c := Some (gtx\<lparr>gtx_state := precommitted_state\<rparr>)),
      m2a := insert (InitialGTxTerm, True) (m2a s)\<rparr>)"
| s_commit: "live s \<Longrightarrow> nd s c = Some gtx \<Longrightarrow> accepted (gtx_state gtx) \<noteq> InvalidGTxTerm \<Longrightarrow>
    set ms \<subseteq> {r. (c, r) \<in> m2b s} \<Longrightarrow> distinct (map a2_node_id ms) \<Longrightarrow>
    Quorum (n_nodes cfg) (1 + length (filter good_2b ms)) \<Longrightarrow>
    sstep cfg c g s ((put c (finish_gtx True gtx) s)\<lparr>live := False\<rparr>)"
| s_rollback: "live s \<Longrightarrow> nd s c = Some gtx \<Longrightarrow> accepted (gtx_state gtx) = InvalidGTxTerm \<Longrightarrow>
    sstep cfg c g s ((put c (finish_gtx False gtx) s)\<lparr>live := False\<rparr>)"
| s_leave: "sstep cfg c g s (s\<lparr>live := False\<rparr>)"
| s_phase2a: "(InitialGTxTerm, True) \<in> m2a s \<Longrightarrow> i \<noteq> c \<Longrightarrow> nd s i = Some gtx \<Longrightarrow>
    accept_phase2a precommitted_state gtx = ((sg, t), gtx', voted) \<Longrightarrow>
    sstep cfg c g s (s\<lparr>nd := (nd s)(i := Some gtx'), m2b := insert (c, vote_reply g i sg t) (m2b s)\<rparr>)"
| s_stamp: "nd s i = Some gtx \<Longrightarrow> free c i s \<Longrightarrow> proposal (gtx_state gtx) < t \<Longrightarrow> term_node_id t = i \<Longrightarrow>
    sstep cfg c g s (s\<lparr>nd := (nd s)(i := Some (snd (stamp_gtx t gtx))), m1a := insert t (m1a s)\<rparr>)"
| s_1a: "t \<in> m1a s \<Longrightarrow> nd s i = Some gtx \<Longrightarrow> free c i s \<Longrightarrow> term_node_id t \<noteq> i \<Longrightarrow>
    handle_1a_gtx (request g t MTReq_Status) gtx (status_reply g i invalid_state) = (es, gtx', resp) \<Longrightarrow>
    sstep cfg c g s (s\<lparr>nd := (nd s)(i := Some gtx'), m1b := insert (term_node_id t, resp) (m1b s)\<rparr>)"
| s_1a_done: "fin s i = Some v \<Longrightarrow> d \<noteq> i \<Longrightarrow>
    sstep cfg c g s (s\<lparr>m1b := insert (d, status_reply g i
      (invalid_state\<lparr>status := (if v then GTXCommitted else GTXAborted)\<rparr>)) (m1b s)\<rparr>)"
| s_1a_unknown: "i \<in> node_ids cfg \<Longrightarrow> d \<noteq> i \<Longrightarrow>
    sstep cfg c g s (s\<lparr>m1b := insert (d, status_reply g i invalid_state) (m1b s)\<rparr>)"
| s_2a: "(t, v) \<in> m2a s \<Longrightarrow> t \<noteq> InitialGTxTerm \<Longrightarrow> term_node_id t \<noteq> i \<Longrightarrow> nd s i = Some gtx \<Longrightarrow> free c i s \<Longrightarrow>
    accept_2a (request g t (if v then MTReq_Precommit else MTReq_Preabort)) gtx = Some (es, gtx') \<Longrightarrow>
    sstep cfg c g s (s\<lparr>nd := (nd s)(i := Some gtx'),
      m2b := insert (term_node_id t, vote_reply g i (status (gtx_state gtx')) t) (m2b s)\<rparr>)"
| s_2a_refused: "i \<in> node_ids cfg \<Longrightarrow> d \<noteq> i \<Longrightarrow>
    sstep cfg c g s (s\<lparr>m2b := insert (d, vote_reply g i GTXInvalid InvalidGTxTerm) (m2b s)\<rparr>)"
| s_1b: "nd s i = Some gtx \<Longrightarrow> free c i s \<Longrightarrow> (i, r) \<in> m1b s \<Longrightarrow>
    respond (cfg_of cfg i) (T_MtmTxStatusResponse r) gtx = Inr (es, gtx', req) \<Longrightarrow>
    sstep cfg c g s ((put i gtx' s)\<lparr>m2a := request_value req \<union> m2a s\<rparr>)"
| s_2b: "nd s i = Some gtx \<Longrightarrow> free c i s \<Longrightarrow> (i, r) \<in> m2b s \<Longrightarrow>
    respond (cfg_of cfg i) (T_Mtm2AResponse r) gtx = Inr (es, gtx', req) \<Longrightarrow>
    sstep cfg c g s (put i gtx' s)"
| s_learn: "nd s i = Some gtx \<Longrightarrow> free c i s \<Longrightarrow> fin s j = Some v \<Longrightarrow>
    sstep cfg c g s (put i (finish_gtx v gtx) s)"
| s_collect: "nd s c = Some gtx \<Longrightarrow> \<not> live s \<Longrightarrow> own_unvoted c gtx \<Longrightarrow> sstep cfg c g s (s\<lparr>doomed := True\<rparr>)"
| s_abort: "doomed s \<Longrightarrow> nd s c = Some gtx \<Longrightarrow> sstep cfg c g s (put c (finish_gtx False gtx) s)"
| s_restart: "nd s i = Some gtx \<Longrightarrow>
    sstep cfg c g s (s\<lparr>nd := (nd s)(i := Some (loaded_gtx garbage g (xinfo gtx) (gtx_state gtx))),
      live := (if i = c then False else live s), doomed := (if i = c then False else doomed s)\<rparr>)"

definition sinit :: vsys where
  "sinit = \<lparr>nd = \<lambda>_. None, fin = \<lambda>_. None, live = True, doomed = False, m1a = {}, m1b = {}, m2a = {}, m2b = {}\<rparr>"

section \<open>How the entries correspond to the votes\<close>

text \<open>What an entry says about the votes of its node.\<close>

definition state_rel :: "GTxState \<Rightarrow> (GlobalTxTerm \<times> bool) set \<Rightarrow> bool" where
  "state_rel st V \<longleftrightarrow> accepted st \<le> proposal st \<and>
     (accepted st = InvalidGTxTerm \<and> status st = GTXInvalid \<and> V = {} \<or>
      InvalidGTxTerm < accepted st \<and> status st \<in> {GTXPreCommitted, GTXPreAborted} \<and>
      (accepted st, status st = GTXPreCommitted) \<in> V \<and> (\<forall>(t, v) \<in> V. t \<le> accepted st))"

text \<open>What an answer to a status request says about them, now and for ever.\<close>

definition ack_rel :: "int \<Rightarrow> GTxState \<Rightarrow> vspec \<Rightarrow> bool" where
  "ack_rel i st a \<longleftrightarrow> past i (proposal st) a \<and> accepted st \<le> proposal st \<and>
     (accepted st = InvalidGTxTerm \<and> status st = GTXInvalid \<or>
      InvalidGTxTerm < accepted st \<and> status st \<in> {GTXPreCommitted, GTXPreAborted} \<and>
      (accepted st, status st = GTXPreCommitted) \<in> votes a i) \<and>
     (\<forall>(t, v) \<in> votes a i. t < proposal st \<longrightarrow> t \<le> accepted st)"

definition acks1_rel :: "int set \<Rightarrow> GlobalTxTerm \<Rightarrow> GTxState list \<Rightarrow> vspec \<Rightarrow> bool" where
  "acks1_rel N t acks a \<longleftrightarrow> length acks = MTM_MAX_NODES \<and>
     (\<forall>k < MTM_MAX_NODES. proposal (acks ! k) \<noteq> InvalidGTxTerm \<longrightarrow>
        int k + 1 \<in> N \<and> proposal (acks ! k) \<le> t \<and> ack_rel (int k + 1) (acks ! k) a)"

definition vote_rel :: "int \<Rightarrow> GTxState \<Rightarrow> vspec \<Rightarrow> bool" where
  "vote_rel i st a \<longleftrightarrow> status st \<in> {GTXPreCommitted, GTXPreAborted} \<and>
     (proposal st, status st = GTXPreCommitted) \<in> votes a i"

definition acks2_rel :: "int set \<Rightarrow> int \<Rightarrow> GTxState list \<Rightarrow> vspec \<Rightarrow> bool" where
  "acks2_rel N i acks a \<longleftrightarrow> length acks = MTM_MAX_NODES \<and>
     (\<forall>k < MTM_MAX_NODES. int k + 1 \<noteq> i \<longrightarrow> proposal (acks ! k) \<noteq> InvalidGTxTerm \<longrightarrow>
        int k + 1 \<in> N \<and> vote_rel (int k + 1) (acks ! k) a)"

text \<open>The votes of others the resolver has counted for its own term.\<close>

definition others_for :: "int \<Rightarrow> GlobalTxTerm \<Rightarrow> GTxState list \<Rightarrow> nat set" where
  "others_for i t acks = {k. k < MTM_MAX_NODES \<and> int k + 1 \<noteq> i \<and> proposal (acks ! k) = t}"

definition stage_rel :: "nat \<Rightarrow> int \<Rightarrow> GlobalTx \<Rightarrow> bool" where
  "stage_rel n i gtx \<longleftrightarrow> (let st = gtx_state gtx in term_node_id (proposal st) = i \<longrightarrow>
     (case resolver_stage gtx of
        GTRS_AwaitStatus \<Rightarrow> others_for i (proposal st) (phase2_acks gtx) = {}
      | GTRS_AwaitAcks \<Rightarrow> accepted st = proposal st \<and>
          \<not> Quorum n (1 + card (others_for i (proposal st) (phase2_acks gtx)))))"

definition node_rel :: "MtmConfig \<Rightarrow> string \<Rightarrow> int \<Rightarrow> GlobalTx \<Rightarrow> vspec \<Rightarrow> bool" where
  "node_rel cfg g i gtx a \<longleftrightarrow> gid gtx = g \<and> i \<in> node_ids cfg \<and> promise a i = Some (proposal (gtx_state gtx)) \<and>
     state_rel (gtx_state gtx) (votes a i) \<and> acks1_rel (node_ids cfg) (proposal (gtx_state gtx)) (phase1_acks gtx) a \<and>
     acks2_rel (node_ids cfg) i (phase2_acks gtx) a \<and> stage_rel (n_nodes cfg) i gtx"

definition msg1b_rel :: "MtmConfig \<Rightarrow> string \<Rightarrow> int \<times> MtmTxStatusResponse \<Rightarrow> vspec \<Rightarrow> bool" where
  "msg1b_rel cfg g m a \<longleftrightarrow> (let r = snd m; st = sr_state r in
     sr_gid r = g \<and> sr_node_id r \<in> node_ids cfg \<and> sr_node_id r \<noteq> fst m \<and>
     (status st = GTXCommitted \<longrightarrow> outcome a (sr_node_id r) = Some True) \<and>
     (status st = GTXAborted \<longrightarrow> outcome a (sr_node_id r) = Some False) \<and>
     (proposal st \<noteq> InvalidGTxTerm \<longrightarrow> past (fst m) (proposal st) a \<and> ack_rel (sr_node_id r) st a))"

definition msg2b_rel :: "MtmConfig \<Rightarrow> string \<Rightarrow> int \<times> Mtm2AResponse \<Rightarrow> vspec \<Rightarrow> bool" where
  "msg2b_rel cfg g m a \<longleftrightarrow> (let r = snd m in a2_gid r = g \<and> a2_node_id r \<in> node_ids cfg \<and> a2_node_id r \<noteq> fst m \<and>
     (a2_status r \<in> {GTXPreCommitted, GTXPreAborted} \<longrightarrow>
        (a2_accepted_term r, a2_status r = GTXPreCommitted) \<in> votes a (a2_node_id r)))"

definition sys_rel :: "MtmConfig \<Rightarrow> int \<Rightarrow> string \<Rightarrow> vsys \<Rightarrow> vspec \<Rightarrow> bool" where
  "sys_rel cfg c g s a \<longleftrightarrow> outcome a = fin s \<and> proposals a = m2a s \<and> coord_live a = live s \<and>
     (\<forall>i. nd s i = None \<longrightarrow> fin s i = None \<longrightarrow> promise a i = None) \<and>
     (\<forall>i gtx. nd s i = Some gtx \<longrightarrow> fin s i = None \<and> node_rel cfg g i gtx a) \<and>
     (\<forall>gtx. live s \<longrightarrow> nd s c = Some gtx \<longrightarrow> gtx_state gtx \<in> {initial_state, precommitted_state}) \<and>
     (\<forall>t \<in> m1a s. past (term_node_id t) t a) \<and> (\<forall>m \<in> m1b s. msg1b_rel cfg g m a) \<and> (\<forall>m \<in> m2b s. msg2b_rel cfg g m a) \<and>
     (doomed s \<longrightarrow> \<not> live s \<and> (InitialGTxTerm, True) \<notin> proposals a)"

section \<open>What lasts\<close>

text \<open>The cluster: nodes with ids that fit the arrays of acks, and a transaction multimaster named.\<close>

definition vote_env :: "MtmConfig \<Rightarrow> int \<Rightarrow> string \<Rightarrow> bool" where
  "vote_env cfg c g \<longleftrightarrow> distinct (map node_id (nodes cfg)) \<and> node_ids cfg \<subseteq> {1..int MTM_MAX_NODES} \<and>
     2 \<le> n_nodes cfg \<and> c \<in> node_ids cfg \<and> \<not> IS_EXPLICIT_2PC_GID g \<and> g \<noteq> []"

lemma vote_envD:
  assumes "vote_env cfg c g"
  shows "0 \<notin> node_ids cfg" "finite (node_ids cfg)" "card (node_ids cfg) = n_nodes cfg" "\<not> Quorum (n_nodes cfg) 1"
    "i \<in> node_ids cfg \<Longrightarrow> 1 \<le> i \<and> i \<le> 16" "\<not> IS_EXPLICIT_2PC_GID g" "g \<noteq> []" "c \<in> node_ids cfg"
proof -
  show "0 \<notin> node_ids cfg" "finite (node_ids cfg)" "\<not> IS_EXPLICIT_2PC_GID g" "g \<noteq> []" "c \<in> node_ids cfg"
    "i \<in> node_ids cfg \<Longrightarrow> 1 \<le> i \<and> i \<le> 16" "\<not> Quorum (n_nodes cfg) 1"
    using assms by (auto simp: vote_env_def node_ids_def Quorum_def)
  have "node_ids cfg = set (map node_id (nodes cfg))" by (simp add: node_ids_def)
  moreover have "distinct (map node_id (nodes cfg))" using assms by (simp add: vote_env_def)
  ultimately show "card (node_ids cfg) = n_nodes cfg" using distinct_card by (fastforce simp: n_nodes_def)
qed

lemma vmono_refl: "vmono a a"
  by (auto simp: vmono_def)

lemma vmono_trans:
  assumes "vmono a b" and "vmono b d"
  shows "vmono a d"
  unfolding vmono_def
proof (intro conjI allI impI subsetI)
  fix i t v assume "(t, v) \<in> votes d i - votes a i"
  then show "\<not> (\<exists>u > t. past i u a)"
    using vmonoD(1) [OF assms(1)] vmonoD(6) [OF assms(1)] vmonoD(6) [OF assms(2)] by blast
qed (use vmonoD [OF assms(1)] vmonoD [OF assms(2)] in blast)+

lemma vsteps_mono: "(vstep N c)\<^sup>*\<^sup>* a a' \<Longrightarrow> vmono a a'"
  by (induction rule: rtranclp_induct) (auto intro: vmono_refl vmono_trans vstep_mono)

lemma ack_rel_mono: "vmono a a' \<Longrightarrow> ack_rel i st a \<Longrightarrow> ack_rel i st a'"
proof -
  assume m: "vmono a a'" and r: "ack_rel i st a"
  have "t \<le> accepted st" if "(t, v) \<in> votes a' i" "t < proposal st" for t v
    using that r vmonoD(6) [OF m that(1), of "proposal st"] by (auto simp: ack_rel_def)
  then show ?thesis using r vmonoD(1,2) [OF m] unfolding ack_rel_def by blast
qed

lemma acks1_rel_mono: "vmono a a' \<Longrightarrow> t \<le> t' \<Longrightarrow> acks1_rel N t acks a \<Longrightarrow> acks1_rel N t' acks a'"
  unfolding acks1_rel_def using ack_rel_mono by (meson order_trans)

lemma acks2_rel_mono: "vmono a a' \<Longrightarrow> acks2_rel N i acks a \<Longrightarrow> acks2_rel N i acks a'"
  unfolding acks2_rel_def vote_rel_def using vmonoD(2) by blast

lemma msg1b_rel_mono: "vmono a a' \<Longrightarrow> msg1b_rel cfg g m a \<Longrightarrow> msg1b_rel cfg g m a'"
  unfolding msg1b_rel_def Let_def using vmonoD(1,4) ack_rel_mono by blast

lemma msg2b_rel_mono: "vmono a a' \<Longrightarrow> msg2b_rel cfg g m a \<Longrightarrow> msg2b_rel cfg g m a'"
  unfolding msg2b_rel_def Let_def using vmonoD(2) by blast

lemma node_rel_mono:
  assumes "vmono a a'" and "node_rel cfg g i gtx a" and "promise a' i = promise a i" and "votes a' i = votes a i"
  shows "node_rel cfg g i gtx a'"
  using assms acks1_rel_mono acks2_rel_mono unfolding node_rel_def by (metis order_refl)

section \<open>One step of one node\<close>

lemma sys_relD:
  assumes "sys_rel cfg c g s a"
  shows "outcome a = fin s" "proposals a = m2a s" "coord_live a = live s"
    "nd s i = None \<Longrightarrow> fin s i = None \<Longrightarrow> promise a i = None"
    "nd s i = Some gtx \<Longrightarrow> fin s i = None" "nd s i = Some gtx \<Longrightarrow> node_rel cfg g i gtx a"
    "live s \<Longrightarrow> nd s c = Some gtx \<Longrightarrow> gtx_state gtx \<in> {initial_state, precommitted_state}"
    "t \<in> m1a s \<Longrightarrow> past (term_node_id t) t a" "m \<in> m1b s \<Longrightarrow> msg1b_rel cfg g m a"
    "n \<in> m2b s \<Longrightarrow> msg2b_rel cfg g n a"
    "doomed s \<Longrightarrow> \<not> live s" "doomed s \<Longrightarrow> (InitialGTxTerm, True) \<notin> proposals a"
  using assms unfolding sys_rel_def by blast+

lemma node_relD:
  assumes "node_rel cfg g i gtx a"
  shows "gid gtx = g" "i \<in> node_ids cfg" "promise a i = Some (proposal (gtx_state gtx))"
    "state_rel (gtx_state gtx) (votes a i)" "acks1_rel (node_ids cfg) (proposal (gtx_state gtx)) (phase1_acks gtx) a"
    "acks2_rel (node_ids cfg) i (phase2_acks gtx) a" "stage_rel (n_nodes cfg) i gtx"
  using assms unfolding node_rel_def by blast+

text \<open>A step of node \<open>i\<close> that does not finish the transaction there.\<close>

lemma sys_rel_keep:
  assumes rel: "sys_rel cfg c g s a" and mono: "vmono a a'"
    and i: "\<And>j. j \<noteq> i \<Longrightarrow> promise a' j = promise a j \<and> votes a' j = votes a j"
    and o: "outcome a' = outcome a" "fin s i = None" and gtx: "node_rel cfg g i gtx a'"
    and s': "nd s' = (nd s)(i := Some gtx)" "fin s' = fin s" "m2a s' = proposals a'" "live s' = coord_live a'"
    and m1a: "\<And>t. t \<in> m1a s' \<Longrightarrow> t \<in> m1a s \<or> past (term_node_id t) t a'"
    and m1b: "\<And>m. m \<in> m1b s' \<Longrightarrow> m \<in> m1b s \<or> msg1b_rel cfg g m a'"
    and m2b: "\<And>m. m \<in> m2b s' \<Longrightarrow> m \<in> m2b s \<or> msg2b_rel cfg g m a'"
    and c: "live s' \<Longrightarrow> i = c \<Longrightarrow> gtx_state gtx \<in> {initial_state, precommitted_state}"
    and d: "doomed s' \<Longrightarrow> doomed s" "doomed s \<Longrightarrow> proposals a' = proposals a \<or> (InitialGTxTerm, True) \<notin> proposals a'"
  shows "sys_rel cfg c g s' a'"
  unfolding sys_rel_def
proof (intro conjI allI impI ballI)
  note D = sys_relD [OF rel]
  show "outcome a' = fin s'" "proposals a' = m2a s'" "coord_live a' = live s'" using D(1) o s' by auto
  show "promise a' j = None" if "nd s' j = None" "fin s' j = None" for j
    using that D(4) i s' by (metis fun_upd_apply option.discI)
  show "fin s' j = None" if "nd s' j = Some gtx'" for j gtx'
    using that D(5) o(2) s'(1,2) by (auto split: if_splits)
  show "node_rel cfg g j gtx' a'" if "nd s' j = Some gtx'" for j gtx'
  proof (cases "j = i")
    case True
    then show ?thesis using that gtx s'(1) by simp
  next
    case False
    then show ?thesis using that i [OF False] s'(1) node_rel_mono [OF mono D(6) [of j gtx']] by simp
  qed
  have l: "live s" if "live s'" using that D(3) vmonoD(5) [OF mono] s'(4) by simp
  show "gtx_state gtx' \<in> {initial_state, precommitted_state}" if "live s'" "nd s' c = Some gtx'" for gtx'
    using that c D(7) l s'(1) by (auto split: if_splits)
  show "past (term_node_id t) t a'" if "t \<in> m1a s'" for t
    using m1a [OF that] D(8) vmonoD(1) [OF mono] by blast
  show "msg1b_rel cfg g m a'" if "m \<in> m1b s'" for m using m1b [OF that] D(9) msg1b_rel_mono [OF mono] by blast
  show "msg2b_rel cfg g m a'" if "m \<in> m2b s'" for m using m2b [OF that] D(10) msg2b_rel_mono [OF mono] by blast
  show "\<not> live s'" "(InitialGTxTerm, True) \<notin> proposals a'" if "doomed s'"
    using d that D(11,12) l by blast+
qed

text \<open>A step that leaves the entries alone: messages are sent, or the coordinator gives up.\<close>

lemma sys_rel_idle:
  assumes rel: "sys_rel cfg c g s a" and mono: "vmono a a'"
    and a': "promise a' = promise a" "votes a' = votes a" "outcome a' = outcome a" "proposals a' = proposals a"
    and s': "nd s' = nd s" "fin s' = fin s" "m2a s' = m2a s" "live s' = coord_live a'" "m1a s' = m1a s"
    and m1b: "\<And>m. m \<in> m1b s' \<Longrightarrow> m \<in> m1b s \<or> msg1b_rel cfg g m a'"
    and m2b: "\<And>m. m \<in> m2b s' \<Longrightarrow> m \<in> m2b s \<or> msg2b_rel cfg g m a'"
    and d: "doomed s' \<Longrightarrow> doomed s \<or> \<not> live s' \<and> (InitialGTxTerm, True) \<notin> proposals a"
  shows "sys_rel cfg c g s' a'"
  unfolding sys_rel_def
proof (intro conjI allI impI ballI)
  note D = sys_relD [OF rel]
  show "outcome a' = fin s'" "proposals a' = m2a s'" "coord_live a' = live s'" using D(1,2) a' s' by auto
  show "promise a' j = None" if "nd s' j = None" "fin s' j = None" for j using that D(4) a' s' by simp
  show "fin s' j = None" "node_rel cfg g j gtx' a'" if "nd s' j = Some gtx'" for j gtx'
    using that D(5,6) a' s' node_rel_mono [OF mono D(6) [of j gtx']] by simp_all
  have l: "live s" if "live s'" using that D(3) vmonoD(5) [OF mono] s'(4) by simp
  show "gtx_state gtx' \<in> {initial_state, precommitted_state}" if "live s'" "nd s' c = Some gtx'" for gtx'
    using that D(7) l s'(1) by auto
  show "past (term_node_id t) t a'" if "t \<in> m1a s'" for t
    using that s'(5) D(8) vmonoD(1) [OF mono] by auto
  show "msg1b_rel cfg g m a'" if "m \<in> m1b s'" for m using m1b [OF that] D(9) msg1b_rel_mono [OF mono] by blast
  show "msg2b_rel cfg g m a'" if "m \<in> m2b s'" for m using m2b [OF that] D(10) msg2b_rel_mono [OF mono] by blast
  show "\<not> live s'" "(InitialGTxTerm, True) \<notin> proposals a'" if "doomed s'"
    using d [OF that] D(11,12) l a'(4) by auto
qed

text \<open>A step that finishes the transaction at node \<open>i\<close>.\<close>

lemma sys_rel_finish:
  assumes rel: "sys_rel cfg c g s a" and mono: "vmono a a'" and nd: "nd s i = Some gtx"
    and a': "promise a' = promise a" "votes a' = votes a" "outcome a' = (outcome a)(i := Some v)" "proposals a' = proposals a"
    and s': "nd s' = (nd s)(i := None)" "fin s' = (fin s)(i := Some v)" "m2a s' = m2a s" "live s' = coord_live a'"
      "m1a s' = m1a s" "m1b s' = m1b s" "m2b s' = m2b s" "doomed s' = doomed s"
  shows "sys_rel cfg c g s' a'"
  unfolding sys_rel_def
proof (intro conjI allI impI ballI)
  note D = sys_relD [OF rel]
  show "outcome a' = fin s'" "proposals a' = m2a s'" "coord_live a' = live s'" using D(1,2) a' s' by auto
  show "promise a' j = None" if "nd s' j = None" "fin s' j = None" for j
    using that D(4) a' s' by (auto split: if_splits)
  show "fin s' j = None" "node_rel cfg g j gtx' a'" if "nd s' j = Some gtx'" for j gtx'
    using that D(5,6) a' s' node_rel_mono [OF mono D(6) [of j gtx']] by (auto split: if_splits)
  have l: "live s" if "live s'" using that D(3) vmonoD(5) [OF mono] s'(4) by simp
  show "gtx_state gtx' \<in> {initial_state, precommitted_state}" if "live s'" "nd s' c = Some gtx'" for gtx'
    using that D(7) l s'(1) by (auto split: if_splits)
  show "past (term_node_id t) t a'" if "t \<in> m1a s'" for t
    using that s'(5) D(8) vmonoD(1) [OF mono] by auto
  show "msg1b_rel cfg g m a'" if "m \<in> m1b s'" for m using that s'(6) D(9) msg1b_rel_mono [OF mono] by auto
  show "msg2b_rel cfg g m a'" if "m \<in> m2b s'" for m using that s'(7) D(10) msg2b_rel_mono [OF mono] by auto
  show "\<not> live s'" "(InitialGTxTerm, True) \<notin> proposals a'" if "doomed s'"
    using that D(11,12) l a'(4) s'(8) by auto
qed

section \<open>The simulation\<close>

definition matched :: "MtmConfig \<Rightarrow> int \<Rightarrow> string \<Rightarrow> vspec \<Rightarrow> vsys \<Rightarrow> bool" where
  "matched cfg c g a s' \<longleftrightarrow> (\<exists>a'. (vstep (node_ids cfg) c)\<^sup>*\<^sup>* a a' \<and> sys_rel cfg c g s' a')"

lemma matchedI: "(vstep (node_ids cfg) c)\<^sup>*\<^sup>* a a' \<Longrightarrow> (vmono a a' \<Longrightarrow> sys_rel cfg c g s' a') \<Longrightarrow> matched cfg c g a s'"
  unfolding matched_def using vsteps_mono by blast

lemma put_finish:
  "nd (put i (finish_gtx v gtx) s) = (nd s)(i := None)" "fin (put i (finish_gtx v gtx) s) = (fin s)(i := Some v)"
  "live (put i gtx' s) = live s" "doomed (put i gtx' s) = doomed s" "m1a (put i gtx' s) = m1a s"
  "m1b (put i gtx' s) = m1b s" "m2a (put i gtx' s) = m2a s" "m2b (put i gtx' s) = m2b s"
  by (auto simp: put_def finish_gtx_def gtx_final_def)

text \<open>Taking over an outcome that is known, or that a majority has voted for.\<close>

lemma finish_matched:
  assumes rel: "sys_rel cfg c g s a" and nd: "nd s i = Some gtx"
    and v: "chosen (node_ids cfg) v a \<or> outcome a j = Some v"
  shows "matched cfg c g a (put i (finish_gtx v gtx) s)"
proof (rule matchedI)
  note D = sys_relD [OF rel]
  have "promise a i \<noteq> None" "outcome a i = None" using node_relD(3) [OF D(6) [OF nd]] D(1) D(5) [OF nd] by auto
  with v have "vstep (node_ids cfg) c a (a\<lparr>outcome := (outcome a)(i := Some v)\<rparr>)"
    using vstep.decide vstep.learn by metis
  then show "(vstep (node_ids cfg) c)\<^sup>*\<^sup>* a (a\<lparr>outcome := (outcome a)(i := Some v)\<rparr>)" by blast
  assume "vmono a (a\<lparr>outcome := (outcome a)(i := Some v)\<rparr>)"
  then show "sys_rel cfg c g (put i (finish_gtx v gtx) s) (a\<lparr>outcome := (outcome a)(i := Some v)\<rparr>)"
    by (rule sys_rel_finish [OF rel _ nd]) (use D(1-3) in \<open>simp_all add: put_finish\<close>)
qed

lemma live_update_matched:
  assumes "matched cfg c g a s"
  shows "matched cfg c g a (s\<lparr>live := False\<rparr>)"
proof -
  obtain a' where a': "(vstep (node_ids cfg) c)\<^sup>*\<^sup>* a a'" "sys_rel cfg c g s a'"
    using assms unfolding matched_def by blast
  let ?b = "a'\<lparr>coord_live := False\<rparr>"
  have st: "vstep (node_ids cfg) c a' ?b" by (rule vstep.leave)
  have "sys_rel cfg c g (s\<lparr>live := False\<rparr>) ?b"
    by (rule sys_rel_idle [OF a'(2) vstep_mono [OF st]]) auto
  with a'(1) st show ?thesis unfolding matched_def by (meson rtranclp.rtrancl_into_rtrancl)
qed

lemma abort_matched:
  assumes rel: "sys_rel cfg c g s a" and nd: "nd s c = Some gtx" and v: "(InitialGTxTerm, True) \<notin> votes a c"
  shows "matched cfg c g a ((put c (finish_gtx False gtx) s)\<lparr>live := False\<rparr>)"
proof (rule matchedI)
  note D = sys_relD [OF rel]
  let ?a = "a\<lparr>coord_live := False, outcome := (outcome a)(c := Some False)\<rparr>"
  have "promise a c \<noteq> None" "outcome a c = None" using node_relD(3) [OF D(6) [OF nd]] D(1) D(5) [OF nd] by auto
  with v have "vstep (node_ids cfg) c a ?a" by (rule vstep.abort)
  then show "(vstep (node_ids cfg) c)\<^sup>*\<^sup>* a ?a" by blast
  assume "vmono a ?a"
  then show "sys_rel cfg c g ((put c (finish_gtx False gtx) s)\<lparr>live := False\<rparr>) ?a"
    by (rule sys_rel_finish [OF rel _ nd, where v = False]) (use D(1-3) in \<open>simp_all add: put_finish\<close>)
qed

text \<open>Messages that say nothing about votes.\<close>

lemma sent_matched:
  assumes rel: "sys_rel cfg c g s a"
    and m1b: "\<And>m. m \<in> m1b s' \<Longrightarrow> m \<in> m1b s \<or> msg1b_rel cfg g m a" and m2b: "\<And>m. m \<in> m2b s' \<Longrightarrow> m \<in> m2b s \<or> msg2b_rel cfg g m a"
    and s': "nd s' = nd s" "fin s' = fin s" "m2a s' = m2a s" "live s' = live s" "m1a s' = m1a s"
    and d: "doomed s' \<Longrightarrow> doomed s \<or> \<not> live s' \<and> (InitialGTxTerm, True) \<notin> proposals a"
  shows "matched cfg c g a s'"
  by (rule matchedI [OF rtranclp.rtrancl_refl], rule sys_rel_idle [OF rel])
    (use assms sys_relD(3) [OF rel] in auto)

text \<open>A vote, and an entry that records it.\<close>

lemma voted_state_rel:
  assumes "\<forall>(t', v') \<in> V. t' \<le> t" and "InvalidGTxTerm < t"
  shows "state_rel \<lparr>proposal = t, accepted = t, status = (if v then GTXPreCommitted else GTXPreAborted)\<rparr> (insert (t, v) V)"
  using assms by (auto simp: state_rel_def)

lemma initial_term: "InvalidGTxTerm < InitialGTxTerm" "InvalidGTxTerm \<noteq> InitialGTxTerm" "term_node_id InitialGTxTerm = 0"
  by (auto simp: InvalidGTxTerm_def InitialGTxTerm_def less_GlobalTxTerm_def term_cmp_def)

lemma other_term_stage: "term_node_id (proposal (gtx_state gtx)) \<noteq> i \<Longrightarrow> stage_rel n i gtx"
  by (simp add: stage_rel_def Let_def)

lemma cast_vote_sel [simp]:
  "promise (cast_vote i t v a) = (promise a)(i := Some t)" "votes (cast_vote i t v a) = (votes a)(i := insert (t, v) (votes a i))"
  "outcome (cast_vote i t v a) = outcome a" "proposals (cast_vote i t v a) = proposals a" "coord_live (cast_vote i t v a) = coord_live a"
  by (auto simp: cast_vote_def)

lemma cast_vote_node:
  assumes inv: "vinv N c a" and p: "promise a i = Some p" "p \<le> t" and nr: "node_rel cfg g i gtx a"
    and mono: "vmono a (cast_vote i t v b)" and b: "votes b = votes a"
    and gtx': "gtx_state gtx' = \<lparr>proposal = t, accepted = t, status = (if v then GTXPreCommitted else GTXPreAborted)\<rparr>"
      "gid gtx' = g" "phase1_acks gtx' = phase1_acks gtx" "phase2_acks gtx' = phase2_acks gtx" "stage_rel (n_nodes cfg) i gtx'"
  shows "node_rel cfg g i gtx' (cast_vote i t v b)"
proof -
  have "InitialGTxTerm \<le> t" using vinvD(2) [OF inv p(1)] p(2) by simp
  then have "InvalidGTxTerm < t" using initial_term(1) by (rule less_le_trans [rotated])
  moreover have "\<forall>(t', v') \<in> votes a i. t' \<le> t" using vinvD(3) [OF inv p(1)] p(2) by fastforce
  ultimately have st: "state_rel (gtx_state gtx') (votes (cast_vote i t v b) i)"
    unfolding gtx' b cast_vote_sel fun_upd_same by (intro voted_state_rel)
  have "proposal (gtx_state gtx) \<le> t" using node_relD(3) [OF nr] p by simp
  then have "acks1_rel (node_ids cfg) t (phase1_acks gtx') (cast_vote i t v b)"
    using node_relD(5) [OF nr] gtx'(3) acks1_rel_mono [OF mono] by simp
  moreover have "acks2_rel (node_ids cfg) i (phase2_acks gtx') (cast_vote i t v b)"
    using node_relD(6) [OF nr] gtx'(4) acks2_rel_mono [OF mono] by simp
  ultimately show ?thesis using st gtx' node_relD(2) [OF nr] by (simp add: node_rel_def)
qed

lemma zero_acks_rel: "acks1_rel N t zero_acks a" "acks2_rel N i zero_acks a" "t \<noteq> InvalidGTxTerm \<Longrightarrow> others_for i t zero_acks = {}"
  by (auto simp: acks1_rel_def acks2_rel_def zero_acks_def others_for_def)

lemma prepare_matched:
  assumes env: "vote_env cfg c g" and rel: "sys_rel cfg c g s a" and inv: "vinv (node_ids cfg) c a"
    and i: "i \<in> node_ids cfg" "nd s i = None" "fin s i = None"
  shows "matched cfg c g a (s\<lparr>nd := (nd s)(i := Some ((new_gtx garbage g b)\<lparr>prepared := True\<rparr>))\<rparr>)"
proof (rule matchedI)
  note D = sys_relD [OF rel]
  let ?a = "a\<lparr>promise := (promise a)(i := Some InitialGTxTerm)\<rparr>" and ?gtx = "(new_gtx garbage g b)\<lparr>prepared := True\<rparr>"
  have p: "promise a i = None" "outcome a i = None" using D(1) D(4) i by auto
  from vstep.prepare [OF p i(1)] show "(vstep (node_ids cfg) c)\<^sup>*\<^sup>* a ?a" by blast
  assume mono: "vmono a ?a"
  have "i \<noteq> 0" using i(1) vote_envD(1) [OF env] by blast
  then have n: "node_rel cfg g i ?gtx ?a"
    using i(1) vinvD(4) [OF inv p(1)] zero_acks_rel
    by (auto simp: node_rel_def new_gtx_def state_rel_def stage_rel_def initial_term less_imp_le)
  show "sys_rel cfg c g (s\<lparr>nd := (nd s)(i := Some ?gtx)\<rparr>) ?a"
    by (rule sys_rel_keep [OF rel mono _ _ i(3) n]) (use D(2,3) in \<open>auto simp: new_gtx_def initial_state_def\<close>)
qed

lemma live_state:
  assumes rel: "sys_rel cfg c g s a" and nd: "live s" "nd s c = Some gtx"
  shows "accepted (gtx_state gtx) = InvalidGTxTerm \<Longrightarrow> gtx_state gtx = initial_state \<and> votes a c = {} \<and> promise a c = Some InitialGTxTerm"
    "accepted (gtx_state gtx) \<noteq> InvalidGTxTerm \<Longrightarrow> gtx_state gtx = precommitted_state \<and> (InitialGTxTerm, True) \<in> votes a c"
  using sys_relD(7) [OF rel nd] node_relD(3,4) [OF sys_relD(6) [OF rel nd(2)]] initial_term(2)
  by (auto simp: initial_state_def precommitted_state_def state_rel_def)

lemma precommit_matched:
  assumes env: "vote_env cfg c g" and rel: "sys_rel cfg c g s a" and inv: "vinv (node_ids cfg) c a"
    and nd: "live s" "nd s c = Some gtx" "accepted (gtx_state gtx) = InvalidGTxTerm"
  shows "matched cfg c g a (s\<lparr>nd := (nd s)(c := Some (gtx\<lparr>gtx_state := precommitted_state\<rparr>)),
      m2a := insert (InitialGTxTerm, True) (m2a s)\<rparr>)"
proof (rule matchedI)
  note D = sys_relD [OF rel]
  let ?b = "a\<lparr>proposals := insert (InitialGTxTerm, True) (proposals a)\<rparr>"
  let ?a = "cast_vote c InitialGTxTerm True ?b" and ?gtx = "gtx\<lparr>gtx_state := precommitted_state\<rparr>"
  note L = live_state(1) [OF rel nd]
  then have p: "coord_live a" "promise a c = Some InitialGTxTerm" "outcome a c = None" "votes a c = {}"
    using D(1,3) D(5) [OF nd(2)] nd(1) by auto
  from vstep.precommit [OF p] show "(vstep (node_ids cfg) c)\<^sup>*\<^sup>* a ?a" by blast
  assume mono: "vmono a ?a"
  have "c \<noteq> 0" using vote_envD(1,8) [OF env] by blast
  then have "stage_rel (n_nodes cfg) c ?gtx"
    by (intro other_term_stage) (simp add: precommitted_state_def initial_term)
  then have n: "node_rel cfg g c ?gtx ?a"
    using node_relD(1) [OF D(6) [OF nd(2)]]
    by (intro cast_vote_node [OF inv p(2) order_refl D(6) [OF nd(2)] mono]) (auto simp: precommitted_state_def)
  show "sys_rel cfg c g (s\<lparr>nd := (nd s)(c := Some ?gtx), m2a := insert (InitialGTxTerm, True) (m2a s)\<rparr>) ?a"
    by (rule sys_rel_keep [OF rel mono _ _ D(5) [OF nd(2)] n]) (use D(2,3,11) nd in auto)
qed

lemma phase2a_matched:
  assumes env: "vote_env cfg c g" and rel: "sys_rel cfg c g s a" and inv: "vinv (node_ids cfg) c a"
    and m: "(InitialGTxTerm, True) \<in> m2a s" and i: "i \<noteq> c" "nd s i = Some gtx"
    and ac: "accept_phase2a precommitted_state gtx = ((sg, t), gtx', voted)"
  shows "matched cfg c g a (s\<lparr>nd := (nd s)(i := Some gtx'), m2b := insert (c, vote_reply g i sg t) (m2b s)\<rparr>)"
proof (cases "proposal (gtx_state gtx) \<le> InitialGTxTerm")
  case True
  note D = sys_relD [OF rel] and nr = sys_relD(6) [OF rel i(2)]
  let ?a = "cast_vote i InitialGTxTerm True a"
  have x: "sg = GTXPreCommitted" "t = InitialGTxTerm" "gtx' = gtx\<lparr>gtx_state := precommitted_state\<rparr>"
    using ac True by (auto simp: accept_phase2a_def precommitted_state_def)
  have v: "vstep (node_ids cfg) c a ?a"
    using vstep.vote [OF node_relD(3) [OF nr] True] m D(1,2) D(5) [OF i(2)] by auto
  have "i \<noteq> 0" using node_relD(2) [OF nr] vote_envD(1) [OF env] by blast
  then have "stage_rel (n_nodes cfg) i gtx'"
    unfolding x by (intro other_term_stage) (simp add: precommitted_state_def initial_term)
  then have n: "node_rel cfg g i gtx' ?a"
    using node_relD(1) [OF nr]
    by (intro cast_vote_node [OF inv node_relD(3) [OF nr] True nr vstep_mono [OF v]])
      (auto simp: precommitted_state_def x)
  have "msg2b_rel cfg g (c, vote_reply g i sg t) ?a"
    using i(1) node_relD(2) [OF nr] by (simp add: msg2b_rel_def vote_reply_def x)
  then have "sys_rel cfg c g (s\<lparr>nd := (nd s)(i := Some gtx'), m2b := insert (c, vote_reply g i sg t) (m2b s)\<rparr>) ?a"
    by (intro sys_rel_keep [OF rel vstep_mono [OF v] _ _ D(5) [OF i(2)] n]) (use D(2,3) i in auto)
  with v show ?thesis unfolding matched_def by blast
next
  case False
  note D = sys_relD [OF rel] and nr = sys_relD(6) [OF rel i(2)]
  have x: "sg = GTXInvalid" "t = InvalidGTxTerm" "gtx' = gtx"
    using ac False by (auto simp: accept_phase2a_def precommitted_state_def)
  show ?thesis
    by (rule sent_matched [OF rel]) (use i node_relD(2) [OF nr] in \<open>auto simp: x msg2b_rel_def vote_reply_def\<close>)
qed

text \<open>A promise, and an entry that records it.\<close>

lemma promise_matched:
  assumes rel: "sys_rel cfg c g s a" and nd: "nd s i = Some gtx" "free c i s" and t: "proposal (gtx_state gtx) < t"
    and gtx': "gtx_state gtx' = (gtx_state gtx)\<lparr>proposal := t\<rparr>" "gid gtx' = gid gtx" "phase1_acks gtx' = phase1_acks gtx"
      "phase2_acks gtx' = phase2_acks gtx" "stage_rel (n_nodes cfg) i gtx'"
    and s': "nd s' = (nd s)(i := Some gtx')" "fin s' = fin s" "m2a s' = m2a s" "live s' = live s" "m2b s' = m2b s" "doomed s' = doomed s"
    and m1a: "\<And>u a'. u \<in> m1a s' \<Longrightarrow> promise a' i = Some t \<Longrightarrow> u \<in> m1a s \<or> past (term_node_id u) u a'"
    and m1b: "\<And>m a'. m \<in> m1b s' \<Longrightarrow> vmono a a' \<Longrightarrow> promise a' i = Some t \<Longrightarrow> votes a' = votes a \<Longrightarrow>
      m \<in> m1b s \<or> msg1b_rel cfg g m a'"
  shows "matched cfg c g a s'"
proof (rule matchedI)
  note D = sys_relD [OF rel] and nr = sys_relD(6) [OF rel nd(1)]
  let ?a = "a\<lparr>promise := (promise a)(i := Some t)\<rparr>"
  have v: "vstep (node_ids cfg) c a ?a"
    using vstep.promise [OF node_relD(3) [OF nr] less_imp_le [OF t]] D(1) D(5) [OF nd(1)] by auto
  then show "(vstep (node_ids cfg) c)\<^sup>*\<^sup>* a ?a" by blast
  assume mono: "vmono a ?a"
  have "accepted (gtx_state gtx) \<le> t" using node_relD(4) [OF nr] t by (auto simp: state_rel_def)
  then have "state_rel (gtx_state gtx') (votes ?a i)"
    using node_relD(4) [OF nr] gtx'(1) by (auto simp: state_rel_def)
  then have n: "node_rel cfg g i gtx' ?a"
    using node_relD [OF nr] gtx' acks1_rel_mono [OF mono less_imp_le [OF t]] acks2_rel_mono [OF mono]
    by (simp add: node_rel_def)
  show "sys_rel cfg c g s' ?a"
    by (rule sys_rel_keep [OF rel mono _ _ D(5) [OF nd(1)] n])
      (use D(2,3) s' nd(2) m1a [of _ ?a] m1b [OF _ mono] in \<open>auto simp: free_def\<close>)
qed

text \<open>A term of its own that a node has not promised yet has no votes.\<close>

lemma fresh_term_unvoted:
  assumes env: "vote_env cfg c g" and inv: "vinv (node_ids cfg) c a" and p: "promise a i = Some p" "p < t" "term_node_id t = i"
  shows "(t, v) \<notin> votes a k"
proof
  assume "(t, v) \<in> votes a k"
  then have "(t, v) \<in> proposals a" by (rule vinvD(5) [OF inv])
  then show False
  proof (rule proposal_cases [OF inv])
    assume "t = InitialGTxTerm"
    then show False using p(3) vinvD(1) [OF inv p(1)] vote_envD(1) [OF env] initial_term(3) by simp
  next
    fix Q assume "(t, v) \<in> votes a (term_node_id t)"
    then show False using p vinvD(3) [OF inv p(1)] by fastforce
  qed
qed

lemma stamp_matched:
  assumes env: "vote_env cfg c g" and rel: "sys_rel cfg c g s a" and inv: "vinv (node_ids cfg) c a"
    and nd: "nd s i = Some gtx" "free c i s" and t: "proposal (gtx_state gtx) < t" "term_node_id t = i"
  shows "matched cfg c g a (s\<lparr>nd := (nd s)(i := Some (snd (stamp_gtx t gtx))), m1a := insert t (m1a s)\<rparr>)"
proof -
  note D = sys_relD [OF rel] and nr = sys_relD(6) [OF rel nd(1)]
  have gtx': "snd (stamp_gtx t gtx) = gtx\<lparr>gtx_state := (gtx_state gtx)\<lparr>proposal := t\<rparr>, resolver_stage := GTRS_AwaitStatus\<rparr>"
    using node_relD(1) [OF nr] vote_envD(6) [OF env] by (simp add: stamp_gtx_def)
  have t0: "t \<noteq> InvalidGTxTerm"
    using t(2) node_relD(2) [OF nr] vote_envD(1) [OF env] by (auto simp: InvalidGTxTerm_def)
  have "others_for i t (phase2_acks gtx) = {}"
    using node_relD(6) [OF nr] t0 fresh_term_unvoted [OF env inv node_relD(3) [OF nr] t]
    by (auto simp: others_for_def acks2_rel_def vote_rel_def)
  then have "stage_rel (n_nodes cfg) i (snd (stamp_gtx t gtx))" by (simp add: gtx' stage_rel_def)
  then show ?thesis
    by (intro promise_matched [OF rel nd t(1)]) (use t in \<open>auto simp: gtx' past_def\<close>)
qed

lemma answer_matched:
  assumes env: "vote_env cfg c g" and rel: "sys_rel cfg c g s a" and inv: "vinv (node_ids cfg) c a"
    and t: "t \<in> m1a s" and nd: "nd s i = Some gtx" "free c i s" "term_node_id t \<noteq> i"
    and h: "handle_1a_gtx (request g t MTReq_Status) gtx (status_reply g i invalid_state) = (es, gtx', resp)"
  shows "matched cfg c g a (s\<lparr>nd := (nd s)(i := Some gtx'), m1b := insert (term_node_id t, resp) (m1b s)\<rparr>)"
proof (cases "proposal (gtx_state gtx) < t")
  case True
  note D = sys_relD [OF rel] and nr = sys_relD(6) [OF rel nd(1)]
  have x: "gtx' = gtx\<lparr>gtx_state := (gtx_state gtx)\<lparr>proposal := t\<rparr>\<rparr>" "resp = status_reply g i ((gtx_state gtx)\<lparr>proposal := t\<rparr>)"
    using h True by (auto simp: handle_1a_gtx_def request_def status_reply_def Let_def)
  have "msg1b_rel cfg g (term_node_id t, resp) a'"
    if "vmono a a'" "promise a' i = Some t" "votes a' = votes a" for a'
  proof -
    have "past (term_node_id t) t a'" using D(8) [OF t] vmonoD(1) [OF that(1)] by blast
    moreover have "accepted (gtx_state gtx) \<le> t" using node_relD(4) [OF nr] True by (auto simp: state_rel_def)
    moreover have "ack_rel i ((gtx_state gtx)\<lparr>proposal := t\<rparr>) a'"
      using calculation(2) node_relD(4) [OF nr] that(2,3) by (auto simp: ack_rel_def state_rel_def past_def)
    ultimately show ?thesis using nd(3) node_relD(2,4) [OF nr]
      by (auto simp: msg1b_rel_def x status_reply_def state_rel_def)
  qed
  then show ?thesis
    by (intro promise_matched [OF rel nd(1,2) True]) (use nd(3) in \<open>auto simp: x other_term_stage\<close>)
next
  case False
  note D = sys_relD [OF rel] and nr = sys_relD(6) [OF rel nd(1)]
  have x: "gtx' = gtx" "resp = status_reply g i invalid_state"
    using h False by (auto simp: handle_1a_gtx_def request_def)
  show ?thesis
    by (rule sent_matched [OF rel])
      (use nd node_relD(2) [OF nr] in \<open>auto simp: x msg1b_rel_def status_reply_def invalid_state_def\<close>)
qed

lemma accept_matched:
  assumes env: "vote_env cfg c g" and rel: "sys_rel cfg c g s a" and inv: "vinv (node_ids cfg) c a"
    and m: "(t, v) \<in> m2a s" and nd: "nd s i = Some gtx" "free c i s" "term_node_id t \<noteq> i"
    and ac: "accept_2a (request g t (if v then MTReq_Precommit else MTReq_Preabort)) gtx = Some (es, gtx')"
  shows "matched cfg c g a (s\<lparr>nd := (nd s)(i := Some gtx'),
      m2b := insert (term_node_id t, vote_reply g i (status (gtx_state gtx')) t) (m2b s)\<rparr>)"
proof (rule matchedI)
  note D = sys_relD [OF rel] and nr = sys_relD(6) [OF rel nd(1)]
  let ?a = "cast_vote i t v a"
  have le: "proposal (gtx_state gtx) \<le> t"
    and x: "gtx' = gtx\<lparr>gtx_state := \<lparr>proposal = t, accepted = t, status = (if v then GTXPreCommitted else GTXPreAborted)\<rparr>\<rparr>"
    using ac by (auto simp: accept_2a_def request_def Let_def split: if_splits)
  have v: "vstep (node_ids cfg) c a ?a"
    using vstep.vote [OF node_relD(3) [OF nr] le] m D(1,2) D(5) [OF nd(1)] by auto
  then show "(vstep (node_ids cfg) c)\<^sup>*\<^sup>* a ?a" by blast
  assume mono: "vmono a ?a"
  have n: "node_rel cfg g i gtx' ?a"
    using node_relD(1) [OF nr] nd(3)
    by (intro cast_vote_node [OF inv node_relD(3) [OF nr] le nr mono]) (auto simp: x intro: other_term_stage)
  have "msg2b_rel cfg g (term_node_id t, vote_reply g i (status (gtx_state gtx')) t) ?a"
    using nd(3) node_relD(2) [OF nr] by (auto simp: msg2b_rel_def vote_reply_def x)
  then show "sys_rel cfg c g (s\<lparr>nd := (nd s)(i := Some gtx'),
      m2b := insert (term_node_id t, vote_reply g i (status (gtx_state gtx')) t) (m2b s)\<rparr>) ?a"
    by (intro sys_rel_keep [OF rel mono _ _ D(5) [OF nd(1)] n]) (use D(2,3) nd in \<open>auto simp: free_def\<close>)
qed

lemma commit_matched:
  assumes env: "vote_env cfg c g" and rel: "sys_rel cfg c g s a"
    and nd: "live s" "nd s c = Some gtx" "accepted (gtx_state gtx) \<noteq> InvalidGTxTerm"
    and ms: "set ms \<subseteq> {r. (c, r) \<in> m2b s}" "distinct (map a2_node_id ms)"
    and q: "Quorum (n_nodes cfg) (1 + length (filter good_2b ms))"
  shows "matched cfg c g a ((put c (finish_gtx True gtx) s)\<lparr>live := False\<rparr>)"
proof -
  let ?g = "filter good_2b ms" and ?N = "node_ids cfg"
  have m: "a2_node_id r \<in> ?N" "a2_node_id r \<noteq> c" "(InitialGTxTerm, True) \<in> votes a (a2_node_id r)" if "r \<in> set ?g" for r
    using that ms(1) sys_relD(10) [OF rel, of "(c, r)"] by (auto simp: msg2b_rel_def good_2b_def)
  let ?Q = "insert c (a2_node_id ` set ?g)"
  have "card (a2_node_id ` set ?g) = length ?g"
    using ms(2) distinct_map_filter [of a2_node_id ms good_2b] distinct_card by fastforce
  moreover have "c \<notin> a2_node_id ` set ?g" using m(2) by blast
  ultimately have "card ?Q = 1 + length ?g" by simp
  moreover have "?Q \<subseteq> ?N" using m(1) vote_envD(8) [OF env] by blast
  ultimately have "majority ?N ?Q" using q vote_envD(3) [OF env] by (simp add: majority_def)
  moreover have "\<forall>i \<in> ?Q. (InitialGTxTerm, True) \<in> votes a i" using m(3) live_state(2) [OF rel nd] by blast
  ultimately have "chosen ?N True a" unfolding chosen_def by blast
  from finish_matched [OF rel nd(2)] this show ?thesis by (intro live_update_matched) blast
qed

section \<open>The resolver\<close>

lemma put_open:
  assumes "state_rel (gtx_state gtx) V"
  shows "put i gtx s = s\<lparr>nd := (nd s)(i := Some gtx)\<rparr>"
  using assms by (auto simp: put_def gtx_final_def state_rel_def)

lemma put_finish_eq: "put i (finish_gtx v gtx') s = put i (finish_gtx v gtx) s"
  by (simp add: put_def finish_gtx_def gtx_final_def)

text \<open>Another list of acks for the same vote.\<close>

lemma acks_matched:
  assumes rel: "sys_rel cfg c g s a" and nd: "nd s i = Some gtx" and nr: "node_rel cfg g i gtx' a"
    and same: "gtx_state gtx' = gtx_state gtx"
  shows "matched cfg c g a (put i gtx' s)"
proof (rule matchedI [OF rtranclp.rtrancl_refl])
  note D = sys_relD [OF rel]
  show "sys_rel cfg c g (put i gtx' s) a"
    by (rule sys_rel_keep [OF rel vmono_refl _ refl D(5) [OF nd] nr])
      (use D(2,3,7) nd same in \<open>auto simp: put_open [OF node_relD(4) [OF nr]]\<close>)
qed

lemma own_ack:
  assumes "node_rel cfg g i gtx a"
  shows "ack_rel i (gtx_state gtx) a"
  using node_relD(3,4) [OF assms] by (auto simp: ack_rel_def state_rel_def past_def)

lemma put_two:
  assumes "vote_env cfg c g" and "i \<in> node_ids cfg" and "k \<in> node_ids cfg" and "length acks = MTM_MAX_NODES"
  shows "sbind (put_ack (my_node_id (cfg_of cfg i)) x acks) (\<lambda>acks. sbind (put_ack k y acks) f) =
    f (acks[nat (i - 1) := x, nat (k - 1) := y])"
  using assms(4) vote_envD(5) [OF assms(1,2)] vote_envD(5) [OF assms(1,3)] by (simp add: put_ack_def cfg_of_def)

lemma nth_two:
  assumes "vote_env cfg c g" and "i \<in> node_ids cfg" and "k \<in> node_ids cfg" and "k \<noteq> i" and "length acks = MTM_MAX_NODES"
    and "j < MTM_MAX_NODES"
  shows "acks[nat (i - 1) := x, nat (k - 1) := y] ! j = (if int j + 1 = i then x else if int j + 1 = k then y else acks ! j)"
  using vote_envD(5) [OF assms(1,2)] vote_envD(5) [OF assms(1,3)] assms(4-6)
  by (auto simp: nth_list_update split: if_splits)

lemma acks1_stored:
  assumes env: "vote_env cfg c g" and nr: "node_rel cfg g i gtx a" and out: "outcome a i = None"
    and m: "msg1b_rel cfg g (i, r) a"
  shows "acks1_rel (node_ids cfg) (proposal (gtx_state gtx))
    ((phase1_acks gtx)[nat (i - 1) := gtx_state gtx, nat (sr_node_id r - 1) := sr_state r]) a"
proof -
  have len: "length (phase1_acks gtx) = MTM_MAX_NODES" using node_relD(5) [OF nr] by (simp add: acks1_rel_def)
  have r: "sr_node_id r \<in> node_ids cfg" "sr_node_id r \<noteq> i" using m by (simp_all add: msg1b_rel_def Let_def)
  have p: "proposal (sr_state r) \<le> proposal (gtx_state gtx) \<and> ack_rel (sr_node_id r) (sr_state r) a"
    if "proposal (sr_state r) \<noteq> InvalidGTxTerm"
    using m that out node_relD(3) [OF nr] by (auto simp: msg1b_rel_def Let_def past_def)
  show ?thesis
    unfolding acks1_rel_def
  proof (intro conjI allI impI)
    fix k assume k: "k < MTM_MAX_NODES"
    note n = nth_two [OF env node_relD(2) [OF nr] r len k]
    assume "proposal ((phase1_acks gtx)[nat (i - 1) := gtx_state gtx, nat (sr_node_id r - 1) := sr_state r] ! k) \<noteq> InvalidGTxTerm"
    then show "int k + 1 \<in> node_ids cfg"
      "proposal ((phase1_acks gtx)[nat (i - 1) := gtx_state gtx, nat (sr_node_id r - 1) := sr_state r] ! k) \<le> proposal (gtx_state gtx)"
      "ack_rel (int k + 1) ((phase1_acks gtx)[nat (i - 1) := gtx_state gtx, nat (sr_node_id r - 1) := sr_state r] ! k) a"
      using node_relD(2,5) [OF nr] own_ack [OF nr] p r(1) k unfolding n acks1_rel_def by (auto split: if_splits)
  qed (simp add: len)
qed

text \<open>The ackers of a term, as nodes.\<close>

definition ackers :: "GlobalTxTerm \<Rightarrow> GTxState list \<Rightarrow> int set" where
  "ackers t acks = (\<lambda>k. int k + 1) ` {k. k < length acks \<and> ack_term (acks ! k) t}"

lemma card_ackers: "card (ackers t acks) = length (filter (\<lambda>s. ack_term s t) acks)"
  unfolding ackers_def length_filter_conv_card by (rule card_image) (simp add: inj_on_def)

lemma quorum_ackers:
  assumes env: "vote_env cfg c g" and i: "i \<in> node_ids cfg" and own: "acks ! nat (i - 1) = st"
    and q: "quorum (cfg_of cfg i) acks" and sub: "ackers (proposal st) acks \<subseteq> node_ids cfg"
  shows "term_node_id (proposal st) = i" "majority (node_ids cfg) (ackers (proposal st) acks)"
  using q own sub vote_envD(3) [OF env] card_ackers [of "proposal st" acks]
  by (auto simp: quorum_def Let_def cfg_of_def MtmQuorum_def n_nodes_def majority_def)

lemma proposals_valid: "vinv N c a \<Longrightarrow> (t, v) \<in> proposals a \<Longrightarrow> InitialGTxTerm \<le> t"
  by (auto elim: proposal_cases)

text \<open>The vote with the highest term among the acks is a proposal, or nobody has voted.\<close>

lemma highest_vote:
  fixes acks st
  defines "m \<equiv> max_accepted acks (accepted st)"
  assumes inv: "vinv (node_ids cfg) c a" and acks: "acks1_rel (node_ids cfg) (proposal st) acks a"
    and own: "st \<in> set acks" "proposal st \<noteq> InvalidGTxTerm"
  shows "decree m acks GTXInvalid = Inr (if (m, True) \<in> proposals a then GTXPreCommitted else GTXPreAborted)"
    "m \<le> proposal st" "m = InvalidGTxTerm \<and> (m, True) \<notin> proposals a \<or> (m, (m, True) \<in> proposals a) \<in> proposals a"
proof -
  have ar: "\<exists>k. ack_rel k s a \<and> proposal s \<le> proposal st" if "s \<in> set acks" "proposal s \<noteq> InvalidGTxTerm" for s
    using that acks by (auto simp: acks1_rel_def in_set_conv_nth)
  obtain s0 where s0: "s0 \<in> set (decree_votes m acks)" "proposal s0 \<le> proposal st"
  proof (rule max_accepted_attained [of acks "accepted st"])
    assume "max_accepted acks (accepted st) = accepted st"
    then show ?thesis using own by (intro that [of st]) (auto simp: m_def decree_votes_def voters_def)
  next
    fix s assume "s \<in> set acks" "proposal s \<noteq> InvalidGTxTerm" "max_accepted acks (accepted st) = accepted s"
    then show ?thesis using ar by (intro that [of s]) (auto simp: m_def decree_votes_def voters_def)
  qed
  have vote: "m = InvalidGTxTerm \<and> status s = GTXInvalid \<or> (m, status s = GTXPreCommitted) \<in> proposals a"
    if s: "s \<in> set (decree_votes m acks)" for s
  proof -
    from s have "s \<in> set acks" "proposal s \<noteq> InvalidGTxTerm" and acc: "accepted s = m" by (auto simp: decree_votes_def voters_def)
    then obtain k where "ack_rel k s a" using ar by blast
    with acc show ?thesis using vinvD(5) [OF inv] by (auto simp: ack_rel_def)
  qed
  have inval: "(InvalidGTxTerm, v) \<notin> proposals a" for v
    using proposals_valid [OF inv, of InvalidGTxTerm v] initial_term(1) by auto
  have agree: "status s = GTXPreCommitted \<longleftrightarrow> (m, True) \<in> proposals a" if "s \<in> set (decree_votes m acks)" for s
    using vote [OF that] inval vinvD(6) [OF inv, of m True "status s = GTXPreCommitted"] by auto
  then have "decree m acks GTXInvalid = Inr (if decree_votes m acks = [] then GTXInvalid
      else if (m, True) \<in> proposals a then GTXPreCommitted else GTXPreAborted)"
    by (intro decree_agreed) auto
  moreover have "decree_votes m acks \<noteq> []" using s0(1) by auto
  ultimately show "decree m acks GTXInvalid = Inr (if (m, True) \<in> proposals a then GTXPreCommitted else GTXPreAborted)" by simp
  have "accepted s0 = m" "s0 \<in> set acks" "proposal s0 \<noteq> InvalidGTxTerm"
    using s0(1) by (auto simp: decree_votes_def voters_def)
  then show "m \<le> proposal st" using ar [of s0] s0(2) by (auto simp: ack_rel_def)
  show "m = InvalidGTxTerm \<and> (m, True) \<notin> proposals a \<or> (m, (m, True) \<in> proposals a) \<in> proposals a"
    using vote [OF s0(1)] agree [OF s0(1)] inval by auto
qed

text \<open>
  A majority of promises makes the resolver propose: either it has proposed the same before, or
  the proposal is justified.
\<close>

definition proposed :: "bool \<Rightarrow> GlobalTx \<Rightarrow> GlobalTx" where
  "proposed v gtx = gtx\<lparr>gtx_state := \<lparr>proposal = proposal (gtx_state gtx), accepted = proposal (gtx_state gtx),
     status = (if v then GTXPreCommitted else GTXPreAborted)\<rparr>, resolver_stage := GTRS_AwaitAcks\<rparr>"

lemma propose_decree_eq:
  assumes "decree (max_accepted (phase1_acks gtx) (accepted (gtx_state gtx))) (phase1_acks gtx) GTXInvalid =
      Inr (if v then GTXPreCommitted else GTXPreAborted)"
  shows "\<exists>es req. propose_decree gtx = Inr (es, proposed v gtx, req) \<and> request_value req = {(proposal (gtx_state gtx), v)}"
proof -
  have "propose_decree gtx = Inr ([set_state gtx (gtx_state (proposed v gtx))], proposed v gtx,
      Some (request_2a (proposed v gtx) (if v then GTXPreCommitted else GTXPreAborted)))"
    unfolding propose_decree_def assms by (simp add: proposed_def Let_def)
  moreover have "request_value (Some (request_2a (proposed v gtx) (if v then GTXPreCommitted else GTXPreAborted))) =
      {(proposal (gtx_state gtx), v)}"
    by (simp add: request_value_def request_2a_def proposed_def)
  ultimately show ?thesis by blast
qed

lemma justified_by_acks:
  assumes inv: "vinv (node_ids cfg) c a" and acks: "acks1_rel (node_ids cfg) t acks a"
    and q: "majority (node_ids cfg) (ackers t acks)"
    and m: "m = max_accepted acks t0" "m = InvalidGTxTerm \<and> \<not> v \<or> m < t \<and> (m, v) \<in> proposals a"
  shows "justified (node_ids cfg) t v a"
  unfolding justified_def
proof (intro exI conjI ballI)
  have ack: "\<exists>st \<in> set acks. proposal st = t \<and> proposal st \<noteq> InvalidGTxTerm \<and> ack_rel i st a" if "i \<in> ackers t acks" for i
    using that acks by (auto simp: ackers_def ack_term_def acks1_rel_def)
  show "past i t a" if "i \<in> ackers t acks" for i using ack [OF that] by (auto simp: ack_rel_def)
  show "case x of (t', v') \<Rightarrow> t' < t \<longrightarrow> t' \<le> m" if i: "i \<in> ackers t acks" and x: "x \<in> votes a i" for i x
  proof -
    from ack [OF i] obtain st where st: "st \<in> set acks" "proposal st \<noteq> InvalidGTxTerm" "proposal st = t" "ack_rel i st a" by blast
    have "accepted st \<le> m" unfolding m(1) by (rule max_accepted_upper [OF st(1,2)])
    with st(3,4) x show ?thesis by (fastforce simp: ack_rel_def)
  qed
qed (use q m in auto)

lemma propose_matched:
  assumes env: "vote_env cfg c g" and rel: "sys_rel cfg c g s a" and inv: "vinv (node_ids cfg) c a"
    and nd: "nd s i = Some gtx0" "free c i s" "gtx_state gtx = gtx_state gtx0" and nr: "node_rel cfg g i gtx a"
    and st: "resolver_stage gtx = GTRS_AwaitStatus" "phase1_acks gtx ! nat (i - 1) = gtx_state gtx"
    and q: "quorum (cfg_of cfg i) (phase1_acks gtx)"
  shows "\<exists>es gtx' req. propose_decree gtx = Inr (es, gtx', req) \<and>
    matched cfg c g a ((put i gtx' s)\<lparr>m2a := request_value req \<union> m2a s\<rparr>)"
proof -
  note D = sys_relD [OF rel]
  let ?st = "gtx_state gtx" and ?acks = "phase1_acks gtx" and ?N = "node_ids cfg"
  let ?t = "proposal ?st" and ?m = "max_accepted ?acks (accepted ?st)"
  let ?v = "(?m, True) \<in> proposals a"
  define gtx' where "gtx' = proposed ?v gtx"
  have a1: "acks1_rel ?N ?t ?acks a" by (rule node_relD(5) [OF nr])
  have "nat (i - 1) < length ?acks" using vote_envD(5) [OF env node_relD(2) [OF nr]] a1 by (auto simp: acks1_rel_def)
  then have own: "?st \<in> set ?acks" using st(2) nth_mem by metis
  have t0: "InitialGTxTerm \<le> ?t" by (rule vinvD(2) [OF inv node_relD(3) [OF nr]])
  then have tv: "?t \<noteq> InvalidGTxTerm" using initial_term(1) by auto
  have sub: "ackers ?t ?acks \<subseteq> ?N" using a1 by (auto simp: ackers_def acks1_rel_def ack_term_def)
  note Q = quorum_ackers [OF env node_relD(2) [OF nr] st(2) q sub] and H = highest_vote [OF inv a1 own tv]
  obtain es req where p: "propose_decree gtx = Inr (es, gtx', req)" and rv: "request_value req = {(?t, ?v)}"
    using propose_decree_eq [OF H(1)] unfolding gtx'_def by blast
  have oth: "others_for i ?t (phase2_acks gtx) = {}" and n1: "\<not> Quorum (n_nodes cfg) 1"
    using node_relD(7) [OF nr] Q(1) st(1) vote_envD(4) [OF env] by (auto simp: stage_rel_def)
  then have stage: "stage_rel (n_nodes cfg) i gtx'" by (simp add: stage_rel_def gtx'_def proposed_def)
  have "\<forall>(t', v') \<in> votes a i. t' \<le> ?t" using vinvD(3) [OF inv node_relD(3) [OF nr]] by auto
  from voted_state_rel [OF this less_le_trans [OF initial_term(1) t0], of ?v]
  have sr: "state_rel (gtx_state gtx') (insert (?t, ?v) (votes a i))" by (simp add: gtx'_def proposed_def)
  have ti: "?t \<noteq> InitialGTxTerm" using Q(1) node_relD(2) [OF nr] vote_envD(1) [OF env] initial_term(3) by auto
  have "matched cfg c g a ((put i gtx' s)\<lparr>m2a := request_value req \<union> m2a s\<rparr>)"
  proof (cases "?m = ?t")
    case True
    have tp: "(?t, ?v) \<in> proposals a" using H(3) True tv by auto
    then have own_v: "(?t, ?v) \<in> votes a i"
      using Q(1) ti by (auto elim: proposal_cases [OF inv])
    then have "accepted ?st = ?t" using node_relD(4) [OF nr] by (fastforce simp: state_rel_def)
    moreover have "status ?st = (if ?v then GTXPreCommitted else GTXPreAborted)"
      using node_relD(4) [OF nr] calculation tv tp vinvD(5) [OF inv] vinvD(6) [OF inv tp, of "status ?st = GTXPreCommitted"]
      by (auto simp: state_rel_def)
    ultimately have same: "gtx_state gtx' = gtx_state gtx" by (simp add: gtx'_def proposed_def)
    then have "node_rel cfg g i gtx' a" using nr stage by (simp add: node_rel_def gtx'_def proposed_def)
    from acks_matched [OF rel nd(1) this] same nd(3) have "matched cfg c g a (put i gtx' s)" by simp
    moreover have "(put i gtx' s)\<lparr>m2a := request_value req \<union> m2a s\<rparr> = put i gtx' s"
      using tp D(2) rv by (simp add: put_def insert_absorb)
    ultimately show ?thesis by simp
  next
    case False
    then have lt: "?m < ?t" using H(2) by simp
    let ?b = "a\<lparr>proposals := insert (?t, ?v) (proposals a)\<rparr>"
    let ?a = "cast_vote i ?t ?v ?b"
    have "(?t, v') \<notin> votes a i" for v'
      using node_relD(4) [OF nr] lt max_accepted_base [of "accepted ?st" ?acks] by (fastforce simp: state_rel_def)
    moreover have "justified ?N ?t ?v a"
      by (rule justified_by_acks [OF inv a1 Q(2) refl]) (use H(3) lt in auto)
    moreover have "outcome a i = None" using D(1) D(5) [OF nd(1)] by simp
    ultimately have v: "vstep ?N c a ?a"
      using node_relD(3) [OF nr] Q(1) by (intro vstep.propose)
    have n: "node_rel cfg g i gtx' ?a"
      using node_relD(1) [OF nr] stage
      by (intro cast_vote_node [OF inv node_relD(3) [OF nr] order_refl nr vstep_mono [OF v]]) (auto simp: gtx'_def proposed_def)
    have "sys_rel cfg c g ((put i gtx' s)\<lparr>m2a := request_value req \<union> m2a s\<rparr>) ?a"
      by (rule sys_rel_keep [OF rel vstep_mono [OF v] _ _ D(5) [OF nd(1)] n])
        (use D(2,3,12) nd ti in \<open>auto simp: put_open [OF sr] rv free_def\<close>)
    with v show ?thesis unfolding matched_def by blast
  qed
  with p show ?thesis by blast
qed

lemma status_response_matched:
  assumes env: "vote_env cfg c g" and rel: "sys_rel cfg c g s a" and inv: "vinv (node_ids cfg) c a"
    and nd: "nd s i = Some gtx" "free c i s" and m: "(i, r) \<in> m1b s"
  shows "\<exists>es gtx' req. respond (cfg_of cfg i) (T_MtmTxStatusResponse r) gtx = Inr (es, gtx', req) \<and>
    matched cfg c g a ((put i gtx' s)\<lparr>m2a := request_value req \<union> m2a s\<rparr>)"
proof -
  note D = sys_relD [OF rel] and nr = sys_relD(6) [OF rel nd(1)] and mr = sys_relD(9) [OF rel m]
  have none: "(put i gtx' s)\<lparr>m2a := request_value None \<union> m2a s\<rparr> = put i gtx' s" for gtx'
    by (simp add: request_value_def put_def)
  show ?thesis
  proof (cases "resolver_stage gtx")
    case GTRS_AwaitAcks
    have "respond (cfg_of cfg i) (T_MtmTxStatusResponse r) gtx = Inr ([], gtx, None)"
      by (simp add: respond_def GTRS_AwaitAcks)
    with acks_matched [OF rel nd(1) nr refl] none show ?thesis by metis
  next
    case GTRS_AwaitStatus
    define acks where "acks = (phase1_acks gtx)[nat (i - 1) := gtx_state gtx, nat (sr_node_id r - 1) := sr_state r]"
    let ?gtx = "gtx\<lparr>phase1_acks := acks\<rparr>"
    have r: "sr_node_id r \<in> node_ids cfg" "sr_node_id r \<noteq> i" using mr by (simp_all add: msg1b_rel_def Let_def)
    have len: "length (phase1_acks gtx) = MTM_MAX_NODES" using node_relD(5) [OF nr] by (simp add: acks1_rel_def)
    have "outcome a i = None" using D(1) D(5) [OF nd(1)] by simp
    from acks1_stored [OF env nr this mr] have "acks1_rel (node_ids cfg) (proposal (gtx_state gtx)) acks a"
      unfolding acks_def .
    then have nr': "node_rel cfg g i ?gtx a" using nr by (simp add: node_rel_def stage_rel_def Let_def GTRS_AwaitStatus)
    have own: "acks ! nat (i - 1) = gtx_state gtx"
      using nth_two [OF env node_relD(2) [OF nr] r len, of "nat (i - 1)"] vote_envD(5) [OF env node_relD(2) [OF nr]]
      by (auto simp: acks_def)
    have eq: "respond (cfg_of cfg i) (T_MtmTxStatusResponse r) gtx = status_decide (cfg_of cfg i) (sr_state r) ?gtx"
      using put_two [OF env node_relD(2) [OF nr] r(1) len]
      by (simp add: respond_def GTRS_AwaitStatus status_response_def acks_def)
    consider v where "status (sr_state r) = (if v then GTXCommitted else GTXAborted)"
      | "status (sr_state r) \<notin> {GTXCommitted, GTXAborted}" "quorum (cfg_of cfg i) acks"
      | "status (sr_state r) \<notin> {GTXCommitted, GTXAborted}" "\<not> quorum (cfg_of cfg i) acks"
      by (metis insert_iff singletonD)
    then show ?thesis
    proof cases
      case (1 v)
      then have "status_decide (cfg_of cfg i) (sr_state r) ?gtx = Inr ([Finish g v], finish_gtx v ?gtx, None)"
        using node_relD(1) [OF nr] by (cases v) (simp_all add: status_decide_def)
      moreover have "outcome a (sr_node_id r) = Some v" using 1 mr by (cases v) (simp_all add: msg1b_rel_def Let_def)
      ultimately show ?thesis
        using finish_matched [OF rel nd(1), of v] put_finish_eq [of i v ?gtx s gtx] none [of "finish_gtx v ?gtx"] eq by metis
    next
      case 2
      have "status_decide (cfg_of cfg i) (sr_state r) ?gtx = propose_decree ?gtx"
        using 2 node_relD(1) [OF nr] vote_envD(6) [OF env] by (simp add: status_decide_def)
      moreover have "resolver_stage ?gtx = GTRS_AwaitStatus" "phase1_acks ?gtx ! nat (i - 1) = gtx_state ?gtx"
        "quorum (cfg_of cfg i) (phase1_acks ?gtx)" "gtx_state ?gtx = gtx_state gtx"
        using own 2 GTRS_AwaitStatus by simp_all
      ultimately show ?thesis using propose_matched [OF env rel inv nd(1,2) _ nr'] eq by metis
    next
      case 3
      then have "status_decide (cfg_of cfg i) (sr_state r) ?gtx = Inr ([], ?gtx, None)"
        by (simp add: status_decide_def)
      with acks_matched [OF rel nd(1) nr'] none [of ?gtx] eq show ?thesis by fastforce
    qed
  qed
qed

text \<open>The answers to a proposal.\<close>

lemma acks2_stored:
  assumes env: "vote_env cfg c g" and i: "i \<in> node_ids cfg" and acks: "acks2_rel (node_ids cfg) i acks a"
    and m: "msg2b_rel cfg g (i, r) a" "a2_status r \<in> {GTXPreCommitted, GTXPreAborted}"
  shows "acks2_rel (node_ids cfg) i (acks[nat (i - 1) := st, nat (a2_node_id r - 1) :=
      \<lparr>proposal = a2_accepted_term r, accepted = a2_accepted_term r, status = a2_status r\<rparr>]) a"
proof -
  have len: "length acks = MTM_MAX_NODES" using acks by (simp add: acks2_rel_def)
  have r: "a2_node_id r \<in> node_ids cfg" "a2_node_id r \<noteq> i" "(a2_accepted_term r, a2_status r = GTXPreCommitted) \<in> votes a (a2_node_id r)"
    using m by (auto simp: msg2b_rel_def Let_def)
  show ?thesis
    using acks m(2) r len nth_two [OF env i r(1,2) len] by (simp add: acks2_rel_def vote_rel_def)
qed

text \<open>The votes the code counts are those of the others and its own.\<close>

lemma ackers_others:
  assumes "vote_env cfg c g" and "i \<in> node_ids cfg" and "length acks = MTM_MAX_NODES"
    and "acks ! nat (i - 1) = st" and "proposal st \<noteq> InvalidGTxTerm"
  shows "ackers (proposal st) acks = insert i ((\<lambda>k. int k + 1) ` others_for i (proposal st) acks)"
    "card (ackers (proposal st) acks) = 1 + card (others_for i (proposal st) acks)"
proof -
  note i = vote_envD(5) [OF assms(1,2)]
  show eq: "ackers (proposal st) acks = insert i ((\<lambda>k. int k + 1) ` others_for i (proposal st) acks)"
  proof (intro equalityI subsetI)
    fix x assume "x \<in> ackers (proposal st) acks"
    then show "x \<in> insert i ((\<lambda>k. int k + 1) ` others_for i (proposal st) acks)"
      using assms(3) by (auto simp: ackers_def ack_term_def others_for_def)
  next
    fix x assume x: "x \<in> insert i ((\<lambda>k. int k + 1) ` others_for i (proposal st) acks)"
    have "i \<in> ackers (proposal st) acks"
      using i assms(3-5) by (auto simp: ackers_def ack_term_def intro!: image_eqI [of _ _ "nat (i - 1)"])
    with x assms(3,5) show "x \<in> ackers (proposal st) acks" by (auto simp: ackers_def ack_term_def others_for_def)
  qed
  have "i \<notin> (\<lambda>k. int k + 1) ` others_for i (proposal st) acks" by (auto simp: others_for_def)
  moreover have "card ((\<lambda>k. int k + 1) ` others_for i (proposal st) acks) = card (others_for i (proposal st) acks)"
    by (rule card_image) (simp add: inj_on_def)
  moreover have "finite (others_for i (proposal st) acks)" by (simp add: others_for_def)
  ultimately show "card (ackers (proposal st) acks) = 1 + card (others_for i (proposal st) acks)"
    unfolding eq by simp
qed

lemma twoa_response_matched:
  assumes env: "vote_env cfg c g" and rel: "sys_rel cfg c g s a" and inv: "vinv (node_ids cfg) c a"
    and nd: "nd s i = Some gtx" and m: "(i, r) \<in> m2b s"
  shows "\<exists>es gtx' req. respond (cfg_of cfg i) (T_Mtm2AResponse r) gtx = Inr (es, gtx', req) \<and>
    matched cfg c g a (put i gtx' s)"
proof -
  note D = sys_relD [OF rel] and nr = sys_relD(6) [OF rel nd(1)] and mr = sys_relD(10) [OF rel m]
  have i: "i \<in> node_ids cfg" by (rule node_relD(2) [OF nr])
  have gid: "a2_gid r \<noteq> []" "\<not> IS_EXPLICIT_2PC_GID (gid gtx)"
    using mr vote_envD(6,7) [OF env] node_relD(1) [OF nr] by (auto simp: msg2b_rel_def Let_def)
  show ?thesis
  proof (cases "resolver_stage gtx = GTRS_AwaitStatus \<or> a2_status r \<notin> {GTXPreCommitted, GTXPreAborted}")
    case True
    then have "respond (cfg_of cfg i) (T_Mtm2AResponse r) gtx = Inr ([], gtx, None)"
      using gid by (cases "resolver_stage gtx") (auto simp: respond_def twoa_response_def)
    with acks_matched [OF rel nd(1) nr refl] show ?thesis by blast
  next
    case False
    then have stage: "resolver_stage gtx = GTRS_AwaitAcks" and sg: "a2_status r \<in> {GTXPreCommitted, GTXPreAborted}"
      by (cases "resolver_stage gtx"; auto)+
    let ?st = "gtx_state gtx"
    define acks where "acks = (phase2_acks gtx)[nat (i - 1) := ?st, nat (a2_node_id r - 1) :=
      \<lparr>proposal = a2_accepted_term r, accepted = a2_accepted_term r, status = a2_status r\<rparr>]"
    let ?gtx = "gtx\<lparr>phase2_acks := acks\<rparr>" and ?T = "proposal ?st" and ?N = "node_ids cfg"
    have r: "a2_node_id r \<in> ?N" "a2_node_id r \<noteq> i" "(a2_accepted_term r, a2_status r = GTXPreCommitted) \<in> votes a (a2_node_id r)"
      using mr sg by (auto simp: msg2b_rel_def Let_def)
    have len: "length (phase2_acks gtx) = MTM_MAX_NODES" "length acks = MTM_MAX_NODES"
      using node_relD(6) [OF nr] by (simp_all add: acks2_rel_def acks_def)
    have eq: "respond (cfg_of cfg i) (T_Mtm2AResponse r) gtx = twoa_decide (cfg_of cfg i) r ?gtx"
      using put_two [OF env i r(1) len(1)] gid sg by (auto simp: respond_def stage twoa_response_def acks_def)
    have a2: "acks2_rel ?N i acks a" unfolding acks_def by (rule acks2_stored [OF env i node_relD(6) [OF nr] mr sg])
    have nth: "acks ! j = (if int j + 1 = i then ?st else if int j + 1 = a2_node_id r
        then \<lparr>proposal = a2_accepted_term r, accepted = a2_accepted_term r, status = a2_status r\<rparr> else phase2_acks gtx ! j)"
      if "j < MTM_MAX_NODES" for j
      unfolding acks_def by (rule nth_two [OF env i r(1,2) len(1) that])
    have own: "acks ! nat (i - 1) = ?st" using nth [of "nat (i - 1)"] vote_envD(5) [OF env i] by (auto simp: acks_def)
    have T0: "InitialGTxTerm \<le> ?T" by (rule vinvD(2) [OF inv node_relD(3) [OF nr]])
    then have T1: "?T \<noteq> InvalidGTxTerm" using initial_term(1) by auto
    note ack = ackers_others [OF env i len(2) own T1]
    have sub: "ackers ?T acks \<subseteq> ?N" using a2 i T1 unfolding ack by (auto simp: acks2_rel_def others_for_def)
    show ?thesis
    proof (cases "quorum (cfg_of cfg i) acks")
      case True
      note q = quorum_ackers [OF env i own True sub]
      have acc: "accepted ?st = ?T" and nq: "\<not> Quorum (n_nodes cfg) (1 + card (others_for i ?T (phase2_acks gtx)))"
        using node_relD(7) [OF nr] q(1) stage by (simp_all add: stage_rel_def Let_def)
      let ?v = "status ?st = GTXPreCommitted"
      have own_v: "(?T, ?v) \<in> votes a i" "status ?st \<in> {GTXPreCommitted, GTXPreAborted}"
        using node_relD(4) [OF nr] acc T1 by (auto simp: state_rel_def)
      have same: "w = ?v" if "(?T, w) \<in> votes a k" for w k
        using vinvD(6) [OF inv vinvD(5) [OF inv that] vinvD(5) [OF inv own_v(1)]] .
      have "(?T, ?v) \<in> votes a k" if "k \<in> ackers ?T acks" for k
        using that unfolding ack(1)
      proof (elim insertE imageE)
        fix j assume j: "k = int j + 1" "j \<in> others_for i ?T acks"
        then have x: "(?T, status (acks ! j) = GTXPreCommitted) \<in> votes a k"
          using a2 T1 by (auto simp: acks2_rel_def others_for_def vote_rel_def)
        show ?thesis by (rule x [unfolded same [OF x]])
      qed (simp add: own_v(1))
      with q(2) have ch: "chosen ?N ?v a" unfolding chosen_def by blast
      have T: "a2_accepted_term r = ?T"
      proof (rule ccontr)
        assume "a2_accepted_term r \<noteq> ?T"
        then have "others_for i ?T acks \<subseteq> others_for i ?T (phase2_acks gtx)"
          using nth by (auto simp: others_for_def split: if_splits)
        then have "card (others_for i ?T acks) \<le> card (others_for i ?T (phase2_acks gtx))"
          by (intro card_mono) (simp_all add: others_for_def)
        with nq ack(2) q(2) vote_envD(3) [OF env] show False by (simp add: majority_def Quorum_def)
      qed
      have "(a2_status r = GTXPreCommitted) = ?v" by (rule same) (rule r(3) [unfolded T])
      with own_v(2) sg have st: "status ?st = a2_status r" by auto
      then have "twoa_decide (cfg_of cfg i) r ?gtx =
          Inr ([Finish (a2_gid r) ?v], finish_gtx ?v ?gtx, Some (request_finish (a2_gid r) ?v))"
        using True by (simp add: twoa_decide_def Let_def)
      with finish_matched [OF rel nd(1), of ?v] ch put_finish_eq [of i ?v ?gtx s gtx] eq show ?thesis by metis
    next
      case False
      have "\<not> Quorum (n_nodes cfg) (1 + card (others_for i ?T acks))" if "term_node_id ?T = i"
        using False that own card_ackers [of ?T acks] ack(2) vote_envD(3) [OF env]
        by (simp add: quorum_def Let_def cfg_of_def MtmQuorum_def n_nodes_def)
      then have "node_rel cfg g i ?gtx a"
        using nr a2 stage by (auto simp: node_rel_def stage_rel_def Let_def)
      moreover have "twoa_decide (cfg_of cfg i) r ?gtx = Inr ([], ?gtx, None)" using False by (simp add: twoa_decide_def)
      ultimately show ?thesis using acks_matched [OF rel nd(1)] eq by fastforce
    qed
  qed
qed

lemma restart_matched:
  assumes env: "vote_env cfg c g" and rel: "sys_rel cfg c g s a" and inv: "vinv (node_ids cfg) c a" and nd: "nd s i = Some gtx"
  shows "matched cfg c g a (s\<lparr>nd := (nd s)(i := Some (loaded_gtx garbage g (xinfo gtx) (gtx_state gtx))),
      live := (if i = c then False else live s), doomed := (if i = c then False else doomed s)\<rparr>)"
    (is "matched cfg c g a ?s'")
proof (rule matchedI)
  note D = sys_relD [OF rel] and nr = sys_relD(6) [OF rel nd]
  let ?a = "if i = c then a\<lparr>coord_live := False\<rparr> else a"
  have v: "(vstep (node_ids cfg) c)\<^sup>*\<^sup>* a ?a" using vstep.leave by auto
  then show "(vstep (node_ids cfg) c)\<^sup>*\<^sup>* a ?a" .
  have "proposal (gtx_state gtx) \<noteq> InvalidGTxTerm"
    using vinvD(2) [OF inv node_relD(3) [OF nr]] initial_term(1) by auto
  then have "stage_rel (n_nodes cfg) i (loaded_gtx garbage g (xinfo gtx) (gtx_state gtx))"
    using zero_acks_rel(3) by (auto simp: stage_rel_def loaded_gtx_def Let_def)
  then have n: "node_rel cfg g i (loaded_gtx garbage g (xinfo gtx) (gtx_state gtx)) ?a"
    using nr zero_acks_rel by (auto simp: node_rel_def loaded_gtx_def)
  show "sys_rel cfg c g ?s' ?a"
    by (rule sys_rel_keep [OF rel vsteps_mono [OF v] _ _ D(5) [OF nd] n])
      (use D(2,3) in \<open>auto simp: loaded_gtx_def split: if_splits\<close>)
qed

section \<open>The vote implements its specification\<close>

lemma simulation:
  assumes env: "vote_env cfg c g" and rel: "sys_rel cfg c g s a" and inv: "vinv (node_ids cfg) c a"
    and step: "sstep cfg c g s s'"
  shows "matched cfg c g a s'"
  using step
proof cases
  case (s_prepare i garbage b)
  then show ?thesis using prepare_matched [OF env rel inv] by simp
next
  case (s_precommit gtx)
  then show ?thesis using precommit_matched [OF env rel inv] by simp
next
  case (s_commit gtx ms)
  then show ?thesis using commit_matched [OF env rel] by simp
next
  case (s_rollback gtx)
  then show ?thesis using abort_matched [OF rel s_rollback(3)] live_state(1) [OF rel s_rollback(2-4)] by simp
next
  case s_leave
  have "matched cfg c g a s" unfolding matched_def using rel by blast
  then show ?thesis using s_leave live_update_matched by simp
next
  case (s_phase2a i gtx sg t gtx' voted)
  then show ?thesis using phase2a_matched [OF env rel inv] by simp
next
  case (s_stamp i gtx t)
  then show ?thesis using stamp_matched [OF env rel inv] by simp
next
  case (s_1a t i gtx es gtx' resp)
  then show ?thesis using answer_matched [OF env rel inv] by simp
next
  case (s_1a_done i v d)
  have o: "outcome a i = Some v" using s_1a_done sys_relD(1) [OF rel] by simp
  then have "i \<in> node_ids cfg" using vinvD(1,4) [OF inv, of i] by (cases "promise a i") auto
  with o show ?thesis unfolding s_1a_done(1)
    by (intro sent_matched [OF rel]) (use s_1a_done in \<open>auto simp: msg1b_rel_def Let_def status_reply_def invalid_state_def split: if_splits\<close>)
next
  case (s_1a_unknown i d)
  then show ?thesis unfolding s_1a_unknown(1)
    by (intro sent_matched [OF rel]) (auto simp: msg1b_rel_def Let_def status_reply_def invalid_state_def)
next
  case (s_2a t v i gtx es gtx')
  then show ?thesis using accept_matched [OF env rel inv] by simp
next
  case (s_2a_refused i d)
  then show ?thesis unfolding s_2a_refused(1)
    by (intro sent_matched [OF rel]) (auto simp: msg2b_rel_def Let_def vote_reply_def)
next
  case (s_1b i gtx r es gtx' req)
  then show ?thesis using status_response_matched [OF env rel inv s_1b(2-4)] by auto
next
  case (s_2b i gtx r es gtx' req)
  then show ?thesis using twoa_response_matched [OF env rel inv s_2b(2,4)] by auto
next
  case (s_learn i gtx j v)
  then show ?thesis using finish_matched [OF rel, of i gtx v j] sys_relD(1) [OF rel] by simp
next
  case (s_collect gtx)
  have "votes a c = {}" using s_collect node_relD(4) [OF sys_relD(6) [OF rel s_collect(2)]]
    by (auto simp: own_unvoted_def state_rel_def)
  then have "(InitialGTxTerm, True) \<notin> proposals a" using vinvD(8) [OF inv] by blast
  then show ?thesis unfolding s_collect(1) by (intro sent_matched [OF rel]) (use s_collect in auto)
next
  case (s_abort gtx)
  have "(InitialGTxTerm, True) \<notin> votes a c" using sys_relD(12) [OF rel s_abort(2)] vinvD(5) [OF inv] by blast
  from abort_matched [OF rel s_abort(3) this] have "matched cfg c g a ((put c (finish_gtx False gtx) s)\<lparr>live := False\<rparr>)" .
  moreover have "(put c (finish_gtx False gtx) s)\<lparr>live := False\<rparr> = put c (finish_gtx False gtx) s"
    using sys_relD(11) [OF rel s_abort(2)] by (simp add: put_def)
  ultimately show ?thesis using s_abort(1) by simp
next
  case (s_restart i gtx garbage)
  then show ?thesis using restart_matched [OF env rel inv] by simp
qed

interpretation vote: forward_simulation
  "vstep (node_ids cfg) c" "\<lambda>a. vote_env cfg c g \<and> vinv (node_ids cfg) c a" "sstep cfg c g" "sys_rel cfg c g" for cfg c g
proof
  show "vote_env cfg c g \<and> vinv (node_ids cfg) c a \<Longrightarrow> vstep (node_ids cfg) c a a' \<Longrightarrow>
      vote_env cfg c g \<and> vinv (node_ids cfg) c a'" for a a'
    using vinv_step vote_envD(1) by blast
  show "sys_rel cfg c g s a \<Longrightarrow> vote_env cfg c g \<and> vinv (node_ids cfg) c a \<Longrightarrow> sstep cfg c g s s' \<Longrightarrow>
      \<exists>a'. (vstep (node_ids cfg) c)\<^sup>*\<^sup>* a a' \<and> sys_rel cfg c g s' a'" for s a s'
    using simulation unfolding matched_def by blast
qed

lemma sys_rel_init: "sys_rel cfg c g sinit vinit"
  by (simp add: sys_rel_def sinit_def vinit_def)

lemma run_matched:
  assumes "vote_env cfg c g" and "(sstep cfg c g)\<^sup>*\<^sup>* sinit s"
  obtains a where "(vstep (node_ids cfg) c)\<^sup>*\<^sup>* vinit a" "sys_rel cfg c g s a" "vinv (node_ids cfg) c a"
  using vote.implements [OF assms(2) sys_rel_init] assms(1) vinv_init by blast


abbreviation sample_gid :: string where "sample_gid \<equiv> ''MTM-1-1''"

lemma sample_env: "vote_env (sample_cfg [1, 2, 3]) 1 sample_gid"
  by code_simp

lemma sample_ids: "node_ids (sample_cfg [1, 2, 3]) = {1, 2, 3}"
  by code_simp

text \<open>A run in which the coordinator commits with the vote of a second node, which then learns it.\<close>

lemma sample_commit_run:
  "\<exists>s. (sstep (sample_cfg [1, 2, 3]) 1 sample_gid)\<^sup>*\<^sup>* sinit s \<and> fin s 1 = Some True \<and> fin s 2 = Some True"
proof -
  let ?step = "sstep (sample_cfg [1, 2, 3]) 1 sample_gid"
  let ?new = "(new_gtx zero_gtx sample_gid 4)\<lparr>prepared := True\<rparr>"
  let ?pre = "?new\<lparr>gtx_state := precommitted_state\<rparr>"
  let ?r = "vote_reply sample_gid 2 GTXPreCommitted InitialGTxTerm"
  define s1 where "s1 = sinit\<lparr>nd := (nd sinit)(1 := Some ?new)\<rparr>"
  define s2 where "s2 = s1\<lparr>nd := (nd s1)(2 := Some ?new)\<rparr>"
  define s3 where "s3 = s2\<lparr>nd := (nd s2)(1 := Some ?pre), m2a := insert (InitialGTxTerm, True) (m2a s2)\<rparr>"
  define s4 where "s4 = s3\<lparr>nd := (nd s3)(2 := Some ?pre), m2b := insert (1, ?r) (m2b s3)\<rparr>"
  define s5 where "s5 = (put 1 (finish_gtx True ?pre) s4)\<lparr>live := False\<rparr>"
  define s6 where "s6 = put 2 (finish_gtx True ?pre) s5"
  have "?step sinit s1" unfolding s1_def by (rule s_prepare) (auto simp: sample_ids sinit_def)
  moreover have "?step s1 s2" unfolding s2_def by (rule s_prepare) (auto simp: sample_ids sinit_def s1_def)
  moreover have "?step s2 s3" unfolding s3_def
    by (rule s_precommit) (auto simp: sinit_def s1_def s2_def new_gtx_def)
  moreover have "?step s3 s4" unfolding s4_def
    by (rule s_phase2a [of _ _ _ ?new _ _ _ True])
      (auto simp: s3_def s2_def accept_phase2a_def precommitted_state_def new_gtx_def)
  moreover have "?step s4 s5" unfolding s5_def
    by (rule s_commit [where ms = "[?r]"])
      (auto simp: s4_def s3_def s2_def s1_def sinit_def precommitted_state_def initial_term(2) [symmetric] good_2b_def
        vote_reply_def sample_cfg_def n_nodes_def Quorum_def)
  moreover have "fin s5 1 = Some True" "nd s5 2 = Some ?pre"
    by (auto simp: s5_def put_finish s4_def)
  moreover have "?step s5 s6" unfolding s6_def
    by (rule s_learn [of _ _ _ _ 1]) (use calculation(6,7) in \<open>auto simp: free_def\<close>)
  ultimately have "?step\<^sup>*\<^sup>* sinit s6"
    by (meson converse_rtranclp_into_rtranclp rtranclp.rtrancl_refl)
  then show ?thesis using \<open>fin s5 1 = Some True\<close> by (intro exI [of _ s6]) (auto simp: s6_def put_finish)
qed


text \<open>
  C3. Every run of the nodes, with their tables, acks and messages, is a run of the abstract vote with
  the same proposals and the same outcomes.
\<close>

theorem vote_refines_spec:
  assumes "vote_env cfg c g" and "(sstep cfg c g)\<^sup>*\<^sup>* sinit s"
  shows "\<exists>a. (vstep (node_ids cfg) c)\<^sup>*\<^sup>* vinit a \<and> outcome a = fin s \<and> proposals a = m2a s \<and>
    (\<forall>i gtx. nd s i = Some gtx \<longrightarrow> promise a i = Some (proposal (gtx_state gtx)) \<and> state_rel (gtx_state gtx) (votes a i))"
proof -
  obtain a where a: "(vstep (node_ids cfg) c)\<^sup>*\<^sup>* vinit a" "sys_rel cfg c g s a" by (rule run_matched [OF assms])
  with sys_relD(1,2) [OF a(2)] node_relD(3,4) [OF sys_relD(6) [OF a(2)]] show ?thesis by blast
qed

theorem vote_refines_spec_witness:
  "\<exists>s a. (sstep (sample_cfg [1, 2, 3]) 1 sample_gid)\<^sup>*\<^sup>* sinit s \<and> (vstep {1, 2, 3} 1)\<^sup>*\<^sup>* vinit a \<and>
     outcome a 1 = Some True \<and> outcome a = fin s"
proof -
  obtain s where s: "(sstep (sample_cfg [1, 2, 3]) 1 sample_gid)\<^sup>*\<^sup>* sinit s" "fin s 1 = Some True"
    using sample_commit_run by blast
  from vote_refines_spec [OF sample_env s(1)] s show ?thesis unfolding sample_ids by metis
qed

text \<open>
  C8. No answer that can arrive makes an assertion of the resolver fail or lets it write outside the
  arrays of acks: every response to an entry nobody holds is handled.
\<close>

theorem resolver_never_breaks:
  assumes "vote_env cfg c g" and "(sstep cfg c g)\<^sup>*\<^sup>* sinit s" and "nd s i = Some gtx" and "free c i s"
    and "m \<in> {T_MtmTxStatusResponse r | r. (i, r) \<in> m1b s} \<union> {T_Mtm2AResponse r | r. (i, r) \<in> m2b s}"
  shows "\<exists>r. respond (cfg_of cfg i) m gtx = Inr r"
proof -
  obtain a where a: "sys_rel cfg c g s a" "vinv (node_ids cfg) c a" by (rule run_matched [OF assms(1,2)])
  show ?thesis
    using assms(5) status_response_matched [OF assms(1) a assms(3,4)] twoa_response_matched [OF assms(1) a assms(3)] by blast
qed

text \<open>Node 2 opens a ballot and node 3 answers.\<close>

lemma sample_ballot_run:
  "\<exists>s gtx r. (sstep (sample_cfg [1, 2, 3]) 1 sample_gid)\<^sup>*\<^sup>* sinit s \<and> nd s 2 = Some gtx \<and> (2, r) \<in> m1b s"
proof -
  let ?step = "sstep (sample_cfg [1, 2, 3]) 1 sample_gid"
  let ?new = "(new_gtx zero_gtx sample_gid 4)\<lparr>prepared := True\<rparr>" and ?t = "GlobalTxTerm 2 2"
  let ?st = "(gtx_state ?new)\<lparr>proposal := ?t\<rparr>"
  let ?r = "status_reply sample_gid 3 ?st"
  have lt: "InitialGTxTerm < ?t" by (simp add: InitialGTxTerm_def less_GlobalTxTerm_def term_cmp_def)
  define s1 where "s1 = sinit\<lparr>nd := (nd sinit)(2 := Some ?new)\<rparr>"
  define s2 where "s2 = s1\<lparr>nd := (nd s1)(3 := Some ?new)\<rparr>"
  define s3 where "s3 = s2\<lparr>nd := (nd s2)(2 := Some (snd (stamp_gtx ?t ?new))), m1a := insert ?t (m1a s2)\<rparr>"
  define s4 where "s4 = s3\<lparr>nd := (nd s3)(3 := Some (?new\<lparr>gtx_state := ?st\<rparr>)), m1b := insert (2, ?r) (m1b s3)\<rparr>"
  have "?step sinit s1" unfolding s1_def by (rule s_prepare) (auto simp: sample_ids sinit_def)
  moreover have "?step s1 s2" unfolding s2_def by (rule s_prepare) (auto simp: sample_ids sinit_def s1_def)
  moreover have "?step s2 s3" unfolding s3_def
    by (rule s_stamp) (use lt in \<open>auto simp: s1_def s2_def new_gtx_def free_def\<close>)
  moreover have "?step s3 s4"
  proof -
    have "?step s3 (s3\<lparr>nd := (nd s3)(3 := Some (?new\<lparr>gtx_state := ?st\<rparr>)), m1b := insert (term_node_id ?t, ?r) (m1b s3)\<rparr>)"
      by (rule s_1a [of ?t s3 3 ?new _ _ "[set_state ?new ?st]"])
        (use lt in \<open>auto simp: s3_def s2_def free_def handle_1a_gtx_def request_def status_reply_def new_gtx_def Let_def\<close>)
    then show ?thesis by (simp add: s4_def)
  qed
  ultimately have "?step\<^sup>*\<^sup>* sinit s4"
    by (meson converse_rtranclp_into_rtranclp rtranclp.rtrancl_refl)
  then show ?thesis by (intro exI [of _ s4]) (auto simp: s4_def s3_def)
qed

theorem resolver_never_breaks_witness:
  "\<exists>s gtx r x. (sstep (sample_cfg [1, 2, 3]) 1 sample_gid)\<^sup>*\<^sup>* sinit s \<and> nd s 2 = Some gtx \<and> (2, r) \<in> m1b s \<and>
     respond (cfg_of (sample_cfg [1, 2, 3]) 2) (T_MtmTxStatusResponse r) gtx = Inr x"
proof -
  obtain s gtx r where s: "(sstep (sample_cfg [1, 2, 3]) 1 sample_gid)\<^sup>*\<^sup>* sinit s" "nd s 2 = Some gtx" "(2, r) \<in> m1b s"
    using sample_ballot_run by blast
  have "free 1 2 s" "T_MtmTxStatusResponse r \<in> {T_MtmTxStatusResponse r | r. (2, r) \<in> m1b s} \<union> {T_Mtm2AResponse r | r. (2, r) \<in> m2b s}"
    using s(3) by (auto simp: free_def)
  from resolver_never_breaks [OF sample_env s(1,2) this] s show ?thesis by blast
qed

end
