(* ===== verification/Dmq_Stream.thy ===== *)
theory Dmq_Stream
  imports Messaging
begin

text \<open>
  The reading side of a connection of the distributed message queue (\<open>_pq_have_full_message\<close>,
  \<open>_pq_getmessage_if_avalable\<close>, \<open>_pq_getbyte_if_available\<close> and the reader of \<open>dmq_receiver_loop\<close> in
  \<open>src/src/dmq.c\<close>): bytes arrive in pieces of any size in one fixed buffer, and messages are cut out
  of it. Reading from the socket is an argument. A failed assertion is \<open>PQ_assert\<close>, an error
  that the reader of a message would raise \<open>PQ_error\<close>.
\<close>

section \<open>The receive buffer\<close>

abbreviation DMQ_RECV_BUFFER :: nat where "DMQ_RECV_BUFFER \<equiv> 8192"

record recv_buf =
  recv_buffer :: bytes
  recv_bytes :: nat
  read_bytes :: nat

datatype 'a pq_rc = PQ_got 'a | PQ_none | PQ_eof | PQ_assert | PQ_error

definition unread :: "recv_buf \<Rightarrow> bytes" where
  "unread b = take (recv_bytes b - read_bytes b) (drop (read_bytes b) (recv_buffer b))"

definition left_justify :: "recv_buf \<Rightarrow> recv_buf" where
  "left_justify b = \<lparr>recv_buffer = unread b @ drop (recv_bytes b - read_bytes b) (recv_buffer b),
     recv_bytes = recv_bytes b - read_bytes b, read_bytes = 0\<rparr>"

text \<open>The length word counts itself; a shorter length makes the reader of the message fail.\<close>

definition message_length :: "recv_buf \<Rightarrow> int" where
  "message_length b = sint (word_of_nat (value_be (take 4 (drop (read_bytes b) (recv_buffer b)))) :: uint32)"

definition pq_have_full_message :: "recv_buf \<Rightarrow> bytes pq_rc \<times> recv_buf" where
  "pq_have_full_message b =
     (if recv_bytes b - read_bytes b \<ge> 4
      then let len = message_length b
           in if \<not> len < int DMQ_RECV_BUFFER then (PQ_assert, b)
              else if len < 4 then (PQ_error, b)
              else if read_bytes b + nat len \<le> recv_bytes b
              then (PQ_got (take (nat len - 4) (drop (read_bytes b + 4) (recv_buffer b))),
                    b\<lparr>read_bytes := read_bytes b + nat len\<rparr>)
              else if read_bytes b + nat len \<ge> DMQ_RECV_BUFFER then (PQ_none, left_justify b)
              else (PQ_none, b)
      else (PQ_none, b))"

section \<open>Reading from the socket\<close>

datatype read_res = Read bytes | Again | Closed

definition make_room :: "recv_buf \<Rightarrow> recv_buf" where
  "make_room b =
     (if read_bytes b > 0
      then (if recv_bytes b = read_bytes b then b\<lparr>recv_bytes := 0, read_bytes := 0\<rparr>
            else if recv_bytes b > DMQ_RECV_BUFFER - 1024 then left_justify b
            else b)
      else b)"

definition store_bytes :: "bytes \<Rightarrow> recv_buf \<Rightarrow> recv_buf" where
  "store_bytes bs b = b\<lparr>recv_buffer := take (recv_bytes b) (recv_buffer b) @ bs @
       drop (recv_bytes b + length bs) (recv_buffer b),
     recv_bytes := recv_bytes b + length bs\<rparr>"

definition pq_getmessage_if_available ::
  "(nat \<Rightarrow> 's \<Rightarrow> read_res \<times> 's) \<Rightarrow> recv_buf \<Rightarrow> 's \<Rightarrow> bytes pq_rc \<times> recv_buf \<times> 's" where
  "pq_getmessage_if_available secure_read b sock =
     (case pq_have_full_message b of
        (PQ_none, b) \<Rightarrow>
          (let b = make_room b
           in case secure_read (DMQ_RECV_BUFFER - recv_bytes b) sock of
                (Closed, sock) \<Rightarrow> (PQ_eof, b, sock)
              | (Again, sock) \<Rightarrow> (PQ_none, b, sock)
              | (Read bs, sock) \<Rightarrow>
                  if recv_bytes b + length bs > DMQ_RECV_BUFFER then (PQ_assert, b, sock)
                  else let (r, b) = pq_have_full_message (store_bytes bs b) in (r, b, sock))
      | (r, b) \<Rightarrow> (r, b, sock))"

definition pq_getbyte_if_available ::
  "(nat \<Rightarrow> 's \<Rightarrow> read_res \<times> 's) \<Rightarrow> recv_buf \<Rightarrow> 's \<Rightarrow> uint8 pq_rc \<times> recv_buf \<times> 's" where
  "pq_getbyte_if_available secure_read b sock =
     (if recv_bytes b > read_bytes b
      then (PQ_got (recv_buffer b ! read_bytes b), b\<lparr>read_bytes := read_bytes b + 1\<rparr>, sock)
      else (case secure_read 1 sock of
              (Closed, sock) \<Rightarrow> (PQ_eof, b, sock)
            | (Again, sock) \<Rightarrow> (PQ_none, b, sock)
            | (Read bs, sock) \<Rightarrow> if length bs = 1 then (PQ_got (hd bs), b, sock) else (PQ_assert, b, sock)))"

section \<open>The reader\<close>

datatype reader_state = NeedByte | NeedMessage

record 's receiver =
  reader :: reader_state
  rbuf :: recv_buf
  sock :: 's
  delivered :: "bytes list"

datatype 's loop_res = Running "'s receiver" | Ended "'s receiver" | Broken

definition need_message :: "(nat \<Rightarrow> 's \<Rightarrow> read_res \<times> 's) \<Rightarrow> 's receiver \<Rightarrow> 's loop_res" where
  "need_message secure_read st =
     (case pq_getmessage_if_available secure_read (rbuf st) (sock st) of
        (PQ_got m, b, s) \<Rightarrow> Running \<lparr>reader = NeedByte, rbuf = b, sock = s, delivered = delivered st @ [m]\<rparr>
      | (PQ_none, b, s) \<Rightarrow> Running (st\<lparr>reader := NeedMessage, rbuf := b, sock := s\<rparr>)
      | (PQ_eof, b, s) \<Rightarrow> Ended (st\<lparr>rbuf := b, sock := s\<rparr>)
      | _ \<Rightarrow> Broken)"

text \<open>One round of the loop; \<open>'d'\<close> is 100 and \<open>'c'\<close> is 99. Delivered messages go to \<open>dmq_handle_message\<close>.\<close>

definition receiver_round :: "(nat \<Rightarrow> 's \<Rightarrow> read_res \<times> 's) \<Rightarrow> 's receiver \<Rightarrow> 's loop_res" where
  "receiver_round secure_read st =
     (case reader st of
        NeedByte \<Rightarrow>
          (case pq_getbyte_if_available secure_read (rbuf st) (sock st) of
             (PQ_got c, b, s) \<Rightarrow>
               if c = 100 then need_message secure_read (st\<lparr>reader := NeedMessage, rbuf := b, sock := s\<rparr>)
               else if c = 99 then Ended (st\<lparr>rbuf := b, sock := s\<rparr>)
               else Broken
           | (PQ_none, b, s) \<Rightarrow> Running (st\<lparr>rbuf := b, sock := s\<rparr>)
           | (PQ_eof, b, s) \<Rightarrow> Ended (st\<lparr>rbuf := b, sock := s\<rparr>)
           | _ \<Rightarrow> Broken)
      | NeedMessage \<Rightarrow> need_message secure_read st)"

fun receiver_rounds :: "(nat \<Rightarrow> 's \<Rightarrow> read_res \<times> 's) \<Rightarrow> nat \<Rightarrow> 's receiver \<Rightarrow> 's loop_res" where
  "receiver_rounds secure_read 0 st = Running st"
| "receiver_rounds secure_read (Suc n) st =
     (case receiver_round secure_read st of Running st' \<Rightarrow> receiver_rounds secure_read n st' | r \<Rightarrow> r)"

text \<open>The static variables and the local ones at the start of the loop.\<close>

definition receiver_start :: "'s \<Rightarrow> 's receiver" where
  "receiver_start s = \<lparr>reader = NeedByte,
     rbuf = \<lparr>recv_buffer = replicate DMQ_RECV_BUFFER 0, recv_bytes = 0, read_bytes = 0\<rparr>, sock = s, delivered = []\<rparr>"

section \<open>The buffer keeps what was read\<close>

definition rb_ok :: "recv_buf \<Rightarrow> bool" where
  "rb_ok b \<longleftrightarrow> length (recv_buffer b) = DMQ_RECV_BUFFER \<and> read_bytes b \<le> recv_bytes b \<and> recv_bytes b \<le> DMQ_RECV_BUFFER"

lemma length_unread: "rb_ok b \<Longrightarrow> length (unread b) = recv_bytes b - read_bytes b"
  by (auto simp: rb_ok_def unread_def)

lemma left_justify_ok:
  assumes "rb_ok b"
  shows "rb_ok (left_justify b)" "unread (left_justify b) = unread b" "recv_bytes (left_justify b) = length (unread b)"
    "read_bytes (left_justify b) = 0"
  using assms length_unread [OF assms] by (auto simp: rb_ok_def left_justify_def unread_def)

lemma make_room_ok:
  assumes "rb_ok b"
  shows "rb_ok (make_room b)" "unread (make_room b) = unread b"
  using assms left_justify_ok [OF assms] by (auto simp: make_room_def rb_ok_def unread_def)

lemma store_bytes_ok:
  assumes "rb_ok b" and "recv_bytes b + length bs \<le> DMQ_RECV_BUFFER"
  shows "rb_ok (store_bytes bs b)" "unread (store_bytes bs b) = unread b @ bs"
proof -
  show "rb_ok (store_bytes bs b)" using assms by (auto simp: rb_ok_def store_bytes_def)
  have l: "length (take (recv_bytes b) (recv_buffer b)) = recv_bytes b" using assms by (simp add: rb_ok_def)
  have "read_bytes b \<le> recv_bytes b" using assms by (simp add: rb_ok_def)
  then have d: "drop (read_bytes b) (take (recv_bytes b) (recv_buffer b) @ bs @ drop (recv_bytes b + length bs) (recv_buffer b)) =
      (unread b @ bs) @ drop (recv_bytes b + length bs) (recv_buffer b)"
    using l by (simp add: unread_def drop_take)
  have n: "recv_bytes b + length bs - read_bytes b = length (unread b @ bs)"
    using length_unread [OF assms(1)] \<open>read_bytes b \<le> recv_bytes b\<close> by simp
  have s: "recv_buffer (store_bytes bs b) = take (recv_bytes b) (recv_buffer b) @ bs @ drop (recv_bytes b + length bs) (recv_buffer b)"
    "recv_bytes (store_bytes bs b) = recv_bytes b + length bs" "read_bytes (store_bytes bs b) = read_bytes b"
    by (simp_all add: store_bytes_def)
  show "unread (store_bytes bs b) = unread b @ bs"
    unfolding unread_def [of "store_bytes bs b"] s d n by simp
qed

lemma unread_prefix:
  assumes "rb_ok b" and "n \<le> length (unread b)"
  shows "take n (drop (read_bytes b) (recv_buffer b)) = take n (unread b)"
  using assms length_unread [OF assms(1)] by (simp add: unread_def)

section \<open>Cutting out messages\<close>

text \<open>What the sender puts on the connection (\<open>PQputCopyData\<close>) for a message.\<close>

definition frame :: "bytes \<Rightarrow> bytes" where
  "frame m = send_be 4 (length m + 4) @ m"

definition stream :: "bytes list \<Rightarrow> bytes" where
  "stream ms = concat (map (\<lambda>m. 100 # frame m) ms)"

definition fits :: "bytes \<Rightarrow> bool" where
  "fits m \<longleftrightarrow> length m + 4 < DMQ_RECV_BUFFER"

lemma message_length_frame:
  assumes "rb_ok b" and "4 \<le> length (unread b)" and "unread b @ p = frame m @ q" and "fits m"
  shows "message_length b = int (length m) + 4"
proof -
  have "take 4 (unread b) = take 4 (unread b @ p)" using assms(2) by simp
  also have "\<dots> = send_be 4 (length m + 4)" by (simp add: assms(3) frame_def del: send_be.simps)
  finally have "take 4 (drop (read_bytes b) (recv_buffer b)) = send_be 4 (length m + 4)"
    using unread_prefix [OF assms(1,2)] by simp
  then have "message_length b = sint (word_of_nat (length m + 4) :: uint32)"
    using assms(4) by (simp add: message_length_def value_send_be fits_def del: send_be.simps)
  also have "\<dots> = int (length m) + 4"
    using sint_int32 [of "int (length m + 4)"] assms(4) by (simp add: fits_def int32_ok_def)
  finally show ?thesis .
qed

lemma have_full_message:
  assumes ok: "rb_ok b" and u: "unread b @ p = frame m @ q" and m: "fits m"
  obtains (full) b' where "pq_have_full_message b = (PQ_got m, b')" "rb_ok b'" "unread b' @ p = q"
  | (part) b' where "pq_have_full_message b = (PQ_none, b')" "rb_ok b'" "unread b' = unread b" "p \<noteq> []"
      "recv_bytes (make_room b') < DMQ_RECV_BUFFER"
proof (cases "4 \<le> length (unread b)")
  case True
  note len = message_length_frame [OF ok True u m] and lu = length_unread [OF ok]
  have n: "nat (message_length b) = length m + 4" using len by simp
  have c: "recv_bytes b - read_bytes b \<ge> 4" "message_length b < int DMQ_RECV_BUFFER" "\<not> message_length b < 4"
    using True lu len m by (simp_all add: fits_def)
  show ?thesis
  proof (cases "length m + 4 \<le> length (unread b)")
    case whole: True
    let ?b = "b\<lparr>read_bytes := read_bytes b + (length m + 4)\<rparr>"
    have le: "read_bytes b + (length m + 4) \<le> recv_bytes b" using whole lu True by simp
    have "drop 4 (take (length m + 4) (unread b)) = m"
      using whole arg_cong [OF u, of "\<lambda>x. drop 4 (take (length m + 4) x)"] by (simp add: frame_def del: send_be.simps)
    then have "drop 4 (take (length m + 4) (drop (read_bytes b) (recv_buffer b))) = m"
      using unread_prefix [OF ok whole] by simp
    then have body: "take (length m) (drop (read_bytes b + 4) (recv_buffer b)) = m"
      by (simp add: drop_take add.commute)
    have "unread ?b = drop (length m + 4) (unread b)" using le by (simp add: unread_def drop_take add.commute)
    moreover have "drop (length m + 4) (unread b) @ p = q"
      using whole arg_cong [OF u, of "drop (length m + 4)"] by (simp add: frame_def del: send_be.simps)
    ultimately show ?thesis
      by (intro full [of ?b]) (use ok c n le body in \<open>auto simp: pq_have_full_message_def Let_def rb_ok_def\<close>)
  next
    case False
    have gt: "\<not> read_bytes b + (length m + 4) \<le> recv_bytes b" using False lu ok by (auto simp: rb_ok_def)
    have p: "p \<noteq> []" using False arg_cong [OF u, of length] by (auto simp: frame_def)
    show ?thesis
    proof (cases "read_bytes b + (length m + 4) \<ge> DMQ_RECV_BUFFER")
      case True
      have "pq_have_full_message b = (PQ_none, left_justify b)"
        using c n gt True by (simp add: pq_have_full_message_def Let_def)
      moreover have "recv_bytes (make_room (left_justify b)) < DMQ_RECV_BUFFER"
        using left_justify_ok [OF ok] False m by (simp add: make_room_def fits_def)
      ultimately show ?thesis using left_justify_ok [OF ok] p by (intro part)
    next
      case False
      have "pq_have_full_message b = (PQ_none, b)" using c n gt False by (simp add: pq_have_full_message_def Let_def)
      moreover have "recv_bytes (make_room b) < DMQ_RECV_BUFFER"
        using gt False left_justify_ok [OF ok] lu by (auto simp: make_room_def)
      ultimately show ?thesis using ok p by (intro part) auto
    qed
  qed
next
  case False
  note lu = length_unread [OF ok]
  have "p \<noteq> []" using False arg_cong [OF u, of length] by (auto simp: frame_def)
  moreover have "pq_have_full_message b = (PQ_none, b)" using False lu by (simp add: pq_have_full_message_def)
  moreover have "recv_bytes (make_room b) < DMQ_RECV_BUFFER"
    using False lu ok left_justify_ok [OF ok] by (auto simp: make_room_def rb_ok_def)
  ultimately show ?thesis using ok by (intro part) auto
qed

section \<open>What arrives\<close>

text \<open>
  What the code relies on of reading from a socket: a read of some room returns the next bytes,
  at least one and no more than asked for, or says that there are none now, or that the connection
  is gone.
\<close>

definition byte_source :: "(nat \<Rightarrow> 's \<Rightarrow> read_res \<times> 's) \<Rightarrow> ('s \<Rightarrow> bytes) \<Rightarrow> bool" where
  "byte_source secure_read pending \<longleftrightarrow> (\<forall>n s r s'. 0 < n \<longrightarrow> secure_read n s = (r, s') \<longrightarrow>
     (case r of Read bs \<Rightarrow> bs \<noteq> [] \<and> length bs \<le> n \<and> pending s = bs @ pending s'
      | Again \<Rightarrow> pending s' = pending s | Closed \<Rightarrow> pending s' = pending s))"

lemma byte_sourceD:
  assumes "byte_source secure_read pending" and "0 < n"
  shows "secure_read n s = (Read bs, s') \<Longrightarrow> bs \<noteq> [] \<and> length bs \<le> n \<and> pending s = bs @ pending s'"
    "secure_read n s = (Again, s') \<Longrightarrow> pending s' = pending s" "secure_read n s = (Closed, s') \<Longrightarrow> pending s' = pending s"
proof -
  have *: "case r of Read bs \<Rightarrow> bs \<noteq> [] \<and> length bs \<le> n \<and> pending s = bs @ pending s'
      | Again \<Rightarrow> pending s' = pending s | Closed \<Rightarrow> pending s' = pending s" if "secure_read n s = (r, s')" for r
    using assms that unfolding byte_source_def by blast
  show "secure_read n s = (Read bs, s') \<Longrightarrow> bs \<noteq> [] \<and> length bs \<le> n \<and> pending s = bs @ pending s'"
    "secure_read n s = (Again, s') \<Longrightarrow> pending s' = pending s" "secure_read n s = (Closed, s') \<Longrightarrow> pending s' = pending s"
    using * [of "Read bs"] * [of Again] * [of Closed] by simp_all
qed

lemma getmessage:
  assumes src: "byte_source secure_read pending" and ok: "rb_ok b" and u: "unread b @ pending s = frame m @ q" and m: "fits m"
  obtains (got) b' s' where "pq_getmessage_if_available secure_read b s = (PQ_got m, b', s')" "rb_ok b'" "unread b' @ pending s' = q"
      "pending s = [] \<Longrightarrow> pending s' = []"
  | (wait) rc b' s' where "pq_getmessage_if_available secure_read b s = (rc, b', s')" "rc \<in> {PQ_none, PQ_eof}" "rb_ok b'"
      "unread b' @ pending s' = frame m @ q" "pending s \<noteq> []"
proof (rule have_full_message [OF ok u m])
  fix b' assume "pq_have_full_message b = (PQ_got m, b')" "rb_ok b'" "unread b' @ pending s = q"
  then show ?thesis by (intro got [of b' s]) (simp_all add: pq_getmessage_if_available_def)
next
  fix b' assume b': "pq_have_full_message b = (PQ_none, b')" "rb_ok b'" "unread b' = unread b" "pending s \<noteq> []"
    "recv_bytes (make_room b') < DMQ_RECV_BUFFER"
  let ?b = "make_room b'"
  have rm: "rb_ok ?b" "unread ?b = unread b" using make_room_ok [OF b'(2)] b'(3) by simp_all
  obtain r s' where rd: "secure_read (DMQ_RECV_BUFFER - recv_bytes ?b) s = (r, s')" by fastforce
  have room: "0 < DMQ_RECV_BUFFER - recv_bytes ?b" using b'(5) by simp
  note D = byte_sourceD [OF src room]
  show ?thesis
  proof (cases r)
    case (Read bs)
    then have bs: "length bs \<le> DMQ_RECV_BUFFER - recv_bytes ?b" "pending s = bs @ pending s'" using D(1) rd by auto
    then have le: "recv_bytes ?b + length bs \<le> DMQ_RECV_BUFFER" using room by simp
    note sb = store_bytes_ok [OF rm(1) le]
    have u': "unread (store_bytes bs ?b) @ pending s' = frame m @ q" using sb(2) rm(2) bs(2) u by simp
    have eq: "pq_getmessage_if_available secure_read b s =
        (let (r, b) = pq_have_full_message (store_bytes bs ?b) in (r, b, s'))"
      using b'(1) rd Read le by (simp add: pq_getmessage_if_available_def Let_def)
    show ?thesis
      by (rule have_full_message [OF sb(1) u' m])
        (use eq b'(4) bs(2) u' in \<open>auto intro: got wait\<close>)
  next
    case Again
    then show ?thesis using D(2) rd b' rm u
      by (intro wait [of PQ_none ?b s']) (auto simp: pq_getmessage_if_available_def Let_def)
  next
    case Closed
    then show ?thesis using D(3) rd b' rm u
      by (intro wait [of PQ_eof ?b s']) (auto simp: pq_getmessage_if_available_def Let_def)
  qed
qed

text \<open>Between two calls the receiver owes the messages it has not delivered yet.\<close>

definition owed :: "('s \<Rightarrow> bytes) \<Rightarrow> bytes list \<Rightarrow> 's receiver \<Rightarrow> bool" where
  "owed pending rs st \<longleftrightarrow> rb_ok (rbuf st) \<and>
     (case reader st of NeedByte \<Rightarrow> [] | NeedMessage \<Rightarrow> [100]) @ unread (rbuf st) @ pending (sock st) = stream rs"

definition advances :: "('s \<Rightarrow> bytes) \<Rightarrow> bytes list \<Rightarrow> 's receiver \<Rightarrow> 's receiver \<Rightarrow> bool" where
  "advances pending rs st st' \<longleftrightarrow>
     (\<exists>m rs'. rs = m # rs' \<and> owed pending rs' st' \<and> delivered st' = delivered st @ [m] \<and>
        (pending (sock st) = [] \<longrightarrow> pending (sock st') = [])) \<or>
     (rs = [] \<or> pending (sock st) \<noteq> []) \<and> owed pending rs st' \<and> delivered st' = delivered st \<and>
        (pending (sock st) = [] \<longrightarrow> pending (sock st') = [])"

lemma stream_Cons: "stream (m # ms) = 100 # frame m @ stream ms"
  by (simp add: stream_def)

lemma need_message_advances:
  assumes src: "byte_source secure_read pending" and st: "reader st = NeedMessage" "owed pending (m # rs) st" and m: "fits m"
  shows "\<exists>st'. (need_message secure_read st = Running st' \<or> pending (sock st) \<noteq> [] \<and> need_message secure_read st = Ended st') \<and>
    advances pending (m # rs) st st'"
proof -
  have ok: "rb_ok (rbuf st)" "unread (rbuf st) @ pending (sock st) = frame m @ stream rs"
    using st by (simp_all add: owed_def stream_Cons)
  show ?thesis
  proof (rule getmessage [OF src ok m])
    fix b' s' assume "pq_getmessage_if_available secure_read (rbuf st) (sock st) = (PQ_got m, b', s')" "rb_ok b'"
      "unread b' @ pending s' = stream rs" "pending (sock st) = [] \<Longrightarrow> pending s' = []"
    then show ?thesis
      by (intro exI [of _ "\<lparr>reader = NeedByte, rbuf = b', sock = s', delivered = delivered st @ [m]\<rparr>"])
        (simp add: need_message_def advances_def owed_def)
  next
    fix rc b' s' assume g: "pq_getmessage_if_available secure_read (rbuf st) (sock st) = (rc, b', s')" "rc \<in> {PQ_none, PQ_eof}"
      "rb_ok b'" "unread b' @ pending s' = frame m @ stream rs" "pending (sock st) \<noteq> []"
    then show ?thesis
      using st(1) by (intro exI [of _ "st\<lparr>reader := NeedMessage, rbuf := b', sock := s'\<rparr>"])
        (auto simp: need_message_def advances_def owed_def stream_Cons)
  qed
qed

text \<open>The byte that announces a message is taken from the buffer or straight from the socket.\<close>

lemma getbyte:
  assumes src: "byte_source secure_read pending" and ok: "rb_ok b" and u: "unread b @ pending s = bs"
  obtains (got) c b' s' where "pq_getbyte_if_available secure_read b s = (PQ_got c, b', s')" "rb_ok b'"
      "bs = c # unread b' @ pending s'" "pending s = [] \<Longrightarrow> pending s' = []"
  | (wait) rc s' where "pq_getbyte_if_available secure_read b s = (rc, b, s')" "rc \<in> {PQ_none, PQ_eof}"
      "unread b @ pending s' = bs" "bs = [] \<or> pending s \<noteq> []" "pending s = [] \<Longrightarrow> pending s' = []"
proof (cases "recv_bytes b > read_bytes b")
  case True
  let ?b = "b\<lparr>read_bytes := read_bytes b + 1\<rparr>"
  have "rb_ok ?b" using ok True by (simp add: rb_ok_def)
  moreover have "drop (read_bytes b) (recv_buffer b) = recv_buffer b ! read_bytes b # drop (read_bytes b + 1) (recv_buffer b)"
    using ok True by (simp add: rb_ok_def Cons_nth_drop_Suc)
  then have "unread b = recv_buffer b ! read_bytes b # unread ?b"
    using True by (simp add: unread_def take_Cons')
  ultimately show ?thesis using True u by (intro got [of _ ?b s]) (auto simp: pq_getbyte_if_available_def)
next
  case False
  then have e: "unread b = []" by (simp add: unread_def)
  obtain r s' where rd: "secure_read 1 s = (r, s')" by fastforce
  note D = byte_sourceD [OF src zero_less_one]
  show ?thesis
  proof (cases r)
    case (Read cs)
    then have cs: "cs \<noteq> []" "length cs \<le> 1" "pending s = cs @ pending s'" using D(1) rd by auto
    then obtain c where c: "cs = [c]" by (cases cs) auto
    show ?thesis
      by (rule got [of c b s']) (use False e rd Read c cs u ok in \<open>auto simp: pq_getbyte_if_available_def\<close>)
  next
    case Again
    then show ?thesis using D(2) rd False e u
      by (intro wait [of PQ_none s']) (auto simp: pq_getbyte_if_available_def)
  next
    case Closed
    then show ?thesis using D(3) rd False e u
      by (intro wait [of PQ_eof s']) (auto simp: pq_getbyte_if_available_def)
  qed
qed

lemma receiver_round_advances:
  assumes src: "byte_source secure_read pending" and st: "owed pending rs st" and fit: "\<forall>m \<in> set rs. fits m"
  shows "\<exists>st'. (receiver_round secure_read st = Running st' \<or>
      (rs = [] \<or> pending (sock st) \<noteq> []) \<and> receiver_round secure_read st = Ended st') \<and> advances pending rs st st'"
proof (cases "reader st")
  case NeedMessage
  then obtain m rs' where "rs = m # rs'" using st by (cases rs) (auto simp: owed_def stream_def)
  with need_message_advances [OF src NeedMessage] st fit NeedMessage show ?thesis by (auto simp: receiver_round_def)
next
  case NeedByte
  have ok: "rb_ok (rbuf st)" "unread (rbuf st) @ pending (sock st) = stream rs" using st NeedByte by (simp_all add: owed_def)
  show ?thesis
  proof (rule getbyte [OF src ok])
    fix c b' s' assume g: "pq_getbyte_if_available secure_read (rbuf st) (sock st) = (PQ_got c, b', s')" "rb_ok b'"
      "stream rs = c # unread b' @ pending s'" "pending (sock st) = [] \<Longrightarrow> pending s' = []"
    then obtain m rs' where rs: "rs = m # rs'" by (cases rs) (auto simp: stream_def)
    let ?st = "st\<lparr>reader := NeedMessage, rbuf := b', sock := s'\<rparr>"
    have "owed pending (m # rs') ?st" "c = 100" using g rs by (simp_all add: owed_def stream_Cons)
    with need_message_advances [OF src _ this(1)] fit rs obtain st' where
      "need_message secure_read ?st = Running st' \<or> pending s' \<noteq> [] \<and> need_message secure_read ?st = Ended st'"
      "advances pending rs ?st st'" by auto
    then show ?thesis using g(1,4) NeedByte \<open>c = 100\<close>
      by (intro exI [of _ st']) (auto simp: receiver_round_def advances_def)
  next
    fix rc s' assume "pq_getbyte_if_available secure_read (rbuf st) (sock st) = (rc, rbuf st, s')" "rc \<in> {PQ_none, PQ_eof}"
      "unread (rbuf st) @ pending s' = stream rs" "stream rs = [] \<or> pending (sock st) \<noteq> []" "pending (sock st) = [] \<Longrightarrow> pending s' = []"
    moreover have "stream rs = [] \<Longrightarrow> rs = []" by (cases rs) (simp_all add: stream_Cons stream_def)
    ultimately show ?thesis using NeedByte ok
      by (intro exI [of _ "st\<lparr>sock := s'\<rparr>"]) (auto simp: receiver_round_def advances_def owed_def)
  qed
qed

section \<open>Reassembly\<close>

lemma receiver_rounds_add:
  "receiver_rounds secure_read (n + k) st =
     (case receiver_rounds secure_read n st of Running st' \<Rightarrow> receiver_rounds secure_read k st' | r \<Rightarrow> r)"
  by (induction n arbitrary: st) (auto split: loop_res.splits)

lemma rounds_deliver:
  assumes src: "byte_source secure_read pending"
  shows "owed pending rs st \<Longrightarrow> \<forall>m \<in> set rs. fits m \<Longrightarrow>
    \<exists>st' ds rs'. receiver_rounds secure_read n st \<in> {Running st', Ended st'} \<and> rs = ds @ rs' \<and>
      delivered st' = delivered st @ ds \<and> owed pending rs' st'"
proof (induction n arbitrary: rs st)
  case 0
  then show ?case by (intro exI [of _ st] exI [of _ "[]"] exI [of _ rs]) auto
next
  case (Suc n)
  obtain st1 where st1: "receiver_round secure_read st \<in> {Running st1, Ended st1}" "advances pending rs st st1"
    using receiver_round_advances [OF src Suc.prems] by blast
  then obtain ds rs1 where ds: "rs = ds @ rs1" "owed pending rs1 st1" "delivered st1 = delivered st @ ds"
    unfolding advances_def by fastforce
  from Suc.IH [OF ds(2)] Suc.prems(2) ds(1) obtain st2 ds2 rs2 where
    "receiver_rounds secure_read n st1 \<in> {Running st2, Ended st2}" "rs1 = ds2 @ rs2"
    "delivered st2 = delivered st1 @ ds2" "owed pending rs2 st2" by auto
  with st1(1) ds show ?case
    by (cases "receiver_round secure_read st = Ended st1")
      (auto intro: exI [of _ st1] exI [of _ st2] exI [of _ "ds @ ds2"])
qed

lemma rounds_drain:
  assumes src: "byte_source secure_read pending"
  shows "owed pending rs st \<Longrightarrow> \<forall>m \<in> set rs. fits m \<Longrightarrow> pending (sock st) = [] \<Longrightarrow> length rs \<le> n \<Longrightarrow>
    \<exists>st'. receiver_rounds secure_read n st \<in> {Running st', Ended st'} \<and> delivered st' = delivered st @ rs"
proof (induction n arbitrary: rs st)
  case 0
  then show ?case by auto
next
  case (Suc n)
  obtain st1 where st1: "receiver_round secure_read st = Running st1 \<or> rs = [] \<and> receiver_round secure_read st = Ended st1"
    "advances pending rs st st1"
    using receiver_round_advances [OF src Suc.prems(1,2)] Suc.prems(3) by blast
  have p: "pending (sock st1) = []" and
    rs1: "\<exists>rs1. owed pending rs1 st1 \<and> delivered st1 @ rs1 = delivered st @ rs \<and> length rs1 \<le> n \<and> set rs1 \<subseteq> set rs"
    using st1(2) Suc.prems(3,4) unfolding advances_def by auto
  then obtain rs1 where r1: "owed pending rs1 st1" "delivered st1 @ rs1 = delivered st @ rs" "length rs1 \<le> n" "set rs1 \<subseteq> set rs"
    by blast
  show ?case
  proof (cases "receiver_round secure_read st = Running st1")
    case True
    with Suc.IH [OF r1(1) _ p r1(3)] r1 Suc.prems(2) show ?thesis by (auto simp: subset_iff)
  next
    case False
    with st1 have e: "rs = []" "receiver_round secure_read st = Ended st1" by auto
    with st1(2) show ?thesis by (intro exI [of _ st1]) (auto simp: advances_def)
  qed
qed

text \<open>
  C34. However the network cuts the stream into pieces, the receiver hands over exactly the messages
  that were sent, complete and in order: after any number of rounds a first part of them, and as
  soon as all bytes have arrived every further round adds one until none is left. No assertion
  fails and the buffer never runs out of room.
\<close>

theorem stream_reassembled:
  assumes "byte_source secure_read pending" and "\<forall>m \<in> set ms. fits m" and "pending s = stream ms"
  shows "\<exists>st. receiver_rounds secure_read n (receiver_start s) \<in> {Running st, Ended st} \<and> (\<exists>rs. ms = delivered st @ rs) \<and>
    (receiver_rounds secure_read n (receiver_start s) = Running st \<and> pending (sock st) = [] \<longrightarrow>
     (\<exists>st'. receiver_rounds secure_read (n + length ms) (receiver_start s) \<in> {Running st', Ended st'} \<and> delivered st' = ms))"
proof -
  have "owed pending ms (receiver_start s)"
    using assms(3) by (simp add: owed_def receiver_start_def rb_ok_def unread_def)
  from rounds_deliver [OF assms(1) this assms(2), of n] obtain st rs where
    st: "receiver_rounds secure_read n (receiver_start s) \<in> {Running st, Ended st}" "ms = delivered st @ rs" "owed pending rs st"
    by (auto simp: receiver_start_def)
  have "\<exists>st'. receiver_rounds secure_read (n + length ms) (receiver_start s) \<in> {Running st', Ended st'} \<and> delivered st' = ms"
    if "receiver_rounds secure_read n (receiver_start s) = Running st" "pending (sock st) = []"
    using rounds_drain [OF assms(1) st(3) _ that(2), of "length ms"] assms(2) st(2) that(1)
    by (auto simp: receiver_rounds_add)
  with st show ?thesis by blast
qed

text \<open>A socket that delivers its bytes in given pieces, an empty piece being a moment without data.\<close>

definition read_pieces :: "nat \<Rightarrow> bytes list \<Rightarrow> read_res \<times> bytes list" where
  "read_pieces n cs = (case cs of [] \<Rightarrow> (Again, [])
     | c # cs' \<Rightarrow> if c = [] then (Again, cs')
                  else (Read (take n c), if length c \<le> n then cs' else drop n c # cs'))"

lemma read_pieces_source: "byte_source read_pieces concat"
  by (auto simp: byte_source_def read_pieces_def split: list.splits if_splits)

lemma sample_read:
  "\<exists>st. receiver_rounds read_pieces 1 (receiver_start [[100], [0, 0, 0, 7, 1, 2, 3]]) = Running st \<and> concat (sock st) = []"
  by (simp add: receiver_start_def receiver_round_def pq_getbyte_if_available_def read_pieces_def need_message_def
      pq_getmessage_if_available_def pq_have_full_message_def make_room_def store_bytes_def message_length_def value_be_def Let_def)

theorem stream_reassembled_witness:
  "\<exists>st. receiver_rounds read_pieces 2 (receiver_start [[100], [0, 0, 0, 7, 1, 2, 3]]) \<in> {Running st, Ended st} \<and>
     delivered st = [[1, 2, 3]]"
proof -
  let ?s = "[[100], [0, 0, 0, 7, 1, 2, 3]] :: bytes list"
  have "concat ?s = stream [[1, 2, 3]]" by code_simp
  moreover have "\<forall>m \<in> set [[1, 2, 3] :: bytes]. fits m" by (simp add: fits_def)
  moreover obtain st where "receiver_rounds read_pieces 1 (receiver_start ?s) = Running st" "concat (sock st) = []"
    using sample_read by blast
  ultimately show ?thesis
    using stream_reassembled [OF read_pieces_source, of "[[1, 2, 3]]" ?s 1] by (auto simp: numeral_2_eq_2)
qed

end
