(* ===== verification/Dmq.thy ===== *)
theory Dmq
  imports Nodemask "HOL-Library.AList"
begin

text \<open>
  The interface of the distributed message queue (\<open>src/src/dmq.c\<close>): which receivers a backend
  listens to, its subscription, popping a message from one of several queues, the table of
  destinations and of receivers in shared memory, and the counters that reveal lost connections;
  on top of it \<open>gather\<close> of \<open>src/src/multimaster.c\<close>, which collects one answer from each of several
  nodes.

  A queue in shared memory belongs to Postgres: what a queue returns when it is read and whether
  a segment can be mapped are arguments, as is what the process sees in shared memory each time
  it looks. A process that sleeps for ever is \<open>None\<close> or \<open>Waiting\<close>. Names are C strings; \<open>strncpy\<close>
  cuts them.
\<close>

abbreviation DMQ_MAX_RECEIVERS :: nat where "DMQ_MAX_RECEIVERS \<equiv> 10"
abbreviation DMQ_MAX_DESTINATIONS :: nat where "DMQ_MAX_DESTINATIONS \<equiv> 10"
abbreviation DMQ_N_MASK_POS :: nat where "DMQ_N_MASK_POS \<equiv> 16"
abbreviation DMQ_NAME_MAXLEN :: nat where "DMQ_NAME_MAXLEN \<equiv> 32"
abbreviation DMQ_CONNSTR_MAX_LEN :: nat where "DMQ_CONNSTR_MAX_LEN \<equiv> 150"
abbreviation DMQ_STREAM_NAME_MAXLEN :: nat where "DMQ_STREAM_NAME_MAXLEN \<equiv> 200"
abbreviation DMQSCONN_DEAD :: int where "DMQSCONN_DEAD \<equiv> 0"
abbreviation DSM_HANDLE_INVALID :: uint32 where "DSM_HANDLE_INVALID \<equiv> 0"

datatype dmq_error = Dmq_assert | Dmq_full | Dmq_not_found | Dmq_duplicate | Dmq_out_of_bounds

section \<open>Shared memory\<close>

record DmqDestination =
  dest_active :: bool
  dest_sender_name :: string
  dest_receiver_name :: string
  dest_connstr :: string
  dest_recv_timeout :: int
  dest_mask_pos :: nat
  reconnect_requested :: bool

record DmqStreamSubscription =
  sub_procno :: nat
  sub_procno_gen :: uint64

record DmqReceiverSlot =
  slot_name :: string
  slot_pid :: int
  dsm_handles :: "(uint32 \<times> uint64) list"

record dmq_shared =
  sender_pid :: int
  destinations :: "DmqDestination list"
  sconn_cnt :: "int list"
  procno_gens :: "uint64 list"
  receivers :: "DmqReceiverSlot list"
  dmq_subscriptions :: "(string \<times> DmqStreamSubscription) list"

section \<open>Destinations\<close>

definition free_destination :: "dmq_shared \<Rightarrow> nat option" where
  "free_destination sh = find (\<lambda>i. \<not> dest_active (destinations sh ! i)) [0..<DMQ_MAX_DESTINATIONS]"

definition dmq_destination_add ::
  "string \<Rightarrow> string \<Rightarrow> string \<Rightarrow> nat \<Rightarrow> int \<Rightarrow> dmq_shared \<Rightarrow> dmq_error + (nat \<times> dmq_shared)" where
  "dmq_destination_add connstr sender_name receiver_name recv_mask_pos recv_timeout sh =
     (case free_destination sh of
        None \<Rightarrow> Inl Dmq_full
      | Some dest_id \<Rightarrow> Inr (dest_id, sh\<lparr>destinations := (destinations sh)[dest_id := (destinations sh ! dest_id)\<lparr>
          dest_sender_name := take DMQ_NAME_MAXLEN sender_name, dest_receiver_name := take DMQ_NAME_MAXLEN receiver_name,
          dest_connstr := take DMQ_CONNSTR_MAX_LEN connstr, dest_recv_timeout := recv_timeout,
          dest_active := True, dest_mask_pos := recv_mask_pos\<rparr>]\<rparr>))"

definition named :: "string option \<Rightarrow> DmqDestination \<Rightarrow> bool" where
  "named receiver_name dest = (dest_active dest \<and> (case receiver_name of None \<Rightarrow> True
     | Some n \<Rightarrow> take DMQ_NAME_MAXLEN (dest_receiver_name dest) = take DMQ_NAME_MAXLEN n))"

text \<open>All the destinations, or the first one with the name.\<close>

definition chosen_destinations :: "string option \<Rightarrow> dmq_shared \<Rightarrow> nat list" where
  "chosen_destinations receiver_name sh =
     (let ds = filter (\<lambda>i. named receiver_name (destinations sh ! i)) [0..<DMQ_MAX_DESTINATIONS]
      in if receiver_name = None then ds else take 1 ds)"

definition dmq_destination_drop :: "string option \<Rightarrow> dmq_shared \<Rightarrow> dmq_shared" where
  "dmq_destination_drop receiver_name sh = sh\<lparr>destinations :=
     fold (\<lambda>i ds. ds[i := (ds ! i)\<lparr>dest_active := False\<rparr>]) (chosen_destinations receiver_name sh) (destinations sh)\<rparr>"

definition dmq_destination_reconnect :: "string option \<Rightarrow> dmq_shared \<Rightarrow> dmq_shared" where
  "dmq_destination_reconnect receiver_name sh = sh\<lparr>destinations :=
     fold (\<lambda>i ds. ds[i := (ds ! i)\<lparr>reconnect_requested := True\<rparr>]) (chosen_destinations receiver_name sh) (destinations sh)\<rparr>"

section \<open>Connection counters\<close>

text \<open>The shared array has one counter per destination, but is indexed by node.\<close>

definition counter :: "dmq_shared \<Rightarrow> nat \<Rightarrow> dmq_error + int" where
  "counter sh i = (case nth_opt (sconn_cnt sh) i of Some c \<Rightarrow> Inr c | None \<Rightarrow> Inl Dmq_out_of_bounds)"

fun dmq_get_sendconn_cnt_from :: "nat list \<Rightarrow> nodemask_t \<Rightarrow> dmq_shared \<Rightarrow> int list \<Rightarrow> dmq_error + int list" where
  "dmq_get_sendconn_cnt_from [] participants sh cnt = Inr cnt"
| "dmq_get_sendconn_cnt_from (i # is) participants sh cnt =
     (if BIT_CHECK participants i
      then (case counter sh i of Inl e \<Rightarrow> Inl e
            | Inr c \<Rightarrow> dmq_get_sendconn_cnt_from is participants sh (cnt[i := c]))
      else dmq_get_sendconn_cnt_from is participants sh cnt)"

definition dmq_get_sendconn_cnt :: "nodemask_t \<Rightarrow> dmq_shared \<Rightarrow> int list \<Rightarrow> dmq_error + int list" where
  "dmq_get_sendconn_cnt participants sh cnt = dmq_get_sendconn_cnt_from [0..<DMQ_N_MASK_POS] participants sh cnt"

fun dmq_purge_from :: "nat list \<Rightarrow> nodemask_t \<Rightarrow> int list \<Rightarrow> dmq_shared \<Rightarrow> nodemask_t \<Rightarrow> dmq_error + nodemask_t" where
  "dmq_purge_from [] participants cnt sh res = Inr res"
| "dmq_purge_from (i # is) participants cnt sh res =
     (if BIT_CHECK participants i
      then (if cnt ! i = DMQSCONN_DEAD then dmq_purge_from is participants cnt sh (BIT_CLEAR res i)
            else (case counter sh i of Inl e \<Rightarrow> Inl e
                  | Inr c \<Rightarrow> dmq_purge_from is participants cnt sh (if cnt ! i \<noteq> c then BIT_CLEAR res i else res)))
      else dmq_purge_from is participants cnt sh res)"

definition dmq_purge_failed_participants :: "nodemask_t \<Rightarrow> int list \<Rightarrow> dmq_shared \<Rightarrow> dmq_error + nodemask_t" where
  "dmq_purge_failed_participants participants cnt sh =
     dmq_purge_from [0..<DMQ_N_MASK_POS] participants cnt sh participants"

section \<open>Receivers\<close>

text \<open>The slot a new receiver takes is the last free one.\<close>

definition dmq_register_receiver :: "string \<Rightarrow> int \<Rightarrow> nat \<Rightarrow> dmq_shared \<Rightarrow> dmq_error + (nat \<times> dmq_shared)" where
  "dmq_register_receiver sender_name my_pid MaxBackends sh =
     (if list_ex (\<lambda>i. slot_name (receivers sh ! i) \<noteq> [] \<and> slot_name (receivers sh ! i) = sender_name) [0..<DMQ_MAX_RECEIVERS]
      then Inl Dmq_duplicate
      else (case find (\<lambda>i. slot_name (receivers sh ! i) = []) (rev [0..<DMQ_MAX_RECEIVERS]) of
              None \<Rightarrow> Inl Dmq_full
            | Some receiver_id \<Rightarrow> Inr (receiver_id, sh\<lparr>receivers := (receivers sh)[receiver_id := (receivers sh ! receiver_id)\<lparr>
                slot_name := take DMQ_NAME_MAXLEN sender_name, slot_pid := my_pid,
                dsm_handles := map (\<lambda>(h, n). (DSM_HANDLE_INVALID, n)) (dsm_handles (receivers sh ! receiver_id))\<rparr>]\<rparr>)))"

definition dmq_receiver_at_exit :: "nat \<Rightarrow> dmq_shared \<Rightarrow> string \<times> dmq_shared" where
  "dmq_receiver_at_exit receiver_id sh =
     (slot_name (receivers sh ! receiver_id),
      sh\<lparr>receivers := (receivers sh)[receiver_id := (receivers sh ! receiver_id)\<lparr>slot_name := []\<rparr>]\<rparr>)"

text \<open>The process to be terminated, if any.\<close>

definition dmq_terminate_receiver :: "string \<Rightarrow> dmq_shared \<Rightarrow> int option" where
  "dmq_terminate_receiver name sh =
     (case find (\<lambda>i. take DMQ_NAME_MAXLEN (slot_name (receivers sh ! i)) = take DMQ_NAME_MAXLEN name) [0..<DMQ_MAX_RECEIVERS] of
        None \<Rightarrow> None | Some i \<Rightarrow> if slot_pid (receivers sh ! i) \<noteq> 0 then Some (slot_pid (receivers sh ! i)) else None)"

text \<open>
  A queue to a subscriber is made again when there is none or it was for an earlier process. The
  handles the receiver has are \<open>mq_handles\<close>; the number of the new segment is an argument.
\<close>

definition dmq_receiver_recreate_mq ::
  "nat \<Rightarrow> nat \<Rightarrow> uint64 \<Rightarrow> uint32 \<Rightarrow> (nat \<rightharpoonup> uint32) \<times> dmq_shared \<Rightarrow> (nat \<rightharpoonup> uint32) \<times> dmq_shared" where
  "dmq_receiver_recreate_mq receiver_id procno procno_gen new_segment x =
     (case x of (mq_handles, sh) \<Rightarrow>
        (mq_handles(procno \<mapsto> new_segment),
         sh\<lparr>receivers := (receivers sh)[receiver_id := (receivers sh ! receiver_id)\<lparr>
           dsm_handles := (dsm_handles (receivers sh ! receiver_id))[procno := (new_segment, procno_gen)]\<rparr>]\<rparr>))"

definition mq_good :: "nat \<Rightarrow> DmqStreamSubscription \<Rightarrow> (nat \<rightharpoonup> uint32) \<times> dmq_shared \<Rightarrow> bool" where
  "mq_good receiver_id sub x = (case x of (mq_handles, sh) \<Rightarrow> mq_handles (sub_procno sub) \<noteq> None \<and>
     snd (dsm_handles (receivers sh ! receiver_id) ! sub_procno sub) = sub_procno_gen sub)"

definition dmq_receiver_recreate_mqs ::
  "nat \<Rightarrow> (nat \<Rightarrow> uint32) \<Rightarrow> (nat \<rightharpoonup> uint32) \<times> dmq_shared \<Rightarrow> (nat \<rightharpoonup> uint32) \<times> dmq_shared" where
  "dmq_receiver_recreate_mqs receiver_id new_segment x =
     fold (\<lambda>(_, sub) x. if mq_good receiver_id sub x then x
             else dmq_receiver_recreate_mq receiver_id (sub_procno sub) (sub_procno_gen sub) (new_segment (sub_procno sub)) x)
       (dmq_subscriptions (snd x)) x"

text \<open>The hash table of subscriptions was made for keys of the size of a receiver name, and compares one character less.\<close>

definition stream_key :: "string \<Rightarrow> string" where
  "stream_key stream_name = take (DMQ_NAME_MAXLEN - 1) stream_name"

text \<open>Where a message goes: to the hook, nowhere, or in the queue of the process that subscribed.\<close>

datatype dispatch = Heartbeat "uint8 list" | Dropped | Passed nat "uint8 list"

definition dmq_handle_message ::
  "nat \<Rightarrow> (nat \<Rightarrow> uint32) \<Rightarrow> string \<Rightarrow> uint8 list \<Rightarrow> (nat \<rightharpoonup> uint32) \<times> dmq_shared \<Rightarrow> dispatch \<times> (nat \<rightharpoonup> uint32) \<times> dmq_shared" where
  "dmq_handle_message receiver_id new_segment stream_name body x =
     (if stream_name = ''H'' then (Heartbeat body, x)
      else (case map_of (dmq_subscriptions (snd x)) (stream_key stream_name) of
              None \<Rightarrow> (Dropped, x)
            | Some sub \<Rightarrow>
                (Passed (sub_procno sub) body,
                 if mq_good receiver_id sub x then x
                 else dmq_receiver_recreate_mq receiver_id (sub_procno sub) (sub_procno_gen sub) (new_segment (sub_procno sub)) x)))"

section \<open>The subscriber\<close>

text \<open>A handle stands for a receiver; \<open>in_mqh\<close> is the segment whose queue it has open.\<close>

record inhandle =
  in_name :: string
  in_mqh :: "uint32 option"
  in_mask_pos :: nat

record dmq_local =
  curr_stream_name :: string
  my_procno_gen :: uint64
  n_inhandles :: nat
  inhandles :: "inhandle list"

definition set_mqh :: "nat \<Rightarrow> uint32 option \<Rightarrow> dmq_local \<Rightarrow> dmq_local" where
  "set_mqh handle_id h loc = loc\<lparr>inhandles := (inhandles loc)[handle_id := (inhandles loc ! handle_id)\<lparr>in_mqh := h\<rparr>]\<rparr>"

text \<open>
  The loop of \<open>dmq_reattach_shm_mq\<close>: each element of the list is the shared memory as the process
  sees it in one round; after a round without result it pokes the receiver and sleeps.
\<close>

fun reattach_rounds :: "nat \<Rightarrow> (uint32 \<Rightarrow> bool) \<Rightarrow> nat \<Rightarrow> dmq_shared list \<Rightarrow> dmq_local \<Rightarrow> (bool \<times> dmq_local) option" where
  "reattach_rounds my_procno dsm_attach handle_id [] loc = None"
| "reattach_rounds my_procno dsm_attach handle_id (sh # views) loc =
     (case find (\<lambda>i. slot_name (receivers sh ! i) = in_name (inhandles loc ! handle_id)) [0..<DMQ_MAX_RECEIVERS] of
        None \<Rightarrow> Some (False, loc)
      | Some i \<Rightarrow>
          if slot_pid (receivers sh ! i) = 0 then Some (False, loc)
          else (case dsm_handles (receivers sh ! i) ! my_procno of (h, procno_gen) \<Rightarrow>
                  if h \<noteq> DSM_HANDLE_INVALID \<and> procno_gen = my_procno_gen loc
                  then (if dsm_attach h then Some (True, set_mqh handle_id (Some h) loc) else Some (False, loc))
                  else reattach_rounds my_procno dsm_attach handle_id views loc))"

definition dmq_reattach_shm_mq :: "nat \<Rightarrow> (uint32 \<Rightarrow> bool) \<Rightarrow> nat \<Rightarrow> dmq_shared list \<Rightarrow> dmq_local \<Rightarrow> (bool \<times> dmq_local) option" where
  "dmq_reattach_shm_mq my_procno dsm_attach handle_id views loc =
     reattach_rounds my_procno dsm_attach handle_id views (set_mqh handle_id None loc)"

text \<open>
  A build with assertions looks at every handle and so ends with the last free one, a build
  without them stops at the first.
\<close>

definition dmq_attach_receiver :: "bool \<Rightarrow> string \<Rightarrow> nat \<Rightarrow> dmq_local \<Rightarrow> dmq_error + dmq_local" where
  "dmq_attach_receiver assert_checking sender_name mask_pos loc =
     (let free = filter (\<lambda>i. in_name (inhandles loc ! i) = []) [0..<DMQ_MAX_RECEIVERS]
      in if assert_checking \<and> list_ex (\<lambda>i. in_name (inhandles loc ! i) \<noteq> [] \<and> in_mask_pos (inhandles loc ! i) = mask_pos) [0..<DMQ_MAX_RECEIVERS]
         then Inl Dmq_assert
         else if free = [] then Inl Dmq_full
         else (let handle_id = (if assert_checking then last free else hd free)
               in Inr (loc\<lparr>n_inhandles := max (n_inhandles loc) (handle_id + 1),
                    inhandles := (inhandles loc)[handle_id := (inhandles loc ! handle_id)\<lparr>
                      in_mqh := None, in_mask_pos := mask_pos, in_name := take DMQ_NAME_MAXLEN sender_name\<rparr>]\<rparr>)))"

definition dmq_detach_receiver :: "string \<Rightarrow> dmq_local \<Rightarrow> dmq_error + dmq_local" where
  "dmq_detach_receiver sender_name loc =
     (case find (\<lambda>i. take DMQ_NAME_MAXLEN (in_name (inhandles loc ! i)) = take DMQ_NAME_MAXLEN sender_name) [0..<DMQ_MAX_RECEIVERS] of
        None \<Rightarrow> Inl Dmq_not_found
      | Some handle_id \<Rightarrow> Inr (loc\<lparr>inhandles := (inhandles loc)[handle_id := (inhandles loc ! handle_id)\<lparr>
          in_mqh := None, in_name := []\<rparr>]\<rparr>))"

fun reattach_from ::
  "nat \<Rightarrow> (uint32 \<Rightarrow> bool) \<Rightarrow> (nat \<Rightarrow> dmq_shared list) \<Rightarrow> nat list \<Rightarrow> dmq_local \<Rightarrow> dmq_local option" where
  "reattach_from my_procno dsm_attach views [] loc = Some loc"
| "reattach_from my_procno dsm_attach views (i # is) loc =
     (if in_name (inhandles loc ! i) = [] \<or> in_mqh (inhandles loc ! i) \<noteq> None
      then reattach_from my_procno dsm_attach views is loc
      else (case dmq_reattach_shm_mq my_procno dsm_attach i (views i) loc of
              None \<Rightarrow> None
            | Some (_, loc) \<Rightarrow> reattach_from my_procno dsm_attach views is loc))"

definition dmq_reattach_receivers ::
  "nat \<Rightarrow> (uint32 \<Rightarrow> bool) \<Rightarrow> (nat \<Rightarrow> dmq_shared list) \<Rightarrow> dmq_local \<Rightarrow> dmq_local option" where
  "dmq_reattach_receivers my_procno dsm_attach views loc =
     reattach_from my_procno dsm_attach views [0..<n_inhandles loc] loc"

text \<open>The registration, and the error when the stream is taken; then the receivers are tried again.\<close>

definition subscribe_locked :: "nat \<Rightarrow> string \<Rightarrow> dmq_local \<Rightarrow> dmq_shared \<Rightarrow> bool \<times> dmq_local \<times> dmq_shared" where
  "subscribe_locked my_procno stream_name loc sh =
     (let (loc, sh) = (if my_procno_gen loc = 0
            then (let g = procno_gens sh ! my_procno + 1
                  in (loc\<lparr>my_procno_gen := g\<rparr>, sh\<lparr>procno_gens := (procno_gens sh)[my_procno := g]\<rparr>))
            else (loc, sh))
      in if map_of (dmq_subscriptions sh) (stream_key stream_name) \<noteq> None then (False, loc, sh)
         else (True, loc\<lparr>curr_stream_name := take DMQ_STREAM_NAME_MAXLEN stream_name\<rparr>,
               sh\<lparr>dmq_subscriptions := AList.update (stream_key stream_name)
                    \<lparr>sub_procno = my_procno, sub_procno_gen = my_procno_gen loc\<rparr> (dmq_subscriptions sh)\<rparr>))"

definition dmq_stream_subscribe ::
  "nat \<Rightarrow> (uint32 \<Rightarrow> bool) \<Rightarrow> (nat \<Rightarrow> dmq_shared list) \<Rightarrow> string \<Rightarrow> dmq_local \<Rightarrow> dmq_shared \<Rightarrow> (bool \<times> dmq_local \<times> dmq_shared) option" where
  "dmq_stream_subscribe my_procno dsm_attach views stream_name loc sh =
     (case subscribe_locked my_procno stream_name loc sh of
        (False, loc, sh) \<Rightarrow> Some (False, loc, sh)
      | (True, loc, sh) \<Rightarrow> (case dmq_reattach_receivers my_procno dsm_attach views loc of
            None \<Rightarrow> None | Some loc \<Rightarrow> Some (True, loc, sh)))"

definition dmq_stream_unsubscribe :: "dmq_local \<Rightarrow> dmq_shared \<Rightarrow> dmq_error + (dmq_local \<times> dmq_shared)" where
  "dmq_stream_unsubscribe loc sh =
     (if curr_stream_name loc = [] then Inr (loc, sh)
      else let key = stream_key (curr_stream_name loc)
           in if map_of (dmq_subscriptions sh) key = None then Inl Dmq_assert
              else Inr (loc\<lparr>curr_stream_name := []\<rparr>, sh\<lparr>dmq_subscriptions := AList.delete key (dmq_subscriptions sh)\<rparr>))"

section \<open>Receiving\<close>

datatype 'm shm_mq_result = SHM_MQ_SUCCESS 'm | SHM_MQ_WOULD_BLOCK | SHM_MQ_DETACHED

text \<open>What reading a handle gives; a handle without a queue counts as detached.\<close>

definition handle_result :: "(nat \<Rightarrow> 'm shm_mq_result) \<Rightarrow> dmq_local \<Rightarrow> nat \<Rightarrow> 'm shm_mq_result" where
  "handle_result mq_receive loc i = (if in_mqh (inhandles loc ! i) = None then SHM_MQ_DETACHED else mq_receive i)"

definition wanted :: "nodemask_t \<Rightarrow> dmq_local \<Rightarrow> nat \<Rightarrow> bool" where
  "wanted m loc i \<longleftrightarrow> in_name (inhandles loc ! i) \<noteq> [] \<and> BIT_CHECK m (in_mask_pos (inhandles loc ! i))"

text \<open>The result is the message, if any, the sender's position or -1, the flag \<open>wait\<close>, and the local state.\<close>

fun pop_from ::
  "nat \<Rightarrow> (uint32 \<Rightarrow> bool) \<Rightarrow> (nat \<Rightarrow> dmq_shared list) \<Rightarrow> (nat \<Rightarrow> 'm shm_mq_result) \<Rightarrow> nodemask_t \<Rightarrow>
   nat list \<Rightarrow> nodemask_t \<Rightarrow> dmq_local \<Rightarrow> ('m option \<times> int \<times> bool \<times> dmq_local) option" where
  "pop_from my_procno dsm_attach views mq_receive m [] unchk loc =
     Some (None, if unchk \<noteq> 0 then first_set_bit unchk else -1, True, loc)"
| "pop_from my_procno dsm_attach views mq_receive m (i # is) unchk loc =
     (if \<not> wanted m loc i then pop_from my_procno dsm_attach views mq_receive m is unchk loc
      else (case handle_result mq_receive loc i of
              SHM_MQ_SUCCESS msg \<Rightarrow> Some (Some msg, int (in_mask_pos (inhandles loc ! i)), False, loc)
            | SHM_MQ_DETACHED \<Rightarrow>
                (case dmq_reattach_shm_mq my_procno dsm_attach i (views i) loc of
                   None \<Rightarrow> None
                 | Some (ok, loc') \<Rightarrow> Some (None, int (in_mask_pos (inhandles loc ! i)), \<not> ok, loc'))
            | SHM_MQ_WOULD_BLOCK \<Rightarrow>
                pop_from my_procno dsm_attach views mq_receive m is (BIT_CLEAR unchk (in_mask_pos (inhandles loc ! i))) loc))"

definition dmq_pop_nb ::
  "nat \<Rightarrow> (uint32 \<Rightarrow> bool) \<Rightarrow> (nat \<Rightarrow> dmq_shared list) \<Rightarrow> (nat \<Rightarrow> 'm shm_mq_result) \<Rightarrow> nodemask_t \<Rightarrow>
   dmq_local \<Rightarrow> ('m option \<times> int \<times> bool \<times> dmq_local) option" where
  "dmq_pop_nb my_procno dsm_attach views mq_receive m loc =
     pop_from my_procno dsm_attach views mq_receive m [0..<n_inhandles loc] m loc"

section \<open>Lost connections\<close>

lemma purge_from_bits:
  "dmq_purge_from is m cnt sh res = Inr res' \<Longrightarrow> bit res' i \<longleftrightarrow>
     bit res i \<and> \<not> (i \<in> set is \<and> bit m i \<and> (cnt ! i = DMQSCONN_DEAD \<or> counter sh i \<noteq> Inr (cnt ! i)))"
  by (induction "is" arbitrary: res) (auto simp: mask_simps split: if_splits sum.splits)

lemma purge_bits:
  assumes "dmq_purge_failed_participants m cnt sh = Inr res"
  shows "bit res i \<longleftrightarrow> bit m i \<and> \<not> (i < DMQ_N_MASK_POS \<and> (cnt ! i = DMQSCONN_DEAD \<or> counter sh i \<noteq> Inr (cnt ! i)))"
  using purge_from_bits [OF assms [unfolded dmq_purge_failed_participants_def], of i] by auto

section \<open>Well-formed local state\<close>

text \<open>
  Every handle in use lies below \<open>n_inhandles\<close>, and no two of them stand for the same node.
\<close>

definition used :: "dmq_local \<Rightarrow> nat \<Rightarrow> bool" where
  "used loc i \<longleftrightarrow> in_name (inhandles loc ! i) \<noteq> []"

definition local_ok :: "dmq_local \<Rightarrow> bool" where
  "local_ok loc \<longleftrightarrow> length (inhandles loc) = DMQ_MAX_RECEIVERS \<and> n_inhandles loc \<le> DMQ_MAX_RECEIVERS \<and>
     (\<forall>i < DMQ_MAX_RECEIVERS. used loc i \<longrightarrow> i < n_inhandles loc \<and>
        (\<forall>j < DMQ_MAX_RECEIVERS. used loc j \<longrightarrow> in_mask_pos (inhandles loc ! i) = in_mask_pos (inhandles loc ! j) \<longrightarrow> i = j))"

lemma local_okI:
  assumes "length (inhandles loc) = DMQ_MAX_RECEIVERS" and "n_inhandles loc \<le> DMQ_MAX_RECEIVERS"
    and "\<And>i. i < DMQ_MAX_RECEIVERS \<Longrightarrow> used loc i \<Longrightarrow> i < n_inhandles loc"
    and "\<And>i j. i < DMQ_MAX_RECEIVERS \<Longrightarrow> j < DMQ_MAX_RECEIVERS \<Longrightarrow> used loc i \<Longrightarrow> used loc j \<Longrightarrow>
      in_mask_pos (inhandles loc ! i) = in_mask_pos (inhandles loc ! j) \<Longrightarrow> i = j"
  shows "local_ok loc"
  using assms unfolding local_ok_def by blast

text \<open>What opening and closing queues leaves as it is.\<close>

definition same_handles :: "dmq_local \<Rightarrow> dmq_local \<Rightarrow> bool" where
  "same_handles a b \<longleftrightarrow> n_inhandles a = n_inhandles b \<and> my_procno_gen a = my_procno_gen b \<and>
     curr_stream_name a = curr_stream_name b \<and>
     map in_name (inhandles a) = map in_name (inhandles b) \<and>
     map in_mask_pos (inhandles a) = map in_mask_pos (inhandles b)"

lemma same_handles_refl [simp]: "same_handles a a"
  by (simp add: same_handles_def)

lemma same_handles_trans: "same_handles a b \<Longrightarrow> same_handles b c \<Longrightarrow> same_handles a c"
  by (simp add: same_handles_def)

lemma same_handles_length: "same_handles a b \<Longrightarrow> length (inhandles a) = length (inhandles b)"
  unfolding same_handles_def by (metis length_map)

lemma same_handles_nth:
  assumes "same_handles a b" and "i < length (inhandles a)"
  shows "in_name (inhandles b ! i) = in_name (inhandles a ! i)"
    and "in_mask_pos (inhandles b ! i) = in_mask_pos (inhandles a ! i)"
  using assms same_handles_length [OF assms(1)] unfolding same_handles_def by (metis nth_map)+

lemma map_update_same: "f y = f (xs ! i) \<Longrightarrow> map f (xs[i := y]) = map f xs"
  by (metis list_update_beyond list_update_id map_update not_le)

lemma same_handles_set_mqh [simp]: "same_handles a (set_mqh i h a)"
  by (simp add: same_handles_def set_mqh_def map_update_same)

lemma reattach_rounds_same:
  "reattach_rounds my_procno dsm_attach i views loc = Some (ok, loc') \<Longrightarrow> same_handles loc loc'"
  by (induction views) (auto split: option.splits prod.splits if_splits)

lemma reattach_same:
  "dmq_reattach_shm_mq my_procno dsm_attach i views loc = Some (ok, loc') \<Longrightarrow> same_handles loc loc'"
  unfolding dmq_reattach_shm_mq_def
  by (metis reattach_rounds_same same_handles_set_mqh same_handles_trans)

lemma reattach_from_same:
  "reattach_from my_procno dsm_attach views is loc = Some loc' \<Longrightarrow> same_handles loc loc'"
proof (induction "is" arbitrary: loc)
  case (Cons i "is")
  then show ?case
    by (auto split: option.splits if_splits dest!: reattach_same Cons.IH elim: same_handles_trans)
qed simp

lemma local_ok_same:
  assumes "same_handles a b" and "local_ok a"
  shows "local_ok b"
proof -
  have l: "length (inhandles a) = DMQ_MAX_RECEIVERS" using assms(2) by (simp add: local_ok_def)
  have n: "n_inhandles b = n_inhandles a" using assms(1) by (simp add: same_handles_def)
  have u: "used b i = used a i" "in_mask_pos (inhandles b ! i) = in_mask_pos (inhandles a ! i)" if "i < DMQ_MAX_RECEIVERS" for i
    using same_handles_nth [OF assms(1)] that by (simp_all add: used_def l)
  show ?thesis
    using assms(2) same_handles_length [OF assms(1)] unfolding local_ok_def n by (simp add: u l)
qed

lemma attach_ok:
  assumes ok: "local_ok loc" and r: "dmq_attach_receiver ac sender_name p loc = Inr loc'"
    and fresh: "\<And>i. i < DMQ_MAX_RECEIVERS \<Longrightarrow> used loc i \<Longrightarrow> in_mask_pos (inhandles loc ! i) \<noteq> p"
  shows "local_ok loc'"
proof -
  let ?free = "filter (\<lambda>i. in_name (inhandles loc ! i) = []) [0..<DMQ_MAX_RECEIVERS]"
  have ne: "?free \<noteq> []" using r by (auto simp only: dmq_attach_receiver_def Let_def split: if_splits)
  define h where "h = (if ac then last ?free else hd ?free)"
  have "h \<in> set ?free" unfolding h_def using ne by (metis hd_in_set last_in_set)
  then have h: "h < DMQ_MAX_RECEIVERS" by (simp del: upt_rec_numeral)
  have l: "length (inhandles loc) = DMQ_MAX_RECEIVERS" and n: "n_inhandles loc \<le> DMQ_MAX_RECEIVERS"
    using ok by (simp_all add: local_ok_def)
  have e: "inhandles loc' = (inhandles loc)[h := (inhandles loc ! h)\<lparr>
      in_mqh := None, in_mask_pos := p, in_name := take DMQ_NAME_MAXLEN sender_name\<rparr>]"
    and m: "n_inhandles loc' = max (n_inhandles loc) (h + 1)"
    using r unfolding dmq_attach_receiver_def Let_def h_def by (auto simp del: upt_rec_numeral split: if_splits)
  have nth: "inhandles loc' ! i = (if i = h then (inhandles loc ! h)\<lparr>
      in_mqh := None, in_mask_pos := p, in_name := take DMQ_NAME_MAXLEN sender_name\<rparr> else inhandles loc ! i)"
    if "i < DMQ_MAX_RECEIVERS" for i
    using that by (simp add: e l nth_list_update)
  have o: "used loc i \<Longrightarrow> i < n_inhandles loc \<and> (\<forall>j < DMQ_MAX_RECEIVERS. used loc j \<longrightarrow>
      in_mask_pos (inhandles loc ! i) = in_mask_pos (inhandles loc ! j) \<longrightarrow> i = j)" if "i < DMQ_MAX_RECEIVERS" for i
    using ok that by (simp add: local_ok_def)
  have u: "used loc' i \<Longrightarrow> i = h \<or> used loc i" if "i < DMQ_MAX_RECEIVERS" for i
    using that by (auto simp: used_def nth split: if_splits)
  show ?thesis
  proof (rule local_okI)
    show "length (inhandles loc') = DMQ_MAX_RECEIVERS" by (simp add: e l)
    show "n_inhandles loc' \<le> DMQ_MAX_RECEIVERS" using n h by (simp add: m)
    show "i < n_inhandles loc'" if "i < DMQ_MAX_RECEIVERS" "used loc' i" for i
      using u [OF that] o [OF that(1)] by (auto simp: m)
    show "i = j" if "i < DMQ_MAX_RECEIVERS" "j < DMQ_MAX_RECEIVERS" "used loc' i" "used loc' j"
      "in_mask_pos (inhandles loc' ! i) = in_mask_pos (inhandles loc' ! j)" for i j
    proof (rule ccontr)
      assume "i \<noteq> j"
      then consider "i = h" "j \<noteq> h" | "j = h" "i \<noteq> h" | "i \<noteq> h" "j \<noteq> h" by blast
      then show False
      proof cases
        case 1 then show False using fresh [OF that(2)] u [OF that(2,4)] that(5) by (simp add: nth that h)
      next
        case 2 then show False using fresh [OF that(1)] u [OF that(1,3)] that(5) by (simp add: nth that h)
      next
        case 3 then show False using o [OF that(1)] u [OF that(1,3)] u [OF that(2,4)] that(2,5) \<open>i \<noteq> j\<close> by (simp add: nth that)
      qed
    qed
  qed
qed

lemma attach_assert_fresh:
  "dmq_attach_receiver True sender_name p loc = Inr loc' \<Longrightarrow> i < DMQ_MAX_RECEIVERS \<Longrightarrow> used loc i \<Longrightarrow>
   in_mask_pos (inhandles loc ! i) \<noteq> p"
  by (auto simp: dmq_attach_receiver_def Let_def used_def list_ex_upt simp del: upt_rec_numeral split: if_splits)

lemma detach_ok:
  assumes ok: "local_ok loc" and r: "dmq_detach_receiver sender_name loc = Inr loc'"
  shows "local_ok loc'"
proof -
  obtain h where h: "loc' = loc\<lparr>inhandles := (inhandles loc)[h := (inhandles loc ! h)\<lparr>in_mqh := None, in_name := []\<rparr>]\<rparr>"
    using r by (auto simp: dmq_detach_receiver_def simp del: upt_rec_numeral split: option.splits)
  have l: "length (inhandles loc) = DMQ_MAX_RECEIVERS" using ok by (simp add: local_ok_def)
  have "used loc' i \<Longrightarrow> used loc i \<and> inhandles loc' ! i = inhandles loc ! i" if "i < DMQ_MAX_RECEIVERS" for i
    using that by (cases "i = h") (simp_all add: used_def h l)
  then show ?thesis using ok unfolding local_ok_def by (simp add: h l)
qed

lemma pop_from_same:
  "pop_from my_procno dsm_attach views mq_receive m is unchk loc = Some (r, p, w, loc') \<Longrightarrow> same_handles loc loc'"
  by (induction "is" arbitrary: unchk)
    (auto split: shm_mq_result.splits option.splits if_splits dest: reattach_same)

lemma pop_same:
  "dmq_pop_nb my_procno dsm_attach views mq_receive m loc = Some (r, p, w, loc') \<Longrightarrow> same_handles loc loc'"
  unfolding dmq_pop_nb_def by (rule pop_from_same)

lemma subscribe_locked_ok:
  "subscribe_locked my_procno stream_name loc sh = (ok, loc', sh') \<Longrightarrow> local_ok loc \<Longrightarrow> local_ok loc'"
  by (auto simp: subscribe_locked_def Let_def local_ok_def used_def split: if_splits)

lemma subscribe_ok:
  assumes "dmq_stream_subscribe my_procno dsm_attach views stream_name loc sh = Some (ok, loc', sh')" and "local_ok loc"
  shows "local_ok loc'"
proof -
  obtain k a b where s: "subscribe_locked my_procno stream_name loc sh = (k, a, b)" by (metis prod_cases3)
  from subscribe_locked_ok [OF this assms(2)] have "local_ok a" .
  then show ?thesis
    using assms(1) by (auto simp: dmq_stream_subscribe_def s dmq_reattach_receivers_def
        split: bool.splits option.splits dest!: reattach_from_same intro: local_ok_same)
qed

text \<open>
  However a backend attaches to and detaches from receivers, subscribes, unsubscribes and
  receives, its table of handles stays well formed: all of them are within the part of the table
  that is scanned, and each node has at most one handle.
\<close>

theorem local_state_kept:
  assumes "local_ok loc"
  shows "(dmq_attach_receiver True sender_name p loc = Inr loc1 \<longrightarrow> local_ok loc1) \<and>
    (dmq_detach_receiver sender_name loc = Inr loc2 \<longrightarrow> local_ok loc2) \<and>
    (dmq_stream_subscribe my_procno dsm_attach views stream_name loc sh = Some (ok, loc3, sh3) \<longrightarrow> local_ok loc3) \<and>
    (dmq_stream_unsubscribe loc sh = Inr (loc4, sh4) \<longrightarrow> local_ok loc4) \<and>
    (dmq_pop_nb my_procno dsm_attach views mq_receive m loc = Some (r, q, w, loc5) \<longrightarrow> local_ok loc5)"
proof (intro conjI impI)
  show "local_ok loc1" if "dmq_attach_receiver True sender_name p loc = Inr loc1"
    using attach_ok [OF assms that] attach_assert_fresh [OF that] by blast
  show "local_ok loc4" if "dmq_stream_unsubscribe loc sh = Inr (loc4, sh4)"
    using that assms by (auto simp: dmq_stream_unsubscribe_def local_ok_def used_def Let_def split: if_splits)
  show "local_ok loc5" if "dmq_pop_nb my_procno dsm_attach views mq_receive m loc = Some (r, q, w, loc5)"
    using local_ok_same [OF pop_same [OF that] assms] .
qed (blast intro: assms detach_ok subscribe_ok)+

lemma all_less_10: "(\<forall>i < DMQ_MAX_RECEIVERS. P i) \<longleftrightarrow> (\<forall>i \<in> set [0..<10]. P i)"
  by auto

definition no_handle :: inhandle where "no_handle = \<lparr>in_name = [], in_mqh = None, in_mask_pos = 0\<rparr>"

definition fresh_local :: dmq_local where
  "fresh_local = \<lparr>curr_stream_name = [], my_procno_gen = 0, n_inhandles = 0, inhandles = replicate DMQ_MAX_RECEIVERS no_handle\<rparr>"

lemma fresh_local_ok: "local_ok fresh_local"
  by (auto simp: local_ok_def fresh_local_def used_def no_handle_def)

definition one_handle :: dmq_local where
  "one_handle = fresh_local\<lparr>n_inhandles := 10, inhandles := (replicate DMQ_MAX_RECEIVERS no_handle)[9 :=
     \<lparr>in_name = ''node2'', in_mqh = None, in_mask_pos = 1\<rparr>]\<rparr>"

theorem local_state_kept_witness: "dmq_attach_receiver True ''node2'' 1 fresh_local = Inr one_handle \<and> local_ok one_handle"
proof -
  have r: "dmq_attach_receiver True ''node2'' 1 fresh_local = Inr one_handle" by code_simp
  from local_state_kept [OF fresh_local_ok, of "''node2''" 1 one_handle] r show ?thesis by blast
qed

section \<open>Queues between receivers and subscribers\<close>

text \<open>A receiver's slot: a queue the receiver has is published for its process.\<close>

definition slot_ok :: "nat \<Rightarrow> (nat \<rightharpoonup> uint32) \<times> dmq_shared \<Rightarrow> bool" where
  "slot_ok receiver_id x \<longleftrightarrow> receiver_id < length (receivers (snd x)) \<and>
     (\<forall>sub \<in> snd ` set (dmq_subscriptions (snd x)). sub_procno sub < length (dsm_handles (receivers (snd x) ! receiver_id))) \<and>
     (\<forall>p s. fst x p = Some s \<longrightarrow> fst (dsm_handles (receivers (snd x) ! receiver_id) ! p) \<noteq> DSM_HANDLE_INVALID)"

abbreviation with_queue :: "nat \<Rightarrow> (nat \<Rightarrow> uint32) \<Rightarrow> DmqStreamSubscription \<Rightarrow> (nat \<rightharpoonup> uint32) \<times> dmq_shared \<Rightarrow> (nat \<rightharpoonup> uint32) \<times> dmq_shared" where
  "with_queue receiver_id new_segment sub x \<equiv> (if mq_good receiver_id sub x then x
     else dmq_receiver_recreate_mq receiver_id (sub_procno sub) (sub_procno_gen sub) (new_segment (sub_procno sub)) x)"

lemma with_queue_keeps:
  assumes "slot_ok receiver_id x" and "sub \<in> snd ` set (dmq_subscriptions (snd x))" and "\<And>p. new_segment p \<noteq> DSM_HANDLE_INVALID"
  shows "slot_ok receiver_id (with_queue receiver_id new_segment sub x)"
    and "mq_good receiver_id sub (with_queue receiver_id new_segment sub x)"
    and "dmq_subscriptions (snd (with_queue receiver_id new_segment sub x)) = dmq_subscriptions (snd x)"
    and "map slot_name (receivers (snd (with_queue receiver_id new_segment sub x))) = map slot_name (receivers (snd x))"
    and "map slot_pid (receivers (snd (with_queue receiver_id new_segment sub x))) = map slot_pid (receivers (snd x))"
    and "sub' \<in> snd ` set (dmq_subscriptions (snd x)) \<Longrightarrow> sub_procno sub' \<noteq> sub_procno sub \<Longrightarrow>
      mq_good receiver_id sub' (with_queue receiver_id new_segment sub x) = mq_good receiver_id sub' x"
  using assms
  by (auto simp: slot_ok_def mq_good_def dmq_receiver_recreate_mq_def nth_list_update map_update_same split: prod.splits if_splits) force+

lemma fold_with_queue:
  assumes "slot_ok receiver_id x" and "set subs \<subseteq> set (dmq_subscriptions (snd x))"
    and "distinct (map (sub_procno \<circ> snd) subs)" and "\<And>p. new_segment p \<noteq> DSM_HANDLE_INVALID"
  defines "y \<equiv> fold (\<lambda>(_, sub). with_queue receiver_id new_segment sub) subs x"
  shows "slot_ok receiver_id y \<and> dmq_subscriptions (snd y) = dmq_subscriptions (snd x) \<and>
    map slot_name (receivers (snd y)) = map slot_name (receivers (snd x)) \<and>
    map slot_pid (receivers (snd y)) = map slot_pid (receivers (snd x)) \<and>
    (\<forall>sub \<in> snd ` set (dmq_subscriptions (snd x)).
       sub \<in> snd ` set subs \<or> mq_good receiver_id sub x \<and> sub_procno sub \<notin> (sub_procno \<circ> snd) ` set subs \<longrightarrow> mq_good receiver_id sub y)"
  using assms(1-3) unfolding y_def
proof (induction subs arbitrary: x)
  case (Cons c subs)
  obtain n sub where c: "c = (n, sub)" by (cases c)
  let ?x = "with_queue receiver_id new_segment sub x"
  have m: "sub \<in> snd ` set (dmq_subscriptions (snd x))" using Cons.prems(2) unfolding c by force
  note k = with_queue_keeps [where receiver_id = receiver_id and new_segment = new_segment, OF Cons.prems(1) m assms(4)]
  have IH: "slot_ok receiver_id (fold (\<lambda>(_, sub). with_queue receiver_id new_segment sub) subs ?x) \<and>
    dmq_subscriptions (snd (fold (\<lambda>(_, sub). with_queue receiver_id new_segment sub) subs ?x)) = dmq_subscriptions (snd x) \<and>
    map slot_name (receivers (snd (fold (\<lambda>(_, sub). with_queue receiver_id new_segment sub) subs ?x))) = map slot_name (receivers (snd x)) \<and>
    map slot_pid (receivers (snd (fold (\<lambda>(_, sub). with_queue receiver_id new_segment sub) subs ?x))) = map slot_pid (receivers (snd x)) \<and>
    (\<forall>s \<in> snd ` set (dmq_subscriptions (snd x)).
       s \<in> snd ` set subs \<or> mq_good receiver_id s ?x \<and> sub_procno s \<notin> (sub_procno \<circ> snd) ` set subs \<longrightarrow>
       mq_good receiver_id s (fold (\<lambda>(_, sub). with_queue receiver_id new_segment sub) subs ?x))"
    using Cons.IH [OF k(1)] Cons.prems(2,3) unfolding k(3-5) by simp
  have "mq_good receiver_id s (fold (\<lambda>(_, sub). with_queue receiver_id new_segment sub) subs ?x)"
    if "s \<in> snd ` set (dmq_subscriptions (snd x))"
      "s \<in> snd ` set (c # subs) \<or> mq_good receiver_id s x \<and> sub_procno s \<notin> (sub_procno \<circ> snd) ` set (c # subs)" for s
  proof (cases "s \<in> snd ` set subs")
    case False
    have "sub_procno s \<notin> (sub_procno \<circ> snd) ` set subs"
      using that(2) False Cons.prems(3) unfolding c by auto
    moreover have "mq_good receiver_id s ?x"
      using that False k(2) k(6) [OF that(1)] unfolding c by auto
    ultimately show ?thesis using IH that(1) by blast
  qed (use IH that(1) in blast)
  then show ?case using IH unfolding c by simp
qed simp

lemma recreate_mqs_good:
  assumes "slot_ok receiver_id x" and "distinct (map (sub_procno \<circ> snd) (dmq_subscriptions (snd x)))"
    and "\<And>p. new_segment p \<noteq> DSM_HANDLE_INVALID" and "sub \<in> snd ` set (dmq_subscriptions (snd x))"
  defines "y \<equiv> dmq_receiver_recreate_mqs receiver_id new_segment x"
  shows "slot_ok receiver_id y \<and> mq_good receiver_id sub y \<and> dmq_subscriptions (snd y) = dmq_subscriptions (snd x) \<and>
    map slot_name (receivers (snd y)) = map slot_name (receivers (snd x)) \<and>
    map slot_pid (receivers (snd y)) = map slot_pid (receivers (snd x))"
  using fold_with_queue [of receiver_id x "dmq_subscriptions (snd x)" new_segment, OF assms(1) _ assms(2,3)] assms(4)
  unfolding y_def dmq_receiver_recreate_mqs_def by auto

lemma reattach_finds_queue:
  assumes "slot_ok receiver_id (mqs, sh)" and "mq_good receiver_id sub (mqs, sh)"
    and "sub_procno sub = my_procno" and "sub_procno_gen sub = my_procno_gen loc"
    and "receiver_id < DMQ_MAX_RECEIVERS" and "slot_name (receivers sh ! receiver_id) = in_name (inhandles loc ! i)"
    and "\<And>j. j < receiver_id \<Longrightarrow> slot_name (receivers sh ! j) \<noteq> in_name (inhandles loc ! i)"
    and "slot_pid (receivers sh ! receiver_id) \<noteq> 0" and "i < length (inhandles loc)"
  shows "dmq_reattach_shm_mq my_procno (\<lambda>_. True) i [sh] loc =
    Some (True, set_mqh i (Some (fst (dsm_handles (receivers sh ! receiver_id) ! my_procno))) (set_mqh i None loc))"
proof -
  have n: "in_name (inhandles (set_mqh i None loc) ! i) = in_name (inhandles loc ! i)"
    using same_handles_nth(1) [OF same_handles_set_mqh [of loc i None] assms(9)] .
  then have f: "find (\<lambda>j. slot_name (receivers sh ! j) = in_name (inhandles (set_mqh i None loc) ! i)) [0..<DMQ_MAX_RECEIVERS] = Some receiver_id"
    unfolding n find_upt_Some_iff using assms(5-7) by blast
  obtain h g where hg: "dsm_handles (receivers sh ! receiver_id) ! my_procno = (h, g)" by (cases "dsm_handles (receivers sh ! receiver_id) ! my_procno")
  have "h \<noteq> DSM_HANDLE_INVALID" "g = my_procno_gen loc"
    using assms(1-4) hg by (auto simp: slot_ok_def mq_good_def)
  then show ?thesis
    using assms(8) unfolding dmq_reattach_shm_mq_def
    by (simp add: f hg del: upt_rec_numeral) (simp add: set_mqh_def)
qed

lemma subscribe_locked_entry:
  assumes "subscribe_locked my_procno stream_name loc sh = (True, loc', sh')"
  shows "map_of (dmq_subscriptions sh') (stream_key stream_name) = Some \<lparr>sub_procno = my_procno, sub_procno_gen = my_procno_gen loc'\<rparr>"
  using assms by (auto simp: subscribe_locked_def Let_def update_conv' split: if_splits)

text \<open>
  C35. A subscriber does not wait in vain for the queue of a live receiver: when it has subscribed
  and poked the receiver, and the receiver has gone over the subscriptions, the subscriber finds
  its queue the next time it looks, and messages of its stream are passed to it.
\<close>

theorem subscriber_gets_queue:
  assumes sub: "subscribe_locked my_procno stream_name loc sh = (True, loc', sh')"
    and slot: "slot_ok receiver_id (mqs, sh')" "receiver_id < DMQ_MAX_RECEIVERS" "slot_pid (receivers sh' ! receiver_id) \<noteq> 0"
    and procs: "distinct (map (sub_procno \<circ> snd) (dmq_subscriptions sh'))"
    and seg: "\<And>p. new_segment p \<noteq> DSM_HANDLE_INVALID"
    and handle: "i < length (inhandles loc')" "slot_name (receivers sh' ! receiver_id) = in_name (inhandles loc' ! i)"
    and first: "\<And>j. j < receiver_id \<Longrightarrow> slot_name (receivers sh' ! j) \<noteq> in_name (inhandles loc' ! i)"
    and poked: "dmq_receiver_recreate_mqs receiver_id new_segment (mqs, sh') = (mqs', sh'')"
  shows "(\<exists>h loc''. dmq_reattach_shm_mq my_procno (\<lambda>_. True) i [sh''] loc' = Some (True, loc'') \<and>
      in_mqh (inhandles loc'' ! i) = Some h \<and> dsm_handles (receivers sh'' ! receiver_id) ! my_procno = (h, my_procno_gen loc')) \<and>
    (stream_name \<noteq> ''H'' \<longrightarrow> dmq_handle_message receiver_id new_segment stream_name body (mqs', sh'') = (Passed my_procno body, mqs', sh''))"
proof -
  let ?sub = "\<lparr>sub_procno = my_procno, sub_procno_gen = my_procno_gen loc'\<rparr>"
  note e = subscribe_locked_entry [OF sub]
  have m: "?sub \<in> snd ` set (dmq_subscriptions sh')" using map_of_SomeD [OF e] by force
  have y: "slot_ok receiver_id (mqs', sh'')" "mq_good receiver_id ?sub (mqs', sh'')"
    "dmq_subscriptions sh'' = dmq_subscriptions sh'"
    "map slot_name (receivers sh'') = map slot_name (receivers sh')" "map slot_pid (receivers sh'') = map slot_pid (receivers sh')"
    using recreate_mqs_good [of receiver_id "(mqs, sh')" new_segment ?sub] slot(1) procs seg m by (simp_all add: poked)
  have l: "receiver_id < length (receivers sh')" using slot(1) by (simp add: slot_ok_def)
  have len: "length (receivers sh'') = length (receivers sh')" using y(4) by (metis length_map)
  have nth: "slot_name (receivers sh'' ! j) = slot_name (receivers sh' ! j)" "slot_pid (receivers sh'' ! j) = slot_pid (receivers sh' ! j)"
    if "j \<le> receiver_id" for j
    using y(4,5) that l len by (metis le_less_trans nth_map)+
  from reattach_finds_queue [OF y(1,2) _ _ slot(2) _ _ _ handle(1), of my_procno]
  have r: "dmq_reattach_shm_mq my_procno (\<lambda>_. True) i [sh''] loc' =
    Some (True, set_mqh i (Some (fst (dsm_handles (receivers sh'' ! receiver_id) ! my_procno))) (set_mqh i None loc'))"
    using slot(3) handle first by (simp add: nth)
  have g: "snd (dsm_handles (receivers sh'' ! receiver_id) ! my_procno) = my_procno_gen loc'"
    using y(2) by (simp add: mq_good_def)
  have "dmq_handle_message receiver_id new_segment stream_name body (mqs', sh'') = (Passed my_procno body, mqs', sh'')"
    if "stream_name \<noteq> ''H''"
    using that y(2,3) e by (simp add: dmq_handle_message_def)
  with r g handle(1) show ?thesis by (auto simp: set_mqh_def prod_eq_iff)
qed

definition sample_shared :: dmq_shared where
  "sample_shared = \<lparr>sender_pid = 0, destinations = [], sconn_cnt = replicate DMQ_MAX_DESTINATIONS 0, procno_gens = [0, 0],
     receivers = [\<lparr>slot_name = ''node2'', slot_pid = 77, dsm_handles = [(0, 0), (0, 0)]\<rparr>], dmq_subscriptions = []\<rparr>"

definition sample_subscribed :: dmq_shared where
  "sample_subscribed = sample_shared\<lparr>procno_gens := [0, 1], dmq_subscriptions := [(''xid700'', \<lparr>sub_procno = 1, sub_procno_gen = 1\<rparr>)]\<rparr>"

theorem subscriber_gets_queue_witness:
  "\<exists>sh'' mqs' loc''. dmq_receiver_recreate_mqs 0 (\<lambda>p. 5) (Map.empty, sample_subscribed) = (mqs', sh'') \<and>
     dmq_reattach_shm_mq 1 (\<lambda>_. True) 9 [sh''] (one_handle\<lparr>my_procno_gen := 1, curr_stream_name := ''xid700''\<rparr>) = Some (True, loc'') \<and>
     in_mqh (inhandles loc'' ! 9) \<noteq> None"
proof -
  let ?loc = "one_handle\<lparr>my_procno_gen := 1, curr_stream_name := ''xid700''\<rparr>"
  have s: "subscribe_locked 1 ''xid700'' one_handle sample_shared = (True, ?loc, sample_subscribed)" by code_simp
  obtain mqs' sh'' where p: "dmq_receiver_recreate_mqs 0 (\<lambda>p. 5) (Map.empty, sample_subscribed) = (mqs', sh'')"
    by (cases "dmq_receiver_recreate_mqs 0 (\<lambda>p. 5) (Map.empty, sample_subscribed)")
  have "slot_ok 0 (Map.empty, sample_subscribed)" by (simp add: slot_ok_def sample_subscribed_def sample_shared_def)
  from subscriber_gets_queue [OF s this _ _ _ _ _ _ _ p, of 9]
  have "\<exists>h loc''. dmq_reattach_shm_mq 1 (\<lambda>_. True) 9 [sh''] ?loc = Some (True, loc'') \<and> in_mqh (inhandles loc'' ! 9) = Some h"
    by (simp add: sample_subscribed_def sample_shared_def one_handle_def) blast
  with p show ?thesis by blast
qed

end
