(* ===== verification/Dmq_Sender.thy ===== *)
theory Dmq_Sender
  imports Dmq
begin

text \<open>
  The process that sends all messages of a node (\<open>dmq_sender_main\<close>, \<open>dmq_send\<close> and \<open>dmq_push_buffer\<close>
  of \<open>src/src/dmq.c\<close>): it keeps one connection for each destination, each of them a state machine,
  copies what the backends put in their queues to the connections, sends heartbeats, and publishes
  a counter for every connection. \<open>libpq\<close> belongs to Postgres: what its calls return is an
  argument of the events. Time is in milliseconds. The set of awaited sockets is not modelled.

  The counters let a client find out that a connection was lost after it sent a request.
\<close>

section \<open>State\<close>

datatype DmqConnState = Idle | Connecting | Negotiating | Active

text \<open>A local copy of a destination with its connection; \<open>c_pgconn\<close> says whether there is one.\<close>

record conn =
  c_dest :: DmqDestination
  c_active :: bool
  c_state :: DmqConnState
  c_pgconn :: bool
  c_start :: int

datatype sender_effect =
  Connect_hook string
| Disconnect_hook string
| Message_sent nat "uint8 list"
| Message_dropped nat "uint8 list"

text \<open>\<open>own_cnt\<close> is the local array \<open>sconn_cnt\<close>, which keeps the value while the public one is dead.\<close>

record sender =
  conns :: "conn list"
  own_cnt :: "int list"
  prev_timer_at :: int
  shm :: dmq_shared
  effects :: "sender_effect list"

definition c_name :: "sender \<Rightarrow> nat \<Rightarrow> string" where
  "c_name w i = dest_receiver_name (c_dest (conns w ! i))"

definition c_mask_pos :: "sender \<Rightarrow> nat \<Rightarrow> nat" where
  "c_mask_pos w i = dest_mask_pos (c_dest (conns w ! i))"

definition set_conn :: "nat \<Rightarrow> (conn \<Rightarrow> conn) \<Rightarrow> sender \<Rightarrow> sender" where
  "set_conn i f w = w\<lparr>conns := (conns w)[i := f (conns w ! i)]\<rparr>"

definition emit :: "sender_effect \<Rightarrow> sender \<Rightarrow> sender" where
  "emit e w = w\<lparr>effects := effects w @ [e]\<rparr>"

text \<open>Both arrays of counters have \<open>DMQ_MAX_DESTINATIONS\<close> elements and are indexed by node.\<close>

definition publish :: "nat \<Rightarrow> int \<Rightarrow> sender \<Rightarrow> dmq_error + sender" where
  "publish m c w = (if m < length (sconn_cnt (shm w))
     then Inr (w\<lparr>shm := (shm w)\<lparr>sconn_cnt := (sconn_cnt (shm w))[m := c]\<rparr>\<rparr>) else Inl Dmq_out_of_bounds)"

definition set_own :: "nat \<Rightarrow> int \<Rightarrow> sender \<Rightarrow> dmq_error + sender" where
  "set_own m c w = (if m < length (own_cnt w) then Inr (w\<lparr>own_cnt := (own_cnt w)[m := c]\<rparr>) else Inl Dmq_out_of_bounds)"

definition ebind :: "'e + 'a \<Rightarrow> ('a \<Rightarrow> 'e + 'b) \<Rightarrow> 'e + 'b" where
  "ebind x f = (case x of Inl e \<Rightarrow> Inl e | Inr a \<Rightarrow> f a)"

lemma ebind_Inr_iff: "ebind x f = Inr b \<longleftrightarrow> (\<exists>a. x = Inr a \<and> f a = Inr b)"
  by (simp add: ebind_def split: sum.splits)

section \<open>Messages\<close>

text \<open>What a backend puts in its queue: the number of the destination, the stream and the payload.\<close>

definition dmq_push_buffer :: "nat \<Rightarrow> uint8 list \<Rightarrow> uint8 list \<Rightarrow> dmq_error + uint8 list" where
  "dmq_push_buffer dest_id stream_name payload =
     (if length stream_name + 1 \<le> DMQ_STREAM_NAME_MAXLEN
      then Inr (word_of_nat dest_id # stream_name @ [0] @ payload) else Inl Dmq_assert)"

text \<open>\<open>fe_send\<close> fails without a connection.\<close>

definition dmq_send :: "bool \<Rightarrow> nat \<Rightarrow> uint8 list \<Rightarrow> sender \<Rightarrow> dmq_error + sender" where
  "dmq_send fe_send_ok conn_id data w =
     (if fe_send_ok \<and> c_pgconn (conns w ! conn_id) then Inr (emit (Message_sent conn_id data) w)
      else ebind (publish (c_mask_pos w conn_id) DMQSCONN_DEAD (set_conn conn_id (\<lambda>c. c\<lparr>c_state := Idle\<rparr>) w)) (\<lambda>w.
             Inr (emit (Disconnect_hook (c_name w conn_id)) w)))"

definition transfer :: "bool \<Rightarrow> uint8 list \<Rightarrow> sender \<Rightarrow> dmq_error + sender" where
  "transfer fe_send_ok data w =
     (case data of [] \<Rightarrow> Inl Dmq_assert
      | b # data \<Rightarrow>
          (let conn_id = unat b
           in if DMQ_MAX_DESTINATIONS \<le> conn_id then Inl Dmq_assert
              else if c_state (conns w ! conn_id) = Active then dmq_send fe_send_ok conn_id data w
              else Inr (emit (Message_dropped conn_id data) w)))"

section \<open>Reading the table of destinations\<close>

definition reload_one :: "nat \<Rightarrow> sender \<Rightarrow> dmq_error + sender" where
  "reload_one i w =
     (let dest = destinations (shm w) ! i
      in if dest_active dest \<and> \<not> c_active (conns w ! i)
         then ebind (set_own (dest_mask_pos dest) 0 (set_conn i (\<lambda>c. c\<lparr>c_dest := dest, c_active := True, c_pgconn := False, c_state := Idle\<rparr>) w)) (\<lambda>w.
              ebind (publish (dest_mask_pos dest) DMQSCONN_DEAD w) (\<lambda>w. Inr (w\<lparr>prev_timer_at := 0\<rparr>)))
         else if \<not> dest_active dest \<and> c_active (conns w ! i)
         then Inr (set_conn i (\<lambda>c. c\<lparr>c_active := False, c_pgconn := False\<rparr>) w)
         else if dest_active dest \<and> c_active (conns w ! i) \<and> reconnect_requested dest
         then (let w1 = w\<lparr>shm := (shm w)\<lparr>destinations := (destinations (shm w))[i := dest\<lparr>reconnect_requested := False\<rparr>]\<rparr>\<rparr>;
                   w2 = (if c_state (conns w ! i) = Active then emit (Disconnect_hook (c_name w i)) w1 else w1)
               in publish (dest_mask_pos dest) DMQSCONN_DEAD (set_conn i (\<lambda>c. c\<lparr>c_pgconn := False, c_state := Idle\<rparr>) w2))
         else Inr w)"

fun reload_from :: "nat list \<Rightarrow> sender \<Rightarrow> dmq_error + sender" where
  "reload_from [] w = Inr w"
| "reload_from (i # is) w = ebind (reload_one i w) (reload_from is)"

definition reload :: "sender \<Rightarrow> dmq_error + sender" where
  "reload w = reload_from [0..<DMQ_MAX_DESTINATIONS] w"

section \<open>Timer\<close>

definition timer_one :: "int \<Rightarrow> int \<Rightarrow> (nat \<Rightarrow> bool) \<Rightarrow> (nat \<Rightarrow> bool) \<Rightarrow> (string \<Rightarrow> uint8 list) \<Rightarrow> nat \<Rightarrow> sender \<Rightarrow> dmq_error + sender" where
  "timer_one connect_timeout now connect_ok fe_send_ok heartbeat_hook conn_id w =
     (if \<not> c_active (conns w ! conn_id) then Inr w
      else case c_state (conns w ! conn_id) of
        Idle \<Rightarrow> Inr (set_conn conn_id (\<lambda>c. if connect_ok conn_id
                       then c\<lparr>c_pgconn := True, c_start := now, c_state := Connecting\<rparr> else c\<lparr>c_pgconn := True, c_state := Idle\<rparr>) w)
      | Active \<Rightarrow> dmq_send (fe_send_ok conn_id) conn_id ([72, 0] @ heartbeat_hook (c_name w conn_id)) w
      | Connecting \<Rightarrow>
          if 0 < connect_timeout \<and> now - c_start (conns w ! conn_id) \<ge> connect_timeout * 1000
          then Inr (set_conn conn_id (\<lambda>c. c\<lparr>c_state := Idle\<rparr>) w) else Inr w
      | Negotiating \<Rightarrow> Inr w)"

fun timer_from :: "int \<Rightarrow> int \<Rightarrow> (nat \<Rightarrow> bool) \<Rightarrow> (nat \<Rightarrow> bool) \<Rightarrow> (string \<Rightarrow> uint8 list) \<Rightarrow> nat list \<Rightarrow> sender \<Rightarrow> dmq_error + sender" where
  "timer_from connect_timeout now connect_ok fe_send_ok heartbeat_hook [] w = Inr w"
| "timer_from connect_timeout now connect_ok fe_send_ok heartbeat_hook (i # is) w =
     ebind (timer_one connect_timeout now connect_ok fe_send_ok heartbeat_hook i w)
       (timer_from connect_timeout now connect_ok fe_send_ok heartbeat_hook is)"

text \<open>The timer goes off when the interval has passed; otherwise the process waits for a socket.\<close>

definition timer :: "int \<Rightarrow> int \<Rightarrow> int \<Rightarrow> (nat \<Rightarrow> bool) \<Rightarrow> (nat \<Rightarrow> bool) \<Rightarrow> (string \<Rightarrow> uint8 list) \<Rightarrow> sender \<Rightarrow> dmq_error + sender" where
  "timer heartbeat_send_timeout connect_timeout now connect_ok fe_send_ok heartbeat_hook w =
     (if now - prev_timer_at w > heartbeat_send_timeout
      then timer_from connect_timeout now connect_ok fe_send_ok heartbeat_hook [0..<DMQ_MAX_DESTINATIONS] (w\<lparr>prev_timer_at := now\<rparr>)
      else Inr w)"

section \<open>Sockets\<close>

datatype PostgresPollingStatusType = PGRES_POLLING_FAILED | PGRES_POLLING_READING | PGRES_POLLING_WRITING | PGRES_POLLING_OK | PGRES_POLLING_ACTIVE

text \<open>\<open>consume\<close> and \<open>busy\<close> are what \<open>PQconsumeInput\<close> and \<open>PQisBusy\<close> return.\<close>

definition negotiated :: "nat \<Rightarrow> sender \<Rightarrow> dmq_error + sender" where
  "negotiated conn_id w =
     (let m = c_mask_pos w conn_id
      in ebind (set_own m (own_cnt w ! m + 1) (set_conn conn_id (\<lambda>c. c\<lparr>c_state := Active\<rparr>) w)) (\<lambda>w.
         ebind (publish m (own_cnt w ! m) w) (\<lambda>w. Inr (emit (Connect_hook (c_name w conn_id)) w))))"

definition socket_event :: "PostgresPollingStatusType \<Rightarrow> bool \<Rightarrow> bool \<Rightarrow> nat \<Rightarrow> sender \<Rightarrow> dmq_error + sender" where
  "socket_event poll consume busy conn_id w =
     (if DMQ_MAX_DESTINATIONS \<le> conn_id \<or> \<not> c_active (conns w ! conn_id) then Inl Dmq_assert
      else case c_state (conns w ! conn_id) of
        Idle \<Rightarrow> Inl Dmq_assert
      | Connecting \<Rightarrow>
          (case poll of
             PGRES_POLLING_READING \<Rightarrow> Inr w
           | PGRES_POLLING_WRITING \<Rightarrow> Inr w
           | PGRES_POLLING_OK \<Rightarrow> Inr (set_conn conn_id (\<lambda>c. c\<lparr>c_state := Negotiating\<rparr>) w)
           | PGRES_POLLING_FAILED \<Rightarrow> Inr (set_conn conn_id (\<lambda>c. c\<lparr>c_state := Idle\<rparr>) w)
           | PGRES_POLLING_ACTIVE \<Rightarrow> Inl Dmq_assert)
      | Negotiating \<Rightarrow>
          (let w = (if consume then w else set_conn conn_id (\<lambda>c. c\<lparr>c_state := Idle\<rparr>) w)
           in if busy then Inr w else negotiated conn_id w)
      | Active \<Rightarrow>
          if consume then Inr w
          else ebind (publish (c_mask_pos w conn_id) DMQSCONN_DEAD (set_conn conn_id (\<lambda>c. c\<lparr>c_state := Idle\<rparr>) w)) (\<lambda>w.
                 Inr (emit (Disconnect_hook (c_name w conn_id)) w)))"

section \<open>Events\<close>

text \<open>Besides the sender's own steps, other processes change the table of destinations.\<close>

datatype sender_event =
  Reload
| Transfer bool "uint8 list"
| Timer int int int "nat \<Rightarrow> bool" "nat \<Rightarrow> bool" "string \<Rightarrow> uint8 list"
| Socket PostgresPollingStatusType bool bool nat
| Add_destination string string string nat int
| Drop_destination "string option"
| Reconnect_destination "string option"

fun sender_do :: "sender_event \<Rightarrow> sender \<Rightarrow> dmq_error + sender" where
  "sender_do Reload w = reload w"
| "sender_do (Transfer ok data) w = transfer ok data w"
| "sender_do (Timer heartbeat_send_timeout connect_timeout now connect_ok fe_send_ok heartbeat_hook) w =
     timer heartbeat_send_timeout connect_timeout now connect_ok fe_send_ok heartbeat_hook w"
| "sender_do (Socket poll consume busy conn_id) w = socket_event poll consume busy conn_id w"
| "sender_do (Add_destination connstr sender_name receiver_name recv_mask_pos recv_timeout) w =
     ebind (dmq_destination_add connstr sender_name receiver_name recv_mask_pos recv_timeout (shm w)) (\<lambda>(_, sh). Inr (w\<lparr>shm := sh\<rparr>))"
| "sender_do (Drop_destination name) w = Inr (w\<lparr>shm := dmq_destination_drop name (shm w)\<rparr>)"
| "sender_do (Reconnect_destination name) w = Inr (w\<lparr>shm := dmq_destination_reconnect name (shm w)\<rparr>)"

section \<open>The connection to one node\<close>

definition fresh :: "nat \<Rightarrow> nat \<Rightarrow> sender \<Rightarrow> bool" where
  "fresh p i w \<longleftrightarrow> dest_active (destinations (shm w) ! i) \<and> \<not> c_active (conns w ! i) \<and> dest_mask_pos (destinations (shm w) ! i) = p"

text \<open>
  The destination of a node is added anew: the sender starts over with its counter, or, when the
  new one takes the place of the old before the sender has seen it dropped, does not notice at all.
\<close>

definition added_anew :: "nat \<Rightarrow> sender_event \<Rightarrow> sender \<Rightarrow> bool" where
  "added_anew p e w = (case e of
     Reload \<Rightarrow> list_ex (\<lambda>i. fresh p i w) [0..<DMQ_MAX_DESTINATIONS]
   | Add_destination _ _ _ _ _ \<Rightarrow> (case free_destination (shm w) of None \<Rightarrow> False
       | Some i \<Rightarrow> c_active (conns w ! i) \<and> c_mask_pos w i = p)
   | _ \<Rightarrow> False)"

definition sized :: "sender \<Rightarrow> bool" where
  "sized w \<longleftrightarrow> length (conns w) = DMQ_MAX_DESTINATIONS \<and> length (own_cnt w) = DMQ_MAX_DESTINATIONS \<and>
     length (sconn_cnt (shm w)) = DMQ_MAX_DESTINATIONS \<and> length (destinations (shm w)) = DMQ_MAX_DESTINATIONS"

definition serves :: "nat \<Rightarrow> nat \<Rightarrow> sender \<Rightarrow> bool" where
  "serves p j w \<longleftrightarrow> c_active (conns w ! j) \<and> c_mask_pos w j = p"

text \<open>The public counter is dead, or it is that of the connection, which is up.\<close>

definition conn_ok :: "nat \<Rightarrow> nat \<Rightarrow> sender \<Rightarrow> bool" where
  "conn_ok p i w \<longleftrightarrow> sized w \<and> i < DMQ_MAX_DESTINATIONS \<and> p < DMQ_MAX_DESTINATIONS \<and> serves p i w \<and>
     (dest_active (destinations (shm w) ! i) \<longrightarrow> dest_mask_pos (destinations (shm w) ! i) = p) \<and>
     (\<forall>j < DMQ_MAX_DESTINATIONS. serves p j w \<longrightarrow> j = i) \<and>
     (sconn_cnt (shm w) ! p = DMQSCONN_DEAD \<or> c_state (conns w ! i) = Active \<and> sconn_cnt (shm w) ! p = own_cnt w ! p)"

definition gone :: "nat \<Rightarrow> sender \<Rightarrow> bool" where
  "gone p w \<longleftrightarrow> sized w \<and> p < DMQ_MAX_DESTINATIONS \<and> (\<forall>j < DMQ_MAX_DESTINATIONS. \<not> serves p j w)"

definition tracked :: "nat \<Rightarrow> nat \<Rightarrow> sender \<Rightarrow> bool" where
  "tracked p i w \<longleftrightarrow> conn_ok p i w \<or> gone p w"

text \<open>The counters only grow, and a public counter that changes is dead or larger than all before.\<close>

definition counts_on :: "nat \<Rightarrow> sender \<Rightarrow> sender \<Rightarrow> bool" where
  "counts_on p w w' \<longleftrightarrow> own_cnt w ! p \<le> own_cnt w' ! p \<and>
     (sconn_cnt (shm w') ! p = sconn_cnt (shm w) ! p \<or> sconn_cnt (shm w') ! p = DMQSCONN_DEAD \<or>
      sconn_cnt (shm w') ! p > own_cnt w ! p)"

lemma counts_on_refl [simp]: "counts_on p w w"
  by (simp add: counts_on_def)

lemma counts_on_trans: "counts_on p a b \<Longrightarrow> counts_on p b c \<Longrightarrow> counts_on p a c"
  by (auto simp: counts_on_def)

lemmas sender_ops = set_conn_def emit_def publish_def set_own_def ebind_Inr_iff c_mask_pos_def

text \<open>A step that touches one connection only.\<close>

lemma tracked_one:
  assumes "tracked p i w" and "sized w'" and "k < DMQ_MAX_DESTINATIONS"
    and "\<And>j. j \<noteq> k \<Longrightarrow> conns w' ! j = conns w ! j"
    and "serves p k w' \<Longrightarrow> serves p k w"
    and "\<And>j. j < DMQ_MAX_DESTINATIONS \<Longrightarrow> dest_active (destinations (shm w') ! j) = dest_active (destinations (shm w) ! j) \<and>
      dest_mask_pos (destinations (shm w') ! j) = dest_mask_pos (destinations (shm w) ! j)"
    and "serves p k w' \<Longrightarrow> sconn_cnt (shm w') ! p = DMQSCONN_DEAD \<or> c_state (conns w' ! k) = Active \<and> sconn_cnt (shm w') ! p = own_cnt w' ! p"
    and "\<not> serves p k w \<Longrightarrow> sconn_cnt (shm w') ! p = DMQSCONN_DEAD \<or> own_cnt w' ! p = own_cnt w ! p \<and> sconn_cnt (shm w') ! p = sconn_cnt (shm w) ! p"
  shows "tracked p i w'"
proof -
  have s: "serves p j w' \<Longrightarrow> serves p j w" for j
    using assms(4,5) by (cases "j = k") (auto simp: serves_def c_mask_pos_def)
  show ?thesis
  proof (cases "gone p w \<or> \<not> serves p i w'")
    case True
    then have "gone p w'" using assms(1-2) s by (auto simp: gone_def tracked_def conn_ok_def)
    then show ?thesis by (simp add: tracked_def)
  next
    case False
    then have ok: "conn_ok p i w" and i: "serves p i w'" using assms(1) by (auto simp: tracked_def)
    have "sconn_cnt (shm w') ! p = DMQSCONN_DEAD \<or> c_state (conns w' ! i) = Active \<and> sconn_cnt (shm w') ! p = own_cnt w' ! p"
    proof (cases "k = i")
      case False
      then have "\<not> serves p k w" using ok assms(3) unfolding conn_ok_def by blast
      moreover have "conns w' ! i = conns w ! i" using assms(4) [of i] False by simp
      moreover have "sconn_cnt (shm w) ! p = DMQSCONN_DEAD \<or> c_state (conns w ! i) = Active \<and> sconn_cnt (shm w) ! p = own_cnt w ! p"
        using ok unfolding conn_ok_def by blast
      ultimately show ?thesis using assms(8) by auto
    qed (use assms(7) i in blast)
    moreover have "dest_active (destinations (shm w') ! i) \<longrightarrow> dest_mask_pos (destinations (shm w') ! i) = p"
      using ok assms(6) [of i] by (simp add: conn_ok_def)
    ultimately have "conn_ok p i w'" using ok i s assms(2) unfolding conn_ok_def by blast
    then show ?thesis by (simp add: tracked_def)
  qed
qed

text \<open>Steps that leave the tables of destinations, their sizes and all connections but one as they are.\<close>

definition local_step :: "nat \<Rightarrow> sender \<Rightarrow> sender \<Rightarrow> bool" where
  "local_step k w w' \<longleftrightarrow> (sized w \<longrightarrow> sized w') \<and> destinations (shm w') = destinations (shm w) \<and>
     (\<forall>j. j \<noteq> k \<longrightarrow> conns w' ! j = conns w ! j) \<and>
     c_active (conns w' ! k) = c_active (conns w ! k) \<and> c_dest (conns w' ! k) = c_dest (conns w ! k)"

lemma tracked_local:
  assumes "tracked p i w" and "local_step k w w'" and "k < DMQ_MAX_DESTINATIONS"
    and "serves p k w \<Longrightarrow> sconn_cnt (shm w') ! p = DMQSCONN_DEAD \<or> c_state (conns w' ! k) = Active \<and> sconn_cnt (shm w') ! p = own_cnt w' ! p"
    and "\<not> serves p k w \<Longrightarrow> sconn_cnt (shm w') ! p = DMQSCONN_DEAD \<or> own_cnt w' ! p = own_cnt w ! p \<and> sconn_cnt (shm w') ! p = sconn_cnt (shm w) ! p"
  shows "tracked p i w'"
proof (rule tracked_one [OF assms(1) _ assms(3)])
  have "sized w" using assms(1) by (auto simp: tracked_def conn_ok_def gone_def)
  then show "sized w'" using assms(2) by (simp add: local_step_def)
qed (use assms(2,4,5) in \<open>auto simp: local_step_def serves_def c_mask_pos_def\<close>)

lemma tracked_counter:
  "tracked p i w \<Longrightarrow> k < DMQ_MAX_DESTINATIONS \<Longrightarrow> serves p k w \<Longrightarrow>
   sconn_cnt (shm w) ! p = DMQSCONN_DEAD \<or> c_state (conns w ! k) = Active \<and> sconn_cnt (shm w) ! p = own_cnt w ! p"
  by (auto simp: tracked_def conn_ok_def gone_def)

lemma tracked_sized: "tracked p i w \<Longrightarrow> sized w"
  by (auto simp: tracked_def conn_ok_def gone_def)

lemma sized_set_conn: "sized (set_conn k f w) = sized w"
  by (simp add: sized_def set_conn_def)

text \<open>A connection that goes down, and is or is not announced as dead; it must be when it was up.\<close>

lemma down_step:
  assumes "tracked p i w" and "k < DMQ_MAX_DESTINATIONS"
    and "\<And>c. c_active (f c) = c_active c \<and> c_dest (f c) = c_dest c \<and> (c_state (f c) = Active \<longrightarrow> c_state c = Active)"
    and "c_state (conns w ! k) \<noteq> Active"
  shows "tracked p i (set_conn k f w) \<and> counts_on p w (set_conn k f w)"
proof
  have l: "k < length (conns w)" using assms(2) tracked_sized [OF assms(1)] by (simp add: sized_def)
  show "tracked p i (set_conn k f w)"
  proof (rule tracked_local [OF assms(1) _ assms(2)])
    show "local_step k w (set_conn k f w)"
      using assms(3) l by (simp add: local_step_def sized_set_conn) (simp add: set_conn_def)
  qed (use tracked_counter [OF assms(1,2)] assms(4) in \<open>auto simp: set_conn_def\<close>)
qed (simp add: counts_on_def set_conn_def)

lemma dead_step:
  assumes "tracked p i w" and "k < DMQ_MAX_DESTINATIONS"
    and "publish (c_mask_pos w k) DMQSCONN_DEAD (set_conn k f w) = Inr w'"
    and "\<And>c. c_active (f c) = c_active c \<and> c_dest (f c) = c_dest c"
  shows "tracked p i w' \<and> counts_on p w w'"
proof
  have l: "k < length (conns w)" using assms(2) tracked_sized [OF assms(1)] by (simp add: sized_def)
  have w': "w' = (set_conn k f w)\<lparr>shm := (shm w)\<lparr>sconn_cnt := (sconn_cnt (shm w))[c_mask_pos w k := DMQSCONN_DEAD]\<rparr>\<rparr>"
    "c_mask_pos w k < length (sconn_cnt (shm w))"
    using assms(3) by (auto simp: publish_def set_conn_def split: if_splits)
  show "tracked p i w'"
  proof (rule tracked_local [OF assms(1) _ assms(2)])
    show "local_step k w w'" using assms(4) l by (auto simp: w' local_step_def sized_def set_conn_def)
    show "sconn_cnt (shm w') ! p = DMQSCONN_DEAD \<or> c_state (conns w' ! k) = Active \<and> sconn_cnt (shm w') ! p = own_cnt w' ! p"
      if "serves p k w" using that w'(2) by (simp add: w' serves_def)
  qed (auto simp: w' set_conn_def nth_list_update)
  show "counts_on p w w'" using w'(2) by (cases "p = c_mask_pos w k") (auto simp: counts_on_def w' set_conn_def)
qed

lemma up_step:
  assumes "tracked p i w" and "k < DMQ_MAX_DESTINATIONS" and "negotiated k w = Inr w'" and "c_active (conns w ! k)"
  shows "tracked p i w' \<and> counts_on p w w'"
proof
  let ?m = "c_mask_pos w k"
  have l: "k < length (conns w)" using assms(2) tracked_sized [OF assms(1)] by (simp add: sized_def)
  have m: "?m < length (own_cnt w)" "?m < length (sconn_cnt (shm w))"
    using assms(3) by (auto simp: negotiated_def Let_def sender_ops split: if_splits)
  have w': "own_cnt w' = (own_cnt w)[?m := own_cnt w ! ?m + 1]" "sconn_cnt (shm w') = (sconn_cnt (shm w))[?m := own_cnt w ! ?m + 1]"
    "conns w' = (conns w)[k := (conns w ! k)\<lparr>c_state := Active\<rparr>]" "destinations (shm w') = destinations (shm w)"
    using assms(3) m by (auto simp: negotiated_def Let_def sender_ops split: if_splits)
  show "tracked p i w'"
  proof (rule tracked_local [OF assms(1) _ assms(2)])
    show "local_step k w w'" using l by (auto simp: local_step_def sized_def w')
    show "sconn_cnt (shm w') ! p = DMQSCONN_DEAD \<or> c_state (conns w' ! k) = Active \<and> sconn_cnt (shm w') ! p = own_cnt w' ! p"
      if "serves p k w" using that m l by (simp add: w' serves_def)
    show "sconn_cnt (shm w') ! p = DMQSCONN_DEAD \<or> own_cnt w' ! p = own_cnt w ! p \<and> sconn_cnt (shm w') ! p = sconn_cnt (shm w) ! p"
      if "\<not> serves p k w" using that assms(4) by (auto simp: w' serves_def nth_list_update)
  qed
  show "counts_on p w w'" using m by (cases "p = ?m") (auto simp: counts_on_def w')
qed

definition stays :: "nat \<Rightarrow> nat \<Rightarrow> sender \<Rightarrow> sender \<Rightarrow> bool" where
  "stays p i w w' \<longleftrightarrow> tracked p i w' \<and> counts_on p w w'"

lemma stays_refl: "tracked p i w \<Longrightarrow> stays p i w w"
  by (simp add: stays_def)

lemma stays_trans: "stays p i a b \<Longrightarrow> stays p i b c \<Longrightarrow> stays p i a c"
  by (auto simp: stays_def intro: counts_on_trans)

lemma tracked_cong:
  "conns w' = conns w \<Longrightarrow> own_cnt w' = own_cnt w \<Longrightarrow> shm w' = shm w \<Longrightarrow> tracked p i w' = tracked p i w"
  by (simp add: tracked_def conn_ok_def gone_def serves_def sized_def c_mask_pos_def)

lemma stays_cong:
  "conns w' = conns w \<Longrightarrow> own_cnt w' = own_cnt w \<Longrightarrow> shm w' = shm w \<Longrightarrow> stays p i a w' = stays p i a w"
  by (simp add: stays_def tracked_cong [of w' w] counts_on_def)

lemma stays_emit [simp]: "stays p i a (emit e w) = stays p i a w"
  by (rule stays_cong) (simp_all add: emit_def)

lemma dmq_send_stays:
  "tracked p i w \<Longrightarrow> k < DMQ_MAX_DESTINATIONS \<Longrightarrow> dmq_send ok k data w = Inr w' \<Longrightarrow> stays p i w w'"
  using dead_step [of p i w k "\<lambda>c. c\<lparr>c_state := Idle\<rparr>"]
  by (auto simp: dmq_send_def ebind_Inr_iff stays_refl split: if_splits) (auto simp: stays_def)

lemma transfer_stays: "tracked p i w \<Longrightarrow> transfer ok data w = Inr w' \<Longrightarrow> stays p i w w'"
  by (auto simp: transfer_def Let_def stays_refl not_le split: list.splits if_splits intro: dmq_send_stays)

lemma timer_one_stays:
  assumes "tracked p i w" and "k < DMQ_MAX_DESTINATIONS" and "timer_one ct now connect_ok fe_send_ok hook k w = Inr w'"
  shows "stays p i w w'"
proof (cases "c_active (conns w ! k) \<and> c_state (conns w ! k) \<noteq> Active \<and> w' \<noteq> w")
  case True
  then obtain f where "w' = set_conn k f w"
    "\<And>c. c_active (f c) = c_active c \<and> c_dest (f c) = c_dest c \<and> (c_state (f c) = Active \<longrightarrow> c_state c = Active)"
    using assms(3) by (auto simp: timer_one_def split: DmqConnState.splits if_splits)
  with down_step [OF assms(1,2) this(2)] True show ?thesis by (simp add: stays_def)
next
  case False
  then show ?thesis
    using assms dmq_send_stays [OF assms(1,2)]
    by (auto simp: timer_one_def stays_refl split: DmqConnState.splits if_splits)
qed

lemma timer_from_stays:
  "tracked p i w \<Longrightarrow> set is \<subseteq> {..<DMQ_MAX_DESTINATIONS} \<Longrightarrow> timer_from ct now connect_ok fe_send_ok hook is w = Inr w' \<Longrightarrow> stays p i w w'"
proof (induction "is" arbitrary: w)
  case (Cons k "is")
  from Cons.prems(3) obtain w1 where w1: "timer_one ct now connect_ok fe_send_ok hook k w = Inr w1"
    "timer_from ct now connect_ok fe_send_ok hook is w1 = Inr w'" by (auto simp: ebind_Inr_iff)
  have s: "stays p i w w1" using timer_one_stays [OF Cons.prems(1) _ w1(1)] Cons.prems(2) by simp
  then have "stays p i w1 w'" using Cons.IH [OF _ _ w1(2)] Cons.prems(2) by (simp add: stays_def)
  with s show ?case by (rule stays_trans)
qed (simp add: stays_refl)

lemma timer_stays:
  assumes "tracked p i w" and "timer hs ct now connect_ok fe_send_ok hook w = Inr w'"
  shows "stays p i w w'"
proof (cases "now - prev_timer_at w > hs")
  case True
  let ?w = "w\<lparr>prev_timer_at := now\<rparr>"
  have s: "stays p i w ?w" using stays_cong [of ?w w p i w] stays_refl [OF assms(1)] by simp
  have "timer_from ct now connect_ok fe_send_ok hook [0..<DMQ_MAX_DESTINATIONS] ?w = Inr w'"
    using True assms(2) by (simp add: timer_def del: upt_rec_numeral)
  from timer_from_stays [of p i, OF _ _ this] s have "stays p i ?w w'" by (simp add: stays_def atLeast0LessThan del: upt_rec_numeral)
  with s show ?thesis by (rule stays_trans)
qed (use assms in \<open>simp add: timer_def stays_refl\<close>)

lemma socket_stays:
  assumes "tracked p i w" and "socket_event poll consume busy k w = Inr w'"
  shows "stays p i w w'"
proof -
  have k: "k < DMQ_MAX_DESTINATIONS" "c_active (conns w ! k)" "c_state (conns w ! k) \<noteq> Idle"
    using assms(2) by (auto simp: socket_event_def split: if_splits DmqConnState.splits)
  have idle: "stays p i w (set_conn k (\<lambda>c. c\<lparr>c_state := x\<rparr>) w)" if "c_state (conns w ! k) \<noteq> Active" "x \<noteq> Active" for x
    using down_step [OF assms(1) k(1), of "\<lambda>c. c\<lparr>c_state := x\<rparr>"] that by (simp add: stays_def)
  show ?thesis
  proof (cases "c_state (conns w ! k)")
    case Connecting
    with assms k idle show ?thesis
      by (auto simp: socket_event_def stays_refl split: PostgresPollingStatusType.splits)
  next
    case Negotiating
    define v where "v = (if consume then w else set_conn k (\<lambda>c. c\<lparr>c_state := Idle\<rparr>) w)"
    have v: "stays p i w v" using idle [of Idle] Negotiating assms(1) by (simp add: v_def stays_refl)
    have "k < length (conns w)" using k(1) tracked_sized [OF assms(1)] by (simp add: sized_def)
    then have a: "c_active (conns v ! k)" using k(2) by (simp add: v_def set_conn_def)
    have "busy \<and> w' = v \<or> negotiated k v = Inr w'"
      using assms(2) k Negotiating by (auto simp: socket_event_def v_def Let_def split: if_splits)
    then have "stays p i v w'"
      using v up_step [OF _ k(1) _ a, of p i w'] by (auto simp: stays_def)
    with v show ?thesis by (rule stays_trans)
  next
    case Active
    with assms k dead_step [OF assms(1) k(1), of "\<lambda>c. c\<lparr>c_state := Idle\<rparr>"] show ?thesis
      by (auto simp: socket_event_def ebind_Inr_iff stays_refl split: if_splits) (auto simp: stays_def)
  qed (use k in simp)
qed

lemma nth_update_cases: "xs[m := v] ! p = v \<or> xs[m := v] ! p = xs ! p"
  by (metis list_update_beyond not_le nth_list_update_eq nth_list_update_neq)

lemma reload_one_stays:
  assumes "tracked p i w" and k: "k < DMQ_MAX_DESTINATIONS" and r: "reload_one k w = Inr w'" and "\<not> fresh p k w"
  shows "stays p i w w'"
proof -
  let ?d = "destinations (shm w) ! k" and ?c = "conns w ! k"
  have sz: "sized w" using tracked_sized [OF assms(1)] .
  then have l: "k < length (conns w)" "k < length (destinations (shm w))" using k by (auto simp: sized_def)
  consider (new) "dest_active ?d" "\<not> c_active ?c" | (close) "\<not> dest_active ?d" "c_active ?c"
    | (again) "dest_active ?d" "c_active ?c" "reconnect_requested ?d" | (none) "w' = w"
    using r by (auto simp: reload_one_def Let_def split: if_splits)
  then show ?thesis
  proof cases
    case new
    then have m: "dest_mask_pos ?d \<noteq> p" using assms(4) by (simp add: fresh_def)
    have w': "conns w' = (conns w)[k := ?c\<lparr>c_dest := ?d, c_active := True, c_pgconn := False, c_state := Idle\<rparr>]"
      "own_cnt w' = (own_cnt w)[dest_mask_pos ?d := 0]" "sconn_cnt (shm w') = (sconn_cnt (shm w))[dest_mask_pos ?d := DMQSCONN_DEAD]"
      "destinations (shm w') = destinations (shm w)"
      using r new by (auto simp: reload_one_def Let_def sender_ops split: if_splits)
    have "tracked p i w'"
      by (rule tracked_one [OF assms(1) _ k])
        (use sz new m l in \<open>auto simp: sized_def w' serves_def c_mask_pos_def\<close>)
    then show ?thesis using m by (simp add: stays_def counts_on_def w')
  next
    case close
    have w': "w' = set_conn k (\<lambda>c. c\<lparr>c_active := False, c_pgconn := False\<rparr>) w"
      using r close by (simp add: reload_one_def Let_def)
    have "tracked p i w'"
      by (rule tracked_one [OF assms(1) _ k])
        (use sz close l in \<open>auto simp: sized_def w' serves_def c_mask_pos_def set_conn_def\<close>)
    then show ?thesis by (simp add: stays_def counts_on_def w' set_conn_def)
  next
    case again
    have m: "dest_mask_pos ?d < length (sconn_cnt (shm w))"
      using r again by (auto simp: reload_one_def Let_def sender_ops split: if_splits)
    have w': "conns w' = (conns w)[k := ?c\<lparr>c_pgconn := False, c_state := Idle\<rparr>]" "own_cnt w' = own_cnt w"
      "sconn_cnt (shm w') = (sconn_cnt (shm w))[dest_mask_pos ?d := DMQSCONN_DEAD]"
      "destinations (shm w') = (destinations (shm w))[k := ?d\<lparr>reconnect_requested := False\<rparr>]"
      using r again by (auto simp: reload_one_def Let_def sender_ops split: if_splits)
    note u = nth_update_cases [of "sconn_cnt (shm w)" "dest_mask_pos ?d" DMQSCONN_DEAD p]
    have p: "dest_mask_pos ?d = p" if "serves p k w"
    proof -
      have "conn_ok p k w" using assms(1) that k by (auto simp: tracked_def gone_def conn_ok_def)
      then show ?thesis using again(1) by (simp add: conn_ok_def)
    qed
    have "tracked p i w'"
    proof (rule tracked_one [OF assms(1) _ k])
      show s: "serves p k w' \<Longrightarrow> serves p k w" using l by (simp add: w' serves_def c_mask_pos_def)
      show "serves p k w' \<Longrightarrow> sconn_cnt (shm w') ! p = DMQSCONN_DEAD \<or> c_state (conns w' ! k) = Active \<and> sconn_cnt (shm w') ! p = own_cnt w' ! p"
        using p s m by (simp add: w')
    qed (use sz l u in \<open>auto simp: sized_def w' nth_list_update\<close>)
    then show ?thesis using u by (auto simp: stays_def counts_on_def w')
  qed (use assms(1) in \<open>simp add: stays_refl\<close>)
qed

lemma reload_one_fresh:
  assumes "reload_one k w = Inr w'" and "j \<noteq> k" and "fresh p j w'"
  shows "fresh p j w"
  using assms by (auto simp: reload_one_def Let_def sender_ops fresh_def split: if_splits)

lemma reload_from_stays:
  "tracked p i w \<Longrightarrow> set is \<subseteq> {..<DMQ_MAX_DESTINATIONS} \<Longrightarrow> distinct is \<Longrightarrow> (\<And>k. k \<in> set is \<Longrightarrow> \<not> fresh p k w) \<Longrightarrow>
   reload_from is w = Inr w' \<Longrightarrow> stays p i w w'"
proof (induction "is" arbitrary: w)
  case (Cons k "is")
  from Cons.prems(5) obtain w1 where w1: "reload_one k w = Inr w1" "reload_from is w1 = Inr w'" by (auto simp: ebind_Inr_iff)
  have s: "stays p i w w1" using reload_one_stays [OF Cons.prems(1) _ w1(1)] Cons.prems(2,4) by simp
  have "\<not> fresh p j w1" if "j \<in> set is" for j
    using reload_one_fresh [OF w1(1), of j p] that Cons.prems(3,4) by auto
  then have "stays p i w1 w'" using Cons.IH [OF _ _ _ _ w1(2)] s Cons.prems(2,3) by (simp add: stays_def)
  with s show ?case by (rule stays_trans)
qed (simp add: stays_refl)

text \<open>Changes of the table of destinations by other processes.\<close>

lemma stays_shm:
  assumes "tracked p i w" and "w' = w\<lparr>shm := sh\<rparr>" and "sconn_cnt sh = sconn_cnt (shm w)"
    and "length (destinations sh) = length (destinations (shm w))"
    and "serves p i w \<Longrightarrow> i < DMQ_MAX_DESTINATIONS \<Longrightarrow> dest_active (destinations sh ! i) \<Longrightarrow>
      dest_active (destinations (shm w) ! i) \<and> dest_mask_pos (destinations sh ! i) = dest_mask_pos (destinations (shm w) ! i)"
  shows "stays p i w w'"
  using assms
  by (auto simp: stays_def tracked_def conn_ok_def gone_def serves_def sized_def c_mask_pos_def counts_on_def)

lemma fold_update_table:
  assumes "\<And>d. dest_mask_pos (f d) = dest_mask_pos d" and "\<And>d. dest_active (f d) \<Longrightarrow> dest_active d"
  shows "length (fold (\<lambda>i ds. ds[i := f (ds ! i)]) is ds) = length ds \<and>
    (dest_active (fold (\<lambda>i ds. ds[i := f (ds ! i)]) is ds ! j) \<longrightarrow>
     dest_active (ds ! j) \<and> dest_mask_pos (fold (\<lambda>i ds. ds[i := f (ds ! i)]) is ds ! j) = dest_mask_pos (ds ! j))"
proof (induction "is" arbitrary: ds)
  case (Cons i "is")
  have "ds[i := f (ds ! i)] ! j = (if i = j \<and> j < length ds then f (ds ! j) else ds ! j)"
    by (cases "i = j") (auto simp: list_update_beyond not_less)
  with Cons [of "ds[i := f (ds ! i)]"] assms [of "ds ! j"] show ?case by (auto split: if_splits)
qed simp

lemma destinations_drop:
  "sconn_cnt (dmq_destination_drop name sh) = sconn_cnt sh"
  "length (destinations (dmq_destination_drop name sh)) = length (destinations sh)"
  "dest_active (destinations (dmq_destination_drop name sh) ! j) \<Longrightarrow>
     dest_active (destinations sh ! j) \<and> dest_mask_pos (destinations (dmq_destination_drop name sh) ! j) = dest_mask_pos (destinations sh ! j)"
  using fold_update_table [of "\<lambda>d. d\<lparr>dest_active := False\<rparr>" "chosen_destinations name sh" "destinations sh" j] by (simp_all add: dmq_destination_drop_def)

lemma destinations_reconnect:
  "sconn_cnt (dmq_destination_reconnect name sh) = sconn_cnt sh"
  "length (destinations (dmq_destination_reconnect name sh)) = length (destinations sh)"
  "dest_active (destinations (dmq_destination_reconnect name sh) ! j) \<Longrightarrow>
     dest_active (destinations sh ! j) \<and> dest_mask_pos (destinations (dmq_destination_reconnect name sh) ! j) = dest_mask_pos (destinations sh ! j)"
  using fold_update_table [of "\<lambda>d. d\<lparr>reconnect_requested := True\<rparr>" "chosen_destinations name sh" "destinations sh" j] by (simp_all add: dmq_destination_reconnect_def)

lemma add_destination_stays:
  assumes "tracked p i w" and "\<not> added_anew p (Add_destination connstr sname rname m t) w"
    and "dmq_destination_add connstr sname rname m t (shm w) = Inr (k, sh)"
  shows "stays p i w (w\<lparr>shm := sh\<rparr>)"
proof -
  obtain d where f: "free_destination (shm w) = Some k" and sh: "destinations sh = (destinations (shm w))[k := d]"
    "sconn_cnt sh = sconn_cnt (shm w)"
    using assms(3) by (auto simp: dmq_destination_add_def split: option.splits)
  have "k \<noteq> i" if "serves p i w"
    using assms(2) that f by (auto simp: added_anew_def serves_def)
  then show ?thesis
    by (intro stays_shm [OF assms(1) refl sh(2)]) (simp_all add: sh(1))
qed

lemma sender_do_stays:
  assumes "tracked p i w" and "sender_do e w = Inr w'" and "\<not> added_anew p e w"
  shows "stays p i w w'"
proof (cases e)
  case Reload
  have "reload_from [0..<DMQ_MAX_DESTINATIONS] w = Inr w'" using assms(2) Reload by (simp add: reload_def del: upt_rec_numeral)
  moreover have "\<not> fresh p k w" if "k \<in> set [0..<DMQ_MAX_DESTINATIONS]" for k
    using assms(3) that by (simp add: Reload added_anew_def list_ex_iff del: upt_rec_numeral)
  ultimately show ?thesis
    by (intro reload_from_stays [OF assms(1), of "[0..<DMQ_MAX_DESTINATIONS]"]) (auto simp del: upt_rec_numeral)
next
  case (Add_destination connstr sname rname m t)
  then obtain k sh where "dmq_destination_add connstr sname rname m t (shm w) = Inr (k, sh)" "w' = w\<lparr>shm := sh\<rparr>"
    using assms(2) by (auto simp: ebind_Inr_iff)
  with add_destination_stays [OF assms(1) assms(3) [unfolded Add_destination]] show ?thesis by simp
next
  case (Drop_destination name)
  then have "w' = w\<lparr>shm := dmq_destination_drop name (shm w)\<rparr>" using assms(2) by simp
  from stays_shm [OF assms(1) this] destinations_drop show ?thesis by blast
next
  case (Reconnect_destination name)
  then have "w' = w\<lparr>shm := dmq_destination_reconnect name (shm w)\<rparr>" using assms(2) by simp
  from stays_shm [OF assms(1) this] destinations_reconnect show ?thesis by blast
qed (use assms transfer_stays timer_stays socket_stays in auto)

section \<open>Lost connections are detected\<close>

definition quiet_step :: "nat \<Rightarrow> sender \<Rightarrow> sender \<Rightarrow> bool" where
  "quiet_step p w w' \<longleftrightarrow> (\<exists>e. sender_do e w = Inr w' \<and> \<not> added_anew p e w)"

interpretation sender: inductive_invariant "quiet_step p" "tracked p i" for p i
  by unfold_locales (auto simp: quiet_step_def stays_def dest: sender_do_stays)

lemma run_counts_on:
  assumes "(quiet_step p)\<^sup>*\<^sup>* w w'" and "tracked p i w"
  shows "counts_on p w w'"
  by (rule sender.reachable_rel [OF assms, of "counts_on p"])
    (auto simp: quiet_step_def stays_def intro: counts_on_trans dest: sender_do_stays)

lemma get_cnt_from:
  "dmq_get_sendconn_cnt_from is participants sh cnt = Inr cnt' \<Longrightarrow> i < length cnt \<Longrightarrow> bit participants i \<Longrightarrow>
   i \<in> set is \<or> cnt ! i = sconn_cnt sh ! i \<Longrightarrow> cnt' ! i = sconn_cnt sh ! i"
proof (induction "is" arbitrary: cnt)
  case (Cons k "is")
  show ?case
  proof (cases "bit participants k")
    case True
    with Cons.prems(1) have k: "dmq_get_sendconn_cnt_from is participants sh (cnt[k := sconn_cnt sh ! k]) = Inr cnt'"
      by (auto simp: counter_def BIT_CHECK_bit split: if_splits option.splits)
    then show ?thesis using Cons.prems(2-4) by (cases "k = i") (auto intro: Cons.IH [OF k])
  next
    case False
    then show ?thesis using Cons.prems by (intro Cons.IH) (auto simp: BIT_CHECK_bit)
  qed
qed simp


text \<open>A connection to node 2 breaks, and is up again when the client looks.\<close>

definition to_node2 :: DmqDestination where
  "to_node2 = \<lparr>dest_active = True, dest_sender_name = ''node1'', dest_receiver_name = ''node2'', dest_connstr = [],
     dest_recv_timeout = 1000, dest_mask_pos = 1, reconnect_requested = False\<rparr>"

definition no_conn :: conn where
  "no_conn = \<lparr>c_dest = to_node2, c_active = False, c_state = Idle, c_pgconn = False, c_start = 0\<rparr>"

definition sample_sender :: "int \<Rightarrow> int \<Rightarrow> DmqConnState \<Rightarrow> sender_effect list \<Rightarrow> sender" where
  "sample_sender c own st es = \<lparr>conns = \<lparr>c_dest = to_node2, c_active = True, c_state = st, c_pgconn = True, c_start = 0\<rparr> # replicate 9 no_conn,
     own_cnt = [0, own, 0, 0, 0, 0, 0, 0, 0, 0], prev_timer_at = 0,
     shm = \<lparr>sender_pid = 0, destinations = to_node2 # replicate 9 (to_node2\<lparr>dest_active := False\<rparr>),
       sconn_cnt = [0, c, 0, 0, 0, 0, 0, 0, 0, 0], procno_gens = [], receivers = [], dmq_subscriptions = []\<rparr>,
     effects = es\<rparr>"

lemma sample_quiet:
  assumes "sender_do e w = Inr w'" and "\<not> added_anew p e w"
  shows "(quiet_step p)\<^sup>*\<^sup>* w w'"
  using assms by (intro r_into_rtranclp) (auto simp: quiet_step_def)

lemma sample_conn_ok: "conn_ok 1 0 (sample_sender 3 3 Active [])"
  unfolding conn_ok_def all_less_10 by code_simp


end
