(* ===== verification/Gather.thy ===== *)
theory Gather
  imports Dmq Messaging
begin

text \<open>
  \<open>gather\<close> of \<open>src/src/multimaster.c\<close>: collect one answer from each of several nodes, or notice that
  it will not come. Each time round the loop the process tries the queues once; what it finds there
  is a \<open>round\<close>: what each queue returns, what it sees in shared memory when it has to open a queue
  again, and, if all queues are empty, whether the wait timed out, the connection counters and the
  current generation at that moment. The process returns, fails or is still waiting when the rounds
  are used up.
\<close>

record round =
  rd_receive :: "nat \<Rightarrow> bytes shm_mq_result"
  rd_views :: "nat \<Rightarrow> dmq_shared list"
  rd_attach :: "uint32 \<Rightarrow> bool"
  rd_timeout :: bool
  rd_shared :: dmq_shared
  rd_gen :: uint64

datatype gather_result =
  Gathering
| Gathered bool "(MtmMessage \<times> nat) list" dmq_local
| Gather_bad_message
| Gather_error dmq_error

definition purge_opt :: "int list option \<Rightarrow> nodemask_t \<Rightarrow> dmq_shared \<Rightarrow> dmq_error + nodemask_t" where
  "purge_opt sendconn_cnt participants sh = (case sendconn_cnt of None \<Rightarrow> Inr participants
     | Some cnt \<Rightarrow> dmq_purge_failed_participants participants cnt sh)"

text \<open>The body of the loop: either it goes on, with fewer participants and more messages, or it ends.\<close>

datatype gather_step = Go_on nodemask_t "(MtmMessage \<times> nat) list" dmq_local | Return gather_result

definition gather_round ::
  "pqformat \<Rightarrow> nat \<Rightarrow> (MtmMessage \<Rightarrow> bool) \<Rightarrow> int list option \<Rightarrow> uint64 \<Rightarrow> round \<Rightarrow> nodemask_t \<Rightarrow>
   (MtmMessage \<times> nat) list \<Rightarrow> dmq_local \<Rightarrow> gather_step" where
  "gather_round pq my_procno hook sendconn_cnt gen_num r participants got loc =
     (case dmq_pop_nb my_procno (rd_attach r) (rd_views r) (rd_receive r) participants loc of
        None \<Rightarrow> Return Gathering
      | Some (Some msg, sender_mask_pos, _, loc) \<Rightarrow>
          (case MtmMessageUnpack pq msg of
             None \<Rightarrow> Return Gather_bad_message
           | Some mtm_msg \<Rightarrow>
               if \<not> hook mtm_msg then Go_on participants got loc
               else Go_on (BIT_CLEAR participants (nat sender_mask_pos)) (got @ [(mtm_msg, nat sender_mask_pos)]) loc)
      | Some (None, sender_mask_pos, _, loc) \<Rightarrow>
          if sender_mask_pos \<noteq> -1 then Go_on (BIT_CLEAR participants (nat sender_mask_pos)) got loc
          else if rd_timeout r
          then (case purge_opt sendconn_cnt participants (rd_shared r) of
                  Inl e \<Rightarrow> Return (Gather_error e)
                | Inr participants \<Rightarrow>
                    if gen_num \<noteq> MtmInvalidGenNum \<and> gen_num \<noteq> rd_gen r then Return (Gathered False got loc)
                    else Go_on participants got loc)
          else Go_on participants got loc)"

fun gather_loop ::
  "pqformat \<Rightarrow> nat \<Rightarrow> (MtmMessage \<Rightarrow> bool) \<Rightarrow> int list option \<Rightarrow> uint64 \<Rightarrow> round list \<Rightarrow> nodemask_t \<Rightarrow>
   (MtmMessage \<times> nat) list \<Rightarrow> dmq_local \<Rightarrow> gather_result" where
  "gather_loop pq my_procno hook sendconn_cnt gen_num [] participants got loc =
     (if participants = 0 then Gathered True got loc else Gathering)"
| "gather_loop pq my_procno hook sendconn_cnt gen_num (r # rounds) participants got loc =
     (if participants = 0 then Gathered True got loc
      else case gather_round pq my_procno hook sendconn_cnt gen_num r participants got loc of
        Return res \<Rightarrow> res
      | Go_on participants got loc \<Rightarrow> gather_loop pq my_procno hook sendconn_cnt gen_num rounds participants got loc)"

definition gather ::
  "pqformat \<Rightarrow> nat \<Rightarrow> (MtmMessage \<Rightarrow> bool) \<Rightarrow> int list option \<Rightarrow> uint64 \<Rightarrow> round list \<Rightarrow> nodemask_t \<Rightarrow> dmq_local \<Rightarrow> gather_result" where
  "gather pq my_procno hook sendconn_cnt gen_num rounds participants loc =
     gather_loop pq my_procno hook sendconn_cnt gen_num rounds participants [] loc"

section \<open>One attempt at the queues\<close>

text \<open>A message comes from a queue of a node that was asked for.\<close>

lemma pop_from_message:
  "pop_from my_procno dsm_attach views mq_receive m is unchk loc = Some (Some msg, p, w, loc') \<Longrightarrow>
   \<exists>i \<in> set is. wanted m loc i \<and> p = int (in_mask_pos (inhandles loc ! i)) \<and> mq_receive i = SHM_MQ_SUCCESS msg"
  by (induction "is" arbitrary: unchk)
    (auto simp: handle_result_def split: shm_mq_result.splits option.splits if_splits)

lemma pop_message:
  assumes "dmq_pop_nb my_procno dsm_attach views mq_receive m loc = Some (Some msg, p, w, loc')"
  shows "\<exists>i < n_inhandles loc. wanted m loc i \<and> p = int (in_mask_pos (inhandles loc ! i)) \<and> mq_receive i = SHM_MQ_SUCCESS msg"
  using pop_from_message [OF assms [unfolded dmq_pop_nb_def]] by auto

text \<open>A failed attempt: either a queue is detached, or all of them are empty.\<close>

lemma reattach_rounds_other:
  "reattach_rounds my_procno dsm_attach i views loc = Some (ok, loc') \<Longrightarrow> j \<noteq> i \<Longrightarrow> inhandles loc' ! j = inhandles loc ! j"
  by (induction views) (auto simp: set_mqh_def split: option.splits prod.splits if_splits)

lemma reattach_other:
  "dmq_reattach_shm_mq my_procno dsm_attach i views loc = Some (ok, loc') \<Longrightarrow> j \<noteq> i \<Longrightarrow> inhandles loc' ! j = inhandles loc ! j"
  unfolding dmq_reattach_shm_mq_def by (metis (no_types, lifting) reattach_rounds_other set_mqh_def nth_list_update_neq dmq_local.select_convs(4) dmq_local.update_convs(4) dmq_local.surjective)

lemma pop_from_none:
  "pop_from my_procno dsm_attach views mq_receive m is unchk loc = Some (None, p, w, loc') \<Longrightarrow>
   (\<exists>i \<in> set is. wanted m loc i \<and> handle_result mq_receive loc i = SHM_MQ_DETACHED \<and> p = int (in_mask_pos (inhandles loc ! i)) \<and>
      (\<forall>j. j \<noteq> i \<longrightarrow> inhandles loc' ! j = inhandles loc ! j)) \<or>
   loc' = loc \<and> (\<forall>i \<in> set is. wanted m loc i \<longrightarrow> handle_result mq_receive loc i = SHM_MQ_WOULD_BLOCK) \<and>
   (\<exists>u. (\<forall>j. bit u j \<longleftrightarrow> bit unchk j \<and> (\<forall>i \<in> set is. wanted m loc i \<longrightarrow> in_mask_pos (inhandles loc ! i) \<noteq> j)) \<and>
      p = (if u \<noteq> 0 then first_set_bit u else -1))"
proof (induction "is" arbitrary: unchk)
  case (Cons i "is")
  show ?case
  proof (cases "wanted m loc i")
    case False
    with Cons.IH [of unchk] Cons.prems show ?thesis by simp
  next
    case True
    show ?thesis
    proof (cases "handle_result mq_receive loc i")
      case SHM_MQ_WOULD_BLOCK
      with True Cons.prems have "pop_from my_procno dsm_attach views mq_receive m is (BIT_CLEAR unchk (in_mask_pos (inhandles loc ! i))) loc = Some (None, p, w, loc')"
        by simp
      from Cons.IH [OF this] True SHM_MQ_WOULD_BLOCK show ?thesis
        by (auto simp: bit_BIT_CLEAR)
    next
      case SHM_MQ_DETACHED
      with True Cons.prems obtain ok where "dmq_reattach_shm_mq my_procno dsm_attach i (views i) loc = Some (ok, loc')" "p = int (in_mask_pos (inhandles loc ! i))"
        by (auto split: option.splits)
      with True SHM_MQ_DETACHED reattach_other [OF this(1)] show ?thesis by auto
    qed (use True Cons.prems in simp)
  qed
next
  case Nil
  then show ?case by (intro disjI2 conjI exI [of _ unchk]) simp_all
qed

lemma first_set_bit_Some:
  assumes "first_set_bit u \<noteq> -1"
  shows "bit u (nat (first_set_bit u))" and "first_set_bit u = int (nat (first_set_bit u))"
proof -
  from assms obtain i where f: "find (BIT_CHECK u) [0..<MTM_MAX_NODES] = Some i"
    by (auto simp: first_set_bit_def simp del: upt_rec_numeral split: option.splits)
  then have "first_set_bit u = int i" by (simp add: first_set_bit_def del: upt_rec_numeral)
  moreover have "bit u i" using f by (simp add: find_upt_Some_iff BIT_CHECK_bit del: upt_rec_numeral)
  ultimately show "bit u (nat (first_set_bit u))" "first_set_bit u = int (nat (first_set_bit u))" by simp_all
qed

lemma pop_none:
  assumes "dmq_pop_nb my_procno dsm_attach views mq_receive m loc = Some (None, p, w, loc')"
  obtains (detached) i where "i < n_inhandles loc" "wanted m loc i" "handle_result mq_receive loc i = SHM_MQ_DETACHED"
      "p = int (in_mask_pos (inhandles loc ! i))" "\<And>j. j \<noteq> i \<Longrightarrow> inhandles loc' ! j = inhandles loc ! j"
  | (absent) q where "loc' = loc" "p = int q" "bit m q" "\<And>i. i < n_inhandles loc \<Longrightarrow> wanted m loc i \<Longrightarrow> in_mask_pos (inhandles loc ! i) \<noteq> q"
  | (idle) "loc' = loc" "p = -1" "\<And>i. i < n_inhandles loc \<Longrightarrow> wanted m loc i \<Longrightarrow> handle_result mq_receive loc i = SHM_MQ_WOULD_BLOCK"
      "\<And>q. bit m q \<Longrightarrow> q < MTM_MAX_NODES \<Longrightarrow> \<exists>i < n_inhandles loc. wanted m loc i \<and> in_mask_pos (inhandles loc ! i) = q"
proof -
  from pop_from_none [OF assms [unfolded dmq_pop_nb_def]] show thesis
  proof (elim disjE conjE exE bexE)
    fix i
    assume "i \<in> set [0..<n_inhandles loc]" "wanted m loc i" "handle_result mq_receive loc i = SHM_MQ_DETACHED"
      "p = int (in_mask_pos (inhandles loc ! i))" "\<forall>j. j \<noteq> i \<longrightarrow> inhandles loc' ! j = inhandles loc ! j"
    then show thesis by (intro detached [of i]) simp_all
  next
    fix u
    assume u: "loc' = loc" "\<forall>i \<in> set [0..<n_inhandles loc]. wanted m loc i \<longrightarrow> handle_result mq_receive loc i = SHM_MQ_WOULD_BLOCK"
      "\<forall>j. bit u j \<longleftrightarrow> bit m j \<and> (\<forall>i \<in> set [0..<n_inhandles loc]. wanted m loc i \<longrightarrow> in_mask_pos (inhandles loc ! i) \<noteq> j)"
      "p = (if u \<noteq> 0 then first_set_bit u else -1)"
    show thesis
    proof (cases "first_set_bit u = -1")
      case True
      then have "nodes_of u = {}" using first_set_bit_nonneg_iff [of u] by simp
      then show thesis using u True by (intro idle) (auto simp: nodes_of_def Bex_def)
    next
      case False
      moreover have "u \<noteq> 0" using first_set_bit_Some(1) [OF False] by auto
      ultimately show thesis using u first_set_bit_Some [OF False] by (intro absent [of "nat (first_set_bit u)"]) simp_all
    qed
  qed
qed

lemma pop_message_same:
  "dmq_pop_nb my_procno dsm_attach views mq_receive m loc = Some (Some msg, p, w, loc') \<Longrightarrow> loc' = loc"
proof -
  have "pop_from my_procno dsm_attach views mq_receive m is unchk loc = Some (Some msg, p, w, loc') \<Longrightarrow> loc' = loc" for "is" unchk
    by (induction "is" arbitrary: unchk) (auto split: shm_mq_result.splits option.splits if_splits)
  then show "dmq_pop_nb my_procno dsm_attach views mq_receive m loc = Some (Some msg, p, w, loc') \<Longrightarrow> loc' = loc"
    unfolding dmq_pop_nb_def .
qed

section \<open>What is gathered\<close>

text \<open>Where a gathered message came from.\<close>

definition came_from :: "pqformat \<Rightarrow> dmq_local \<Rightarrow> round list \<Rightarrow> MtmMessage \<Rightarrow> nat \<Rightarrow> bool" where
  "came_from pq loc rounds mtm_msg p \<longleftrightarrow> (\<exists>r \<in> set rounds. \<exists>i < n_inhandles loc. \<exists>msg.
     in_mask_pos (inhandles loc ! i) = p \<and> rd_receive r i = SHM_MQ_SUCCESS msg \<and> MtmMessageUnpack pq msg = Some mtm_msg)"

text \<open>A node is given up when it has no handle, its queue is detached, or its connection counter has moved.\<close>

definition given_up :: "int list option \<Rightarrow> dmq_local \<Rightarrow> round \<Rightarrow> nat \<Rightarrow> bool" where
  "given_up sendconn_cnt loc r p \<longleftrightarrow>
     (\<forall>i < n_inhandles loc. used loc i \<longrightarrow> in_mask_pos (inhandles loc ! i) \<noteq> p) \<or>
     (\<exists>i < n_inhandles loc. used loc i \<and> in_mask_pos (inhandles loc ! i) = p \<and> handle_result (rd_receive r) loc i = SHM_MQ_DETACHED) \<or>
     (rd_timeout r \<and> (\<exists>cnt. sendconn_cnt = Some cnt \<and> (cnt ! p = DMQSCONN_DEAD \<or> counter (rd_shared r) p \<noteq> Inr (cnt ! p))))"

text \<open>The queues of the nodes that are still waited for are as they were in the beginning.\<close>

definition agree :: "dmq_local \<Rightarrow> nodemask_t \<Rightarrow> dmq_local \<Rightarrow> bool" where
  "agree loc0 participants loc \<longleftrightarrow> local_ok loc0 \<and> same_handles loc0 loc \<and>
     (\<forall>i < DMQ_MAX_RECEIVERS. used loc0 i \<longrightarrow> bit participants (in_mask_pos (inhandles loc0 ! i)) \<longrightarrow>
        in_mqh (inhandles loc ! i) = in_mqh (inhandles loc0 ! i))"

lemma agreeD:
  assumes "agree loc0 participants loc"
  shows "n_inhandles loc = n_inhandles loc0" "n_inhandles loc0 \<le> DMQ_MAX_RECEIVERS" "local_ok loc0" "same_handles loc0 loc"
    and "i < DMQ_MAX_RECEIVERS \<Longrightarrow> in_mask_pos (inhandles loc ! i) = in_mask_pos (inhandles loc0 ! i)"
    and "i < DMQ_MAX_RECEIVERS \<Longrightarrow> wanted participants loc i \<longleftrightarrow> used loc0 i \<and> bit participants (in_mask_pos (inhandles loc0 ! i))"
    and "i < DMQ_MAX_RECEIVERS \<Longrightarrow> wanted participants loc i \<Longrightarrow> handle_result f loc i = handle_result f loc0 i"
  using assms same_handles_nth [of loc0 loc i]
  by (auto simp: agree_def local_ok_def same_handles_def wanted_def used_def BIT_CHECK_bit handle_result_def)

lemma agree_less: "agree loc0 participants loc \<Longrightarrow> (\<And>i. bit participants' i \<Longrightarrow> bit participants i) \<Longrightarrow> agree loc0 participants' loc"
  by (auto simp: agree_def)

lemma agree_other:
  assumes "agree loc0 participants loc" and "i < DMQ_MAX_RECEIVERS" and "used loc0 i" and "same_handles loc loc'"
    and "\<And>j. j \<noteq> i \<Longrightarrow> inhandles loc' ! j = inhandles loc ! j"
  shows "agree loc0 (BIT_CLEAR participants (in_mask_pos (inhandles loc0 ! i))) loc'"
proof -
  have "in_mqh (inhandles loc' ! j) = in_mqh (inhandles loc0 ! j)"
    if "j < DMQ_MAX_RECEIVERS" "used loc0 j" "bit (BIT_CLEAR participants (in_mask_pos (inhandles loc0 ! i))) (in_mask_pos (inhandles loc0 ! j))" for j
    using that assms(1) assms(5) [of j] by (cases "j = i") (auto simp: agree_def bit_BIT_CLEAR)
  then show ?thesis using assms(1,4) same_handles_trans by (auto simp: agree_def)
qed

lemma gather_round_cases:
  assumes "gather_round pq my_procno hook sendconn_cnt gen_num r participants got loc = Go_on participants' got' loc'"
    and a: "agree loc0 participants loc"
  obtains (answer) m p where "participants' = BIT_CLEAR participants p" "got' = got @ [(m, p)]" "bit participants p"
      "hook m" "came_from pq loc0 [r] m p" "agree loc0 participants' loc'"
  | (less) "got' = got" "\<And>p. bit participants' p \<Longrightarrow> bit participants p" "agree loc0 participants' loc'"
      "\<And>p. bit participants p \<Longrightarrow> \<not> bit participants' p \<Longrightarrow> given_up sendconn_cnt loc0 r p"
proof -
  note d = agreeD [OF a]
  from assms(1) obtain om p w l where pop: "dmq_pop_nb my_procno (rd_attach r) (rd_views r) (rd_receive r) participants loc = Some (om, p, w, l)"
    by (auto simp: gather_round_def split: option.splits)
  note s = same_handles_trans [OF d(4) pop_same [OF pop]]
  show thesis
  proof (cases om)
    case (Some msg)
    note pop = pop [unfolded Some]
    from pop_message [OF pop] obtain i where i: "i < n_inhandles loc0" "i < DMQ_MAX_RECEIVERS" "wanted participants loc i"
      "p = int (in_mask_pos (inhandles loc0 ! i))" "rd_receive r i = SHM_MQ_SUCCESS msg" using d(1,2,5) by auto
    have l: "l = loc" using pop_message_same [OF pop] .
    show thesis
    proof (cases "got' = got")
      case True
      then show thesis using assms(1) a i
        by (intro less) (auto simp: gather_round_def pop l split: option.splits if_splits)
    next
      case False
      with assms(1) obtain m where "MtmMessageUnpack pq msg = Some m" "hook m" "got' = got @ [(m, nat p)]"
        "participants' = BIT_CLEAR participants (nat p)" "loc' = loc"
        by (auto simp: gather_round_def pop l split: option.splits if_splits)
      then show thesis using i d(6) [OF i(2)] agree_less [OF a, of participants']
        by (intro answer [of "nat p" m]) (auto simp: came_from_def bit_BIT_CLEAR)
    qed
  next
    case None
    note pop = pop [unfolded None]
    from pop show thesis
    proof (cases rule: pop_none)
      case (detached i)
      then have i: "i < n_inhandles loc0" "i < DMQ_MAX_RECEIVERS" "nat p = in_mask_pos (inhandles loc0 ! i)" "p \<noteq> -1" using d(1,2,5) by auto
      have e: "participants' = BIT_CLEAR participants (nat p)" "got' = got" "loc' = l"
        using assms(1) i(4) by (auto simp: gather_round_def pop)
      have u: "used loc0 i" "handle_result (rd_receive r) loc0 i = SHM_MQ_DETACHED"
        using detached(2,3) d(6) [OF i(2)] d(7) [OF i(2) detached(2), of "rd_receive r"] by simp_all
      show thesis using e u i agree_other [OF a i(2) u(1) pop_same [OF pop] detached(5)]
        by (intro less) (auto simp: bit_BIT_CLEAR given_up_def)
    next
      case (absent q)
      then have e: "participants' = BIT_CLEAR participants q" "got' = got" "loc' = loc"
        using assms(1) by (auto simp: gather_round_def pop)
      have "in_mask_pos (inhandles loc0 ! i) \<noteq> q" if "i < n_inhandles loc0" "used loc0 i" for i
        using absent(3) absent(4) [of i] that d(1,2,5,6) by auto
      then show thesis using e agree_less [OF a, of participants']
        by (intro less) (auto simp: bit_BIT_CLEAR given_up_def)
    next
      case idle
      then consider "participants' = participants" "got' = got" "loc' = loc"
        | "rd_timeout r" "purge_opt sendconn_cnt participants (rd_shared r) = Inr participants'" "got' = got" "loc' = loc"
        using assms(1) by (auto simp: gather_round_def pop split: sum.splits if_splits)
      then show thesis
        using a agree_less [OF a, of participants']
        by cases (intro less; auto simp: purge_opt_def given_up_def purge_bits split: option.splits)+
    qed
  qed
qed

lemma gather_loop_ends:
  assumes "gather_loop pq my_procno hook sendconn_cnt gen_num rounds participants got loc = Gathered b got' loc'"
    and "agree loc0 participants loc"
  shows "\<exists>new. got' = got @ new \<and> distinct (map snd new) \<and>
    (\<forall>(m, p) \<in> set new. bit participants p \<and> hook m \<and> came_from pq loc0 rounds m p) \<and>
    (b \<longrightarrow> (\<forall>p. bit participants p \<longrightarrow> p \<in> snd ` set new \<or> (\<exists>r \<in> set rounds. given_up sendconn_cnt loc0 r p))) \<and>
    (\<not> b \<longrightarrow> gen_num \<noteq> MtmInvalidGenNum \<and> (\<exists>r \<in> set rounds. rd_timeout r \<and> rd_gen r \<noteq> gen_num))"
  using assms
proof (induction rounds arbitrary: participants got loc)
  case (Cons r rounds)
  consider "participants = 0"
    | "participants \<noteq> 0" "gather_round pq my_procno hook sendconn_cnt gen_num r participants got loc = Return (Gathered b got' loc')"
    | p1 g1 l1 where "participants \<noteq> 0" "gather_round pq my_procno hook sendconn_cnt gen_num r participants got loc = Go_on p1 g1 l1"
        "gather_loop pq my_procno hook sendconn_cnt gen_num rounds p1 g1 l1 = Gathered b got' loc'"
    using Cons.prems(1) by (cases "participants = 0") (simp_all split: gather_step.splits)
  then show ?case
  proof cases
    case 1
    then show ?thesis using Cons.prems(1) by auto
  next
    case 2
    then have "\<not> b" "got' = got" "gen_num \<noteq> MtmInvalidGenNum" "rd_timeout r" "rd_gen r \<noteq> gen_num"
      by (auto simp: gather_round_def split: option.splits sum.splits if_splits)
    then show ?thesis by auto
  next
    case 3
    from 3(2) Cons.prems(2) show ?thesis
    proof (cases rule: gather_round_cases)
      case (answer m p)
      from Cons.IH [OF 3(3) answer(6)] obtain new where new: "got' = g1 @ new" "distinct (map snd new)"
        "\<forall>(m, p) \<in> set new. bit p1 p \<and> hook m \<and> came_from pq loc0 rounds m p"
        "b \<longrightarrow> (\<forall>p. bit p1 p \<longrightarrow> p \<in> snd ` set new \<or> (\<exists>r \<in> set rounds. given_up sendconn_cnt loc0 r p))"
        "\<not> b \<longrightarrow> gen_num \<noteq> MtmInvalidGenNum \<and> (\<exists>r \<in> set rounds. rd_timeout r \<and> rd_gen r \<noteq> gen_num)" by blast
      have "p \<notin> snd ` set new" using new(3) by (auto simp: answer(1) bit_BIT_CLEAR)
      then show ?thesis using new answer(3-5)
        by (intro exI [of _ "(m, p) # new"]) (auto simp: answer(1,2) bit_BIT_CLEAR came_from_def)
    next
      case less
      from Cons.IH [OF 3(3) less(3)] obtain new where new: "got' = g1 @ new" "distinct (map snd new)"
        "\<forall>(m, p) \<in> set new. bit p1 p \<and> hook m \<and> came_from pq loc0 rounds m p"
        "b \<longrightarrow> (\<forall>p. bit p1 p \<longrightarrow> p \<in> snd ` set new \<or> (\<exists>r \<in> set rounds. given_up sendconn_cnt loc0 r p))"
        "\<not> b \<longrightarrow> gen_num \<noteq> MtmInvalidGenNum \<and> (\<exists>r \<in> set rounds. rd_timeout r \<and> rd_gen r \<noteq> gen_num)" by blast
      then show ?thesis using less(2,4)
        by (intro exI [of _ new]) (auto simp: less(1) came_from_def)
    qed
  qed
qed (auto split: if_splits)

lemma agree_refl: "local_ok loc \<Longrightarrow> agree loc participants loc"
  by (simp add: agree_def)

text \<open>
  C36. What \<open>gather\<close> returns: at most one message for each of the nodes asked, accepted by the hook
  and read from the queue of that node. If it returns true, every node from which there is no
  message was seen to be lost: it has no queue, or its queue was detached, or the counter of the
  connection to it has moved since the request. If it returns false, the generation has switched.
\<close>

theorem gather_collects:
  assumes "gather pq my_procno hook sendconn_cnt gen_num rounds participants loc = Gathered b got loc'"
    and "local_ok loc"
  shows "distinct (map snd got) \<and>
    (\<forall>(m, p) \<in> set got. bit participants p \<and> hook m \<and> came_from pq loc rounds m p) \<and>
    (b \<longrightarrow> (\<forall>p. bit participants p \<longrightarrow> p \<in> snd ` set got \<or> (\<exists>r \<in> set rounds. given_up sendconn_cnt loc r p))) \<and>
    (\<not> b \<longrightarrow> gen_num \<noteq> MtmInvalidGenNum \<and> (\<exists>r \<in> set rounds. rd_timeout r \<and> rd_gen r \<noteq> gen_num))"
  using gather_loop_ends [OF assms(1) [unfolded gather_def] agree_refl [OF assms(2)]] by auto

section \<open>Gathering ends\<close>

text \<open>
  Rounds that raise no error: the messages can be read, no attempt to open a queue sleeps for ever,
  and the counters are those of the shared array.
\<close>

definition orderly :: "pqformat \<Rightarrow> nat \<Rightarrow> round \<Rightarrow> bool" where
  "orderly pq my_procno r \<longleftrightarrow> length (sconn_cnt (rd_shared r)) = DMQ_MAX_DESTINATIONS \<and>
     (\<forall>i msg. rd_receive r i = SHM_MQ_SUCCESS msg \<longrightarrow> MtmMessageUnpack pq msg \<noteq> None) \<and>
     (\<forall>i loc. dmq_reattach_shm_mq my_procno (rd_attach r) i (rd_views r i) loc \<noteq> None)"

text \<open>A round in which each participant either answers or can be given up.\<close>

definition decisive :: "pqformat \<Rightarrow> (MtmMessage \<Rightarrow> bool) \<Rightarrow> int list option \<Rightarrow> dmq_local \<Rightarrow> nodemask_t \<Rightarrow> round \<Rightarrow> bool" where
  "decisive pq hook sendconn_cnt loc participants r \<longleftrightarrow>
     (\<forall>i msg m. rd_receive r i = SHM_MQ_SUCCESS msg \<longrightarrow> MtmMessageUnpack pq msg = Some m \<longrightarrow> hook m) \<and>
     (\<forall>p. bit participants p \<longrightarrow> given_up sendconn_cnt loc r p \<or>
        (\<exists>i < n_inhandles loc. used loc i \<and> in_mask_pos (inhandles loc ! i) = p \<and> rd_receive r i \<noteq> SHM_MQ_WOULD_BLOCK))"

lemma purge_from_total:
  "(\<And>i. bit m i \<Longrightarrow> i < length (sconn_cnt sh)) \<Longrightarrow> \<exists>res'. dmq_purge_from is m cnt sh res = Inr res'"
  by (induction "is" arbitrary: res) (auto simp: counter_def mask_simps)

lemma pop_from_awake:
  assumes "\<And>i loc. dmq_reattach_shm_mq my_procno dsm_attach i (views i) loc \<noteq> None"
  shows "pop_from my_procno dsm_attach views mq_receive m is unchk loc \<noteq> None"
proof (induction "is" arbitrary: unchk)
  case (Cons i "is")
  obtain ok l where "dmq_reattach_shm_mq my_procno dsm_attach i (views i) loc = Some (ok, l)"
    using assms [of i loc] by auto
  with Cons.IH show ?case by (cases "handle_result mq_receive loc i") auto
qed simp

lemma gather_round_orderly:
  assumes "orderly pq my_procno r" and "\<And>p. bit participants p \<Longrightarrow> p < DMQ_MAX_DESTINATIONS" and "agree loc0 participants loc"
  shows "(\<exists>b g l. gather_round pq my_procno hook sendconn_cnt gen_num r participants got loc = Return (Gathered b g l)) \<or>
    (\<exists>p1 g1 l1. gather_round pq my_procno hook sendconn_cnt gen_num r participants got loc = Go_on p1 g1 l1)"
proof -
  obtain om p w l where pop: "dmq_pop_nb my_procno (rd_attach r) (rd_views r) (rd_receive r) participants loc = Some (om, p, w, l)"
    using pop_from_awake [of my_procno "rd_attach r" "rd_views r" "rd_receive r" participants] assms(1)
    unfolding dmq_pop_nb_def orderly_def by (metis not_Some_eq prod_cases4)
  obtain res where "purge_opt sendconn_cnt participants (rd_shared r) = Inr res"
    using purge_from_total [of participants "rd_shared r" "[0..<DMQ_N_MASK_POS]" "the sendconn_cnt" participants] assms(1,2)
    by (cases sendconn_cnt) (auto simp: purge_opt_def dmq_purge_failed_participants_def orderly_def simp del: upt_rec_numeral)
  moreover have "\<exists>m. MtmMessageUnpack pq msg = Some m" if "om = Some msg" for msg
    using pop_message [OF pop [unfolded that]] assms(1) by (auto simp: orderly_def)
  ultimately show ?thesis
    by (cases om) (auto simp: gather_round_def pop split: option.splits)
qed

lemma card_nodes_less:
  assumes "\<And>p. bit a p \<Longrightarrow> bit b p" and "bit b q" and "\<not> bit a q" and "q < MTM_MAX_NODES"
  shows "popcount a < popcount b"
  unfolding popcount_card by (rule psubset_card_mono) (use assms in \<open>auto simp: nodes_of_def\<close>)

lemma idle_given_up:
  assumes "decisive pq hook sendconn_cnt loc0 m r" and a: "agree loc0 participants loc"
    and idle: "\<And>i. i < n_inhandles loc \<Longrightarrow> wanted participants loc i \<Longrightarrow> handle_result (rd_receive r) loc i = SHM_MQ_WOULD_BLOCK"
      "\<And>q. bit participants q \<Longrightarrow> q < MTM_MAX_NODES \<Longrightarrow> \<exists>i < n_inhandles loc. wanted participants loc i \<and> in_mask_pos (inhandles loc ! i) = q"
    and sub: "\<And>p. bit participants p \<Longrightarrow> bit m p" and small: "\<And>p. bit participants p \<Longrightarrow> p < DMQ_MAX_DESTINATIONS"
    and q: "bit participants q"
  shows "rd_timeout r \<and> (\<exists>cnt. sendconn_cnt = Some cnt \<and> (cnt ! q = DMQSCONN_DEAD \<or> counter (rd_shared r) q \<noteq> Inr (cnt ! q)))"
proof -
  note d = agreeD [OF a]
  obtain i where i: "i < n_inhandles loc0" "wanted participants loc i" "in_mask_pos (inhandles loc0 ! i) = q"
    using idle(2) [OF q] small [OF q] d(1,2,5) by auto
  have w: "handle_result (rd_receive r) loc0 j = SHM_MQ_WOULD_BLOCK" "rd_receive r j = SHM_MQ_WOULD_BLOCK"
    if "j < n_inhandles loc0" "used loc0 j" "in_mask_pos (inhandles loc0 ! j) = q" for j
  proof -
    have j: "j < DMQ_MAX_RECEIVERS" "wanted participants loc j" using that d(2) d(6) [of j] q by auto
    then show "handle_result (rd_receive r) loc0 j = SHM_MQ_WOULD_BLOCK"
      using idle(1) [of j] that d(1) d(7) [OF j, of "rd_receive r"] by simp
    then show "rd_receive r j = SHM_MQ_WOULD_BLOCK" by (simp add: handle_result_def split: if_splits)
  qed
  have "used loc0 i" using i d(2) d(6) [of i] by simp
  with assms(1) sub [OF q] i(1,3) w show ?thesis unfolding decisive_def given_up_def by (metis shm_mq_result.distinct(5))
qed

lemma decisive_progress:
  assumes "gather_round pq my_procno hook sendconn_cnt gen_num r participants got loc = Go_on p1 g1 l1"
    and "decisive pq hook sendconn_cnt loc0 m r" and a: "agree loc0 participants loc" and "participants \<noteq> 0"
    and sub: "\<And>p. bit participants p \<Longrightarrow> bit m p" and small: "\<And>p. bit participants p \<Longrightarrow> p < DMQ_MAX_DESTINATIONS"
  shows "popcount p1 < popcount participants"
proof -
  note d = agreeD [OF a]
  have clear: ?thesis if "p1 = BIT_CLEAR participants q" "bit participants q" for q
    using that small [OF that(2)] by (intro card_nodes_less [of _ _ q]) (auto simp: bit_BIT_CLEAR)
  from assms(1) obtain om p w l where pop: "dmq_pop_nb my_procno (rd_attach r) (rd_views r) (rd_receive r) participants loc = Some (om, p, w, l)"
    by (auto simp: gather_round_def split: option.splits)
  show ?thesis
  proof (cases om)
    case (Some msg)
    from pop_message [OF pop [unfolded Some]] obtain i where "wanted participants loc i"
      "p = int (in_mask_pos (inhandles loc ! i))" "rd_receive r i = SHM_MQ_SUCCESS msg" by blast
    then show ?thesis using assms(1,2) clear [of "nat p"]
      by (auto simp: gather_round_def pop Some decisive_def wanted_def BIT_CHECK_bit split: option.splits if_splits)
  next
    case None
    note pop = pop [unfolded None]
    from pop show ?thesis
    proof (cases rule: pop_none)
      case (detached i)
      then show ?thesis using assms(1) clear [of "nat p"] by (auto simp: gather_round_def pop wanted_def BIT_CHECK_bit)
    next
      case (absent q)
      then show ?thesis using assms(1) clear [of "nat p"] by (auto simp: gather_round_def pop)
    next
      case idle
      have timed: "rd_timeout r \<and> (\<exists>cnt. sendconn_cnt = Some cnt \<and> (cnt ! q = DMQSCONN_DEAD \<or> counter (rd_shared r) q \<noteq> Inr (cnt ! q)))"
        if "bit participants q" for q
        by (rule idle_given_up [OF assms(2) a idle(3,4) sub small that])
      obtain q where q: "bit participants q" using \<open>participants \<noteq> 0\<close> by (metis bit_0_eq bit_eq_iff bot_apply bot_bool_def)
      have "\<not> bit p1 p'" if "bit participants p'" for p'
        using assms(1) timed [OF that] small [OF that]
        by (auto simp: gather_round_def pop idle purge_opt_def purge_bits split: option.splits sum.splits if_splits)
      moreover have "bit participants p'" if "bit p1 p'" for p'
        using assms(1) timed [OF q] that
        by (auto simp: gather_round_def pop idle purge_opt_def purge_bits split: option.splits sum.splits if_splits)
      ultimately show ?thesis using q small [OF q] by (intro card_nodes_less [of _ _ q]) auto
    qed
  qed
qed

lemma gather_loop_returns:
  assumes "\<And>r. r \<in> set rounds \<Longrightarrow> orderly pq my_procno r"
    and "agree loc0 participants loc" and "\<And>p. bit participants p \<Longrightarrow> bit m p" and "\<And>p. bit m p \<Longrightarrow> p < DMQ_MAX_DESTINATIONS"
    and "popcount participants \<le> length (filter (decisive pq hook sendconn_cnt loc0 m) rounds)"
  shows "\<exists>b got' loc'. gather_loop pq my_procno hook sendconn_cnt gen_num rounds participants got loc = Gathered b got' loc'"
  using assms
proof (induction rounds arbitrary: participants got loc)
  case Nil
  have "participants = 0"
  proof (rule bit_eqI)
    fix n
    show "bit participants n = bit 0 n"
      using Nil card_nodes_less [of 0 participants n] by fastforce
  qed
  then show ?case by auto
next
  case (Cons r rounds)
  show ?case
  proof (cases "participants = 0")
    case False
    have small: "p < DMQ_MAX_DESTINATIONS" if "bit participants p" for p using that Cons.prems(3,4) by blast
    from gather_round_orderly [OF Cons.prems(1) small Cons.prems(2), of r hook sendconn_cnt gen_num got]
    consider b g l where "gather_round pq my_procno hook sendconn_cnt gen_num r participants got loc = Return (Gathered b g l)"
      | p1 g1 l1 where "gather_round pq my_procno hook sendconn_cnt gen_num r participants got loc = Go_on p1 g1 l1" by auto
    then show ?thesis
    proof cases
      case 2
      from 2 Cons.prems(2) have "(\<forall>p. bit p1 p \<longrightarrow> bit participants p) \<and> agree loc0 p1 l1"
        by (cases rule: gather_round_cases) (auto simp: bit_BIT_CLEAR)
      then have sub: "bit p1 p \<Longrightarrow> bit participants p" and ag: "agree loc0 p1 l1" for p by blast+
      have le: "popcount p1 \<le> popcount participants"
        unfolding popcount_card by (rule card_mono) (use sub in \<open>auto simp: nodes_of_def\<close>)
      have "popcount p1 \<le> length (filter (decisive pq hook sendconn_cnt loc0 m) rounds)"
        using le decisive_progress [OF 2 _ Cons.prems(2) False Cons.prems(3) small] Cons.prems(5)
        by (cases "decisive pq hook sendconn_cnt loc0 m r") auto
      then show ?thesis using Cons.IH [OF _ ag _ Cons.prems(4)] Cons.prems(1,3) sub 2 False by auto
    qed (use False in simp)
  qed auto
qed

text \<open>
  C37. \<open>gather\<close> does not wait for ever: among rounds without errors, it is enough that there
  are as many rounds as participants in which every participant either answers, has its queue
  detached or, after a timeout, shows a moved connection counter.
\<close>

theorem gather_returns:
  assumes "local_ok loc" and "\<And>r. r \<in> set rounds \<Longrightarrow> orderly pq my_procno r"
    and "\<And>p. bit participants p \<Longrightarrow> p < DMQ_MAX_DESTINATIONS"
    and "popcount participants \<le> length (filter (decisive pq hook sendconn_cnt loc participants) rounds)"
  shows "\<exists>b got loc'. gather pq my_procno hook sendconn_cnt gen_num rounds participants loc = Gathered b got loc'"
  unfolding gather_def
  by (rule gather_loop_returns [OF assms(2) agree_refl [OF assms(1)] _ assms(3,4)])

section \<open>A sample\<close>

text \<open>Two nodes are asked; one answers, the receiver of the other has gone.\<close>

definition two_handles :: dmq_local where
  "two_handles = \<lparr>curr_stream_name = ''xid700'', my_procno_gen = 1, n_inhandles = 2, inhandles =
     [\<lparr>in_name = ''node2'', in_mqh = Some 5, in_mask_pos = 1\<rparr>, \<lparr>in_name = ''node3'', in_mqh = Some 6, in_mask_pos = 2\<rparr>] @
     replicate 8 no_handle\<rparr>"

lemma two_handles_ok: "local_ok two_handles"
  unfolding local_ok_def all_less_10 by code_simp

definition dead_shared :: dmq_shared where
  "dead_shared = \<lparr>sender_pid = 0, destinations = [], sconn_cnt = replicate DMQ_MAX_DESTINATIONS 1, procno_gens = [],
     receivers = replicate DMQ_MAX_RECEIVERS \<lparr>slot_name = [], slot_pid = 0, dsm_handles = []\<rparr>, dmq_subscriptions = []\<rparr>"

definition delivering :: "(nat \<Rightarrow> bytes shm_mq_result) \<Rightarrow> round" where
  "delivering f = \<lparr>rd_receive = f, rd_views = (\<lambda>_. [dead_shared]), rd_attach = (\<lambda>_. False), rd_timeout = False,
     rd_shared = dead_shared, rd_gen = 1\<rparr>"

definition ack :: "int \<Rightarrow> MtmMessage" where
  "ack n = T_MtmPrepareResponse \<lparr>pr_node_id = n, pr_prepared = True, pr_errcode = 0, pr_errmsg = [], pr_xid = 700\<rparr>"

definition answer_or_leave :: "nat \<Rightarrow> bytes shm_mq_result" where
  "answer_or_leave i = (if i = 0 then SHM_MQ_SUCCESS (MtmMessagePack network_pq (ack 2)) else SHM_MQ_DETACHED)"

definition sample_gather :: gather_result where
  "sample_gather = gather network_pq 1 (\<lambda>_. True) None 1 [delivering answer_or_leave, delivering answer_or_leave] 6 two_handles"

theorem gather_collects_witness:
  "\<exists>got loc'. sample_gather = Gathered True got loc' \<and> length got = 1 \<and> distinct (map snd got) \<and>
     (\<exists>r \<in> set [delivering answer_or_leave, delivering answer_or_leave]. given_up None two_handles r 2)"
proof -
  have "(case sample_gather of Gathered b got _ \<Rightarrow> b \<and> map snd got = [1] | _ \<Rightarrow> False)" by code_simp
  then obtain m loc' where r: "sample_gather = Gathered True [(m, 1)] loc'"
    by (auto simp: map_eq_Cons_conv split: gather_result.splits)
  have "bit (6 :: nodemask_t) 2" by code_simp
  moreover note gather_collects [OF r [unfolded sample_gather_def] two_handles_ok]
  ultimately have "\<exists>r \<in> set [delivering answer_or_leave, delivering answer_or_leave]. given_up None two_handles r 2" by fastforce
  with r show ?thesis by fastforce
qed

lemma dead_reattach: "dmq_reattach_shm_mq my_procno dsm_attach i [dead_shared] loc \<noteq> None"
  unfolding dmq_reattach_shm_mq_def
  by (auto simp: dead_shared_def find_upt_Some_iff simp del: upt_rec_numeral split: option.splits)

theorem gather_returns_witness:
  "\<exists>b got loc'. gather network_pq 1 (\<lambda>_. True) None 1 [delivering answer_or_leave, delivering answer_or_leave] 6 two_handles = Gathered b got loc'"
proof (rule gather_returns [OF two_handles_ok])
  have u: "MtmMessageUnpack network_pq (MtmMessagePack network_pq (ack 2)) \<noteq> None" by code_simp
  show "orderly network_pq 1 r" if "r \<in> set [delivering answer_or_leave, delivering answer_or_leave]" for r
    using that u dead_reattach by (auto simp: orderly_def delivering_def answer_or_leave_def dead_shared_def)
  have b: "bit (6 :: nodemask_t) p \<Longrightarrow> p = 1 \<or> p = 2" for p
  proof -
    have six: "(6 :: nodemask_t) = BIT_SET (BIT_SET 0 1) 2" by code_simp
    show "bit (6 :: nodemask_t) p \<Longrightarrow> p = 1 \<or> p = 2" unfolding six by (auto simp: bit_BIT_SET)
  qed
  then show "p < DMQ_MAX_DESTINATIONS" if "bit (6 :: nodemask_t) p" for p using that by fastforce
  have "decisive network_pq (\<lambda>_. True) None two_handles 6 (delivering answer_or_leave)"
    unfolding decisive_def
  proof (intro conjI allI impI disjI2)
    fix p
    assume "bit (6 :: nodemask_t) p"
    from b [OF this] show "\<exists>i < n_inhandles two_handles. used two_handles i \<and> in_mask_pos (inhandles two_handles ! i) = p \<and>
        rd_receive (delivering answer_or_leave) i \<noteq> SHM_MQ_WOULD_BLOCK"
      by (intro exI [of _ "p - 1"]) (auto simp: delivering_def answer_or_leave_def two_handles_def used_def)
  qed simp
  moreover have "popcount (6 :: nodemask_t) = 2" by code_simp
  ultimately show "popcount (6 :: nodemask_t) \<le> length (filter (decisive network_pq (\<lambda>_. True) None two_handles 6) [delivering answer_or_leave, delivering answer_or_leave])"
    by simp
qed

end
