(* ===== verification/Txlist.thy ===== *)
theory Txlist
  imports Mtm_Prelude
begin

text \<open>
  The list of work in progress of a pool of appliers (\<open>txl_*\<close> of \<open>src/src/bgwpool.c\<close>): a doubly
  linked list in a shared array, in the order the receiver got the work. An element is a
  transaction (value 1) or a synchronization point (value 2); 0 marks a free cell. Appliers wait
  for their turn in this order.

  A violated assertion or an access outside the array is \<open>None\<close>. Every operation holds the lock of
  the list, so operations are functions on the list; a process that waits looks at the list each
  time it is woken.
\<close>

section \<open>The list in the array\<close>

record txlelem_t =
  tx_value :: int
  tx_prev :: int
  tx_next :: int

record txlist_t =
  store :: "txlelem_t list"
  tl_tail :: int
  tl_head :: int
  tl_size :: nat
  nelems :: int

definition elem :: "txlist_t \<Rightarrow> int \<Rightarrow> txlelem_t option" where
  "elem t p = (if p < 0 then None else nth_opt (store t) (nat p))"

definition set_elem :: "int \<Rightarrow> (txlelem_t \<Rightarrow> txlelem_t) \<Rightarrow> txlist_t \<Rightarrow> txlist_t option" where
  "set_elem p f t = map_option (\<lambda>e. t\<lparr>store := (store t)[nat p := f e]\<rparr>) (elem t p)"

text \<open>The three assertions on the links of a cell.\<close>

definition links_ok :: "int \<Rightarrow> txlelem_t \<Rightarrow> bool" where
  "links_ok p e = ((tx_prev e = -1 \<or> tx_prev e \<noteq> p) \<and> (tx_next e = -1 \<or> tx_next e \<noteq> p) \<and>
     (tx_prev e = -1 \<or> tx_prev e \<noteq> tx_next e))"

definition txl_clear :: "txlist_t \<Rightarrow> txlist_t" where
  "txl_clear t = t\<lparr>store := replicate (tl_size t) \<lparr>tx_value = 0, tx_prev = 0, tx_next = 0\<rparr>,
     tl_head := -1, tl_tail := -1, nelems := 0\<rparr>"

text \<open>The search for a free cell, from position \<open>p\<close> in what is left of the array.\<close>

fun free_cell :: "nat \<Rightarrow> txlelem_t list \<Rightarrow> nat option" where
  "free_cell p [] = None"
| "free_cell p (e # es) = (if tx_value e = 0 then Some p else if links_ok (int p) e then free_cell (p + 1) es else None)"

definition txl_store :: "txlist_t \<Rightarrow> int \<Rightarrow> (int \<times> txlist_t) option" where
  "txl_store t value =
     Option.bind (free_cell 0 (store t)) (\<lambda>n. let p = int n in
     Option.bind (set_elem p (\<lambda>_. \<lparr>tx_value = value, tx_prev = tl_tail t, tx_next = -1\<rparr>) t) (\<lambda>t1.
     Option.bind (if tl_tail t \<ge> 0 then set_elem (tl_tail t) (\<lambda>e. e\<lparr>tx_next := p\<rparr>) t1
                  else if tl_head t = -1 then Some t1 else None) (\<lambda>t2.
     let t3 = t2\<lparr>tl_head := (if tl_head t = -1 then p else tl_head t), tl_tail := p, nelems := nelems t + 1\<rparr>
     in case elem t3 p of None \<Rightarrow> None
        | Some e \<Rightarrow> if nelems t3 \<le> int (tl_size t3) \<and> links_ok p e then Some (p, t3) else None)))"

text \<open>Which condition variable is broadcast.\<close>

datatype wakeup = Syncpoint_cv | Transaction_cv

definition txl_syncpoint_at_head :: "txlist_t \<Rightarrow> bool option" where
  "txl_syncpoint_at_head t = (if tl_head t = -1 then Some False
     else map_option (\<lambda>e. tx_value e = 2) (elem t (tl_head t)))"

definition txl_wakeup_workers :: "txlist_t \<Rightarrow> wakeup option" where
  "txl_wakeup_workers t = map_option (\<lambda>sp. if sp then Syncpoint_cv else Transaction_cv) (txl_syncpoint_at_head t)"

definition unlink :: "int \<Rightarrow> txlelem_t \<Rightarrow> txlist_t \<Rightarrow> txlist_t option" where
  "unlink txlist_pos e t =
     (if txlist_pos \<noteq> tl_head t
      then (let ppos = tx_prev e; npos = tx_next e in
        if ppos = -1 then None else
        Option.bind (set_elem ppos (\<lambda>e. e\<lparr>tx_next := npos\<rparr>) t) (\<lambda>t1.
        Option.bind (if npos \<noteq> -1 then set_elem npos (\<lambda>e. e\<lparr>tx_prev := ppos\<rparr>) t1 else Some t1) (\<lambda>t2.
        if txlist_pos = tl_tail t
        then (case elem t2 ppos of None \<Rightarrow> None
              | Some pe \<Rightarrow> if tx_next pe = -1 then Some (t2\<lparr>tl_tail := ppos\<rparr>) else None)
        else Some t2)))
      else (let npos = tx_next e in
        if npos \<noteq> -1 then set_elem npos (\<lambda>e. e\<lparr>tx_prev := -1\<rparr>) (t\<lparr>tl_head := npos\<rparr>)
        else Some (t\<lparr>tl_head := npos, tl_tail := -1\<rparr>)))"

text \<open>Position -1 is that of work the receiver does itself. The second component is the wakeup, if any.\<close>

definition txl_remove :: "txlist_t \<Rightarrow> int \<Rightarrow> (txlist_t \<times> wakeup option) option" where
  "txl_remove t txlist_pos =
     (if txlist_pos = -1 then Some (t, None)
      else case elem t txlist_pos of
        None \<Rightarrow> None
      | Some e \<Rightarrow>
          if tx_value e \<le> 0 then None
          else Option.bind (unlink txlist_pos e t) (\<lambda>t1.
               Option.bind (set_elem txlist_pos (\<lambda>_. \<lparr>tx_value = 0, tx_prev = -1, tx_next = -1\<rparr>) t1) (\<lambda>t2.
               let t3 = t2\<lparr>nelems := nelems t2 - 1\<rparr>
               in if nelems t3 < 0 then None
                  else if nelems t3 > 0 then map_option (\<lambda>c. (t3, Some c)) (txl_wakeup_workers t3)
                  else Some (t3, None))))"

section \<open>Waiting\<close>

text \<open>The walk back through the list; a list that runs in a circle gives no answer.\<close>

partial_function (option) can_commit_from :: "txlist_t \<Rightarrow> int \<Rightarrow> bool option" where
  "can_commit_from t p = (case elem t p of None \<Rightarrow> None
     | Some e \<Rightarrow>
         if tx_prev e = -1 then Some True
         else (case elem t (tx_prev e) of None \<Rightarrow> None
               | Some pe \<Rightarrow> if \<not> links_ok (tx_prev e) pe \<or> tx_value pe = 0 then None
                            else if tx_value pe = 2 then Some False
                            else can_commit_from t (tx_prev e)))"

definition can_commit :: "txlist_t \<Rightarrow> int \<Rightarrow> bool option" where
  "can_commit t p = (if p = -1 then Some True else can_commit_from t p)"

text \<open>Each element is the list as a waiting process sees it; the result is how often it slept.\<close>

fun txl_wait_head :: "int \<Rightarrow> txlist_t list \<Rightarrow> nat option" where
  "txl_wait_head txlist_pos [] = None"
| "txl_wait_head txlist_pos (t # ts) = (if txlist_pos = tl_head t then Some 0 else map_option Suc (txl_wait_head txlist_pos ts))"

fun txl_wait_syncpoint :: "int \<Rightarrow> txlist_t list \<Rightarrow> nat option" where
  "txl_wait_syncpoint txlist_pos [] = None"
| "txl_wait_syncpoint txlist_pos (t # ts) = (case can_commit t txlist_pos of None \<Rightarrow> None
     | Some True \<Rightarrow> Some 0 | Some False \<Rightarrow> map_option Suc (txl_wait_syncpoint txlist_pos ts))"

section \<open>The list it stands for\<close>

text \<open>
  A segment of the list: the cells of \<open>xs\<close>, each with its position and value, linked in this order
  after the cell \<open>pr\<close> and before the cell \<open>nx\<close>.
\<close>

definition first_of :: "(nat \<times> int) list \<Rightarrow> int \<Rightarrow> int" where
  "first_of xs nx = (case xs of [] \<Rightarrow> nx | (q, _) # _ \<Rightarrow> int q)"

definition last_of :: "(nat \<times> int) list \<Rightarrow> int \<Rightarrow> int" where
  "last_of xs pr = (if xs = [] then pr else int (fst (last xs)))"

fun seg :: "txlelem_t list \<Rightarrow> int \<Rightarrow> (nat \<times> int) list \<Rightarrow> int \<Rightarrow> bool" where
  "seg st pr [] nx = True"
| "seg st pr ((p, v) # xs) nx = (p < length st \<and> st ! p = \<lparr>tx_value = v, tx_prev = pr, tx_next = first_of xs nx\<rparr> \<and>
     seg st (int p) xs nx)"

lemma first_of_simps [simp]: "first_of [] nx = nx" "first_of (x # xs) nx = int (fst x)"
  by (simp_all add: first_of_def split: prod.splits)

lemma first_of_append: "first_of (xs @ ys) nx = first_of xs (first_of ys nx)"
  by (cases xs) auto

lemma last_of_simps [simp]: "last_of [] pr = pr" "last_of (xs @ [x]) pr = int (fst x)"
  by (simp_all add: last_of_def)

lemma last_of_Cons: "last_of (x # xs) pr = last_of xs (int (fst x))"
  by (simp add: last_of_def)

lemma seg_append: "seg st pr (xs @ ys) nx \<longleftrightarrow> seg st pr xs (first_of ys nx) \<and> seg st (last_of xs pr) ys nx"
  by (induction st pr xs nx rule: seg.induct) (auto simp: first_of_append last_of_Cons)

lemma seg_frame: "q \<notin> fst ` set xs \<Longrightarrow> seg (st[q := e]) pr xs nx = seg st pr xs nx"
  by (induction st pr xs nx rule: seg.induct) (auto simp: nth_list_update)

lemma seg_length: "seg st pr xs nx \<Longrightarrow> x \<in> set xs \<Longrightarrow> fst x < length st"
  by (induction st pr xs nx rule: seg.induct) auto

text \<open>The links at both ends of a segment can be moved.\<close>

lemma seg_set_next:
  assumes "seg st pr xs nx" and "xs \<noteq> []" and "distinct (map fst xs)"
  shows "seg (st[fst (last xs) := (st ! fst (last xs))\<lparr>tx_next := nx'\<rparr>]) pr xs nx'"
proof -
  obtain ys p v where xs: "xs = ys @ [(p, v)]" using assms(2) by (metis append_butlast_last_id surj_pair)
  with assms(1,3) show ?thesis by (auto simp: seg_append seg_frame)
qed

lemma seg_set_prev:
  assumes "seg st pr xs nx" and "xs \<noteq> []" and "distinct (map fst xs)"
  shows "seg (st[fst (hd xs) := (st ! fst (hd xs))\<lparr>tx_prev := pr'\<rparr>]) pr' xs nx"
  using assms by (cases xs) (auto simp: seg_frame)

text \<open>The list in the array is \<open>xs\<close>.\<close>

definition shape :: "txlist_t \<Rightarrow> (nat \<times> int) list \<Rightarrow> bool" where
  "shape t xs \<longleftrightarrow> length (store t) = tl_size t \<and> seg (store t) (-1) xs (-1) \<and> distinct (map fst xs) \<and>
     tl_head t = first_of xs (-1) \<and> tl_tail t = last_of xs (-1) \<and> nelems t = int (length xs) \<and>
     (\<forall>p < tl_size t. p \<notin> fst ` set xs \<longrightarrow> tx_value (store t ! p) = 0) \<and> (\<forall>x \<in> set xs. 0 < snd x)"

lemma shape_cell:
  assumes "shape t (as @ (p, v) # bs)"
  shows "elem t (int p) = Some \<lparr>tx_value = v, tx_prev = last_of as (-1), tx_next = first_of bs (-1)\<rparr>"
    and "links_ok (int p) \<lparr>tx_value = v, tx_prev = last_of as (-1), tx_next = first_of bs (-1)\<rparr>" and "0 < v"
proof -
  show "elem t (int p) = Some \<lparr>tx_value = v, tx_prev = last_of as (-1), tx_next = first_of bs (-1)\<rparr>"
    using assms by (auto simp: shape_def seg_append elem_def)
  have "last_of as (-1) = -1 \<or> (\<exists>x \<in> set as. last_of as (-1) = int (fst x))" using last_in_set by (auto simp: last_of_def)
  moreover have "first_of bs (-1) = -1 \<or> (\<exists>x \<in> set bs. first_of bs (-1) = int (fst x))" by (cases bs) auto
  moreover have "p \<notin> fst ` set as" "p \<notin> fst ` set bs" "fst ` set as \<inter> fst ` set bs = {}"
    using assms by (auto simp: shape_def)
  ultimately show "links_ok (int p) \<lparr>tx_value = v, tx_prev = last_of as (-1), tx_next = first_of bs (-1)\<rparr>"
    unfolding links_ok_def by (elim disjE bexE) auto
  show "0 < v" using assms by (simp add: shape_def)
qed

section \<open>Operations on the list\<close>

lemma shape_clear: "shape (txl_clear t) []"
  by (simp add: shape_def txl_clear_def)

lemma free_cell_found:
  "(\<And>i. i < length es \<Longrightarrow> tx_value (es ! i) \<noteq> 0 \<Longrightarrow> links_ok (int (p + i)) (es ! i)) \<Longrightarrow> \<exists>e \<in> set es. tx_value e = 0 \<Longrightarrow>
   \<exists>n < length es. free_cell p es = Some (p + n) \<and> tx_value (es ! n) = 0"
proof (induction es arbitrary: p)
  case (Cons e es)
  show ?case
  proof (cases "tx_value e = 0")
    case False
    have "\<exists>n < length es. free_cell (p + 1) es = Some (p + 1 + n) \<and> tx_value (es ! n) = 0"
      using Cons.prems(1) [of "Suc _"] Cons.prems(2) False by (intro Cons.IH) auto
    then obtain n where "n < length es" "free_cell (p + 1) es = Some (p + 1 + n)" "tx_value (es ! n) = 0" by blast
    with False Cons.prems(1) [of 0] show ?thesis by (intro exI [of _ "Suc n"]) simp
  qed auto
qed simp

lemma shape_used:
  assumes "shape t xs" and "i < length (store t)" and "tx_value (store t ! i) \<noteq> 0"
  obtains as v bs where "xs = as @ (i, v) # bs"
proof -
  have "i \<in> fst ` set xs" using assms by (auto simp: shape_def)
  then obtain v where "(i, v) \<in> set xs" by auto
  then show thesis using that by (auto dest!: split_list)
qed

lemma shape_free:
  assumes "shape t xs" and "length xs < tl_size t"
  obtains n where "n < tl_size t" "free_cell 0 (store t) = Some n" "n \<notin> fst ` set xs"
proof -
  have len: "length (store t) = tl_size t" using assms(1) by (simp add: shape_def)
  have "card (fst ` set xs) < card {..<tl_size t}"
    using assms card_image_le [of "set xs" fst] card_length [of xs] by simp
  then obtain q where q: "q < tl_size t" "q \<notin> fst ` set xs"
    using card_mono [of "fst ` set xs" "{..<tl_size t}"] by fastforce
  have "links_ok (int (0 + i)) (store t ! i)" if i: "i < length (store t)" "tx_value (store t ! i) \<noteq> 0" for i
  proof -
    obtain as v bs where "xs = as @ (i, v) # bs" using shape_used [OF assms(1) i] .
    then show ?thesis using shape_cell(1,2) [of t as i v bs] assms(1) i(1) by (simp add: elem_def)
  qed
  moreover have "\<exists>e \<in> set (store t). tx_value e = 0"
    using q len assms(1) unfolding shape_def by (metis nth_mem)
  ultimately obtain n where n: "n < length (store t)" "free_cell 0 (store t) = Some n" "tx_value (store t ! n) = 0"
    using free_cell_found [of "store t" 0] by auto
  moreover have "n \<notin> fst ` set xs"
  proof
    assume "n \<in> fst ` set xs"
    then obtain v as bs where "xs = as @ (n, v) # bs" by (auto dest!: split_list)
    with shape_cell [of t as n v bs] assms(1) n show False by (auto simp: elem_def)
  qed
  ultimately show thesis using that len by auto
qed

lemma txl_store_appends:
  assumes "shape t xs" and "length xs < tl_size t" and "0 < v"
  obtains p t' where "txl_store t v = Some (int p, t')" "p \<notin> fst ` set xs" "shape t' (xs @ [(p, v)])" "tl_size t' = tl_size t"
proof -
  obtain p where p: "p < tl_size t" "free_cell 0 (store t) = Some p" "p \<notin> fst ` set xs" using shape_free [OF assms(1,2)] by blast
  note s = assms(1) [unfolded shape_def]
  let ?st1 = "(store t)[p := \<lparr>tx_value = v, tx_prev = last_of xs (-1), tx_next = -1\<rparr>]"
  let ?st = "if xs = [] then ?st1 else ?st1[fst (last xs) := (?st1 ! fst (last xs))\<lparr>tx_next := int p\<rparr>]"
  let ?t = "t\<lparr>store := ?st, tl_head := first_of xs (int p), tl_tail := int p, nelems := nelems t + 1\<rparr>"
  have l: "xs \<noteq> [] \<Longrightarrow> fst (last xs) \<in> fst ` set xs" by simp
  have ll: "xs \<noteq> [] \<Longrightarrow> fst (last xs) < length (store t)" using seg_length [of "store t" "-1" xs "-1" "last xs"] s by simp
  have h: "tl_head t = -1 \<longleftrightarrow> xs = []" "tl_tail t \<ge> 0 \<longleftrightarrow> xs \<noteq> []" using s by (cases xs; auto simp: last_of_def)+
  have np: "xs \<noteq> [] \<Longrightarrow> fst (last xs) \<noteq> p" using l p(3) by metis
  have "seg ?st (-1) xs (int p)"
    using s p(3) seg_set_next [of ?st1 "-1" xs "-1" "int p"] by (cases "xs = []") (auto simp: seg_frame)
  moreover have "?st ! p = \<lparr>tx_value = v, tx_prev = last_of xs (-1), tx_next = -1\<rparr>" using p(1) s np by auto
  moreover have "length ?st = length (store t)" by simp
  ultimately have sg: "seg ?st (-1) (xs @ [(p, v)]) (-1)" using p(1) s by (simp add: seg_append)
  have "tx_value (?st ! q) = 0" if "q < tl_size t" "q \<notin> fst ` set (xs @ [(p, v)])" for q
  proof -
    have "q \<noteq> p" "xs \<noteq> [] \<longrightarrow> q \<noteq> fst (last xs)" using that(2) l by auto
    then have "?st ! q = store t ! q" by (cases "xs = []") auto
    then show ?thesis using s that by simp
  qed
  then have sh: "shape ?t (xs @ [(p, v)])"
    unfolding shape_def using s p sg assms(3) by (auto simp: first_of_append)
  have "txl_store t v = Some (int p, ?t)"
    using p(1,2) s h ll np shape_cell(1,2) [of ?t xs p v "[]"] sh assms(2)
    by (auto simp: txl_store_def set_elem_def elem_def Let_def last_of_def first_of_def nth_list_update split: list.splits)
  with sh p(3) that show thesis by auto
qed

text \<open>The cells after the neighbours of a cell have been linked to each other.\<close>

definition bypass :: "txlelem_t list \<Rightarrow> (nat \<times> int) list \<Rightarrow> (nat \<times> int) list \<Rightarrow> txlelem_t list" where
  "bypass st as bs =
     (let st1 = (if as = [] then st else st[fst (last as) := (st ! fst (last as))\<lparr>tx_next := first_of bs (-1)\<rparr>])
      in if bs = [] then st1 else st1[fst (hd bs) := (st1 ! fst (hd bs))\<lparr>tx_prev := last_of as (-1)\<rparr>])"

lemma bypass_seg:
  assumes "seg st (-1) (as @ (p, v) # bs) (-1)" and "distinct (map fst (as @ (p, v) # bs))"
  shows "seg ((bypass st as bs)[p := e]) (-1) (as @ bs) (-1)" and "length (bypass st as bs) = length st"
    and "q \<notin> fst ` set (as @ bs) \<Longrightarrow> bypass st as bs ! q = st ! q"
proof -
  let ?st1 = "if as = [] then st else st[fst (last as) := (st ! fst (last as))\<lparr>tx_next := first_of bs (-1)\<rparr>]"
  have la: "as \<noteq> [] \<Longrightarrow> fst (last as) \<in> fst ` set as" and hb: "bs \<noteq> [] \<Longrightarrow> fst (hd bs) \<in> fst ` set bs" by simp_all
  have d: "p \<notin> fst ` set as" "p \<notin> fst ` set bs" "fst ` set as \<inter> fst ` set bs = {}" using assms(2) by auto
  have a1: "seg ?st1 (-1) as (first_of bs (-1))"
    using assms seg_set_next [of st "-1" as "int p" "first_of bs (-1)"] by (auto simp: seg_append)
  have b1: "seg ?st1 (int p) bs (-1)"
  proof (cases "as = []")
    case False
    then have "fst (last as) \<notin> fst ` set bs" using la d(3) by blast
    then show ?thesis using assms(1) False by (simp add: seg_append seg_frame)
  qed (use assms(1) in simp)
  have "seg (bypass st as bs) (-1) as (first_of bs (-1)) \<and> seg (bypass st as bs) (last_of as (-1)) bs (-1)"
  proof (cases "bs = []")
    case False
    then have "fst (hd bs) \<notin> fst ` set as" using hb d(3) by blast
    with False a1 b1 seg_set_prev [of ?st1 "int p" bs "-1" "last_of as (-1)"] assms(2) show ?thesis
      unfolding bypass_def Let_def by (simp add: seg_frame split del: if_split)
  qed (use a1 in \<open>simp add: bypass_def split: if_splits\<close>)
  then show "seg ((bypass st as bs)[p := e]) (-1) (as @ bs) (-1)" using d by (simp add: seg_append seg_frame)
  show "length (bypass st as bs) = length st" by (simp add: bypass_def Let_def)
  show "bypass st as bs ! q = st ! q" if "q \<notin> fst ` set (as @ bs)"
  proof -
    have "as \<noteq> [] \<Longrightarrow> q \<noteq> fst (last as)" "bs \<noteq> [] \<Longrightarrow> q \<noteq> fst (hd bs)" using that la hb by auto
    then show ?thesis by (cases "as = []"; cases "bs = []") (auto simp: bypass_def Let_def)
  qed
qed

lemma unlink_bypass:
  assumes "shape t (as @ (p, v) # bs)" and "e = \<lparr>tx_value = v, tx_prev = last_of as (-1), tx_next = first_of bs (-1)\<rparr>"
  shows "unlink (int p) e t = Some (t\<lparr>store := bypass (store t) as bs, tl_head := first_of (as @ bs) (-1), tl_tail := last_of (as @ bs) (-1)\<rparr>)"
proof -
  note s = assms(1) [unfolded shape_def]
  have sg: "seg (store t) (-1) (as @ (p, v) # bs) (-1)" and d: "distinct (map fst (as @ (p, v) # bs))" using s by blast+
  have lb: "bs \<noteq> [] \<Longrightarrow> fst (hd bs) < length (store t)" and la: "as \<noteq> [] \<Longrightarrow> fst (last as) < length (store t)"
    using seg_length [OF sg, of "hd bs"] seg_length [OF sg, of "last as"] by auto
  have fb: "bs \<noteq> [] \<Longrightarrow> first_of bs (-1) = int (fst (hd bs))" by (cases bs) auto
  have fa: "as \<noteq> [] \<Longrightarrow> first_of as x = int (fst (hd as))" for x by (cases as) auto
  have ne: "as \<noteq> [] \<Longrightarrow> bs \<noteq> [] \<Longrightarrow> fst (last as) \<noteq> fst (hd bs)"
    using d by (auto simp: disjoint_iff) (metis hd_in_set image_eqI last_in_set)
  have tail: "bs = [] \<longleftrightarrow> tl_tail t = int p"
    using s d by (cases bs rule: rev_cases) (auto simp: last_of_def)
  have head: "as = [] \<longleftrightarrow> tl_head t = int p"
    using s d by (cases as) (auto simp: first_of_append)
  show ?thesis
  proof (cases "as = []")
    case True
    then show ?thesis using s head lb fb unfolding assms(2)
      by (cases "bs = []") (auto simp: unlink_def set_elem_def elem_def bypass_def Let_def last_of_def)
  next
    case False
    then have "tl_head t \<noteq> int p" "last_of as (-1) = int (fst (last as))" using head by (auto simp: last_of_def)
    then show ?thesis using s False tail la lb fb fa ne unfolding assms(2)
      by (cases t, cases "bs = []") (auto simp: unlink_def set_elem_def elem_def bypass_def Let_def last_of_def first_of_append)
  qed
qed

lemma txl_remove_deletes:
  assumes "shape t (as @ (p, v) # bs)"
  obtains t' c where "txl_remove t (int p) = Some (t', c)" "shape t' (as @ bs)" "tl_size t' = tl_size t"
    "c = (if as @ bs = [] then None else Some (if snd (hd (as @ bs)) = 2 then Syncpoint_cv else Transaction_cv))"
proof -
  note s = assms(1) [unfolded shape_def]
  have sg: "seg (store t) (-1) (as @ (p, v) # bs) (-1)" and d: "distinct (map fst (as @ (p, v) # bs))" using s by blast+
  let ?free = "\<lparr>tx_value = 0, tx_prev = -1, tx_next = -1\<rparr>"
  let ?t = "t\<lparr>tl_head := first_of (as @ bs) (-1), tl_tail := last_of (as @ bs) (-1), store := (bypass (store t) as bs)[p := ?free], nelems := nelems t - 1\<rparr>"
  note b = bypass_seg [OF sg d]
  have p: "p < length (store t)" using seg_length [OF sg, of "(p, v)"] by simp
  have "tx_value ((bypass (store t) as bs)[p := ?free] ! q) = 0" if "q < tl_size t" "q \<notin> fst ` set (as @ bs)" for q
    using that s b(2) b(3) [OF that(2)] by (cases "q = p") auto
  then have sh: "shape ?t (as @ bs)" unfolding shape_def using s b by auto
  note c = shape_cell [OF assms]
  have n: "nelems ?t = int (length (as @ bs))" using s by simp
  have r: "txl_remove t (int p) = (if 0 < nelems ?t then map_option (\<lambda>c. (?t, Some c)) (txl_wakeup_workers ?t) else Some (?t, None))"
    using c n p b(2) unlink_bypass [OF assms refl] by (simp add: txl_remove_def set_elem_def elem_def Let_def)
  have "txl_remove t (int p) = Some (?t, if as @ bs = [] then None else Some (if snd (hd (as @ bs)) = 2 then Syncpoint_cv else Transaction_cv))"
  proof (cases "as @ bs")
    case (Cons x xs)
    then have "elem ?t (int (fst x)) = Some \<lparr>tx_value = snd x, tx_prev = -1, tx_next = first_of xs (-1)\<rparr>"
      using shape_cell(1) [of ?t "[]" "fst x" "snd x" xs] sh by simp
    then have "txl_wakeup_workers ?t = Some (if snd x = 2 then Syncpoint_cv else Transaction_cv)"
      using Cons by (simp add: txl_wakeup_workers_def txl_syncpoint_at_head_def)
    moreover have "0 < length (as @ bs)" unfolding Cons by simp
    then have "0 < nelems ?t" unfolding n by (simp only: of_nat_0_less_iff)
    ultimately show ?thesis unfolding r Cons by simp
  qed (use r n in simp)
  with sh that show thesis by auto
qed

lemma can_commit_walks:
  assumes "shape t (as @ (p, v) # bs)"
  shows "can_commit_from t (int p) = Some (\<forall>x \<in> set as. snd x \<noteq> 2)"
  using assms
proof (induction as arbitrary: p v bs rule: rev_induct)
  case Nil
  then show ?case using shape_cell(1) [OF Nil.prems] by (simp add: can_commit_from.simps)
next
  case (snoc x as)
  have sh: "shape t (as @ (fst x, snd x) # (p, v) # bs)" using snoc.prems by simp
  note c = shape_cell [OF snoc.prems] and d = shape_cell [OF sh]
  have "can_commit_from t (int p) = (if snd x = 2 then Some False else can_commit_from t (int (fst x)))"
    using c(1) d by (subst can_commit_from.simps) simp
  then show ?case using snoc.IH [OF sh] by simp
qed

section \<open>The operations are those of a list\<close>

text \<open>The reference: work in the order it came, with a wakeup for whoever is first.\<close>

definition list_remove :: "nat \<Rightarrow> (nat \<times> int) list \<Rightarrow> (nat \<times> int) list" where
  "list_remove p xs = filter (\<lambda>x. fst x \<noteq> p) xs"

definition list_wakeup :: "(nat \<times> int) list \<Rightarrow> wakeup option" where
  "list_wakeup xs = (case xs of [] \<Rightarrow> None | (_, v) # _ \<Rightarrow> Some (if v = 2 then Syncpoint_cv else Transaction_cv))"

definition list_can_commit :: "nat \<Rightarrow> (nat \<times> int) list \<Rightarrow> bool" where
  "list_can_commit p xs = list_all (\<lambda>x. snd x \<noteq> 2) (takeWhile (\<lambda>x. fst x \<noteq> p) xs)"

lemma list_split:
  assumes "distinct (map fst (as @ (p, v) # bs))"
  shows "list_remove p (as @ (p, v) # bs) = as @ bs" and "takeWhile (\<lambda>x. fst x \<noteq> p) (as @ (p, v) # bs) = as"
  using assms by (induction as) (auto simp: list_remove_def filter_id_conv image_iff)

text \<open>
  C39. The linked list in the array behaves like a list to which work is appended: storing adds at
  the end unless the array is full, removing takes out just the given work and wakes those waiting
  for what is then first, a transaction may commit exactly when no synchronization point is before
  it, and the walk back always ends. No assertion fails and no access leaves the array.
\<close>

theorem txlist_is_list:
  assumes "shape t xs"
  shows "(length xs < tl_size t \<and> 0 < v \<longrightarrow>
      (\<exists>p t'. txl_store t v = Some (int p, t') \<and> p \<notin> fst ` set xs \<and> shape t' (xs @ [(p, v)]) \<and> tl_size t' = tl_size t)) \<and>
    (q \<in> fst ` set xs \<longrightarrow>
      (\<exists>t'. txl_remove t (int q) = Some (t', list_wakeup (list_remove q xs)) \<and> shape t' (list_remove q xs) \<and> tl_size t' = tl_size t) \<and>
      can_commit t (int q) = Some (list_can_commit q xs)) \<and>
    tl_head t = first_of xs (-1)"
proof (intro conjI impI)
  assume "length xs < tl_size t \<and> 0 < v"
  then show "\<exists>p t'. txl_store t v = Some (int p, t') \<and> p \<notin> fst ` set xs \<and> shape t' (xs @ [(p, v)]) \<and> tl_size t' = tl_size t"
    using txl_store_appends [OF assms] by metis
next
  assume "q \<in> fst ` set xs"
  then obtain as u bs where xs: "xs = as @ (q, u) # bs" by (auto dest!: split_list)
  have sh: "shape t (as @ (q, u) # bs)" using assms xs by simp
  then have "distinct (map fst (as @ (q, u) # bs))" by (simp add: shape_def)
  note l = list_split [OF this]
  show "can_commit t (int q) = Some (list_can_commit q xs)"
    using can_commit_walks [OF sh] unfolding xs list_can_commit_def l(2) by (simp add: can_commit_def list_all_iff)
  obtain t' c where "txl_remove t (int q) = Some (t', c)" "shape t' (as @ bs)" "tl_size t' = tl_size t"
    "c = (if as @ bs = [] then None else Some (if snd (hd (as @ bs)) = 2 then Syncpoint_cv else Transaction_cv))"
    using txl_remove_deletes [OF sh] by metis
  then show "\<exists>t'. txl_remove t (int q) = Some (t', list_wakeup (list_remove q xs)) \<and> shape t' (list_remove q xs) \<and> tl_size t' = tl_size t"
    unfolding xs l(1) by (auto simp: list_wakeup_def split: list.splits)
qed (use assms in \<open>simp add: shape_def\<close>)

definition sample_txlist :: txlist_t where
  "sample_txlist = txl_clear \<lparr>store = [], tl_tail = 0, tl_head = 0, tl_size = 3, nelems = 0\<rparr>"

theorem txlist_is_list_witness:
  "\<exists>p t'. txl_store sample_txlist 2 = Some (int p, t') \<and> shape t' [(p, 2)] \<and> tl_head sample_txlist = -1"
proof -
  have s: "shape sample_txlist []" unfolding sample_txlist_def by (rule shape_clear)
  from txlist_is_list [OF s, of 2 0] show ?thesis by (simp add: sample_txlist_def txl_clear_def) blast
qed

end
