(* ===== verification/Bgwpool.thy ===== *)
theory Bgwpool
  imports Txlist
begin

text \<open>
  The work queue of a pool of appliers (\<open>BgwPoolStart\<close>, \<open>BgwPoolExecute\<close>, \<open>BgwPoolMainLoop\<close>,
  \<open>BgwPoolShutdown\<close> and \<open>BgwPoolCancel\<close> of \<open>src/src/bgwpool.c\<close>): the receiver puts transactions in
  a circular buffer in shared memory, the workers take them out. A piece of work is its size, its
  position in the list of transactions, and its bytes, padded; it is not split over the end of the
  buffer, but its size may stay alone there while the rest goes to the beginning.

  Memory is a list of bytes; an integer takes four of them, in little-endian order (nothing depends
  on the order). Starting worker processes belongs to Postgres.
\<close>

section \<open>Memory\<close>

type_synonym mem = "uint8 list"

definition bytes_of_int :: "int \<Rightarrow> uint8 list" where
  "bytes_of_int i = map (\<lambda>k. word_of_int (i div 256 ^ k)) [0..<4]"

definition int_of_bytes :: "uint8 list \<Rightarrow> int" where
  "int_of_bytes bs = (let n = foldr (\<lambda>b n. uint b + 256 * n) bs 0 in if n \<ge> 2 ^ 31 then n - 2 ^ 32 else n)"

definition wr :: "nat \<Rightarrow> uint8 list \<Rightarrow> mem \<Rightarrow> mem" where
  "wr off bs m = take off m @ bs @ drop (off + length bs) m"

definition rd :: "nat \<Rightarrow> nat \<Rightarrow> mem \<Rightarrow> uint8 list" where
  "rd off n m = take n (drop off m)"

definition rd_int :: "nat \<Rightarrow> mem \<Rightarrow> int" where
  "rd_int off m = int_of_bytes (rd off 4 m)"

definition MAXALIGN :: "nat \<Rightarrow> nat" where
  "MAXALIGN sz = (sz + 7) div 8 * 8"

definition MSGLEN :: "nat \<Rightarrow> nat" where
  "MSGLEN sz = 2 * 4 + MAXALIGN sz"

section \<open>The pool\<close>

record BgwPool =
  queue :: mem
  p_head :: nat
  p_tail :: nat
  p_size :: nat
  producerBlocked :: bool
  n_holders :: int
  nWorkers :: nat
  receiver_pid :: int
  p_txlist :: txlist_t

text \<open>The buffer comes from Postgres with whatever it contains.\<close>

definition BgwPoolStart :: "int \<Rightarrow> mem \<Rightarrow> BgwPool \<Rightarrow> BgwPool" where
  "BgwPoolStart my_pid segment pool = pool\<lparr>queue := segment, p_size := length segment, p_head := 0, p_tail := 0,
     nWorkers := 0, n_holders := 0, producerBlocked := False, receiver_pid := my_pid, p_txlist := txl_clear (p_txlist pool)\<rparr>"

text \<open>\<open>registered\<close> and \<open>started\<close> say what Postgres does with a new worker; \<open>None\<close> is an error.\<close>

definition BgwStartExtraWorker :: "nat \<Rightarrow> bool \<Rightarrow> bool \<Rightarrow> BgwPool \<Rightarrow> BgwPool option" where
  "BgwStartExtraWorker MtmMaxWorkers registered started pool =
     (if nWorkers pool \<ge> MtmMaxWorkers then Some pool
      else if \<not> registered then Some pool
      else if started then Some (pool\<lparr>nWorkers := nWorkers pool + 1\<rparr>) else None)"

definition has_room :: "nat \<Rightarrow> BgwPool \<Rightarrow> bool" where
  "has_room sz pool =
     ((p_head pool \<le> p_tail pool \<and> (p_size pool - p_tail pool \<ge> MSGLEN sz \<or> p_head pool \<ge> MSGLEN sz - 4) \<or>
       p_head pool > p_tail pool \<and> p_head pool - p_tail pool \<ge> MSGLEN sz) \<and>
      nelems (p_txlist pool) < int (tl_size (p_txlist pool)))"

text \<open>Writing the work in the buffer.\<close>

definition put_work :: "int \<Rightarrow> uint8 list \<Rightarrow> BgwPool \<Rightarrow> BgwPool" where
  "put_work txlist_pos work pool =
     (let sz = length work;
          q = wr (p_tail pool) (bytes_of_int (int sz)) (queue pool);
          (q, tail) = (if p_size pool - p_tail pool \<ge> MSGLEN sz
             then (wr (p_tail pool + 2 * 4) work (wr (p_tail pool + 4) (bytes_of_int txlist_pos) q), p_tail pool + MSGLEN sz)
             else (wr 4 work (wr 0 (bytes_of_int txlist_pos) q), MSGLEN sz - 4))
      in pool\<lparr>queue := q, p_tail := (if tail = p_size pool then 0 else tail)\<rparr>)"

text \<open>One attempt of the receiver, holding the lock.\<close>

datatype push_result = Pushed int BgwPool | Blocked BgwPool | Push_error

definition push_work :: "nat \<Rightarrow> bool \<Rightarrow> bool \<Rightarrow> uint8 list \<Rightarrow> BgwPool \<Rightarrow> push_result" where
  "push_work MtmMaxWorkers registered started work pool =
     (if \<not> has_room (length work) pool then Blocked (pool\<lparr>producerBlocked := True\<rparr>)
      else case txl_store (p_txlist pool) 1 of
        None \<Rightarrow> Push_error
      | Some (txlist_pos, txl) \<Rightarrow>
          (case (if nelems txl > int (nWorkers pool) then BgwStartExtraWorker MtmMaxWorkers registered started (pool\<lparr>p_txlist := txl\<rparr>)
                 else Some (pool\<lparr>p_txlist := txl\<rparr>)) of
             None \<Rightarrow> Push_error
           | Some pool \<Rightarrow> Pushed txlist_pos (put_work txlist_pos work pool)))"

text \<open>
  The whole call: first wait until nobody holds the pool, then until there is room. Each element of
  the list is what the other processes did while the receiver slept; \<open>None\<close> when it sleeps still.
\<close>

fun wait_holders :: "(BgwPool \<Rightarrow> BgwPool) list \<Rightarrow> BgwPool \<Rightarrow> ((BgwPool \<Rightarrow> BgwPool) list \<times> BgwPool) option" where
  "wait_holders others pool = (if n_holders pool > 0
     then (case others of [] \<Rightarrow> None | f # others \<Rightarrow> wait_holders others (f pool)) else Some (others, pool))"

fun wait_room :: "nat \<Rightarrow> bool \<Rightarrow> bool \<Rightarrow> uint8 list \<Rightarrow> (BgwPool \<Rightarrow> BgwPool) list \<Rightarrow> BgwPool \<Rightarrow> push_result option" where
  "wait_room MtmMaxWorkers registered started work others pool =
     (case push_work MtmMaxWorkers registered started work pool of
        Blocked pool \<Rightarrow> (case others of [] \<Rightarrow> None | f # others \<Rightarrow> wait_room MtmMaxWorkers registered started work others (f pool))
      | r \<Rightarrow> Some r)"

definition BgwPoolExecute :: "nat \<Rightarrow> bool \<Rightarrow> bool \<Rightarrow> uint8 list \<Rightarrow> (BgwPool \<Rightarrow> BgwPool) list \<Rightarrow> BgwPool \<Rightarrow> push_result option" where
  "BgwPoolExecute MtmMaxWorkers registered started work others pool =
     (if MSGLEN (length work) > p_size pool then Some Push_error
      else Option.bind (wait_holders others pool) (\<lambda>(others, pool). wait_room MtmMaxWorkers registered started work others pool))"

text \<open>One attempt of a worker: it sleeps when the queue is empty. The flag says whether the receiver is woken.\<close>

datatype pop_result = Sleep | Took int "uint8 list" bool BgwPool | Pop_assert

definition pop_work :: "BgwPool \<Rightarrow> pop_result" where
  "pop_work pool =
     (if p_head pool = p_tail pool then Sleep
      else let n = rd_int (p_head pool) (queue pool)
           in if n < 0 \<or> n \<ge> int (p_size pool) then Pop_assert
              else let sz = nat n;
                       (txlist_pos, work, head) = (if p_head pool + MSGLEN sz > p_size pool
                          then (rd_int 0 (queue pool), rd 4 sz (queue pool), MSGLEN sz - 4)
                          else (rd_int (p_head pool + 4) (queue pool), rd (p_head pool + 2 * 4) sz (queue pool), p_head pool + MSGLEN sz));
                       head = (if head = p_size pool then 0 else head);
                       (head, tail) = (if head = p_tail pool then (0, 0) else (head, p_tail pool))
                   in Took txlist_pos work (producerBlocked pool) (pool\<lparr>p_head := head, p_tail := tail, producerBlocked := False\<rparr>))"

text \<open>Ending the pool; the workers have been told to stop and waited for.\<close>

definition BgwPoolShutdown :: "BgwPool \<Rightarrow> BgwPool" where
  "BgwPoolShutdown pool = pool\<lparr>nWorkers := 0, producerBlocked := False, p_txlist := txl_clear (p_txlist pool)\<rparr>"

definition BgwPoolCancel :: "BgwPool \<Rightarrow> BgwPool" where
  "BgwPoolCancel pool = pool\<lparr>receiver_pid := -1, nWorkers := 0, producerBlocked := False, p_txlist := txl_clear (p_txlist pool)\<rparr>"

section \<open>Reading what was written\<close>

lemma int_bytes_roundtrip: "0 \<le> i \<Longrightarrow> i < 2 ^ 31 \<Longrightarrow> int_of_bytes (bytes_of_int i) = i"
proof -
  assume i: "0 \<le> i" "i < 2 ^ 31"
  have u: "uint (word_of_int x :: uint8) = x mod 256" for x by (simp add: uint_word_of_int)
  have "i div 16777216 \<le> 2147483647 div 16777216" using i by (intro zdiv_mono1) auto
  then have d: "i div 16777216 mod 256 = i div 16777216" using i by (intro mod_pos_pos_trivial) (auto simp: pos_imp_zdiv_nonneg_iff)
  have e1: "i div 65536 = i div 65536 mod 256 + 256 * (i div 16777216)" using zdiv_zmult2_eq [of 256 i 65536] by simp
  have e2: "i div 256 = i div 256 mod 256 + 256 * (i div 65536)" using zdiv_zmult2_eq [of 256 i 256] by simp
  have e3: "i = i mod 256 + 256 * (i div 256)" by simp
  have "foldr (\<lambda>b n. uint b + 256 * n) (bytes_of_int i) 0 =
    i mod 256 + 256 * (i div 256 mod 256 + 256 * (i div 65536 mod 256 + 256 * (i div 16777216 mod 256)))"
    by (simp add: bytes_of_int_def u upt_rec)
  also have "\<dots> = i" by (simp only: d e1 [symmetric] e2 [symmetric] e3 [symmetric])
  finally have "foldr (\<lambda>b n. uint b + 256 * n) (bytes_of_int i) 0 = i" .
  with i show ?thesis by (simp add: int_of_bytes_def)
qed

lemma length_bytes_of_int [simp]: "length (bytes_of_int i) = 4"
  by (simp add: bytes_of_int_def)

lemma length_wr: "off + length bs \<le> length m \<Longrightarrow> length (wr off bs m) = length m"
  by (simp add: wr_def)

lemma nth_wr:
  assumes "off + length bs \<le> length m" and "i < length m"
  shows "wr off bs m ! i = (if off \<le> i \<and> i < off + length bs then bs ! (i - off) else m ! i)"
  using assms by (auto simp: wr_def nth_append min_def)

lemma rd_nth: "off + n \<le> length m \<Longrightarrow> rd off n m = map (\<lambda>i. m ! (off + i)) [0..<n]"
  by (auto simp: rd_def intro: nth_equalityI)

lemma rd_wr: "off + length bs \<le> length m \<Longrightarrow> rd off (length bs) (wr off bs m) = bs"
  by (simp add: rd_nth length_wr) (auto simp: nth_wr intro: nth_equalityI)

text \<open>Two memories agree on an interval.\<close>

definition same_on :: "nat \<Rightarrow> nat \<Rightarrow> mem \<Rightarrow> mem \<Rightarrow> bool" where
  "same_on a b m m' \<longleftrightarrow> length m' = length m \<and> (\<forall>i. a \<le> i \<and> i < b \<longrightarrow> i < length m \<longrightarrow> m' ! i = m ! i)"

lemma same_on_refl [simp]: "same_on a b m m"
  by (simp add: same_on_def)

lemma same_on_trans: "same_on a b m m' \<Longrightarrow> same_on a b m' m'' \<Longrightarrow> same_on a b m m''"
  by (simp add: same_on_def)

lemma same_on_wr: "off + length bs \<le> length m \<Longrightarrow> b \<le> off \<or> off + length bs \<le> a \<Longrightarrow> same_on a b m (wr off bs m)"
  by (auto simp: same_on_def length_wr nth_wr)

lemma rd_same: "same_on a b m m' \<Longrightarrow> a \<le> off \<Longrightarrow> off + n \<le> b \<Longrightarrow> b \<le> length m \<Longrightarrow> rd off n m' = rd off n m"
  by (auto simp: rd_nth same_on_def)

lemma rd_int_same: "same_on a b m m' \<Longrightarrow> a \<le> off \<Longrightarrow> off + 4 \<le> b \<Longrightarrow> b \<le> length m \<Longrightarrow> rd_int off m' = rd_int off m"
  unfolding rd_int_def by (simp add: rd_same)

lemma rd_int_wr: "off + 4 \<le> length m \<Longrightarrow> 0 \<le> i \<Longrightarrow> i < 2 ^ 31 \<Longrightarrow> rd_int off (wr off (bytes_of_int i) m) = i"
  using rd_wr [of off "bytes_of_int i" m] int_bytes_roundtrip [of i] by (simp add: rd_int_def)

lemma MSGLEN_bound: "n + 8 \<le> MSGLEN n" "4 dvd MSGLEN n" "4 dvd MSGLEN n - 4"
proof -
  have "8 * ((n + 7) div 8) + (n + 7) mod 8 = n + 7" by simp
  moreover have "(n + 7) mod 8 \<le> 7" by simp
  ultimately show "n + 8 \<le> MSGLEN n" unfolding MSGLEN_def MAXALIGN_def by linarith
  have "MSGLEN n = 4 * (2 + (n + 7) div 8 * 2)" by (simp add: MSGLEN_def MAXALIGN_def)
  then show "4 dvd MSGLEN n" "4 dvd MSGLEN n - 4" by (auto simp: dvd_diff_nat)
qed

section \<open>The work in the buffer\<close>

type_synonym work = "int \<times> uint8 list"

text \<open>A piece of work at an address, and one whose size alone is at the end of the buffer.\<close>

definition msg_at :: "mem \<Rightarrow> nat \<Rightarrow> work \<Rightarrow> bool" where
  "msg_at m h x \<longleftrightarrow> rd_int h m = int (length (snd x)) \<and> rd_int (h + 4) m = fst x \<and> rd (h + 8) (length (snd x)) m = snd x \<and>
     h + MSGLEN (length (snd x)) \<le> length m"

definition split_at :: "mem \<Rightarrow> nat \<Rightarrow> work \<Rightarrow> bool" where
  "split_at m e x \<longleftrightarrow> rd_int e m = int (length (snd x)) \<and> rd_int 0 m = fst x \<and> rd 4 (length (snd x)) m = snd x \<and>
     e + 4 \<le> length m \<and> length m < e + MSGLEN (length (snd x))"

fun run :: "mem \<Rightarrow> nat \<Rightarrow> work list \<Rightarrow> nat \<Rightarrow> bool" where
  "run m h [] t = (h = t)"
| "run m h (x # xs) t = (msg_at m h x \<and> run m (h + MSGLEN (length (snd x))) xs t)"

lemma run_le: "run m h xs t \<Longrightarrow> h \<le> t" and run_Nil: "run m h xs h \<Longrightarrow> xs = []"
proof -
  show le: "run m h xs t \<Longrightarrow> h \<le> t" for m h xs t by (induction m h xs t rule: run.induct) auto
  show "run m h xs h \<Longrightarrow> xs = []"
    using le [of m "h + MSGLEN (length (snd (hd xs)))" "tl xs" h] MSGLEN_bound(1) [of "length (snd (hd xs))"]
    by (cases xs) auto
qed

lemma msg_at_same:
  assumes "msg_at m h x" and "same_on a b m m'" and "a \<le> h" and "h + MSGLEN (length (snd x)) \<le> b" and "b \<le> length m"
  shows "msg_at m' h x"
  using assms(1) MSGLEN_bound(1) [of "length (snd x)"] assms(3-5)
    rd_int_same [OF assms(2), of h] rd_int_same [OF assms(2), of "h + 4"] rd_same [OF assms(2), of "h + 8" "length (snd x)"]
  by (auto simp: msg_at_def assms(2) [unfolded same_on_def])

lemma run_same: "run m h xs t \<Longrightarrow> same_on a b m m' \<Longrightarrow> a \<le> h \<Longrightarrow> t \<le> b \<Longrightarrow> b \<le> length m \<Longrightarrow> run m' h xs t"
proof (induction m h xs t rule: run.induct)
  case (2 m h x xs t)
  then have "h + MSGLEN (length (snd x)) \<le> t" using run_le [of m "h + MSGLEN (length (snd x))" xs t] by simp
  with 2 msg_at_same [of m h x a b m'] show ?case by simp
qed simp

lemma run_append: "run m h (xs @ [x]) t \<longleftrightarrow> (\<exists>u. run m h xs u \<and> msg_at m u x \<and> t = u + MSGLEN (length (snd x)))"
  by (induction m h xs t rule: run.induct) auto

lemma split_at_same:
  assumes "split_at m e x" and "same_on 0 b m m'" and "MSGLEN (length (snd x)) - 4 \<le> b" and "b \<le> length m"
    and "same_on e (e + 4) m m'"
  shows "split_at m' e x"
  using assms(1) MSGLEN_bound(1) [of "length (snd x)"] assms(3,4)
    rd_int_same [OF assms(2), of 0] rd_same [OF assms(2), of 4 "length (snd x)"] rd_int_same [OF assms(5), of e]
  by (auto simp: split_at_def assms(2) [unfolded same_on_def])

text \<open>
  The buffer holds \<open>xs\<close>: in one stretch from head to tail; or up to the end of the buffer and from
  its beginning; or with one piece whose size is before the end and whose rest is at the beginning.
\<close>

definition geometry :: "BgwPool \<Rightarrow> bool" where
  "geometry p \<longleftrightarrow> length (queue p) = p_size p \<and> 4 dvd p_size p \<and> 4 dvd p_head p \<and> 4 dvd p_tail p \<and>
     p_head p < p_size p \<and> p_tail p < p_size p"

definition flat :: "BgwPool \<Rightarrow> work list \<Rightarrow> bool" where
  "flat p xs \<longleftrightarrow> p_head p \<le> p_tail p \<and> run (queue p) (p_head p) xs (p_tail p) \<and> (xs = [] \<longrightarrow> p_head p = 0)"

definition wrapped :: "BgwPool \<Rightarrow> work list \<Rightarrow> work list \<Rightarrow> bool" where
  "wrapped p xs ys \<longleftrightarrow> p_tail p < p_head p \<and> xs \<noteq> [] \<and> run (queue p) (p_head p) xs (p_size p) \<and> run (queue p) 0 ys (p_tail p)"

definition splitted :: "BgwPool \<Rightarrow> work list \<Rightarrow> work \<Rightarrow> work list \<Rightarrow> nat \<Rightarrow> bool" where
  "splitted p xs x ys e \<longleftrightarrow> p_tail p < p_head p \<and> e < p_size p \<and> run (queue p) (p_head p) xs e \<and> split_at (queue p) e x \<and>
     run (queue p) (MSGLEN (length (snd x)) - 4) ys (p_tail p)"

definition contains :: "BgwPool \<Rightarrow> work list \<Rightarrow> bool" where
  "contains p ws \<longleftrightarrow> geometry p \<and> (flat p ws \<or> (\<exists>xs ys. ws = xs @ ys \<and> wrapped p xs ys) \<or>
     (\<exists>xs x ys e. ws = xs @ x # ys \<and> splitted p xs x ys e))"

lemma dvd_room: "4 dvd (a :: nat) \<Longrightarrow> 4 dvd b \<Longrightarrow> a < b \<Longrightarrow> a + 4 \<le> b"
  by (auto elim!: dvdE)

text \<open>Taking a piece out, from one stretch or from two.\<close>

definition after_pop :: "nat \<Rightarrow> BgwPool \<Rightarrow> BgwPool" where
  "after_pop head p = (let head = (if head = p_size p then 0 else head)
     in if head = p_tail p then p\<lparr>p_head := 0, p_tail := 0, producerBlocked := False\<rparr> else p\<lparr>p_head := head, producerBlocked := False\<rparr>)"

lemma pop_whole:
  assumes "geometry p" and "p_head p \<noteq> p_tail p" and "msg_at (queue p) (p_head p) x"
  shows "pop_work p = Took (fst x) (snd x) (producerBlocked p) (after_pop (p_head p + MSGLEN (length (snd x))) p)"
  using assms MSGLEN_bound(1) [of "length (snd x)"]
  by (auto simp: pop_work_def msg_at_def geometry_def after_pop_def Let_def numeral_2_eq_2 [symmetric])

lemma pop_split:
  assumes "geometry p" and "p_head p \<noteq> p_tail p" and "split_at (queue p) (p_head p) x" and "MSGLEN (length (snd x)) - 4 \<le> p_size p"
  shows "pop_work p = Took (fst x) (snd x) (producerBlocked p) (after_pop (MSGLEN (length (snd x)) - 4) p)"
  using assms MSGLEN_bound(1) [of "length (snd x)"]
  by (auto simp: pop_work_def split_at_def geometry_def after_pop_def Let_def)

lemma geometry_after_pop: "geometry p \<Longrightarrow> 4 dvd h \<Longrightarrow> h \<le> p_size p \<Longrightarrow> geometry (after_pop h p)"
  by (auto simp: geometry_def after_pop_def Let_def)

lemma flat_after_pop:
  assumes "run (queue p) h xs (p_tail p)" and "p_tail p < p_size p"
  shows "flat (after_pop h p) xs"
proof -
  have "h \<le> p_tail p" using run_le [OF assms(1)] .
  then show ?thesis
    using assms run_Nil [of "queue p" h xs] by (auto simp: flat_def after_pop_def Let_def)
qed

lemma contains_pop:
  assumes "contains p (x # ws)"
  obtains h where "pop_work p = Took (fst x) (snd x) (producerBlocked p) (after_pop h p)" "contains (after_pop h p) ws"
proof -
  let ?n = "MSGLEN (length (snd x))"
  have g: "geometry p" using assms by (simp add: contains_def)
  have d: "4 dvd p_head p + ?n" "4 dvd ?n - 4" using g MSGLEN_bound(2,3) by (auto simp: geometry_def)
  note m = MSGLEN_bound(1) [of "length (snd x)"]
  from assms consider (f) "flat p (x # ws)" | (w) xs ys where "x # ws = xs @ ys" "wrapped p xs ys"
    | (s) xs y ys e where "x # ws = xs @ y # ys" "splitted p xs y ys e" unfolding contains_def by blast
  then show thesis
  proof cases
    case f
    then have r: "msg_at (queue p) (p_head p) x" "run (queue p) (p_head p + ?n) ws (p_tail p)" by (auto simp: flat_def)
    then have "p_head p \<noteq> p_tail p" using run_le m by fastforce
    moreover have "p_head p + ?n \<le> p_size p" using run_le [OF r(2)] g by (simp add: geometry_def)
    ultimately show thesis
      using that pop_whole [OF g _ r(1)] geometry_after_pop [OF g d(1)] flat_after_pop [OF r(2)] g
      by (auto simp: contains_def geometry_def)
  next
    case w
    then obtain xs' where xs: "xs = x # xs'" "ws = xs' @ ys" by (cases xs) (auto simp: wrapped_def)
    have r: "msg_at (queue p) (p_head p) x" "run (queue p) (p_head p + ?n) xs' (p_size p)" "run (queue p) 0 ys (p_tail p)" "p_tail p < p_head p"
      using w(2) unfolding xs wrapped_def by auto
    have le: "p_head p + ?n \<le> p_size p" using run_le [OF r(2)] .
    have "contains (after_pop (p_head p + ?n) p) ws"
    proof (cases "xs' = []")
      case True
      then have "p_head p + ?n = p_size p" using r(2) by simp
      then have "after_pop (p_head p + ?n) p = after_pop 0 p" by (simp add: after_pop_def Let_def)
      with flat_after_pop [OF r(3)] g geometry_after_pop [OF g d(1) le] True xs show ?thesis
        by (auto simp: contains_def geometry_def)
    next
      case False
      then have "p_head p + ?n < p_size p" using le r(2) run_Nil by (metis le_neq_implies_less)
      then have "wrapped (after_pop (p_head p + ?n) p) xs' ys"
        using r False by (auto simp: wrapped_def after_pop_def Let_def)
      then show ?thesis using geometry_after_pop [OF g d(1) le] xs(2) unfolding contains_def by blast
    qed
    then show thesis using that pop_whole [OF g _ r(1)] r(4) by auto
  next
    case s
    then have r: "p_tail p < p_head p" "e < p_size p" "run (queue p) (p_head p) xs e" "split_at (queue p) e y"
      "run (queue p) (MSGLEN (length (snd y)) - 4) ys (p_tail p)" by (auto simp: splitted_def)
    show thesis
    proof (cases xs)
      case Nil
      then have e: "e = p_head p" "y = x" "ys = ws" using s(1) r(3) by auto
      have "MSGLEN (length (snd x)) - 4 \<le> p_size p" using run_le [OF r(5)] r(1) g by (simp add: e geometry_def)
      then show thesis
        using that pop_split [OF g _ r(4) [unfolded e]] geometry_after_pop [OF g d(2)] flat_after_pop [OF r(5) [unfolded e]] r(1) g
        by (auto simp: contains_def geometry_def)
    next
      case (Cons z xs')
      then have e: "z = x" "ws = xs' @ y # ys" using s(1) by auto
      have k: "msg_at (queue p) (p_head p) x" "run (queue p) (p_head p + ?n) xs' e" using r(3) unfolding Cons e by auto
      then have le: "p_head p + ?n \<le> e" using run_le by blast
      then have "splitted (after_pop (p_head p + ?n) p) xs' y ys e"
        using r k by (auto simp: splitted_def after_pop_def Let_def)
      moreover have "geometry (after_pop (p_head p + ?n) p)" using geometry_after_pop [OF g d(1)] le r(2) by simp
      ultimately have "contains (after_pop (p_head p + ?n) p) ws" unfolding contains_def e(2) by blast
      then show thesis using that pop_whole [OF g _ k(1)] r(1) by auto
    qed
  qed
qed

text \<open>Putting a piece in.\<close>

lemma wr3:
  assumes "a + 4 \<le> length m" and "b + 4 \<le> length m" and "c + length w \<le> length m"
    and "a + 4 \<le> b \<or> b + 4 \<le> a" and "a + 4 \<le> c \<or> c + length w \<le> a" and "b + 4 \<le> c \<or> c + length w \<le> b"
    and "0 \<le> i" and "i < 2 ^ 31" and "0 \<le> j" and "j < 2 ^ 31"
  defines "m' \<equiv> wr c w (wr b (bytes_of_int j) (wr a (bytes_of_int i) m))"
  shows "rd_int a m' = i" and "rd_int b m' = j" and "rd c (length w) m' = w" and "length m' = length m"
    and "(\<And>k. lo \<le> k \<Longrightarrow> k < hi \<Longrightarrow> \<not> (a \<le> k \<and> k < a + 4) \<and> \<not> (b \<le> k \<and> k < b + 4) \<and> \<not> (c \<le> k \<and> k < c + length w)) \<Longrightarrow> same_on lo hi m m'"
proof -
  let ?m1 = "wr a (bytes_of_int i) m" and ?m2 = "wr b (bytes_of_int j) (wr a (bytes_of_int i) m)"
  have l: "length ?m1 = length m" "length ?m2 = length m" using assms(1,2) by (simp_all add: length_wr)
  have "rd_int a ?m1 = i" using assms by (simp add: rd_int_wr)
  moreover have "rd_int a ?m2 = rd_int a ?m1"
    using assms(1,2,4) l by (intro rd_int_same [of a "a + 4"]) (auto intro!: same_on_wr)
  moreover have "rd_int a m' = rd_int a ?m2"
    unfolding m'_def using assms(1,3,5) l by (intro rd_int_same [of a "a + 4"]) (auto intro!: same_on_wr)
  ultimately show "rd_int a m' = i" by simp
  have "rd_int b ?m2 = j" using assms l by (simp add: rd_int_wr)
  moreover have "rd_int b m' = rd_int b ?m2"
    unfolding m'_def using assms(2,3,6) l by (intro rd_int_same [of b "b + 4"]) (auto intro!: same_on_wr)
  ultimately show "rd_int b m' = j" by simp
  show "rd c (length w) m' = w" unfolding m'_def using assms(3) l by (simp add: rd_wr)
  show len: "length m' = length m" unfolding m'_def using assms(3) l by (simp add: length_wr)
  show "same_on lo hi m m'"
    if "\<And>k. lo \<le> k \<Longrightarrow> k < hi \<Longrightarrow> \<not> (a \<le> k \<and> k < a + 4) \<and> \<not> (b \<le> k \<and> k < b + 4) \<and> \<not> (c \<le> k \<and> k < c + length w)"
    using that assms(1-3) l len unfolding same_on_def m'_def by (auto simp: nth_wr)
qed

definition fits_int :: "int \<Rightarrow> uint8 list \<Rightarrow> bool" where
  "fits_int pos w \<longleftrightarrow> 0 \<le> pos \<and> pos < 2 ^ 31 \<and> int (length w) < 2 ^ 31"

lemma put_whole:
  assumes "geometry p" and "p_size p - p_tail p \<ge> MSGLEN (length w)" and "fits_int pos w"
  defines "q \<equiv> queue (put_work pos w p)"
  shows "msg_at q (p_tail p) (pos, w)" and "b \<le> p_tail p \<or> p_tail p + MSGLEN (length w) \<le> a \<Longrightarrow> same_on a b (queue p) q"
    and "p_tail (put_work pos w p) = (if p_tail p + MSGLEN (length w) = p_size p then 0 else p_tail p + MSGLEN (length w))"
    and "length q = p_size p"
proof -
  let ?t = "p_tail p"
  have g: "length (queue p) = p_size p" "?t < p_size p" using assms(1) by (simp_all add: geometry_def)
  note m = MSGLEN_bound(1) [of "length w"]
  have q: "q = wr (?t + 8) w (wr (?t + 4) (bytes_of_int pos) (wr ?t (bytes_of_int (int (length w))) (queue p)))"
    using assms(2) by (simp add: q_def put_work_def Let_def)
  note k = wr3 [of ?t "queue p" "?t + 4" "?t + 8" w "int (length w)" pos, folded q]
  show "msg_at q ?t (pos, w)" and "length q = p_size p"
    using k(1-4) assms(2,3) g m by (auto simp: msg_at_def fits_int_def)
  show "same_on a b (queue p) q" if "b \<le> ?t \<or> ?t + MSGLEN (length w) \<le> a"
    using assms(2,3) g m that by (intro k(5)) (auto simp: fits_int_def)
  show "p_tail (put_work pos w p) = (if ?t + MSGLEN (length w) = p_size p then 0 else ?t + MSGLEN (length w))"
    using assms(2) by (simp add: put_work_def Let_def)
qed

lemma put_split:
  assumes "geometry p" and "\<not> p_size p - p_tail p \<ge> MSGLEN (length w)" and "fits_int pos w"
    and "MSGLEN (length w) - 4 \<le> p_head p" and "p_head p \<le> p_tail p"
  defines "q \<equiv> queue (put_work pos w p)"
  shows "split_at q (p_tail p) (pos, w)" and "same_on (p_head p) (p_tail p) (queue p) q"
    and "p_tail (put_work pos w p) = MSGLEN (length w) - 4" and "length q = p_size p"
proof -
  let ?t = "p_tail p"
  have g: "length (queue p) = p_size p" "?t + 4 \<le> p_size p"
    using assms(1) dvd_room [of ?t "p_size p"] by (simp_all add: geometry_def)
  note m = MSGLEN_bound(1) [of "length w"]
  have q: "q = wr 4 w (wr 0 (bytes_of_int pos) (wr ?t (bytes_of_int (int (length w))) (queue p)))"
    using assms(2) by (simp add: q_def put_work_def Let_def)
  note k = wr3 [of ?t "queue p" 0 4 w "int (length w)" pos, folded q]
  show "split_at q ?t (pos, w)" and "length q = p_size p"
    using k(1-4) assms(2-5) g m by (auto simp: split_at_def fits_int_def)
  show "same_on (p_head p) ?t (queue p) q"
    using assms(2-5) g m by (intro k(5)) (auto simp: fits_int_def)
  show "p_tail (put_work pos w p) = MSGLEN (length w) - 4"
    using assms(2,4,5) g by (simp add: put_work_def Let_def)
qed

lemma put_work_same: "p_head (put_work pos w p) = p_head p" "p_size (put_work pos w p) = p_size p"
  "producerBlocked (put_work pos w p) = producerBlocked p" "p_txlist (put_work pos w p) = p_txlist p"
  by (simp_all add: put_work_def Let_def split: prod.splits)

text \<open>A piece that goes after the tail in one stretch leaves the rest of the buffer as it is.\<close>

lemma put_whole_keeps:
  assumes "geometry p" and "p_size p - p_tail p \<ge> MSGLEN (length w)" and "fits_int pos w"
  shows "geometry (put_work pos w p)"
    and "run (queue p) h zs u \<Longrightarrow> u \<le> p_tail p \<or> p_tail p + MSGLEN (length w) \<le> h \<Longrightarrow> u \<le> p_size p \<Longrightarrow> run (queue (put_work pos w p)) h zs u"
    and "run (queue p) h zs (p_tail p) \<Longrightarrow> run (queue (put_work pos w p)) h (zs @ [(pos, w)]) (p_tail p + MSGLEN (length w))"
proof -
  note w = put_whole [OF assms]
  show "geometry (put_work pos w p)"
    using assms(1,2) MSGLEN_bound [of "length w"] w(3,4) put_work_same [of pos w p] by (auto simp: geometry_def split: if_splits)
  have l: "length (queue p) = p_size p" "p_tail p < p_size p" using assms(1) by (simp_all add: geometry_def)
  show keep: "run (queue (put_work pos w p)) h zs u"
    if "run (queue p) h zs u" "u \<le> p_tail p \<or> p_tail p + MSGLEN (length w) \<le> h" "u \<le> p_size p" for h zs u
    by (rule run_same [OF that(1) w(2) [OF that(2)] order_refl order_refl]) (use that(3) l in simp)
  show "run (queue (put_work pos w p)) h (zs @ [(pos, w)]) (p_tail p + MSGLEN (length w))" if "run (queue p) h zs (p_tail p)"
    using keep [OF that] w(1) l by (auto simp: run_append)
qed

lemma put_flat:
  assumes g: "geometry p" and n: "p_size p - p_tail p \<ge> MSGLEN (length w)" and f: "fits_int pos w"
    and gap: "p_tail (put_work pos w p) \<noteq> p_head p" and "flat p ws"
  shows "contains (put_work pos w p) (ws @ [(pos, w)])"
proof -
  note w = put_whole_keeps [OF g n f] and t = put_whole(3) [OF g n f] and sm = put_work_same [of pos w p]
  have r: "run (queue (put_work pos w p)) (p_head p) (ws @ [(pos, w)]) (p_tail p + MSGLEN (length w))"
    using assms(5) w(3) by (simp add: flat_def)
  show ?thesis
  proof (cases "p_tail p + MSGLEN (length w) = p_size p")
    case True
    then have "wrapped (put_work pos w p) (ws @ [(pos, w)]) []" using r t gap sm by (simp add: wrapped_def)
    then show ?thesis using w(1) unfolding contains_def by (metis append_Nil2)
  next
    case False
    then have "flat (put_work pos w p) (ws @ [(pos, w)])" using r t sm run_le [OF r] by (simp add: flat_def)
    then show ?thesis using w(1) by (simp add: contains_def)
  qed
qed

lemma put_before_head:
  assumes "geometry p" and "has_room (length w) p" and "p_tail p < p_head p" and "fits_int pos w"
    and "p_tail (put_work pos w p) \<noteq> p_head p"
  shows "p_size p - p_tail p \<ge> MSGLEN (length w)" "p_tail (put_work pos w p) = p_tail p + MSGLEN (length w)"
    "p_tail p + MSGLEN (length w) < p_head p"
proof -
  have le: "p_tail p + MSGLEN (length w) \<le> p_head p" using assms(2,3) by (auto simp: has_room_def)
  then show n: "p_size p - p_tail p \<ge> MSGLEN (length w)" using assms(1) by (auto simp: geometry_def)
  show "p_tail (put_work pos w p) = p_tail p + MSGLEN (length w)" "p_tail p + MSGLEN (length w) < p_head p"
    using put_whole(3) [OF assms(1) n assms(4)] assms(1,5) le by (auto simp: geometry_def split: if_splits)
qed

lemma put_wrapped:
  assumes g: "geometry p" and room: "has_room (length w) p" and f: "fits_int pos w"
    and gap: "p_tail (put_work pos w p) \<noteq> p_head p" and "wrapped p xs ys"
  shows "wrapped (put_work pos w p) xs (ys @ [(pos, w)])"
proof -
  have "p_tail p < p_head p" using assms(5) by (simp add: wrapped_def)
  note b = put_before_head [OF g room this f gap]
  note w = put_whole_keeps [OF g b(1) f] and sm = put_work_same [of pos w p]
  have "run (queue (put_work pos w p)) (p_head p) xs (p_size p)" using assms(5) b(3) by (intro w(2)) (auto simp: wrapped_def)
  then show ?thesis using assms(5) b w(3) sm by (simp add: wrapped_def)
qed

lemma put_splitted:
  assumes g: "geometry p" and room: "has_room (length w) p" and f: "fits_int pos w"
    and gap: "p_tail (put_work pos w p) \<noteq> p_head p" and s: "splitted p xs y ys e"
  shows "splitted (put_work pos w p) xs y (ys @ [(pos, w)]) e"
proof -
  have lt: "p_tail p < p_head p" using s by (simp add: splitted_def)
  note b = put_before_head [OF g room this f gap]
  note w = put_whole_keeps [OF g b(1) f] and sm = put_work_same [of pos w p] and k = put_whole(2) [OF g b(1) f]
  have r: "run (queue p) (p_head p) xs e" "split_at (queue p) e y" "run (queue p) (MSGLEN (length (snd y)) - 4) ys (p_tail p)" "e < p_size p" "p_head p \<le> e"
    using s run_le by (auto simp: splitted_def)
  have "run (queue (put_work pos w p)) (p_head p) xs e" using r b(3) by (intro w(2)) auto
  moreover have "split_at (queue (put_work pos w p)) e y"
    using r run_le [OF r(3)] g b(3) by (intro split_at_same [OF r(2), of "p_tail p"]) (auto intro!: k simp: geometry_def)
  ultimately show ?thesis using s b w(3) sm by (simp add: splitted_def)
qed

text \<open>Only if the new piece fills the free space exactly does the tail meet the head.\<close>

lemma contains_put:
  assumes c: "contains p ws" and f: "fits_int pos w" and room: "has_room (length w) p"
    and gap: "p_tail (put_work pos w p) \<noteq> p_head p"
  shows "contains (put_work pos w p) (ws @ [(pos, w)])"
proof -
  let ?p = "put_work pos w p" and ?n = "MSGLEN (length w)" and ?t = "p_tail p"
  have g: "geometry p" using c by (simp add: contains_def)
  show ?thesis
  proof (cases "p_size p - ?t \<ge> ?n")
    case True
    note gp = put_whole_keeps(1) [OF g True f]
    from c consider (fl) "flat p ws" | (wp) xs ys where "ws = xs @ ys" "wrapped p xs ys"
      | (sp) xs y ys e where "ws = xs @ y # ys" "splitted p xs y ys e" unfolding contains_def by blast
    then show ?thesis
    proof cases
      case fl
      then show ?thesis by (rule put_flat [OF g True f gap])
    next
      case (wp xs ys)
      with put_wrapped [OF g room f gap] gp show ?thesis unfolding contains_def by (metis append_assoc)
    next
      case (sp xs y ys e)
      with put_splitted [OF g room f gap] gp show ?thesis unfolding contains_def by (metis append_assoc append_Cons)
    qed
  next
    case False
    have g': "length (queue p) = p_size p" "?t < p_size p" "p_head p < p_size p" using g by (simp_all add: geometry_def)
    have ht: "p_head p \<le> ?t" "?n - 4 \<le> p_head p" using room False g' by (auto simp: has_room_def)
    note w = put_split [OF g False f ht(2,1)] and sm = put_work_same [of pos w p]
    have gp: "geometry ?p" using g MSGLEN_bound(3) w(3,4) sm ht by (auto simp: geometry_def)
    have "run (queue p) (p_head p) ws ?t" using c ht(1) by (auto simp: contains_def flat_def wrapped_def splitted_def)
    then have "run (queue ?p) (p_head p) ws ?t" by (rule run_same [OF _ w(2) order_refl order_refl]) (use g' in simp)
    then have "splitted ?p ws (pos, w) [] ?t" using w gap sm ht g' by (simp add: splitted_def)
    then show ?thesis using gp unfolding contains_def by blast
  qed
qed

lemma push_work_pushes:
  assumes r: "push_work mx rg st work p = Pushed pos p'" and sh: "shape (p_txlist p) xs" and c: "contains p ws"
    and "int (length work) < 2 ^ 31" and "int (tl_size (p_txlist p)) \<le> 2 ^ 31" and gap: "p_head p' \<noteq> p_tail p'"
  shows "contains p' (ws @ [(pos, work)]) \<and> (\<exists>n. pos = int n \<and> n \<notin> fst ` set xs \<and> shape (p_txlist p') (xs @ [(n, 1)]))"
proof -
  have room: "has_room (length work) p" using r by (auto simp: push_work_def split: if_splits)
  then have "length xs < tl_size (p_txlist p)" using sh by (simp add: has_room_def shape_def)
  from txl_store_appends [OF sh this, of 1] obtain n txl where t: "txl_store (p_txlist p) 1 = Some (int n, txl)" "n \<notin> fst ` set xs"
    "shape txl (xs @ [(n, 1)])" "tl_size txl = tl_size (p_txlist p)" by auto
  from r room t(1) obtain p1 where p1: "pos = int n" "p' = put_work (int n) work p1" "queue p1 = queue p" "p_head p1 = p_head p" "p_tail p1 = p_tail p"
    "p_size p1 = p_size p" "p_txlist p1 = txl"
    by (auto simp: push_work_def BgwStartExtraWorker_def split: if_splits option.splits)
  have "n < tl_size txl"
    using t(3) seg_length [of "store txl" "-1" "xs @ [(n, 1)]" "-1" "(n, 1)"] by (simp add: shape_def)
  then have f: "fits_int (int n) work" using assms(4,5) t(4) by (simp add: fits_int_def)
  have "has_room (length work) (p1\<lparr>p_txlist := p_txlist p\<rparr>)" using room p1 by (simp add: has_room_def)
  moreover have "contains (p1\<lparr>p_txlist := p_txlist p\<rparr>) ws"
    using c p1 by (simp add: contains_def geometry_def flat_def wrapped_def splitted_def)
  moreover have u: "put_work (int n) work (p1\<lparr>p_txlist := p_txlist p\<rparr>) = (put_work (int n) work p1)\<lparr>p_txlist := p_txlist p\<rparr>"
    by (simp add: put_work_def Let_def)
  ultimately have "contains ((put_work (int n) work p1)\<lparr>p_txlist := p_txlist p\<rparr>) (ws @ [(int n, work)])"
    using contains_put [of "p1\<lparr>p_txlist := p_txlist p\<rparr>" ws "int n" work] f gap p1 by (simp add: put_work_same)
  then have "contains p' (ws @ [(pos, work)])"
    using p1(1,2) by (simp add: contains_def geometry_def flat_def wrapped_def splitted_def)
  then show ?thesis using p1 t by (simp add: put_work_same)
qed

lemma contains_Nil: "contains p [] \<Longrightarrow> p_head p = 0 \<and> p_tail p = 0"
  by (auto simp: contains_def flat_def wrapped_def)

text \<open>
  C40. The circular buffer is a first-in first-out queue: what the receiver pushes is appended, both
  to the queue and to the list of transactions, and a worker takes the oldest piece with the
  position and the bytes that were pushed, or sleeps when there is none. An empty queue has room for
  every piece of at most its size. The one exception: if a piece fills the free space exactly, the
  queue looks empty to the workers afterwards.
\<close>

theorem work_queue_fifo:
  assumes "contains p ws" and "shape (p_txlist p) xs" and "int (length work) < 2 ^ 31" and "int (tl_size (p_txlist p)) \<le> 2 ^ 31"
  shows "(push_work mx rg st work p = Pushed pos p' \<and> p_head p' \<noteq> p_tail p' \<longrightarrow>
      contains p' (ws @ [(pos, work)]) \<and> (\<exists>n. pos = int n \<and> n \<notin> fst ` set xs \<and> shape (p_txlist p') (xs @ [(n, 1)]))) \<and>
    (push_work mx rg st work p = Pushed pos p' \<and> p_head p' = p_tail p' \<longrightarrow> pop_work p' = Sleep) \<and>
    (ws = [] \<longrightarrow> pop_work p = Sleep \<and> (MSGLEN (length work) \<le> p_size p \<and> length xs < tl_size (p_txlist p) \<longrightarrow> has_room (length work) p)) \<and>
    (\<forall>q u ws'. ws = (q, u) # ws' \<longrightarrow> (\<exists>p1. pop_work p = Took q u (producerBlocked p) p1 \<and> contains p1 ws' \<and> p_txlist p1 = p_txlist p))"
proof (intro conjI impI allI)
  show "contains p' (ws @ [(pos, work)])" "\<exists>n. pos = int n \<and> n \<notin> fst ` set xs \<and> shape (p_txlist p') (xs @ [(n, 1)])"
    if "push_work mx rg st work p = Pushed pos p' \<and> p_head p' \<noteq> p_tail p'"
    using push_work_pushes [of mx rg st work p pos p', OF _ assms(2,1,3,4)] that by blast+
  show "pop_work p = Sleep" if "ws = []" using contains_Nil assms(1) that by (simp add: pop_work_def)
  show "has_room (length work) p" if "ws = []" "MSGLEN (length work) \<le> p_size p \<and> length xs < tl_size (p_txlist p)"
    using contains_Nil assms(1,2) that by (simp add: has_room_def shape_def)
  show "\<exists>p1. pop_work p = Took q u (producerBlocked p) p1 \<and> contains p1 ws' \<and> p_txlist p1 = p_txlist p"
    if w: "ws = (q, u) # ws'" for q u ws'
  proof -
    obtain h where "pop_work p = Took q u (producerBlocked p) (after_pop h p)" "contains (after_pop h p) ws'"
      using contains_pop [OF assms(1) [unfolded w]] by auto
    then show ?thesis by (intro exI [of _ "after_pop h p"]) (simp add: after_pop_def Let_def)
  qed
qed (simp add: pop_work_def)

definition sample_pool :: BgwPool where
  "sample_pool = BgwPoolStart 1 (replicate 64 0) \<lparr>queue = [], p_head = 0, p_tail = 0, p_size = 0, producerBlocked = False,
     n_holders = 0, nWorkers = 0, receiver_pid = 0, p_txlist = \<lparr>store = [], tl_tail = 0, tl_head = 0, tl_size = 4, nelems = 0\<rparr>\<rparr>"

lemma sample_pool_ok: "contains sample_pool []" "shape (p_txlist sample_pool) []" "tl_size (p_txlist sample_pool) = 4"
  by (simp_all add: sample_pool_def BgwPoolStart_def contains_def geometry_def flat_def shape_clear) (simp add: txl_clear_def)

theorem work_queue_fifo_witness:
  "\<exists>pos p'. push_work 2 True True [7, 8, 9] sample_pool = Pushed pos p' \<and> contains p' [(pos, [7, 8, 9])]"
proof -
  have "(case push_work 2 True True [7, 8, 9] sample_pool of Pushed _ p' \<Rightarrow> p_head p' \<noteq> p_tail p' | _ \<Rightarrow> False)" by code_simp
  then obtain pos p' where "push_work 2 True True [7, 8, 9] sample_pool = Pushed pos p'" "p_head p' \<noteq> p_tail p'"
    by (auto split: push_result.splits)
  with work_queue_fifo [OF sample_pool_ok(1,2), of "[7, 8, 9]" 2 True True pos p'] sample_pool_ok(3) show ?thesis by auto
qed

end
