(* ===== verification/Pglogical_Proto.thy ===== *)
theory Pglogical_Proto
  imports Apply_Commit
begin

text \<open>
  The sending side of the replication stream: the writers of \<open>src/src/pglogical_proto.c\<close>, with the
  table of relations already described to the receiver (\<open>src/src/pglogical_relid_map.c\<close>). Every
  writer returns the bytes it appends to the output buffer and the new values of the static
  variables of the sender. Rows are lists of columns; the catalogue of Postgres and the output
  functions of the types are an argument, and so are the primitives of \<open>pqformat\<close>.
\<close>

section \<open>The encoding\<close>

record protoformat = pqformat +
  pq_sendint16 :: "16 word \<Rightarrow> bytes"
  pq_sendbytes :: "bytes \<Rightarrow> bytes"
  pq_sendstring :: "string \<Rightarrow> bytes"
  pq_getmsgint16 :: "bytes \<Rightarrow> (16 word \<times> bytes) option"
  pq_getmsgbytes :: "nat \<Rightarrow> bytes \<Rightarrow> (bytes \<times> bytes) option"
  pq_getmsgstring :: "bytes \<Rightarrow> (string \<times> bytes) option"

text \<open>
  What \<open>pqformat\<close> documents and the code relies on: bytes are stored as they are, integers and
  strings are read back as written, and no reader makes up input. Some readers of the receiver
  look at the buffer directly, so the layout of bytes matters and not only that they are read back.
\<close>

definition proto_ok :: "protoformat \<Rightarrow> bool" where
  "proto_ok pf \<longleftrightarrow>
     (\<forall>b. pq_sendbyte pf b = [b]) \<and>
     (\<forall>b rest. pq_getmsgbyte pf (b # rest) = Some (b, rest)) \<and>
     (\<forall>w rest. pq_getmsgint16 pf (pq_sendint16 pf w @ rest) = Some (w, rest)) \<and>
     (\<forall>w rest. pq_getmsgint32 pf (pq_sendint32 pf w @ rest) = Some (w, rest)) \<and>
     (\<forall>w rest. pq_getmsgint64 pf (pq_sendint64 pf w @ rest) = Some (w, rest)) \<and>
     (\<forall>d. pq_sendbytes pf d = d) \<and>
     (\<forall>n s. pq_getmsgbytes pf n s = (if n \<le> length s then Some (take n s, drop n s) else None)) \<and>
     (\<forall>s rest. ascii s \<longrightarrow> pq_getmsgstring pf (pq_sendstring pf s @ rest) = Some (s, rest))"

text \<open>A character of C as a byte, and a string of C with its terminating zero.\<close>

definition byte :: "char \<Rightarrow> uint8" where
  "byte c = word_of_nat (of_char c)"

definition c_bytes :: "string \<Rightarrow> bytes" where
  "c_bytes s = map byte s @ [0]"

definition c_string :: "bytes \<Rightarrow> string" where
  "c_string d = map char_of_byte (takeWhile (\<lambda>b. b \<noteq> 0) d)"

definition no_nul :: "string \<Rightarrow> bool" where
  "no_nul s = list_all (\<lambda>c. byte c \<noteq> 0) s"

lemma unat_byte: "unat (byte c) = of_char c"
proof -
  have "(of_char c :: nat) < 256" by (rule nat_of_char_less_256)
  then show ?thesis by (simp add: byte_def unat_of_nat take_bit_nat_eq_self)
qed

lemma char_of_byte_byte [simp]: "char_of_byte (byte c) = c"
  by (simp add: char_of_byte_def unat_byte)

lemma byte_eq_iff [simp]: "byte c = byte d \<longleftrightarrow> c = d"
  by (metis char_of_byte_byte)

lemma c_string_bytes [simp]: "no_nul s \<Longrightarrow> c_string (c_bytes s) = s"
proof -
  assume "no_nul s"
  then have "takeWhile (\<lambda>b. b \<noteq> 0) (map byte s @ [0]) = map byte s"
    by (induction s) (auto simp: no_nul_def)
  then show ?thesis by (simp add: c_string_def c_bytes_def o_def)
qed

lemma length_c_bytes [simp]: "length (c_bytes s) = length s + 1"
  by (simp add: c_bytes_def)

section \<open>Relations and rows\<close>

type_synonym Oid = uint32

abbreviation InvalidOid :: Oid where "InvalidOid \<equiv> 0"

record pg_attribute =
  atttypid :: Oid
  attlen :: int
  attbyval :: bool
  attisdropped :: bool
  atttypmod :: int

record pg_type =
  typtype :: char
  typelem :: Oid

record relation =
  rel_oid :: Oid
  rel_nspname :: "string option"
  rel_relname :: string
  rel_desc :: "pg_attribute list"
  rel_relkind :: char

text \<open>
  A datum is its image in memory; variable-length values may be stored out of line, on disk or in
  memory. A column without value is null.
\<close>

datatype datum = Inline bytes | External_indirect bytes | External_ondisk

type_synonym heap_tuple = "datum option list"

record catalogue =
  SearchTypeOid :: "Oid \<Rightarrow> pg_type option"
  OidOutputFunctionCall :: "Oid \<Rightarrow> datum \<Rightarrow> string"
  OidInputFunctionCall :: "Oid \<Rightarrow> int \<Rightarrow> string \<Rightarrow> datum option"
  RangeVarGetRelid :: "string \<Rightarrow> string \<Rightarrow> Oid option"
  table_open :: "Oid \<Rightarrow> relation option"
  RelationGetReplicaIndex :: "Oid \<Rightarrow> Oid"
  RelationGetPrimaryKeyIndex :: "Oid \<Rightarrow> Oid"
  tuple_len :: "Oid \<Rightarrow> heap_tuple \<Rightarrow> nat"
  heap_scan :: "Oid \<Rightarrow> heap_tuple list"

datatype proto_err = Proto_error string | Proto_assert

section \<open>The table of relations\<close>

type_synonym relid_map = "(Oid \<rightharpoonup> Oid) option"

definition pglogical_relid_map_get :: "relid_map \<Rightarrow> Oid \<Rightarrow> Oid" where
  "pglogical_relid_map_get m relid =
     (case m of None \<Rightarrow> InvalidOid
      | Some t \<Rightarrow> (case t relid of None \<Rightarrow> InvalidOid | Some l \<Rightarrow> l))"

definition pglogical_relid_map_put :: "relid_map \<Rightarrow> Oid \<Rightarrow> Oid \<Rightarrow> bool \<times> relid_map" where
  "pglogical_relid_map_put m remote_relid local_relid =
     (let t = (case m of None \<Rightarrow> Map.empty | Some t \<Rightarrow> t)
      in (t remote_relid = None, Some (t(remote_relid \<mapsto> local_relid))))"

definition pglogical_relid_map_reset :: "relid_map \<Rightarrow> relid_map" where
  "pglogical_relid_map_reset m = None"

lemma relid_map_get_put [simp]:
  "pglogical_relid_map_get (snd (pglogical_relid_map_put m r l)) r' =
     (if r' = r then l else pglogical_relid_map_get m r')"
  by (auto simp: pglogical_relid_map_get_def pglogical_relid_map_put_def Let_def split: option.splits)

lemma relid_map_get_reset [simp]: "pglogical_relid_map_get (pglogical_relid_map_reset m) r = InvalidOid"
  by (simp add: pglogical_relid_map_get_def pglogical_relid_map_reset_def)

section \<open>The state of the sender\<close>

record proto_sender =
  sent_map :: relid_map
  MtmSenderTID :: Oid
  MtmLastRelId :: Oid
  DDLInProgress :: bool
  MtmTransactionRecords :: int
  MtmCurrentXid :: TransactionId

record MtmDecoderPrivate =
  dec_receiver :: int
  dec_is_recovery :: bool
  dec_cfg :: MtmConfig

record ReorderBufferTXN =
  txn_xid :: TransactionId
  txn_origin_id :: nat
  txn_origin_lsn :: XLogRecPtr
  txn_end_lsn :: XLogRecPtr
  txn_commit_time :: uint64
  txn_gid :: string
  txn_state_3pc :: string
  txn_state_3pc_change :: bool

definition sendchar :: "protoformat \<Rightarrow> char \<Rightarrow> bytes" where
  "sendchar pf c = pq_sendbyte pf (byte c)"

definition InvalidRepOriginId :: nat where
  "InvalidRepOriginId = 0"

definition pglogical_write_rel ::
  "protoformat \<Rightarrow> relation \<Rightarrow> proto_sender \<Rightarrow> proto_err + (bytes \<times> proto_sender)" where
  "pglogical_write_rel pf rel s =
     (if DDLInProgress s then Inr ([], s)
      else if rel_oid rel = MtmLastRelId s then Inr ([], s)
      else let relid = rel_oid rel;
               s = s\<lparr>MtmLastRelId := relid\<rparr>;
               out = sendchar pf CHR ''R'' @ pq_sendint32 pf relid
           in if MtmSenderTID s = InvalidOid then Inl Proto_assert
              else if pglogical_relid_map_get (sent_map s) relid = MtmSenderTID s
              then Inr (out @ pq_sendbyte pf 0 @ pq_sendbyte pf 0, s)
              else let s = s\<lparr>sent_map := snd (pglogical_relid_map_put (sent_map s) relid (MtmSenderTID s))\<rparr>
                   in case rel_nspname rel of
                        None \<Rightarrow> Inl (Proto_error ''cache lookup failed for namespace'')
                      | Some nspname \<Rightarrow>
                          Inr (out @
                               pq_sendbyte pf (word_of_nat (length nspname + 1)) @
                               pq_sendbytes pf (c_bytes nspname) @
                               pq_sendbyte pf (word_of_nat (length (rel_relname rel) + 1)) @
                               pq_sendbytes pf (c_bytes (rel_relname rel)), s))"

definition pglogical_write_begin ::
  "protoformat \<Rightarrow> MtmDecoderPrivate \<Rightarrow> ReorderBufferTXN \<Rightarrow> proto_sender \<Rightarrow> proto_err + (bytes \<times> proto_sender)" where
  "pglogical_write_begin pf priv txn s =
     (if \<not> (dec_is_recovery priv \<or> txn_origin_id txn = InvalidRepOriginId) then Inl Proto_assert
      else let s = s\<lparr>MtmSenderTID := MtmSenderTID s + 1\<rparr>;
               s = (if MtmSenderTID s = InvalidOid
                    then s\<lparr>sent_map := pglogical_relid_map_reset (sent_map s), MtmSenderTID := MtmSenderTID s + 1\<rparr>
                    else s)
           in Inr (sendchar pf CHR ''B'' @
                   pq_sendint32 pf (word_of_int (my_node_id (dec_cfg priv))) @
                   pq_sendint64 pf (ucast (txn_xid txn)) @
                   pq_sendint64 pf 42 @
                   pq_sendint64 pf 142,
                   s\<lparr>MtmLastRelId := InvalidOid, MtmCurrentXid := txn_xid txn, DDLInProgress := False,
                     MtmTransactionRecords := 0\<rparr>))"

section \<open>Rows\<close>

definition FirstNormalObjectId :: Oid where
  "FirstNormalObjectId = 16384"

definition decide_datum_transfer :: "pg_attribute \<Rightarrow> pg_type \<Rightarrow> bool \<Rightarrow> char" where
  "decide_datum_transfer att typclass client_want_binary_basetypes =
     (if client_want_binary_basetypes \<and> typtype typclass = CHR ''b'' \<and>
         atttypid att < FirstNormalObjectId \<and> typelem typclass = InvalidOid
      then CHR ''b'' else CHR ''t'')"

text \<open>The image of a datum, with out-of-line values in memory followed.\<close>

fun image :: "datum \<Rightarrow> bytes option" where
  "image (Inline d) = Some d"
| "image (External_indirect d) = Some d"
| "image External_ondisk = None"

definition byval_len :: "int \<Rightarrow> bool" where
  "byval_len n = (n \<in> {1, 2, 4, 8})"

definition write_binary :: "protoformat \<Rightarrow> pg_attribute \<Rightarrow> datum \<Rightarrow> proto_err + bytes" where
  "write_binary pf att v =
     (case image v of None \<Rightarrow> Inl Proto_assert
      | Some d \<Rightarrow>
          if attbyval att
          then if byval_len (attlen att)
               then Inr (pq_sendint32 pf (word_of_int (attlen att)) @ take (nat (attlen att)) d)
               else Inl (Proto_error ''unsupported byval length'')
          else if attlen att > 0
          then Inr (pq_sendint32 pf (word_of_int (attlen att)) @ take (nat (attlen att)) d)
          else if attlen att = -1
          then Inr (pq_sendint32 pf (word_of_nat (length d)) @ d)
          else Inl (Proto_error ''unsupported tuple type''))"

definition write_column ::
  "protoformat \<Rightarrow> catalogue \<Rightarrow> bool \<Rightarrow> pg_attribute \<Rightarrow> datum option \<Rightarrow> proto_err + bytes" where
  "write_column pf cat want_binary att v =
     (if attisdropped att then Inr []
      else case v of
        None \<Rightarrow> Inr (sendchar pf CHR ''n'')
      | Some v \<Rightarrow>
          if attlen att = -1 \<and> v = External_ondisk then Inr (sendchar pf CHR ''u'')
          else (case SearchTypeOid cat (atttypid att) of
              None \<Rightarrow> Inl (Proto_error ''cache lookup failed for type'')
            | Some typclass \<Rightarrow>
                (let transfer_type = decide_datum_transfer att typclass want_binary
                 in if transfer_type = CHR ''b''
                    then sbind (write_binary pf att v) (\<lambda>d. Inr (sendchar pf CHR ''b'' @ d))
                    else let outputstr = OidOutputFunctionCall cat (atttypid att) v
                         in Inr (sendchar pf transfer_type @
                                 pq_sendint32 pf (word_of_nat (length outputstr + 1)) @ c_bytes outputstr))))"

fun write_columns ::
  "protoformat \<Rightarrow> catalogue \<Rightarrow> bool \<Rightarrow> pg_attribute list \<Rightarrow> heap_tuple \<Rightarrow> proto_err + bytes" where
  "write_columns pf cat want_binary (att # atts) (v # vs) =
     sbind (write_column pf cat want_binary att v) (\<lambda>d.
     sbind (write_columns pf cat want_binary atts vs) (\<lambda>d'. Inr (d @ d')))"
| "write_columns pf cat want_binary [] vs = Inr []"
| "write_columns pf cat want_binary (att # atts) [] = Inl Proto_assert"

definition nliveatts :: "pg_attribute list \<Rightarrow> nat" where
  "nliveatts desc = length (filter (\<lambda>att. \<not> attisdropped att) desc)"

definition pglogical_write_tuple ::
  "protoformat \<Rightarrow> catalogue \<Rightarrow> bool \<Rightarrow> relation \<Rightarrow> heap_tuple \<Rightarrow> proto_sender \<Rightarrow> proto_err + bytes" where
  "pglogical_write_tuple pf cat want_binary rel tup s =
     (if DDLInProgress s then Inr []
      else sbind (write_columns pf cat want_binary (rel_desc rel) tup) (\<lambda>d.
             Inr (sendchar pf CHR ''T'' @ pq_sendint16 pf (word_of_nat (nliveatts (rel_desc rel))) @ d)))"

definition count_record :: "proto_sender \<Rightarrow> proto_sender" where
  "count_record s = s\<lparr>MtmTransactionRecords := MtmTransactionRecords s + 1\<rparr>"

definition pglogical_write_insert ::
  "protoformat \<Rightarrow> catalogue \<Rightarrow> bool \<Rightarrow> relation \<Rightarrow> heap_tuple \<Rightarrow> proto_sender \<Rightarrow> proto_err + (bytes \<times> proto_sender)" where
  "pglogical_write_insert pf cat wb rel newtuple s =
     (if DDLInProgress s then Inr ([], s)
      else let s = count_record s
           in sbind (pglogical_write_tuple pf cat wb rel newtuple s) (\<lambda>d. Inr (sendchar pf CHR ''I'' @ d, s)))"

definition pglogical_write_update ::
  "protoformat \<Rightarrow> catalogue \<Rightarrow> bool \<Rightarrow> relation \<Rightarrow> heap_tuple option \<Rightarrow> heap_tuple \<Rightarrow> proto_sender \<Rightarrow>
   proto_err + (bytes \<times> proto_sender)" where
  "pglogical_write_update pf cat wb rel oldtuple newtuple s =
     (if DDLInProgress s then Inr ([], s)
      else let s = count_record s
           in sbind (case oldtuple of None \<Rightarrow> Inr []
                     | Some old \<Rightarrow> sbind (pglogical_write_tuple pf cat wb rel old s) (\<lambda>d. Inr (sendchar pf CHR ''K'' @ d))) (\<lambda>k.
              sbind (pglogical_write_tuple pf cat wb rel newtuple s) (\<lambda>d.
              Inr (sendchar pf CHR ''U'' @ k @ sendchar pf CHR ''N'' @ d, s))))"

definition pglogical_write_delete ::
  "protoformat \<Rightarrow> catalogue \<Rightarrow> bool \<Rightarrow> relation \<Rightarrow> heap_tuple \<Rightarrow> proto_sender \<Rightarrow> proto_err + (bytes \<times> proto_sender)" where
  "pglogical_write_delete pf cat wb rel oldtuple s =
     (if DDLInProgress s then Inr ([], s)
      else let s = count_record s
           in sbind (pglogical_write_tuple pf cat wb rel oldtuple s) (\<lambda>d. Inr (sendchar pf CHR ''D'' @ d, s)))"

section \<open>Logical messages\<close>

text \<open>
  The payload of a logical message is text, except for the position of a sequence and the request
  to copy a table, which are structures.
\<close>

datatype payload =
  Text bytes
| MtmSeqPosition Oid uint64
| MtmCopyRequest Oid nodemask_t

definition pglogical_seq_nextval ::
  "protoformat \<Rightarrow> catalogue \<Rightarrow> Oid \<Rightarrow> uint64 \<Rightarrow> proto_sender \<Rightarrow> proto_err + (bytes \<times> proto_sender)" where
  "pglogical_seq_nextval pf cat seqid nxt s =
     (case table_open cat seqid of None \<Rightarrow> Inl Proto_assert
      | Some rel \<Rightarrow> sbind (pglogical_write_rel pf rel s) (\<lambda>(out, s).
          Inr (out @ sendchar pf CHR ''N'' @ pq_sendint64 pf nxt, s)))"

text \<open>
  The copy of a table: its rows go into the same buffer; that a full buffer is sent between two rows
  only cuts these bytes into messages and is left out here.
\<close>

fun broadcast_rows ::
  "protoformat \<Rightarrow> catalogue \<Rightarrow> bool \<Rightarrow> relation \<Rightarrow> heap_tuple list \<Rightarrow> proto_sender \<Rightarrow> proto_err + bytes" where
  "broadcast_rows pf cat wb rel [] s = Inr []"
| "broadcast_rows pf cat wb rel (tup # tups) s =
     sbind (pglogical_write_tuple pf cat wb rel tup s) (\<lambda>d.
     sbind (broadcast_rows pf cat wb rel tups s) (\<lambda>d'. Inr (sendchar pf CHR ''I'' @ d @ d')))"

definition pglogical_broadcast_table ::
  "protoformat \<Rightarrow> catalogue \<Rightarrow> bool \<Rightarrow> MtmDecoderPrivate \<Rightarrow> Oid \<Rightarrow> nodemask_t \<Rightarrow> proto_sender \<Rightarrow>
   proto_err + (bytes \<times> proto_sender)" where
  "pglogical_broadcast_table pf cat wb priv sourceTable targetNodes s =
     (if BIT_CHECK targetNodes (nat (dec_receiver priv - 1))
      then (case table_open cat sourceTable of None \<Rightarrow> Inl (Proto_error ''could not open relation'')
            | Some rel \<Rightarrow>
                sbind (pglogical_write_rel pf rel s) (\<lambda>(out, s).
                sbind (broadcast_rows pf cat wb rel (heap_scan cat sourceTable) s) (\<lambda>d.
                Inr (out @ sendchar pf CHR ''0'' @ d, s))))
      else Inr ([], s))"

definition write_M :: "protoformat \<Rightarrow> char \<Rightarrow> XLogRecPtr \<Rightarrow> bytes \<Rightarrow> bytes" where
  "write_M pf prefix end_lsn message =
     sendchar pf CHR ''M'' @ sendchar pf prefix @ pq_sendint64 pf end_lsn @
     pq_sendint32 pf (word_of_nat (length message)) @ pq_sendbytes pf message"

definition pglogical_write_message ::
  "protoformat \<Rightarrow> catalogue \<Rightarrow> bool \<Rightarrow> MtmDecoderPrivate \<Rightarrow> XLogRecPtr \<Rightarrow> char \<Rightarrow> payload \<Rightarrow> proto_sender \<Rightarrow>
   proto_err + (bytes \<times> proto_sender)" where
  "pglogical_write_message pf cat wb priv end_lsn prefix message s =
     (let s = s\<lparr>MtmLastRelId := InvalidOid\<rparr>
      in if prefix = CHR ''L'' \<and> dec_is_recovery priv then Inr ([], s)
         else if prefix = CHR ''E'' then Inr ([], s\<lparr>DDLInProgress := False\<rparr>)
         else case message of
           MtmCopyRequest sourceTable targetNodes \<Rightarrow>
             (if prefix = CHR ''T'' then pglogical_broadcast_table pf cat wb priv sourceTable targetNodes s
              else Inl Proto_assert)
         | MtmSeqPosition seqid nxt \<Rightarrow>
             (if prefix \<noteq> CHR ''N'' then Inl Proto_assert
              else if DDLInProgress s then Inr ([], s)
              else pglogical_seq_nextval pf cat seqid nxt s)
         | Text message \<Rightarrow>
             (if prefix \<in> {CHR ''T'', CHR ''N''} then Inl Proto_assert
              else Inr (write_M pf prefix end_lsn message,
                        if prefix = CHR ''D'' then s\<lparr>DDLInProgress := True\<rparr> else s)))"

definition pglogical_write_caughtup :: "protoformat \<Rightarrow> MtmDecoderPrivate \<Rightarrow> proto_err + bytes" where
  "pglogical_write_caughtup pf priv =
     (if dec_is_recovery priv then Inr (sendchar pf CHR ''Z'') else Inl Proto_assert)"

section \<open>The end of a transaction\<close>

text \<open>The codes of the events, in the order of \<open>PGLOGICAL_EVENT\<close>.\<close>

abbreviation EV_COMMIT :: uint8 where "EV_COMMIT \<equiv> 0"
abbreviation EV_ABORT :: uint8 where "EV_ABORT \<equiv> 1"
abbreviation EV_PREPARE :: uint8 where "EV_PREPARE \<equiv> 2"
abbreviation EV_COMMIT_PREPARED :: uint8 where "EV_COMMIT_PREPARED \<equiv> 3"
abbreviation EV_ABORT_PREPARED :: uint8 where "EV_ABORT_PREPARED \<equiv> 4"
abbreviation EV_PREPARE_PHASE2A :: uint8 where "EV_PREPARE_PHASE2A \<equiv> 5"

definition send_node_id :: "protoformat \<Rightarrow> ReorderBufferTXN \<Rightarrow> MtmDecoderPrivate \<Rightarrow> bytes" where
  "send_node_id pf txn priv =
     (let cfg = dec_cfg priv
      in if txn_origin_id txn \<noteq> InvalidRepOriginId
         then (case List.find (\<lambda>n. node_id n \<noteq> my_node_id cfg \<and> origin_id n = txn_origin_id txn) (nodes cfg) of
                 Some n \<Rightarrow> pq_sendbyte pf (word_of_int (node_id n))
               | None \<Rightarrow> pq_sendbyte pf (word_of_int MtmInvalidNodeId))
         else pq_sendbyte pf (word_of_int (my_node_id cfg)))"

text \<open>The fields every event starts with.\<close>

definition write_fixed ::
  "protoformat \<Rightarrow> uint8 \<Rightarrow> MtmDecoderPrivate \<Rightarrow> ReorderBufferTXN \<Rightarrow> XLogRecPtr \<Rightarrow> bytes" where
  "write_fixed pf event priv txn lsn =
     sendchar pf CHR ''C'' @ pq_sendbyte pf event @
     pq_sendbyte pf (word_of_int (my_node_id (dec_cfg priv))) @
     pq_sendint64 pf lsn @ pq_sendint64 pf (txn_end_lsn txn) @ pq_sendint64 pf (txn_commit_time txn) @
     send_node_id pf txn priv @ pq_sendint64 pf (txn_origin_lsn txn)"

text \<open>Of the state changes of a prepared transaction only the vote of its coordinator is sent.\<close>

definition initial_2a :: "GTxState \<Rightarrow> bool" where
  "initial_2a st = (status st = GTXPreCommitted \<and> term_cmp (proposal st) InitialGTxTerm = 0 \<and>
     term_cmp (accepted st) InitialGTxTerm = 0)"

definition pglogical_write_prepare ::
  "protoformat \<Rightarrow> MtmDecoderPrivate \<Rightarrow> ReorderBufferTXN \<Rightarrow> XLogRecPtr \<Rightarrow> proto_sender \<Rightarrow> proto_err + bytes" where
  "pglogical_write_prepare pf priv txn lsn s =
     (if DDLInProgress s then Inl Proto_assert
      else let event = (if txn_state_3pc_change txn then EV_PREPARE_PHASE2A else EV_PREPARE);
               out = write_fixed pf event priv txn lsn @
                 pq_sendstring pf (txn_gid txn) @ pq_sendstring pf (txn_state_3pc txn)
           in if txn_state_3pc_change txn
              then (case deserialize_xstate (txn_state_3pc txn) (xinfo zero_gtx) (gtx_state zero_gtx) of
                      None \<Rightarrow> Inl Proto_assert
                    | Some (rc, _, st) \<Rightarrow>
                        if rc \<noteq> 0 then Inl (Proto_error ''failed to deserialize xstate'')
                        else if initial_2a st then Inr out else Inr [])
              else Inr out)"

definition may_finish :: "MtmDecoderPrivate \<Rightarrow> ReorderBufferTXN \<Rightarrow> bool" where
  "may_finish priv txn = (dec_is_recovery priv \<or> txn_origin_id txn = InvalidRepOriginId)"

definition pglogical_write_commit_prepared ::
  "protoformat \<Rightarrow> MtmDecoderPrivate \<Rightarrow> ReorderBufferTXN \<Rightarrow> XLogRecPtr \<Rightarrow> proto_err + bytes" where
  "pglogical_write_commit_prepared pf priv txn lsn =
     (if \<not> may_finish priv txn then Inl Proto_assert
      else Inr (write_fixed pf EV_COMMIT_PREPARED priv txn lsn @ pq_sendint64 pf 42 @
                pq_sendstring pf (txn_gid txn) @ pq_sendint64 pf (ucast (txn_xid txn))))"

definition pglogical_write_abort_prepared ::
  "protoformat \<Rightarrow> MtmDecoderPrivate \<Rightarrow> ReorderBufferTXN \<Rightarrow> XLogRecPtr \<Rightarrow> proto_err + bytes" where
  "pglogical_write_abort_prepared pf priv txn lsn =
     (if \<not> may_finish priv txn then Inl Proto_assert
      else Inr (write_fixed pf EV_ABORT_PREPARED priv txn lsn @
                pq_sendstring pf (txn_gid txn) @ pq_sendint64 pf (ucast (txn_xid txn))))"

definition pglogical_write_commit ::
  "protoformat \<Rightarrow> MtmDecoderPrivate \<Rightarrow> ReorderBufferTXN \<Rightarrow> XLogRecPtr \<Rightarrow> bytes" where
  "pglogical_write_commit pf priv txn lsn = write_fixed pf EV_COMMIT priv txn lsn"

definition pglogical_write_abort ::
  "protoformat \<Rightarrow> MtmDecoderPrivate \<Rightarrow> ReorderBufferTXN \<Rightarrow> XLogRecPtr \<Rightarrow> bytes" where
  "pglogical_write_abort pf priv txn lsn = write_fixed pf EV_ABORT priv txn lsn"

section \<open>Filters\<close>

definition MtmReplicationTxnFilterHook :: "MtmDecoderPrivate \<Rightarrow> nat \<Rightarrow> bool" where
  "MtmReplicationTxnFilterHook priv origin = (origin = InvalidRepOriginId \<or> dec_is_recovery priv)"

definition MtmReplicationRowFilterHook :: "(Oid \<Rightarrow> bool) \<Rightarrow> Oid \<Rightarrow> bool" where
  "MtmReplicationRowFilterHook MtmIsRelationLocal changed_rel = (\<not> MtmIsRelationLocal changed_rel)"

section \<open>The process that sends\<close>

text \<open>
  A sender registers itself for the node it serves; the slot of the node holds its process number,
  zero when there is none, and the mask says which nodes are served.
\<close>

record senders =
  monitor_loaded :: bool
  walsender_pid :: "int \<Rightarrow> int"
  walsenders_mask :: nodemask_t

definition register_walsender :: "int \<Rightarrow> int \<Rightarrow> senders \<Rightarrow> proto_err + senders" where
  "register_walsender pid receiver_node_id m =
     (if \<not> monitor_loaded m then Inl (Proto_error ''multimaster is not configured or not initialized yet'')
      else if walsender_pid m receiver_node_id \<noteq> 0 then Inl (Proto_error ''walsender is still running'')
      else Inr (m\<lparr>walsender_pid := (walsender_pid m)(receiver_node_id := pid),
                  walsenders_mask := BIT_SET (walsenders_mask m) (nat (receiver_node_id - 1))\<rparr>))"

fun replication_mode :: "bool \<Rightarrow> (string \<times> string option) list \<Rightarrow> proto_err + bool" where
  "replication_mode is_rec [] = Inr is_rec"
| "replication_mode is_rec ((defname, arg) # params) =
     (if defname = ''mtm_replication_mode''
      then (case arg of None \<Rightarrow> Inl (Proto_error ''Replication mode is not specified'')
            | Some v \<Rightarrow> if v = ''recovery'' then replication_mode True params
                        else if v = ''normal'' then replication_mode False params
                        else Inl (Proto_error ''Illegal recovery mode''))
      else replication_mode is_rec params)"

definition MtmReplicationStartupHook ::
  "int \<Rightarrow> int \<Rightarrow> MtmConfig \<Rightarrow> (string \<times> string option) list \<Rightarrow> senders \<Rightarrow> senders \<times> (proto_err + MtmDecoderPrivate)" where
  "MtmReplicationStartupHook pid receiver_node_id cfg in_params m =
     (case register_walsender pid receiver_node_id m of
        Inl e \<Rightarrow> (m, Inl e)
      | Inr m' \<Rightarrow> (m', sbind (replication_mode False in_params) (\<lambda>is_rec.
          Inr \<lparr>dec_receiver = receiver_node_id, dec_is_recovery = is_rec, dec_cfg = cfg\<rparr>)))"

definition MtmWalsenderOnExit :: "int \<Rightarrow> int \<Rightarrow> senders \<Rightarrow> senders" where
  "MtmWalsenderOnExit pid receiver_node_id m =
     (if walsender_pid m receiver_node_id = pid
      then m\<lparr>walsender_pid := (walsender_pid m)(receiver_node_id := 0),
             walsenders_mask := BIT_CLEAR (walsenders_mask m) (nat (receiver_node_id - 1))\<rparr>
      else m)"

end
