(* ===== verification/Pglogical_Apply.thy ===== *)
theory Pglogical_Apply
  imports Pglogical_Proto
begin

text \<open>
  The applying side of the replication stream: \<open>MtmExecutor\<close> of \<open>src/src/pglogical_apply.c\<close> with the
  readers it calls. It walks over the bytes of one transaction and asks Postgres for the changes it
  finds there; the model records what is asked for, in order, and takes as an argument whether
  Postgres raises an error. The end of a transaction is handed over as an event of
  \<open>Apply_Commit\<close>, which models what follows.
\<close>

section \<open>Errors and requests\<close>

datatype apply_err =
  Bad_message
| Elog string
| Pg_error int string bool
| Apply_assert
| Apply_panic
| Proc_exit
| Undefined

record tup_col =
  tc_value :: "datum option"
  tc_isnull :: bool
  tc_changed :: bool

type_synonym TupleData = "tup_col list"

record end_info =
  fin_origin_node :: int
  fin_lsn :: XLogRecPtr
  fin_time :: uint64

datatype dbop =
  Start_transaction TransactionId
| Insert Oid heap_tuple
| Multi_insert Oid "heap_tuple list"
| Update Oid Oid heap_tuple TupleData
| Delete Oid Oid heap_tuple
| Truncate Oid
| AdjustSequence Oid uint64
| MakeTableLocal "datum option" "datum option"
| Wait_txhead
| Wait_sphead
| DDL bool bytes
| ParallelSafe MtmGeneration nodemask_t bool XLogRecPtr
| Register_syncpoint int XLogRecPtr "string option"
| Wakeup_receivers
| Clear_basebackup
| Caughtup
| Finish_xact end_info remote_event

text \<open>
  What the applier finds around it: the mode and the sender, its own number, whether it still
  knows of a base backup, its catalogue, what Postgres answers to a request after those before it,
  whether the receiver has to reconnect after a parallel-safe message, and the spill files.
\<close>

record apply_env =
  ae_mode :: MtmReplicationMode
  ae_sender :: int
  ae_me :: int
  ae_backup :: bool
  ae_cat :: catalogue
  ae_pg :: "dbop list \<Rightarrow> (int \<times> string) option"
  ae_reconnect :: "dbop list \<Rightarrow> bool"
  ae_files :: "int \<Rightarrow> int \<Rightarrow> bytes option"

record exec =
  ex_s :: bytes
  ex_saved :: "bytes option"
  ex_spill :: "bytes option"
  ex_rel :: "relation option"
  ex_map :: relid_map
  ex_xid :: TransactionId
  ex_bdr :: bool
  ex_tx :: bool
  ex_ops :: "dbop list"

definition rd :: "(bytes \<Rightarrow> ('a \<times> bytes) option) \<Rightarrow> bytes \<Rightarrow> apply_err + ('a \<times> bytes)" where
  "rd f s = (case f s of None \<Rightarrow> Inl Bad_message | Some r \<Rightarrow> Inr r)"

lemma rd_Some: "f s = Some (v, r) \<Longrightarrow> rd f s = Inr (v, r)"
  by (simp add: rd_def)

definition perform :: "apply_env \<Rightarrow> dbop \<Rightarrow> exec \<Rightarrow> apply_err + exec" where
  "perform env op st =
     (let ops = ex_ops st @ [op]
      in case ae_pg env ops of
           Some (code, m) \<Rightarrow> Inl (Pg_error code m (case op of DDL tx _ \<Rightarrow> \<not> tx | _ \<Rightarrow> False))
         | None \<Rightarrow> Inr (st\<lparr>ex_ops := ops\<rparr>))"

fun performs :: "apply_env \<Rightarrow> dbop list \<Rightarrow> exec \<Rightarrow> apply_err + exec" where
  "performs env [] st = Inr st"
| "performs env (op # ops) st = sbind (perform env op st) (performs env ops)"

section \<open>Reading rows\<close>

text \<open>A value passed by value has one of the lengths \<open>fetch_att\<close> knows.\<close>

definition read_column ::
  "protoformat \<Rightarrow> catalogue \<Rightarrow> pg_attribute \<Rightarrow> bytes \<Rightarrow> apply_err + (tup_col \<times> bytes)" where
  "read_column pf cat att s =
     (if atttypid att = InvalidOid then Inr (\<lparr>tc_value = None, tc_isnull = True, tc_changed = True\<rparr>, s)
      else sbind (rd (pq_getmsgbyte pf) s) (\<lambda>(kind, s).
        sbind
          (if kind = byte CHR ''n'' then Inr (\<lparr>tc_value = None, tc_isnull = True, tc_changed = True\<rparr>, s)
           else if kind = byte CHR ''u'' then Inr (\<lparr>tc_value = None, tc_isnull = True, tc_changed = False\<rparr>, s)
           else if kind = byte CHR ''b'' then
             sbind (rd (pq_getmsgint32 pf) s) (\<lambda>(len, s).
             sbind (rd (pq_getmsgbytes pf (unat len)) s) (\<lambda>(d, s).
               if attbyval att \<and> \<not> byval_len (uint len) then Inl (Elog ''unsupported byval length'')
               else Inr (\<lparr>tc_value = Some (Inline d), tc_isnull = False, tc_changed = True\<rparr>, s)))
           else if kind = byte CHR ''t'' then
             sbind (rd (pq_getmsgint32 pf) s) (\<lambda>(len, s).
             sbind (rd (pq_getmsgbytes pf (unat len)) s) (\<lambda>(d, s).
               case OidInputFunctionCall cat (atttypid att) (atttypmod att) (c_string d) of
                 None \<Rightarrow> Inl (Elog ''invalid input syntax'')
               | Some v \<Rightarrow> Inr (\<lparr>tc_value = Some v, tc_isnull = False, tc_changed = True\<rparr>, s)))
           else Inl (Elog ''unknown column type''))
          (\<lambda>(c, s). if attisdropped att \<and> \<not> tc_isnull c then Inl (Elog ''data for dropped column'') else Inr (c, s))))"

fun read_columns ::
  "protoformat \<Rightarrow> catalogue \<Rightarrow> pg_attribute list \<Rightarrow> bytes \<Rightarrow> apply_err + (TupleData \<times> bytes)" where
  "read_columns pf cat [] s = Inr ([], s)"
| "read_columns pf cat (att # atts) s =
     sbind (read_column pf cat att s) (\<lambda>(c, s).
     sbind (read_columns pf cat atts s) (\<lambda>(cs, s). Inr (c # cs, s)))"

definition read_tuple_parts ::
  "protoformat \<Rightarrow> catalogue \<Rightarrow> relation \<Rightarrow> bytes \<Rightarrow> apply_err + (TupleData \<times> bytes)" where
  "read_tuple_parts pf cat rel s =
     sbind (rd (pq_getmsgbyte pf) s) (\<lambda>(action, s).
       if action \<noteq> byte CHR ''T'' then Inl (Elog ''expected TUPLE'')
       else sbind (rd (pq_getmsgint16 pf) s) (\<lambda>(rnatts, s).
         if length (rel_desc rel) < unat rnatts then Inl (Elog ''tuple natts mismatch'')
         else read_columns pf cat (rel_desc rel) s))"

definition tuple_to_slot :: "TupleData \<Rightarrow> heap_tuple" where
  "tuple_to_slot tup = map (\<lambda>c. if tc_isnull c then None else tc_value c) tup"

section \<open>Relations\<close>

definition read_rel ::
  "protoformat \<Rightarrow> catalogue \<Rightarrow> relid_map \<Rightarrow> bytes \<Rightarrow> apply_err + (relation \<times> relid_map \<times> bytes)" where
  "read_rel pf cat m s =
     sbind (rd (pq_getmsgint32 pf) s) (\<lambda>(remote_relid, s).
       let local_relid = pglogical_relid_map_get m remote_relid
       in if local_relid = InvalidOid
          then sbind (rd (pq_getmsgbyte pf) s) (\<lambda>(nspnamelen, s).
               sbind (rd (pq_getmsgbytes pf (unat nspnamelen)) s) (\<lambda>(schemaname, s).
               sbind (rd (pq_getmsgbyte pf) s) (\<lambda>(relnamelen, s).
               sbind (rd (pq_getmsgbytes pf (unat relnamelen)) s) (\<lambda>(relname, s).
                 case RangeVarGetRelid cat (c_string schemaname) (c_string relname) of
                   None \<Rightarrow> Inl (Elog ''relation does not exist'')
                 | Some local_relid \<Rightarrow>
                     (case table_open cat local_relid of
                        None \<Rightarrow> Inl (Elog ''could not open relation'')
                      | Some rel \<Rightarrow> Inr (rel, snd (pglogical_relid_map_put m remote_relid local_relid), s))))))
          else sbind (rd (pq_getmsgbyte pf) s) (\<lambda>(nspnamelen, s).
               let s = drop (unat nspnamelen) s
               in sbind (rd (pq_getmsgbyte pf) s) (\<lambda>(relnamelen, s).
                  let s = drop (unat relnamelen) s
                  in case table_open cat local_relid of
                       None \<Rightarrow> Inl (Elog ''could not open relation'')
                     | Some rel \<Rightarrow> Inr (rel, m, s))))"

section \<open>Changes of rows\<close>

abbreviation MAX_BUFFERED_TUPLES :: nat where "MAX_BUFFERED_TUPLES \<equiv> 1024"
abbreviation MAX_BUFFERED_TUPLES_SIZE :: nat where "MAX_BUFFERED_TUPLES_SIZE \<equiv> 65536"

definition pq_peekmsgbyte :: "bytes \<Rightarrow> uint8 option" where
  "pq_peekmsgbyte s = (case s of [] \<Rightarrow> None | b # _ \<Rightarrow> Some b)"

text \<open>
  The rows that follow directly are collected, at most so many and of so many bytes; \<open>room\<close> is what
  is left of the array. The rows already there come first, the last one read is kept apart.
\<close>

fun buffer_tuples ::
  "protoformat \<Rightarrow> catalogue \<Rightarrow> relation \<Rightarrow> nat \<Rightarrow> nat \<Rightarrow> TupleData list \<Rightarrow> TupleData \<Rightarrow> bytes \<Rightarrow>
   apply_err + (TupleData list \<times> TupleData \<times> bytes)" where
  "buffer_tuples pf cat rel 0 bsize slots lst s = Inr (slots, lst, s)"
| "buffer_tuples pf cat rel (Suc room) bsize slots lst s =
     (if bsize \<ge> MAX_BUFFERED_TUPLES_SIZE then Inr (slots, lst, s)
      else sbind (rd (pq_getmsgbyte pf) s) (\<lambda>(b, s).
        if b \<noteq> byte CHR ''I'' then Inl Apply_panic
        else sbind (read_tuple_parts pf cat rel s) (\<lambda>(tup, s).
          let slots = slots @ [tup];
              bsize = bsize + tuple_len cat (rel_oid rel) (tuple_to_slot tup)
          in if pq_peekmsgbyte s \<noteq> Some (byte CHR ''I'') then Inr (slots, tup, s)
             else buffer_tuples pf cat rel room bsize slots tup s)))"

definition LOCAL_TABLES :: "relation \<Rightarrow> bool" where
  "LOCAL_TABLES rel = (rel_relname rel = ''local_tables'' \<and> rel_nspname rel = Some ''mtm'')"

definition column :: "TupleData \<Rightarrow> nat \<Rightarrow> datum option" where
  "column tup i = (case nth_opt tup i of None \<Rightarrow> None | Some c \<Rightarrow> tc_value c)"

definition process_remote_insert :: "protoformat \<Rightarrow> apply_env \<Rightarrow> relation \<Rightarrow> exec \<Rightarrow> apply_err + exec" where
  "process_remote_insert pf env rel st =
     sbind (read_tuple_parts pf (ae_cat env) rel (ex_s st)) (\<lambda>(new_tuple, s).
     sbind (if pq_peekmsgbyte s = Some (byte CHR ''I'')
            then sbind (buffer_tuples pf (ae_cat env) rel (MAX_BUFFERED_TUPLES - 1)
                         (tuple_len (ae_cat env) (rel_oid rel) (tuple_to_slot new_tuple)) [new_tuple] new_tuple s)
                   (\<lambda>(slots, new_tuple, s).
                     sbind (perform env (Multi_insert (rel_oid rel) (map tuple_to_slot slots)) (st\<lparr>ex_s := s\<rparr>))
                       (\<lambda>st. Inr (new_tuple, st)))
            else sbind (perform env (Insert (rel_oid rel) (tuple_to_slot new_tuple)) (st\<lparr>ex_s := s\<rparr>))
                   (\<lambda>st. Inr (new_tuple, st)))
       (\<lambda>(new_tuple, st).
          if LOCAL_TABLES rel then perform env (MakeTableLocal (column new_tuple 0) (column new_tuple 1)) st
          else Inr st))"

text \<open>Rows are looked up by the replica identity, the primary key, or else by all their columns.\<close>

definition search_index :: "catalogue \<Rightarrow> Oid \<Rightarrow> Oid" where
  "search_index cat oid =
     (if RelationGetReplicaIndex cat oid \<noteq> InvalidOid then RelationGetReplicaIndex cat oid
      else RelationGetPrimaryKeyIndex cat oid)"

definition process_remote_update :: "protoformat \<Rightarrow> apply_env \<Rightarrow> relation \<Rightarrow> exec \<Rightarrow> apply_err + exec" where
  "process_remote_update pf env rel st =
     sbind (rd (pq_getmsgbyte pf) (ex_s st)) (\<lambda>(action, s).
       if action \<noteq> byte CHR ''K'' \<and> action \<noteq> byte CHR ''N'' then Inl (Elog ''expected action N or K'')
       else sbind
         (if action = byte CHR ''K''
          then sbind (read_tuple_parts pf (ae_cat env) rel s) (\<lambda>(old, s).
               sbind (rd (pq_getmsgbyte pf) s) (\<lambda>(action, s). Inr (Some old, action, s)))
          else Inr (None, action, s))
         (\<lambda>(old_tuple, action, s).
           if action \<noteq> byte CHR ''N'' then Inl (Elog ''expected action N'')
           else if rel_relkind rel \<noteq> CHR ''r'' then Inl (Elog ''unexpected relkind'')
           else sbind (read_tuple_parts pf (ae_cat env) rel s) (\<lambda>(new_tuple, s).
             perform env (Update (rel_oid rel) (search_index (ae_cat env) (rel_oid rel))
               (tuple_to_slot (case old_tuple of Some old \<Rightarrow> old | None \<Rightarrow> new_tuple)) new_tuple) (st\<lparr>ex_s := s\<rparr>))))"

definition process_remote_delete :: "protoformat \<Rightarrow> apply_env \<Rightarrow> relation \<Rightarrow> exec \<Rightarrow> apply_err + exec" where
  "process_remote_delete pf env rel st =
     sbind (read_tuple_parts pf (ae_cat env) rel (ex_s st)) (\<lambda>(deltup, s).
       perform env (Delete (rel_oid rel) (search_index (ae_cat env) (rel_oid rel)) (tuple_to_slot deltup))
         (st\<lparr>ex_s := s\<rparr>))"

section \<open>Logical messages\<close>

definition UnpackGenAndDonors :: "protoformat \<Rightarrow> bytes \<Rightarrow> apply_err + (MtmGeneration \<times> nodemask_t)" where
  "UnpackGenAndDonors pf s =
     sbind (rd (pq_getmsgint64 pf) s) (\<lambda>(n, s).
     sbind (rd (pq_getmsgint64 pf) s) (\<lambda>(mem, s).
     sbind (rd (pq_getmsgint64 pf) s) (\<lambda>(conf, s).
     sbind (rd (pq_getmsgint64 pf) s) (\<lambda>(dn, s).
       if n = MtmInvalidGenNum then Inl Apply_assert
       else Inr (\<lparr>num = n, members = mem, configured = conf\<rparr>, dn)))))"

text \<open>
  A synchronization point comes directly from the node that made it, with an empty body, or
  forwarded during recovery; then the body names its origin.
\<close>

definition forwarded_format :: "conv list" where
  "forwarded_format = lits ''F_'' @ [Conv_d] @ lits ''_'' @ [Conv_X]"

definition forward_syncpoint :: "int \<Rightarrow> XLogRecPtr \<Rightarrow> string" where
  "forward_syncpoint origin_node origin_lsn = ''F_'' @ print_int origin_node @ ''_'' @ print_hex origin_lsn"

definition is_forwarded :: "string \<Rightarrow> bool" where
  "is_forwarded msg = (case msg of [] \<Rightarrow> False | c # _ \<Rightarrow> c = CHR ''F'')"

definition process_syncpoint :: "apply_env \<Rightarrow> string \<Rightarrow> XLogRecPtr \<Rightarrow> exec \<Rightarrow> apply_err + exec" where
  "process_syncpoint env msg received_end_lsn st =
     sbind (perform env Wait_sphead st) (\<lambda>st.
       let recovery = (ae_mode env = REPLMODE_RECOVERY);
           wake = (if recovery then [Wakeup_receivers] else [])
       in if is_forwarded msg
          then (if \<not> recovery then Inl Apply_assert
                else let (rc, vs) = sscanf forwarded_format msg;
                         origin_node = arg_int vs 0 0
                     in if rc \<noteq> 2 then Inl Apply_panic
                        else if origin_node = ae_me env then Inr st
                        else performs env (Register_syncpoint origin_node (arg_word vs 1 0) None # wake) st)
          else if ae_sender env = ae_me env then Inl Apply_assert
          else performs env
                 (Register_syncpoint (ae_sender env) received_end_lsn
                    (Some (forward_syncpoint (ae_sender env) received_end_lsn)) # wake) st)"

definition process_remote_message ::
  "protoformat \<Rightarrow> apply_env \<Rightarrow> exec \<Rightarrow> apply_err + (exec \<times> bool)" where
  "process_remote_message pf env st =
     sbind (rd (pq_getmsgbyte pf) (ex_s st)) (\<lambda>(action, s).
     sbind (rd (pq_getmsgint64 pf) s) (\<lambda>(record_lsn, s).
     sbind (rd (pq_getmsgint32 pf) s) (\<lambda>(messageSize, s).
     sbind (rd (pq_getmsgbytes pf (unat messageSize)) s) (\<lambda>(messageBody, s).
       let st = st\<lparr>ex_s := s\<rparr>
       in if action = byte CHR ''C'' then
            sbind (perform env (DDL False messageBody) st) (\<lambda>st. Inr (st, True))
          else if action = byte CHR ''V'' then
            sbind (performs env [Wait_txhead, DDL False messageBody] st) (\<lambda>st. Inr (st, True))
          else if action = byte CHR ''D'' then
            sbind (perform env (DDL True messageBody) st) (\<lambda>st. Inr (st, False))
          else if action = byte CHR ''L'' then Inr (st, True)
          else if action = byte CHR ''P'' then
            sbind (UnpackGenAndDonors pf messageBody) (\<lambda>(ps_gen, ps_donors).
            sbind (perform env (ParallelSafe ps_gen ps_donors (ae_mode env = REPLMODE_RECOVERY) record_lsn) st) (\<lambda>st.
              if ae_reconnect env (ex_ops st) then Inl Proc_exit else Inr (st, True)))
          else if action = byte CHR ''S'' then
            sbind (process_syncpoint env (c_string messageBody) record_lsn st) (\<lambda>st. Inr (st, True))
          else if action = byte CHR ''B'' then Inr (st\<lparr>ex_bdr := True\<rparr>, False)
          else Inl Apply_assert))))"

section \<open>Begin and end of a transaction\<close>

definition process_remote_begin :: "protoformat \<Rightarrow> apply_env \<Rightarrow> exec \<Rightarrow> apply_err + exec" where
  "process_remote_begin pf env st =
     sbind (rd (pq_getmsgint32 pf) (ex_s st)) (\<lambda>(sender_node_id, s).
       if sint sender_node_id \<noteq> ae_sender env then Inl Apply_assert
       else sbind (rd (pq_getmsgint64 pf) s) (\<lambda>(xid, s).
            sbind (rd (pq_getmsgint64 pf) s) (\<lambda>(_, s).
            sbind (rd (pq_getmsgint64 pf) s) (\<lambda>(_, s).
              perform env (Start_transaction (ucast xid)) (st\<lparr>ex_s := s, ex_xid := ucast xid, ex_tx := True\<rparr>)))))"

abbreviation GIDSIZE :: nat where "GIDSIZE \<equiv> 200"

definition read_gid :: "protoformat \<Rightarrow> bytes \<Rightarrow> apply_err + (string \<times> bytes)" where
  "read_gid pf s = sbind (rd (pq_getmsgstring pf) s) (\<lambda>(g, s). Inr (take GIDSIZE g, s))"

definition read_event :: "protoformat \<Rightarrow> uint8 \<Rightarrow> bytes \<Rightarrow> apply_err + (remote_event \<times> bytes)" where
  "read_event pf event s =
     (if event = EV_PREPARE_PHASE2A then
        sbind (read_gid pf s) (\<lambda>(g, s). sbind (rd (pq_getmsgstring pf) s) (\<lambda>(xstate, s).
          Inr (PGLOGICAL_PREPARE_PHASE2A g xstate, s)))
      else if event = EV_COMMIT then Inr (PGLOGICAL_COMMIT, s)
      else if event = EV_PREPARE then
        sbind (read_gid pf s) (\<lambda>(g, s). sbind (rd (pq_getmsgstring pf) s) (\<lambda>(xstate, s).
          Inr (PGLOGICAL_PREPARE g xstate, s)))
      else if event = EV_COMMIT_PREPARED then
        sbind (rd (pq_getmsgint64 pf) s) (\<lambda>(_, s).
        sbind (read_gid pf s) (\<lambda>(g, s). sbind (rd (pq_getmsgint64 pf) s) (\<lambda>(xid, s).
          Inr (PGLOGICAL_COMMIT_PREPARED g (ucast xid), s))))
      else if event = EV_ABORT_PREPARED then
        sbind (read_gid pf s) (\<lambda>(g, s). sbind (rd (pq_getmsgint64 pf) s) (\<lambda>(xid, s).
          Inr (PGLOGICAL_ABORT_PREPARED g (ucast xid), s)))
      else Inl Apply_assert)"

definition read_commit ::
  "protoformat \<Rightarrow> apply_env \<Rightarrow> bytes \<Rightarrow> apply_err + (end_info \<times> remote_event \<times> bytes)" where
  "read_commit pf env s =
     sbind (rd (pq_getmsgbyte pf) s) (\<lambda>(event, s).
     sbind (rd (pq_getmsgbyte pf) s) (\<lambda>(_, s).
     sbind (rd (pq_getmsgint64 pf) s) (\<lambda>(_, s).
     sbind (rd (pq_getmsgint64 pf) s) (\<lambda>(end_lsn, s).
     sbind (rd (pq_getmsgint64 pf) s) (\<lambda>(commit_time, s).
     sbind (rd (pq_getmsgbyte pf) s) (\<lambda>(origin, s).
       let origin_node = uint origin
       in if \<not> 1 \<le> origin_node then Inl Apply_assert
          else sbind (rd (pq_getmsgint64 pf) s) (\<lambda>(origin_lsn, s).
               sbind (read_event pf event s) (\<lambda>(ev, s).
                 Inr (\<lparr>fin_origin_node = origin_node,
                        fin_lsn = (if origin_node = ae_sender env then end_lsn else origin_lsn),
                        fin_time = commit_time\<rparr>, ev, s)))))))))"

text \<open>
  Which events need a transaction in progress: a plain commit ends one, a vote for the precommit
  stands alone. A prepare and a commit forget the transaction of the origin.
\<close>

definition tx_state_ok :: "remote_event \<Rightarrow> bool \<Rightarrow> bool" where
  "tx_state_ok ev tx =
     (case ev of PGLOGICAL_COMMIT \<Rightarrow> tx | PGLOGICAL_PREPARE_PHASE2A _ _ \<Rightarrow> \<not> tx | _ \<Rightarrow> True)"

definition ends_tx :: "remote_event \<Rightarrow> bool" where
  "ends_tx ev = (case ev of PGLOGICAL_COMMIT \<Rightarrow> True | PGLOGICAL_PREPARE _ _ \<Rightarrow> True | _ \<Rightarrow> False)"

definition exec_commit :: "protoformat \<Rightarrow> apply_env \<Rightarrow> exec \<Rightarrow> apply_err + exec" where
  "exec_commit pf env st =
     sbind (read_commit pf env (ex_s st)) (\<lambda>(fin, ev, s).
       if \<not> tx_state_ok ev (ex_tx st) then Inl Apply_assert
       else sbind (perform env (Finish_xact fin ev) (st\<lparr>ex_s := s\<rparr>)) (\<lambda>st.
         Inr (if ends_tx ev then st\<lparr>ex_xid := 0, ex_tx := False\<rparr> else st)))"

section \<open>The loop over the actions\<close>

definition with_rel :: "exec \<Rightarrow> (relation \<Rightarrow> apply_err + exec) \<Rightarrow> apply_err + (exec \<times> bool)" where
  "with_rel st f =
     (case ex_rel st of None \<Rightarrow> Inl Apply_assert | Some rel \<Rightarrow> sbind (f rel) (\<lambda>st. Inr (st, True)))"

definition open_spill :: "protoformat \<Rightarrow> apply_env \<Rightarrow> exec \<Rightarrow> apply_err + exec" where
  "open_spill pf env st =
     sbind (rd (pq_getmsgint32 pf) (ex_s st)) (\<lambda>(node, s).
     sbind (rd (pq_getmsgint32 pf) s) (\<lambda>(file, s).
       if ex_spill st \<noteq> None then Inl Apply_assert
       else case ae_files env (sint node) (sint file) of
              None \<Rightarrow> Inl Apply_panic
            | Some d \<Rightarrow> Inr (st\<lparr>ex_s := s, ex_spill := Some d\<rparr>)))"

text \<open>A chunk of the spill file takes the place of the buffer until its closing mark.\<close>

definition enter_chunk :: "protoformat \<Rightarrow> exec \<Rightarrow> apply_err + exec" where
  "enter_chunk pf st =
     sbind (rd (pq_getmsgint32 pf) (ex_s st)) (\<lambda>(sz, s).
       if ex_saved st \<noteq> None then Inl Undefined
       else case ex_spill st of
              None \<Rightarrow> Inl Apply_assert
            | Some d \<Rightarrow>
                if length d < unat sz then Inl (Elog ''failed to read spill file'')
                else Inr (st\<lparr>ex_s := take (unat sz) d, ex_saved := Some s, ex_spill := Some (drop (unat sz) d)\<rparr>))"

definition leave_chunk :: "exec \<Rightarrow> apply_err + exec" where
  "leave_chunk st = (case ex_saved st of None \<Rightarrow> Inl Undefined | Some s \<Rightarrow> Inr (st\<lparr>ex_s := s, ex_saved := None\<rparr>))"

definition exec_action ::
  "protoformat \<Rightarrow> apply_env \<Rightarrow> uint8 \<Rightarrow> exec \<Rightarrow> apply_err + (exec \<times> bool)" where
  "exec_action pf env action st =
     (if action = byte CHR ''B'' then sbind (process_remote_begin pf env st) (\<lambda>st. Inr (st, True))
      else if action = byte CHR ''C'' then sbind (exec_commit pf env (st\<lparr>ex_spill := None\<rparr>)) (\<lambda>st. Inr (st, False))
      else if action = byte CHR ''I'' then with_rel st (\<lambda>rel. process_remote_insert pf env rel st)
      else if action = byte CHR ''U'' then with_rel st (\<lambda>rel. process_remote_update pf env rel st)
      else if action = byte CHR ''D'' then with_rel st (\<lambda>rel. process_remote_delete pf env rel st)
      else if action = byte CHR ''R'' then
        sbind (read_rel pf (ae_cat env) (ex_map st) (ex_s st)) (\<lambda>(rel, m, s).
          Inr (st\<lparr>ex_rel := Some rel, ex_map := m, ex_s := s\<rparr>, True))
      else if action = byte CHR ''F'' then sbind (open_spill pf env st) (\<lambda>st. Inr (st, True))
      else if action = byte CHR ''('' then sbind (enter_chunk pf st) (\<lambda>st. Inr (st, True))
      else if action = byte CHR '')'' then sbind (leave_chunk st) (\<lambda>st. Inr (st, True))
      else if action = byte CHR ''N'' then
        with_rel st (\<lambda>rel. sbind (rd (pq_getmsgint64 pf) (ex_s st)) (\<lambda>(nxt, s).
          perform env (AdjustSequence (rel_oid rel) nxt) (st\<lparr>ex_rel := None, ex_s := s\<rparr>)))
      else if action = byte CHR ''0'' then with_rel st (\<lambda>rel. perform env (Truncate (rel_oid rel)) st)
      else if action = byte CHR ''M'' then
        sbind (process_remote_message pf env (st\<lparr>ex_rel := None\<rparr>)) (\<lambda>(st, standalone). Inr (st, \<not> standalone))
      else if action = byte CHR ''Z'' then
        (if ex_tx st then Inl Apply_assert
         else sbind (performs env ((if ae_backup env then [Clear_basebackup] else []) @ [Caughtup]) st)
                (\<lambda>st. Inr (st, False)))
      else Inl (Elog ''unknown action''))"

text \<open>
  The state an error inside an action leaves behind: as before the action, except that the
  transaction of the origin is known as soon as its number has been read.
\<close>

definition at_error :: "protoformat \<Rightarrow> exec \<Rightarrow> exec" where
  "at_error pf st =
     (case sbind (rd (pq_getmsgbyte pf) (ex_s st)) (\<lambda>(action, s).
             if action = byte CHR ''B'' then sbind (rd (pq_getmsgint32 pf) s) (\<lambda>(_, s). rd (pq_getmsgint64 pf) s)
             else Inl Bad_message) of
        Inl _ \<Rightarrow> st
      | Inr (xid, _) \<Rightarrow> st\<lparr>ex_xid := ucast xid\<rparr>)"

partial_function (option) run_actions ::
  "protoformat \<Rightarrow> apply_env \<Rightarrow> exec \<Rightarrow> ((apply_err \<times> exec) + exec) option" where
  "run_actions pf env st =
     (case sbind (rd (pq_getmsgbyte pf) (ex_s st)) (\<lambda>(action, s). exec_action pf env action (st\<lparr>ex_s := s\<rparr>)) of
        Inl e \<Rightarrow> Some (Inl (e, at_error pf st))
      | Inr (st', inside) \<Rightarrow> if inside then run_actions pf env st' else Some (Inr st'))"

section \<open>The executor\<close>

text \<open>
  An error of Postgres or of the format is caught. The process dies when the work may not be
  skipped; else the transaction is aborted and its coordinator told.
\<close>

datatype exec_outcome =
  Exec_done exec
| Exec_failed "xeffect list" exec
| Exec_died

definition edata_of :: "apply_err \<Rightarrow> (int \<times> string) option" where
  "edata_of e = (case e of Bad_message \<Rightarrow> Some (16908800, ''insufficient data left in message'')
     | Elog m \<Rightarrow> Some (ERRCODE_INTERNAL_ERROR, m) | Pg_error code m _ \<Rightarrow> Some (code, m) | _ \<Rightarrow> None)"

definition catch_error :: "apply_env \<Rightarrow> (int \<Rightarrow> int) \<Rightarrow> apply_err \<Rightarrow> exec \<Rightarrow> exec_outcome" where
  "catch_error env dests e st =
     (case edata_of e of
        None \<Rightarrow> Exec_died
      | Some edata \<Rightarrow>
          (let nontx = (case e of Pg_error _ _ n \<Rightarrow> n | _ \<Rightarrow> False)
           in if (ae_mode env = REPLMODE_RECOVERY \<or> ex_xid st = 0 \<or> ex_bdr st) \<and> \<not> nontx then Exec_died
              else if ex_xid st \<noteq> 0 \<and> ae_mode env = REPLMODE_NORMAL
              then (case mtm_send_prepare_reply (ae_me env) dests (ex_xid st) (ae_sender env) False (Some edata) of
                      Inl _ \<Rightarrow> Exec_died
                    | Inr reply \<Rightarrow> Exec_failed [reply] st)
              else Exec_failed [] st))"

definition start_exec :: "bytes \<Rightarrow> relid_map \<Rightarrow> exec" where
  "start_exec work m = \<lparr>ex_s = work, ex_saved = None, ex_spill = None, ex_rel = None, ex_map = m,
     ex_xid = 0, ex_bdr = False, ex_tx = False, ex_ops = []\<rparr>"

definition MtmExecutor ::
  "protoformat \<Rightarrow> apply_env \<Rightarrow> (int \<Rightarrow> int) \<Rightarrow> bytes \<Rightarrow> relid_map \<Rightarrow> exec_outcome option" where
  "MtmExecutor pf env dests work m =
     (case run_actions pf env (start_exec work m) of
        None \<Rightarrow> None
      | Some (Inr st) \<Rightarrow> Some (Exec_done st)
      | Some (Inl (e, st)) \<Rightarrow> Some (catch_error env dests e st))"

end
