(* ===== verification/Pglogical_Trip.thy ===== *)
theory Pglogical_Trip
  imports Pglogical_Apply
begin

text \<open>
  From the writers of the sender to the requests of the applier. A record of the stream has a
  meaning of its own, a step of the applier; the executor, which collects rows into bulk inserts,
  is shown to take the same steps. Then the writers are shown to produce records whose steps are
  the changes of the transaction.
\<close>

section \<open>Reading what was written\<close>

named_theorems wire_simps \<open>reading back what the writers sent\<close>

lemma proto_get [wire_simps]:
  assumes "proto_ok pf"
  shows "rd (pq_getmsgbyte pf) (b # rest) = Inr (b, rest)"
    and "rd (pq_getmsgint16 pf) (pq_sendint16 pf w16 @ rest) = Inr (w16, rest)"
    and "rd (pq_getmsgint32 pf) (pq_sendint32 pf w32 @ rest) = Inr (w32, rest)"
    and "rd (pq_getmsgint64 pf) (pq_sendint64 pf w64 @ rest) = Inr (w64, rest)"
    and "n = length d \<Longrightarrow> rd (pq_getmsgbytes pf n) (d @ rest) = Inr (d, rest)"
    and "ascii s \<Longrightarrow> rd (pq_getmsgstring pf) (pq_sendstring pf s @ rest) = Inr (s, rest)"
    and "pq_sendbyte pf b = [b]" and "pq_sendbytes pf d = d" and "sendchar pf c = [byte c]"
  using assms by (simp_all add: proto_ok_def rd_def sendchar_def)

lemma proto_get_last [wire_simps]:
  assumes "proto_ok pf"
  shows "rd (pq_getmsgint32 pf) (pq_sendint32 pf w32) = Inr (w32, [])"
    and "rd (pq_getmsgint64 pf) (pq_sendint64 pf w64) = Inr (w64, [])"
    and "n = length d \<Longrightarrow> rd (pq_getmsgbytes pf n) d = Inr (d, [])"
    and "ascii s \<Longrightarrow> rd (pq_getmsgstring pf) (pq_sendstring pf s) = Inr (s, [])"
  using proto_get(3,4,5,6) [OF assms, where rest = "[]"] by simp_all

lemma unat_len [simp]: "n < 2 ^ LENGTH('a) \<Longrightarrow> unat (word_of_nat n :: 'a::len word) = n"
  by (simp add: unat_of_nat take_bit_nat_eq_self)

section \<open>Records of the stream\<close>

datatype wrec =
  W_rel Oid "(string \<times> string) option"
| W_insert bytes
| W_update "bytes option" bytes
| W_delete bytes
| W_seq uint64
| W_msg char XLogRecPtr bytes
| W_begin uint32 TransactionId

definition name_len :: "string \<Rightarrow> uint8" where
  "name_len s = word_of_nat (length s + 1)"

definition enc_name :: "string \<Rightarrow> bytes" where
  "enc_name s = name_len s # c_bytes s"

fun enc :: "protoformat \<Rightarrow> wrec \<Rightarrow> bytes" where
  "enc pf (W_rel r None) = byte CHR ''R'' # pq_sendint32 pf r @ [0, 0]"
| "enc pf (W_rel r (Some (nsp, nm))) = byte CHR ''R'' # pq_sendint32 pf r @ enc_name nsp @ enc_name nm"
| "enc pf (W_insert tb) = byte CHR ''I'' # tb"
| "enc pf (W_update None tb) = byte CHR ''U'' # byte CHR ''N'' # tb"
| "enc pf (W_update (Some kb) tb) = byte CHR ''U'' # byte CHR ''K'' # kb @ byte CHR ''N'' # tb"
| "enc pf (W_delete tb) = byte CHR ''D'' # tb"
| "enc pf (W_seq n) = byte CHR ''N'' # pq_sendint64 pf n"
| "enc pf (W_msg c lsn body) = byte CHR ''M'' # byte c # pq_sendint64 pf lsn @
     pq_sendint32 pf (word_of_nat (length body)) @ body"
| "enc pf (W_begin node xid) = byte CHR ''B'' # pq_sendint32 pf node @ pq_sendint64 pf (ucast xid) @
     pq_sendint64 pf 42 @ pq_sendint64 pf 142"

definition encs :: "protoformat \<Rightarrow> wrec list \<Rightarrow> bytes" where
  "encs pf ws = concat (map (enc pf) ws)"

lemma encs_simps [simp]: "encs pf [] = []" "encs pf (w # ws) = enc pf w @ encs pf ws"
  "encs pf (ws @ ws') = encs pf ws @ encs pf ws'"
  by (simp_all add: encs_def)

text \<open>The bytes of a row and what they are read as in a relation of the receiver.\<close>

definition reads :: "protoformat \<Rightarrow> catalogue \<Rightarrow> relation \<Rightarrow> bytes \<Rightarrow> TupleData \<Rightarrow> bool" where
  "reads pf cat rel tb td \<longleftrightarrow> (\<forall>rest. read_tuple_parts pf cat rel (tb @ rest) = Inr (td, rest))"

lemma readsD: "reads pf cat rel tb td \<Longrightarrow> read_tuple_parts pf cat rel (tb @ rest) = Inr (td, rest)"
  by (simp add: reads_def)

definition name_ok :: "string \<Rightarrow> bool" where
  "name_ok s \<longleftrightarrow> no_nul s \<and> length s < 255"

definition emit_op :: "dbop \<Rightarrow> exec \<Rightarrow> exec" where
  "emit_op op st = st\<lparr>ex_ops := ex_ops st @ [op]\<rparr>"

text \<open>The step of the applier that a record stands for.\<close>

inductive rec_step :: "protoformat \<Rightarrow> apply_env \<Rightarrow> exec \<Rightarrow> wrec \<Rightarrow> exec \<Rightarrow> bool"
  for pf :: protoformat and env :: apply_env where
  known_rel: "\<lbrakk>pglogical_relid_map_get (ex_map st) r = l; l \<noteq> InvalidOid; table_open (ae_cat env) l = Some rel;
     case names of None \<Rightarrow> True | Some (nsp, nm) \<Rightarrow> name_ok nsp \<and> name_ok nm\<rbrakk> \<Longrightarrow>
     rec_step pf env st (W_rel r names) (st\<lparr>ex_rel := Some rel\<rparr>)"
| new_rel: "\<lbrakk>pglogical_relid_map_get (ex_map st) r = InvalidOid; name_ok nsp; name_ok nm;
     RangeVarGetRelid (ae_cat env) nsp nm = Some l; table_open (ae_cat env) l = Some rel\<rbrakk> \<Longrightarrow>
     rec_step pf env st (W_rel r (Some (nsp, nm)))
       (st\<lparr>ex_rel := Some rel, ex_map := snd (pglogical_relid_map_put (ex_map st) r l)\<rparr>)"
| insert_row: "\<lbrakk>ex_rel st = Some rel; reads pf (ae_cat env) rel tb td; \<not> LOCAL_TABLES rel\<rbrakk> \<Longrightarrow>
     rec_step pf env st (W_insert tb) (emit_op (Insert (rel_oid rel) (tuple_to_slot td)) st)"
| update_row: "\<lbrakk>ex_rel st = Some rel; rel_relkind rel = CHR ''r''; reads pf (ae_cat env) rel tb td\<rbrakk> \<Longrightarrow>
     rec_step pf env st (W_update None tb)
       (emit_op (Update (rel_oid rel) (search_index (ae_cat env) (rel_oid rel)) (tuple_to_slot td) td) st)"
| update_key: "\<lbrakk>ex_rel st = Some rel; rel_relkind rel = CHR ''r''; reads pf (ae_cat env) rel kb kd; reads pf (ae_cat env) rel tb td\<rbrakk> \<Longrightarrow>
     rec_step pf env st (W_update (Some kb) tb)
       (emit_op (Update (rel_oid rel) (search_index (ae_cat env) (rel_oid rel)) (tuple_to_slot kd) td) st)"
| delete_row: "\<lbrakk>ex_rel st = Some rel; reads pf (ae_cat env) rel tb td\<rbrakk> \<Longrightarrow>
     rec_step pf env st (W_delete tb)
       (emit_op (Delete (rel_oid rel) (search_index (ae_cat env) (rel_oid rel)) (tuple_to_slot td)) st)"
| next_value: "ex_rel st = Some rel \<Longrightarrow>
     rec_step pf env st (W_seq n) (emit_op (AdjustSequence (rel_oid rel) n) (st\<lparr>ex_rel := None\<rparr>))"
| ddl: "length body < 2 ^ 32 \<Longrightarrow>
     rec_step pf env st (W_msg CHR ''D'' lsn body) (emit_op (DDL True body) (st\<lparr>ex_rel := None\<rparr>))"
| begin_xact: "sint node = ae_sender env \<Longrightarrow>
     rec_step pf env st (W_begin node xid) (emit_op (Start_transaction xid) (st\<lparr>ex_xid := xid, ex_tx := True\<rparr>))"
| bdr_like: "length body < 2 ^ 32 \<Longrightarrow>
     rec_step pf env st (W_msg CHR ''B'' lsn body) (st\<lparr>ex_rel := None, ex_bdr := True\<rparr>)"

inductive_cases rec_stepE: "rec_step pf env st w st'"
inductive_cases insert_stepE: "rec_step pf env st (W_insert tb) st'"

inductive rec_steps :: "protoformat \<Rightarrow> apply_env \<Rightarrow> exec \<Rightarrow> wrec list \<Rightarrow> exec \<Rightarrow> bool"
  for pf :: protoformat and env :: apply_env where
  no_rec: "rec_steps pf env st [] st"
| more_recs: "\<lbrakk>rec_step pf env st w st1; rec_steps pf env st1 ws st2\<rbrakk> \<Longrightarrow> rec_steps pf env st (w # ws) st2"

inductive_cases rec_steps_NilE: "rec_steps pf env st [] st'"
inductive_cases rec_steps_ConsE: "rec_steps pf env st (w # ws) st'"

lemma rec_steps_append:
  "rec_steps pf env st ws st1 \<Longrightarrow> rec_steps pf env st1 ws' st2 \<Longrightarrow> rec_steps pf env st (ws @ ws') st2"
  by (induction rule: rec_steps.induct) (auto intro: more_recs)

text \<open>A step neither looks at the buffer nor at the requests made before.\<close>

definition moved :: "bytes \<Rightarrow> dbop list \<Rightarrow> exec \<Rightarrow> exec" where
  "moved s ops st = st\<lparr>ex_s := s, ex_ops := ops\<rparr>"

lemma moved_simps [simp]:
  "ex_s (moved s ops st) = s" "ex_ops (moved s ops st) = ops" "ex_rel (moved s ops st) = ex_rel st"
  "ex_map (moved s ops st) = ex_map st" "ex_saved (moved s ops st) = ex_saved st"
  "ex_spill (moved s ops st) = ex_spill st" "ex_tx (moved s ops st) = ex_tx st"
  "ex_xid (moved s ops st) = ex_xid st" "ex_bdr (moved s ops st) = ex_bdr st"
  "moved s ops (moved s' ops' st) = moved s ops st"
  by (simp_all add: moved_def)

lemma moved_push [simp]:
  "ex_s_update (\<lambda>_. s') (moved s ops st) = moved s' ops st"
  "ex_rel_update f (moved s ops st) = moved s ops (ex_rel_update f st)"
  "ex_map_update g (moved s ops st) = moved s ops (ex_map_update g st)"
  "ex_bdr_update h (moved s ops st) = moved s ops (ex_bdr_update h st)"
  "ex_saved_update k (moved s ops st) = moved s ops (ex_saved_update k st)"
  "ex_spill_update l (moved s ops st) = moved s ops (ex_spill_update l st)"
  "ex_xid_update x (moved s ops st) = moved s ops (ex_xid_update x st)"
  "ex_tx_update y (moved s ops st) = moved s ops (ex_tx_update y st)"
  "emit_op op (moved s ops st) = moved s (ops @ [op]) st"
  "moved s ops (emit_op op st) = moved s ops st"
  by (cases st; simp add: moved_def emit_op_def)+

lemma emit_op_simps [simp]:
  "ex_ops (emit_op op st) = ex_ops st @ [op]" "ex_rel (emit_op op st) = ex_rel st" "ex_map (emit_op op st) = ex_map st"
  by (simp_all add: emit_op_def)

section \<open>The executor takes the steps of the records\<close>

fun flat :: "dbop \<Rightarrow> dbop list" where
  "flat (Multi_insert r tups) = map (Insert r) tups"
| "flat op = [op]"

definition flats :: "dbop list \<Rightarrow> dbop list" where
  "flats ops = concat (map flat ops)"

lemma flats_simps [simp]: "flats [] = []" "flats (op # ops) = flat op @ flats ops" "flats (ops @ ops') = flats ops @ flats ops'"
  by (simp_all add: flats_def)

text \<open>Postgres raises no error.\<close>

definition pg_accepts :: "apply_env \<Rightarrow> bool" where
  "pg_accepts env \<longleftrightarrow> (\<forall>ops. ae_pg env ops = None)"

lemma perform_accepts [simp]: "pg_accepts env \<Longrightarrow> perform env op st = Inr (emit_op op st)"
  by (simp add: perform_def pg_accepts_def emit_op_def Let_def)

lemma run_action:
  assumes "proto_ok pf" and "exec_action pf env b (moved s ops st) = Inr (st', True)"
  shows "run_actions pf env (moved (b # s) ops st) = run_actions pf env st'"
  using assms by (subst run_actions.simps) (simp add: wire_simps)

lemma unat_name_len: "name_ok s \<Longrightarrow> unat (name_len s) = Suc (length s)"
  using unat_len [where 'a = 8, of "length s + 1"] by (simp add: name_len_def name_ok_def del: unat_len)

lemmas read_name = enc_name_def unat_name_len

lemma exec_rel:
  assumes "proto_ok pf" and "pg_accepts env" and "rec_step pf env st (W_rel r names) st'"
  shows "run_actions pf env (moved (enc pf (W_rel r names) @ rest) ops st) =
    run_actions pf env (moved rest ops st') \<and> ex_ops st' = ex_ops st"
  using assms(3)
proof (cases rule: rec_step.cases)
  case (known_rel l rel)
  have "read_rel pf (ae_cat env) (ex_map st) (tl (enc pf (W_rel r names)) @ rest) = Inr (rel, ex_map st, rest)"
  proof (cases names)
    case None
    then show ?thesis using known_rel assms(1) by (simp add: read_rel_def wire_simps)
  next
    case (Some p)
    then obtain nsp nm where p: "p = (nsp, nm)" "name_ok nsp" "name_ok nm" using known_rel by (cases p) auto
    then show ?thesis
      using known_rel assms(1) Some by (simp add: read_rel_def wire_simps read_name)
  qed
  moreover have "\<exists>tb. enc pf (W_rel r names) = byte CHR ''R'' # tb"
    by (cases names) auto
  ultimately show ?thesis
    using known_rel run_action [OF assms(1), of env "byte CHR ''R''" "tl (enc pf (W_rel r names)) @ rest" ops st]
    by (auto simp: exec_action_def)
next
  case (new_rel nsp nm l rel)
  then have "read_rel pf (ae_cat env) (ex_map st) (tl (enc pf (W_rel r names)) @ rest) =
      Inr (rel, snd (pglogical_relid_map_put (ex_map st) r l), rest)"
    using assms(1) by (simp add: read_rel_def wire_simps read_name name_ok_def)
  then show ?thesis
    using new_rel run_action [OF assms(1), of env "byte CHR ''R''" "tl (enc pf (W_rel r names)) @ rest" ops st]
    by (simp add: exec_action_def)
qed

lemma exec_single:
  assumes "proto_ok pf" and "pg_accepts env" and "rec_step pf env st w st'"
    and "\<not> (\<exists>tb. w = W_insert tb)"
  shows "\<exists>out. ex_ops st' = ex_ops st @ out \<and>
    run_actions pf env (moved (enc pf w @ rest) ops st) = run_actions pf env (moved rest (ops @ out) st')"
  using assms(3)
proof (cases rule: rec_step.cases)
  case (known_rel r l rel names)
  then show ?thesis
    using exec_rel [OF assms(1,2), of st r names st' rest ops] assms(3) by (intro exI [of _ "[]"]) (simp del: enc.simps)
next
  case (new_rel r nsp nm l rel)
  then show ?thesis
    using exec_rel [OF assms(1,2), of st r "Some (nsp, nm)" st' rest ops] assms(3) by (intro exI [of _ "[]"]) (simp del: enc.simps)
next
  case (insert_row rel tb td)
  with assms(4) show ?thesis by simp
next
  case (update_row rel tb td)
  then show ?thesis
    using assms(1,2) run_action [OF assms(1), of env "byte CHR ''U''" "byte CHR ''N'' # tb @ rest" ops st]
    by (intro exI [of _ "[Update (rel_oid rel) (search_index (ae_cat env) (rel_oid rel)) (tuple_to_slot td) td]"])
      (simp add: exec_action_def with_rel_def process_remote_update_def readsD wire_simps)
next
  case (update_key rel kb kd tb td)
  then show ?thesis
    using assms(1,2) run_action [OF assms(1), of env "byte CHR ''U''" "byte CHR ''K'' # kb @ byte CHR ''N'' # tb @ rest" ops st]
    by (intro exI [of _ "[Update (rel_oid rel) (search_index (ae_cat env) (rel_oid rel)) (tuple_to_slot kd) td]"])
      (simp add: exec_action_def with_rel_def process_remote_update_def readsD wire_simps)
next
  case (delete_row rel tb td)
  then show ?thesis
    using assms(1,2) run_action [OF assms(1), of env "byte CHR ''D''" "tb @ rest" ops st]
    by (intro exI [of _ "[Delete (rel_oid rel) (search_index (ae_cat env) (rel_oid rel)) (tuple_to_slot td)]"])
      (simp add: exec_action_def with_rel_def process_remote_delete_def readsD wire_simps)
next
  case (next_value rel n)
  then show ?thesis
    using assms(1,2) run_action [OF assms(1), of env "byte CHR ''N''" "pq_sendint64 pf n @ rest" ops st]
    by (intro exI [of _ "[AdjustSequence (rel_oid rel) n]"])
      (simp add: exec_action_def with_rel_def wire_simps)
next
  case (ddl body lsn)
  then show ?thesis
    using assms(1,2) run_action [OF assms(1), of env "byte CHR ''M''" "byte CHR ''D'' # pq_sendint64 pf lsn @ pq_sendint32 pf (word_of_nat (length body)) @ body @ rest" ops st]
    by (intro exI [of _ "[DDL True body]"])
      (simp add: exec_action_def process_remote_message_def wire_simps)
next
  case (begin_xact node xid)
  then show ?thesis
    using assms(1,2) run_action [OF assms(1), of env "byte CHR ''B''"
        "pq_sendint32 pf node @ pq_sendint64 pf (ucast xid) @ pq_sendint64 pf 42 @ pq_sendint64 pf 142 @ rest" ops st]
    by (intro exI [of _ "[Start_transaction xid]"]) (simp add: exec_action_def process_remote_begin_def wire_simps)
next
  case (bdr_like body lsn)
  then show ?thesis
    using assms(1,2) run_action [OF assms(1), of env "byte CHR ''M''" "byte CHR ''B'' # pq_sendint64 pf lsn @ pq_sendint32 pf (word_of_nat (length body)) @ body @ rest" ops st]
    by (intro exI [of _ "[]"])
      (simp add: exec_action_def process_remote_message_def wire_simps)
qed

subsection \<open>Bulk inserts\<close>

definition rows :: "bytes list \<Rightarrow> bytes" where
  "rows tbs = concat (map (\<lambda>tb. byte CHR ''I'' # tb) tbs)"

lemma rows_simps [simp]: "rows [] = []" "rows (tb # tbs) = byte CHR ''I'' # tb @ rows tbs"
  by (simp_all add: rows_def)

lemma encs_rows: "encs pf (map W_insert tbs) = rows tbs"
  by (induction tbs) auto

definition no_row_next :: "bytes \<Rightarrow> bool" where
  "no_row_next s \<longleftrightarrow> pq_peekmsgbyte s \<noteq> Some (byte CHR ''I'')"

lemma peek_rows: "no_row_next rest \<Longrightarrow> pq_peekmsgbyte (rows tbs @ rest) = Some (byte CHR ''I'') \<longleftrightarrow> tbs \<noteq> []"
  by (cases tbs) (auto simp: no_row_next_def pq_peekmsgbyte_def)

lemma buffer_tuples_prefix:
  assumes "proto_ok pf" and "no_row_next rest" and "list_all2 (reads pf cat rel) tbs tds" and "tbs \<noteq> []"
  shows "\<exists>k lst'. k \<le> length tbs \<and>
    buffer_tuples pf cat rel room bsize slots lst (rows tbs @ rest) =
      Inr (slots @ take k tds, lst', rows (drop k tbs) @ rest)"
  using assms(3,4)
proof (induction room arbitrary: bsize slots lst tbs tds)
  case 0
  then show ?case by (intro exI [of _ 0]) auto
next
  case (Suc room)
  show ?case
  proof (cases "bsize \<ge> MAX_BUFFERED_TUPLES_SIZE")
    case True
    then show ?thesis by (intro exI [of _ 0]) auto
  next
    case False
    obtain tb tbs' td tds' where c: "tbs = tb # tbs'" "tds = td # tds'" "reads pf cat rel tb td"
        "list_all2 (reads pf cat rel) tbs' tds'"
      using Suc.prems by (cases tbs) (auto simp: list_all2_Cons1)
    let ?bsize = "bsize + tuple_len cat (rel_oid rel) (tuple_to_slot td)"
    note step = readsD [OF c(3)] wire_simps peek_rows [OF assms(2)]
    show ?thesis
    proof (cases "tbs' = []")
      case True
      then show ?thesis
        using c False assms(1,2) by (intro exI [of _ 1]) (simp add: step no_row_next_def Let_def)
    next
      case more: False
      from Suc.IH [OF c(4) more, of ?bsize "slots @ [td]" td]
      obtain k lst' where "k \<le> length tbs'" "buffer_tuples pf cat rel room ?bsize (slots @ [td]) td (rows tbs' @ rest) =
          Inr ((slots @ [td]) @ take k tds', lst', rows (drop k tbs') @ rest)"
        by blast
      then show ?thesis
        using c False more assms(1) by (intro exI [of _ "Suc k"] exI [of _ lst']) (simp add: step)
    qed
  qed
qed

lemma run_insert:
  assumes "proto_ok pf" and "pg_accepts env" and "no_row_next rest"
    and "ex_rel st = Some rel" and "\<not> LOCAL_TABLES rel"
    and "reads pf (ae_cat env) rel tb td" and "list_all2 (reads pf (ae_cat env) rel) tbs tds"
  shows "\<exists>k op. k \<le> length tbs \<and> flat op = map (\<lambda>td. Insert (rel_oid rel) (tuple_to_slot td)) (td # take k tds) \<and>
    run_actions pf env (moved (rows (tb # tbs) @ rest) ops st) =
    run_actions pf env (moved (rows (drop k tbs) @ rest) (ops @ [op]) st)"
proof (cases "tbs = []")
  case True
  have "exec_action pf env (byte CHR ''I'') (moved (tb @ rest) ops st) =
      Inr (moved rest (ops @ [Insert (rel_oid rel) (tuple_to_slot td)]) st, True)"
    using assms(1-6) peek_rows [OF assms(3), of "[]"]
    by (simp add: exec_action_def with_rel_def process_remote_insert_def readsD)
  from run_action [OF assms(1) this] show ?thesis
    using True by (intro exI [of _ 0] exI [of _ "Insert (rel_oid rel) (tuple_to_slot td)"]) simp
next
  case False
  let ?size = "tuple_len (ae_cat env) (rel_oid rel) (tuple_to_slot td)"
  obtain k lst' where k: "k \<le> length tbs"
      "buffer_tuples pf (ae_cat env) rel (MAX_BUFFERED_TUPLES - 1) ?size [td] td (rows tbs @ rest) =
         Inr ([td] @ take k tds, lst', rows (drop k tbs) @ rest)"
    using buffer_tuples_prefix [OF assms(1,3,7) False] by blast
  let ?op = "Multi_insert (rel_oid rel) (map tuple_to_slot (td # take k tds))"
  have "exec_action pf env (byte CHR ''I'') (moved (tb @ rows tbs @ rest) ops st) =
      Inr (moved (rows (drop k tbs) @ rest) (ops @ [?op]) st, True)"
    using assms(1-6) k peek_rows [OF assms(3), of tbs] False
    by (simp add: exec_action_def with_rel_def process_remote_insert_def readsD)
  from run_action [OF assms(1) this] show ?thesis
    using k(1) by (intro exI [of _ k] exI [of _ ?op]) simp
qed

subsection \<open>All records\<close>

lemma insert_steps:
  assumes "rec_steps pf env st (map W_insert tbs @ ws) st'" and "ex_rel st = Some rel"
  obtains tds st1 where "list_all2 (reads pf (ae_cat env) rel) tbs tds" and "rec_steps pf env st1 ws st'"
    and "st1 = st\<lparr>ex_ops := ex_ops st @ map (\<lambda>td. Insert (rel_oid rel) (tuple_to_slot td)) tds\<rparr>"
  using assms
proof (induction tbs arbitrary: st thesis)
  case Nil
  then show ?case by (auto intro!: Nil.prems(1) [of "[]"])
next
  case (Cons tb tbs)
  from Cons.prems(2) obtain st1 where s: "rec_step pf env st (W_insert tb) st1"
      "rec_steps pf env st1 (map W_insert tbs @ ws) st'"
    by (auto elim: rec_steps_ConsE)
  from s(1) Cons.prems(3) obtain td where td: "reads pf (ae_cat env) rel tb td"
      "st1 = emit_op (Insert (rel_oid rel) (tuple_to_slot td)) st"
    by (auto elim: insert_stepE)
  show ?case
  proof (rule Cons.IH)
    fix tds st2
    assume "list_all2 (reads pf (ae_cat env) rel) tbs tds" and "rec_steps pf env st2 ws st'"
      and "st2 = st1\<lparr>ex_ops := ex_ops st1 @ map (\<lambda>td. Insert (rel_oid rel) (tuple_to_slot td)) tds\<rparr>"
    with td show thesis by (intro Cons.prems(1) [of "td # tds"]) (auto simp: emit_op_def)
  next
    show "rec_steps pf env st1 (map W_insert tbs @ ws) st'" by (rule s(2))
    show "ex_rel st1 = Some rel" using td(2) Cons.prems(3) by simp
  qed
qed

lemma split_rows:
  obtains tbs ws' where "ws = map W_insert tbs @ ws'" and "\<And>rest. no_row_next rest \<Longrightarrow> no_row_next (encs pf ws' @ rest)"
proof (induction ws arbitrary: thesis)
  case Nil
  then show ?case by (auto intro: Nil [of "[]"])
next
  case (Cons w ws)
  show ?case
  proof (cases "\<exists>tb. w = W_insert tb")
    case True
    then show ?thesis using Cons.IH Cons.prems by (metis append_Cons list.simps(9))
  next
    case False
    then have "no_row_next (encs pf (w # ws) @ rest)" for rest
      by (cases "(pf, w)" rule: enc.cases) (auto simp: no_row_next_def pq_peekmsgbyte_def)
    then show ?thesis by (intro Cons.prems [of "[]"]) auto
  qed
qed

lemma moved_ops [simp]: "moved s ops (st\<lparr>ex_ops := ops'\<rparr>) = moved s ops st"
  by (simp add: moved_def)

lemma insert_steps_join:
  assumes "list_all2 (reads pf (ae_cat env) rel) tbs tds" and "rec_steps pf env st1 ws st'" and "\<not> LOCAL_TABLES rel"
    and "ex_rel st = Some rel"
    and "st1 = st\<lparr>ex_ops := ex_ops st @ map (\<lambda>td. Insert (rel_oid rel) (tuple_to_slot td)) tds\<rparr>"
  shows "rec_steps pf env st (map W_insert tbs @ ws) st'"
  using assms
proof (induction tbs tds arbitrary: st rule: list_all2_induct)
  case Nil
  then show ?case by simp
next
  case (Cons tb tbs td tds)
  have "rec_steps pf env (emit_op (Insert (rel_oid rel) (tuple_to_slot td)) st) (map W_insert tbs @ ws) st'"
    by (rule Cons.IH) (use Cons in \<open>auto simp: emit_op_def\<close>)
  with Cons show ?case by (auto intro: more_recs insert_row)
qed

lemma flats_inserts [simp]: "flats (map (\<lambda>td. Insert r (f td)) tds) = map (\<lambda>td. Insert r (f td)) tds"
  by (induction tds) auto

text \<open>A row that is inserted takes some of the rows behind it along.\<close>

lemma run_first_row:
  assumes "proto_ok pf" and "pg_accepts env" and "no_row_next rest"
    and "rec_steps pf env st (W_insert tb # map W_insert tbs @ ws) st'"
  obtains k op st1 where "rec_steps pf env st1 (map W_insert (drop k tbs) @ ws) st'"
    and "flats (ex_ops st1) = flats (ex_ops st) @ flat op"
    and "run_actions pf env (moved (rows (tb # tbs) @ rest) ops st) =
      run_actions pf env (moved (rows (drop k tbs) @ rest) (ops @ [op]) st1)"
proof -
  let ?ins = "\<lambda>rel td. Insert (rel_oid rel) (tuple_to_slot td)"
  from assms(4) obtain rel where rel: "ex_rel st = Some rel" "\<not> LOCAL_TABLES rel"
    by (auto elim!: rec_steps_ConsE insert_stepE)
  obtain tds st2 where t: "list_all2 (reads pf (ae_cat env) rel) (tb # tbs) tds" "rec_steps pf env st2 ws st'"
      "st2 = st\<lparr>ex_ops := ex_ops st @ map (?ins rel) tds\<rparr>"
    using insert_steps [of pf env st "tb # tbs" ws st' rel] assms(4) rel(1) by auto
  then obtain td tds' where tds: "tds = td # tds'" "reads pf (ae_cat env) rel tb td"
      "list_all2 (reads pf (ae_cat env) rel) tbs tds'"
    by (auto simp: list_all2_Cons1)
  from run_insert [OF assms(1-3) rel tds(2,3), of ops] obtain k op where k: "k \<le> length tbs"
      "flat op = map (?ins rel) (td # take k tds')"
      "run_actions pf env (moved (rows (tb # tbs) @ rest) ops st) =
         run_actions pf env (moved (rows (drop k tbs) @ rest) (ops @ [op]) st)"
    by blast
  let ?st = "st\<lparr>ex_ops := ex_ops st @ map (?ins rel) (td # take k tds')\<rparr>"
  have "st2 = ?st\<lparr>ex_ops := ex_ops ?st @ map (?ins rel) (drop k tds')\<rparr>"
    using t(3) tds(1) by (simp flip: map_append)
  then have "rec_steps pf env ?st (map W_insert (drop k tbs) @ ws) st'"
    using t(2) tds(3) rel by (intro insert_steps_join [of pf env rel "drop k tbs" "drop k tds'"]) auto
  then show thesis
    using k by (intro that [of ?st k op]) auto
qed

text \<open>
  What the executor does with the bytes of the records is what the records stand for; only the
  grouping of inserted rows may differ.
\<close>

lemma run_recs:
  assumes "proto_ok pf" and "pg_accepts env" and "no_row_next rest"
  shows "rec_steps pf env st ws st' \<Longrightarrow> flats ops = flats (ex_ops st) \<Longrightarrow>
    \<exists>ops'. flats ops' = flats (ex_ops st') \<and>
      run_actions pf env (moved (encs pf ws @ rest) ops st) = run_actions pf env (moved rest ops' st')"
proof (induction "length ws" arbitrary: ws st ops rule: less_induct)
  case less
  show ?case
  proof (cases ws)
    case Nil
    then show ?thesis using less.prems by (auto elim: rec_steps_NilE)
  next
    case (Cons w ws1)
    show ?thesis
    proof (cases "\<exists>tb. w = W_insert tb")
      case False
      from less.prems(1) obtain st1 where s: "rec_step pf env st w st1" "rec_steps pf env st1 ws1 st'"
        using Cons by (auto elim: rec_steps_ConsE)
      from exec_single [OF assms(1,2) s(1) False, of "encs pf ws1 @ rest" ops] obtain out where
          "ex_ops st1 = ex_ops st @ out"
          "run_actions pf env (moved (enc pf w @ encs pf ws1 @ rest) ops st) =
             run_actions pf env (moved (encs pf ws1 @ rest) (ops @ out) st1)"
        by blast
      with less.hyps [of ws1 st1 "ops @ out"] s(2) less.prems(2) Cons show ?thesis by auto
    next
      case True
      obtain tbs ws2 where ws1: "ws1 = map W_insert tbs @ ws2" and nr: "no_row_next (encs pf ws2 @ rest)"
        using split_rows [of ws1 pf] assms(3) by metis
      from True obtain tb where w: "w = W_insert tb" by blast
      from run_first_row [OF assms(1,2) nr, of st tb tbs ws2 st' ops] less.prems(1) Cons w ws1
      obtain k op st1 where r: "rec_steps pf env st1 (map W_insert (drop k tbs) @ ws2) st'"
          "flats (ex_ops st1) = flats (ex_ops st) @ flat op"
          "run_actions pf env (moved (rows (tb # tbs) @ encs pf ws2 @ rest) ops st) =
             run_actions pf env (moved (rows (drop k tbs) @ encs pf ws2 @ rest) (ops @ [op]) st1)"
        by blast
      moreover have "length (map W_insert (drop k tbs) @ ws2) < length ws"
        using Cons ws1 by simp
      ultimately show ?thesis
        using less.hyps [of "map W_insert (drop k tbs) @ ws2" st1 "ops @ [op]"] less.prems(2) Cons w ws1
        by (auto simp: encs_rows)
    qed
  qed
qed

section \<open>Rows\<close>

text \<open>
  What arrives of a column: nothing for a dropped one, null, an unchanged value that stays on the
  disk of the sender, or else the image of the value.
\<close>

definition received :: "pg_attribute \<Rightarrow> datum option \<Rightarrow> tup_col" where
  "received att v =
     (if attisdropped att then \<lparr>tc_value = None, tc_isnull = True, tc_changed = True\<rparr>
      else case v of
        None \<Rightarrow> \<lparr>tc_value = None, tc_isnull = True, tc_changed = True\<rparr>
      | Some v \<Rightarrow>
          (case image v of
             None \<Rightarrow> \<lparr>tc_value = None, tc_isnull = True, tc_changed = False\<rparr>
           | Some d \<Rightarrow> \<lparr>tc_value = Some (Inline d), tc_isnull = False, tc_changed = True\<rparr>))"

text \<open>
  Columns of the two nodes agree when they are dropped together and pass values the same way. A
  value in binary form has the length of its type; in text form, the input function of the
  receiver reads what the output function of the sender printed.
\<close>

definition same_column :: "pg_attribute \<Rightarrow> pg_attribute \<Rightarrow> bool" where
  "same_column att att' \<longleftrightarrow> attisdropped att = (atttypid att' = InvalidOid) \<and>
     (attisdropped att' \<longrightarrow> attisdropped att) \<and> attbyval att' = attbyval att"

definition image_fits :: "pg_attribute \<Rightarrow> bytes \<Rightarrow> bool" where
  "image_fits att d \<longleftrightarrow>
     (if attlen att = -1 then \<not> attbyval att \<and> length d < 2 ^ 32
      else 0 < attlen att \<and> attlen att < 2 ^ 31 \<and> length d = nat (attlen att) \<and>
           (attbyval att \<longrightarrow> byval_len (attlen att)))"

definition transfers :: "catalogue \<Rightarrow> catalogue \<Rightarrow> bool \<Rightarrow> pg_attribute \<Rightarrow> pg_attribute \<Rightarrow> datum option \<Rightarrow> bool" where
  "transfers cat cat' wb att att' v \<longleftrightarrow> same_column att att' \<and>
     (attisdropped att \<or>
      (case v of None \<Rightarrow> True
       | Some v \<Rightarrow>
           (case image v of None \<Rightarrow> attlen att = -1
            | Some d \<Rightarrow>
                (case SearchTypeOid cat (atttypid att) of None \<Rightarrow> False
                 | Some ty \<Rightarrow>
                     if decide_datum_transfer att ty wb = CHR ''b'' then image_fits att d
                     else let str = OidOutputFunctionCall cat (atttypid att) v
                          in no_nul str \<and> length str + 1 < 2 ^ 32 \<and>
                             OidInputFunctionCall cat' (atttypid att') (atttypmod att') str = Some (Inline d)))))"

lemma image_None: "image v = None \<longleftrightarrow> v = External_ondisk"
  by (cases v) auto

lemma write_binary_fits:
  assumes "proto_ok pf" and "image v = Some d" and "image_fits att d" and "attbyval att' = attbyval att"
  shows "\<exists>len. write_binary pf att v = Inr (pq_sendint32 pf len @ d) \<and> unat len = length d \<and>
    (attbyval att' \<longrightarrow> byval_len (uint len))"
proof (cases "attlen att = -1")
  case True
  then show ?thesis
    using assms by (intro exI [of _ "word_of_nat (length d)"]) (simp add: write_binary_def image_fits_def)
next
  case False
  then have l: "0 < attlen att" "attlen att < 2 ^ 31" "length d = nat (attlen att)"
      "attbyval att \<longrightarrow> byval_len (attlen att)"
    using assms(3) by (simp_all add: image_fits_def)
  then have "uint (word_of_int (attlen att) :: uint32) = attlen att"
    by (simp add: uint_word_of_int take_bit_int_eq_self)
  then show ?thesis
    using assms(2,4) l
    by (intro exI [of _ "word_of_int (attlen att)"])
      (auto simp: write_binary_def simp flip: nat_uint_eq)
qed

lemma column_trip:
  assumes "proto_ok pf" and "transfers cat cat' wb att att' v"
  shows "\<exists>d. write_column pf cat wb att v = Inr d \<and>
    (\<forall>rest. read_column pf cat' att' (d @ rest) = Inr (received att v, rest))"
proof (cases "attisdropped att")
  case True
  then show ?thesis
    using assms(2) by (simp add: write_column_def read_column_def received_def transfers_def same_column_def)
next
  case False
  then have live: "atttypid att' \<noteq> InvalidOid" "\<not> attisdropped att'" "attbyval att' = attbyval att"
    using assms(2) by (auto simp: transfers_def same_column_def)
  show ?thesis
  proof (cases v)
    case None
    then show ?thesis
      using False live assms(1) by (simp add: write_column_def read_column_def received_def wire_simps)
  next
    case (Some v')
    show ?thesis
    proof (cases "image v'")
      case None
      then show ?thesis
        using False live Some assms
        by (simp add: write_column_def read_column_def received_def wire_simps transfers_def image_None)
    next
      case (Some d)
      then have nd: "v' \<noteq> External_ondisk" by auto
      obtain ty where ty: "SearchTypeOid cat (atttypid att) = Some ty"
        using assms(2) False \<open>v = Some v'\<close> Some by (auto simp: transfers_def split: option.splits)
      show ?thesis
      proof (cases "decide_datum_transfer att ty wb = CHR ''b''")
        case True
        then have "image_fits att d"
          using assms(2) False \<open>v = Some v'\<close> Some ty by (simp add: transfers_def)
        from write_binary_fits [OF assms(1) Some this live(3)] obtain len where
            "write_binary pf att v' = Inr (pq_sendint32 pf len @ d)" "unat len = length d"
            "attbyval att' \<longrightarrow> byval_len (uint len)"
          by blast
        then show ?thesis
          using True False live ty nd Some \<open>v = Some v'\<close> assms(1)
          by (auto simp: write_column_def read_column_def received_def wire_simps)
      next
        case as_text: False
        then have "decide_datum_transfer att ty wb = CHR ''t''"
          by (simp add: decide_datum_transfer_def split: if_splits)
        moreover have "no_nul (OidOutputFunctionCall cat (atttypid att) v')"
            "length (OidOutputFunctionCall cat (atttypid att) v') + 1 < 2 ^ 32"
            "OidInputFunctionCall cat' (atttypid att') (atttypmod att') (OidOutputFunctionCall cat (atttypid att) v') =
               Some (Inline d)"
          using assms(2) as_text False \<open>v = Some v'\<close> Some ty by (simp_all add: transfers_def Let_def)
        ultimately show ?thesis
          using False live ty nd Some \<open>v = Some v'\<close> assms(1) unat_len [where 'a = 32]
          by (simp add: write_column_def read_column_def received_def wire_simps Let_def del: unat_len of_nat_Suc of_nat_add)
      qed
    qed
  qed
qed

definition row_ok :: "catalogue \<Rightarrow> catalogue \<Rightarrow> bool \<Rightarrow> relation \<Rightarrow> relation \<Rightarrow> heap_tuple \<Rightarrow> bool" where
  "row_ok cat cat' wb rel rel' tup \<longleftrightarrow>
     length (rel_desc rel') = length (rel_desc rel) \<and> length tup = length (rel_desc rel) \<and>
     length (rel_desc rel) < 2 ^ 16 \<and>
     list_all (\<lambda>(att, att', v). transfers cat cat' wb att att' v) (zip (rel_desc rel) (zip (rel_desc rel') tup))"

definition received_row :: "relation \<Rightarrow> heap_tuple \<Rightarrow> TupleData" where
  "received_row rel tup = map2 received (rel_desc rel) tup"

lemma columns_trip:
  assumes "proto_ok pf" and "length desc' = length desc" and "length tup = length desc"
    and "list_all (\<lambda>(att, att', v). transfers cat cat' wb att att' v) (zip desc (zip desc' tup))"
  shows "\<exists>d. write_columns pf cat wb desc tup = Inr d \<and>
    (\<forall>rest. read_columns pf cat' desc' (d @ rest) = Inr (map2 received desc tup, rest))"
  using assms(3) assms(2) [symmetric] assms(4)
proof (induction tup desc desc' rule: list_induct3)
  case Nil
  then show ?case by simp
next
  case (Cons v tup att desc att' desc')
  then obtain d where "write_columns pf cat wb desc tup = Inr d"
      "\<forall>rest. read_columns pf cat' desc' (d @ rest) = Inr (map2 received desc tup, rest)"
    by auto
  moreover obtain d' where "write_column pf cat wb att v = Inr d'"
      "\<forall>rest. read_column pf cat' att' (d' @ rest) = Inr (received att v, rest)"
    using column_trip [OF assms(1), of cat cat' wb att att' v] Cons.prems by auto
  ultimately show ?case by (intro exI [of _ "d' @ d"]) simp
qed

lemma tuple_trip:
  assumes "proto_ok pf" and "row_ok cat cat' wb rel rel' tup" and "\<not> DDLInProgress s"
  obtains tb where "pglogical_write_tuple pf cat wb rel tup s = Inr tb"
    and "reads pf cat' rel' tb (received_row rel tup)"
proof -
  have r: "length (rel_desc rel') = length (rel_desc rel)" "length tup = length (rel_desc rel)"
      "length (rel_desc rel) < 2 ^ 16"
    using assms(2) by (simp_all add: row_ok_def)
  obtain d where d: "write_columns pf cat wb (rel_desc rel) tup = Inr d"
      "\<And>rest. read_columns pf cat' (rel_desc rel') (d @ rest) = Inr (map2 received (rel_desc rel) tup, rest)"
    using columns_trip [OF assms(1), of "rel_desc rel'" "rel_desc rel" tup cat cat' wb] assms(2)
    by (auto simp: row_ok_def)
  have n: "nliveatts (rel_desc rel) \<le> length (rel_desc rel)"
    by (simp add: nliveatts_def)
  then have "unat (word_of_nat (nliveatts (rel_desc rel)) :: 16 word) = nliveatts (rel_desc rel)"
    using r(3) unat_len [where 'a = 16, of "nliveatts (rel_desc rel)"] by simp
  then show thesis
    using that [OF _ ] assms(1,3) d n r(1)
    by (simp add: pglogical_write_tuple_def reads_def read_tuple_parts_def received_row_def wire_simps)
qed

section \<open>Relations\<close>

text \<open>The relation of the receiver with the name of the relation of the sender.\<close>

definition peer_rel :: "catalogue \<Rightarrow> relation \<Rightarrow> relation option" where
  "peer_rel cat' rel =
     (case rel_nspname rel of None \<Rightarrow> None
      | Some nsp \<Rightarrow>
          (case RangeVarGetRelid cat' nsp (rel_relname rel) of None \<Rightarrow> None
           | Some l \<Rightarrow> if l = InvalidOid then None else table_open cat' l))"

definition rel_ok :: "catalogue \<Rightarrow> catalogue \<Rightarrow> relation \<Rightarrow> relation \<Rightarrow> bool" where
  "rel_ok cat cat' rel rel' \<longleftrightarrow> table_open cat (rel_oid rel) = Some rel \<and> rel_oid rel \<noteq> InvalidOid \<and>
     peer_rel cat' rel = Some rel' \<and> name_ok (rel_relname rel) \<and>
     (case rel_nspname rel of None \<Rightarrow> False | Some nsp \<Rightarrow> name_ok nsp)"

lemma rel_okE:
  assumes "rel_ok cat cat' rel rel'"
  obtains nsp l where "rel_nspname rel = Some nsp" "RangeVarGetRelid cat' nsp (rel_relname rel) = Some l"
    "l \<noteq> InvalidOid" "table_open cat' l = Some rel'" "name_ok nsp" "name_ok (rel_relname rel)"
  using assms by (auto simp: rel_ok_def peer_rel_def split: option.splits if_splits)

lemma rel_ok_unique: "rel_ok cat cat' r1 r1' \<Longrightarrow> rel_ok cat cat' r2 r2' \<Longrightarrow> rel_oid r1 = rel_oid r2 \<Longrightarrow> r1' = r2'"
  by (auto simp: rel_ok_def)

definition map_ok :: "catalogue \<Rightarrow> catalogue \<Rightarrow> relid_map \<Rightarrow> bool" where
  "map_ok cat cat' m \<longleftrightarrow>
     (\<forall>rel rel'. rel_ok cat cat' rel rel' \<longrightarrow> pglogical_relid_map_get m (rel_oid rel) \<noteq> InvalidOid \<longrightarrow>
        table_open cat' (pglogical_relid_map_get m (rel_oid rel)) = Some rel')"

text \<open>The sender numbers its transactions; no relation was described in a later one.\<close>

definition sender_ok :: "proto_sender \<Rightarrow> bool" where
  "sender_ok s \<longleftrightarrow> (\<forall>r. pglogical_relid_map_get (sent_map s) r \<le> MtmSenderTID s)"

text \<open>
  How the sender and the applier agree inside a transaction: what the sender thinks it has already
  described, the applier knows, and the relation the sender thinks of as current is open.
\<close>

definition in_step :: "catalogue \<Rightarrow> catalogue \<Rightarrow> proto_sender \<Rightarrow> exec \<Rightarrow> bool" where
  "in_step cat cat' s st \<longleftrightarrow> MtmSenderTID s \<noteq> InvalidOid \<and> sender_ok s \<and> map_ok cat cat' (ex_map st) \<and>
     (\<forall>r. pglogical_relid_map_get (sent_map s) r = MtmSenderTID s \<longrightarrow>
        pglogical_relid_map_get (ex_map st) r \<noteq> InvalidOid) \<and>
     (\<forall>rel rel'. rel_ok cat cat' rel rel' \<longrightarrow> rel_relkind rel = CHR ''r'' \<longrightarrow> MtmLastRelId s = rel_oid rel \<longrightarrow>
        ex_rel st = Some rel')"

lemma rel_trip:
  assumes "proto_ok pf" and "in_step cat cat' s st" and "\<not> DDLInProgress s" and "rel_ok cat cat' rel rel'"
    and "ae_cat env = cat'" and "rel_relkind rel = CHR ''r'' \<or> MtmLastRelId s = InvalidOid"
  obtains ws s' st' where "pglogical_write_rel pf rel s = Inr (encs pf ws, s')"
    and "rec_steps pf env st ws st'" and "in_step cat cat' s' st'" and "ex_rel st' = Some rel'"
    and "ex_ops st' = ex_ops st" and "ex_bdr st' = ex_bdr st" and "DDLInProgress s' = DDLInProgress s"
proof (cases "rel_oid rel = MtmLastRelId s")
  case True
  then have "ex_rel st = Some rel'"
    using assms(2,4,6) unfolding in_step_def rel_ok_def by metis
  then show thesis
    using True assms(2,3) by (intro that [of "[]" s st]) (simp_all add: pglogical_write_rel_def no_rec)
next
  case False
  let ?r = "rel_oid rel" and ?s = "s\<lparr>MtmLastRelId := rel_oid rel\<rparr>"
  note i = assms(2) [unfolded in_step_def]
  from assms(4) obtain nsp l where n: "rel_nspname rel = Some nsp"
      "RangeVarGetRelid cat' nsp (rel_relname rel) = Some l" "l \<noteq> InvalidOid" "table_open cat' l = Some rel'"
      "name_ok nsp" "name_ok (rel_relname rel)"
    by (rule rel_okE)
  have here: "rel2' = rel'" if "rel_ok cat cat' rel2 rel2'" "rel_oid rel = rel_oid rel2" for rel2 rel2'
    using rel_ok_unique [OF that(1) assms(4)] that(2) by simp
  have known: "rec_steps pf env st [W_rel ?r names] (st\<lparr>ex_rel := Some rel'\<rparr>)"
    if "pglogical_relid_map_get (ex_map st) ?r \<noteq> InvalidOid" "names \<in> {None, Some (nsp, rel_relname rel)}" for names
    using that i assms(4,5) n by (intro more_recs [OF known_rel [OF refl] no_rec]) (auto simp: map_ok_def)
  show thesis
  proof (cases "pglogical_relid_map_get (sent_map s) ?r = MtmSenderTID s")
    case True
    have "in_step cat cat' ?s (st\<lparr>ex_rel := Some rel'\<rparr>)"
      using i here by (auto simp: in_step_def sender_ok_def)
    with True False assms(1,3) i known [of None] show thesis
      by (intro that [of "[W_rel ?r None]" ?s "st\<lparr>ex_rel := Some rel'\<rparr>"]) (auto simp: pglogical_write_rel_def wire_simps Let_def)
  next
    case unsent: False
    let ?s' = "?s\<lparr>sent_map := snd (pglogical_relid_map_put (sent_map s) ?r (MtmSenderTID s))\<rparr>"
    have w: "pglogical_write_rel pf rel s = Inr (encs pf [W_rel ?r (Some (nsp, rel_relname rel))], ?s')"
      using unsent False assms(1,3) i n(1)
      by (simp add: pglogical_write_rel_def wire_simps Let_def enc_name_def name_len_def)
    show thesis
    proof (cases "pglogical_relid_map_get (ex_map st) ?r = InvalidOid")
      case True
      let ?st = "st\<lparr>ex_rel := Some rel', ex_map := snd (pglogical_relid_map_put (ex_map st) ?r l)\<rparr>"
      have "rec_steps pf env st [W_rel ?r (Some (nsp, rel_relname rel))] ?st"
        using True n assms(5) by (intro more_recs [OF new_rel no_rec]) auto
      moreover have "in_step cat cat' ?s' ?st"
        using i here n(3,4) by (auto simp: in_step_def map_ok_def sender_ok_def)
      ultimately show thesis using w by (intro that [of _ ?s' ?st]) auto
    next
      case False
      moreover have "in_step cat cat' ?s' (st\<lparr>ex_rel := Some rel'\<rparr>)"
        using i here False by (auto simp: in_step_def sender_ok_def)
      ultimately show thesis
        using w known [of "Some (nsp, rel_relname rel)"] by (intro that [of _ ?s' "st\<lparr>ex_rel := Some rel'\<rparr>"]) auto
    qed
  qed
qed

end
