(* ===== verification/Pglogical_Output.thy ===== *)
theory Pglogical_Output
  imports Pglogical_Proto
begin

text \<open>
  The callbacks of the output plugin (\<open>src/src/pglogical_output.c\<close>, with the filter hooks called
  from \<open>src/src/pglogical_hooks.c\<close>): logical decoding calls them for every transaction, and they
  collect the bytes of the writers into messages. Starting and sending a message belong to Postgres
  and are an argument.
\<close>

section \<open>Messages\<close>

record out_ctx =
  prepared_write :: bool
  out :: bytes
  sent :: "bytes list"

record plugin =
  OutputPluginPrepareWrite :: "out_ctx \<Rightarrow> out_ctx"
  OutputPluginWrite :: "out_ctx \<Rightarrow> out_ctx"

text \<open>What Postgres documents of the two: one starts a message, the other sends what was collected.\<close>

definition plugin_ok :: "plugin \<Rightarrow> bool" where
  "plugin_ok pl \<longleftrightarrow>
     (\<forall>c. OutputPluginPrepareWrite pl c = c\<lparr>prepared_write := True, out := []\<rparr>) \<and>
     (\<forall>c. prepared_write c \<longrightarrow> OutputPluginWrite pl c = c\<lparr>prepared_write := False, sent := sent c @ [out c]\<rparr>)"

definition OUTPUT_BUFFER_SIZE :: nat where
  "OUTPUT_BUFFER_SIZE = 16 * 1024 * 1024"

definition MtmOutputPluginWrite :: "plugin \<Rightarrow> bool \<Rightarrow> out_ctx \<Rightarrow> out_ctx" where
  "MtmOutputPluginWrite pl flush c = (if flush then OutputPluginWrite pl c else c)"

definition MtmOutputPluginPrepareWrite :: "plugin \<Rightarrow> bool \<Rightarrow> out_ctx \<Rightarrow> out_ctx" where
  "MtmOutputPluginPrepareWrite pl flush c =
     (if \<not> prepared_write c then OutputPluginPrepareWrite pl c
      else if flush \<or> length (out c) > OUTPUT_BUFFER_SIZE
      then OutputPluginPrepareWrite pl (OutputPluginWrite pl c)
      else c)"

section \<open>The callbacks\<close>

record decode_env =
  de_api :: plugin
  de_pf :: protoformat
  de_cat :: catalogue
  de_want_binary :: bool
  de_priv :: MtmDecoderPrivate
  de_local :: "Oid \<Rightarrow> bool"
  de_forward :: bool

record decoder =
  dc_ctx :: out_ctx
  dc_snd :: proto_sender
  startup_message_sent :: bool

definition put :: "decode_env \<Rightarrow> bool \<Rightarrow> bool \<Rightarrow> (proto_sender \<Rightarrow> proto_err + (bytes \<times> proto_sender)) \<Rightarrow> decoder \<Rightarrow>
    proto_err + decoder" where
  "put de flush_before flush_after f d =
     (let c = MtmOutputPluginPrepareWrite (de_api de) flush_before (dc_ctx d)
      in sbind (f (dc_snd d)) (\<lambda>(b, s).
           Inr (d\<lparr>dc_ctx := MtmOutputPluginWrite (de_api de) flush_after (c\<lparr>out := out c @ b\<rparr>), dc_snd := s\<rparr>)))"

text \<open>The startup message has no content.\<close>

definition send_startup_message :: "decode_env \<Rightarrow> decoder \<Rightarrow> proto_err + decoder" where
  "send_startup_message de d =
     (if startup_message_sent d then Inl Proto_assert
      else sbind (put de True True (\<lambda>s. Inr ([], s)) d) (\<lambda>d. Inr (d\<lparr>startup_message_sent := True\<rparr>)))"

text \<open>Origins are forwarded, but the protocol has no writer for them: at most a buffer is flushed.\<close>

definition pg_decode_begin_txn :: "decode_env \<Rightarrow> ReorderBufferTXN \<Rightarrow> decoder \<Rightarrow> proto_err + decoder" where
  "pg_decode_begin_txn de txn d =
     sbind (if startup_message_sent d then Inr d else send_startup_message de d) (\<lambda>d.
     sbind (put de True False (pglogical_write_begin (de_pf de) (de_priv de) txn) d) (\<lambda>d.
       Inr (if de_forward de \<and> txn_origin_id txn \<noteq> InvalidRepOriginId
            then d\<lparr>dc_ctx := MtmOutputPluginPrepareWrite (de_api de) False (dc_ctx d)\<rparr> else d)))"

definition keeping :: "proto_err + bytes \<Rightarrow> proto_sender \<Rightarrow> proto_err + (bytes \<times> proto_sender)" where
  "keeping r s = sbind r (\<lambda>b. Inr (b, s))"

definition pg_decode_caughtup :: "decode_env \<Rightarrow> decoder \<Rightarrow> proto_err + decoder" where
  "pg_decode_caughtup de d =
     (if dec_is_recovery (de_priv de)
      then put de True True (keeping (pglogical_write_caughtup (de_pf de) (de_priv de))) d else Inr d)"

definition pg_decode_commit_txn :: "decode_env \<Rightarrow> ReorderBufferTXN \<Rightarrow> XLogRecPtr \<Rightarrow> decoder \<Rightarrow> proto_err + decoder" where
  "pg_decode_commit_txn de txn lsn d =
     put de True True (keeping (Inr (pglogical_write_commit (de_pf de) (de_priv de) txn lsn))) d"

definition pg_decode_prepare_txn :: "decode_env \<Rightarrow> ReorderBufferTXN \<Rightarrow> XLogRecPtr \<Rightarrow> decoder \<Rightarrow> proto_err + decoder" where
  "pg_decode_prepare_txn de txn lsn d =
     put de True True (\<lambda>s. keeping (pglogical_write_prepare (de_pf de) (de_priv de) txn lsn s) s) d"

definition pg_decode_commit_prepared_txn ::
  "decode_env \<Rightarrow> ReorderBufferTXN \<Rightarrow> XLogRecPtr \<Rightarrow> decoder \<Rightarrow> proto_err + decoder" where
  "pg_decode_commit_prepared_txn de txn lsn d =
     put de True True (keeping (pglogical_write_commit_prepared (de_pf de) (de_priv de) txn lsn)) d"

definition pg_decode_abort_prepared_txn ::
  "decode_env \<Rightarrow> ReorderBufferTXN \<Rightarrow> XLogRecPtr \<Rightarrow> decoder \<Rightarrow> proto_err + decoder" where
  "pg_decode_abort_prepared_txn de txn lsn d =
     put de True True (keeping (pglogical_write_abort_prepared (de_pf de) (de_priv de) txn lsn)) d"

definition pg_decode_abort_txn :: "decode_env \<Rightarrow> ReorderBufferTXN \<Rightarrow> XLogRecPtr \<Rightarrow> decoder \<Rightarrow> proto_err + decoder" where
  "pg_decode_abort_txn de txn lsn d =
     put de True True (keeping (Inr (pglogical_write_abort (de_pf de) (de_priv de) txn lsn))) d"

text \<open>The changes of a transaction: rows, and the logical messages written inside it.\<close>

datatype change =
  Ch_insert relation heap_tuple
| Ch_update relation "heap_tuple option" heap_tuple
| Ch_delete relation "heap_tuple option"
| Ch_message XLogRecPtr char payload

definition pg_decode_rel :: "decode_env \<Rightarrow> relation \<Rightarrow> (decoder \<Rightarrow> proto_err + decoder) \<Rightarrow> decoder \<Rightarrow> proto_err + decoder" where
  "pg_decode_rel de rel k d =
     (if \<not> MtmReplicationRowFilterHook (de_local de) (rel_oid rel) then Inr d
      else sbind (put de False False (pglogical_write_rel (de_pf de) rel) d) k)"

definition pg_decode_message ::
  "decode_env \<Rightarrow> bool \<Rightarrow> XLogRecPtr \<Rightarrow> char \<Rightarrow> payload \<Rightarrow> decoder \<Rightarrow> proto_err + decoder" where
  "pg_decode_message de transactional lsn prefix message d =
     put de (\<not> transactional) (\<not> transactional)
       (pglogical_write_message (de_pf de) (de_cat de) (de_want_binary de) (de_priv de) lsn prefix message) d"

fun pg_decode_change :: "decode_env \<Rightarrow> change \<Rightarrow> decoder \<Rightarrow> proto_err + decoder" where
  "pg_decode_change de (Ch_insert rel newtuple) d =
     pg_decode_rel de rel
       (put de False False (pglogical_write_insert (de_pf de) (de_cat de) (de_want_binary de) rel newtuple)) d"
| "pg_decode_change de (Ch_update rel oldtuple newtuple) d =
     pg_decode_rel de rel
       (put de False False (pglogical_write_update (de_pf de) (de_cat de) (de_want_binary de) rel oldtuple newtuple)) d"
| "pg_decode_change de (Ch_delete rel (Some oldtuple)) d =
     pg_decode_rel de rel
       (put de False False (pglogical_write_delete (de_pf de) (de_cat de) (de_want_binary de) rel oldtuple)) d"
| "pg_decode_change de (Ch_delete rel None) d = pg_decode_rel de rel Inr d"
| "pg_decode_change de (Ch_message lsn prefix message) d = pg_decode_message de True lsn prefix message d"

fun pg_decode_changes :: "decode_env \<Rightarrow> change list \<Rightarrow> decoder \<Rightarrow> proto_err + decoder" where
  "pg_decode_changes de [] d = Inr d"
| "pg_decode_changes de (ch # chs) d = sbind (pg_decode_change de ch d) (pg_decode_changes de chs)"

section \<open>Filters\<close>

definition pg_decode_origin_filter :: "decode_env \<Rightarrow> nat \<Rightarrow> bool" where
  "pg_decode_origin_filter de origin =
     (if \<not> MtmReplicationTxnFilterHook (de_priv de) origin then True
      else \<not> de_forward de \<and> origin \<noteq> InvalidRepOriginId)"

definition pg_filter_prepare :: "string \<Rightarrow> bool" where
  "pg_filter_prepare g = False"

section \<open>A transaction\<close>

text \<open>How a transaction ends for the decoder: committed at once, prepared, or given up on.\<close>

datatype ending = End_commit | End_prepare | End_abort

fun pg_decode_end :: "decode_env \<Rightarrow> ending \<Rightarrow> ReorderBufferTXN \<Rightarrow> XLogRecPtr \<Rightarrow> decoder \<Rightarrow> proto_err + decoder" where
  "pg_decode_end de End_commit txn lsn d = pg_decode_commit_txn de txn lsn d"
| "pg_decode_end de End_prepare txn lsn d = pg_decode_prepare_txn de txn lsn d"
| "pg_decode_end de End_abort txn lsn d = pg_decode_abort_txn de txn lsn d"

text \<open>
  Logical decoding replays a transaction whole, unless its origin is filtered.
\<close>

definition decode_txn ::
  "decode_env \<Rightarrow> ReorderBufferTXN \<Rightarrow> change list \<Rightarrow> ending \<Rightarrow> XLogRecPtr \<Rightarrow> decoder \<Rightarrow> proto_err + decoder" where
  "decode_txn de txn chs ending lsn d =
     (if pg_decode_origin_filter de (txn_origin_id txn) then Inr d
      else sbind (pg_decode_begin_txn de txn d) (\<lambda>d.
           sbind (pg_decode_changes de chs d) (pg_decode_end de ending txn lsn)))"

end
