(* ===== verification/Syncpoint.thy ===== *)
theory Syncpoint
  imports Apply_Commit
begin

text \<open>
  Synchronization points (\<open>src/src/syncpoint.c\<close>): when they are logged, how they are registered and
  read back, and the filter of transactions already applied that a receiver loads from its own WAL.
  The rows of the tables of the extension and the records of the WAL are arguments.
\<close>

section \<open>Logging\<close>

record Syncpoint =
  sp_origin_lsn :: XLogRecPtr
  sp_local_lsn :: XLogRecPtr

abbreviation InvalidXLogRecPtr :: XLogRecPtr where "InvalidXLogRecPtr \<equiv> 0"

text \<open>
  The interval is a C \<open>int\<close> of kilobytes: the product with 1024 is taken at 32 bits and then
  converted to the width of a position.
\<close>

definition interval_bytes :: "int \<Rightarrow> uint64" where
  "interval_bytes MtmSyncpointInterval = scast (word_of_int MtmSyncpointInterval * 1024 :: uint32)"

text \<open>The insert position is read twice without the lock and twice with it.\<close>

definition MaybeLogSyncpoint ::
  "int \<Rightarrow> XLogRecPtr \<Rightarrow> XLogRecPtr \<Rightarrow> XLogRecPtr \<Rightarrow> XLogRecPtr \<Rightarrow> (unit \<Rightarrow> XLogRecPtr) \<Rightarrow> XLogRecPtr \<Rightarrow> XLogRecPtr \<times> bool" where
  "MaybeLogSyncpoint interval p1 p2 p3 p4 LogLogicalMessage latestSyncpoint =
     (if p1 < latestSyncpoint \<or> p2 - latestSyncpoint < interval_bytes interval then (latestSyncpoint, False)
      else if p3 > latestSyncpoint \<and> p4 - latestSyncpoint \<ge> interval_bytes interval
      then (LogLogicalMessage (), True)
      else (latestSyncpoint, False))"

section \<open>Registering and reading\<close>

definition pg_lsn_out_c :: "XLogRecPtr \<Rightarrow> string" where
  "pg_lsn_out_c lsn =
     print_hex (ucast (drop_bit 32 lsn) :: uint32) @ ''/'' @ print_hex (ucast lsn :: uint32)"

datatype sp_effect =
  Log_bdr_mark
| Sql string
| Confirm_slot XLogRecPtr

definition quoted :: "string \<Rightarrow> string" where
  "quoted s = CHR 0x27 # s @ [CHR 0x27]"

definition SyncpointRegister :: "int \<Rightarrow> int \<Rightarrow> XLogRecPtr \<Rightarrow> XLogRecPtr \<Rightarrow> sp_effect list" where
  "SyncpointRegister me origin_node_id origin_lsn receiver_lsn =
     [Log_bdr_mark,
      Sql (''insert into mtm.syncpoints values ('' @ print_int me @ '', '' @ print_int origin_node_id @ '', '' @
           quoted (pg_lsn_out_c origin_lsn) @ '', '' @ quoted (pg_lsn_out_c receiver_lsn) @ '') on conflict do nothing''),
      Sql ''select mtm.cleanup_old_syncpoints()'',
      Confirm_slot receiver_lsn]"

datatype sp_err = Sp_assert | Sp_error string

definition zero_syncpoint :: Syncpoint where
  "zero_syncpoint = \<lparr>sp_origin_lsn = InvalidXLogRecPtr, sp_local_lsn = InvalidXLogRecPtr\<rparr>"

text \<open>Rows of \<open>mtm.latest_syncpoints\<close>: the position at the origin and where to fill the filter from.\<close>

definition SyncpointGetLatest :: "(XLogRecPtr \<times> XLogRecPtr option) list \<Rightarrow> int \<Rightarrow> sp_err + Syncpoint" where
  "SyncpointGetLatest sprows origin_node_id =
     (if \<not> (0 < origin_node_id \<and> origin_node_id \<le> int MTM_MAX_NODES) then Inl Sp_assert
      else case sprows of
        [] \<Rightarrow> Inr zero_syncpoint
      | [(olsn, Some llsn)] \<Rightarrow> Inr \<lparr>sp_origin_lsn = olsn, sp_local_lsn = llsn\<rparr>
      | [(_, None)] \<Rightarrow> Inl (Sp_error ''fill_filter_since is null'')
      | _ \<Rightarrow> Inl Sp_assert)"

fun load_syncpoints :: "(int \<times> XLogRecPtr \<times> XLogRecPtr option) list \<Rightarrow> Syncpoint list \<Rightarrow> sp_err + Syncpoint list" where
  "load_syncpoints [] spvector = Inr spvector"
| "load_syncpoints ((nid, olsn, llsn) # sprows) spvector =
     (if \<not> (0 < nid \<and> nid \<le> int MTM_MAX_NODES) then Inl Sp_assert
      else case llsn of
        None \<Rightarrow> Inl (Sp_error ''fill_filter_since is null'')
      | Some l \<Rightarrow> load_syncpoints sprows (spvector[nat (nid - 1) := \<lparr>sp_origin_lsn = olsn, sp_local_lsn = l\<rparr>]))"

definition SyncpointGetAllLatest :: "(int \<times> XLogRecPtr \<times> XLogRecPtr option) list \<Rightarrow> sp_err + Syncpoint list" where
  "SyncpointGetAllLatest sprows =
     (if length sprows > MTM_MAX_NODES then Inl Sp_assert
      else load_syncpoints sprows (replicate MTM_MAX_NODES zero_syncpoint))"

definition GetRecoveryHorizon :: "XLogRecPtr option \<Rightarrow> sp_err + XLogRecPtr" where
  "GetRecoveryHorizon sprow =
     (case sprow of None \<Rightarrow> Inl (Sp_error ''GetRecoveryHorizon: node is not found'') | Some h \<Rightarrow> Inr h)"

fun UpdateRecoveryHorizons :: "(int \<times> XLogRecPtr) list \<Rightarrow> XLogRecPtr list \<Rightarrow> sp_err + XLogRecPtr list" where
  "UpdateRecoveryHorizons [] horizons = Inr horizons"
| "UpdateRecoveryHorizons ((nid, h) # sprows) horizons =
     (if \<not> (0 < nid \<and> nid \<le> int MTM_MAX_NODES) then Inl Sp_assert
      else UpdateRecoveryHorizons sprows (horizons[nat (nid - 1) := h]))"

section \<open>The filter\<close>

definition origin_id_to_node_id :: "nat \<Rightarrow> MtmConfig \<Rightarrow> int" where
  "origin_id_to_node_id origin cfg =
     (case List.find (\<lambda>n. origin_id n = origin) (nodes cfg) of Some n \<Rightarrow> node_id n | None \<Rightarrow> -1)"

text \<open>
  A record of the WAL: its origin, whether it ends or prepares a transaction (commits, prepares,
  commits and aborts of prepared ones) and then with which position at the origin, and where it ends.
\<close>

record wal_entry =
  we_origin :: nat
  we_xact :: "XLogRecPtr option"
  we_end :: XLogRecPtr

text \<open>The records from a position on, and whether reading them ends with an error.\<close>

record wal_source =
  wal_from :: "XLogRecPtr \<Rightarrow> wal_entry list \<times> bool"
  wal_blcksz :: nat
  wal_segment :: nat
  wal_long_phd :: nat
  wal_short_phd :: nat

type_synonym filter_map = "(int \<times> XLogRecPtr) list"

definition spv :: "Syncpoint list \<Rightarrow> int \<Rightarrow> Syncpoint option" where
  "spv spvector nid = (if 1 \<le> nid then nth_opt spvector (nat (nid - 1)) else None)"

definition filter_entry ::
  "int \<Rightarrow> Syncpoint list \<Rightarrow> MtmConfig \<Rightarrow> wal_entry \<Rightarrow> filter_map \<Rightarrow> sp_err + filter_map" where
  "filter_entry filter_node_id spvector cfg r m =
     (let nid = origin_id_to_node_id (we_origin r) cfg
      in if we_origin r = 0 then Inr m
         else if nid < 0 then Inr m
         else if filter_node_id \<noteq> MtmInvalidNodeId \<and> filter_node_id \<noteq> nid then Inr m
         else case we_xact r of
           None \<Rightarrow> Inr m
         | Some olsn \<Rightarrow>
             (case spv spvector nid of
                None \<Rightarrow> Inl Sp_assert
              | Some sp \<Rightarrow>
                  if olsn \<le> sp_origin_lsn sp then Inr m
                  else if olsn = InvalidXLogRecPtr then Inl Sp_assert
                  else Inr (List.insert (nid, olsn) m)))"

fun filter_scan ::
  "int \<Rightarrow> Syncpoint list \<Rightarrow> MtmConfig \<Rightarrow> XLogRecPtr \<Rightarrow> wal_entry list \<Rightarrow> bool \<Rightarrow> filter_map \<Rightarrow> sp_err + filter_map" where
  "filter_scan filter_node_id spvector cfg last_lsn [] err m =
     (if err then Inl (Sp_error ''load_filter_map: got error'') else Inr m)"
| "filter_scan filter_node_id spvector cfg last_lsn (r # rs) err m =
     sbind (filter_entry filter_node_id spvector cfg r m) (\<lambda>m.
       if we_end r < last_lsn then filter_scan filter_node_id spvector cfg last_lsn rs err m else Inr m)"

definition filter_start :: "Syncpoint list \<Rightarrow> XLogRecPtr" where
  "filter_start spvector =
     foldl (\<lambda>start sp. if start > sp_local_lsn sp \<and> sp_local_lsn sp \<noteq> InvalidXLogRecPtr then sp_local_lsn sp else start)
       (- 1) spvector"

definition skip_page_header :: "wal_source \<Rightarrow> XLogRecPtr \<Rightarrow> XLogRecPtr" where
  "skip_page_header w start_lsn =
     (if unat start_lsn mod wal_blcksz w = 0
      then if unat start_lsn mod wal_segment w = 0 then start_lsn + word_of_nat (wal_long_phd w)
           else start_lsn + word_of_nat (wal_short_phd w)
      else start_lsn)"

definition RecoveryFilterLoad ::
  "wal_source \<Rightarrow> XLogRecPtr \<Rightarrow> int \<Rightarrow> Syncpoint list \<Rightarrow> MtmConfig \<Rightarrow> sp_err + filter_map" where
  "RecoveryFilterLoad w current_last_lsn filter_node_id spvector cfg =
     (let start_lsn = filter_start spvector
      in if current_last_lsn = InvalidXLogRecPtr \<or> start_lsn = InvalidXLogRecPtr then Inl Sp_assert
         else if start_lsn = - 1 then Inr []
         else let (rs, err) = wal_from w (skip_page_header w start_lsn)
              in filter_scan filter_node_id spvector cfg current_last_lsn rs err [])"

section \<open>The interval between synchronization points\<close>

lemma uint_interval_bytes: "uint (interval_bytes i) = signed_take_bit 31 (i * 1024) mod 2 ^ 64"
proof -
  have "word_of_int i * 1024 = (word_of_int (i * 1024) :: uint32)" by simp
  then have "sint (word_of_int i * 1024 :: uint32) = signed_take_bit 31 (i * 1024)"
    by (simp only: sint_sbintrunc') simp
  then show ?thesis
    by (simp only: interval_bytes_def scast_eq uint_word_of_int) simp
qed

lemma interval_bytes_small:
  assumes "0 \<le> i" and "i < 2 ^ 21"
  shows "uint (interval_bytes i) = i * 1024"
proof -
  have "signed_take_bit 31 (i * 1024) = i * 1024"
    using assms by (intro signed_take_bit_int_eq_self) auto
  then show ?thesis using assms by (simp add: uint_interval_bytes)
qed

lemma interval_bytes_large:
  assumes "2 ^ 21 \<le> i" and "i < 2 ^ 22"
  shows "uint (interval_bytes i) \<ge> 2 ^ 64 - 2 ^ 31"
proof -
  have "(i * 1024 + 2 ^ 31) mod 2 ^ 32 = i * 1024 + 2 ^ 31 - 2 ^ 32"
    using assms minus_mod_self2 [of "i * 1024 + 2 ^ 31" "2 ^ 32"] by simp
  then have "signed_take_bit 31 (i * 1024) = i * 1024 - 2 ^ 32"
    by (simp add: signed_take_bit_eq_take_bit_shift take_bit_eq_mod)
  moreover have "(i * 1024 - 2 ^ 32) mod 2 ^ 64 = i * 1024 - 2 ^ 32 + 2 ^ 64"
    using assms mod_add_self2 [of "i * 1024 - 2 ^ 32" "2 ^ 64 :: int"] by simp
  ultimately show ?thesis
    using assms by (simp add: uint_interval_bytes)
qed

lemma uint_distance: "latest \<le> (p :: uint64) \<Longrightarrow> uint (p - latest) = uint p - uint latest"
  by (simp add: uint_minus_simple_alt)



section \<open>What the filter holds\<close>

text \<open>The records the scan looks at: up to the first that ends at the last position or later.\<close>

fun scanned_records :: "XLogRecPtr \<Rightarrow> wal_entry list \<Rightarrow> wal_entry list" where
  "scanned_records last_lsn [] = []"
| "scanned_records last_lsn (r # rs) = r # (if we_end r < last_lsn then scanned_records last_lsn rs else [])"

text \<open>A record is of a transaction of a node when its origin is that node's.\<close>

definition record_of :: "MtmConfig \<Rightarrow> int \<Rightarrow> XLogRecPtr \<Rightarrow> wal_entry \<Rightarrow> bool" where
  "record_of cfg nid olsn r \<longleftrightarrow> we_origin r \<noteq> 0 \<and> origin_id_to_node_id (we_origin r) cfg = nid \<and> 0 \<le> nid \<and>
     we_xact r = Some olsn"

lemma filter_entry_mem:
  assumes "filter_entry fnode spvector cfg r m = Inr m'"
  shows "(nid, olsn) \<in> set m' \<longleftrightarrow> (nid, olsn) \<in> set m \<or>
    (record_of cfg nid olsn r \<and> (fnode = MtmInvalidNodeId \<or> fnode = nid) \<and>
     (\<exists>sp. spv spvector nid = Some sp \<and> sp_origin_lsn sp < olsn))"
  using assms
  by (auto simp: filter_entry_def record_of_def Let_def linorder_not_le split: if_splits option.splits)

lemma filter_scan_mem:
  assumes "filter_scan fnode spvector cfg last_lsn rs err m = Inr m'"
  shows "(nid, olsn) \<in> set m' \<longleftrightarrow> (nid, olsn) \<in> set m \<or>
    ((\<exists>r\<in>set (scanned_records last_lsn rs). record_of cfg nid olsn r) \<and> (fnode = MtmInvalidNodeId \<or> fnode = nid) \<and>
     (\<exists>sp. spv spvector nid = Some sp \<and> sp_origin_lsn sp < olsn))"
  using assms
proof (induction rs arbitrary: m)
  case Nil
  then show ?case by (simp split: if_splits)
next
  case (Cons r rs)
  then obtain m1 where m1: "filter_entry fnode spvector cfg r m = Inr m1"
      "(if we_end r < last_lsn then filter_scan fnode spvector cfg last_lsn rs err m1 else Inr m1) = Inr m'"
    by (auto simp: sbind_Inr_iff)
  show ?case
  proof (cases "we_end r < last_lsn")
    case True
    then show ?thesis
      using m1 filter_entry_mem [OF m1(1), of nid olsn] Cons.IH [of m1] by auto
  next
    case False
    then show ?thesis
      using m1 filter_entry_mem [OF m1(1), of nid olsn] by auto
  qed
qed

end
