(* ===== verification/Pglogical_Receiver.thy ===== *)
theory Pglogical_Receiver
  imports Pglogical_Apply Syncpoint
begin

text \<open>
  The receiver (\<open>src/src/pglogical_receiver.c\<close>, with \<open>src/src/bytebuf.c\<close> and \<open>src/src/spill.c\<close>):
  it collects the messages of a transaction, on disk when they are many, filters what was already
  applied and hands the rest to the executor or its pool. Reading from the connection, the files
  and the tables of the extension are outside; what they deliver is an argument.
\<close>

section \<open>Registration\<close>

text \<open>
  At most one receiver works in recovery, and then no other works at all. The shared part is what
  every process sees; \<open>w_mode\<close> is the mode in the context of the process that receives from a node,
  none when there is no such process. A process starts out with its mode disabled.
\<close>

record receivers =
  nreceivers_recovery :: int
  nreceivers_normal :: int
  receiver_mode :: "int \<Rightarrow> MtmReplicationMode"
  walreceiver_proc :: "int \<Rightarrow> bool"
  walreceivers_mask :: nodemask_t
  w_mode :: "int \<Rightarrow> MtmReplicationMode option"

definition start_receiver :: "int \<Rightarrow> receivers \<Rightarrow> receivers" where
  "start_receiver sender m =
     m\<lparr>walreceiver_proc := (walreceiver_proc m)(sender := True), w_mode := (w_mode m)(sender \<mapsto> REPLMODE_DISABLED)\<rparr>"

definition may_start :: "MtmReplicationMode \<Rightarrow> receivers \<Rightarrow> bool" where
  "may_start mode m \<longleftrightarrow>
     (mode = REPLMODE_RECOVERY \<and> nreceivers_recovery m = 0 \<and> nreceivers_normal m = 0) \<or>
     (mode = REPLMODE_NORMAL \<and> nreceivers_recovery m = 0)"

text \<open>One attempt of the loop that waits until the receiver may work.\<close>

definition register_receiver :: "int \<Rightarrow> MtmReplicationMode \<Rightarrow> receivers \<Rightarrow> receivers" where
  "register_receiver sender mode m =
     (if may_start mode m
      then m\<lparr>nreceivers_recovery := nreceivers_recovery m + (if mode = REPLMODE_RECOVERY then 1 else 0),
             nreceivers_normal := nreceivers_normal m + (if mode = REPLMODE_RECOVERY then 0 else 1),
             receiver_mode := (receiver_mode m)(sender := mode),
             walreceivers_mask := BIT_SET (walreceivers_mask m) (nat (sender - 1)),
             w_mode := (w_mode m)(sender \<mapsto> mode)\<rparr>
      else m)"

definition pglogical_receiver_at_exit :: "int \<Rightarrow> receivers \<Rightarrow> receivers" where
  "pglogical_receiver_at_exit sender m =
     m\<lparr>nreceivers_recovery := nreceivers_recovery m - (if w_mode m sender = Some REPLMODE_RECOVERY then 1 else 0),
       nreceivers_normal := nreceivers_normal m - (if w_mode m sender = Some REPLMODE_NORMAL then 1 else 0),
       walreceiver_proc := (walreceiver_proc m)(sender := False),
       walreceivers_mask := BIT_CLEAR (walreceivers_mask m) (nat (sender - 1)),
       w_mode := (w_mode m)(sender := None)\<rparr>"

text \<open>The life of the receivers, in any order; they serve the nodes of the masks.\<close>

inductive receivers_step :: "receivers \<Rightarrow> receivers \<Rightarrow> bool" where
  recv_starts: "1 \<le> sender \<Longrightarrow> sender \<le> int MTM_MAX_NODES \<Longrightarrow> w_mode m sender = None \<Longrightarrow>
     receivers_step m (start_receiver sender m)"
| recv_registers: "w_mode m sender = Some REPLMODE_DISABLED \<Longrightarrow> receivers_step m (register_receiver sender mode m)"
| recv_exits: "w_mode m sender \<noteq> None \<Longrightarrow> receivers_step m (pglogical_receiver_at_exit sender m)"

definition no_receivers :: receivers where
  "no_receivers = \<lparr>nreceivers_recovery = 0, nreceivers_normal = 0, receiver_mode = (\<lambda>_. REPLMODE_DISABLED),
     walreceiver_proc = (\<lambda>_. False), walreceivers_mask = 0, w_mode = Map.empty\<rparr>"

definition in_mode :: "MtmReplicationMode \<Rightarrow> receivers \<Rightarrow> int set" where
  "in_mode mode m = {n. w_mode m n = Some mode}"

text \<open>
  The counters count, the mask and the announced modes are those of the receivers at work, and a
  receiver in recovery works alone.
\<close>

definition receivers_inv :: "receivers \<Rightarrow> bool" where
  "receivers_inv m \<longleftrightarrow> (\<forall>n. w_mode m n \<noteq> None \<longrightarrow> 1 \<le> n \<and> n \<le> int MTM_MAX_NODES) \<and>
     nreceivers_recovery m = int (card (in_mode REPLMODE_RECOVERY m)) \<and>
     nreceivers_normal m = int (card (in_mode REPLMODE_NORMAL m)) \<and>
     card (in_mode REPLMODE_RECOVERY m) \<le> 1 \<and>
     (in_mode REPLMODE_RECOVERY m \<noteq> {} \<longrightarrow> in_mode REPLMODE_NORMAL m = {}) \<and>
     (\<forall>n. w_mode m n \<in> {Some REPLMODE_RECOVERY, Some REPLMODE_NORMAL} \<longrightarrow> w_mode m n = Some (receiver_mode m n)) \<and>
     (\<forall>n. walreceiver_proc m n \<longleftrightarrow> w_mode m n \<noteq> None) \<and>
     (\<forall>n. 1 \<le> n \<and> n \<le> int MTM_MAX_NODES \<longrightarrow>
        bit (walreceivers_mask m) (nat (n - 1)) = (w_mode m n \<in> {Some REPLMODE_RECOVERY, Some REPLMODE_NORMAL}))"

lemma in_mode_finite: "receivers_inv m \<Longrightarrow> finite (in_mode mode m)"
  by (rule finite_subset [of _ "{1..int MTM_MAX_NODES}"]) (auto simp: in_mode_def receivers_inv_def)

lemma in_mode_start [simp]:
  "w_mode m sender = None \<Longrightarrow> mode \<noteq> REPLMODE_DISABLED \<Longrightarrow> in_mode mode (start_receiver sender m) = in_mode mode m"
  by (auto simp: in_mode_def start_receiver_def)

lemma in_mode_register:
  "w_mode m sender = Some REPLMODE_DISABLED \<Longrightarrow> may_start mode m \<Longrightarrow> mode' \<noteq> REPLMODE_DISABLED \<Longrightarrow>
   in_mode mode' (register_receiver sender mode m) = (if mode' = mode then insert sender (in_mode mode' m) else in_mode mode' m)"
  by (auto simp: in_mode_def register_receiver_def)

lemma in_mode_exit: "in_mode mode (pglogical_receiver_at_exit sender m) = in_mode mode m - {sender}"
  by (auto simp: in_mode_def pglogical_receiver_at_exit_def)

lemma nat_pred_inj: "1 \<le> a \<Longrightarrow> 1 \<le> b \<Longrightarrow> nat (a - 1) = nat (b - 1) \<longleftrightarrow> a = b"
  by auto

section \<open>Reporting progress\<close>

record feedback =
  last_reported_flush :: XLogRecPtr
  last_send_time :: int

definition feedback_due :: "bool \<Rightarrow> int \<Rightarrow> XLogRecPtr \<Rightarrow> int \<Rightarrow> feedback \<Rightarrow> bool" where
  "feedback_due force interval flush_pos now fb =
     (force \<or> (\<not> interval \<le> 0 \<and>
        (flush_pos \<noteq> last_reported_flush fb \<or> now - last_send_time fb \<ge> interval * 1000 * 1000)))"

definition sendFeedback ::
  "protoformat \<Rightarrow> bool \<Rightarrow> int \<Rightarrow> XLogRecPtr \<Rightarrow> int \<Rightarrow> feedback \<Rightarrow> feedback \<times> bytes option" where
  "sendFeedback pf force interval flush_pos now fb =
     (if feedback_due force interval flush_pos now fb
      then (\<lparr>last_reported_flush = flush_pos, last_send_time = now\<rparr>,
            Some (sendchar pf CHR ''r'' @ pq_sendint64 pf flush_pos @ pq_sendint64 pf flush_pos @
                  pq_sendint64 pf flush_pos @ pq_sendint64 pf (word_of_int now) @ pq_sendbyte pf 0))
      else (fb, None))"

definition MtmMaybeAdvanceSlot :: "int \<Rightarrow> XLogRecPtr \<Rightarrow> bool \<Rightarrow> feedback \<Rightarrow> sp_err + (feedback \<times> string option)" where
  "MtmMaybeAdvanceSlot me up_to exec_ok fb =
     (if up_to \<le> last_reported_flush fb then Inr (fb, None)
      else if \<not> exec_ok then Inl (Sp_error ''advancing the slot failed'')
      else Inr (fb\<lparr>last_reported_flush := up_to\<rparr>,
                Some (''select pg_replication_slot_advance('' @ quoted (slot_name me) @ '', '' @
                      quoted (pg_lsn_out_c up_to) @ '');'')))"

section \<open>Filtering\<close>

text \<open>What a message says of its transaction: the node it comes from and where it ends there.\<close>

definition read_origin_C :: "protoformat \<Rightarrow> int \<Rightarrow> bytes \<Rightarrow> apply_err + (int \<times> XLogRecPtr \<times> XLogRecPtr)" where
  "read_origin_C pf sender s =
     sbind (rd (pq_getmsgbyte pf) s) (\<lambda>(event, s).
     sbind (rd (pq_getmsgbyte pf) s) (\<lambda>(sender_node_id, s).
       if uint sender_node_id \<noteq> sender then Inl Apply_assert
       else sbind (rd (pq_getmsgint64 pf) s) (\<lambda>(_, s).
            sbind (rd (pq_getmsgint64 pf) s) (\<lambda>(end_lsn, s).
            sbind (rd (pq_getmsgint64 pf) s) (\<lambda>(_, s).
            sbind (rd (pq_getmsgbyte pf) s) (\<lambda>(origin_node, s).
            sbind (rd (pq_getmsgint64 pf) s) (\<lambda>(olsn, s).
              if event = EV_PREPARE \<or> event = EV_ABORT_PREPARED then
                sbind (rd (pq_getmsgstring pf) s) (\<lambda>_. Inr (uint origin_node, olsn, end_lsn))
              else if event = EV_PREPARE_PHASE2A then
                sbind (rd (pq_getmsgstring pf) s) (\<lambda>(_, s).
                sbind (rd (pq_getmsgstring pf) s) (\<lambda>_. Inr (uint origin_node, olsn, end_lsn)))
              else if event = EV_COMMIT_PREPARED then
                sbind (rd (pq_getmsgint64 pf) s) (\<lambda>(_, s).
                sbind (rd (pq_getmsgstring pf) s) (\<lambda>_. Inr (uint origin_node, olsn, end_lsn)))
              else if event = EV_COMMIT then Inr (uint origin_node, olsn, end_lsn)
              else Inl Apply_assert)))))))"

definition read_origin_M :: "protoformat \<Rightarrow> int \<Rightarrow> bytes \<Rightarrow> apply_err + (int \<times> XLogRecPtr \<times> XLogRecPtr)" where
  "read_origin_M pf sender s =
     sbind (rd (pq_getmsgbyte pf) s) (\<lambda>(action, s).
     sbind (rd (pq_getmsgint64 pf) s) (\<lambda>(end_lsn, s).
     sbind (rd (pq_getmsgint32 pf) s) (\<lambda>(messageSize, s).
     sbind (rd (pq_getmsgbytes pf (unat messageSize)) s) (\<lambda>(messageBody, s).
       if action \<noteq> byte CHR ''S'' then Inl Apply_assert
       else let msg = c_string messageBody
            in if is_forwarded msg
               then let (rc, vs) = sscanf forwarded_format msg
                    in if rc \<noteq> 2 then Inl Apply_assert else Inr (arg_int vs 0 0, arg_word vs 1 0, end_lsn)
               else Inr (sender, InvalidXLogRecPtr, end_lsn)))))"

definition filter_decision :: "int \<Rightarrow> Syncpoint list \<Rightarrow> filter_map \<Rightarrow> int \<Rightarrow> XLogRecPtr \<Rightarrow> apply_err + bool" where
  "filter_decision me spvector fmap origin_node tx_lsn =
     (if origin_node = MtmInvalidNodeId then Inr True
      else case spv spvector origin_node of
        None \<Rightarrow> Inl Undefined
      | Some sp \<Rightarrow>
          if sp_local_lsn sp = InvalidXLogRecPtr then Inr True
          else if origin_node = me then Inr True
          else if tx_lsn \<le> sp_origin_lsn sp then Inr True
          else Inr ((origin_node, tx_lsn) \<in> set fmap))"

definition MtmFilterTransaction ::
  "protoformat \<Rightarrow> int \<Rightarrow> int \<Rightarrow> Syncpoint list \<Rightarrow> filter_map \<Rightarrow> bytes \<Rightarrow> apply_err + bool" where
  "MtmFilterTransaction pf me sender spvector fmap stmt =
     sbind (rd (pq_getmsgbyte pf) stmt) (\<lambda>(msgtype, s).
     sbind (if msgtype = byte CHR ''C'' then read_origin_C pf sender s
            else if msgtype = byte CHR ''M'' then read_origin_M pf sender s
            else Inl (Elog ''invalid message type''))
       (\<lambda>(origin_node, olsn, end_lsn).
          filter_decision me spvector fmap origin_node (if origin_node = sender then end_lsn else olsn)))"

section \<open>Collecting a transaction\<close>

record recv =
  rv_buf :: bytes
  rv_spill :: "int option"
  rv_info :: bytes
  rv_file_id :: int
  rv_files :: "int \<Rightarrow> bytes option"

text \<open>The executor runs in the receiver itself, or a worker of its pool takes the work.\<close>

datatype execution = Run_here bytes | Run_in_pool bytes

definition MtmExecute :: "MtmReplicationMode \<Rightarrow> bytes \<Rightarrow> bool \<Rightarrow> execution" where
  "MtmExecute mode work no_pool =
     (if mode = REPLMODE_RECOVERY \<or> no_pool then Run_here work else Run_in_pool work)"

definition MtmSpillToFile :: "int \<Rightarrow> bytes \<Rightarrow> (int \<Rightarrow> bytes option) \<Rightarrow> (int \<Rightarrow> bytes option)" where
  "MtmSpillToFile f d files = files(f := map_option (\<lambda>old. old @ d) (files f))"

definition open_spill_file :: "protoformat \<Rightarrow> int \<Rightarrow> recv \<Rightarrow> recv" where
  "open_spill_file pf sender st =
     (case rv_spill st of
        Some _ \<Rightarrow> st
      | None \<Rightarrow>
          let f = rv_file_id st + 1
          in st\<lparr>rv_file_id := f, rv_files := (rv_files st)(f \<mapsto> []), rv_spill := Some f,
                rv_info := rv_info st @ sendchar pf CHR ''F'' @ pq_sendint32 pf (word_of_int sender) @
                  pq_sendint32 pf (word_of_int f)\<rparr>)"

definition spill_chunk :: "protoformat \<Rightarrow> recv \<Rightarrow> recv" where
  "spill_chunk pf st =
     (case rv_spill st of
        None \<Rightarrow> st
      | Some f \<Rightarrow>
          let b = rv_buf st @ [byte CHR '')'']
          in st\<lparr>rv_info := rv_info st @ sendchar pf CHR ''('' @ pq_sendint32 pf (word_of_nat (length b)),
                rv_files := MtmSpillToFile f b (rv_files st), rv_buf := []\<rparr>)"

definition collect :: "protoformat \<Rightarrow> int \<Rightarrow> nat \<Rightarrow> bytes \<Rightarrow> recv \<Rightarrow> recv" where
  "collect pf sender threshold stmt st =
     (let st = (if length (rv_buf st) + length stmt + 1 \<ge> threshold * 1024
                then spill_chunk pf (open_spill_file pf sender st) else st)
      in st\<lparr>rv_buf := rv_buf st @ stmt\<rparr>)"

definition second_byte :: "bytes \<Rightarrow> uint8 option" where
  "second_byte stmt = nth_opt stmt 1"

text \<open>Messages that stand alone and are not collected.\<close>

definition standalone_stmt :: "bytes \<Rightarrow> bool" where
  "standalone_stmt stmt \<longleftrightarrow> pq_peekmsgbyte stmt = Some (byte CHR ''Z'') \<or>
     (pq_peekmsgbyte stmt = Some (byte CHR ''M'') \<and>
      second_byte stmt \<in> (\<lambda>c. Some (byte c)) ` {CHR ''L'', CHR ''P'', CHR ''C'', CHR ''V'', CHR ''S''})"

definition recv_standalone ::
  "MtmReplicationMode \<Rightarrow> (bytes \<Rightarrow> apply_err + bool) \<Rightarrow> bytes \<Rightarrow> recv \<Rightarrow> apply_err + (recv \<times> execution list)" where
  "recv_standalone mode flt stmt st =
     (let is_M = (pq_peekmsgbyte stmt = Some (byte CHR ''M''))
      in sbind (if is_M \<and> second_byte stmt = Some (byte CHR ''S'') then flt stmt else Inr False) (\<lambda>skip.
           if skip then Inr (st, [])
           else Inr (st, [MtmExecute mode stmt (\<not> (is_M \<and> second_byte stmt = Some (byte CHR ''C'')))])))"

definition recv_end ::
  "protoformat \<Rightarrow> MtmReplicationMode \<Rightarrow> (bytes \<Rightarrow> apply_err + bool) \<Rightarrow> bytes \<Rightarrow> recv \<Rightarrow> apply_err + (recv \<times> execution list)" where
  "recv_end pf mode flt stmt st =
     sbind (if second_byte stmt = Some EV_ABORT then Inr True else flt stmt) (\<lambda>skip.
       if \<not> skip
       then (case rv_spill st of
               Some _ \<Rightarrow>
                 (let st = spill_chunk pf st
                  in Inr (st\<lparr>rv_spill := None, rv_info := [], rv_buf := []\<rparr>, [MtmExecute mode (rv_info st) False]))
             | None \<Rightarrow> Inr (st\<lparr>rv_buf := []\<rparr>, [MtmExecute mode (rv_buf st) (second_byte stmt = Some EV_COMMIT)]))
       else Inr ((case rv_spill st of Some _ \<Rightarrow> st\<lparr>rv_spill := None, rv_info := []\<rparr> | None \<Rightarrow> st)\<lparr>rv_buf := []\<rparr>, []))"

definition recv_stmt ::
  "protoformat \<Rightarrow> MtmReplicationMode \<Rightarrow> int \<Rightarrow> nat \<Rightarrow> (bytes \<Rightarrow> apply_err + bool) \<Rightarrow> bytes \<Rightarrow> recv \<Rightarrow>
   apply_err + (recv \<times> execution list)" where
  "recv_stmt pf mode sender threshold flt stmt st =
     (if standalone_stmt stmt then recv_standalone mode flt stmt st
      else let st = collect pf sender threshold stmt st
           in if pq_peekmsgbyte stmt = Some (byte CHR ''C'') then recv_end pf mode flt stmt st else Inr (st, []))"

text \<open>A message of the replication connection: a keepalive, or data behind a header of 25 bytes.\<close>

datatype recv_action = Feedback bool | Exec execution

definition recv_copybuf ::
  "protoformat \<Rightarrow> MtmReplicationMode \<Rightarrow> int \<Rightarrow> nat \<Rightarrow> (bytes \<Rightarrow> apply_err + bool) \<Rightarrow> bytes \<Rightarrow> recv \<Rightarrow>
   apply_err + (recv \<times> recv_action list)" where
  "recv_copybuf pf mode sender threshold flt copybuf st =
     (case copybuf of
        [] \<Rightarrow> Inr (st, [])
      | c # _ \<Rightarrow>
          if c = byte CHR ''k''
          then (case nth_opt copybuf 17 of
                  None \<Rightarrow> Inl (Elog ''streaming header too small'')
                | Some replyRequested \<Rightarrow> Inr (st, [Feedback (replyRequested \<noteq> 0)]))
          else if c \<noteq> byte CHR ''w'' then Inl (Elog ''Incorrect streaming header'')
          else if length copybuf < 25 then Inl Apply_assert
          else if length copybuf = 25 then Inr (st, [])
          else sbind (recv_stmt pf mode sender threshold flt (drop 25 copybuf) st) (\<lambda>(st, xs). Inr (st, map Exec xs)))"

fun recv_all ::
  "protoformat \<Rightarrow> MtmReplicationMode \<Rightarrow> int \<Rightarrow> nat \<Rightarrow> (bytes \<Rightarrow> apply_err + bool) \<Rightarrow> bytes list \<Rightarrow> recv \<Rightarrow>
   apply_err + (recv \<times> recv_action list)" where
  "recv_all pf mode sender threshold flt [] st = Inr (st, [])"
| "recv_all pf mode sender threshold flt (m # ms) st =
     sbind (recv_copybuf pf mode sender threshold flt m st) (\<lambda>(st, xs).
     sbind (recv_all pf mode sender threshold flt ms st) (\<lambda>(st, ys). Inr (st, xs @ ys)))"

section \<open>Receivers and their modes\<close>

lemma start_receiver_inv:
  assumes "receivers_inv m" and "1 \<le> sender" and "sender \<le> int MTM_MAX_NODES" and "w_mode m sender = None"
  shows "receivers_inv (start_receiver sender m)"
proof -
  have w: "w_mode (start_receiver sender m) = (w_mode m)(sender \<mapsto> REPLMODE_DISABLED)"
    by (simp add: start_receiver_def)
  show ?thesis
    using assms unfolding receivers_inv_def w in_mode_start [OF assms(4) MtmReplicationMode.distinct(2)]
      in_mode_start [OF assms(4) MtmReplicationMode.distinct(4)]
    by (simp add: start_receiver_def)
qed

lemma register_receiver_inv:
  assumes "receivers_inv m" and "w_mode m sender = Some REPLMODE_DISABLED"
  shows "receivers_inv (register_receiver sender mode m)"
proof (cases "may_start mode m")
  case True
  have s: "1 \<le> sender" "sender \<le> int MTM_MAX_NODES" "sender \<notin> in_mode mode m"
    and none: "in_mode REPLMODE_RECOVERY m = {}"
    and mode: "mode = REPLMODE_RECOVERY \<and> in_mode REPLMODE_NORMAL m = {} \<or> mode = REPLMODE_NORMAL"
    using assms True in_mode_finite [OF assms(1)] unfolding receivers_inv_def may_start_def
    by (auto simp: in_mode_def)
  let ?m = "register_receiver sender mode m"
  have w: "w_mode ?m = (w_mode m)(sender \<mapsto> mode)" "walreceiver_proc ?m = walreceiver_proc m"
      "nreceivers_recovery ?m = nreceivers_recovery m + (if mode = REPLMODE_RECOVERY then 1 else 0)"
      "nreceivers_normal ?m = nreceivers_normal m + (if mode = REPLMODE_RECOVERY then 0 else 1)"
      "receiver_mode ?m = (receiver_mode m)(sender := mode)" "walreceivers_mask ?m = BIT_SET (walreceivers_mask m) (nat (sender - 1))"
    using True by (simp_all add: register_receiver_def)
  have i: "in_mode REPLMODE_RECOVERY ?m = (if mode = REPLMODE_RECOVERY then insert sender (in_mode mode m) else in_mode REPLMODE_RECOVERY m)"
      "in_mode REPLMODE_NORMAL ?m = (if mode = REPLMODE_NORMAL then insert sender (in_mode mode m) else in_mode REPLMODE_NORMAL m)"
    using in_mode_register [OF assms(2) True] by auto
  show ?thesis
    using assms s none mode in_mode_finite [OF assms(1), of mode] unfolding receivers_inv_def w i
    by (auto simp: mask_simps nat_pred_inj)
next
  case False
  then show ?thesis using assms(1) by (simp add: register_receiver_def)
qed

lemma exit_receiver_inv:
  assumes "receivers_inv m" and "w_mode m sender \<noteq> None"
  shows "receivers_inv (pglogical_receiver_at_exit sender m)"
proof -
  have s: "1 \<le> sender" using assms by (auto simp: receivers_inv_def)
  let ?m = "pglogical_receiver_at_exit sender m"
  have w: "w_mode ?m = (w_mode m)(sender := None)" "walreceiver_proc ?m = (walreceiver_proc m)(sender := False)"
      "nreceivers_recovery ?m = nreceivers_recovery m - (if w_mode m sender = Some REPLMODE_RECOVERY then 1 else 0)"
      "nreceivers_normal ?m = nreceivers_normal m - (if w_mode m sender = Some REPLMODE_NORMAL then 1 else 0)"
      "receiver_mode ?m = receiver_mode m" "walreceivers_mask ?m = BIT_CLEAR (walreceivers_mask m) (nat (sender - 1))"
    by (simp_all add: pglogical_receiver_at_exit_def)
  have c: "int (card (in_mode mode (pglogical_receiver_at_exit sender m))) =
      int (card (in_mode mode m)) - (if w_mode m sender = Some mode then 1 else 0)" for mode
  proof (cases "w_mode m sender = Some mode")
    case True
    then have "sender \<in> in_mode mode m" by (simp add: in_mode_def)
    from card.remove [OF in_mode_finite [OF assms(1)] this] True show ?thesis by (simp add: in_mode_exit)
  next
    case False
    then have "in_mode mode m - {sender} = in_mode mode m" by (auto simp: in_mode_def)
    with False show ?thesis by (simp add: in_mode_exit)
  qed
  have le: "card (in_mode REPLMODE_RECOVERY ?m) \<le> card (in_mode REPLMODE_RECOVERY m)"
    unfolding in_mode_exit by (rule card_Diff1_le)
  have inv: "in_mode mode m = {} \<Longrightarrow> in_mode mode ?m = {}" for mode by (simp add: in_mode_exit)
  show ?thesis
    using assms(1) s c [of REPLMODE_RECOVERY] c [of REPLMODE_NORMAL] le inv unfolding receivers_inv_def w
    by (auto simp: mask_simps nat_pred_inj)
qed

interpretation recvs: inductive_invariant receivers_step receivers_inv
proof
  fix m m'
  assume "receivers_inv m" "receivers_step m m'"
  from this(2,1) show "receivers_inv m'"
    by cases (simp_all add: start_receiver_inv register_receiver_inv exit_receiver_inv)
qed

lemma no_receivers_inv: "receivers_inv no_receivers"
  by (simp add: receivers_inv_def no_receivers_def in_mode_def)

lemma in_mode_card: "receivers_inv m \<Longrightarrow> card (in_mode mode m) = 0 \<longleftrightarrow> (\<forall>b. w_mode m b \<noteq> Some mode)"
  using in_mode_finite [of m mode] by (auto simp: in_mode_def)

text \<open>
  C19. However receivers start, try to work and exit: one that works in recovery works alone, and one
  that has started gets to work in the mode it asks for exactly when no receiver works in recovery
  and, if it asks for recovery itself, none in normal mode either.
\<close>

theorem receivers_exclusive:
  assumes "receivers_step\<^sup>*\<^sup>* no_receivers m"
  shows "(\<forall>a b. w_mode m a = Some REPLMODE_RECOVERY \<and> b \<noteq> a \<longrightarrow> w_mode m b \<in> {None, Some REPLMODE_DISABLED}) \<and>
    (\<forall>sender mode. w_mode m sender = Some REPLMODE_DISABLED \<and> mode \<noteq> REPLMODE_DISABLED \<longrightarrow>
       (w_mode (register_receiver sender mode m) sender = Some mode \<longleftrightarrow>
        (\<forall>b. w_mode m b \<noteq> Some REPLMODE_RECOVERY) \<and>
        (mode = REPLMODE_RECOVERY \<longrightarrow> (\<forall>b. w_mode m b \<noteq> Some REPLMODE_NORMAL))))"
proof (intro conjI allI impI)
  have inv: "receivers_inv m" by (rule recvs.reachable [OF assms no_receivers_inv])
  fix a b
  assume a: "w_mode m a = Some REPLMODE_RECOVERY \<and> b \<noteq> a"
  then have r: "a \<in> in_mode REPLMODE_RECOVERY m" by (simp add: in_mode_def)
  then have "in_mode REPLMODE_NORMAL m = {}" "card (in_mode REPLMODE_RECOVERY m) \<le> 1"
    using inv by (auto simp: receivers_inv_def)
  then have "b \<notin> in_mode REPLMODE_NORMAL m" "b \<notin> in_mode REPLMODE_RECOVERY m"
    using a r in_mode_finite [OF inv, of REPLMODE_RECOVERY] by (auto simp: card_le_Suc0_iff_eq)
  then show "w_mode m b \<in> {None, Some REPLMODE_DISABLED}"
    by (cases "w_mode m b") (auto simp: in_mode_def intro: MtmReplicationMode.exhaust)
next
  have inv: "receivers_inv m" by (rule recvs.reachable [OF assms no_receivers_inv])
  fix sender mode
  assume s: "w_mode m sender = Some REPLMODE_DISABLED \<and> mode \<noteq> REPLMODE_DISABLED"
  have "w_mode (register_receiver sender mode m) sender = Some mode \<longleftrightarrow> may_start mode m"
    using s by (auto simp: register_receiver_def)
  also have "\<dots> \<longleftrightarrow> (\<forall>b. w_mode m b \<noteq> Some REPLMODE_RECOVERY) \<and>
        (mode = REPLMODE_RECOVERY \<longrightarrow> (\<forall>b. w_mode m b \<noteq> Some REPLMODE_NORMAL))"
    using s inv unfolding in_mode_card [OF inv, symmetric] by (cases mode) (auto simp: may_start_def receivers_inv_def)
  finally show "w_mode (register_receiver sender mode m) sender = Some mode \<longleftrightarrow>
        (\<forall>b. w_mode m b \<noteq> Some REPLMODE_RECOVERY) \<and>
        (mode = REPLMODE_RECOVERY \<longrightarrow> (\<forall>b. w_mode m b \<noteq> Some REPLMODE_NORMAL))" .
qed

definition donor_and_waiting :: receivers where
  "donor_and_waiting = start_receiver 3 (register_receiver 2 REPLMODE_RECOVERY (start_receiver 2 no_receivers))"

theorem receivers_exclusive_witness:
  "receivers_step\<^sup>*\<^sup>* no_receivers donor_and_waiting \<and> w_mode donor_and_waiting 2 = Some REPLMODE_RECOVERY \<and>
   w_mode (register_receiver 3 REPLMODE_NORMAL donor_and_waiting) 3 = Some REPLMODE_DISABLED"
proof (intro conjI)
  let ?a = "start_receiver 2 no_receivers" and ?b = "register_receiver 2 REPLMODE_RECOVERY (start_receiver 2 no_receivers)"
  have "receivers_step no_receivers ?a" by (rule recv_starts) (simp_all add: no_receivers_def)
  moreover have "receivers_step ?a ?b" by (rule recv_registers) (simp add: start_receiver_def)
  moreover have "receivers_step ?b donor_and_waiting"
    unfolding donor_and_waiting_def
    by (rule recv_starts) (simp_all add: no_receivers_def register_receiver_def start_receiver_def)
  ultimately show run: "receivers_step\<^sup>*\<^sup>* no_receivers donor_and_waiting"
    by (meson rtranclp.rtrancl_into_rtrancl rtranclp.rtrancl_refl)
  show rec: "w_mode donor_and_waiting 2 = Some REPLMODE_RECOVERY"
    by (simp add: donor_and_waiting_def start_receiver_def register_receiver_def may_start_def no_receivers_def)
  moreover have dis: "w_mode donor_and_waiting 3 = Some REPLMODE_DISABLED"
    by (simp add: donor_and_waiting_def start_receiver_def)
  ultimately have "w_mode (register_receiver 3 REPLMODE_NORMAL donor_and_waiting) 3 \<noteq> Some REPLMODE_NORMAL"
    using receivers_exclusive [OF run] by (metis MtmReplicationMode.distinct(3))
  then show "w_mode (register_receiver 3 REPLMODE_NORMAL donor_and_waiting) 3 = Some REPLMODE_DISABLED"
    using dis by (simp add: register_receiver_def split: if_splits)
qed


section \<open>Where a receiver starts\<close>

text \<open>
  Once it may work, a receiver loads the synchronization points and the filter of its mode and
  decides from where on it reads. A node made from a base backup has no synchronization points yet:
  it recovers from the end of the backup, with the filter of its sender for all nodes. Here \<open>sprows\<close>
  is what the query for the point of the sender returns, \<open>allrows\<close> that for all nodes and \<open>hrow\<close> that
  for the recovery horizon.
\<close>

definition after_backup :: "MtmConfig \<Rightarrow> int \<Rightarrow> Syncpoint \<Rightarrow> Syncpoint list" where
  "after_backup cfg sender sp =
     foldl (\<lambda>v n. let i = nat (node_id n - 1) in v[i := (v ! i)\<lparr>sp_local_lsn := sp_local_lsn sp\<rparr>])
       ((replicate MTM_MAX_NODES zero_syncpoint)[nat (sender - 1) := sp]) (nodes cfg)"

definition load_filters ::
  "wal_source \<Rightarrow> XLogRecPtr \<Rightarrow> MtmConfig \<Rightarrow> int \<Rightarrow> MtmReplicationMode \<Rightarrow> (XLogRecPtr \<times> XLogRecPtr option) list \<Rightarrow>
   (int \<times> XLogRecPtr \<times> XLogRecPtr option) list \<Rightarrow> XLogRecPtr option \<Rightarrow> sp_err + (Syncpoint list \<times> XLogRecPtr \<times> filter_map)" where
  "load_filters w last_lsn cfg sender mode sprows allrows hrow =
     (if mode = REPLMODE_RECOVERY
      then if backup_node_id cfg > 0
           then sbind (SyncpointGetLatest sprows sender) (\<lambda>sp.
                let spvector = after_backup cfg sender sp
                in sbind (RecoveryFilterLoad w last_lsn MtmInvalidNodeId spvector cfg) (\<lambda>filter_map.
                     if backup_end_lsn cfg = InvalidXLogRecPtr then Inl Sp_assert
                     else Inr (spvector, backup_end_lsn cfg, filter_map)))
           else sbind (SyncpointGetAllLatest allrows) (\<lambda>spvector.
                sbind (RecoveryFilterLoad w last_lsn MtmInvalidNodeId spvector cfg) (\<lambda>filter_map.
                sbind (GetRecoveryHorizon hrow) (\<lambda>remote_start. Inr (spvector, remote_start, filter_map))))
      else sbind (SyncpointGetLatest sprows sender) (\<lambda>sp.
           let spvector = (replicate MTM_MAX_NODES zero_syncpoint)[nat (sender - 1) := sp]
           in sbind (RecoveryFilterLoad w last_lsn sender spvector cfg) (\<lambda>filter_map.
                Inr (spvector, sp_origin_lsn sp, filter_map))))"

lemma load_filters_map:
  assumes "load_filters w last_lsn cfg sender mode sprows allrows hrow = Inr (spvector, remote_start, fmap)"
  shows "RecoveryFilterLoad w last_lsn (if mode = REPLMODE_RECOVERY then MtmInvalidNodeId else sender) spvector cfg = Inr fmap"
  using assms by (auto simp: load_filters_def sbind_Inr_iff Let_def split: if_splits)

lemma load_filters_start:
  assumes "load_filters w last_lsn cfg sender mode sprows allrows hrow = Inr (spvector, remote_start, fmap)"
    and "mode \<noteq> REPLMODE_RECOVERY"
  shows "\<exists>sp. spv spvector sender = Some sp \<and> remote_start = sp_origin_lsn sp"
proof -
  from assms obtain sp where "SyncpointGetLatest sprows sender = Inr sp" "remote_start = sp_origin_lsn sp"
      "spvector = (replicate MTM_MAX_NODES zero_syncpoint)[nat (sender - 1) := sp]"
    by (auto simp: load_filters_def sbind_Inr_iff Let_def)
  moreover from this(1) have "0 < sender" "sender \<le> int MTM_MAX_NODES"
    by (auto simp: SyncpointGetLatest_def split: if_splits)
  ultimately show ?thesis by (auto simp: spv_def nth_opt_def)
qed

lemma filter_start_le:
  assumes "spv spvector nid = Some sp" and "sp_local_lsn sp \<noteq> InvalidXLogRecPtr"
  shows "filter_start spvector \<le> sp_local_lsn sp"
proof -
  let ?f = "\<lambda>start sp. if start > sp_local_lsn sp \<and> sp_local_lsn sp \<noteq> InvalidXLogRecPtr then sp_local_lsn sp else start"
  have le: "foldl ?f a sps \<le> a" for a sps
  proof (induction sps arbitrary: a)
    case (Cons s sps)
    have "foldl ?f (?f a s) sps \<le> ?f a s" by (rule Cons.IH)
    also have "\<dots> \<le> a" by (auto intro: order.strict_implies_order)
    finally show ?case by simp
  qed simp
  have "sp \<in> set sps \<Longrightarrow> foldl ?f a sps \<le> sp_local_lsn sp" for a sps
  proof (induction sps arbitrary: a)
    case (Cons s sps)
    show ?case
    proof (cases "sp = s")
      case True
      have "foldl ?f (?f a s) sps \<le> ?f a s" by (rule le)
      also have "\<dots> \<le> sp_local_lsn sp" using True assms(2) by auto
      finally show ?thesis by simp
    qed (use Cons in simp)
  qed simp
  then show ?thesis
    using assms(1) by (auto simp: filter_start_def spv_def nth_opt_def split: if_splits)
qed

text \<open>The records a receiver has looked at before it reads the first message.\<close>

definition records_seen :: "wal_source \<Rightarrow> XLogRecPtr \<Rightarrow> Syncpoint list \<Rightarrow> wal_entry list" where
  "records_seen w last_lsn spvector =
     scanned_records last_lsn (fst (wal_from w (skip_page_header w (filter_start spvector))))"

lemma RecoveryFilterLoad_mem:
  assumes "RecoveryFilterLoad w last_lsn fnode spvector cfg = Inr fmap" and "spv spvector nid = Some sp"
    and "sp_local_lsn sp \<noteq> InvalidXLogRecPtr" and "sp_local_lsn sp \<noteq> - 1" and "fnode = MtmInvalidNodeId \<or> fnode = nid"
  shows "(nid, lsn) \<in> set fmap \<longleftrightarrow>
    (\<exists>r\<in>set (records_seen w last_lsn spvector). record_of cfg nid lsn r) \<and> sp_origin_lsn sp < lsn"
proof -
  have "filter_start spvector \<noteq> - 1"
    using filter_start_le [OF assms(2,3)] assms(4) by (metis word_order.extremum_uniqueI)
  with assms(1) obtain rs err where "wal_from w (skip_page_header w (filter_start spvector)) = (rs, err)"
      "filter_scan fnode spvector cfg last_lsn rs err [] = Inr fmap"
    by (auto simp: RecoveryFilterLoad_def Let_def split: if_splits prod.splits)
  then show ?thesis
    using filter_scan_mem [of fnode spvector cfg last_lsn rs err "[]" fmap nid lsn] assms(2,5)
    by (auto simp: records_seen_def)
qed

text \<open>
  C17. What a receiver skips. Of a transaction of another node that has a synchronization point it
  skips exactly those at or before that point and those whose record of ending or preparing it found
  in its own WAL, read from the first local position of all points on. In normal mode it starts
  reading at the point of its sender. Transactions of nodes without a point and its own are skipped
  always.
\<close>

theorem filter_exact:
  assumes "load_filters w last_lsn cfg sender mode sprows allrows hrow = Inr (spvector, remote_start, fmap)"
    and "spv spvector origin = Some sp" and "origin \<noteq> MtmInvalidNodeId" and "sp_local_lsn sp \<noteq> - 1"
    and "mode = REPLMODE_RECOVERY \<or> origin = sender"
  shows "filter_decision me spvector fmap origin lsn = Inr (sp_local_lsn sp = InvalidXLogRecPtr \<or> origin = me \<or>
      lsn \<le> sp_origin_lsn sp \<or> (\<exists>r\<in>set (records_seen w last_lsn spvector). record_of cfg origin lsn r)) \<and>
    (sp_local_lsn sp \<noteq> InvalidXLogRecPtr \<longrightarrow> filter_start spvector \<le> sp_local_lsn sp) \<and>
    (mode \<noteq> REPLMODE_RECOVERY \<longrightarrow> remote_start = sp_origin_lsn sp)"
proof (intro conjI impI)
  show "filter_decision me spvector fmap origin lsn = Inr (sp_local_lsn sp = InvalidXLogRecPtr \<or> origin = me \<or>
      lsn \<le> sp_origin_lsn sp \<or> (\<exists>r\<in>set (records_seen w last_lsn spvector). record_of cfg origin lsn r))"
  proof (cases "sp_local_lsn sp = InvalidXLogRecPtr")
    case False
    from RecoveryFilterLoad_mem [OF load_filters_map [OF assms(1)] assms(2) False assms(4), of lsn] assms(5)
    have "(origin, lsn) \<in> set fmap \<longleftrightarrow>
        (\<exists>r\<in>set (records_seen w last_lsn spvector). record_of cfg origin lsn r) \<and> sp_origin_lsn sp < lsn"
      by auto
    then show ?thesis using assms(2,3) False by (auto simp: filter_decision_def linorder_not_le)
  qed (use assms(2,3) in \<open>simp add: filter_decision_def\<close>)
  show "filter_start spvector \<le> sp_local_lsn sp" if "sp_local_lsn sp \<noteq> InvalidXLogRecPtr"
    by (rule filter_start_le [OF assms(2) that])
  show "remote_start = sp_origin_lsn sp" if "mode \<noteq> REPLMODE_RECOVERY"
    using load_filters_start [OF assms(1) that] assms(2,5) that by auto
qed

definition a_log :: wal_source where
  "a_log = \<lparr>wal_from = (\<lambda>_. ([\<lparr>we_origin = 5, we_xact = Some 300, we_end = 900\<rparr>, \<lparr>we_origin = 0, we_xact = Some 400, we_end = 1000\<rparr>], False)),
     wal_blcksz = 8192, wal_segment = 16777216, wal_long_phd = 40, wal_short_phd = 24\<rparr>"

definition a_config :: MtmConfig where
  "a_config = \<lparr>my_node_id = 1, backup_node_id = 0, backup_end_lsn = 0,
     nodes = [\<lparr>node_id = 2, conninfo = [], origin_id = 5, init_done = True\<rparr>], cfg_mask = 3\<rparr>"

definition a_point :: Syncpoint where
  "a_point = \<lparr>sp_origin_lsn = 200, sp_local_lsn = 800\<rparr>"

definition some_points :: "Syncpoint list" where
  "some_points = (replicate MTM_MAX_NODES zero_syncpoint)[nat (2 - 1) := a_point]"

lemma some_points_spv: "spv some_points 2 = Some a_point"
  by (simp add: some_points_def spv_def nth_opt_def)

lemma some_points_start: "filter_start some_points = 800"
proof -
  have z: "foldl (\<lambda>start sp. if start > sp_local_lsn sp \<and> sp_local_lsn sp \<noteq> InvalidXLogRecPtr then sp_local_lsn sp else start)
      a (replicate n zero_syncpoint) = a" for a n
    by (induction n) (simp_all add: zero_syncpoint_def)
  have eq: "some_points = replicate 1 zero_syncpoint @ a_point # replicate 14 zero_syncpoint"
    by (simp add: some_points_def list_update_append numeral_eq_Suc)
  show ?thesis unfolding filter_start_def eq foldl_append foldl_Cons z by (simp add: a_point_def)
qed

lemma some_points_loaded:
  "load_filters a_log 1000 a_config 2 REPLMODE_NORMAL [(200, Some 800)] [] None = Inr (some_points, 200, [(2, 300)])"
proof -
  have "load_filters a_log 1000 a_config 2 REPLMODE_NORMAL [(200, Some 800)] [] None =
      sbind (RecoveryFilterLoad a_log 1000 2 some_points a_config) (\<lambda>fm. Inr (some_points, 200, fm))"
    by (simp add: load_filters_def SyncpointGetLatest_def some_points_def a_point_def Let_def)
  also have "RecoveryFilterLoad a_log 1000 2 some_points a_config = Inr [(2, 300)]"
    by (simp add: RecoveryFilterLoad_def some_points_start some_points_spv a_log_def a_config_def filter_entry_def
      origin_id_to_node_id_def a_point_def)
  finally show ?thesis by simp
qed

theorem filter_exact_witness:
  "\<exists>fmap. load_filters a_log 1000 a_config 2 REPLMODE_NORMAL [(200, Some 800)] [] None = Inr (some_points, 200, fmap) \<and>
   filter_decision 1 some_points fmap 2 300 = Inr True \<and> filter_decision 1 some_points fmap 2 400 = Inr False"
proof -
  have r: "set (records_seen a_log 1000 some_points) =
      {\<lparr>we_origin = 5, we_xact = Some 300, we_end = 900\<rparr>, \<lparr>we_origin = 0, we_xact = Some 400, we_end = 1000\<rparr>}"
    by (simp add: records_seen_def a_log_def)
  have d: "filter_decision 1 some_points [(2, 300)] 2 lsn = Inr (sp_local_lsn a_point = InvalidXLogRecPtr \<or> 2 = (1 :: int) \<or>
      lsn \<le> sp_origin_lsn a_point \<or> (\<exists>r\<in>set (records_seen a_log 1000 some_points). record_of a_config 2 lsn r))" for lsn
    by (rule filter_exact [OF some_points_loaded some_points_spv, THEN conjunct1]) (simp_all add: a_point_def)
  have "filter_decision 1 some_points [(2, 300)] 2 300 = Inr True" "filter_decision 1 some_points [(2, 300)] 2 400 = Inr False"
    unfolding d r by (simp_all add: record_of_def a_config_def origin_id_to_node_id_def a_point_def)
  then show ?thesis using some_points_loaded by blast
qed

end
