(* ===== verification/Pglogical_Replay.thy ===== *)
theory Pglogical_Replay
  imports Pglogical_Trip Pglogical_Output Pglogical_Receiver
begin

text \<open>
  A transaction from the log of one node to the tables of another: decoded by the output plugin,
  sent as messages, collected and possibly spilled by the receiver, applied by the executor.
\<close>

section \<open>What a transaction is to the receiver\<close>

definition Ch_rel_ok :: "catalogue \<Rightarrow> catalogue \<Rightarrow> relation \<Rightarrow> (relation \<Rightarrow> bool) \<Rightarrow> bool" where
  "Ch_rel_ok cat cat' rel P \<longleftrightarrow>
     (case peer_rel cat' rel of None \<Rightarrow> False | Some rel' \<Rightarrow> rel_ok cat cat' rel rel' \<and> P rel')"

text \<open>
  The relations of the changes are tables known to both nodes with matching columns. Rows of the
  table of local tables are left out: the executor treats them specially.
\<close>

fun change_ok :: "catalogue \<Rightarrow> catalogue \<Rightarrow> bool \<Rightarrow> (Oid \<Rightarrow> bool) \<Rightarrow> change \<Rightarrow> bool" where
  "change_ok cat cat' wb lcl (Ch_insert rel tup) \<longleftrightarrow> lcl (rel_oid rel) \<or>
     rel_relkind rel = CHR ''r'' \<and>
     Ch_rel_ok cat cat' rel (\<lambda>rel'. row_ok cat cat' wb rel rel' tup \<and> \<not> LOCAL_TABLES rel')"
| "change_ok cat cat' wb lcl (Ch_update rel old tup) \<longleftrightarrow> lcl (rel_oid rel) \<or>
     rel_relkind rel = CHR ''r'' \<and>
     Ch_rel_ok cat cat' rel (\<lambda>rel'. row_ok cat cat' wb rel rel' tup \<and> rel_relkind rel' = CHR ''r'' \<and>
       (case old of None \<Rightarrow> True | Some o' \<Rightarrow> row_ok cat cat' wb rel rel' o'))"
| "change_ok cat cat' wb lcl (Ch_delete rel old) \<longleftrightarrow> lcl (rel_oid rel) \<or>
     rel_relkind rel = CHR ''r'' \<and>
     Ch_rel_ok cat cat' rel (\<lambda>rel'. case old of None \<Rightarrow> True | Some o' \<Rightarrow> row_ok cat cat' wb rel rel' o')"
| "change_ok cat cat' wb lcl (Ch_message lsn prefix (Text body)) \<longleftrightarrow>
     prefix \<in> {CHR ''D'', CHR ''E'', CHR ''B''} \<and> length body < 2 ^ 32"
| "change_ok cat cat' wb lcl (Ch_message lsn prefix (MtmSeqPosition seqid nxt)) \<longleftrightarrow>
     prefix = CHR ''N'' \<and>
     (case table_open cat seqid of None \<Rightarrow> False
      | Some rel \<Rightarrow> rel_relkind rel = CHR ''S'' \<and> Ch_rel_ok cat cat' rel (\<lambda>_. True))"
| "change_ok cat cat' wb lcl (Ch_message lsn prefix (MtmCopyRequest t n)) \<longleftrightarrow> False"

text \<open>
  The requests a change amounts to. While a command of the data definition language is replayed,
  between its message and the end mark, the rows it touches are not sent: the receiver makes them
  when it executes the command.
\<close>

definition on_peer :: "catalogue \<Rightarrow> relation \<Rightarrow> (relation \<Rightarrow> dbop) \<Rightarrow> dbop list" where
  "on_peer cat' rel f = (case peer_rel cat' rel of None \<Rightarrow> [] | Some rel' \<Rightarrow> [f rel'])"

fun change_ops :: "catalogue \<Rightarrow> catalogue \<Rightarrow> (Oid \<Rightarrow> bool) \<Rightarrow> bool \<Rightarrow> change \<Rightarrow> dbop list" where
  "change_ops cat cat' lcl ddl (Ch_insert rel tup) =
     (if lcl (rel_oid rel) \<or> ddl then []
      else on_peer cat' rel (\<lambda>rel'. Insert (rel_oid rel') (tuple_to_slot (received_row rel tup))))"
| "change_ops cat cat' lcl ddl (Ch_update rel old tup) =
     (if lcl (rel_oid rel) \<or> ddl then []
      else on_peer cat' rel (\<lambda>rel'. Update (rel_oid rel') (search_index cat' (rel_oid rel'))
        (tuple_to_slot (received_row rel (case old of None \<Rightarrow> tup | Some o' \<Rightarrow> o'))) (received_row rel tup)))"
| "change_ops cat cat' lcl ddl (Ch_delete rel None) = []"
| "change_ops cat cat' lcl ddl (Ch_delete rel (Some old)) =
     (if lcl (rel_oid rel) \<or> ddl then []
      else on_peer cat' rel (\<lambda>rel'. Delete (rel_oid rel') (search_index cat' (rel_oid rel'))
        (tuple_to_slot (received_row rel old))))"
| "change_ops cat cat' lcl ddl (Ch_message lsn prefix (Text body)) =
     (if prefix = CHR ''D'' then [DDL True body] else [])"
| "change_ops cat cat' lcl ddl (Ch_message lsn prefix (MtmSeqPosition seqid nxt)) =
     (if ddl then []
      else case table_open cat seqid of None \<Rightarrow> []
           | Some rel \<Rightarrow> on_peer cat' rel (\<lambda>rel'. AdjustSequence (rel_oid rel') nxt))"
| "change_ops cat cat' lcl ddl (Ch_message lsn prefix (MtmCopyRequest t n)) = []"

fun ddl_after :: "bool \<Rightarrow> change \<Rightarrow> bool" where
  "ddl_after ddl (Ch_message lsn prefix message) =
     (if prefix = CHR ''D'' then True else if prefix = CHR ''E'' then False else ddl)"
| "ddl_after ddl _ = ddl"

fun txn_ops :: "catalogue \<Rightarrow> catalogue \<Rightarrow> (Oid \<Rightarrow> bool) \<Rightarrow> bool \<Rightarrow> change list \<Rightarrow> dbop list" where
  "txn_ops cat cat' lcl ddl [] = []"
| "txn_ops cat cat' lcl ddl (ch # chs) =
     change_ops cat cat' lcl ddl ch @ txn_ops cat cat' lcl (ddl_after ddl ch) chs"

section \<open>Messages made of whole records\<close>

definition frames :: "protoformat \<Rightarrow> bytes list \<Rightarrow> wrec list \<Rightarrow> out_ctx \<Rightarrow> bool" where
  "frames pf before ws c \<longleftrightarrow> prepared_write c \<and>
     (\<exists>gs g. sent c = before @ map (encs pf) gs \<and> out c = encs pf g \<and> ws = concat gs @ g)"

lemma framesI:
  "prepared_write c \<Longrightarrow> sent c = before @ map (encs pf) gs \<Longrightarrow> out c = encs pf g \<Longrightarrow> ws = concat gs @ g \<Longrightarrow>
    frames pf before ws c"
  by (auto simp: frames_def)

lemma prepare_frames:
  assumes "plugin_ok pl" and "frames pf before ws c"
  shows "frames pf before ws (MtmOutputPluginPrepareWrite pl False c)"
proof -
  obtain gs g where c: "prepared_write c" "sent c = before @ map (encs pf) gs" "out c = encs pf g" "ws = concat gs @ g"
    using assms(2) by (auto simp: frames_def)
  show ?thesis
  proof (cases "length (out c) > OUTPUT_BUFFER_SIZE")
    case True
    then show ?thesis
      using assms(1) c
      by (intro framesI [where gs = "gs @ [g]" and g = "[]"])
        (simp_all add: MtmOutputPluginPrepareWrite_def plugin_ok_def)
  next
    case False
    then show ?thesis using assms(2) c(1) by (simp add: MtmOutputPluginPrepareWrite_def)
  qed
qed

lemma put_frames:
  assumes "plugin_ok (de_api de)" and "frames pf before ws (dc_ctx d)"
    and "f (dc_snd d) = Inr (encs pf ws', s')"
  obtains d' where "put de False False f d = Inr d'" and "frames pf before (ws @ ws') (dc_ctx d')"
    and "dc_snd d' = s'" and "startup_message_sent d' = startup_message_sent d"
proof -
  let ?c = "MtmOutputPluginPrepareWrite (de_api de) False (dc_ctx d)"
  have "frames pf before ws ?c" by (rule prepare_frames [OF assms(1,2)])
  then obtain gs g where c: "prepared_write ?c" "sent ?c = before @ map (encs pf) gs" "out ?c = encs pf g"
      "ws = concat gs @ g"
    by (auto simp: frames_def)
  then have "frames pf before (ws @ ws') (?c\<lparr>out := out ?c @ encs pf ws'\<rparr>)"
    by (intro framesI [where gs = gs and g = "g @ ws'"]) simp_all
  then show thesis
    using assms(3)
    by (intro that [of "d\<lparr>dc_ctx := ?c\<lparr>out := out ?c @ encs pf ws'\<rparr>, dc_snd := s'\<rparr>"]) (auto simp: put_def MtmOutputPluginWrite_def Let_def)
qed

lemma rec_steps_tx: "rec_steps pf env st ws st' \<Longrightarrow> ex_tx st \<Longrightarrow> ex_tx st'"
proof (induction rule: rec_steps.induct)
  case (more_recs st w st1 ws st2)
  from more_recs.hyps(1) more_recs.prems have "ex_tx st1" by cases (simp_all add: emit_op_def)
  with more_recs.IH show ?case by blast
qed

section \<open>Decoding and applying in step\<close>

text \<open>
  The records decoded so far lead the applier from its first state to \<open>st\<close>, and there it agrees with
  the sender.
\<close>

definition following ::
  "decode_env \<Rightarrow> apply_env \<Rightarrow> bytes list \<Rightarrow> exec \<Rightarrow> wrec list \<Rightarrow> decoder \<Rightarrow> exec \<Rightarrow> bool" where
  "following de env before st0 ws d st \<longleftrightarrow> frames (de_pf de) before ws (dc_ctx d) \<and>
     rec_steps (de_pf de) env st0 ws st \<and> in_step (de_cat de) (ae_cat env) (dc_snd d) st \<and> ex_tx st"

abbreviation d_ddl :: "decoder \<Rightarrow> bool" where
  "d_ddl d \<equiv> DDLInProgress (dc_snd d)"

lemma in_step_count [simp]: "in_step cat cat' (count_record s) st = in_step cat cat' s st"
  "DDLInProgress (count_record s) = DDLInProgress s"
  by (simp_all add: in_step_def sender_ok_def count_record_def)

lemma in_step_emit [simp]: "in_step cat cat' s (emit_op op st) = in_step cat cat' s st"
  by (simp add: in_step_def)

lemma in_step_no_rel:
  "in_step cat cat' s st \<Longrightarrow>
   in_step cat cat' (s\<lparr>MtmLastRelId := InvalidOid, DDLInProgress := b\<rparr>) (st\<lparr>ex_rel := None, ex_bdr := b'\<rparr>)"
  by (simp add: in_step_def sender_ok_def rel_ok_def)

lemma follow_put:
  assumes "plugin_ok (de_api de)" and "following de env before st0 ws d st"
    and "f (dc_snd d) = Inr (encs (de_pf de) ws', s')" and "rec_steps (de_pf de) env st ws' st'"
    and "in_step (de_cat de) (ae_cat env) s' st'"
  obtains d' where "put de False False f d = Inr d'" and "following de env before st0 (ws @ ws') d' st'"
    and "dc_snd d' = s'" and "startup_message_sent d' = startup_message_sent d"
proof -
  have fr: "frames (de_pf de) before ws (dc_ctx d)" and rs: "rec_steps (de_pf de) env st0 ws st" and tx: "ex_tx st"
    using assms(2) by (simp_all add: following_def)
  from put_frames [of de "de_pf de" before ws d f ws' s', OF assms(1) fr assms(3)] obtain d' where d': "put de False False f d = Inr d'"
      "frames (de_pf de) before (ws @ ws') (dc_ctx d')" "dc_snd d' = s'"
      "startup_message_sent d' = startup_message_sent d"
    by blast
  then show thesis
    using that rec_steps_append [OF rs assms(4)] rec_steps_tx [OF assms(4) tx] assms(5) by (simp add: following_def)
qed

text \<open>Nothing is written and nothing changes that the applier would see.\<close>

lemma follow_put_nothing:
  assumes "plugin_ok (de_api de)" and "following de env before st0 ws d st"
    and "f (dc_snd d) = Inr ([], dc_snd d)"
  obtains d' where "put de False False f d = Inr d'" and "following de env before st0 ws d' st"
    and "dc_snd d' = dc_snd d" and "startup_message_sent d' = startup_message_sent d"
  using follow_put [OF assms(1,2), of f "[]" "dc_snd d" st] assms(2,3) no_rec
  by (auto simp: following_def)

lemma follow_rel:
  assumes "proto_ok (de_pf de)" and "plugin_ok (de_api de)" and "following de env before st0 ws d st"
    and "rel_ok (de_cat de) (ae_cat env) rel rel'" and "rel_relkind rel = CHR ''r''"
  obtains ws' d' st' where "put de False False (pglogical_write_rel (de_pf de) rel) d = Inr d'"
    and "following de env before st0 ws' d' st'" and "d_ddl d' = d_ddl d"
    and "startup_message_sent d' = startup_message_sent d" and "ex_ops st' = ex_ops st"
    and "\<not> d_ddl d \<longrightarrow> ex_rel st' = Some rel'"
proof (cases "d_ddl d")
  case True
  then have "pglogical_write_rel (de_pf de) rel (dc_snd d) = Inr ([], dc_snd d)"
    by (simp add: pglogical_write_rel_def)
  from follow_put_nothing [OF assms(2,3), of "pglogical_write_rel (de_pf de) rel", OF this]
  obtain d' where "put de False False (pglogical_write_rel (de_pf de) rel) d = Inr d'"
      "following de env before st0 ws d' st" "dc_snd d' = dc_snd d"
      "startup_message_sent d' = startup_message_sent d"
    by blast
  then show thesis using True by (intro that [of d' ws st]) simp_all
next
  case False
  have i: "in_step (de_cat de) (ae_cat env) (dc_snd d) st" using assms(3) by (simp add: following_def)
  from rel_trip [OF assms(1) i False assms(4) refl disjI1 [OF assms(5)]]
  obtain ws' s' st' where w: "pglogical_write_rel (de_pf de) rel (dc_snd d) = Inr (encs (de_pf de) ws', s')"
      "rec_steps (de_pf de) env st ws' st'" "in_step (de_cat de) (ae_cat env) s' st'" "ex_rel st' = Some rel'"
      "ex_ops st' = ex_ops st" "ex_bdr st' = ex_bdr st" "DDLInProgress s' = d_ddl d"
    by blast
  from follow_put [OF assms(2,3), of "pglogical_write_rel (de_pf de) rel", OF w(1,2,3)] obtain d' where
      "put de False False (pglogical_write_rel (de_pf de) rel) d = Inr d'"
      "following de env before st0 (ws @ ws') d' st'" "dc_snd d' = s'"
      "startup_message_sent d' = startup_message_sent d"
    by blast
  then show thesis using w by (intro that [of d' "ws @ ws'" st']) simp_all
qed

text \<open>A change of a row: the relation is described, then one record written that the applier understands.\<close>

lemma follow_row:
  assumes "proto_ok (de_pf de)" and "plugin_ok (de_api de)" and "following de env before st0 ws d st"
    and "rel_ok (de_cat de) (ae_cat env) rel rel'" and "rel_relkind rel = CHR ''r''" and "\<not> de_local de (rel_oid rel)"
    and "\<And>s. DDLInProgress s \<Longrightarrow> f s = Inr ([], s)"
    and "\<And>s st1. \<not> DDLInProgress s \<Longrightarrow> ex_rel st1 = Some rel' \<Longrightarrow>
       \<exists>ws1. f s = Inr (encs (de_pf de) ws1, count_record s) \<and> rec_steps (de_pf de) env st1 ws1 (emit_op op st1)"
  obtains ws' d' st' where "pg_decode_rel de rel (put de False False f) d = Inr d'"
    and "following de env before st0 ws' d' st'" and "d_ddl d' = d_ddl d"
    and "startup_message_sent d' = startup_message_sent d"
    and "ex_ops st' = ex_ops st @ (if d_ddl d then [] else [op])"
proof -
  from follow_rel [OF assms(1-5)] obtain ws1 d1 st1 where r:
      "put de False False (pglogical_write_rel (de_pf de) rel) d = Inr d1"
      "following de env before st0 ws1 d1 st1" "d_ddl d1 = d_ddl d"
      "startup_message_sent d1 = startup_message_sent d" "ex_ops st1 = ex_ops st"
      "\<not> d_ddl d \<longrightarrow> ex_rel st1 = Some rel'"
    by metis
  have dec: "pg_decode_rel de rel (put de False False f) d = put de False False f d1"
    using assms(6) r(1) by (simp add: pg_decode_rel_def MtmReplicationRowFilterHook_def)
  show thesis
  proof (cases "d_ddl d")
    case True
    then have "f (dc_snd d1) = Inr ([], dc_snd d1)" using assms(7) r(3) by simp
    from follow_put_nothing [OF assms(2) r(2), of f, OF this] obtain d2 where "put de False False f d1 = Inr d2"
        "following de env before st0 ws1 d2 st1" "dc_snd d2 = dc_snd d1"
        "startup_message_sent d2 = startup_message_sent d1"
      by blast
    then show thesis using True dec r by (intro that [of d2 ws1 st1]) simp_all
  next
    case False
    then obtain ws2 where w: "f (dc_snd d1) = Inr (encs (de_pf de) ws2, count_record (dc_snd d1))"
        "rec_steps (de_pf de) env st1 ws2 (emit_op op st1)"
      using assms(8) [of "dc_snd d1" st1] r(3,6) by auto
    have "in_step (de_cat de) (ae_cat env) (count_record (dc_snd d1)) (emit_op op st1)"
      using r(2) by (simp add: following_def)
    from follow_put [OF assms(2) r(2), of f, OF w this] obtain d2 where "put de False False f d1 = Inr d2"
        "following de env before st0 (ws1 @ ws2) d2 (emit_op op st1)" "dc_snd d2 = count_record (dc_snd d1)"
        "startup_message_sent d2 = startup_message_sent d1"
      by blast
    then show thesis using False dec r by (intro that [of d2 "ws1 @ ws2" "emit_op op st1"]) simp_all
  qed
qed

definition decoded_to ::
  "decode_env \<Rightarrow> apply_env \<Rightarrow> bytes list \<Rightarrow> exec \<Rightarrow> proto_err + decoder \<Rightarrow> decoder \<Rightarrow> exec \<Rightarrow> bool \<Rightarrow> dbop list \<Rightarrow> bool" where
  "decoded_to de env before st0 r d st ddl ops \<longleftrightarrow>
     (\<exists>ws' d' st'. r = Inr d' \<and> following de env before st0 ws' d' st' \<and> d_ddl d' = ddl \<and>
        startup_message_sent d' = startup_message_sent d \<and> ex_ops st' = ex_ops st @ ops)"

lemma decoded_toI:
  "r = Inr d' \<Longrightarrow> following de env before st0 ws' d' st' \<Longrightarrow> d_ddl d' = ddl \<Longrightarrow>
    startup_message_sent d' = startup_message_sent d \<Longrightarrow> ex_ops st' = ex_ops st @ ops \<Longrightarrow>
    decoded_to de env before st0 r d st ddl ops"
  unfolding decoded_to_def by blast

lemma follow_row_decoded:
  assumes "proto_ok (de_pf de)" and "plugin_ok (de_api de)" and "following de env before st0 ws d st"
    and "rel_ok (de_cat de) (ae_cat env) rel rel'" and "rel_relkind rel = CHR ''r''"
    and "\<And>s. DDLInProgress s \<Longrightarrow> f s = Inr ([], s)"
    and "\<And>s st1. \<not> DDLInProgress s \<Longrightarrow> ex_rel st1 = Some rel' \<Longrightarrow>
       \<exists>ws1. f s = Inr (encs (de_pf de) ws1, count_record s) \<and> rec_steps (de_pf de) env st1 ws1 (emit_op op st1)"
  shows "decoded_to de env before st0 (pg_decode_rel de rel (put de False False f) d) d st (d_ddl d)
    (if de_local de (rel_oid rel) \<or> d_ddl d then [] else [op])"
proof (cases "de_local de (rel_oid rel)")
  case True
  then show ?thesis
    using assms(3) by (auto simp: decoded_to_def pg_decode_rel_def MtmReplicationRowFilterHook_def)
next
  case False
  show ?thesis
  proof (rule follow_row [OF assms(1-5) False, where f = f and op = op])
    fix ws' d' st'
    assume "pg_decode_rel de rel (put de False False f) d = Inr d'" "following de env before st0 ws' d' st'"
      "d_ddl d' = d_ddl d" "startup_message_sent d' = startup_message_sent d"
      "ex_ops st' = ex_ops st @ (if d_ddl d then [] else [op])"
    then show ?thesis using False by (intro decoded_toI [where d' = d' and ws' = ws' and st' = st']) simp_all
  qed (fact assms(6,7))+
qed

lemma one_rec: "rec_step pf env st w st' \<Longrightarrow> rec_steps pf env st [w] st'"
  by (auto intro: more_recs no_rec)

lemma peer_of: "rel_ok cat cat' rel rel' \<Longrightarrow> peer_rel cat' rel = Some rel'"
  by (simp add: rel_ok_def)

lemma Ch_rel_okE:
  assumes "Ch_rel_ok cat cat' rel P"
  obtains rel' where "rel_ok cat cat' rel rel'" and "P rel'"
  using assms by (auto simp: Ch_rel_ok_def split: option.splits)

lemma insert_writes:
  assumes "proto_ok pf" and "row_ok cat (ae_cat env) wb rel rel' tup" and "\<not> LOCAL_TABLES rel'"
    and "\<not> DDLInProgress s" and "ex_rel st1 = Some rel'"
  shows "\<exists>ws1. pglogical_write_insert pf cat wb rel tup s = Inr (encs pf ws1, count_record s) \<and>
    rec_steps pf env st1 ws1 (emit_op (Insert (rel_oid rel') (tuple_to_slot (received_row rel tup))) st1)"
proof -
  obtain tb where "pglogical_write_tuple pf cat wb rel tup (count_record s) = Inr tb"
      "reads pf (ae_cat env) rel' tb (received_row rel tup)"
    using tuple_trip [OF assms(1,2), of "count_record s"] assms(4) by auto
  then show ?thesis
    using assms by (intro exI [of _ "[W_insert tb]"])
      (auto simp: pglogical_write_insert_def wire_simps intro: one_rec insert_row)
qed

lemma update_writes:
  assumes "proto_ok pf" and "row_ok cat (ae_cat env) wb rel rel' tup" and "rel_relkind rel' = CHR ''r''"
    and "case old of None \<Rightarrow> True | Some o' \<Rightarrow> row_ok cat (ae_cat env) wb rel rel' o'"
    and "\<not> DDLInProgress s" and "ex_rel st1 = Some rel'"
  shows "\<exists>ws1. pglogical_write_update pf cat wb rel old tup s = Inr (encs pf ws1, count_record s) \<and>
    rec_steps pf env st1 ws1 (emit_op (Update (rel_oid rel') (search_index (ae_cat env) (rel_oid rel'))
      (tuple_to_slot (received_row rel (case old of None \<Rightarrow> tup | Some o' \<Rightarrow> o'))) (received_row rel tup)) st1)"
proof -
  obtain tb where tb: "pglogical_write_tuple pf cat wb rel tup (count_record s) = Inr tb"
      "reads pf (ae_cat env) rel' tb (received_row rel tup)"
    using tuple_trip [OF assms(1,2), of "count_record s"] assms(5) by auto
  show ?thesis
  proof (cases old)
    case None
    then show ?thesis
      using assms tb by (intro exI [of _ "[W_update None tb]"])
        (auto simp: pglogical_write_update_def wire_simps intro: one_rec update_row)
  next
    case (Some o')
    then obtain kb where kb: "pglogical_write_tuple pf cat wb rel o' (count_record s) = Inr kb"
        "reads pf (ae_cat env) rel' kb (received_row rel o')"
      using tuple_trip [OF assms(1), of cat "ae_cat env" wb rel rel' o' "count_record s"] assms(4,5) by auto
    show ?thesis
      using assms tb kb Some by (intro exI [of _ "[W_update (Some kb) tb]"])
        (auto simp: pglogical_write_update_def wire_simps intro: one_rec update_key)
  qed
qed

lemma delete_writes:
  assumes "proto_ok pf" and "row_ok cat (ae_cat env) wb rel rel' tup"
    and "\<not> DDLInProgress s" and "ex_rel st1 = Some rel'"
  shows "\<exists>ws1. pglogical_write_delete pf cat wb rel tup s = Inr (encs pf ws1, count_record s) \<and>
    rec_steps pf env st1 ws1 (emit_op (Delete (rel_oid rel') (search_index (ae_cat env) (rel_oid rel'))
      (tuple_to_slot (received_row rel tup))) st1)"
proof -
  obtain tb where "pglogical_write_tuple pf cat wb rel tup (count_record s) = Inr tb"
      "reads pf (ae_cat env) rel' tb (received_row rel tup)"
    using tuple_trip [OF assms(1,2), of "count_record s"] assms(3) by auto
  then show ?thesis
    using assms by (intro exI [of _ "[W_delete tb]"])
      (auto simp: pglogical_write_delete_def wire_simps intro: one_rec delete_row)
qed

lemma follow_text:
  assumes "proto_ok (de_pf de)" and "plugin_ok (de_api de)" and "following de env before st0 ws d st"
    and "prefix \<in> {CHR ''D'', CHR ''E'', CHR ''B''}" and "length body < 2 ^ 32"
  shows "decoded_to de env before st0 (pg_decode_message de True lsn prefix (Text body) d) d st
    (ddl_after (d_ddl d) (Ch_message lsn prefix (Text body)))
    (change_ops cat cat' lcl (d_ddl d) (Ch_message lsn prefix (Text body)))"
proof -
  let ?f = "pglogical_write_message (de_pf de) (de_cat de) (de_want_binary de) (de_priv de) lsn prefix (Text body)"
  let ?ddl = "ddl_after (d_ddl d) (Ch_message lsn prefix (Text body))"
  let ?s = "(dc_snd d)\<lparr>MtmLastRelId := InvalidOid, DDLInProgress := ?ddl\<rparr>"
  let ?ws = "if prefix = CHR ''E'' then [] else [W_msg prefix lsn body]"
  let ?st = "if prefix = CHR ''E'' then st else if prefix = CHR ''D'' then emit_op (DDL True body) (st\<lparr>ex_rel := None\<rparr>)
     else st\<lparr>ex_rel := None, ex_bdr := True\<rparr>"
  have i: "in_step (de_cat de) (ae_cat env) (dc_snd d) st" using assms(3) by (simp add: following_def)
  have "in_step (de_cat de) (ae_cat env) ?s ?st"
    using i by (simp add: in_step_def sender_ok_def rel_ok_def)
  moreover have "?f (dc_snd d) = Inr (encs (de_pf de) ?ws, ?s)"
    using assms(1,4) by (auto simp: pglogical_write_message_def write_M_def wire_simps Let_def)
  moreover have "rec_steps (de_pf de) env st ?ws ?st"
    using assms(4) one_rec [OF ddl [OF assms(5)]] one_rec [OF bdr_like [OF assms(5)]] by (auto intro: no_rec)
  ultimately obtain d' where "put de False False ?f d = Inr d'" "following de env before st0 (ws @ ?ws) d' ?st"
      "dc_snd d' = ?s" "startup_message_sent d' = startup_message_sent d"
    using follow_put [OF assms(2,3), of ?f ?ws ?s ?st] by blast
  then show ?thesis
    using assms(4) by (intro decoded_toI [where d' = d' and st' = ?st and ws' = "ws @ ?ws"]) (auto simp: pg_decode_message_def)
qed

lemma follow_seq:
  assumes "proto_ok (de_pf de)" and "plugin_ok (de_api de)" and "following de env before st0 ws d st"
    and "table_open (de_cat de) seqid = Some rel" and "rel_relkind rel = CHR ''S''"
    and "rel_ok (de_cat de) (ae_cat env) rel rel'"
  shows "decoded_to de env before st0 (pg_decode_message de True lsn CHR ''N'' (MtmSeqPosition seqid nxt) d) d st (d_ddl d)
    (if d_ddl d then [] else [AdjustSequence (rel_oid rel') nxt])"
proof -
  let ?f = "pglogical_write_message (de_pf de) (de_cat de) (de_want_binary de) (de_priv de) lsn CHR ''N'' (MtmSeqPosition seqid nxt)"
  let ?s = "(dc_snd d)\<lparr>MtmLastRelId := InvalidOid\<rparr>"
  have i: "in_step (de_cat de) (ae_cat env) ?s st"
    using assms(3) by (simp add: following_def in_step_def sender_ok_def rel_ok_def)
  have written: "decoded_to de env before st0 (pg_decode_message de True lsn CHR ''N'' (MtmSeqPosition seqid nxt) d) d st (d_ddl d) ops"
    if w: "?f (dc_snd d) = Inr (encs (de_pf de) ws', s')" "rec_steps (de_pf de) env st ws' st'"
      "in_step (de_cat de) (ae_cat env) s' st'" "DDLInProgress s' = d_ddl d" "ex_ops st' = ex_ops st @ ops"
    for ws' s' st' ops
  proof (rule follow_put [OF assms(2,3), of ?f, OF w(1-3)])
    fix d'
    assume "put de False False ?f d = Inr d'" "following de env before st0 (ws @ ws') d' st'" "dc_snd d' = s'"
      "startup_message_sent d' = startup_message_sent d"
    then show ?thesis
      using w(4,5) by (intro decoded_toI [where d' = d' and ws' = "ws @ ws'" and st' = st']) (simp_all add: pg_decode_message_def)
  qed
  show ?thesis
  proof (cases "d_ddl d")
    case True
    then show ?thesis
      using i written [of "[]" ?s st "[]"] by (simp add: pglogical_write_message_def no_rec)
  next
    case False
    then have nd: "\<not> DDLInProgress ?s" and no_last: "rel_relkind rel = CHR ''r'' \<or> MtmLastRelId ?s = InvalidOid"
      by simp_all
    from rel_trip [OF assms(1) i nd assms(6) refl no_last] obtain ws' s' st' where w:
        "pglogical_write_rel (de_pf de) rel ?s = Inr (encs (de_pf de) ws', s')"
        "rec_steps (de_pf de) env st ws' st'" "in_step (de_cat de) (ae_cat env) s' st'"
        "ex_rel st' = Some rel'" "ex_ops st' = ex_ops st" "DDLInProgress s' = DDLInProgress ?s"
      by metis
    have last: "MtmLastRelId s' = rel_oid rel"
      using w(1) False assms(6) by (auto simp: pglogical_write_rel_def rel_ok_def Let_def split: if_splits option.splits)
    have "rec_steps (de_pf de) env st (ws' @ [W_seq nxt])
        (emit_op (AdjustSequence (rel_oid rel') nxt) (st'\<lparr>ex_rel := None\<rparr>))"
      using w(2,4) by (auto intro: rec_steps_append one_rec next_value)
    moreover have same: "rel2 = rel"
      if ok: "rel_ok (de_cat de) (ae_cat env) rel2 rel2'" and oid: "MtmLastRelId s' = rel_oid rel2" for rel2 rel2'
    proof -
      have "table_open (de_cat de) (rel_oid rel2) = Some rel2" "table_open (de_cat de) (rel_oid rel) = Some rel"
        using ok assms(6) by (simp_all only: rel_ok_def)
      moreover have "rel_oid rel2 = rel_oid rel" using oid last by (rule trans [OF sym])
      ultimately show ?thesis by (metis option.inject)
    qed
    then have "in_step (de_cat de) (ae_cat env) s' (st'\<lparr>ex_rel := None\<rparr>)"
      using w(3) assms(5) unfolding in_step_def by (auto dest!: same)
    ultimately show ?thesis
      using w False assms(1,4) written [of "ws' @ [W_seq nxt]" s'
          "emit_op (AdjustSequence (rel_oid rel') nxt) (st'\<lparr>ex_rel := None\<rparr>)" "[AdjustSequence (rel_oid rel') nxt]"]
      by (simp add: pglogical_write_message_def pglogical_seq_nextval_def wire_simps)
  qed
qed

text \<open>A change whose row is not of a local table, on the relation of the receiver.\<close>

lemma row_change:
  assumes "proto_ok (de_pf de)" and "plugin_ok (de_api de)" and "following de env before st0 ws d st"
    and rel: "\<not> de_local de (rel_oid rel) \<longrightarrow> rel_relkind rel = CHR ''r'' \<and> Ch_rel_ok (de_cat de) (ae_cat env) rel P"
    and ddl: "\<And>s. DDLInProgress s \<Longrightarrow> f s = Inr ([], s)"
    and writes: "\<And>rel' s st1. P rel' \<Longrightarrow> \<not> DDLInProgress s \<Longrightarrow> ex_rel st1 = Some rel' \<Longrightarrow>
       \<exists>ws1. f s = Inr (encs (de_pf de) ws1, count_record s) \<and> rec_steps (de_pf de) env st1 ws1 (emit_op (op rel') st1)"
  shows "decoded_to de env before st0 (pg_decode_rel de rel (put de False False f) d) d st (d_ddl d)
    (if de_local de (rel_oid rel) \<or> d_ddl d then [] else on_peer (ae_cat env) rel op)"
proof (cases "de_local de (rel_oid rel)")
  case True
  then show ?thesis
    using assms(3) by (intro decoded_toI [where d' = d and st' = st and ws' = ws])
      (simp_all add: pg_decode_rel_def MtmReplicationRowFilterHook_def)
next
  case False
  with rel obtain rel' where r: "rel_ok (de_cat de) (ae_cat env) rel rel'" "P rel'" "rel_relkind rel = CHR ''r''"
    by (auto elim: Ch_rel_okE)
  have "decoded_to de env before st0 (pg_decode_rel de rel (put de False False f) d) d st (d_ddl d)
      (if de_local de (rel_oid rel) \<or> d_ddl d then [] else [op rel'])"
    by (rule follow_row_decoded [OF assms(1-3) r(1,3)]) (use ddl writes r(2) in blast)+
  then show ?thesis unfolding on_peer_def peer_of [OF r(1)] option.case .
qed

lemma follow_update:
  assumes "proto_ok (de_pf de)" and "plugin_ok (de_api de)" and "following de env before st0 ws d st"
    and ok: "change_ok (de_cat de) (ae_cat env) (de_want_binary de) (de_local de) (Ch_update rel old tup)"
  shows "decoded_to de env before st0 (pg_decode_change de (Ch_update rel old tup) d) d st (d_ddl d)
    (change_ops (de_cat de) (ae_cat env) (de_local de) (d_ddl d) (Ch_update rel old tup))"
  unfolding pg_decode_change.simps change_ops.simps
proof (rule row_change [OF assms(1-3)])
  show "\<not> de_local de (rel_oid rel) \<longrightarrow> rel_relkind rel = CHR ''r'' \<and> Ch_rel_ok (de_cat de) (ae_cat env) rel
      (\<lambda>rel'. row_ok (de_cat de) (ae_cat env) (de_want_binary de) rel rel' tup \<and> rel_relkind rel' = CHR ''r'' \<and>
        (case old of None \<Rightarrow> True | Some o' \<Rightarrow> row_ok (de_cat de) (ae_cat env) (de_want_binary de) rel rel' o'))"
    using ok by auto
  show "pglogical_write_update (de_pf de) (de_cat de) (de_want_binary de) rel old tup s = Inr ([], s)" if "DDLInProgress s" for s
    using that by (simp add: pglogical_write_update_def)
qed (use update_writes [OF assms(1)] in blast)

lemma follow_insert:
  assumes "proto_ok (de_pf de)" and "plugin_ok (de_api de)" and "following de env before st0 ws d st"
    and ok: "change_ok (de_cat de) (ae_cat env) (de_want_binary de) (de_local de) (Ch_insert rel tup)"
  shows "decoded_to de env before st0 (pg_decode_change de (Ch_insert rel tup) d) d st (d_ddl d)
    (change_ops (de_cat de) (ae_cat env) (de_local de) (d_ddl d) (Ch_insert rel tup))"
  unfolding pg_decode_change.simps change_ops.simps
proof (rule row_change [OF assms(1-3)])
  show "\<not> de_local de (rel_oid rel) \<longrightarrow> rel_relkind rel = CHR ''r'' \<and> Ch_rel_ok (de_cat de) (ae_cat env) rel
      (\<lambda>rel'. row_ok (de_cat de) (ae_cat env) (de_want_binary de) rel rel' tup \<and> \<not> LOCAL_TABLES rel')"
    using ok by auto
  show "pglogical_write_insert (de_pf de) (de_cat de) (de_want_binary de) rel tup s = Inr ([], s)" if "DDLInProgress s" for s
    using that by (simp add: pglogical_write_insert_def)
qed (use insert_writes [OF assms(1)] in blast)

lemma follow_delete:
  assumes "proto_ok (de_pf de)" and "plugin_ok (de_api de)" and "following de env before st0 ws d st"
    and ok: "change_ok (de_cat de) (ae_cat env) (de_want_binary de) (de_local de) (Ch_delete rel (Some old))"
  shows "decoded_to de env before st0 (pg_decode_change de (Ch_delete rel (Some old)) d) d st (d_ddl d)
    (change_ops (de_cat de) (ae_cat env) (de_local de) (d_ddl d) (Ch_delete rel (Some old)))"
  unfolding pg_decode_change.simps change_ops.simps
proof (rule row_change [OF assms(1-3)])
  show "\<not> de_local de (rel_oid rel) \<longrightarrow> rel_relkind rel = CHR ''r'' \<and> Ch_rel_ok (de_cat de) (ae_cat env) rel
      (\<lambda>rel'. row_ok (de_cat de) (ae_cat env) (de_want_binary de) rel rel' old)"
    using ok by auto
  show "pglogical_write_delete (de_pf de) (de_cat de) (de_want_binary de) rel old s = Inr ([], s)" if "DDLInProgress s" for s
    using that by (simp add: pglogical_write_delete_def)
qed (use delete_writes [OF assms(1)] in blast)

lemma follow_delete_nothing:
  assumes "proto_ok (de_pf de)" and "plugin_ok (de_api de)" and "following de env before st0 ws d st"
    and ok: "change_ok (de_cat de) (ae_cat env) (de_want_binary de) (de_local de) (Ch_delete rel None)"
  shows "decoded_to de env before st0 (pg_decode_change de (Ch_delete rel None) d) d st (d_ddl d) []"
proof (cases "de_local de (rel_oid rel)")
  case True
  then show ?thesis
    using assms(3) by (intro decoded_toI [where d' = d and st' = st and ws' = ws])
      (simp_all add: pg_decode_rel_def MtmReplicationRowFilterHook_def)
next
  case False
  with ok obtain rel' where r: "rel_ok (de_cat de) (ae_cat env) rel rel'" "rel_relkind rel = CHR ''r''"
    by (auto elim: Ch_rel_okE)
  show ?thesis
  proof (rule follow_rel [OF assms(1-3) r])
    fix ws' d' st'
    assume "put de False False (pglogical_write_rel (de_pf de) rel) d = Inr d'" "following de env before st0 ws' d' st'"
      "d_ddl d' = d_ddl d" "startup_message_sent d' = startup_message_sent d" "ex_ops st' = ex_ops st"
    then show ?thesis
      using False by (intro decoded_toI [where d' = d' and ws' = ws' and st' = st'])
        (simp_all add: pg_decode_rel_def MtmReplicationRowFilterHook_def)
  qed
qed

lemma follow_change:
  assumes "proto_ok (de_pf de)" and "plugin_ok (de_api de)" and "following de env before st0 ws d st"
    and ok: "change_ok (de_cat de) (ae_cat env) (de_want_binary de) (de_local de) ch"
  shows "decoded_to de env before st0 (pg_decode_change de ch d) d st (ddl_after (d_ddl d) ch)
    (change_ops (de_cat de) (ae_cat env) (de_local de) (d_ddl d) ch)"
proof (cases ch)
  case (Ch_insert rel tup)
  then show ?thesis using follow_insert [OF assms(1-3)] ok by simp
next
  case (Ch_update rel old tup)
  then show ?thesis using follow_update [OF assms(1-3)] ok by simp
next
  case (Ch_delete rel old)
  then show ?thesis
    using follow_delete [OF assms(1-3)] follow_delete_nothing [OF assms(1-3)] ok by (cases old) auto
next
  case (Ch_message lsn prefix message)
  show ?thesis
  proof (cases message)
    case (Text body)
    then show ?thesis
      using follow_text [OF assms(1-3), of prefix body lsn "de_cat de" "ae_cat env" "de_local de"] ok Ch_message
      by simp
  next
    case (MtmSeqPosition seqid nxt)
    with ok Ch_message obtain rel rel' where r: "table_open (de_cat de) seqid = Some rel" "rel_relkind rel = CHR ''S''"
        "rel_ok (de_cat de) (ae_cat env) rel rel'" "prefix = CHR ''N''"
      by (auto elim: Ch_rel_okE split: option.splits)
    then show ?thesis
      using follow_seq [OF assms(1-3) r(1-3), of lsn nxt] MtmSeqPosition Ch_message peer_of [OF r(3)]
      by (cases "d_ddl d") (simp_all add: on_peer_def)
  next
    case (MtmCopyRequest t n)
    then show ?thesis using ok Ch_message by simp
  qed
qed

lemma follow_changes:
  assumes "proto_ok (de_pf de)" and "plugin_ok (de_api de)" and "following de env before st0 ws d st"
    and "list_all (change_ok (de_cat de) (ae_cat env) (de_want_binary de) (de_local de)) chs"
  shows "decoded_to de env before st0 (pg_decode_changes de chs d) d st (foldl ddl_after (d_ddl d) chs)
    (txn_ops (de_cat de) (ae_cat env) (de_local de) (d_ddl d) chs)"
  using assms(3,4)
proof (induction chs arbitrary: ws d st)
  case Nil
  then show ?case by (intro decoded_toI [where d' = d and st' = st and ws' = ws]) simp_all
next
  case (Cons ch chs)
  from follow_change [OF assms(1,2) Cons.prems(1), of ch] Cons.prems(2) obtain ws1 d1 st1 where c:
      "pg_decode_change de ch d = Inr d1" "following de env before st0 ws1 d1 st1" "d_ddl d1 = ddl_after (d_ddl d) ch"
      "startup_message_sent d1 = startup_message_sent d"
      "ex_ops st1 = ex_ops st @ change_ops (de_cat de) (ae_cat env) (de_local de) (d_ddl d) ch"
    unfolding decoded_to_def by auto
  from Cons.IH [OF c(2)] Cons.prems(2) obtain ws2 d2 st2 where
      "pg_decode_changes de chs d1 = Inr d2" "following de env before st0 ws2 d2 st2"
      "d_ddl d2 = foldl ddl_after (d_ddl d1) chs" "startup_message_sent d2 = startup_message_sent d1"
      "ex_ops st2 = ex_ops st1 @ txn_ops (de_cat de) (ae_cat env) (de_local de) (d_ddl d1) chs"
    unfolding decoded_to_def by auto
  then show ?case
    using c by (intro decoded_toI [where d' = d2 and st' = st2 and ws' = ws2]) simp_all
qed

section \<open>The beginning of a transaction\<close>

lemma begin_in_step:
  assumes "proto_ok pf" and "may_finish priv txn" and "sender_ok s" and "map_ok cat (ae_cat env) m"
    and "my_node_id (dec_cfg priv) = ae_sender env" and "int32_ok (ae_sender env)"
  shows "\<exists>w s' st. pglogical_write_begin pf priv txn s = Inr (encs pf [w], s') \<and>
    rec_steps pf env (start_exec b m) [w] st \<and> in_step cat (ae_cat env) s' st \<and> \<not> DDLInProgress s' \<and>
    ex_ops st = [Start_transaction (txn_xid txn)] \<and> ex_tx st"
proof -
  let ?w = "W_begin (word_of_int (ae_sender env)) (txn_xid txn)"
  let ?st = "emit_op (Start_transaction (txn_xid txn)) ((start_exec b m)\<lparr>ex_xid := txn_xid txn, ex_tx := True\<rparr>)"
  obtain s' where s': "pglogical_write_begin pf priv txn s = Inr (encs pf [?w], s')"
    using assms(1,2,5) by (auto simp: pglogical_write_begin_def may_finish_def wire_simps Let_def)
  have "sint (word_of_int (ae_sender env) :: uint32) = ae_sender env"
    using assms(6) by (simp add: int32_ok_def sint_sbintrunc' signed_take_bit_int_eq_self)
  then have "rec_steps pf env (start_exec b m) [?w] ?st"
    by (intro one_rec begin_xact)
  moreover have "MtmSenderTID s' \<noteq> InvalidOid \<and> sender_ok s' \<and> MtmLastRelId s' = InvalidOid \<and> \<not> DDLInProgress s' \<and>
      (\<forall>r. pglogical_relid_map_get (sent_map s') r \<noteq> MtmSenderTID s')"
  proof (cases "MtmSenderTID s + 1 = 0")
    case True
    then show ?thesis
      using s' assms(2) by (auto simp: pglogical_write_begin_def may_finish_def sender_ok_def Let_def)
  next
    case False
    then have "MtmSenderTID s < MtmSenderTID s + 1" by (simp add: word_less_nat_alt unatSuc add.commute)
    then have "pglogical_relid_map_get (sent_map s) r < MtmSenderTID s + 1" for r
      using assms(3) by (meson le_less_trans sender_ok_def)
    then have "pglogical_relid_map_get (sent_map s) r \<noteq> MtmSenderTID s + 1"
        "pglogical_relid_map_get (sent_map s) r \<le> MtmSenderTID s + 1" for r
      using order.strict_iff_order by blast+
    then show ?thesis
      using s' assms(2) False by (auto simp: pglogical_write_begin_def may_finish_def sender_ok_def Let_def)
  qed
  then have "in_step cat (ae_cat env) s' ?st \<and> \<not> DDLInProgress s'"
    using assms(4) by (simp add: in_step_def start_exec_def rel_ok_def)
  ultimately show ?thesis
    using s' by (intro exI [of _ ?w] exI [of _ s'] exI [of _ ?st]) (simp add: start_exec_def emit_op_def)
qed

text \<open>The empty startup message comes first, once.\<close>

definition startup :: "decoder \<Rightarrow> bytes list" where
  "startup d = (if startup_message_sent d then [] else [[]])"

lemma put_fresh:
  assumes "plugin_ok (de_api de)" and "\<not> prepared_write (dc_ctx d)" and "f (dc_snd d) = Inr (b, s')"
  shows "\<exists>d'. put de True fl f d = Inr d' \<and> dc_snd d' = s' \<and> startup_message_sent d' = startup_message_sent d \<and>
    (if fl then \<not> prepared_write (dc_ctx d') \<and> sent (dc_ctx d') = sent (dc_ctx d) @ [b]
     else prepared_write (dc_ctx d') \<and> sent (dc_ctx d') = sent (dc_ctx d) \<and> out (dc_ctx d') = b)"
  using assms by (auto simp: put_def MtmOutputPluginPrepareWrite_def MtmOutputPluginWrite_def plugin_ok_def Let_def)

lemma begin_follows:
  assumes "proto_ok (de_pf de)" and "plugin_ok (de_api de)" and "\<not> prepared_write (dc_ctx d)"
    and "may_finish (de_priv de) txn" and "sender_ok (dc_snd d)" and "map_ok (de_cat de) (ae_cat env) m"
    and "my_node_id (dec_cfg (de_priv de)) = ae_sender env" and "int32_ok (ae_sender env)"
  obtains w d' st where "pg_decode_begin_txn de txn d = Inr d'"
    and "following de env (sent (dc_ctx d) @ startup d) (start_exec b m) [w] d' st" and "\<not> d_ddl d'"
    and "startup_message_sent d'" and "ex_ops st = [Start_transaction (txn_xid txn)]" and "ex_tx st"
proof -
  obtain d1 where d1: "(if startup_message_sent d then Inr d else send_startup_message de d) = Inr d1"
      "\<not> prepared_write (dc_ctx d1)" "sent (dc_ctx d1) = sent (dc_ctx d) @ startup d" "dc_snd d1 = dc_snd d"
      "startup_message_sent d1"
    using put_fresh [OF assms(2,3), of "\<lambda>s. Inr ([], s)" "[]" "dc_snd d" True] assms(3)
    by (auto simp: send_startup_message_def startup_def)
  from begin_in_step [OF assms(1,4,5,6,7,8), of b] obtain w s' st where w:
      "pglogical_write_begin (de_pf de) (de_priv de) txn (dc_snd d1) = Inr (encs (de_pf de) [w], s')"
      "rec_steps (de_pf de) env (start_exec b m) [w] st" "in_step (de_cat de) (ae_cat env) s' st"
      "\<not> DDLInProgress s'" "ex_ops st = [Start_transaction (txn_xid txn)]" "ex_tx st"
    using d1(4) by auto
  obtain d2 where d2: "put de True False (pglogical_write_begin (de_pf de) (de_priv de) txn) d1 = Inr d2"
      "dc_snd d2 = s'" "startup_message_sent d2 = startup_message_sent d1" "prepared_write (dc_ctx d2)"
      "sent (dc_ctx d2) = sent (dc_ctx d1)" "out (dc_ctx d2) = encs (de_pf de) [w]"
    using put_fresh [OF assms(2) d1(2), of "pglogical_write_begin (de_pf de) (de_priv de) txn", OF w(1), of False] by auto
  have fr: "frames (de_pf de) (sent (dc_ctx d) @ startup d) [w] (dc_ctx d2)"
    using d1(3) d2(4-6) by (intro framesI [where gs = "[]" and g = "[w]"]) simp_all
  let ?d = "if de_forward de \<and> txn_origin_id txn \<noteq> InvalidRepOriginId
     then d2\<lparr>dc_ctx := MtmOutputPluginPrepareWrite (de_api de) False (dc_ctx d2)\<rparr> else d2"
  have "following de env (sent (dc_ctx d) @ startup d) (start_exec b m) [w] ?d st"
    using prepare_frames [OF assms(2) fr] fr w(2,3,6) d2(2) by (simp add: following_def)
  then show thesis
    using d1(1,5) d2 w by (intro that [of ?d w st]) (simp_all add: pg_decode_begin_txn_def)
qed

section \<open>The end of a transaction\<close>

definition origin_of :: "MtmDecoderPrivate \<Rightarrow> ReorderBufferTXN \<Rightarrow> int" where
  "origin_of priv txn =
     (if txn_origin_id txn = InvalidRepOriginId then my_node_id (dec_cfg priv)
      else case List.find (\<lambda>n. node_id n \<noteq> my_node_id (dec_cfg priv) \<and> origin_id n = txn_origin_id txn)
                  (nodes (dec_cfg priv)) of
             Some n \<Rightarrow> node_id n | None \<Rightarrow> MtmInvalidNodeId)"

definition end_of :: "MtmDecoderPrivate \<Rightarrow> ReorderBufferTXN \<Rightarrow> end_info" where
  "end_of priv txn = \<lparr>fin_origin_node = origin_of priv txn,
     fin_lsn = (if origin_of priv txn = my_node_id (dec_cfg priv) then txn_end_lsn txn else txn_origin_lsn txn),
     fin_time = txn_commit_time txn\<rparr>"

fun end_event :: "ending \<Rightarrow> ReorderBufferTXN \<Rightarrow> remote_event" where
  "end_event End_prepare txn = PGLOGICAL_PREPARE (txn_gid txn) (txn_state_3pc txn)"
| "end_event _ txn = PGLOGICAL_COMMIT"

fun end_bytes :: "protoformat \<Rightarrow> MtmDecoderPrivate \<Rightarrow> ending \<Rightarrow> ReorderBufferTXN \<Rightarrow> XLogRecPtr \<Rightarrow> bytes" where
  "end_bytes pf priv End_prepare txn lsn =
     write_fixed pf EV_PREPARE priv txn lsn @ pq_sendstring pf (txn_gid txn) @ pq_sendstring pf (txn_state_3pc txn)"
| "end_bytes pf priv End_commit txn lsn = write_fixed pf EV_COMMIT priv txn lsn"
| "end_bytes pf priv End_abort txn lsn = write_fixed pf EV_ABORT priv txn lsn"

text \<open>Node numbers fit in a byte and the gid and the state are short texts.\<close>

definition txn_ok :: "MtmDecoderPrivate \<Rightarrow> ReorderBufferTXN \<Rightarrow> bool" where
  "txn_ok priv txn \<longleftrightarrow> 1 \<le> origin_of priv txn \<and> origin_of priv txn < 256 \<and>
     1 \<le> my_node_id (dec_cfg priv) \<and> my_node_id (dec_cfg priv) < 256 \<and>
     ascii (txn_gid txn) \<and> length (txn_gid txn) < GIDSIZE \<and> ascii (txn_state_3pc txn) \<and> \<not> txn_state_3pc_change txn"

lemma send_node_id_origin: "send_node_id pf txn priv = pq_sendbyte pf (word_of_int (origin_of priv txn))"
  by (simp add: send_node_id_def origin_of_def Let_def split: option.splits)

lemma uint_byte: "0 \<le> n \<Longrightarrow> n < 256 \<Longrightarrow> uint (word_of_int n :: uint8) = n"
  by (simp add: uint_word_of_int take_bit_int_eq_self)

lemmas end_simps = write_fixed_def send_node_id_origin wire_simps uint_byte

lemma read_end:
  assumes "proto_ok pf" and "txn_ok priv txn" and "ending \<noteq> End_abort"
    and "my_node_id (dec_cfg priv) = ae_sender env"
  shows "\<exists>cb. end_bytes pf priv ending txn lsn = byte CHR ''C'' # cb \<and>
    (\<forall>rest. read_commit pf env (cb @ rest) = Inr (end_of priv txn, end_event ending txn, rest))"
proof (cases ending)
  case End_commit
  then show ?thesis
    using assms by (simp add: end_simps read_commit_def read_event_def txn_ok_def end_of_def)
next
  case End_prepare
  have g: "ascii (txn_gid txn)" "ascii (txn_state_3pc txn)" "take GIDSIZE (txn_gid txn) = txn_gid txn"
    using assms(2) by (simp_all add: txn_ok_def)
  show ?thesis
    using assms g End_prepare
    by (simp add: end_simps read_commit_def read_event_def read_gid_def txn_ok_def end_of_def)
next
  case End_abort
  with assms(3) show ?thesis by simp
qed

lemma run_end:
  assumes "proto_ok pf" and "pg_accepts env" and "txn_ok priv txn" and "ending \<noteq> End_abort"
    and "my_node_id (dec_cfg priv) = ae_sender env" and "ex_tx st"
  shows "\<exists>st'. run_actions pf env (moved (end_bytes pf priv ending txn lsn @ rest) ops st) = Some (Inr st') \<and>
    ex_ops st' = ops @ [Finish_xact (end_of priv txn) (end_event ending txn)] \<and> ex_map st' = ex_map st"
proof -
  from read_end [OF assms(1,3,4,5), of lsn] obtain cb where cb: "end_bytes pf priv ending txn lsn = byte CHR ''C'' # cb"
      "\<And>rest. read_commit pf env (cb @ rest) = Inr (end_of priv txn, end_event ending txn, rest)"
    by auto
  have "tx_state_ok (end_event ending txn) (ex_tx st)"
    using assms(4,6) by (cases ending) (simp_all add: tx_state_ok_def)
  then show ?thesis
    using assms(1,2) cb by (subst run_actions.simps) (simp add: wire_simps exec_action_def exec_commit_def)
qed

lemma filter_end:
  assumes "proto_ok pf" and "txn_ok priv txn" and "ending \<noteq> End_abort"
  shows "MtmFilterTransaction pf me (my_node_id (dec_cfg priv)) spvector fmap (end_bytes pf priv ending txn lsn) =
    filter_decision me spvector fmap (origin_of priv txn) (fin_lsn (end_of priv txn))"
  using assms
  by (cases ending) (simp_all add: end_simps MtmFilterTransaction_def read_origin_C_def txn_ok_def end_of_def)

lemma end_stmt:
  assumes "proto_ok pf"
  shows "pq_peekmsgbyte (end_bytes pf priv ending txn lsn) = Some (byte CHR ''C'')"
    and "\<not> standalone_stmt (end_bytes pf priv ending txn lsn)"
    and "second_byte (end_bytes pf priv ending txn lsn) = Some EV_ABORT \<longleftrightarrow> ending = End_abort"
    and "no_row_next (end_bytes pf priv ending txn lsn @ rest)"
proof -
  obtain ev tl where e: "end_bytes pf priv ending txn lsn = byte CHR ''C'' # ev # tl"
      "ev = (case ending of End_prepare \<Rightarrow> EV_PREPARE | End_commit \<Rightarrow> EV_COMMIT | End_abort \<Rightarrow> EV_ABORT)"
    using assms by (cases ending) (auto simp: end_simps)
  then show "pq_peekmsgbyte (end_bytes pf priv ending txn lsn) = Some (byte CHR ''C'')"
      "no_row_next (end_bytes pf priv ending txn lsn @ rest)"
      "second_byte (end_bytes pf priv ending txn lsn) = Some EV_ABORT \<longleftrightarrow> ending = End_abort"
    by (simp_all add: pq_peekmsgbyte_def no_row_next_def second_byte_def nth_opt_def split: ending.splits)
  from e show "\<not> standalone_stmt (end_bytes pf priv ending txn lsn)"
    by (simp add: standalone_stmt_def pq_peekmsgbyte_def)
qed

lemma end_sent:
  assumes "plugin_ok (de_api de)" and "frames pf before ws (dc_ctx d)" and "f (dc_snd d) = Inr (cb, s')"
  obtains d' gs where "put de True True f d = Inr d'" and "sent (dc_ctx d') = before @ map (encs pf) gs @ [cb]"
    and "concat gs = ws" and "\<not> prepared_write (dc_ctx d')" and "dc_snd d' = s'"
    and "startup_message_sent d' = startup_message_sent d"
proof -
  from assms(2) obtain gs g where c: "prepared_write (dc_ctx d)" "sent (dc_ctx d) = before @ map (encs pf) gs"
      "out (dc_ctx d) = encs pf g" "ws = concat gs @ g"
    by (auto simp: frames_def)
  then have "\<exists>d'. put de True True f d = Inr d' \<and> sent (dc_ctx d') = before @ map (encs pf) (gs @ [g]) @ [cb] \<and>
      \<not> prepared_write (dc_ctx d') \<and> dc_snd d' = s' \<and> startup_message_sent d' = startup_message_sent d"
    using assms(1,3)
    by (simp add: put_def MtmOutputPluginPrepareWrite_def MtmOutputPluginWrite_def plugin_ok_def Let_def)
  then show thesis using that [of _ "gs @ [g]"] c(4) by auto
qed

text \<open>What one node sends of a transaction, and what it makes the applier of the other ask for.\<close>

lemma decode_txn_sends:
  assumes "proto_ok (de_pf de)" and "plugin_ok (de_api de)" and "\<not> prepared_write (dc_ctx d)"
    and "\<not> pg_decode_origin_filter de (txn_origin_id txn)" and "sender_ok (dc_snd d)"
    and "map_ok (de_cat de) (ae_cat env) m"
    and "my_node_id (dec_cfg (de_priv de)) = ae_sender env" and "int32_ok (ae_sender env)"
    and "txn_ok (de_priv de) txn" and "ending \<noteq> End_abort"
    and "list_all (change_ok (de_cat de) (ae_cat env) (de_want_binary de) (de_local de)) chs"
    and "\<not> foldl ddl_after False chs"
  obtains d' gs st where "decode_txn de txn chs ending lsn d = Inr d'"
    and "sent (dc_ctx d') = sent (dc_ctx d) @ startup d @ map (encs (de_pf de)) gs @
      [end_bytes (de_pf de) (de_priv de) ending txn lsn]"
    and "rec_steps (de_pf de) env (start_exec [] m) (concat gs) st" and "ex_tx st"
    and "ex_ops st = Start_transaction (txn_xid txn) # txn_ops (de_cat de) (ae_cat env) (de_local de) False chs"
    and "\<not> prepared_write (dc_ctx d')" and "startup_message_sent d'" and "sender_ok (dc_snd d')"
    and "map_ok (de_cat de) (ae_cat env) (ex_map st)"
proof -
  let ?before = "sent (dc_ctx d) @ startup d" and ?cb = "end_bytes (de_pf de) (de_priv de) ending txn lsn"
  have fin: "may_finish (de_priv de) txn"
    using assms(4) by (simp add: pg_decode_origin_filter_def MtmReplicationTxnFilterHook_def may_finish_def
      disj_commute split: if_splits)
  from begin_follows [OF assms(1-3) fin assms(5-8)] obtain w d1 st1 where b:
      "pg_decode_begin_txn de txn d = Inr d1" "following de env ?before (start_exec [] m) [w] d1 st1" "\<not> d_ddl d1"
      "startup_message_sent d1" "ex_ops st1 = [Start_transaction (txn_xid txn)]" "ex_tx st1"
    by metis
  from follow_changes [OF assms(1,2) b(2) assms(11)] b(3) obtain ws d2 st where c:
      "pg_decode_changes de chs d1 = Inr d2" "following de env ?before (start_exec [] m) ws d2 st"
      "d_ddl d2 = foldl ddl_after False chs" "startup_message_sent d2 = startup_message_sent d1"
      "ex_ops st = ex_ops st1 @ txn_ops (de_cat de) (ae_cat env) (de_local de) False chs"
    unfolding decoded_to_def by auto
  let ?f = "case ending of End_prepare \<Rightarrow> (\<lambda>s. keeping (pglogical_write_prepare (de_pf de) (de_priv de) txn lsn s) s)
     | End_commit \<Rightarrow> keeping (Inr (pglogical_write_commit (de_pf de) (de_priv de) txn lsn))
     | End_abort \<Rightarrow> keeping (Inr (pglogical_write_abort (de_pf de) (de_priv de) txn lsn))"
  have f: "?f (dc_snd d2) = Inr (?cb, dc_snd d2)"
    using assms(9,12) c(3)
    by (cases ending) (simp_all add: keeping_def pglogical_write_prepare_def pglogical_write_commit_def
      pglogical_write_abort_def txn_ok_def Let_def)
  have e: "pg_decode_end de ending txn lsn d2 = put de True True ?f d2"
    by (cases ending) (simp_all add: pg_decode_prepare_txn_def pg_decode_commit_txn_def pg_decode_abort_txn_def)
  have fr: "frames (de_pf de) ?before ws (dc_ctx d2)" "rec_steps (de_pf de) env (start_exec [] m) ws st"
      "in_step (de_cat de) (ae_cat env) (dc_snd d2) st" "ex_tx st"
    using c(2) by (simp_all add: following_def)
  obtain d' gs where d': "put de True True ?f d2 = Inr d'"
      "sent (dc_ctx d') = ?before @ map (encs (de_pf de)) gs @ [?cb]" "concat gs = ws"
      "\<not> prepared_write (dc_ctx d')" "dc_snd d' = dc_snd d2" "startup_message_sent d' = startup_message_sent d2"
    by (rule end_sent [OF assms(2) fr(1), of ?f, OF f])
  show thesis
  proof (rule that [of d' gs st])
    show "decode_txn de txn chs ending lsn d = Inr d'"
      using assms(4) b(1) c(1) e d'(1) by (simp add: decode_txn_def)
    show "sender_ok (dc_snd d')" "map_ok (de_cat de) (ae_cat env) (ex_map st)"
      using d'(5) fr(3) by (simp_all add: in_step_def)
  qed (use d' b(4,5) c(4,5) fr(2,4) in simp_all)
qed

section \<open>Collecting the messages\<close>

fun plain_rec :: "wrec \<Rightarrow> bool" where
  "plain_rec (W_msg c lsn body) = (c \<in> {CHR ''D'', CHR ''B''})"
| "plain_rec _ = True"

lemma rec_steps_plain: "rec_steps pf env st ws st' \<Longrightarrow> list_all plain_rec ws"
  by (induction rule: rec_steps.induct) (auto elim: rec_step.cases)

lemma plain_message:
  assumes "list_all plain_rec g" and "encs pf g \<noteq> []"
  shows "\<not> standalone_stmt (encs pf g)" and "pq_peekmsgbyte (encs pf g) \<noteq> Some (byte CHR ''C'')"
proof -
  obtain w g' where "g = w # g'" using assms(2) by (cases g) auto
  with assms(1) show "\<not> standalone_stmt (encs pf g)" "pq_peekmsgbyte (encs pf g) \<noteq> Some (byte CHR ''C'')"
    by (cases "(pf, w)" rule: enc.cases;
      auto simp: standalone_stmt_def pq_peekmsgbyte_def second_byte_def nth_opt_def)+
qed

text \<open>A message of the connection: a mark, positions and time, and the data.\<close>

definition copy_data :: "bytes list \<Rightarrow> bytes list \<Rightarrow> bytes list" where
  "copy_data hdrs ms = map2 (\<lambda>h m. byte CHR ''w'' # h @ m) hdrs ms"

definition headers :: "bytes list \<Rightarrow> bytes list \<Rightarrow> bool" where
  "headers hdrs ms \<longleftrightarrow> length hdrs = length ms \<and> list_all (\<lambda>h. length h = 24) hdrs"

lemma recv_data:
  assumes "length h = 24"
  shows "recv_copybuf pf mode sender thr flt (byte CHR ''w'' # h @ m) rv =
    (if m = [] then Inr (rv, []) else sbind (recv_stmt pf mode sender thr flt m rv) (\<lambda>(rv, xs). Inr (rv, map Exec xs)))"
proof -
  have "drop 25 (byte CHR ''w'' # h @ m) = m" using assms by simp
  then show ?thesis using assms by (auto simp: recv_copybuf_def)
qed

definition chunk_bytes :: "protoformat \<Rightarrow> wrec list \<Rightarrow> bytes" where
  "chunk_bytes pf g = encs pf g @ [byte CHR '')'']"

definition chunk_head :: "protoformat \<Rightarrow> bytes \<Rightarrow> bytes" where
  "chunk_head pf b = sendchar pf CHR ''('' @ pq_sendint32 pf (word_of_nat (length b))"

definition spill_head :: "protoformat \<Rightarrow> int \<Rightarrow> int \<Rightarrow> bytes" where
  "spill_head pf sender f = sendchar pf CHR ''F'' @ pq_sendint32 pf (word_of_int sender) @ pq_sendint32 pf (word_of_int f)"

text \<open>
  The receiver has the records \<open>ws\<close>, and \<open>tail\<close> behind them: all in its buffer, or whole chunks of them
  in its spill file and the rest in the buffer.
\<close>

definition collected :: "protoformat \<Rightarrow> int \<Rightarrow> int \<Rightarrow> wrec list \<Rightarrow> bytes \<Rightarrow> recv \<Rightarrow> bool" where
  "collected pf sender f ws tail rv \<longleftrightarrow> length (rv_buf rv) + 1 < 2 ^ 32 \<and>
     (rv_spill rv = None \<and> rv_info rv = [] \<and> rv_file_id rv + 1 = f \<and> rv_buf rv = encs pf ws @ tail \<or>
      (\<exists>cks g. rv_spill rv = Some f \<and> rv_file_id rv = f \<and>
         rv_info rv = spill_head pf sender f @ concat (map (\<lambda>g. chunk_head pf (chunk_bytes pf g)) cks) \<and>
         rv_files rv f = Some (concat (map (chunk_bytes pf) cks)) \<and>
         list_all (\<lambda>g. length (chunk_bytes pf g) < 2 ^ 32) cks \<and>
         rv_buf rv = encs pf g @ tail \<and> ws = concat cks @ g))"

lemma spill_collected:
  assumes "collected pf sender f ws [] rv"
  shows "\<exists>cks. let rv' = spill_chunk pf (open_spill_file pf sender rv) in
     rv_spill rv' = Some f \<and> rv_file_id rv' = f \<and> rv_buf rv' = [] \<and>
     rv_info rv' = spill_head pf sender f @ concat (map (\<lambda>g. chunk_head pf (chunk_bytes pf g)) cks) \<and>
     rv_files rv' f = Some (concat (map (chunk_bytes pf) cks)) \<and>
     list_all (\<lambda>g. length (chunk_bytes pf g) < 2 ^ 32) cks \<and> ws = concat cks"
proof (cases "rv_spill rv")
  case None
  then have "length (encs pf ws) + 1 < 2 ^ 32" "rv_info rv = []" "rv_file_id rv + 1 = f" "rv_buf rv = encs pf ws"
    using assms by (auto simp: collected_def)
  then show ?thesis
    using None by (intro exI [of _ "[ws]"])
      (auto simp: spill_chunk_def open_spill_file_def MtmSpillToFile_def chunk_bytes_def chunk_head_def spill_head_def Let_def)
next
  case (Some f')
  then obtain cks g where c: "f' = f" "rv_file_id rv = f"
      "rv_info rv = spill_head pf sender f @ concat (map (\<lambda>g. chunk_head pf (chunk_bytes pf g)) cks)"
      "rv_files rv f = Some (concat (map (chunk_bytes pf) cks))" "list_all (\<lambda>g. length (chunk_bytes pf g) < 2 ^ 32) cks"
      "rv_buf rv = encs pf g" "ws = concat cks @ g" "length (rv_buf rv) + 1 < 2 ^ 32"
    using assms by (auto simp: collected_def)
  then show ?thesis
    using Some by (intro exI [of _ "cks @ [g]"])
      (simp add: spill_chunk_def open_spill_file_def MtmSpillToFile_def chunk_bytes_def chunk_head_def Let_def)
qed

lemma collect_collected:
  assumes "collected pf sender f ws [] rv" and "length stmt + 1 < 2 ^ 32" and "thr * 1024 \<le> 2 ^ 32"
  shows "collected pf sender f ws stmt (collect pf sender thr stmt rv)"
proof (cases "length (rv_buf rv) + length stmt + 1 \<ge> thr * 1024")
  case True
  from spill_collected [OF assms(1)] obtain cks where
      "let rv' = spill_chunk pf (open_spill_file pf sender rv) in
       rv_spill rv' = Some f \<and> rv_file_id rv' = f \<and> rv_buf rv' = [] \<and>
       rv_info rv' = spill_head pf sender f @ concat (map (\<lambda>g. chunk_head pf (chunk_bytes pf g)) cks) \<and>
       rv_files rv' f = Some (concat (map (chunk_bytes pf) cks)) \<and>
       list_all (\<lambda>g. length (chunk_bytes pf g) < 2 ^ 32) cks \<and> ws = concat cks" ..
  then show ?thesis
    using True assms(2) unfolding collected_def collect_def Let_def
    by (intro conjI disjI2 exI [of _ cks] exI [of _ "[]"]) simp_all
next
  case False
  then show ?thesis
    using assms by (auto simp: collected_def collect_def)
qed

lemma collected_more: "collected pf sender f ws (encs pf g) rv \<Longrightarrow> collected pf sender f (ws @ g) [] rv"
  unfolding collected_def by (auto intro!: exI [of _ "g' @ g" for g'])

lemma recv_messages:
  assumes "thr * 1024 \<le> 2 ^ 32"
  shows "list_all2 (\<lambda>h g. length h = 24 \<and> list_all plain_rec g \<and> length (encs pf g) + 1 < 2 ^ 32) hdrs gs \<Longrightarrow>
    collected pf sender f ws [] rv \<Longrightarrow>
    \<exists>rv'. recv_all pf mode sender thr flt (copy_data hdrs (map (encs pf) gs)) rv = Inr (rv', []) \<and>
      collected pf sender f (ws @ concat gs) [] rv'"
proof (induction hdrs gs arbitrary: ws rv rule: list_all2_induct)
  case Nil
  then show ?case by (simp add: copy_data_def)
next
  case (Cons h hdrs g gs)
  let ?rv = "if encs pf g = [] then rv else collect pf sender thr (encs pf g) rv"
  have "collected pf sender f ws (encs pf g) ?rv"
    using Cons.prems Cons.hyps(1) collect_collected [OF Cons.prems _ assms, of "encs pf g"] by simp
  then have "collected pf sender f (ws @ g) [] ?rv" by (rule collected_more)
  from Cons.IH [OF this] obtain rv' where
      "recv_all pf mode sender thr flt (copy_data hdrs (map (encs pf) gs)) ?rv = Inr (rv', [])"
      "collected pf sender f ((ws @ g) @ concat gs) [] rv'"
    by blast
  moreover have "recv_copybuf pf mode sender thr flt (byte CHR ''w'' # h @ encs pf g) rv = Inr (?rv, [])"
    using Cons.hyps(1) plain_message [of g pf] by (auto simp: recv_data recv_stmt_def Let_def)
  ultimately show ?case by (auto simp: copy_data_def)
qed

section \<open>Applying what was collected\<close>

definition inside :: "bytes option \<Rightarrow> bytes option \<Rightarrow> exec \<Rightarrow> exec" where
  "inside sv sp st = st\<lparr>ex_saved := sv, ex_spill := sp\<rparr>"

lemma inside_simps [simp]:
  "ex_rel (inside sv sp st) = ex_rel st" "ex_map (inside sv sp st) = ex_map st" "ex_ops (inside sv sp st) = ex_ops st"
  "ex_tx (inside sv sp st) = ex_tx st" "ex_saved (inside sv sp st) = sv" "ex_spill (inside sv sp st) = sp"
  "ex_saved_update (\<lambda>_. sv') (inside sv sp st) = inside sv' sp st"
  "ex_spill_update (\<lambda>_. sp') (inside sv sp st) = inside sv sp' st"
  by (simp_all add: inside_def)

lemma inside_push:
  "inside sv sp (ex_rel_update f1 st) = ex_rel_update f1 (inside sv sp st)"
  "inside sv sp (ex_map_update f2 st) = ex_map_update f2 (inside sv sp st)"
  "inside sv sp (ex_bdr_update f3 st) = ex_bdr_update f3 (inside sv sp st)"
  "inside sv sp (ex_xid_update f4 st) = ex_xid_update f4 (inside sv sp st)"
  "inside sv sp (ex_tx_update f5 st) = ex_tx_update f5 (inside sv sp st)"
  "inside sv sp (emit_op op st) = emit_op op (inside sv sp st)"
  by (cases st; simp add: inside_def emit_op_def)+

lemma rec_step_inside: "rec_step pf env st w st' \<Longrightarrow> rec_step pf env (inside sv sp st) w (inside sv sp st')"
  by (erule rec_step.cases)
    (auto simp: inside_push intro: rec_step.intros rec_step.new_rel [where st = "inside sv sp st", simplified])

lemma rec_steps_inside: "rec_steps pf env st ws st' \<Longrightarrow> rec_steps pf env (inside sv sp st) ws (inside sv sp st')"
  by (induction rule: rec_steps.induct) (auto intro: no_rec more_recs rec_step_inside)

lemma rec_steps_files: "rec_steps pf env st ws st' \<Longrightarrow> rec_steps pf (env\<lparr>ae_files := F\<rparr>) st ws st'"
proof (induction rule: rec_steps.induct)
  case (more_recs st w st1 ws st2)
  from more_recs.hyps(1) have "rec_step pf (env\<lparr>ae_files := F\<rparr>) st w st1"
    by (cases rule: rec_step.cases) (auto intro: rec_step.intros [where env = "env\<lparr>ae_files := F\<rparr>", simplified])
  then show ?case using more_recs.IH by (rule rec_steps.more_recs)
qed (rule no_rec)

lemma rec_steps_splitE:
  assumes "rec_steps pf env st (ws @ ws') st'"
  obtains st1 where "rec_steps pf env st ws st1" and "rec_steps pf env st1 ws' st'"
  using assms
proof (induction ws arbitrary: st thesis)
  case Nil
  then show ?case by (auto intro: no_rec)
next
  case (Cons w ws)
  from Cons.prems(2) obtain st1 where s: "rec_step pf env st w st1" "rec_steps pf env st1 (ws @ ws') st'"
    by (auto elim: rec_steps_ConsE)
  from Cons.IH [OF _ s(2)] obtain st2 where "rec_steps pf env st1 ws st2" "rec_steps pf env st2 ws' st'" by blast
  with s(1) show ?case by (intro Cons.prems(1)) (auto intro: more_recs)
qed

lemma enter_chunk_run:
  assumes "proto_ok pf" and "length b < 2 ^ 32"
  shows "run_actions pf env (moved (chunk_head pf b @ info) ops (inside None (Some (b @ fl)) st)) =
    run_actions pf env (moved b ops (inside (Some info) (Some fl) st))"
proof -
  have "unat (word_of_nat (length b) :: uint32) = length b"
    using assms(2) by simp
  then have "exec_action pf env (byte CHR ''('') (moved (pq_sendint32 pf (word_of_nat (length b)) @ info) ops
      (inside None (Some (b @ fl)) st)) = Inr (moved b ops (inside (Some info) (Some fl) st), True)"
    using assms(1) by (simp add: exec_action_def enter_chunk_def wire_simps)
  from run_action [OF assms(1) this] show ?thesis
    using assms(1) by (simp add: chunk_head_def wire_simps)
qed

lemma run_chunk:
  assumes "proto_ok pf" and "pg_accepts env" and "rec_steps pf env st g st'" and "length (chunk_bytes pf g) < 2 ^ 32"
    and "flats ops = flats (ex_ops st)"
  shows "\<exists>ops'. flats ops' = flats (ex_ops st') \<and>
    run_actions pf env (moved (chunk_head pf (chunk_bytes pf g) @ info) ops (inside None (Some (chunk_bytes pf g @ fl)) st)) =
    run_actions pf env (moved info ops' (inside None (Some fl) st'))"
proof -
  have nr: "no_row_next [byte CHR '')'']" by (simp add: no_row_next_def pq_peekmsgbyte_def)
  from run_recs [OF assms(1,2) nr rec_steps_inside [OF assms(3), of "Some info" "Some fl"], of ops] assms(5)
  obtain ops' where o: "flats ops' = flats (ex_ops st')"
      "run_actions pf env (moved (chunk_bytes pf g) ops (inside (Some info) (Some fl) st)) =
       run_actions pf env (moved [byte CHR '')''] ops' (inside (Some info) (Some fl) st'))"
    by (auto simp: chunk_bytes_def)
  have "exec_action pf env (byte CHR '')'') (moved [] ops' (inside (Some info) (Some fl) st')) =
      Inr (moved info ops' (inside None (Some fl) st'), True)"
    by (simp add: exec_action_def leave_chunk_def)
  from run_action [OF assms(1) this] show ?thesis
    using o enter_chunk_run [OF assms(1,4)] by auto
qed

lemma run_chunks:
  assumes "proto_ok pf" and "pg_accepts env"
  shows "rec_steps pf env st (concat cks) st' \<Longrightarrow> list_all (\<lambda>g. length (chunk_bytes pf g) < 2 ^ 32) cks \<Longrightarrow>
    flats ops = flats (ex_ops st) \<Longrightarrow>
    \<exists>ops'. flats ops' = flats (ex_ops st') \<and>
      run_actions pf env (moved (concat (map (\<lambda>g. chunk_head pf (chunk_bytes pf g)) cks) @ info) ops
        (inside None (Some (concat (map (chunk_bytes pf) cks) @ fl)) st)) =
      run_actions pf env (moved info ops' (inside None (Some fl) st'))"
proof (induction cks arbitrary: st ops)
  case Nil
  then show ?case by (auto elim: rec_steps_NilE)
next
  case (Cons g cks)
  from Cons.prems(1) obtain st1 where s: "rec_steps pf env st g st1" "rec_steps pf env st1 (concat cks) st'"
    by (auto elim: rec_steps_splitE)
  from run_chunk [OF assms s(1) _ Cons.prems(3), of "concat (map (\<lambda>g. chunk_head pf (chunk_bytes pf g)) cks) @ info"
      "concat (map (chunk_bytes pf) cks) @ fl"] Cons.prems(2)
  obtain ops1 where "flats ops1 = flats (ex_ops st1)"
      "run_actions pf env (moved (concat (map (\<lambda>g. chunk_head pf (chunk_bytes pf g)) (g # cks)) @ info) ops
         (inside None (Some (concat (map (chunk_bytes pf) (g # cks)) @ fl)) st)) =
       run_actions pf env (moved (concat (map (\<lambda>g. chunk_head pf (chunk_bytes pf g)) cks) @ info) ops1
         (inside None (Some (concat (map (chunk_bytes pf) cks) @ fl)) st1))"
    by auto
  with Cons.IH [OF s(2)] Cons.prems(2) show ?case by auto
qed

lemma open_spill_run:
  assumes "proto_ok pf" and "int32_ok sender" and "int32_ok f" and "ae_files env sender f = Some d"
  shows "run_actions pf env (moved (spill_head pf sender f @ info) ops (inside None None st)) =
    run_actions pf env (moved info ops (inside None (Some d) st))"
proof -
  have s: "sint (word_of_int i :: uint32) = i" if "int32_ok i" for i
    using that by (simp add: int32_ok_def sint_sbintrunc' signed_take_bit_int_eq_self)
  have "exec_action pf env (byte CHR ''F'') (moved (pq_sendint32 pf (word_of_int sender) @ pq_sendint32 pf (word_of_int f) @ info)
      ops (inside None None st)) = Inr (moved info ops (inside None (Some d) st), True)"
    using assms by (simp add: exec_action_def open_spill_def wire_simps s)
  from run_action [OF assms(1) this] show ?thesis
    using assms(1) by (simp add: spill_head_def wire_simps)
qed

fun work_of :: "execution \<Rightarrow> bytes" where
  "work_of (Run_here w) = w"
| "work_of (Run_in_pool w) = w"

lemma work_of_execute [simp]: "work_of (MtmExecute mode w np) = w"
  by (simp add: MtmExecute_def)

definition idle :: "recv \<Rightarrow> bool" where
  "idle rv \<longleftrightarrow> rv_buf rv = [] \<and> rv_spill rv = None \<and> rv_info rv = []"

definition spill_files :: "apply_env \<Rightarrow> recv \<Rightarrow> apply_env" where
  "spill_files env rv = env\<lparr>ae_files := (\<lambda>n. if n = ae_sender env then rv_files rv else (\<lambda>_. None))\<rparr>"

lemma spill_files_simps [simp]:
  "ae_cat (spill_files env rv) = ae_cat env" "ae_sender (spill_files env rv) = ae_sender env"
  "pg_accepts (spill_files env rv) = pg_accepts env" "ae_files (spill_files env rv) (ae_sender env) = rv_files rv"
  by (simp_all add: spill_files_def pg_accepts_def)

lemma rec_steps_spill_files: "rec_steps pf env st ws st' \<Longrightarrow> rec_steps pf (spill_files env rv) st ws st'"
  by (simp add: spill_files_def rec_steps_files)

lemma start_exec_moved: "start_exec w m = moved w [] (inside None None (start_exec [] m))"
  by (simp add: start_exec_def moved_def inside_def)


lemma run_collected:
  assumes "proto_ok pf" and "pg_accepts env" and "rec_steps pf env st0 ws st" and "ex_tx st"
    and "txn_ok priv txn" and "ending \<noteq> End_abort" and "my_node_id (dec_cfg priv) = ae_sender env"
    and "flats ops = flats (ex_ops st0)"
  shows "\<exists>st'. run_actions pf env (moved (encs pf ws @ end_bytes pf priv ending txn lsn @ rest) ops (inside sv sp st0)) = Some (Inr st') \<and>
    flats (ex_ops st') = flats (ex_ops st) @ [Finish_xact (end_of priv txn) (end_event ending txn)] \<and> ex_map st' = ex_map st"
proof -
  from run_recs [OF assms(1,2) end_stmt(4) [OF assms(1), of priv ending txn lsn rest] rec_steps_inside [OF assms(3), of sv sp], of ops] assms(8)
  obtain ops' where o: "flats ops' = flats (ex_ops st)"
      "run_actions pf env (moved (encs pf ws @ end_bytes pf priv ending txn lsn @ rest) ops (inside sv sp st0)) =
       run_actions pf env (moved (end_bytes pf priv ending txn lsn @ rest) ops' (inside sv sp st))"
    by auto
  from run_end [OF assms(1,2,5,6,7), of "inside sv sp st" lsn rest ops'] assms(4) o show ?thesis by auto
qed

lemma apply_buffer:
  assumes "proto_ok pf" and "pg_accepts env" and "rec_steps pf env (start_exec [] m) ws st" and "ex_tx st"
    and "txn_ok priv txn" and "ending \<noteq> End_abort" and "my_node_id (dec_cfg priv) = ae_sender env"
  shows "\<exists>st'. run_actions pf env (start_exec (encs pf ws @ end_bytes pf priv ending txn lsn) m) = Some (Inr st') \<and>
    flats (ex_ops st') = flats (ex_ops st) @ [Finish_xact (end_of priv txn) (end_event ending txn)] \<and> ex_map st' = ex_map st"
  using run_collected [OF assms, of "[]" lsn "[]" None None] by (simp add: start_exec_def moved_def inside_def)

lemma apply_spilled:
  assumes "proto_ok pf" and "pg_accepts env" and "rec_steps pf env (start_exec [] m) (concat cks @ g) st" and "ex_tx st"
    and "txn_ok priv txn" and "ending \<noteq> End_abort" and "my_node_id (dec_cfg priv) = ae_sender env"
    and "int32_ok (ae_sender env)" and "int32_ok f" and "list_all (\<lambda>g. length (chunk_bytes pf g) < 2 ^ 32) cks"
    and b: "b = encs pf g @ end_bytes pf priv ending txn lsn @ [byte CHR '')'']" and "length b < 2 ^ 32"
    and "ae_files env (ae_sender env) f = Some (concat (map (chunk_bytes pf) cks) @ b)"
  shows "\<exists>st'. run_actions pf env (start_exec (spill_head pf (ae_sender env) f @
        concat (map (\<lambda>g. chunk_head pf (chunk_bytes pf g)) cks) @ chunk_head pf b) m) = Some (Inr st') \<and>
    flats (ex_ops st') = flats (ex_ops st) @ [Finish_xact (end_of priv txn) (end_event ending txn)] \<and> ex_map st' = ex_map st"
proof -
  from assms(3) obtain st1 where s: "rec_steps pf env (start_exec [] m) (concat cks) st1" "rec_steps pf env st1 g st"
    by (rule rec_steps_splitE)
  from run_chunks [OF assms(1,2) s(1) assms(10), of "[]" "chunk_head pf b" b] obtain ops1 where o:
      "flats ops1 = flats (ex_ops st1)"
      "run_actions pf env (moved (concat (map (\<lambda>g. chunk_head pf (chunk_bytes pf g)) cks) @ chunk_head pf b) []
         (inside None (Some (concat (map (chunk_bytes pf) cks) @ b)) (start_exec [] m))) =
       run_actions pf env (moved (chunk_head pf b) ops1 (inside None (Some b) st1))"
    by (auto simp: start_exec_def)
  from run_collected [OF assms(1,2) s(2) assms(4-7) o(1), of lsn "[byte CHR '')'']" "Some []" "Some []"] show ?thesis
    using o(2) enter_chunk_run [OF assms(1,12), of env "[]" ops1 "[]" st1] b
      open_spill_run [OF assms(1,8,9,13)]
    by (simp add: start_exec_moved [of "_ @ _"])
qed

lemma recv_end_skips:
  assumes "collected pf sender f ws cb rv" and "flt cb = Inr True"
  shows "\<exists>rv'. recv_end pf mode flt cb rv = Inr (rv', []) \<and> idle rv'"
  using assms by (auto simp: recv_end_def idle_def collected_def split: option.splits)

lemma recv_end_applies:
  assumes "proto_ok pf" and "pg_accepts env" and "rec_steps pf env (start_exec [] m) ws st" and "ex_tx st"
    and "txn_ok priv txn" and "ending \<noteq> End_abort" and "my_node_id (dec_cfg priv) = ae_sender env"
    and "int32_ok (ae_sender env)" and "int32_ok f"
    and cb: "cb = end_bytes pf priv ending txn lsn" and "collected pf (ae_sender env) f ws cb rv" and "flt cb = Inr False"
  shows "\<exists>rv' x st'. recv_end pf mode flt cb rv = Inr (rv', [x]) \<and> idle rv' \<and>
    run_actions pf (spill_files env rv') (start_exec (work_of x) m) = Some (Inr st') \<and>
    flats (ex_ops st') = flats (ex_ops st) @ [Finish_xact (end_of priv txn) (end_event ending txn)] \<and> ex_map st' = ex_map st"
proof (cases "rv_spill rv")
  case None
  let ?rv = "rv\<lparr>rv_buf := []\<rparr>"
  have "rv_info rv = []" "rv_buf rv = encs pf ws @ cb"
    using None assms(11) by (auto simp: collected_def)
  moreover have "second_byte cb \<noteq> Some EV_ABORT" using end_stmt(3) [OF assms(1)] assms(6) cb by simp
  ultimately have "recv_end pf mode flt cb rv = Inr (?rv, [MtmExecute mode (encs pf ws @ cb) (second_byte cb = Some EV_COMMIT)])"
      "idle ?rv"
    using None assms(12) by (simp_all add: recv_end_def idle_def)
  moreover have "\<exists>st'. run_actions pf (spill_files env ?rv) (start_exec (encs pf ws @ cb) m) = Some (Inr st') \<and>
      flats (ex_ops st') = flats (ex_ops st) @ [Finish_xact (end_of priv txn) (end_event ending txn)] \<and> ex_map st' = ex_map st"
    unfolding cb using assms(1-7) by (intro apply_buffer) (simp_all add: rec_steps_spill_files)
  ultimately show ?thesis by auto
next
  case (Some f')
  then obtain cks g where c: "f' = f"
      "rv_info rv = spill_head pf (ae_sender env) f @ concat (map (\<lambda>g. chunk_head pf (chunk_bytes pf g)) cks)"
      "rv_files rv f = Some (concat (map (chunk_bytes pf) cks))" "list_all (\<lambda>g. length (chunk_bytes pf g) < 2 ^ 32) cks"
      "rv_buf rv = encs pf g @ cb" "ws = concat cks @ g" "length (rv_buf rv) + 1 < 2 ^ 32"
    using assms(11) by (auto simp: collected_def)
  let ?b = "encs pf g @ cb @ [byte CHR '')'']"
  let ?rv = "(spill_chunk pf rv)\<lparr>rv_spill := None, rv_info := [], rv_buf := []\<rparr>"
  have "second_byte cb \<noteq> Some EV_ABORT" using end_stmt(3) [OF assms(1)] assms(6) cb by simp
  then have "recv_end pf mode flt cb rv = Inr (?rv, [MtmExecute mode (rv_info (spill_chunk pf rv)) False])" "idle ?rv"
    using Some assms(12) by (simp_all add: recv_end_def idle_def Let_def)
  moreover have "rv_info (spill_chunk pf rv) = spill_head pf (ae_sender env) f @
      concat (map (\<lambda>g. chunk_head pf (chunk_bytes pf g)) cks) @ chunk_head pf ?b"
    using Some c by (simp add: spill_chunk_def chunk_head_def Let_def)
  moreover have "rv_files ?rv f = Some (concat (map (chunk_bytes pf) cks) @ ?b)"
    using Some c by (simp add: spill_chunk_def MtmSpillToFile_def Let_def)
  then have "\<exists>st'. run_actions pf (spill_files env ?rv) (start_exec (spill_head pf (ae_sender (spill_files env ?rv)) f @
        concat (map (\<lambda>g. chunk_head pf (chunk_bytes pf g)) cks) @ chunk_head pf ?b) m) = Some (Inr st') \<and>
      flats (ex_ops st') = flats (ex_ops st) @ [Finish_xact (end_of priv txn) (end_event ending txn)] \<and> ex_map st' = ex_map st"
    using assms(1-9) c rec_steps_spill_files [OF assms(3)]
    by (intro apply_spilled [where g = g and lsn = lsn]) (simp_all add: cb)
  ultimately show ?thesis by auto
qed

lemma recv_all_append:
  "recv_all pf mode sender thr flt (ms @ ms') rv =
     sbind (recv_all pf mode sender thr flt ms rv) (\<lambda>(rv, xs).
     sbind (recv_all pf mode sender thr flt ms' rv) (\<lambda>(rv, ys). Inr (rv, xs @ ys)))"
  by (induction ms arbitrary: rv) (auto simp: sbind_def split: sum.splits prod.splits)

lemma flats_on_peer [simp]: "(\<And>rel'. flat (f rel') = [f rel']) \<Longrightarrow> flats (on_peer cat' rel f) = on_peer cat' rel f"
  by (simp add: on_peer_def split: option.splits)

lemma flats_change_ops: "flats (change_ops cat cat' lcl ddl ch) = change_ops cat cat' lcl ddl ch"
  by (cases "(cat, cat', lcl, ddl, ch)" rule: change_ops.cases) (auto split: option.splits)

lemma flats_txn_ops: "flats (txn_ops cat cat' lcl ddl chs) = txn_ops cat cat' lcl ddl chs"
  by (induction chs arbitrary: ddl) (simp_all add: flats_change_ops)

section \<open>From the log of one node to the tables of another\<close>

text \<open>
  A sender and a receiver between transactions: the libraries keep their contracts, Postgres of the
  receiver raises no error, the receiver knows relations by their right names, nothing is pending.
\<close>

definition linked :: "decode_env \<Rightarrow> apply_env \<Rightarrow> nat \<Rightarrow> decoder \<Rightarrow> relid_map \<Rightarrow> recv \<Rightarrow> bool" where
  "linked de env thr d m rv \<longleftrightarrow> proto_ok (de_pf de) \<and> plugin_ok (de_api de) \<and> pg_accepts env \<and>
     \<not> prepared_write (dc_ctx d) \<and> sender_ok (dc_snd d) \<and> map_ok (de_cat de) (ae_cat env) m \<and>
     my_node_id (dec_cfg (de_priv de)) = ae_sender env \<and> int32_ok (ae_sender env) \<and>
     idle rv \<and> int32_ok (rv_file_id rv + 1) \<and> thr * 1024 \<le> 2 ^ 32"

definition good_txn :: "decode_env \<Rightarrow> apply_env \<Rightarrow> ReorderBufferTXN \<Rightarrow> change list \<Rightarrow> ending \<Rightarrow> bool" where
  "good_txn de env txn chs ending \<longleftrightarrow> txn_ok (de_priv de) txn \<and> ending \<noteq> End_abort \<and>
     list_all (change_ok (de_cat de) (ae_cat env) (de_want_binary de) (de_local de)) chs \<and> \<not> foldl ddl_after False chs"

text \<open>All messages of a transaction are collected before the end is looked at.\<close>

lemma recv_until_end:
  assumes "proto_ok pf" and "thr * 1024 \<le> 2 ^ 32" and "idle rv" and "list_all plain_rec (concat gs)"
    and cb: "cb = end_bytes pf priv ending txn lsn" and hdrs: "headers hdrs (map (encs pf) gs @ [cb])"
    and short: "list_all (\<lambda>b. length b + 1 < 2 ^ 32) (map (encs pf) gs @ [cb])"
  obtains rv1 where "collected pf sender (rv_file_id rv + 1) (concat gs) cb rv1"
    and "recv_all pf mode sender thr flt (copy_data hdrs (map (encs pf) gs @ [cb])) rv =
      sbind (recv_end pf mode flt cb rv1) (\<lambda>(rv, xs). Inr (rv, map Exec xs))"
proof -
  obtain hs h where h: "hdrs = hs @ [h]" "length hs = length gs" "list_all (\<lambda>h. length h = 24) hs" "length h = 24"
    using hdrs by (cases hdrs rule: rev_cases) (auto simp: headers_def)
  have "list_all2 (\<lambda>h g. length h = 24 \<and> list_all plain_rec g \<and> length (encs pf g) + 1 < 2 ^ 32) hs gs"
    using h assms(4) short by (auto simp: list_all2_conv_all_nth list_all_iff)
  moreover have "collected pf sender (rv_file_id rv + 1) [] [] rv"
    using assms(3) by (simp add: collected_def idle_def)
  ultimately obtain rv1 where r1: "recv_all pf mode sender thr flt (copy_data hs (map (encs pf) gs)) rv = Inr (rv1, [])"
      "collected pf sender (rv_file_id rv + 1) (concat gs) [] rv1"
    using recv_messages [OF assms(2), of pf hs gs sender "rv_file_id rv + 1" "[]" rv mode flt] by auto
  let ?rv = "collect pf sender thr cb rv1"
  have "cb \<noteq> []"
    using end_stmt(1) [OF assms(1), of priv ending txn lsn] cb by (auto simp: pq_peekmsgbyte_def)
  then have "recv_copybuf pf mode sender thr flt (byte CHR ''w'' # h @ cb) rv1 =
      sbind (recv_end pf mode flt cb ?rv) (\<lambda>(rv, xs). Inr (rv, map Exec xs))"
    using h(4) end_stmt(1,2) [OF assms(1)] cb by (simp add: recv_data recv_stmt_def Let_def)
  moreover have "copy_data hdrs (map (encs pf) gs @ [cb]) = copy_data hs (map (encs pf) gs) @ [byte CHR ''w'' # h @ cb]"
    using h(1,2) by (simp add: copy_data_def)
  ultimately have "recv_all pf mode sender thr flt (copy_data hdrs (map (encs pf) gs @ [cb])) rv =
      sbind (recv_end pf mode flt cb ?rv) (\<lambda>(rv, xs). Inr (rv, map Exec xs))"
    using r1(1) by (simp add: recv_all_append) (simp add: sbind_def split: sum.splits)
  moreover have "collected pf sender (rv_file_id rv + 1) (concat gs) cb ?rv"
    using collect_collected [OF r1(2) _ assms(2), of cb] short by simp
  ultimately show thesis using that by blast
qed

text \<open>The requests a transaction amounts to at the receiver.\<close>

definition replayed :: "decode_env \<Rightarrow> apply_env \<Rightarrow> ReorderBufferTXN \<Rightarrow> change list \<Rightarrow> ending \<Rightarrow> dbop list" where
  "replayed de env txn chs ending = Start_transaction (txn_xid txn) #
     txn_ops (de_cat de) (ae_cat env) (de_local de) False chs @ [Finish_xact (end_of (de_priv de) txn) (end_event ending txn)]"

lemma receive_txn:
  assumes "linked de env thr d m rv" and "good_txn de env txn chs ending"
    and steps: "rec_steps (de_pf de) env (start_exec [] m) (concat gs) st" "ex_tx st"
    and ops: "flats (ex_ops st) @ [Finish_xact (end_of (de_priv de) txn) (end_event ending txn)] = ops"
    and m: "map_ok (de_cat de) (ae_cat env) (ex_map st)"
    and cb: "cb = end_bytes (de_pf de) (de_priv de) ending txn lsn"
    and hdrs: "headers hdrs (map (encs (de_pf de)) gs @ [cb])"
    and short: "list_all (\<lambda>b. length b + 1 < 2 ^ 32) (map (encs (de_pf de)) gs @ [cb])"
    and dec: "filter_decision (ae_me env) spvector fmap (origin_of (de_priv de) txn) (fin_lsn (end_of (de_priv de) txn)) = Inr skip"
  shows "\<exists>rv' xs. recv_all (de_pf de) (ae_mode env) (ae_sender env) thr
      (MtmFilterTransaction (de_pf de) (ae_me env) (ae_sender env) spvector fmap)
      (copy_data hdrs (map (encs (de_pf de)) gs @ [cb])) rv = Inr (rv', map Exec xs) \<and> idle rv' \<and>
    (if skip then xs = []
     else \<exists>x st. xs = [x] \<and> MtmExecutor (de_pf de) (spill_files env rv') dests (work_of x) m = Some (Exec_done st) \<and>
       flats (ex_ops st) = ops \<and> map_ok (de_cat de) (ae_cat env) (ex_map st))"
proof -
  let ?pf = "de_pf de" and ?s = "ae_sender env"
  let ?flt = "MtmFilterTransaction ?pf (ae_me env) ?s spvector fmap"
  have l: "proto_ok ?pf" "pg_accepts env" "my_node_id (dec_cfg (de_priv de)) = ?s" "int32_ok ?s" "idle rv"
      "int32_ok (rv_file_id rv + 1)" "thr * 1024 \<le> 2 ^ 32"
    and t: "txn_ok (de_priv de) txn" "ending \<noteq> End_abort"
    using assms(1,2) by (simp_all add: linked_def good_txn_def)
  have flt: "?flt cb = Inr skip"
    using filter_end [OF l(1) t, of "ae_me env" spvector fmap lsn] dec l(3) cb by simp
  obtain rv1 where col: "collected ?pf ?s (rv_file_id rv + 1) (concat gs) cb rv1"
    and whole: "recv_all ?pf (ae_mode env) ?s thr ?flt (copy_data hdrs (map (encs ?pf) gs @ [cb])) rv =
      sbind (recv_end ?pf (ae_mode env) ?flt cb rv1) (\<lambda>(rv, xs). Inr (rv, map Exec xs))"
    by (rule recv_until_end [OF l(1,7,5) rec_steps_plain [OF steps(1)] cb hdrs short])
  show ?thesis
  proof (cases skip)
    case True
    then show ?thesis
      using recv_end_skips [OF col, of ?flt "ae_mode env"] flt whole by auto
  next
    case False
    from recv_end_applies [OF l(1,2) steps t l(3,4,6) cb col, of ?flt "ae_mode env"] flt False
    obtain rv' x st' where "recv_end ?pf (ae_mode env) ?flt cb rv1 = Inr (rv', [x])" "idle rv'"
        "run_actions ?pf (spill_files env rv') (start_exec (work_of x) m) = Some (Inr st')"
        "flats (ex_ops st') = ops" "ex_map st' = ex_map st"
      using ops by auto
    then show ?thesis
      using whole False m by (auto simp: MtmExecutor_def intro!: exI [of _ rv'] exI [of _ "[x]"])
  qed
qed

text \<open>
  C4. A transaction is replayed exactly. A node decodes a transaction and sends it as messages of any
  lengths below 4 GB; the other node collects them, in memory or chunk by chunk in a spill file, and
  either skips the whole, when its filter says so, or hands it over once. The executor then ends and has asked Postgres,
  up to the grouping of inserts, for precisely the changes of the transaction in their order, without rows of local
  tables and of commands that are replayed themselves, inside one transaction that it ends with the
  gid, state, origin and position of the original. Both sides are then ready for the next one.
\<close>

theorem transaction_replayed:
  assumes "linked de env thr d m rv" and "good_txn de env txn chs ending"
    and "\<not> pg_decode_origin_filter de (txn_origin_id txn)"
    and "filter_decision (ae_me env) spvector fmap (origin_of (de_priv de) txn) (fin_lsn (end_of (de_priv de) txn)) = Inr skip"
  shows "\<exists>d' ms. decode_txn de txn chs ending lsn d = Inr d' \<and> sent (dc_ctx d') = sent (dc_ctx d) @ ms \<and>
    (\<forall>hdrs. headers hdrs ms \<longrightarrow> list_all (\<lambda>b. length b + 1 < 2 ^ 32) ms \<longrightarrow>
      (\<exists>rv' xs. recv_all (de_pf de) (ae_mode env) (ae_sender env) thr
          (MtmFilterTransaction (de_pf de) (ae_me env) (ae_sender env) spvector fmap) (copy_data hdrs ms) rv =
            Inr (rv', map Exec xs) \<and>
        (if skip then xs = [] \<and> (int32_ok (rv_file_id rv' + 1) \<longrightarrow> linked de env thr d' m rv')
         else \<exists>x st. xs = [x] \<and> MtmExecutor (de_pf de) (spill_files env rv') dests (work_of x) m = Some (Exec_done st) \<and>
           flats (ex_ops st) = replayed de env txn chs ending \<and>
           (int32_ok (rv_file_id rv' + 1) \<longrightarrow> linked de env thr d' (ex_map st) rv'))))"
proof -
  let ?pf = "de_pf de" and ?cb = "end_bytes (de_pf de) (de_priv de) ending txn lsn"
  have l: "proto_ok ?pf" "plugin_ok (de_api de)" "\<not> prepared_write (dc_ctx d)" "sender_ok (dc_snd d)"
      "map_ok (de_cat de) (ae_cat env) m" "my_node_id (dec_cfg (de_priv de)) = ae_sender env" "int32_ok (ae_sender env)"
    and t: "txn_ok (de_priv de) txn" "ending \<noteq> End_abort"
      "list_all (change_ok (de_cat de) (ae_cat env) (de_want_binary de) (de_local de)) chs" "\<not> foldl ddl_after False chs"
    using assms(1,2) by (simp_all add: linked_def good_txn_def)
  from decode_txn_sends [OF l(1-3) assms(3) l(4-7) t, of lsn] obtain d' gs st where
      dt: "decode_txn de txn chs ending lsn d = Inr d'"
        "sent (dc_ctx d') = sent (dc_ctx d) @ startup d @ map (encs ?pf) gs @ [?cb]" "\<not> prepared_write (dc_ctx d')" "sender_ok (dc_snd d')"
    and st: "rec_steps ?pf env (start_exec [] m) (concat gs) st" "ex_tx st" "map_ok (de_cat de) (ae_cat env) (ex_map st)"
      "ex_ops st = Start_transaction (txn_xid txn) # txn_ops (de_cat de) (ae_cat env) (de_local de) False chs"
    by metis
  define gs' where "gs' = (if startup_message_sent d then [] else [[]]) @ gs"
  have ms: "startup d @ map (encs ?pf) gs @ [?cb] = map (encs ?pf) gs' @ [?cb]" and rs: "rec_steps ?pf env (start_exec [] m) (concat gs') st"
    using st(1) by (simp_all add: gs'_def startup_def)
  have ops: "flats (ex_ops st) @ [Finish_xact (end_of (de_priv de) txn) (end_event ending txn)] = replayed de env txn chs ending"
    using st(4) flats_txn_ops by (simp add: replayed_def)
  have next_linked: "linked de env thr d' m' rv'"
    if "idle rv'" "int32_ok (rv_file_id rv' + 1)" "map_ok (de_cat de) (ae_cat env) m'" for m' rv'
    using assms(1) that dt(3,4) by (simp add: linked_def)
  show ?thesis
  proof (rule exI [of _ d'], rule exI [of _ "map (encs ?pf) gs' @ [?cb]"], intro conjI allI impI)
    show "decode_txn de txn chs ending lsn d = Inr d'" by (fact dt(1))
    show "sent (dc_ctx d') = sent (dc_ctx d) @ (map (encs ?pf) gs' @ [?cb])" using dt(2) ms by simp
  next
    fix hdrs
    assume h: "headers hdrs (map (encs ?pf) gs' @ [?cb])" "list_all (\<lambda>b. length b + 1 < 2 ^ 32) (map (encs ?pf) gs' @ [?cb])"
    from receive_txn [OF assms(1,2) rs st(2) ops st(3) refl h assms(4), of dests] obtain rv' xs where
        r: "recv_all ?pf (ae_mode env) (ae_sender env) thr
          (MtmFilterTransaction ?pf (ae_me env) (ae_sender env) spvector fmap) (copy_data hdrs (map (encs ?pf) gs' @ [?cb])) rv =
            Inr (rv', map Exec xs)" "idle rv'"
        "if skip then xs = []
         else \<exists>x st. xs = [x] \<and> MtmExecutor ?pf (spill_files env rv') dests (work_of x) m = Some (Exec_done st) \<and>
           flats (ex_ops st) = replayed de env txn chs ending \<and> map_ok (de_cat de) (ae_cat env) (ex_map st)"
      by blast
    show "\<exists>rv' xs. recv_all ?pf (ae_mode env) (ae_sender env) thr
          (MtmFilterTransaction ?pf (ae_me env) (ae_sender env) spvector fmap) (copy_data hdrs (map (encs ?pf) gs' @ [?cb])) rv =
            Inr (rv', map Exec xs) \<and>
        (if skip then xs = [] \<and> (int32_ok (rv_file_id rv' + 1) \<longrightarrow> linked de env thr d' m rv')
         else \<exists>x st. xs = [x] \<and> MtmExecutor ?pf (spill_files env rv') dests (work_of x) m = Some (Exec_done st) \<and>
           flats (ex_ops st) = replayed de env txn chs ending \<and>
           (int32_ok (rv_file_id rv' + 1) \<longrightarrow> linked de env thr d' (ex_map st) rv'))"
      using r next_linked [OF r(2)] l(5) by (intro exI [of _ rv'] exI [of _ xs]) (auto split: if_splits)
  qed
qed

section \<open>Two nodes and one row\<close>

definition network_proto :: protoformat where
  "network_proto = pqformat.extend network_pq (protoformat.fields
     (\<lambda>w. send_be 2 (unat w)) (\<lambda>d. d) (\<lambda>s. map byte_of_char s @ [0])
     (get_be 2) (\<lambda>n s. if n \<le> length s then Some (take n s, drop n s) else None) (pq_getmsgrawstring network_pq))"

lemma network_proto_simps [simp]:
  "pq_sendbyte network_proto b = [b]" "pq_sendint32 network_proto w = send_be 4 (unat w)"
  "pq_sendint64 network_proto v = send_be 8 (unat v)" "pq_sendint16 network_proto u = send_be 2 (unat u)"
  "pq_sendbytes network_proto d = d" "pq_sendstring network_proto s = map byte_of_char s @ [0]"
  by (simp_all add: network_proto_def network_pq_def pqformat.defs protoformat.defs)

lemma network_proto_ok: "proto_ok network_proto"
  unfolding proto_ok_def
  by (simp add: network_proto_def network_pq_def pqformat.defs protoformat.defs get_send_be ascii_byte
    del: send_be.simps map_map)

definition message_api :: plugin where
  "message_api = \<lparr>OutputPluginPrepareWrite = (\<lambda>c. c\<lparr>prepared_write := True, out := []\<rparr>),
     OutputPluginWrite = (\<lambda>c. c\<lparr>prepared_write := False, sent := sent c @ [out c]\<rparr>)\<rparr>"

definition a_table :: relation where
  "a_table = \<lparr>rel_oid = 16385, rel_nspname = Some ''public'', rel_relname = ''t'',
     rel_desc = [\<lparr>atttypid = 23, attlen = 4, attbyval = True, attisdropped = False, atttypmod = -1\<rparr>],
     rel_relkind = CHR ''r''\<rparr>"

definition a_catalogue :: catalogue where
  "a_catalogue = \<lparr>SearchTypeOid = (\<lambda>t. if t = 23 then Some \<lparr>typtype = CHR ''b'', typelem = 0\<rparr> else None),
     OidOutputFunctionCall = (\<lambda>_ _. []), OidInputFunctionCall = (\<lambda>_ _ _. None),
     RangeVarGetRelid = (\<lambda>nsp n. if nsp = ''public'' \<and> n = ''t'' then Some 16385 else None),
     table_open = (\<lambda>r. if r = 16385 then Some a_table else None),
     RelationGetReplicaIndex = (\<lambda>_. 0), RelationGetPrimaryKeyIndex = (\<lambda>_. 0),
     tuple_len = (\<lambda>_ _. 28), heap_scan = (\<lambda>_. [])\<rparr>"

definition a_sender :: decode_env where
  "a_sender = \<lparr>de_api = message_api, de_pf = network_proto, de_cat = a_catalogue, de_want_binary = True,
     de_priv = \<lparr>dec_receiver = 2, dec_is_recovery = False, dec_cfg = \<lparr>my_node_id = 1, backup_node_id = 0, backup_end_lsn = 0, nodes = [], cfg_mask = 3\<rparr>\<rparr>,
     de_local = (\<lambda>_. False), de_forward = False\<rparr>"

definition a_decoder :: decoder where
  "a_decoder = \<lparr>dc_ctx = \<lparr>prepared_write = False, out = [], sent = []\<rparr>,
     dc_snd = \<lparr>sent_map = None, MtmSenderTID = 0, MtmLastRelId = 0, DDLInProgress = False,
       MtmTransactionRecords = 0, MtmCurrentXid = 0\<rparr>, startup_message_sent = False\<rparr>"

definition an_applier :: apply_env where
  "an_applier = \<lparr>ae_mode = REPLMODE_NORMAL, ae_sender = 1, ae_me = 2, ae_backup = False, ae_cat = a_catalogue,
     ae_pg = (\<lambda>_. None), ae_reconnect = (\<lambda>_. False), ae_files = (\<lambda>_ _. None)\<rparr>"

definition a_receiver :: recv where
  "a_receiver = \<lparr>rv_buf = [], rv_spill = None, rv_info = [], rv_file_id = 0, rv_files = (\<lambda>_. None)\<rparr>"

definition a_txn :: ReorderBufferTXN where
  "a_txn = \<lparr>txn_xid = 700, txn_origin_id = 0, txn_origin_lsn = 0, txn_end_lsn = 4096, txn_commit_time = 9,
     txn_gid = ''MTM-1-700'', txn_state_3pc = ''x'', txn_state_3pc_change = False\<rparr>"

definition a_row :: heap_tuple where
  "a_row = [Some (Inline [0, 0, 0, 5])]"

lemmas sample_defs = a_table_def a_catalogue_def a_sender_def a_decoder_def an_applier_def a_receiver_def a_txn_def
  a_row_def message_api_def

lemma sample_linked: "linked a_sender an_applier 100 a_decoder None a_receiver"
  by (simp add: sample_defs linked_def network_proto_ok plugin_ok_def pg_accepts_def sender_ok_def map_ok_def
    pglogical_relid_map_get_def int32_ok_def idle_def)

lemma sample_good: "good_txn a_sender an_applier a_txn [Ch_insert a_table a_row] End_prepare"
  by (simp add: sample_defs good_txn_def txn_ok_def origin_of_def InvalidRepOriginId_def ascii_def Ch_rel_ok_def
    peer_rel_def rel_ok_def name_ok_def row_ok_def transfers_def same_column_def decide_datum_transfer_def
    image_fits_def byval_len_def FirstNormalObjectId_def LOCAL_TABLES_def no_nul_def byte_def)

lemma sample_sends:
  "\<exists>d' m1 m2. decode_txn a_sender a_txn [Ch_insert a_table a_row] End_prepare 4000 a_decoder = Inr d' \<and>
     sent (dc_ctx d') = [[], m1, m2] \<and> length m1 < 1000 \<and> length m2 < 1000"
  by (simp add: sample_defs decode_txn_def pg_decode_origin_filter_def MtmReplicationTxnFilterHook_def
    InvalidRepOriginId_def pg_decode_begin_txn_def send_startup_message_def put_def MtmOutputPluginPrepareWrite_def
    MtmOutputPluginWrite_def pglogical_write_begin_def sendchar_def pg_decode_rel_def MtmReplicationRowFilterHook_def
    pglogical_write_rel_def OUTPUT_BUFFER_SIZE_def Let_def pglogical_relid_map_get_def pglogical_relid_map_put_def 
    pglogical_write_insert_def pglogical_write_tuple_def write_column_def decide_datum_transfer_def FirstNormalObjectId_def
    write_binary_def byval_len_def nliveatts_def count_record_def pg_decode_prepare_txn_def keeping_def pglogical_write_prepare_def
    write_fixed_def send_node_id_def c_bytes_def del: send_be.simps)

theorem transaction_replayed_witness:
  "\<exists>d' ms hdrs rv' x st.
     decode_txn a_sender a_txn [Ch_insert a_table a_row] End_prepare 4000 a_decoder = Inr d' \<and> sent (dc_ctx d') = ms \<and>
     recv_all network_proto REPLMODE_NORMAL 1 100 (MtmFilterTransaction network_proto 2 1 [\<lparr>sp_origin_lsn = 8, sp_local_lsn = 8\<rparr>] [])
       (copy_data hdrs ms) a_receiver = Inr (rv', [Exec x]) \<and>
     MtmExecutor network_proto (spill_files an_applier rv') (\<lambda>_. 0) (work_of x) None = Some (Exec_done st) \<and>
     flats (ex_ops st) = [Start_transaction 700, Insert 16385 [Some (Inline [0, 0, 0, 5])],
       Finish_xact \<lparr>fin_origin_node = 1, fin_lsn = 4096, fin_time = 9\<rparr> (PGLOGICAL_PREPARE ''MTM-1-700'' ''x'')]"
proof -
  obtain d' m1 m2 where d: "decode_txn a_sender a_txn [Ch_insert a_table a_row] End_prepare 4000 a_decoder = Inr d'"
      "sent (dc_ctx d') = [[], m1, m2]" "length m1 < 1000" "length m2 < 1000"
    using sample_sends by blast
  let ?h = "replicate 24 0 :: bytes"
  have f: "filter_decision (ae_me an_applier) [\<lparr>sp_origin_lsn = 8, sp_local_lsn = 8\<rparr>] [] (origin_of (de_priv a_sender) a_txn)
      (fin_lsn (end_of (de_priv a_sender) a_txn)) = Inr False" "\<not> pg_decode_origin_filter a_sender (txn_origin_id a_txn)"
    by (simp_all add: sample_defs filter_decision_def origin_of_def end_of_def InvalidRepOriginId_def spv_def nth_opt_def
      pg_decode_origin_filter_def MtmReplicationTxnFilterHook_def)
  have h: "headers [?h, ?h, ?h] [[], m1, m2]" "list_all (\<lambda>b. length b + 1 < 2 ^ 32) [[], m1, m2]"
    using d(3,4) by (simp_all add: headers_def)
  have r: "replayed a_sender an_applier a_txn [Ch_insert a_table a_row] End_prepare =
      [Start_transaction 700, Insert 16385 [Some (Inline [0, 0, 0, 5])],
       Finish_xact \<lparr>fin_origin_node = 1, fin_lsn = 4096, fin_time = 9\<rparr> (PGLOGICAL_PREPARE ''MTM-1-700'' ''x'')]"
    by (simp add: sample_defs replayed_def on_peer_def peer_rel_def tuple_to_slot_def received_row_def received_def
      end_of_def origin_of_def InvalidRepOriginId_def)
  have p: "de_pf a_sender = network_proto" "ae_mode an_applier = REPLMODE_NORMAL" "ae_sender an_applier = 1" "ae_me an_applier = 2"
      "sent (dc_ctx a_decoder) = []"
    by (simp_all add: sample_defs)
  from transaction_replayed [OF sample_linked sample_good f(2,1), of 4000 "\<lambda>_. 0"] obtain d'' ms where
      t: "decode_txn a_sender a_txn [Ch_insert a_table a_row] End_prepare 4000 a_decoder = Inr d''" "sent (dc_ctx d'') = ms"
      "\<And>hdrs. headers hdrs ms \<Longrightarrow> list_all (\<lambda>b. length b + 1 < 2 ^ 32) ms \<Longrightarrow>
        \<exists>rv' x st. recv_all network_proto REPLMODE_NORMAL 1 100
          (MtmFilterTransaction network_proto 2 1 [\<lparr>sp_origin_lsn = 8, sp_local_lsn = 8\<rparr>] []) (copy_data hdrs ms) a_receiver = Inr (rv', [Exec x]) \<and>
        MtmExecutor network_proto (spill_files an_applier rv') (\<lambda>_. 0) (work_of x) None = Some (Exec_done st) \<and>
        flats (ex_ops st) = replayed a_sender an_applier a_txn [Ch_insert a_table a_row] End_prepare"
    unfolding p by fastforce
  then have "ms = [[], m1, m2]" using d by simp
  with t h r show ?thesis by metis
qed

end
