(* ===== verification/Syncpoint_Forward.thy ===== *)
theory Syncpoint_Forward
  imports Pglogical_Replay
begin

text \<open>
  A synchronization point on its way through the cluster: the node that receives it directly logs it
  again with its origin and position, and a third node that recovers from there reads both back, in
  the filter of the receiver and in the executor.
\<close>

section \<open>The text of a forwarded point\<close>

lemma scan_prefix [scan_simps]:
  "scan_all (lits ''F_'' @ fs) b (CHR ''F'' # CHR ''_'' # rest) = scan_all fs b rest"
  "scan_all (lits ''_'' @ fs) b (CHR ''_'' # rest) = scan_all fs b rest"
  using scan_all_lits [of "''F_''" fs b rest] scan_all_lits [of "''_''" fs b rest] by simp_all

lemma scan_forwarded: "sscanf forwarded_format (forward_syncpoint origin lsn) = (2, [Arg_int origin, Arg_int (uint lsn)])"
proof -
  have "stops 10 (CHR ''_'' # print_hex lsn)" by (simp add: isdigit_def digit_value_def)
  then have "scan_all forwarded_format False (forward_syncpoint origin lsn) =
      (let (vs, e) = scan_all [Conv_X] True (print_hex lsn) in (Arg_int origin # vs, e))"
    by (simp add: forwarded_format_def forward_syncpoint_def scan_simps del: scan_all.simps)
  moreover have "scan_all [Conv_X] True (print_hex lsn) = ([Arg_int (uint lsn)], False)"
    using scan_all_X [of "[]" "[]" True lsn, OF stops_Nil] unfolding append_Nil2 scan_all.simps(1) by simp
  ultimately show ?thesis by (simp add: sscanf_def)
qed

lemma length_print_nat: "2 \<le> base \<Longrightarrow> n < base ^ k \<Longrightarrow> 0 < k \<Longrightarrow> length (print_nat base n) \<le> k"
proof (induction k arbitrary: n)
  case (Suc k)
  show ?case
  proof (cases "n < base")
    case True
    then show ?thesis by (subst print_nat.simps) simp
  next
    case False
    then have "0 < k" using Suc.prems by (cases k) auto
    moreover have "n div base < base ^ k" using Suc.prems by (simp add: less_mult_imp_div_less mult.commute)
    ultimately have "length (print_nat base (n div base)) \<le> k" using Suc by simp
    with False Suc.prems(1) show ?thesis by (subst print_nat.simps) simp
  qed
qed simp

lemma isdigit_no_nul: "base \<le> 16 \<Longrightarrow> isdigit base c \<Longrightarrow> byte c \<noteq> 0"
proof
  assume d: "base \<le> 16" "isdigit base c" and "byte c = 0"
  then have "of_char c = (0 :: nat)" using unat_byte [of c] by simp
  with d show False by (simp add: isdigit_def digit_value_def)
qed

lemma no_nul_print: "2 \<le> base \<Longrightarrow> base \<le> 16 \<Longrightarrow> no_nul (print_nat base n)"
  using print_nat_digits [of base n] by (auto simp: no_nul_def list_all_iff isdigit_no_nul)

lemma forwarded_text:
  assumes "int32_ok origin"
  shows "no_nul (forward_syncpoint origin lsn)" and "length (forward_syncpoint origin lsn) < 100"
    and "is_forwarded (forward_syncpoint origin lsn)"
proof -
  have "nat \<bar>origin\<bar> < 10 ^ 10" using assms by (auto simp: int32_ok_def)
  then have "length (print_nat 10 (nat \<bar>origin\<bar>)) \<le> 10" by (intro length_print_nat) auto
  then have "length (print_int origin) \<le> 11" by (auto simp: print_int_def abs_if)
  moreover have "unat lsn < 16 ^ 16" using unsigned_less [of lsn, where 'a = nat] by simp
  then have "length (print_hex lsn) \<le> 16" unfolding print_hex_def by (intro length_print_nat) auto
  ultimately show "length (forward_syncpoint origin lsn) < 100" by (simp add: forward_syncpoint_def)
  have "no_nul (print_int origin)" "no_nul (print_hex lsn)"
    using no_nul_print [of 10] no_nul_print [of 16] by (auto simp: print_int_def print_hex_def no_nul_def byte_def)
  then show "no_nul (forward_syncpoint origin lsn)" by (auto simp: forward_syncpoint_def no_nul_def byte_def)
  show "is_forwarded (forward_syncpoint origin lsn)" by (simp add: is_forwarded_def forward_syncpoint_def)
qed

section \<open>Logged by one node, read by another\<close>

lemma forwarded_filter:
  assumes "proto_ok pf" and "int32_ok origin" and "sender \<noteq> origin"
    and b: "c_string b = forward_syncpoint origin lsn" "length b < 2 ^ 32"
  shows "MtmFilterTransaction pf me sender spvector fmap (write_M pf CHR ''S'' log_lsn b) =
    filter_decision me spvector fmap origin lsn"
  using assms forwarded_text(3) [OF assms(2), of lsn]
  by (simp add: MtmFilterTransaction_def write_M_def wire_simps read_origin_M_def scan_forwarded arg_int_def arg_word_def nth_opt_def
    split: sum.splits)

lemma forwarded_message:
  assumes "proto_ok pf" and "pg_accepts env" and "ae_mode env = REPLMODE_RECOVERY" and "int32_ok origin"
    and b: "c_string b = forward_syncpoint origin lsn" "length b < 2 ^ 32"
  shows "\<exists>st. MtmExecutor pf env dests (write_M pf CHR ''S'' log_lsn b) m = Some (Exec_done st) \<and>
    ex_ops st = Wait_sphead # (if origin = ae_me env then [] else [Register_syncpoint origin lsn None, Wakeup_receivers])"
  unfolding MtmExecutor_def
  using assms forwarded_text(3) [OF assms(4), of lsn]
  by (subst run_actions.simps) (auto simp: start_exec_def write_M_def wire_simps exec_action_def process_remote_message_def
    process_syncpoint_def scan_forwarded arg_int_def arg_word_def nth_opt_def emit_op_def Let_def)

text \<open>
  C18. A synchronization point keeps its origin and position when it is forwarded. The node that
  receives it directly registers it and logs it again; decoded there and sent on its own, it is
  recognized by the filter of a third node that recovers from that node as belonging to the origin
  and the position at the origin, and unless it is skipped the executor there waits for the appliers
  and registers the same origin and position, or drops it when the point was its own.
\<close>

theorem syncpoint_forwarded:
  assumes "proto_ok (de_pf de)" and "plugin_ok (de_api de)" and "\<not> prepared_write (dc_ctx d)"
    and "pg_accepts env" and "ae_sender env \<noteq> ae_me env" and "int32_ok (ae_sender env)"
    and "pg_accepts env'" and "ae_mode env' = REPLMODE_RECOVERY" and "ae_sender env' \<noteq> ae_sender env"
  shows "\<exists>msg st' d' stmt st2.
    process_syncpoint env [] lsn st = Inr st' \<and>
    ex_ops st' = ex_ops st @ Wait_sphead # Register_syncpoint (ae_sender env) lsn (Some msg) #
      (if ae_mode env = REPLMODE_RECOVERY then [Wakeup_receivers] else []) \<and>
    pg_decode_message de False log_lsn CHR ''S'' (Text (c_bytes msg)) d = Inr d' \<and>
    sent (dc_ctx d') = sent (dc_ctx d) @ [stmt] \<and>
    recv_stmt (de_pf de) REPLMODE_RECOVERY (ae_sender env') thr
        (MtmFilterTransaction (de_pf de) (ae_me env') (ae_sender env') spvector fmap) stmt rv =
      sbind (filter_decision (ae_me env') spvector fmap (ae_sender env) lsn) (\<lambda>skip.
        Inr (rv, if skip then [] else [Run_here stmt])) \<and>
    MtmExecutor (de_pf de) env' dests stmt m = Some (Exec_done st2) \<and>
    ex_ops st2 = Wait_sphead # (if ae_sender env = ae_me env' then []
      else [Register_syncpoint (ae_sender env) lsn None, Wakeup_receivers])"
proof -
  let ?pf = "de_pf de" and ?msg = "forward_syncpoint (ae_sender env) lsn"
  let ?stmt = "write_M ?pf CHR ''S'' log_lsn (c_bytes ?msg)"
  have b: "c_string (c_bytes ?msg) = ?msg" "length (c_bytes ?msg) < 2 ^ 32"
    using forwarded_text [OF assms(6), of lsn] by simp_all
  obtain st' where st': "process_syncpoint env [] lsn st = Inr st'"
      "ex_ops st' = ex_ops st @ Wait_sphead # Register_syncpoint (ae_sender env) lsn (Some ?msg) #
        (if ae_mode env = REPLMODE_RECOVERY then [Wakeup_receivers] else [])"
    using assms(4,5)
    by (cases "ae_mode env = REPLMODE_RECOVERY") (auto simp: process_syncpoint_def is_forwarded_def emit_op_def Let_def)
  obtain s' where "pglogical_write_message ?pf (de_cat de) (de_want_binary de) (de_priv de) log_lsn CHR ''S'' (Text (c_bytes ?msg))
      (dc_snd d) = Inr (?stmt, s')"
    by (simp add: pglogical_write_message_def Let_def)
  from put_fresh [OF assms(2,3), of "pglogical_write_message ?pf (de_cat de) (de_want_binary de) (de_priv de) log_lsn CHR ''S'' (Text (c_bytes ?msg))",
      OF this, of True]
  obtain d' where d': "pg_decode_message de False log_lsn CHR ''S'' (Text (c_bytes ?msg)) d = Inr d'"
      "sent (dc_ctx d') = sent (dc_ctx d) @ [?stmt]"
    by (auto simp: pg_decode_message_def)
  from forwarded_message [OF assms(1,7,8,6) b, of dests log_lsn m] obtain st2 where st2:
      "MtmExecutor ?pf env' dests ?stmt m = Some (Exec_done st2)"
      "ex_ops st2 = Wait_sphead # (if ae_sender env = ae_me env' then []
        else [Register_syncpoint (ae_sender env) lsn None, Wakeup_receivers])"
    by auto
  have S: "pq_peekmsgbyte ?stmt = Some (byte CHR ''M'')" "second_byte ?stmt = Some (byte CHR ''S'')"
    using assms(1) by (simp_all add: write_M_def wire_simps pq_peekmsgbyte_def second_byte_def nth_opt_def)
  have "recv_stmt ?pf REPLMODE_RECOVERY (ae_sender env') thr
        (MtmFilterTransaction ?pf (ae_me env') (ae_sender env') spvector fmap) ?stmt rv =
      sbind (filter_decision (ae_me env') spvector fmap (ae_sender env) lsn) (\<lambda>skip.
        Inr (rv, if skip then [] else [Run_here ?stmt]))"
    using forwarded_filter [OF assms(1,6,9) b]
    by (simp add: recv_stmt_def standalone_stmt_def S recv_standalone_def MtmExecute_def sbind_def split: sum.splits)
  with st' d' st2 show ?thesis by blast
qed

theorem syncpoint_forwarded_witness:
  "\<exists>msg st' d' stmt st2.
    process_syncpoint an_applier [] 4096 (start_exec [] None) = Inr st' \<and>
    ex_ops st' = [Wait_sphead, Register_syncpoint 1 4096 (Some msg)] \<and>
    pg_decode_message a_sender False 5000 CHR ''S'' (Text (c_bytes msg)) a_decoder = Inr d' \<and>
    sent (dc_ctx d') = [stmt] \<and>
    MtmExecutor network_proto (an_applier\<lparr>ae_mode := REPLMODE_RECOVERY, ae_sender := 2, ae_me := 3\<rparr>) (\<lambda>_. 0) stmt None = Some (Exec_done st2) \<and>
    ex_ops st2 = [Wait_sphead, Register_syncpoint 1 4096 None, Wakeup_receivers]"
proof -
  let ?env' = "an_applier\<lparr>ae_mode := REPLMODE_RECOVERY, ae_sender := 2, ae_me := 3\<rparr>"
  have l: "proto_ok (de_pf a_sender)" "plugin_ok (de_api a_sender)" "\<not> prepared_write (dc_ctx a_decoder)" "pg_accepts an_applier"
    using sample_linked by (simp_all add: linked_def)
  have e: "ae_sender an_applier \<noteq> ae_me an_applier" "int32_ok (ae_sender an_applier)" "pg_accepts ?env'"
      "ae_mode ?env' = REPLMODE_RECOVERY" "ae_sender ?env' \<noteq> ae_sender an_applier"
    using l(4) by (simp_all add: an_applier_def int32_ok_def pg_accepts_def)
  have p: "de_pf a_sender = network_proto" "ae_sender an_applier = 1" "ae_mode an_applier = REPLMODE_NORMAL"
      "sent (dc_ctx a_decoder) = []" "ex_ops (start_exec [] None) = []" "ae_me ?env' = 3"
    by (simp_all add: an_applier_def a_sender_def a_decoder_def start_exec_def)
  from syncpoint_forwarded [OF l e, of 4096 "start_exec [] None" 5000 100 some_points "[]" a_receiver "\<lambda>_. 0" None]
  show ?thesis unfolding p by auto
qed

end
