(* ===== verification/Ddl.thy ===== *)
theory Ddl
  imports Pglogical_Replay
begin

text \<open>
  Replication of the data definition language (\<open>src/src/ddl.c\<close>): which utility statements a backend
  sends to the other nodes and with which settings, which queries, and which transactions need the
  commit sequence. What Postgres does with a statement is an argument: the list of things it does in
  turn, among them further statements, which come through the same hooks.
\<close>

section \<open>Statements\<close>

datatype trans_kind =
  TRANS_STMT_COMMIT | TRANS_STMT_PREPARE | TRANS_STMT_COMMIT_PREPARED | TRANS_STMT_ROLLBACK_PREPARED | TRANS_STMT_OTHER

datatype var_kind = VAR_SET_VALUE | VAR_SET_DEFAULT | VAR_SET_CURRENT | VAR_SET_MULTI | VAR_RESET | VAR_RESET_ALL

datatype discard_target = DISCARD_ALL | DISCARD_PLANS | DISCARD_SEQUENCES | DISCARD_TEMP

datatype remove_type =
  OBJECT_INDEX | OBJECT_TABLE | OBJECT_SEQUENCE | OBJECT_VIEW | OBJECT_MATVIEW | OBJECT_FOREIGN_TABLE | OBJECT_FUNCTION | OBJECT_OTHER

text \<open>Statements that only concern the node itself.\<close>

datatype local_tag =
  T_PlannedStmt | T_FetchStmt | T_DoStmt | T_CallStmt | T_CommentStmt | T_PrepareStmt | T_ExecuteStmt
| T_DeallocateStmt | T_NotifyStmt | T_ListenStmt | T_UnlistenStmt | T_LoadStmt | T_ClusterStmt | T_VariableShowStmt
| T_ReassignOwnedStmt | T_LockStmt | T_CheckPointStmt | T_ReindexStmt | T_AlterSystemStmt | T_CreatedbStmt
| T_DropdbStmt | T_DeclareCursorStmt | T_ClosePortalStmt | T_VacuumStmt

type_synonym def_elem = "string \<times> int"

datatype stmt =
  TransactionStmt trans_kind bool string
| Local_stmt local_tag
| CreateSeqStmt "def_elem list"
| CreateTableSpaceStmt
| DropTableSpaceStmt
| ExplainStmt bool "string list"
| DiscardStmt discard_target
| VariableSetStmt var_kind "string option"
| IndexStmt bool
| DropStmt remove_type bool bool
| CopyStmt bool bool
| AlterEnumStmt
| CreateFunctionStmt
| Other_stmt

datatype ddl_err = Ddl_error string | Ddl_assert | Null_pointer

section \<open>The state of a backend\<close>

text \<open>
  The calls of the commit sequence that a transaction statement makes are recorded; the sequence
  itself is the subject of \<open>Commit\<close>. The log holds what the backend writes, with the flag of a
  transactional entry. The statement being replicated is identified by its depth in the nesting.
\<close>

datatype commit_call = Call_TwoPhaseCommit | Call_ExplicitPrepare string | Call_ExplicitFinishPrepared string bool

record ddl_state =
  MtmGucHash :: "string list option"
  MtmGucList :: "string list"
  MtmTempSchema :: string
  TempDropRegistered :: bool
  MtmDDLStatement :: "nat option"
  contains_ddl :: bool
  contains_dml :: bool
  guc_value :: "string \<Rightarrow> string option"
  MtmLocalTables :: "Oid list"
  localTablesHashLoaded :: bool
  commit_calls :: "commit_call list"
  wal :: "(bool \<times> change) list"

record ddl_env =
  dd_node :: int
  dd_backend :: int
  dd_enabled :: bool
  dd_cfg :: MtmConfig
  dd_in_block :: bool
  dd_aborted :: bool
  dd_two_phase :: bool
  dd_volkswagen :: bool
  dd_monotonic :: bool
  dd_same_user :: bool
  dd_use_role :: bool
  dd_user_name :: string
  dd_quoted :: "string \<Rightarrow> bool"
  dd_lsn :: "nat \<Rightarrow> XLogRecPtr"
  dd_ignore_without_pk :: bool
  dd_relid :: "string \<Rightarrow> string \<Rightarrow> Oid"
  dd_local_rows :: "(string \<times> string) list"

definition LogLogicalMessage :: "ddl_env \<Rightarrow> bool \<Rightarrow> char \<Rightarrow> payload \<Rightarrow> ddl_state \<Rightarrow> ddl_state" where
  "LogLogicalMessage env transactional prefix message s =
     s\<lparr>wal := wal s @ [(transactional, Ch_message (dd_lsn env (length (wal s))) prefix message)]\<rparr>"

section \<open>Settings of the session\<close>

definition MtmGucDiscard :: "ddl_state \<Rightarrow> ddl_state" where
  "MtmGucDiscard s = (if MtmGucList s = [] then s else s\<lparr>MtmGucList := [], MtmGucHash := None\<rparr>)"

text \<open>The settings start with the user of the session.\<close>

definition guc_enter :: "string \<Rightarrow> string list \<Rightarrow> ddl_state \<Rightarrow> ddl_state" where
  "guc_enter key h s =
     s\<lparr>MtmGucHash := Some (List.insert key h),
       MtmGucList := (if key \<in> set h then remove1 key (MtmGucList s) else MtmGucList s) @ [key]\<rparr>"

definition MtmGucInit :: "ddl_state \<Rightarrow> ddl_state" where
  "MtmGucInit s = guc_enter ''session_authorization'' [] s"

definition guc_started :: "ddl_state \<Rightarrow> ddl_state" where
  "guc_started s = (if MtmGucHash s = None then MtmGucInit s else s)"

definition MtmGucUpdate :: "string \<Rightarrow> ddl_state \<Rightarrow> ddl_state" where
  "MtmGucUpdate key s =
     (let s = guc_started s in guc_enter key (case MtmGucHash s of None \<Rightarrow> [] | Some h \<Rightarrow> h) s)"

definition MtmGucRemove :: "string \<Rightarrow> ddl_state \<Rightarrow> ddl_state" where
  "MtmGucRemove key s =
     (let s = guc_started s
      in case MtmGucHash s of None \<Rightarrow> s
         | Some h \<Rightarrow>
             if key \<in> set h then s\<lparr>MtmGucList := remove1 key (MtmGucList s), MtmGucHash := Some (removeAll key h)\<rparr>
             else s)"

definition MtmGucSet :: "var_kind \<Rightarrow> string option \<Rightarrow> ddl_state \<Rightarrow> ddl_err + ddl_state" where
  "MtmGucSet kind vname s =
     (let s = guc_started s
      in case kind of
           VAR_RESET_ALL \<Rightarrow> Inr (MtmGucDiscard s)
         | VAR_SET_CURRENT \<Rightarrow> Inr s
         | VAR_SET_MULTI \<Rightarrow> Inr s
         | VAR_SET_VALUE \<Rightarrow> (case vname of None \<Rightarrow> Inl Null_pointer | Some n \<Rightarrow> Inr (MtmGucUpdate n s))
         | VAR_SET_DEFAULT \<Rightarrow> (case vname of None \<Rightarrow> Inl Null_pointer | Some n \<Rightarrow> Inr (MtmGucRemove n s))
         | VAR_RESET \<Rightarrow>
             (case vname of None \<Rightarrow> Inl Null_pointer
              | Some n \<Rightarrow> Inr (MtmGucRemove n (if n = ''session_authorization'' then MtmGucRemove ''role'' s else s))))"

definition guc_text :: "ddl_env \<Rightarrow> string \<Rightarrow> string \<Rightarrow> string" where
  "guc_text env key v =
     ''SET '' @ key @ '' TO '' @ (if dd_quoted env key then CHR 0x27 # v @ [CHR 0x27] else v) @ ''; ''"

fun guc_texts :: "ddl_env \<Rightarrow> (string \<Rightarrow> string option) \<Rightarrow> string list \<Rightarrow> ddl_err + string" where
  "guc_texts env val [] = Inr []"
| "guc_texts env val (key # keys) =
     (if key = ''search_path'' then guc_texts env val keys
      else case (if key = ''session_authorization'' then Some (dd_user_name env) else val key) of
        None \<Rightarrow> Inl (Ddl_error ''unrecognized configuration parameter'')
      | Some v \<Rightarrow> sbind (guc_texts env val keys) (\<lambda>rest. Inr (guc_text env key v @ rest)))"

definition adjust_role :: "ddl_env \<Rightarrow> ddl_state \<Rightarrow> ddl_state" where
  "adjust_role env s =
     (let h = (case MtmGucHash s of None \<Rightarrow> [] | Some h \<Rightarrow> h)
      in if ''session_authorization'' \<in> set h
         then if ''role'' \<in> set h \<and> dd_same_user env then MtmGucRemove ''role'' s
              else if ''role'' \<notin> set h \<and> \<not> dd_same_user env \<and> dd_use_role env then MtmGucUpdate ''role'' s
              else s
         else s)"

definition MtmGucSerialize :: "ddl_env \<Rightarrow> ddl_state \<Rightarrow> ddl_err + (string \<times> ddl_state)" where
  "MtmGucSerialize env s =
     (let s = guc_started s
      in if \<not> TempDropRegistered s then Inl Ddl_assert
         else let s = adjust_role env s
              in sbind (guc_texts env (guc_value s) (MtmGucList s)) (\<lambda>sets.
                   case guc_value s ''search_path'' of
                     None \<Rightarrow> Inl (Ddl_error ''unrecognized configuration parameter'')
                   | Some path \<Rightarrow>
                       Inr (''RESET session_authorization; '' @
                            ''select mtm.set_temp_schema('' @ quoted (MtmTempSchema s) @ ''); '' @ sets @
                            ''SET search_path TO '' @
                            (if path = [CHR 0x22, CHR 0x22] \<or> path = [] then [CHR 0x27, CHR 0x27] else path) @ ''; '', s)))"

section \<open>Sending a command\<close>

definition temp_schema_init :: "ddl_env \<Rightarrow> ddl_state \<Rightarrow> ddl_state" where
  "temp_schema_init env s =
     (if TempDropRegistered s then s
      else s\<lparr>MtmTempSchema := ''mtm_tmp_'' @ print_int (dd_node env) @ ''_'' @ print_int (dd_backend env),
             TempDropRegistered := True\<rparr>)"

definition MtmProcessDDLCommand :: "ddl_env \<Rightarrow> string \<Rightarrow> bool \<Rightarrow> bool \<Rightarrow> ddl_state \<Rightarrow> ddl_err + ddl_state" where
  "MtmProcessDDLCommand env query transactional concurrent s =
     (if transactional
      then sbind (MtmGucSerialize env (temp_schema_init env s)) (\<lambda>(gucCtx, s).
             Inr (LogLogicalMessage env True CHR ''D'' (Text (c_bytes (gucCtx @ '' '' @ query))) s))
      else Inr (LogLogicalMessage env False (if concurrent then CHR ''C'' else CHR ''V'') (Text (c_bytes query)) s))"

definition MtmFinishDDLCommand :: "ddl_env \<Rightarrow> ddl_state \<Rightarrow> ddl_state" where
  "MtmFinishDDLCommand env s = LogLogicalMessage env True CHR ''E'' (Text (c_bytes [])) s"

definition temp_schema_reset :: "ddl_env \<Rightarrow> ddl_state \<Rightarrow> ddl_err + ddl_state" where
  "temp_schema_reset env s =
     (if \<not> TempDropRegistered s then Inl Ddl_assert
      else sbind (MtmProcessDDLCommand env
                   (''RESET session_authorization; '' @
                    ''select mtm.set_temp_schema('' @ quoted (MtmTempSchema s) @ ''); '' @
                    ''DROP SCHEMA IF EXISTS '' @ MtmTempSchema s @ ''_toast CASCADE; '' @
                    ''DROP SCHEMA IF EXISTS '' @ MtmTempSchema s @ '' CASCADE;'') False False s)
             (\<lambda>s. Inr (MtmFinishDDLCommand env s)))"

text \<open>Without options, the sequences of the nodes go in steps of the greatest node number, each from its own number.\<close>

definition AdjustCreateSequence :: "ddl_env \<Rightarrow> def_elem list \<Rightarrow> def_elem list" where
  "AdjustCreateSequence env options =
     (if \<not> dd_enabled env then options
      else let has_increment = list_ex (\<lambda>(n, _). n = ''increment'') options;
               has_start = list_ex (\<lambda>(n, _). n = ''start'') options;
               max_node = foldl (\<lambda>m n. if m < node_id n then node_id n else m) (my_node_id (dd_cfg env)) (nodes (dd_cfg env));
               options = (if has_increment then options else options @ [(''increment'', max_node)])
           in if has_start then options else options @ [(''start'', dd_node env)])"

section \<open>Utility statements of a backend\<close>

datatype prep = Returned ddl_state | Proceed bool stmt ddl_state

definition SkipCommand :: "ddl_env \<Rightarrow> bool \<Rightarrow> stmt \<Rightarrow> ddl_state \<Rightarrow> ddl_err + prep" where
  "SkipCommand env skip st s = Inr (Proceed skip st (if skip then s else temp_schema_init env s))"

definition called :: "commit_call \<Rightarrow> ddl_state \<Rightarrow> ddl_state" where
  "called c s = s\<lparr>commit_calls := commit_calls s @ [c]\<rparr>"

text \<open>
  What a transaction statement does: a commit runs the commit sequence, and when that does not apply
  it is an ordinary commit.
\<close>

definition process_transaction :: "ddl_env \<Rightarrow> trans_kind \<Rightarrow> bool \<Rightarrow> string \<Rightarrow> ddl_state \<Rightarrow> ddl_err + prep" where
  "process_transaction env kind chain g s =
     (let st = TransactionStmt kind chain g
      in if (kind = TRANS_STMT_COMMIT \<or> kind = TRANS_STMT_PREPARE) \<and> dd_aborted env then Inr (Proceed True st s)
         else case kind of
           TRANS_STMT_COMMIT \<Rightarrow>
             if chain then Inl (Ddl_error ''COMMIT AND CHAIN is not supported'')
             else if dd_two_phase env then Inr (Returned (called Call_TwoPhaseCommit s))
             else SkipCommand env True st (called Call_TwoPhaseCommit s)
         | TRANS_STMT_PREPARE \<Rightarrow> Inr (Returned (called (Call_ExplicitPrepare g) s))
         | TRANS_STMT_COMMIT_PREPARED \<Rightarrow> Inr (Returned (called (Call_ExplicitFinishPrepared g True) s))
         | TRANS_STMT_ROLLBACK_PREPARED \<Rightarrow> Inr (Returned (called (Call_ExplicitFinishPrepared g False) s))
         | TRANS_STMT_OTHER \<Rightarrow> SkipCommand env True st s)"

definition process_set :: "ddl_env \<Rightarrow> var_kind \<Rightarrow> string option \<Rightarrow> ddl_state \<Rightarrow> ddl_err + prep" where
  "process_set env kind vname s =
     (let st = VariableSetStmt kind vname
      in if kind = VAR_SET_MULTI then Inr (Proceed True st s)
         else case vname of
           None \<Rightarrow> Inl Null_pointer
         | Some n \<Rightarrow> Inr (Proceed (n = ''application_name'' \<or> \<not> dd_in_block env) st s))"

definition process_discard :: "ddl_env \<Rightarrow> discard_target \<Rightarrow> ddl_state \<Rightarrow> ddl_err + prep" where
  "process_discard env target s =
     (let st = DiscardStmt target
      in if \<not> dd_in_block env \<and> target = DISCARD_ALL
         then sbind (if TempDropRegistered s then temp_schema_reset env s else Inr s) (\<lambda>s.
                Inr (Proceed True st (MtmGucDiscard s)))
         else if target \<noteq> DISCARD_TEMP then SkipCommand env True st s
         else Inr (Proceed False st s))"

text \<open>
  The statement before it is executed: whether it is sent, and with sequences made to fit. The table
  of a copy counts when it exists and its changes are logged.
\<close>

fun sender_case :: "ddl_env \<Rightarrow> bool \<Rightarrow> string \<Rightarrow> stmt \<Rightarrow> ddl_state \<Rightarrow> ddl_err + prep" where
  "sender_case env toplevel query (TransactionStmt kind chain g) s = process_transaction env kind chain g s"
| "sender_case env toplevel query (Local_stmt tag) s = SkipCommand env True (Local_stmt tag) s"
| "sender_case env toplevel query (CreateSeqStmt options) s =
     Inr (Proceed False (CreateSeqStmt (if dd_volkswagen env then options else AdjustCreateSequence env options)) s)"
| "sender_case env toplevel query CreateTableSpaceStmt s =
     sbind (MtmProcessDDLCommand env query False True s) (SkipCommand env True CreateTableSpaceStmt)"
| "sender_case env toplevel query DropTableSpaceStmt s =
     sbind (MtmProcessDDLCommand env query False True s) (SkipCommand env True DropTableSpaceStmt)"
| "sender_case env toplevel query (ExplainStmt create_as options) s =
     SkipCommand env (\<not> (create_as \<and> ''analyze'' \<in> set options)) (ExplainStmt create_as options) s"
| "sender_case env toplevel query (DiscardStmt target) s = process_discard env target s"
| "sender_case env toplevel query (VariableSetStmt kind vname) s = process_set env kind vname s"
| "sender_case env toplevel query (IndexStmt concurrent) s =
     (if concurrent \<and> toplevel then Inl (Ddl_error ''multimaster does not support CREATE INDEX CONCURRENTLY'')
      else Inr (Proceed False (IndexStmt concurrent) s))"
| "sender_case env toplevel query (DropStmt rt concurrent missing_ok) s =
     (if rt = OBJECT_INDEX \<and> concurrent \<and> toplevel
      then Inl (Ddl_error ''multimaster does not support DROP INDEX CONCURRENTLY'')
      else Inr (Proceed False (DropStmt rt concurrent missing_ok) s))"
| "sender_case env toplevel query (CopyStmt is_from logged_table) s =
     SkipCommand env True (CopyStmt is_from logged_table)
       (if is_from \<and> logged_table then s\<lparr>contains_dml := True\<rparr> else s)"
| "sender_case env toplevel query st s = SkipCommand env False st s"

definition guc_after :: "ddl_env \<Rightarrow> stmt \<Rightarrow> ddl_state \<Rightarrow> ddl_err + ddl_state" where
  "guc_after env st s =
     (case st of VariableSetStmt kind vname \<Rightarrow> if dd_in_block env then Inr s else MtmGucSet kind vname s | _ \<Rightarrow> Inr s)"

definition finish_statement :: "ddl_env \<Rightarrow> ddl_state \<Rightarrow> ddl_state" where
  "finish_statement env s = (MtmFinishDDLCommand env s)\<lparr>MtmDDLStatement := None, contains_ddl := True\<rparr>"

definition MtmProcessUtilitySender ::
  "ddl_env \<Rightarrow> nat \<Rightarrow> bool \<Rightarrow> string \<Rightarrow> stmt \<Rightarrow> (ddl_state \<Rightarrow> ddl_err + ddl_state) \<Rightarrow> ddl_state \<Rightarrow> ddl_err + ddl_state" where
  "MtmProcessUtilitySender env depth toplevel query st run s =
     sbind (sender_case env toplevel query st s) (\<lambda>p.
       case p of
         Returned s \<Rightarrow> Inr s
       | Proceed skip st s \<Rightarrow>
           (let executed = (\<not> skip \<and> MtmDDLStatement s = None)
            in sbind (if executed
                      then sbind (MtmProcessDDLCommand env query True False s) (\<lambda>s. Inr (s\<lparr>MtmDDLStatement := Some depth\<rparr>))
                      else Inr s) (\<lambda>s.
               sbind (run s) (\<lambda>s.
               sbind (guc_after env st s) (\<lambda>s.
               Inr (if executed then finish_statement env s else s))))))"

section \<open>Local tables\<close>

text \<open>
  The table of local tables is loaded from \<open>mtm.local_tables\<close> on first use; a name that is no
  relation is skipped.
\<close>

definition MtmMakeRelationLocal :: "Oid \<Rightarrow> ddl_state \<Rightarrow> ddl_state" where
  "MtmMakeRelationLocal relid s =
     (if relid \<noteq> InvalidOid then s\<lparr>MtmLocalTables := List.insert relid (MtmLocalTables s)\<rparr> else s)"

definition MtmMakeTableLocal :: "ddl_env \<Rightarrow> string \<Rightarrow> string \<Rightarrow> ddl_state \<Rightarrow> ddl_state" where
  "MtmMakeTableLocal env schema n s = MtmMakeRelationLocal (dd_relid env schema n) s"

definition MtmLoadLocalTables :: "ddl_env \<Rightarrow> ddl_state \<Rightarrow> ddl_state" where
  "MtmLoadLocalTables env s = foldl (\<lambda>s (schema, n). MtmMakeTableLocal env schema n s) s (dd_local_rows env)"

definition MtmIsRelationLocal :: "ddl_env \<Rightarrow> Oid \<Rightarrow> ddl_state \<Rightarrow> bool \<times> ddl_state" where
  "MtmIsRelationLocal env relid s =
     (let s = (if localTablesHashLoaded s then s else (MtmLoadLocalTables env s)\<lparr>localTablesHashLoaded := True\<rparr>)
      in (relid \<in> set (MtmLocalTables s), s))"

section \<open>Queries\<close>

text \<open>A query whose plan has a function from the list of remote functions is sent as a command.\<close>

definition MtmExecutorStart :: "ddl_env \<Rightarrow> nat \<Rightarrow> bool \<Rightarrow> bool \<Rightarrow> string \<Rightarrow> ddl_state \<Rightarrow> ddl_err + ddl_state" where
  "MtmExecutorStart env depth explain_only remote query s =
     (if \<not> explain_only \<and> MtmDDLStatement s = None \<and> dd_enabled env \<and> remote
      then sbind (MtmProcessDDLCommand env query True False s) (\<lambda>s.
             Inr (s\<lparr>MtmDDLStatement := Some depth, contains_ddl := True\<rparr>))
      else Inr s)"

text \<open>
  The result relations of a modifying query: a transaction needs the commit sequence when it changed
  a logged table that is not local. With the setting for tables without key, such a table is made
  local instead.
\<close>

record result_rel =
  rr_oid :: Oid
  rr_needs_wal :: bool
  rr_replident :: bool

fun note_modified :: "ddl_env \<Rightarrow> result_rel list \<Rightarrow> ddl_state \<Rightarrow> ddl_state" where
  "note_modified env [] s = s"
| "note_modified env (r # rs) s =
     (if \<not> rr_needs_wal r then note_modified env rs s
      else let (is_local, s) = MtmIsRelationLocal env (rr_oid r) s
           in if is_local then note_modified env rs s
              else if dd_ignore_without_pk env \<and> \<not> rr_replident r
              then note_modified env rs (MtmMakeRelationLocal (rr_oid r) s)
              else s\<lparr>contains_dml := True\<rparr>)"

definition MtmExecutorFinish ::
  "ddl_env \<Rightarrow> nat \<Rightarrow> result_rel list \<Rightarrow> (ddl_state \<Rightarrow> ddl_err + ddl_state) \<Rightarrow> ddl_state \<Rightarrow> ddl_err + ddl_state" where
  "MtmExecutorFinish env depth rels run s =
     (let s = (if dd_enabled env then note_modified env rels s else s)
      in sbind (run s) (\<lambda>s.
           Inr (if MtmDDLStatement s = Some depth \<and> dd_enabled env
                then (MtmFinishDDLCommand env s)\<lparr>MtmDDLStatement := None\<rparr> else s)))"

definition MtmSeqNextvalHook :: "ddl_env \<Rightarrow> Oid \<Rightarrow> uint64 \<Rightarrow> ddl_state \<Rightarrow> ddl_state" where
  "MtmSeqNextvalHook env seqid nxt s =
     (if dd_monotonic env \<and> dd_enabled env then LogLogicalMessage env True CHR ''N'' (MtmSeqPosition seqid nxt) s else s)"

section \<open>A transaction\<close>

text \<open>
  What happens in a transaction: statements with what they cause, queries with what they cause
  while running and when finished, changes of rows, values taken from sequences, settings, errors.
\<close>

datatype act =
  Utility bool string stmt "act list"
| Query bool bool string "result_rel list" "act list" "act list"
| Row change
| Nextval Oid uint64
| Assign string "string option"
| Fail string

fun run_acts :: "ddl_env \<Rightarrow> nat \<Rightarrow> act list \<Rightarrow> ddl_state \<Rightarrow> ddl_err + ddl_state" where
  "run_acts env depth [] s = Inr s"
| "run_acts env depth (Utility toplevel query st inner # acts) s =
     sbind (MtmProcessUtilitySender env depth toplevel query st (\<lambda>s. run_acts env (Suc depth) inner s) s)
       (\<lambda>s. run_acts env depth acts s)"
| "run_acts env depth (Query explain_only remote query rels inner final # acts) s =
     sbind (MtmExecutorStart env depth explain_only remote query s) (\<lambda>s.
     sbind (run_acts env (Suc depth) inner s) (\<lambda>s.
     sbind (MtmExecutorFinish env depth rels (\<lambda>s. run_acts env (Suc depth) final s) s)
       (\<lambda>s. run_acts env depth acts s)))"
| "run_acts env depth (Row ch # acts) s = run_acts env depth acts (s\<lparr>wal := wal s @ [(True, ch)]\<rparr>)"
| "run_acts env depth (Nextval seqid nxt # acts) s = run_acts env depth acts (MtmSeqNextvalHook env seqid nxt s)"
| "run_acts env depth (Assign key v # acts) s = run_acts env depth acts (s\<lparr>guc_value := (guc_value s)(key := v)\<rparr>)"
| "run_acts env depth (Fail m # acts) s = Inl (Ddl_error m)"

section \<open>What a transaction asks of the other nodes\<close>

text \<open>Which statements are sent, and which end in the commit sequence.\<close>

fun sent_stmt :: "ddl_env \<Rightarrow> stmt \<Rightarrow> bool" where
  "sent_stmt env (TransactionStmt kind chain g) = False"
| "sent_stmt env (Local_stmt tag) = False"
| "sent_stmt env CreateTableSpaceStmt = False"
| "sent_stmt env DropTableSpaceStmt = False"
| "sent_stmt env (ExplainStmt create_as options) = (create_as \<and> ''analyze'' \<in> set options)"
| "sent_stmt env (DiscardStmt target) = (target = DISCARD_TEMP)"
| "sent_stmt env (VariableSetStmt kind vname) =
     (kind \<noteq> VAR_SET_MULTI \<and> vname \<noteq> Some ''application_name'' \<and> dd_in_block env)"
| "sent_stmt env (CopyStmt is_from logged_table) = False"
| "sent_stmt env _ = True"

fun commits :: "ddl_env \<Rightarrow> stmt \<Rightarrow> bool" where
  "commits env (TransactionStmt kind chain g) =
     (\<not> ((kind = TRANS_STMT_COMMIT \<or> kind = TRANS_STMT_PREPARE) \<and> dd_aborted env) \<and>
      kind \<noteq> TRANS_STMT_OTHER \<and> (kind = TRANS_STMT_COMMIT \<longrightarrow> dd_two_phase env))"
| "commits env _ = False"

definition settings :: "ddl_env \<Rightarrow> string \<Rightarrow> bool" where
  "settings env g \<longleftrightarrow> (\<exists>s s'. MtmGucSerialize env s = Inr (g, s'))"

text \<open>
  The requests a transaction comes to at another node: a statement that is sent becomes one command
  with the settings of the session before it, whatever it changes itself; for one that is not sent
  the changes it makes count.
\<close>

inductive asks :: "ddl_env \<Rightarrow> catalogue \<Rightarrow> catalogue \<Rightarrow> (Oid \<Rightarrow> bool) \<Rightarrow> act list \<Rightarrow> dbop list \<Rightarrow> bool"
  for env cat cat' lcl where
  asks_nothing: "asks env cat cat' lcl [] []"
| asks_row: "asks env cat cat' lcl acts ops \<Longrightarrow>
    asks env cat cat' lcl (Row ch # acts) (change_ops cat cat' lcl False ch @ ops)"
| asks_nextval: "dd_monotonic env \<and> dd_enabled env \<Longrightarrow> asks env cat cat' lcl acts ops \<Longrightarrow>
    asks env cat cat' lcl (Nextval seqid nxt # acts)
      (change_ops cat cat' lcl False (Ch_message l CHR ''N'' (MtmSeqPosition seqid nxt)) @ ops)"
| asks_own_nextval: "\<not> (dd_monotonic env \<and> dd_enabled env) \<Longrightarrow> asks env cat cat' lcl acts ops \<Longrightarrow>
    asks env cat cat' lcl (Nextval seqid nxt # acts) ops"
| asks_assign: "asks env cat cat' lcl acts ops \<Longrightarrow> asks env cat cat' lcl (Assign key v # acts) ops"
| asks_command: "sent_stmt env st \<Longrightarrow> settings env g \<Longrightarrow> asks env cat cat' lcl acts ops \<Longrightarrow>
    asks env cat cat' lcl (Utility toplevel query st inner # acts) (DDL True (c_bytes (g @ '' '' @ query)) # ops)"
| asks_local: "\<not> sent_stmt env st \<Longrightarrow> \<not> commits env st \<Longrightarrow> asks env cat cat' lcl inner ops1 \<Longrightarrow> asks env cat cat' lcl acts ops \<Longrightarrow>
    asks env cat cat' lcl (Utility toplevel query st inner # acts) (ops1 @ ops)"
| asks_commit: "commits env st \<Longrightarrow> asks env cat cat' lcl acts ops \<Longrightarrow>
    asks env cat cat' lcl (Utility toplevel query st inner # acts) ops"
| asks_remote: "\<not> explain_only \<and> dd_enabled env \<and> remote \<Longrightarrow> settings env g \<Longrightarrow> asks env cat cat' lcl acts ops \<Longrightarrow>
    asks env cat cat' lcl (Query explain_only remote query rels inner final # acts) (DDL True (c_bytes (g @ '' '' @ query)) # ops)"
| asks_query: "\<not> (\<not> explain_only \<and> dd_enabled env \<and> remote) \<Longrightarrow> asks env cat cat' lcl inner ops1 \<Longrightarrow>
    asks env cat cat' lcl final ops2 \<Longrightarrow> asks env cat cat' lcl acts ops \<Longrightarrow>
    asks env cat cat' lcl (Query explain_only remote query rels inner final # acts) (ops1 @ ops2 @ ops)"

text \<open>
  Rows are rows. Postgres refuses \<open>DISCARD ALL\<close> inside another statement.
\<close>

fun is_row :: "change \<Rightarrow> bool" where
  "is_row (Ch_message lsn prefix message) = False"
| "is_row _ = True"

fun nested_ok :: "act list \<Rightarrow> bool" where
  "nested_ok [] = True"
| "nested_ok (Utility toplevel query st inner # acts) = (st \<noteq> DiscardStmt DISCARD_ALL \<and> nested_ok inner \<and> nested_ok acts)"
| "nested_ok (Query explain_only remote query rels inner final # acts) = (nested_ok inner \<and> nested_ok final \<and> nested_ok acts)"
| "nested_ok (Row ch # acts) = (is_row ch \<and> nested_ok acts)"
| "nested_ok (Nextval seqid nxt # acts) = nested_ok acts"
| "nested_ok (Assign key v # acts) = nested_ok acts"
| "nested_ok (Fail m # acts) = nested_ok acts"

fun acts_ok :: "act list \<Rightarrow> bool" where
  "acts_ok [] = True"
| "acts_ok (Utility toplevel query st inner # acts) = (nested_ok inner \<and> acts_ok acts)"
| "acts_ok (act # acts) = (nested_ok [act] \<and> acts_ok acts)"

section \<open>Frames\<close>

definition quiet :: "ddl_state \<Rightarrow> ddl_state \<Rightarrow> bool" where
  "quiet s s' \<longleftrightarrow> wal s' = wal s \<and> MtmDDLStatement s' = MtmDDLStatement s"

lemma quiet_refl [simp]: "quiet s s" by (simp add: quiet_def)

lemma quiet_trans: "quiet s s' \<Longrightarrow> quiet s' s'' \<Longrightarrow> quiet s s''" by (simp add: quiet_def)

lemma quiet_guc [simp]:
  "quiet s (guc_enter key h s)" "quiet s (MtmGucInit s)" "quiet s (guc_started s)" "quiet s (MtmGucDiscard s)"
  by (simp_all add: quiet_def guc_enter_def MtmGucInit_def guc_started_def MtmGucDiscard_def)

lemma quiet_update [simp]: "quiet s (MtmGucUpdate key s)"
  unfolding MtmGucUpdate_def Let_def by (rule quiet_trans [OF quiet_guc(3) quiet_guc(1)])

lemma quiet_remove [simp]: "quiet s (MtmGucRemove key s)"
  using quiet_guc(3) [of s] by (simp add: MtmGucRemove_def Let_def quiet_def split: option.splits)

lemma quiet_adjust [simp]: "quiet s (adjust_role env s)"
  by (simp add: adjust_role_def Let_def)

lemma quiet_temp [simp]: "quiet s (temp_schema_init env s)"
  by (simp add: temp_schema_init_def quiet_def)

lemma quiet_set: "MtmGucSet kind vname s = Inr s' \<Longrightarrow> quiet s s'"
  by (auto simp: MtmGucSet_def Let_def split: var_kind.splits option.splits if_splits
    intro: quiet_trans [OF quiet_guc(3)] quiet_trans [OF quiet_guc(3) quiet_trans [OF quiet_remove quiet_remove]])

lemma quiet_serialize: "MtmGucSerialize env s = Inr (g, s') \<Longrightarrow> quiet s s'"
  using quiet_trans [OF quiet_guc(3) quiet_adjust, of s env]
  by (auto simp: MtmGucSerialize_def Let_def sbind_Inr_iff split: if_splits option.splits)

lemma quiet_guc_after: "guc_after env st s = Inr s' \<Longrightarrow> quiet s s'"
  by (auto simp: guc_after_def quiet_set split: stmt.splits if_splits)

lemma quiet_load [simp]: "quiet s (MtmLoadLocalTables env s)"
proof -
  have "quiet s (foldl (\<lambda>s (schema, n). MtmMakeTableLocal env schema n s) s rs)" for rs
    by (induction rs arbitrary: s) (auto simp: MtmMakeTableLocal_def MtmMakeRelationLocal_def quiet_def)
  then show ?thesis by (simp add: MtmLoadLocalTables_def)
qed

lemma quiet_is_local: "MtmIsRelationLocal env relid s = (b, s') \<Longrightarrow> quiet s s'"
  using quiet_load [of s env] by (auto simp: MtmIsRelationLocal_def Let_def quiet_def split: if_splits)

lemma quiet_note [simp]: "quiet s (note_modified env rels s)"
proof (induction rels arbitrary: s)
  case (Cons r rels)
  obtain b s1 where l: "MtmIsRelationLocal env (rr_oid r) s = (b, s1)" by fastforce
  have m: "quiet s1 (MtmMakeRelationLocal (rr_oid r) s1)" by (simp add: quiet_def MtmMakeRelationLocal_def)
  show ?case
    using Cons.IH [of s] Cons.IH [of s1] Cons.IH [of "MtmMakeRelationLocal (rr_oid r) s1"] quiet_is_local [OF l] m l
    by (auto simp: quiet_def)
qed simp

section \<open>Commands in the log\<close>

text \<open>The entries decoded as part of the transaction.\<close>

definition txc :: "(bool \<times> change) list \<Rightarrow> change list" where
  "txc es = map snd (filter fst es)"

lemma txc_simps [simp]: "txc [] = []" "txc ((True, ch) # es) = ch # txc es" "txc ((False, ch) # es) = txc es"
  "txc (es @ es') = txc es @ txc es'"
  by (simp_all add: txc_def)

lemma process_ddl_tx:
  assumes "MtmProcessDDLCommand env query True b s = Inr s'"
  obtains g l where "settings env g" and "MtmDDLStatement s' = MtmDDLStatement s"
    and "wal s' = wal s @ [(True, Ch_message l CHR ''D'' (Text (c_bytes (g @ '' '' @ query))))]"
proof -
  from assms obtain g s1 where "MtmGucSerialize env (temp_schema_init env s) = Inr (g, s1)"
      "s' = LogLogicalMessage env True CHR ''D'' (Text (c_bytes (g @ '' '' @ query))) s1"
    by (auto simp: MtmProcessDDLCommand_def sbind_Inr_iff)
  moreover from this(1) have "quiet s s1" using quiet_trans [OF quiet_temp quiet_serialize] by blast
  ultimately show thesis
    using that [of g] by (auto simp: LogLogicalMessage_def quiet_def settings_def)
qed

definition is_end :: "change \<Rightarrow> bool" where
  "is_end ch = (\<exists>l. ch = Ch_message l CHR ''E'' (Text (c_bytes [])))"

definition prep_state :: "prep \<Rightarrow> ddl_state" where
  "prep_state p = (case p of Returned s \<Rightarrow> s | Proceed skip st s \<Rightarrow> s)"

text \<open>Before a statement is executed at most non-transactional commands are logged.\<close>

definition prepared_as :: "ddl_env \<Rightarrow> stmt \<Rightarrow> ddl_state \<Rightarrow> prep \<Rightarrow> bool" where
  "prepared_as env st s p \<longleftrightarrow> MtmDDLStatement (prep_state p) = MtmDDLStatement s \<and>
     (\<exists>new. wal (prep_state p) = wal s @ new \<and> list_all is_end (txc new) \<and> (st \<noteq> DiscardStmt DISCARD_ALL \<longrightarrow> txc new = [])) \<and>
     (case p of Returned _ \<Rightarrow> commits env st | Proceed skip st' _ \<Rightarrow> \<not> commits env st \<and> skip = (\<not> sent_stmt env st))"

lemma prepared_quiet:
  "quiet s s' \<Longrightarrow> \<not> commits env st \<Longrightarrow> skip = (\<not> sent_stmt env st) \<Longrightarrow> prepared_as env st s (Proceed skip st' s')"
  by (simp add: prepared_as_def prep_state_def quiet_def)

lemma prepared_skip:
  "SkipCommand env skip st' s1 = Inr p \<Longrightarrow> quiet s s1 \<Longrightarrow> \<not> commits env st \<Longrightarrow> skip = (\<not> sent_stmt env st) \<Longrightarrow> prepared_as env st s p"
  using quiet_trans [OF _ quiet_temp] by (auto simp: SkipCommand_def intro!: prepared_quiet)

lemma prepared_nontx:
  assumes "sbind (MtmProcessDDLCommand env query False b s) (SkipCommand env True st') = Inr p" and "\<not> sent_stmt env st" and "\<not> commits env st"
  shows "prepared_as env st s p"
  using assms by (auto simp: MtmProcessDDLCommand_def SkipCommand_def LogLogicalMessage_def prepared_as_def prep_state_def)

lemma prepared_transaction: "process_transaction env kind chain g s = Inr p \<Longrightarrow> prepared_as env (TransactionStmt kind chain g) s p"
  by (cases kind) (auto simp: process_transaction_def Let_def called_def SkipCommand_def prepared_as_def prep_state_def
    split: if_splits)

lemma prepared_discard:
  assumes "process_discard env target s = Inr p"
  shows "prepared_as env (DiscardStmt target) s p"
proof (cases "\<not> dd_in_block env \<and> target = DISCARD_ALL")
  case True
  with assms obtain s1 where s1: "(if TempDropRegistered s then temp_schema_reset env s else Inr s) = Inr s1"
      "p = Proceed True (DiscardStmt target) (MtmGucDiscard s1)"
    by (auto simp: process_discard_def sbind_Inr_iff)
  have "\<exists>new. wal s1 = wal s @ new \<and> list_all is_end (txc new) \<and> MtmDDLStatement s1 = MtmDDLStatement s"
    using s1(1) by (auto simp: temp_schema_reset_def MtmProcessDDLCommand_def MtmFinishDDLCommand_def LogLogicalMessage_def is_end_def
      split: if_splits)
  then show ?thesis
    using quiet_guc(4) [of s1] s1(2) True by (auto simp: prepared_as_def prep_state_def quiet_def)
next
  case False
  then show ?thesis
    using assms prepared_skip [of env True "DiscardStmt target" s p s "DiscardStmt target"]
      prepared_quiet [of s s env "DiscardStmt target" False "DiscardStmt target"]
    by (auto simp: process_discard_def Let_def split: if_splits)
qed

lemma sender_case_prepared:
  assumes "sender_case env toplevel query st s = Inr p"
  shows "prepared_as env st s p"
proof (cases "(env, toplevel, query, st, s)" rule: sender_case.cases)
  case (11 env' toplevel' query' is_from logged_table s')
  then show ?thesis
    using assms prepared_skip [of env True st "if is_from \<and> logged_table then s\<lparr>contains_dml := True\<rparr> else s" p s st]
    by (cases "is_from \<and> logged_table") (simp_all add: quiet_def)
qed (use assms in \<open>auto simp: prepared_transaction prepared_discard process_set_def Let_def split: if_splits option.splits
    intro: prepared_skip prepared_nontx prepared_quiet\<close>)

section \<open>Inside a command nothing is sent\<close>

definition silent :: "change \<Rightarrow> bool" where
  "silent ch \<longleftrightarrow> is_row ch \<or> (\<exists>l seqid nxt. ch = Ch_message l CHR ''N'' (MtmSeqPosition seqid nxt))"

definition logs :: "(change \<Rightarrow> bool) \<Rightarrow> ddl_state \<Rightarrow> ddl_state \<Rightarrow> bool" where
  "logs P s s' \<longleftrightarrow> MtmDDLStatement s' = MtmDDLStatement s \<and> (\<exists>new. wal s' = wal s @ new \<and> list_all P (txc new))"

lemma logs_quiet: "quiet s s' \<Longrightarrow> logs P s s'"
  by (simp add: logs_def quiet_def)

lemma logs_trans: "logs P s s' \<Longrightarrow> logs P s' s'' \<Longrightarrow> logs P s s''"
  by (auto simp: logs_def)

lemma logs_prepared: "prepared_as env st s p \<Longrightarrow> st \<noteq> DiscardStmt DISCARD_ALL \<Longrightarrow> logs P s (prep_state p)"
  by (auto simp: prepared_as_def logs_def)

lemma utility_inside:
  assumes "MtmProcessUtilitySender env depth toplevel query st run s = Inr s'" and "st \<noteq> DiscardStmt DISCARD_ALL"
    and "MtmDDLStatement s = Some d" and "\<And>s1 s2. MtmDDLStatement s1 = Some d \<Longrightarrow> run s1 = Inr s2 \<Longrightarrow> logs silent s1 s2"
  shows "logs silent s s'"
proof -
  from assms(1) obtain p where p: "sender_case env toplevel query st s = Inr p"
    by (auto simp: MtmProcessUtilitySender_def sbind_Inr_iff)
  have l: "logs silent s (prep_state p)" by (rule logs_prepared [OF sender_case_prepared [OF p] assms(2)])
  show ?thesis
  proof (cases p)
    case (Returned s1)
    then show ?thesis using assms(1) p l by (simp add: MtmProcessUtilitySender_def prep_state_def)
  next
    case (Proceed skip st' s1)
    have stm: "MtmDDLStatement s1 = Some d" using l assms(3) Proceed by (simp add: logs_def prep_state_def)
    with assms(1) p Proceed obtain s2 where "run s1 = Inr s2" "guc_after env st' s2 = Inr s'"
      by (auto simp: MtmProcessUtilitySender_def sbind_Inr_iff)
    then show ?thesis
      using l Proceed assms(4) [OF stm] quiet_guc_after logs_trans logs_quiet by (metis prep_state_def prep.simps(6))
  qed
qed

lemma inside_command:
  "run_acts env depth acts s = Inr s' \<Longrightarrow> nested_ok acts \<Longrightarrow> MtmDDLStatement s = Some d \<Longrightarrow> d < depth \<Longrightarrow> logs silent s s'"
proof (induction env depth acts s arbitrary: s' rule: run_acts.induct)
  case (1 env depth s)
  then show ?case by (simp add: logs_quiet)
next
  case (2 env depth toplevel query st inner acts s)
  from 2(3) obtain s1 where s1: "MtmProcessUtilitySender env depth toplevel query st (run_acts env (Suc depth) inner) s = Inr s1"
      "run_acts env depth acts s1 = Inr s'"
    by (auto simp: sbind_Inr_iff)
  have l: "logs silent s s1" by (rule utility_inside [OF s1(1) _ 2(5)]) (use 2 in auto)
  with 2(5) have "MtmDDLStatement s1 = Some d" by (simp add: logs_def)
  with s1 2 have "logs silent s1 s'" by simp
  with l show ?case by (rule logs_trans)
next
  case (3 env depth explain_only remote query rels inner final acts s)
  let ?n = "\<lambda>s. if dd_enabled env then note_modified env rels s else s"
  from "3.prems"(1,3) obtain s1 s2 where s: "run_acts env (Suc depth) inner s = Inr s1"
      "MtmExecutorFinish env depth rels (run_acts env (Suc depth) final) s1 = Inr s2" "run_acts env depth acts s2 = Inr s'"
    by (auto simp: sbind_Inr_iff MtmExecutorStart_def)
  have l1: "logs silent s s1" using 3 s(1) by (simp add: MtmExecutorStart_def)
  then have st1: "MtmDDLStatement (?n s1) = Some d" using "3.prems"(3) quiet_note [of s1 env rels] by (simp add: logs_def quiet_def)
  from s(2) obtain s3 where s3: "run_acts env (Suc depth) final (?n s1) = Inr s3"
      "s2 = (if MtmDDLStatement s3 = Some depth \<and> dd_enabled env then (MtmFinishDDLCommand env s3)\<lparr>MtmDDLStatement := None\<rparr> else s3)"
    by (auto simp: MtmExecutorFinish_def Let_def sbind_Inr_iff)
  have l2: "logs silent (?n s1) s3" using 3 s3(1) st1 by auto
  with st1 "3.prems"(4) s3(2) have "s2 = s3" "MtmDDLStatement s3 = Some d" by (simp_all add: logs_def)
  with 3 s(3) have "logs silent s2 s'" "logs silent s1 s2"
    using l2 logs_trans [OF logs_quiet, of s1 "?n s1" silent s3] by auto
  with l1 show ?case using logs_trans by blast
next
  case (4 env depth ch acts s)
  have "logs silent s (s\<lparr>wal := wal s @ [(True, ch)]\<rparr>)" using 4 by (simp add: logs_def silent_def)
  moreover have "logs silent (s\<lparr>wal := wal s @ [(True, ch)]\<rparr>) s'" using 4 by simp
  ultimately show ?case by (rule logs_trans)
next
  case (5 env depth seqid nxt acts s)
  have l: "logs silent s (MtmSeqNextvalHook env seqid nxt s)"
    by (auto simp: logs_def MtmSeqNextvalHook_def LogLogicalMessage_def silent_def)
  then have "MtmDDLStatement (MtmSeqNextvalHook env seqid nxt s) = Some d" using 5 by (simp add: logs_def)
  with 5 l show ?case by (auto intro: logs_trans)
next
  case (6 env depth key v acts s)
  have "logs silent s (s\<lparr>guc_value := (guc_value s)(key := v)\<rparr>)" by (simp add: logs_def)
  moreover have "logs silent (s\<lparr>guc_value := (guc_value s)(key := v)\<rparr>) s'" using 6 by simp
  ultimately show ?case by (rule logs_trans)
next
  case (7 env depth m acts s)
  then show ?case by simp
qed

lemma silent_change: "silent ch \<Longrightarrow> change_ops cat cat' lcl True ch = [] \<and> ddl_after True ch"
  by (cases "(cat, cat', lcl, True, ch)" rule: change_ops.cases) (auto simp: silent_def)

lemma silent_ops: "list_all silent chs \<Longrightarrow> txn_ops cat cat' lcl True chs = [] \<and> foldl ddl_after True chs"
  by (induction chs) (auto simp: silent_change)

lemma txn_ops_append:
  "txn_ops cat cat' lcl ddl (chs @ chs') = txn_ops cat cat' lcl ddl chs @ txn_ops cat cat' lcl (foldl ddl_after ddl chs) chs'"
  by (induction chs arbitrary: ddl) auto

lemma end_ops: "list_all is_end chs \<Longrightarrow> txn_ops cat cat' lcl False chs = [] \<and> \<not> foldl ddl_after False chs"
  by (induction chs) (auto simp: is_end_def)

section \<open>Outside a command\<close>

definition comes_to ::
  "ddl_env \<Rightarrow> catalogue \<Rightarrow> catalogue \<Rightarrow> (Oid \<Rightarrow> bool) \<Rightarrow> (dbop list \<Rightarrow> bool) \<Rightarrow> ddl_state \<Rightarrow> ddl_state \<Rightarrow> bool" where
  "comes_to env cat cat' lcl Q s s' \<longleftrightarrow> MtmDDLStatement s' = None \<and>
     (\<exists>new. wal s' = wal s @ new \<and> \<not> foldl ddl_after False (txc new) \<and> Q (txn_ops cat cat' lcl False (txc new)))"

lemma comes_quiet: "quiet s s' \<Longrightarrow> MtmDDLStatement s = None \<Longrightarrow> comes_to env cat cat' lcl (\<lambda>ops. ops = []) s s'"
  by (simp add: comes_to_def quiet_def)

lemma comes_trans:
  assumes "comes_to env cat cat' lcl Q1 s s1" and "comes_to env cat cat' lcl Q2 s1 s2"
    and "\<And>o1 o2. Q1 o1 \<Longrightarrow> Q2 o2 \<Longrightarrow> Q (o1 @ o2)"
  shows "comes_to env cat cat' lcl Q s s2"
proof -
  from assms(1,2) obtain n1 n2 where n: "wal s1 = wal s @ n1" "\<not> foldl ddl_after False (txc n1)" "Q1 (txn_ops cat cat' lcl False (txc n1))"
      "wal s2 = wal s1 @ n2" "\<not> foldl ddl_after False (txc n2)" "Q2 (txn_ops cat cat' lcl False (txc n2))" "MtmDDLStatement s2 = None"
    unfolding comes_to_def by blast
  then show ?thesis
    unfolding comes_to_def by (intro conjI exI [of _ "n1 @ n2"]) (simp_all add: txn_ops_append assms(3))
qed

lemma comes_mono: "comes_to env cat cat' lcl Q s s' \<Longrightarrow> (\<And>ops. Q ops \<Longrightarrow> Q' ops) \<Longrightarrow> comes_to env cat cat' lcl Q' s s'"
  unfolding comes_to_def by blast

lemma comes_prepared:
  assumes "prepared_as env st s p" and "MtmDDLStatement s = None"
  shows "comes_to env cat cat' lcl (\<lambda>ops. ops = []) s (prep_state p)"
  using assms end_ops [of _ cat cat' lcl] by (auto simp: prepared_as_def comes_to_def)

text \<open>A command, what it does itself, and its end.\<close>

lemma comes_command:
  assumes "MtmProcessDDLCommand env query True b s = Inr s1" and "logs silent (s1\<lparr>MtmDDLStatement := Some d, contains_ddl := c\<rparr>) s2"
    and "wal s3 = wal s2 @ [(True, Ch_message l CHR ''E'' (Text (c_bytes [])))]" and "MtmDDLStatement s3 = None"
  shows "comes_to env cat cat' lcl (\<lambda>ops. \<exists>g. settings env g \<and> ops = [DDL True (c_bytes (g @ '' '' @ query))]) s s3"
proof -
  obtain g l' where g: "settings env g" "wal s1 = wal s @ [(True, Ch_message l' CHR ''D'' (Text (c_bytes (g @ '' '' @ query))))]"
    by (rule process_ddl_tx [OF assms(1)])
  obtain new where new: "wal s2 = wal s1 @ new" "list_all silent (txc new)"
    using assms(2) by (auto simp: logs_def)
  from silent_ops [OF new(2), of cat cat' lcl] show ?thesis
    unfolding comes_to_def using g new(1) assms(3,4)
    by (intro conjI exI [of _ "(True, Ch_message l' CHR ''D'' (Text (c_bytes (g @ '' '' @ query)))) # new @
        [(True, Ch_message l CHR ''E'' (Text (c_bytes [])))]"]) (auto simp: txn_ops_append)
qed

lemma utility_outside:
  assumes "MtmProcessUtilitySender env depth toplevel query st run s = Inr s'" and "MtmDDLStatement s = None"
    and inside: "\<And>s1 s2. MtmDDLStatement s1 = Some depth \<Longrightarrow> run s1 = Inr s2 \<Longrightarrow> logs silent s1 s2"
    and outside: "\<And>s1 s2. MtmDDLStatement s1 = None \<Longrightarrow> run s1 = Inr s2 \<Longrightarrow> comes_to env cat cat' lcl (asks env cat cat' lcl inner) s1 s2"
  shows "comes_to env cat cat' lcl (\<lambda>ops. asks env cat cat' lcl [Utility toplevel query st inner] ops) s s'"
proof -
  from assms(1) obtain p where p: "sender_case env toplevel query st s = Inr p"
    by (auto simp: MtmProcessUtilitySender_def sbind_Inr_iff)
  note pr = sender_case_prepared [OF p]
  note c = comes_prepared [OF pr assms(2), of cat cat' lcl]
  show ?thesis
  proof (cases p)
    case (Returned s1)
    then have "commits env st" "s' = prep_state p" using assms(1) p pr
      by (simp_all add: MtmProcessUtilitySender_def prep_state_def prepared_as_def)
    with c show ?thesis using asks_commit [OF _ asks_nothing] by (auto simp: comes_to_def)
  next
    case (Proceed skip st' s1)
    have s1: "prep_state p = s1" "MtmDDLStatement s1 = None" "\<not> commits env st" "skip = (\<not> sent_stmt env st)"
      using pr assms(2) Proceed by (simp_all add: prepared_as_def prep_state_def)
    show ?thesis
    proof (cases "sent_stmt env st")
      case True
      with assms(1) p Proceed s1 obtain s2 s3 s4 where s2: "MtmProcessDDLCommand env query True False s1 = Inr s2"
          "run (s2\<lparr>MtmDDLStatement := Some depth\<rparr>) = Inr s3" "guc_after env st' s3 = Inr s4" "s' = finish_statement env s4"
        by (auto simp: MtmProcessUtilitySender_def sbind_Inr_iff)
      have "logs silent (s2\<lparr>MtmDDLStatement := Some depth\<rparr>) s4"
        using logs_trans [OF inside [OF _ s2(2)] logs_quiet [OF quiet_guc_after [OF s2(3)]]] by simp
      then have l: "logs silent (s2\<lparr>MtmDDLStatement := Some depth, contains_ddl := contains_ddl s2\<rparr>) s4" by (simp add: logs_def)
      have f: "wal s' = wal s4 @ [(True, Ch_message (dd_lsn env (length (wal s4))) CHR ''E'' (Text (c_bytes [])))]"
          "MtmDDLStatement s' = None"
        using s2(4) by (simp_all add: finish_statement_def MtmFinishDDLCommand_def LogLogicalMessage_def)
      show ?thesis
        by (rule comes_trans [OF c [unfolded s1(1)] comes_command [OF s2(1) l f]]) (use asks_command [OF True _ asks_nothing] in auto)
    next
      case False
      with assms(1) p Proceed s1 obtain s2 where s2: "run s1 = Inr s2" "guc_after env st' s2 = Inr s'"
        by (auto simp: MtmProcessUtilitySender_def sbind_Inr_iff)
      have o: "comes_to env cat cat' lcl (asks env cat cat' lcl inner) s1 s'"
        using outside [OF s1(2) s2(1)] quiet_guc_after [OF s2(2)] by (simp add: comes_to_def quiet_def)
      show ?thesis
        using comes_trans [OF c [unfolded s1(1)] o] asks_local [OF False s1(3) _ asks_nothing] by auto
    qed
  qed
qed

lemma query_outside:
  assumes start: "MtmExecutorStart env depth explain_only remote query s = Inr s1" and "run_inner s1 = Inr s2"
    and fin: "MtmExecutorFinish env depth rels run_final s2 = Inr s'" and "MtmDDLStatement s = None"
    and inside: "\<And>s1 s2. MtmDDLStatement s1 = Some depth \<Longrightarrow> run_inner s1 = Inr s2 \<Longrightarrow> logs silent s1 s2"
      "\<And>s1 s2. MtmDDLStatement s1 = Some depth \<Longrightarrow> run_final s1 = Inr s2 \<Longrightarrow> logs silent s1 s2"
    and outside: "\<And>s1 s2. MtmDDLStatement s1 = None \<Longrightarrow> run_inner s1 = Inr s2 \<Longrightarrow> comes_to env cat cat' lcl (asks env cat cat' lcl inner) s1 s2"
      "\<And>s1 s2. MtmDDLStatement s1 = None \<Longrightarrow> run_final s1 = Inr s2 \<Longrightarrow> comes_to env cat cat' lcl (asks env cat cat' lcl final) s1 s2"
  shows "comes_to env cat cat' lcl (\<lambda>ops. asks env cat cat' lcl [Query explain_only remote query rels inner final] ops) s s'"
proof -
  let ?n = "\<lambda>s. if dd_enabled env then note_modified env rels s else s"
  have n: "quiet s2 (?n s2)" by simp
  from fin obtain s3 where s3: "run_final (?n s2) = Inr s3"
      "s' = (if MtmDDLStatement s3 = Some depth \<and> dd_enabled env then (MtmFinishDDLCommand env s3)\<lparr>MtmDDLStatement := None\<rparr> else s3)"
    by (auto simp: MtmExecutorFinish_def Let_def sbind_Inr_iff)
  show ?thesis
  proof (cases "\<not> explain_only \<and> dd_enabled env \<and> remote")
    case True
    with start assms(4) obtain s0 where s0: "MtmProcessDDLCommand env query True False s = Inr s0"
        "s1 = s0\<lparr>MtmDDLStatement := Some depth, contains_ddl := True\<rparr>"
      by (auto simp: MtmExecutorStart_def sbind_Inr_iff)
    have l1: "logs silent s1 s2" using inside(1) assms(2) s0(2) by simp
    then have "MtmDDLStatement (?n s2) = Some depth" using n s0(2) by (simp add: logs_def quiet_def)
    then have l: "logs silent s1 s3" "MtmDDLStatement s3 = Some depth"
      using logs_trans [OF l1 logs_trans [OF logs_quiet [OF n] inside(2) [OF _ s3(1)]]] s0(2) by (simp_all add: logs_def)
    then have "wal s' = wal s3 @ [(True, Ch_message (dd_lsn env (length (wal s3))) CHR ''E'' (Text (c_bytes [])))]"
        "MtmDDLStatement s' = None"
      using s3(2) True by (simp_all add: MtmFinishDDLCommand_def LogLogicalMessage_def)
    note f = this
    show ?thesis
      by (rule comes_mono [OF comes_command [OF s0(1) l(1) [unfolded s0(2)] f]]) (use asks_remote [OF True _ asks_nothing] in auto)
  next
    case False
    then have s1: "s1 = s" using start by (simp add: MtmExecutorStart_def split: if_splits)
    have o1: "comes_to env cat cat' lcl (asks env cat cat' lcl inner) s s2" using outside(1) assms(2,4) s1 by simp
    then have q: "comes_to env cat cat' lcl (asks env cat cat' lcl inner) s (?n s2)" "MtmDDLStatement (?n s2) = None"
      using n by (simp_all add: comes_to_def quiet_def)
    have o2: "comes_to env cat cat' lcl (asks env cat cat' lcl final) (?n s2) s3" by (rule outside(2) [OF q(2) s3(1)])
    then have "s' = s3" using s3(2) by (simp add: comes_to_def)
    with comes_trans [OF q(1) o2] show ?thesis using asks_query [OF False _ _ asks_nothing] by auto
  qed
qed

section \<open>A transaction as other nodes see it\<close>

lemma asks_cons:
  assumes "asks env cat cat' lcl [a] ops1" and "asks env cat cat' lcl acts ops"
  shows "asks env cat cat' lcl (a # acts) (ops1 @ ops)"
  using assms(1)
proof (cases rule: asks.cases)
  case (asks_query explain_only remote inner o1 final o2 o3)
  then show ?thesis using asks.asks_query [OF _ _ _ assms(2)] by (auto elim: asks.cases)
qed (use assms(2) asks.asks_nextval [OF _ assms(2)] asks.asks_command [OF _ _ assms(2)] asks.asks_remote [OF _ _ assms(2)]
  in \<open>auto elim!: asks.cases [of env cat cat' lcl "[]"] intro: asks.intros\<close>)

lemma nested_acts_ok: "nested_ok acts \<Longrightarrow> acts_ok acts"
  by (induction acts rule: acts_ok.induct) auto

lemma acts_ok_cons: "acts_ok (a # acts) \<Longrightarrow> acts_ok acts"
  by (cases a) auto

lemma comes_step:
  assumes "comes_to env cat cat' lcl (asks env cat cat' lcl [a]) s s1"
    and "comes_to env cat cat' lcl (asks env cat cat' lcl acts) s1 s'"
  shows "comes_to env cat cat' lcl (asks env cat cat' lcl (a # acts)) s s'"
  by (rule comes_trans [OF assms]) (rule asks_cons)

lemma comes_state: "comes_to env cat cat' lcl Q s s' \<Longrightarrow> MtmDDLStatement s' = None"
  by (simp add: comes_to_def)

lemma comes_row:
  assumes "is_row ch" and "MtmDDLStatement s = None"
  shows "comes_to env cat cat' lcl (asks env cat cat' lcl [Row ch]) s (s\<lparr>wal := wal s @ [(True, ch)]\<rparr>)"
  using assms asks_row [OF asks_nothing, of env cat cat' lcl ch] by (cases ch) (auto simp: comes_to_def)

lemma comes_nextval:
  assumes "MtmDDLStatement s = None"
  shows "comes_to env cat cat' lcl (asks env cat cat' lcl [Nextval seqid nxt]) s (MtmSeqNextvalHook env seqid nxt s)"
proof (cases "dd_monotonic env \<and> dd_enabled env")
  case True
  from asks_nextval [OF True asks_nothing, of cat cat' lcl seqid nxt] assms True show ?thesis
    by (auto simp: comes_to_def MtmSeqNextvalHook_def LogLogicalMessage_def)
next
  case False
  from asks_own_nextval [OF False asks_nothing, of cat cat' lcl seqid nxt] assms False show ?thesis
    by (auto simp: comes_to_def MtmSeqNextvalHook_def)
qed

lemma outside_commands:
  "run_acts env depth acts s = Inr s' \<Longrightarrow> acts_ok acts \<Longrightarrow> MtmDDLStatement s = None \<Longrightarrow>
   comes_to env cat cat' lcl (asks env cat cat' lcl acts) s s'"
proof (induction env depth acts s arbitrary: s' rule: run_acts.induct)
  case (1 env depth s)
  then show ?case using asks_nothing by (simp add: comes_to_def)
next
  case (2 env depth toplevel query st inner acts s)
  from "2.prems"(1) obtain s1 where s1: "MtmProcessUtilitySender env depth toplevel query st (run_acts env (Suc depth) inner) s = Inr s1"
      "run_acts env depth acts s1 = Inr s'"
    by (auto simp: sbind_Inr_iff)
  have ok: "nested_ok inner" "acts_ok acts" using "2.prems"(2) by simp_all
  have c: "comes_to env cat cat' lcl (asks env cat cat' lcl [Utility toplevel query st inner]) s s1"
    by (rule utility_outside [OF s1(1) "2.prems"(3)])
      (use inside_command [OF _ ok(1)] "2.IH"(1) nested_acts_ok [OF ok(1)] in auto)
  show ?case by (rule comes_step [OF c "2.IH"(2) [OF s1(2) ok(2) comes_state [OF c]]])
next
  case (3 env depth explain_only remote query rels inner final acts s)
  from "3.prems"(1) obtain s0 s1 s2 where s: "MtmExecutorStart env depth explain_only remote query s = Inr s0"
      "run_acts env (Suc depth) inner s0 = Inr s1"
      "MtmExecutorFinish env depth rels (run_acts env (Suc depth) final) s1 = Inr s2" "run_acts env depth acts s2 = Inr s'"
    by (auto simp: sbind_Inr_iff)
  have ok: "nested_ok inner" "nested_ok final" "acts_ok acts" using "3.prems"(2) by simp_all
  have c: "comes_to env cat cat' lcl (asks env cat cat' lcl [Query explain_only remote query rels inner final]) s s2"
    by (rule query_outside [of env depth explain_only remote query s s0 "run_acts env (Suc depth) inner" s1 rels
        "run_acts env (Suc depth) final" s2, OF s(1,2,3) "3.prems"(3)])
      (use inside_command [OF _ ok(1)] inside_command [OF _ ok(2)] "3.IH"(1,2) nested_acts_ok [OF ok(1)] nested_acts_ok [OF ok(2)] in auto)
  show ?case by (rule comes_step [OF c "3.IH"(3) [OF s(4) ok(3) comes_state [OF c]]])
next
  case (4 env depth ch acts s)
  have c: "comes_to env cat cat' lcl (asks env cat cat' lcl [Row ch]) s (s\<lparr>wal := wal s @ [(True, ch)]\<rparr>)"
    by (rule comes_row) (use 4 in auto)
  show ?case by (rule comes_step [OF c "4.IH"]) (use 4 in auto)
next
  case (5 env depth seqid nxt acts s)
  note c = comes_nextval [OF "5.prems"(3), of env cat cat' lcl seqid nxt]
  show ?case by (rule comes_step [OF c "5.IH"]) (use 5 comes_state [OF c] in auto)
next
  case (6 env depth key v acts s)
  have c: "comes_to env cat cat' lcl (asks env cat cat' lcl [Assign key v]) s (s\<lparr>guc_value := (guc_value s)(key := v)\<rparr>)"
    using asks_assign [OF asks_nothing] 6 by (simp add: comes_to_def)
  show ?case by (rule comes_step [OF c "6.IH"]) (use 6 in auto)
next
  case (7 env depth m acts s)
  then show ?case by simp
qed


definition a_session_env :: ddl_env where
  "a_session_env = \<lparr>dd_node = 1, dd_backend = 7, dd_enabled = True,
     dd_cfg = \<lparr>my_node_id = 1, backup_node_id = 0, backup_end_lsn = 0, nodes = [], cfg_mask = 1\<rparr>,
     dd_in_block = True, dd_aborted = False, dd_two_phase = True, dd_volkswagen = False, dd_monotonic = False,
     dd_same_user = True, dd_use_role = True, dd_user_name = ''ann'', dd_quoted = (\<lambda>_. True), dd_lsn = (\<lambda>n. of_nat n),
     dd_ignore_without_pk = False, dd_relid = (\<lambda>_ _. 0), dd_local_rows = []\<rparr>"

definition a_session :: ddl_state where
  "a_session = \<lparr>MtmGucHash = None, MtmGucList = [], MtmTempSchema = [], TempDropRegistered = False, MtmDDLStatement = None,
     contains_ddl = False, contains_dml = False, guc_value = (\<lambda>k. if k = ''search_path'' then Some ''public'' else None),
     MtmLocalTables = [], localTablesHashLoaded = True, commit_calls = [], wal = []\<rparr>"

definition a_transaction :: "act list" where
  "a_transaction =
     [Utility True ''CREATE TABLE u AS SELECT * FROM t'' Other_stmt
        [Row (Ch_insert a_table a_row), Utility False ''CREATE INDEX i ON u (x)'' (IndexStmt False) []],
      Query False False ''INSERT INTO t VALUES (5)'' [] [Row (Ch_insert a_table a_row)] [],
      Utility True ''COMMIT'' (TransactionStmt TRANS_STMT_COMMIT False []) []]"

inductive_cases asks_NilE: "asks env cat cat' lcl [] ops"
inductive_cases asks_RowE: "asks env cat cat' lcl (Row ch # acts) ops"
inductive_cases asks_UtilityE: "asks env cat cat' lcl (Utility toplevel query st inner # acts) ops"
inductive_cases asks_QueryE: "asks env cat cat' lcl (Query explain_only remote query rels inner final # acts) ops"

lemmas session_defs = a_session_env_def a_session_def a_transaction_def

lemma session_runs: "\<exists>s'. run_acts a_session_env 0 a_transaction a_session = Inr s'"
  by (simp add: session_defs MtmProcessUtilitySender_def SkipCommand_def temp_schema_init_def MtmProcessDDLCommand_def
    MtmGucSerialize_def guc_started_def MtmGucInit_def guc_enter_def adjust_role_def Let_def LogLogicalMessage_def
    guc_after_def finish_statement_def MtmFinishDDLCommand_def MtmExecutorStart_def MtmExecutorFinish_def process_transaction_def
    called_def)


text \<open>
  \<open>RESET ALL\<close> has no name, which is compared before the statement is executed.
\<close>

lemma reset_all_null: "MtmProcessUtilitySender env depth toplevel query (VariableSetStmt VAR_RESET_ALL None) run s = Inl Null_pointer"
  by (simp add: MtmProcessUtilitySender_def process_set_def)

section \<open>Sequences\<close>

text \<open>The values of a sequence that has a start and an increment.\<close>

definition seq_value :: "def_elem list \<Rightarrow> nat \<Rightarrow> int" where
  "seq_value options k =
     (case map_of options ''start'' of None \<Rightarrow> 1 | Some v \<Rightarrow> v) + int k * (case map_of options ''increment'' of None \<Rightarrow> 1 | Some v \<Rightarrow> v)"

definition cluster_ids :: "ddl_env \<Rightarrow> int set" where
  "cluster_ids env = insert (my_node_id (dd_cfg env)) (node_id ` set (nodes (dd_cfg env)))"

definition own_start :: "def_elem list \<Rightarrow> bool" where
  "own_start options \<longleftrightarrow> list_all (\<lambda>(n, _). n \<noteq> ''start'' \<and> n \<noteq> ''increment'') options"

lemma foldl_max_node:
  "foldl (\<lambda>m n. if m < node_id n then node_id n else m) (i :: int) ns = Max (insert i (node_id ` set ns))"
proof (induction ns arbitrary: i)
  case (Cons n ns)
  have "Max (insert (if i < node_id n then node_id n else i) (node_id ` set ns)) = Max (insert i (insert (node_id n) (node_id ` set ns)))"
    by (cases "node_id ` set ns = {}") (auto simp: max_def)
  then show ?case using Cons.IH by (simp only: foldl.simps list.set image_insert)
qed simp

lemma adjusted_value:
  assumes "dd_enabled env" and "own_start options"
  shows "seq_value (AdjustCreateSequence env options) k = dd_node env + int k * Max (cluster_ids env)"
proof -
  have no: "\<not> list_ex (\<lambda>(n, _). n = ''increment'') options" "\<not> list_ex (\<lambda>(n, _). n = ''start'') options"
      "map_of options ''increment'' = None" "map_of options ''start'' = None"
    using assms(2) by (auto simp: own_start_def list_ex_iff list_all_iff map_of_eq_None_iff)
  have "AdjustCreateSequence env options = options @ [(''increment'', Max (cluster_ids env)), (''start'', dd_node env)]"
    using assms(1) no(1,2) by (simp add: AdjustCreateSequence_def Let_def foldl_max_node cluster_ids_def)
  with no(3,4) show ?thesis by (simp add: seq_value_def map_add_def)
qed

lemma same_residue:
  assumes "(a :: int) + int k * m = b + int j * m" and "0 < a" and "a \<le> m" and "0 < b" and "b \<le> m"
  shows "a = b"
proof -
  have "(a - 1) mod m = (b - 1) mod m"
    using assms(1) by (metis add_diff_eq diff_add_eq mod_mult_self1)
  with assms(2-5) show ?thesis by simp
qed


definition a_node_env :: "int \<Rightarrow> int \<Rightarrow> ddl_env" where
  "a_node_env me peer = a_session_env\<lparr>dd_node := me, dd_cfg := \<lparr>my_node_id = me, backup_node_id = 0, backup_end_lsn = 0,
     nodes = [\<lparr>node_id = peer, conninfo = [], origin_id = 0, init_done = True\<rparr>], cfg_mask = 5\<rparr>\<rparr>"


end
