(* ===== verification/Ddl_Apply.thy ===== *)
theory Ddl_Apply
  imports Ddl
begin

text \<open>
  Execution of replicated commands at a receiver (\<open>src/src/ddl.c\<close>): the hook of utility statements
  that puts aside what must not run inside a transaction, \<open>MtmApplyDDLMessage\<close> that runs a command
  and then what was put aside, and the list of remote functions. Postgres is a parameter: the
  statements a text consists of, and what each of them causes.
\<close>

section \<open>The state of a receiver\<close>

datatype ddl_progress = MTM_DDL_IN_PROGRESS_NOTHING | MTM_DDL_IN_PROGRESS_TX | MTM_DDL_IN_PROGRESS_NONTX

text \<open>What Postgres is called to do.\<close>

datatype pg_call =
  Standard_ProcessUtility stmt
| DefineIndex stmt
| RemoveRelations stmt
| RemoveObjects stmt
| CreateTableSpace stmt
| DropTableSpace stmt
| AlterEnum stmt

record receiver_ddl =
  MtmCapturedDDL :: "stmt option"
  DDLApplyInProgress :: ddl_progress
  check_function_bodies :: bool
  replorigin_session_origin :: nat
  executed_calls :: "pg_call list"
  session :: ddl_state

definition in_session :: "(ddl_state \<Rightarrow> ddl_state) \<Rightarrow> receiver_ddl \<Rightarrow> receiver_ddl" where
  "in_session f r = r\<lparr>session := f (session r)\<rparr>"

definition call :: "pg_call \<Rightarrow> receiver_ddl \<Rightarrow> receiver_ddl" where
  "call c r = r\<lparr>executed_calls := executed_calls r @ [c]\<rparr>"

section \<open>The hook\<close>

definition capture :: "stmt \<Rightarrow> receiver_ddl \<Rightarrow> ddl_err + receiver_ddl" where
  "capture st r = (if MtmCapturedDDL r \<noteq> None then Inl Ddl_assert else Inr (r\<lparr>MtmCapturedDDL := Some st\<rparr>))"

fun receiver_case :: "ddl_env \<Rightarrow> stmt \<Rightarrow> (stmt \<Rightarrow> receiver_ddl \<Rightarrow> ddl_err + receiver_ddl) \<Rightarrow> receiver_ddl \<Rightarrow> ddl_err + receiver_ddl" where
  "receiver_case env CreateTableSpaceStmt run r = capture CreateTableSpaceStmt r"
| "receiver_case env DropTableSpaceStmt run r = capture DropTableSpaceStmt r"
| "receiver_case env (IndexStmt concurrent) run r =
     (if concurrent then capture (IndexStmt concurrent) r else run (IndexStmt concurrent) r)"
| "receiver_case env AlterEnumStmt run r = capture AlterEnumStmt r"
| "receiver_case env (DropStmt rt concurrent missing_ok) run r =
     (if rt = OBJECT_INDEX \<and> concurrent then capture (DropStmt rt concurrent missing_ok) r
      else if rt = OBJECT_FUNCTION then run (DropStmt rt concurrent True) r
      else run (DropStmt rt concurrent missing_ok) r)"
| "receiver_case env CreateFunctionStmt run r = run CreateFunctionStmt (r\<lparr>check_function_bodies := False\<rparr>)"
| "receiver_case env (CreateSeqStmt options) run r =
     run (CreateSeqStmt (if dd_volkswagen env then options else AdjustCreateSequence env options)) r"
| "receiver_case env st run r = run st r"

definition MtmProcessUtilityReceiver ::
  "ddl_env \<Rightarrow> stmt \<Rightarrow> (stmt \<Rightarrow> receiver_ddl \<Rightarrow> ddl_err + receiver_ddl) \<Rightarrow> receiver_ddl \<Rightarrow> ddl_err + receiver_ddl" where
  "MtmProcessUtilityReceiver env st run r =
     (if DDLApplyInProgress r \<noteq> MTM_DDL_IN_PROGRESS_NOTHING then receiver_case env st run r else run st r)"

text \<open>
  What running a text causes: statements with what they cause, changes of rows, values of
  sequences, an error.
\<close>

datatype ract =
  Statement stmt "ract list"
| Change change
| Next_value Oid uint64
| Error string

fun run_text :: "ddl_env \<Rightarrow> ract list \<Rightarrow> receiver_ddl \<Rightarrow> ddl_err + receiver_ddl" where
  "run_text env [] r = Inr r"
| "run_text env (Statement st inner # rs) r =
     sbind (MtmProcessUtilityReceiver env st (\<lambda>st r. run_text env inner (call (Standard_ProcessUtility st) r)) r)
       (\<lambda>r. run_text env rs r)"
| "run_text env (Change ch # rs) r = run_text env rs (in_session (\<lambda>s. s\<lparr>wal := wal s @ [(True, ch)]\<rparr>) r)"
| "run_text env (Next_value seqid nxt # rs) r = run_text env rs (in_session (MtmSeqNextvalHook env seqid nxt) r)"
| "run_text env (Error m # rs) r = Inl (Ddl_error m)"

section \<open>Applying a command\<close>

fun captured_call :: "stmt \<Rightarrow> ddl_err + pg_call" where
  "captured_call (IndexStmt concurrent) = Inr (DefineIndex (IndexStmt concurrent))"
| "captured_call (DropStmt rt concurrent missing_ok) =
     Inr (if rt \<in> {OBJECT_INDEX, OBJECT_TABLE, OBJECT_SEQUENCE, OBJECT_VIEW, OBJECT_MATVIEW, OBJECT_FOREIGN_TABLE}
          then RemoveRelations (DropStmt rt concurrent missing_ok) else RemoveObjects (DropStmt rt concurrent missing_ok))"
| "captured_call CreateTableSpaceStmt = Inr (CreateTableSpace CreateTableSpaceStmt)"
| "captured_call DropTableSpaceStmt = Inr (DropTableSpace DropTableSpaceStmt)"
| "captured_call AlterEnumStmt = Inr (AlterEnum AlterEnumStmt)"
| "captured_call _ = Inl Ddl_assert"

text \<open>What was put aside runs after the text, still within the command.\<close>

definition run_captured :: "ddl_env \<Rightarrow> (stmt \<Rightarrow> ract list) \<Rightarrow> receiver_ddl \<Rightarrow> ddl_err + receiver_ddl" where
  "run_captured env effects r =
     (case MtmCapturedDDL r of
        None \<Rightarrow> Inr r
      | Some st \<Rightarrow>
          sbind (captured_call st) (\<lambda>c.
          sbind (run_text env (effects st) (call c r)) (\<lambda>r.
          Inr (r\<lparr>MtmCapturedDDL := None\<rparr>))))"

definition MtmApplyDDLMessage ::
  "ddl_env \<Rightarrow> (string \<Rightarrow> ract list) \<Rightarrow> (stmt \<Rightarrow> ract list) \<Rightarrow> string \<Rightarrow> bool \<Rightarrow> receiver_ddl \<Rightarrow> ddl_err + receiver_ddl" where
  "MtmApplyDDLMessage env spi effects messageBody transactional r =
     (if replorigin_session_origin r = InvalidRepOriginId then Inl Ddl_assert
      else let r = (if transactional
                    then in_session (LogLogicalMessage env True CHR ''D'' (Text (c_bytes messageBody))) r else r)
           in if DDLApplyInProgress r \<noteq> MTM_DDL_IN_PROGRESS_NOTHING \<or> MtmCapturedDDL r \<noteq> None then Inl Ddl_assert
              else let r = r\<lparr>DDLApplyInProgress := (if transactional then MTM_DDL_IN_PROGRESS_TX else MTM_DDL_IN_PROGRESS_NONTX)\<rparr>
                   in sbind (run_text env (spi messageBody) r) (\<lambda>r.
                      sbind (run_captured env effects r) (\<lambda>r.
                      Inr ((if transactional then in_session (MtmFinishDDLCommand env) r else r)
                             \<lparr>DDLApplyInProgress := MTM_DDL_IN_PROGRESS_NOTHING\<rparr>))))"

definition MtmDDLResetApplyState :: "receiver_ddl \<Rightarrow> receiver_ddl" where
  "MtmDDLResetApplyState r = r\<lparr>MtmCapturedDDL := None, DDLApplyInProgress := MTM_DDL_IN_PROGRESS_NOTHING\<rparr>"

section \<open>Each statement is executed once\<close>

fun captures :: "stmt \<Rightarrow> bool" where
  "captures CreateTableSpaceStmt = True"
| "captures DropTableSpaceStmt = True"
| "captures (IndexStmt concurrent) = concurrent"
| "captures AlterEnumStmt = True"
| "captures (DropStmt rt concurrent missing_ok) = (rt = OBJECT_INDEX \<and> concurrent)"
| "captures _ = False"

fun adjusted :: "ddl_env \<Rightarrow> stmt \<Rightarrow> stmt" where
  "adjusted env (DropStmt rt concurrent missing_ok) = DropStmt rt concurrent (missing_ok \<or> rt = OBJECT_FUNCTION)"
| "adjusted env (CreateSeqStmt options) = CreateSeqStmt (if dd_volkswagen env then options else AdjustCreateSequence env options)"
| "adjusted env st = st"

text \<open>The statements a text executes directly, and those it puts aside.\<close>

fun direct_calls :: "ddl_env \<Rightarrow> ract list \<Rightarrow> pg_call list" where
  "direct_calls env [] = []"
| "direct_calls env (Statement st inner # rs) =
     (if captures st then [] else Standard_ProcessUtility (adjusted env st) # direct_calls env inner) @ direct_calls env rs"
| "direct_calls env (_ # rs) = direct_calls env rs"

fun put_aside :: "ract list \<Rightarrow> stmt list" where
  "put_aside [] = []"
| "put_aside (Statement st inner # rs) = (if captures st then [st] else put_aside inner) @ put_aside rs"
| "put_aside (_ # rs) = put_aside rs"

fun no_error :: "ract list \<Rightarrow> bool" where
  "no_error [] = True"
| "no_error (Statement st inner # rs) = ((captures st \<or> no_error inner) \<and> no_error rs)"
| "no_error (Error m # rs) = False"
| "no_error (_ # rs) = no_error rs"

definition held :: "receiver_ddl \<Rightarrow> stmt list" where
  "held r = (case MtmCapturedDDL r of None \<Rightarrow> [] | Some st \<Rightarrow> [st])"

definition applying :: "receiver_ddl \<Rightarrow> bool" where
  "applying r \<longleftrightarrow> DDLApplyInProgress r \<noteq> MTM_DDL_IN_PROGRESS_NOTHING"

lemma receiver_statement:
  "applying r \<Longrightarrow> MtmProcessUtilityReceiver env st run r =
     (if captures st then capture st r
      else run (adjusted env st) (if st = CreateFunctionStmt then r\<lparr>check_function_bodies := False\<rparr> else r))"
  by (cases st) (auto simp: MtmProcessUtilityReceiver_def applying_def)

lemma in_session_simps [simp]:
  "MtmCapturedDDL (in_session f r) = MtmCapturedDDL r" "DDLApplyInProgress (in_session f r) = DDLApplyInProgress r"
  "executed_calls (in_session f r) = executed_calls r" "replorigin_session_origin (in_session f r) = replorigin_session_origin r"
  "session (in_session f r) = f (session r)"
  by (simp_all add: in_session_def)

lemma call_simps [simp]:
  "MtmCapturedDDL (call c r) = MtmCapturedDDL r" "DDLApplyInProgress (call c r) = DDLApplyInProgress r"
  "executed_calls (call c r) = executed_calls r @ [c]" "replorigin_session_origin (call c r) = replorigin_session_origin r"
  "session (call c r) = session r"
  by (simp_all add: call_def)

definition runs_as :: "ddl_env \<Rightarrow> ract list \<Rightarrow> receiver_ddl \<Rightarrow> receiver_ddl \<Rightarrow> bool" where
  "runs_as env rs r r' \<longleftrightarrow> executed_calls r' = executed_calls r @ direct_calls env rs \<and> held r' = held r @ put_aside rs \<and>
     DDLApplyInProgress r' = DDLApplyInProgress r \<and> replorigin_session_origin r' = replorigin_session_origin r"

definition outcome :: "ddl_env \<Rightarrow> ract list \<Rightarrow> receiver_ddl \<Rightarrow> ddl_err + receiver_ddl \<Rightarrow> bool" where
  "outcome env rs r res \<longleftrightarrow> (if length (held r @ put_aside rs) \<le> 1 then \<exists>r'. res = Inr r' \<and> runs_as env rs r r' else res = Inl Ddl_assert)"

lemma held_length: "length (held r) \<le> 1"
  by (simp add: held_def split: option.split)

lemma statement_outcome:
  assumes "applying r" and "\<And>st' r. applying r \<Longrightarrow> \<not> captures st \<Longrightarrow>
      outcome env inner (call (Standard_ProcessUtility st') r) (run_text env inner (call (Standard_ProcessUtility st') r))"
  shows "outcome env [Statement st inner] r
    (MtmProcessUtilityReceiver env st (\<lambda>st r. run_text env inner (call (Standard_ProcessUtility st) r)) r)"
proof (cases "captures st")
  case True
  then show ?thesis using assms(1)
    by (auto simp: receiver_statement outcome_def capture_def runs_as_def held_def split: option.splits)
next
  case False
  let ?q = "if st = CreateFunctionStmt then r\<lparr>check_function_bodies := False\<rparr> else r"
  let ?r = "call (Standard_ProcessUtility (adjusted env st)) ?q"
  have "applying ?q" "held ?r = held r" using assms(1) by (simp_all add: applying_def held_def)
  with assms(2) [of ?q "adjusted env st"] False have "outcome env inner ?r (run_text env inner ?r)" by simp
  with \<open>held ?r = held r\<close> False assms(1) show ?thesis
    by (auto simp: receiver_statement outcome_def runs_as_def split: if_splits)
qed

lemma outcome_cons:
  assumes "outcome env [a] r res" and "\<And>r'. runs_as env [a] r r' \<Longrightarrow> outcome env rs r' (f r')"
    and "direct_calls env (a # rs) = direct_calls env [a] @ direct_calls env rs" and "put_aside (a # rs) = put_aside [a] @ put_aside rs"
  shows "outcome env (a # rs) r (sbind res f)"
proof (cases "length (held r @ put_aside [a]) \<le> 1")
  case True
  with assms(1) obtain r' where r': "res = Inr r'" "runs_as env [a] r r'" by (auto simp: outcome_def)
  with assms(2) have o: "outcome env rs r' (f r')" by simp
  have h: "held r @ put_aside (a # rs) = held r' @ put_aside rs" using r'(2) assms(4) by (simp add: runs_as_def)
  have t: "runs_as env (a # rs) r r''" if "runs_as env rs r' r''" for r''
    using that r'(2) assms(3,4) by (simp add: runs_as_def)
  show ?thesis using o t r'(1) unfolding outcome_def h by (auto split: if_splits)
next
  case False
  then have "\<not> length (held r @ put_aside (a # rs)) \<le> 1" using assms(4) by simp
  with assms(1) False show ?thesis unfolding outcome_def by (simp del: length_append)
qed

lemma outcome_same:
  assumes "outcome env rs (in_session f r) res" and "direct_calls env rs' = direct_calls env rs" and "put_aside rs' = put_aside rs"
  shows "outcome env rs' r res"
  using assms by (auto simp: outcome_def runs_as_def held_def split: if_splits)

lemma run_text_outcome: "no_error rs \<Longrightarrow> applying r \<Longrightarrow> outcome env rs r (run_text env rs r)"
proof (induction env rs r rule: run_text.induct)
  case (1 env r)
  then show ?case using held_length [of r] by (simp add: outcome_def runs_as_def)
next
  case (2 env st inner rs r)
  have s: "outcome env [Statement st inner] r
      (MtmProcessUtilityReceiver env st (\<lambda>st r. run_text env inner (call (Standard_ProcessUtility st) r)) r)"
    by (rule statement_outcome) (use 2 in \<open>auto simp: applying_def\<close>)
  show ?case unfolding run_text.simps
    by (rule outcome_cons [OF s]) (use 2 in \<open>auto simp: runs_as_def applying_def\<close>)
qed (auto simp: applying_def intro: outcome_same)

lemma captured_is_called: "captures st \<Longrightarrow> \<exists>c. captured_call st = Inr c"
  by (cases st) auto

lemma put_aside_captures: "st \<in> set (put_aside rs) \<Longrightarrow> captures st"
  by (induction rs rule: put_aside.induct) (auto split: if_splits)

definition ready :: "receiver_ddl \<Rightarrow> bool" where
  "ready r \<longleftrightarrow> replorigin_session_origin r \<noteq> InvalidRepOriginId \<and> DDLApplyInProgress r = MTM_DDL_IN_PROGRESS_NOTHING \<and>
     MtmCapturedDDL r = None"

definition entered :: "ddl_env \<Rightarrow> string \<Rightarrow> bool \<Rightarrow> receiver_ddl \<Rightarrow> receiver_ddl" where
  "entered env body transactional r =
     (if transactional then in_session (LogLogicalMessage env True CHR ''D'' (Text (c_bytes body))) r else r)
       \<lparr>DDLApplyInProgress := (if transactional then MTM_DDL_IN_PROGRESS_TX else MTM_DDL_IN_PROGRESS_NONTX)\<rparr>"

definition left :: "ddl_env \<Rightarrow> bool \<Rightarrow> receiver_ddl \<Rightarrow> receiver_ddl" where
  "left env transactional r =
     (if transactional then in_session (MtmFinishDDLCommand env) r else r)\<lparr>DDLApplyInProgress := MTM_DDL_IN_PROGRESS_NOTHING\<rparr>"

lemma apply_ready:
  "ready r \<Longrightarrow> MtmApplyDDLMessage env spi effects body transactional r =
     sbind (run_text env (spi body) (entered env body transactional r)) (\<lambda>r.
     sbind (run_captured env effects r) (\<lambda>r. Inr (left env transactional r)))"
  by (simp add: MtmApplyDDLMessage_def ready_def entered_def left_def Let_def)

lemma entered_simps [simp]:
  "MtmCapturedDDL (entered env body transactional r) = MtmCapturedDDL r"
  "executed_calls (entered env body transactional r) = executed_calls r"
  "replorigin_session_origin (entered env body transactional r) = replorigin_session_origin r"
  "held (entered env body transactional r) = held r" "applying (entered env body transactional r)"
  by (simp_all add: entered_def applying_def held_def)

lemma left_simps [simp]:
  "MtmCapturedDDL (left env transactional r) = MtmCapturedDDL r"
  "executed_calls (left env transactional r) = executed_calls r"
  "replorigin_session_origin (left env transactional r) = replorigin_session_origin r"
  "DDLApplyInProgress (left env transactional r) = MTM_DDL_IN_PROGRESS_NOTHING"
  by (simp_all add: left_def)

lemma run_captured_outcome:
  assumes "MtmCapturedDDL r = Some st" and "captured_call st = Inr c" and "applying r"
    and "no_error (effects st)" and "put_aside (effects st) = []"
  obtains r' where "run_captured env effects r = Inr r'" and "MtmCapturedDDL r' = None"
    and "executed_calls r' = executed_calls r @ c # direct_calls env (effects st)"
    and "replorigin_session_origin r' = replorigin_session_origin r"
proof -
  have "applying (call c r)" "length (held (call c r) @ put_aside (effects st)) \<le> 1"
    using assms(3,5) held_length [of "call c r"] by (simp_all add: applying_def)
  with run_text_outcome [OF assms(4), of "call c r" env] obtain r1 where
      "run_text env (effects st) (call c r) = Inr r1" "runs_as env (effects st) (call c r) r1"
    by (auto simp: outcome_def)
  then show thesis
    using that [of "r1\<lparr>MtmCapturedDDL := None\<rparr>"] assms(1,2) by (simp add: run_captured_def runs_as_def)
qed


definition a_text :: "string \<Rightarrow> ract list" where
  "a_text body = [Statement (CreateSeqStmt []) [Change (Ch_insert a_table a_row)], Statement AlterEnumStmt [],
     Statement (DropStmt OBJECT_FUNCTION False False) [Statement Other_stmt [Next_value 16400 8]]]"

definition a_receiver_ddl :: receiver_ddl where
  "a_receiver_ddl = \<lparr>MtmCapturedDDL = None, DDLApplyInProgress = MTM_DDL_IN_PROGRESS_NOTHING, check_function_bodies = True,
     replorigin_session_origin = 1, executed_calls = [], session = a_session\<rparr>"


section \<open>The command in the log of the receiver\<close>

fun rows_only :: "ract list \<Rightarrow> bool" where
  "rows_only [] = True"
| "rows_only (Statement st inner # rs) = (rows_only inner \<and> rows_only rs)"
| "rows_only (Change ch # rs) = (is_row ch \<and> rows_only rs)"
| "rows_only (_ # rs) = rows_only rs"

lemma utility_keeps:
  assumes "MtmProcessUtilityReceiver env st run r = Inr r'" and "\<And>st' r1. run st' r1 = Inr r' \<Longrightarrow> logs P (session r1) (session r')"
  shows "logs P (session r) (session r')"
proof -
  have "logs P (session r) (session r')" if "capture st r = Inr r'" for st
    using that by (auto simp: capture_def logs_def split: if_splits)
  moreover have "logs P (session r) (session r')" if "run st' (r\<lparr>check_function_bodies := False\<rparr>) = Inr r'" for st'
    using assms(2) [OF that] by simp
  ultimately show ?thesis
    using assms by (cases st) (auto simp: MtmProcessUtilityReceiver_def split: if_splits)
qed

lemma run_text_silent: "run_text env rs r = Inr r' \<Longrightarrow> rows_only rs \<Longrightarrow> logs silent (session r) (session r')"
proof (induction env rs r arbitrary: r' rule: run_text.induct)
  case (1 env r)
  then show ?case by (simp add: logs_quiet)
next
  case (2 env st inner rs r)
  from "2.prems"(1) obtain r1 where
      r1: "MtmProcessUtilityReceiver env st (\<lambda>st r. run_text env inner (call (Standard_ProcessUtility st) r)) r = Inr r1"
      "run_text env rs r1 = Inr r'"
    by (auto simp: sbind_Inr_iff)
  have "logs silent (session r) (session r1)"
    by (rule utility_keeps [OF r1(1)]) (use "2.IH"(1) "2.prems"(2) in fastforce)
  with "2.IH"(2) [OF r1(2)] "2.prems"(2) show ?case using logs_trans by auto
next
  case (3 env ch rs r)
  have "logs silent (session r) (session (in_session (\<lambda>s. s\<lparr>wal := wal s @ [(True, ch)]\<rparr>) r))"
    using 3 by (simp add: logs_def silent_def)
  with 3 show ?case using logs_trans by auto
next
  case (4 env seqid nxt rs r)
  have "logs silent (session r) (session (in_session (MtmSeqNextvalHook env seqid nxt) r))"
    by (auto simp: logs_def MtmSeqNextvalHook_def LogLogicalMessage_def silent_def)
  with 4 show ?case using logs_trans by auto
next
  case (5 env m rs r)
  then show ?case by simp
qed

lemma run_captured_silent:
  assumes "run_captured env effects r = Inr r'" and "\<And>st. rows_only (effects st)"
  shows "logs silent (session r) (session r')"
proof (cases "MtmCapturedDDL r")
  case None
  with assms(1) show ?thesis by (simp add: run_captured_def logs_quiet)
next
  case (Some st)
  with assms(1) obtain c r1 where "run_text env (effects st) (call c r) = Inr r1" "r' = r1\<lparr>MtmCapturedDDL := None\<rparr>"
    by (auto simp: run_captured_def sbind_Inr_iff)
  with run_text_silent [OF this(1) assms(2)] show ?thesis by simp
qed

lemma apply_only_ready:
  "MtmApplyDDLMessage env spi effects body transactional r = Inr r' \<Longrightarrow> ready r"
  by (auto simp: MtmApplyDDLMessage_def Let_def ready_def split: if_splits)

text \<open>
  C21. A transactional command that a receiver has executed comes, at a node that recovers from the
  receiver's log, to the same command and nothing else: the rows, sequence values and nested
  statements it caused at the receiver are not sent a second time.
\<close>

theorem applied_command_forwarded:
  assumes "MtmApplyDDLMessage env spi effects body True r = Inr r'"
    and "rows_only (spi body)" and "\<And>st. rows_only (effects st)"
  shows "\<exists>new. wal (session r') = wal (session r) @ new \<and> \<not> foldl ddl_after False (txc new) \<and>
    txn_ops cat cat' lcl False (txc new) = [DDL True (c_bytes body)]"
proof -
  from assms(1) obtain r1 r2 where r: "run_text env (spi body) (entered env body True r) = Inr r1"
      "run_captured env effects r1 = Inr r2" "r' = left env True r2"
    using apply_ready [OF apply_only_ready [OF assms(1)]] by (auto simp: sbind_Inr_iff)
  have "logs silent (session (entered env body True r)) (session r2)"
    by (rule logs_trans [OF run_text_silent [OF r(1) assms(2)] run_captured_silent [OF r(2) assms(3)]])
  then obtain new where new: "wal (session r2) = wal (session (entered env body True r)) @ new" "list_all silent (txc new)"
    by (auto simp: logs_def)
  let ?d = "Ch_message (dd_lsn env (length (wal (session r)))) CHR ''D'' (Text (c_bytes body))"
  let ?e = "Ch_message (dd_lsn env (length (wal (session r2)))) CHR ''E'' (Text (c_bytes []))"
  have "wal (session r') = wal (session r) @ (True, ?d) # new @ [(True, ?e)]"
    using r(3) new(1) by (simp add: left_def entered_def MtmFinishDDLCommand_def LogLogicalMessage_def)
  moreover note silent_ops [OF new(2), of cat cat' lcl]
  ultimately show ?thesis
    by (intro exI [of _ "(True, ?d) # new @ [(True, ?e)]"]) (simp add: txn_ops_append)
qed

theorem applied_command_forwarded_witness:
  "\<exists>r' new. MtmApplyDDLMessage a_session_env a_text (\<lambda>_. []) ''ALTER TYPE'' True a_receiver_ddl = Inr r' \<and>
     wal (session r') = new \<and> txn_ops a_catalogue a_catalogue (\<lambda>_. False) False (txc new) = [DDL True (c_bytes ''ALTER TYPE'')]"
proof -
  obtain r' where r': "MtmApplyDDLMessage a_session_env a_text (\<lambda>_. []) ''ALTER TYPE'' True a_receiver_ddl = Inr r'"
    by (simp add: MtmApplyDDLMessage_def Let_def a_receiver_ddl_def a_text_def InvalidRepOriginId_def a_session_env_def
      MtmProcessUtilityReceiver_def capture_def run_captured_def)
  have "wal (session a_receiver_ddl) = []" by (simp add: a_receiver_ddl_def a_session_def)
  with applied_command_forwarded [OF r', of a_catalogue a_catalogue "\<lambda>_. False"] r' show ?thesis
    by (auto simp: a_text_def)
qed

section \<open>Remote functions\<close>

text \<open>
  The names in the setting are separated by commas; each is resolved to the functions of that name,
  an unknown one to none. The function that changes sequences is always among them.
\<close>

fun split_names :: "string \<Rightarrow> string list" where
  "split_names [] = [[]]"
| "split_names (c # cs) =
     (if c = CHR '','' then [] # split_names cs
      else case split_names cs of [] \<Rightarrow> [[c]] | n # ns \<Rightarrow> (c # n) # ns)"

definition MtmInitializeRemoteFunctionsMap :: "(string \<Rightarrow> Oid list) \<Rightarrow> string \<Rightarrow> Oid list" where
  "MtmInitializeRemoteFunctionsMap FuncnameGetCandidates lst =
     foldl (\<lambda>h oid. List.insert oid h) [] (concat (map FuncnameGetCandidates (split_names lst)) @
       (case FuncnameGetCandidates ''mtm.alter_sequences'' of [] \<Rightarrow> [] | oid # _ \<Rightarrow> [oid]))"

datatype node = FuncExpr Oid "node list" | Expr "node list"

datatype plan = Plan "node list" "plan list"

fun targetList_walker :: "Oid list \<Rightarrow> node \<Rightarrow> bool" where
  "targetList_walker h (FuncExpr funcid args) = (funcid \<in> set h \<or> list_ex (targetList_walker h) args)"
| "targetList_walker h (Expr args) = list_ex (targetList_walker h) args"

fun search_for_remote_functions :: "Oid list \<Rightarrow> plan \<Rightarrow> bool" where
  "search_for_remote_functions h (Plan targetlist plans) =
     (list_ex (targetList_walker h) targetlist \<or> list_ex (search_for_remote_functions h) plans)"

fun functions_in :: "node \<Rightarrow> Oid set" where
  "functions_in (FuncExpr funcid args) = insert funcid (\<Union>(set (map functions_in args)))"
| "functions_in (Expr args) = \<Union>(set (map functions_in args))"

fun targets_of :: "plan \<Rightarrow> node set" where
  "targets_of (Plan targetlist plans) = set targetlist \<union> \<Union>(set (map targets_of plans))"

lemma set_insert_all: "set (foldl (\<lambda>h x. List.insert x h) h xs) = set h \<union> set xs"
  by (induction xs arbitrary: h) auto

lemma walker_finds: "targetList_walker h n \<longleftrightarrow> functions_in n \<inter> set h \<noteq> {}"
  by (induction n) (auto simp: list_ex_iff)

lemma search_finds: "search_for_remote_functions h p \<longleftrightarrow> (\<exists>n \<in> targets_of p. functions_in n \<inter> set h \<noteq> {})"
  by (induction p) (auto simp: list_ex_iff walker_finds)

text \<open>A query is sent exactly when a function of the setting is called in a target list of its plan.\<close>

theorem remote_query:
  "search_for_remote_functions (MtmInitializeRemoteFunctionsMap FuncnameGetCandidates lst) p \<longleftrightarrow>
   (\<exists>n \<in> targets_of p. \<exists>oid \<in> functions_in n. (\<exists>name \<in> set (split_names lst). oid \<in> set (FuncnameGetCandidates name)) \<or>
     (\<exists>rest. FuncnameGetCandidates ''mtm.alter_sequences'' = oid # rest))"
  by (cases "FuncnameGetCandidates ''mtm.alter_sequences''") (auto simp: search_finds MtmInitializeRemoteFunctionsMap_def set_insert_all)

end
