(* ===== verification/Spec2Isabelle.thy ===== *)
theory Spec2Isabelle
  imports Nodemask Bkb C_Strings Global_Tx Messaging Mtm_Config Mtm_State Connectivity Gen_Safety
    Prepare_Barrier State_Disk Replier Resolver Commit Apply_Commit Vote_System Dmq_Stream Dmq_Sender Gather Bgwpool
    Syncpoint_Forward Ddl_Apply
begin

text \<open>
  Verification of the multimaster extension (\<open>src/src\<close>): a Postgres cluster in which every node
  takes writes. A transaction runs at one node; its changes are decoded from the log, streamed to the
  others and applied there, and it commits by a vote. When nodes fail, the others elect a generation,
  the set of nodes that may commit, and finish what the failed coordinators left behind.

  \<^bold>\<open>Foundations.\<close> \<open>Mtm_Prelude\<close> has the types and limits of C used by the sources, the rule
  collections, and two locales: \<open>inductive_invariant\<close> (a property kept by each step of a step relation
  holds in every reachable state) and \<open>forward_simulation\<close>, which extends it (each step of a system is
  matched by steps of its specification). \<open>Nodemask\<close> has the masks and quorums of
  \<open>multimaster.h\<close>/\<open>multimaster.c\<close>, \<open>C_Strings\<close> the printing and scanning the sources do,
  \<open>Mtm_Config\<close> the loading and reloading of the cluster configuration, \<open>Messaging\<close> the messages of
  \<open>messaging.h\<close>
  with a round trip through their packing.

  \<^bold>\<open>Generations\<close> (\<open>state.c\<close>, \<open>bkb.c\<close>).
  \<^item> \<open>Bkb\<close>, \<open>Connectivity\<close>: the Bron-Kerbosch search and the clique a node campaigns with. The
    search returns a clique of maximal size.
  \<^item> \<open>Mtm_State\<close>: \<open>MtmState\<close> as a record, with each handler of switching, voting, campaigning,
    the referee and the reactions to the message queue as one function on it that also gives the
    list of effects (saves, log records, messages). A handler runs under its lock and is one step.
  \<^item> \<open>Gen_Invariants\<close>: the invariant of one node and that its handlers keep it; the locale
    \<open>promise_keeper\<close>, interpreted on the vote handler, gives that a vote is never taken back.
  \<^item> \<open>Gen_Cluster\<close>, \<open>Gen_Safety\<close>: the nodes with messages that may be lost, repeated and reordered.
    A number is elected once, donors have all data of earlier generations, a switch never fails.
  \<^item> \<open>Prepare_Barrier\<close> excludes preparing during a switch (an interpretation of
    \<open>inductive_invariant\<close>) and lets preparers continue; \<open>State_Disk\<close>: whatever the moment of a
    crash, the state file holds the old or the new state.

  \<^bold>\<open>Commit and recovery of transactions\<close> (\<open>commit.c\<close>, \<open>global_tx.c\<close>, \<open>resolver.c\<close>, \<open>state.c\<close>,
  \<open>pglogical_apply.c\<close>).
  \<^item> \<open>Gid\<close>, \<open>Global_Tx\<close>: identifiers and the table of transactions with its text form; the locale
    \<open>entry_lock\<close>, interpreted on the table, gives that an entry has one owner.
  \<^item> \<open>Xact_Node\<close> has the state of a node that the following share. \<open>Commit\<close> is the coordinator,
    \<open>Apply_Commit\<close> the participant, \<open>Replier\<close> answers the questions of others (with the scan of the
    log in batches), \<open>Resolver\<close> proposes outcomes for orphaned transactions.
  \<^item> \<open>Vote_Spec\<close> is an abstract voting protocol with its safety; \<open>Vote_System\<close> composes the routines
    of the four processes into a cluster and interprets \<open>forward_simulation\<close> to show that it
    implements the specification. Hence no transaction is committed at one node and aborted at another.

  \<^bold>\<open>Message queue and workers\<close> (\<open>dmq.c\<close>, \<open>multimaster.c\<close>, \<open>bgwpool.c\<close>).
  \<^item> \<open>Dmq\<close>, \<open>Dmq_Stream\<close>, \<open>Dmq_Sender\<close>: subscriptions and queues, reassembly of messages from
    arbitrary pieces of bytes, and the sender, whose connection counters reveal each loss
    (\<open>inductive_invariant\<close> again). \<open>Gather\<close>: collecting one answer of each node; it returns.
  \<^item> \<open>Txlist\<close>, \<open>Bgwpool\<close>: the doubly linked list in an array as a list, and the ring buffer of
    work as a queue.

  \<^bold>\<open>Replication\<close> (\<open>pglogical_*.c\<close>, \<open>syncpoint.c\<close>, \<open>spill.c\<close>, \<open>ddl.c\<close>).
  \<^item> \<open>Pglogical_Proto\<close> writes, \<open>Pglogical_Output\<close> decides what is written, \<open>Pglogical_Receiver\<close>
    filters, collects and spills, \<open>Pglogical_Apply\<close> reads and asks Postgres to act. \<open>Pglogical_Trip\<close>
    relates records to steps of the applier, \<open>Pglogical_Replay\<close> gives the whole way: a transaction is
    skipped or applied once with the changes it had.
  \<^item> \<open>Syncpoint\<close>, \<open>Syncpoint_Forward\<close>: synchronization points and the filter of what was applied.
  \<^item> \<open>Ddl\<close>, \<open>Ddl_Apply\<close>: which statements become commands, with the settings of the session, and how
    a receiver executes and logs them.

  This theory joins \<open>Commit\<close> and \<open>Gather\<close>: a commit that goes through has the answers of enough
  nodes, collected from the queue.

  \<^bold>\<open>How the code is rendered.\<close> Structures are records, failing assertions and errors are values of a
  sum type, machine integers are words where their width matters. Loops over data are recursive
  functions; the clique search ends because its segment of candidates shrinks. Loops that wait for the
  environment take the list of what the environment does in each round (\<open>gather\<close>, the message loops,
  the sender, the scans of the log, which end with the records there are) and say in their result when
  the rounds are used up. The loop of the applier and the walk through the list of transactions might
  not end on damaged data: they are partial functions to an option, and the properties show that they
  give a result.

  \<^bold>\<open>Parameters.\<close> Code outside of the repository is an argument with its documented behaviour as a
  hypothesis: the \<open>pqformat\<close> codecs (\<open>pq_ok\<close>, \<open>proto_ok\<close>) and the writes of logical decoding
  (\<open>plugin_ok\<close>), the checksum of the state file, the catalogue and the type functions, the answers of
  Postgres to a request of the applier (\<open>pg_accepts\<close>), log records, files, rows of the extension's tables,
  and what executing a statement causes. The witnesses instantiate them with concrete functions.

  \<^bold>\<open>Not modelled.\<close> Shared memory set-up, process control and latches, libpq, the monitor and the SQL
  functions of \<open>multimaster.c\<close> and \<open>state.c\<close>, the negotiation of options (\<open>pglogical_config.c\<close>, the
  start-up of \<open>pglogical_output.c\<close>), \<open>ddd.c\<close>, whose decisions rest on the lock table of Postgres,
  \<open>mtm_utils.c\<close>, and cursors, whose queries overlap other statements without nesting. Handlers that
  hold a lock are atomic; code that reads without a lock reads one state.
\<close>

section \<open>The commit sequence over the message queue\<close>

text \<open>
  The two rounds of a commit take their messages from \<open>gather\<close>. Each node puts its own number in
  its answers: what is read from the queue of a node names that node.
\<close>

definition prepare_responses :: "(MtmMessage \<times> nat) list \<Rightarrow> MtmPrepareResponse list" where
  "prepare_responses got = List.map_filter (\<lambda>(m, _). case m of T_MtmPrepareResponse x \<Rightarrow> Some x | _ \<Rightarrow> None) got"

definition twoa_responses :: "(MtmMessage \<times> nat) list \<Rightarrow> Mtm2AResponse list" where
  "twoa_responses got = List.map_filter (\<lambda>(m, _). case m of T_Mtm2AResponse x \<Rightarrow> Some x | _ \<Rightarrow> None) got"

definition signer :: "MtmMessage \<Rightarrow> int option" where
  "signer m = (case m of T_MtmPrepareResponse x \<Rightarrow> Some (pr_node_id x) | T_Mtm2AResponse x \<Rightarrow> Some (a2_node_id x) | _ \<Rightarrow> None)"

definition signed :: "pqformat \<Rightarrow> dmq_local \<Rightarrow> round list \<Rightarrow> bool" where
  "signed pq loc rounds \<longleftrightarrow> (\<forall>m p. came_from pq loc rounds m p \<longrightarrow> signer m = None \<or> signer m = Some (int p + 1))"

lemma map_filter_positions:
  assumes "\<forall>(m, p) \<in> set got. \<exists>x. sel m = Some x \<and> nid x = int p + 1"
  shows "map (\<lambda>m. pos (nid m)) (List.map_filter (\<lambda>(m, _). sel m) got) = map snd got"
  using assms by (induction got) (auto simp: map_filter_simps)

text \<open>What the hook lets through and the peer signs has at most one answer per node.\<close>

lemma gathered_distinct:
  assumes "gather pq my_procno hook cnt gen_num rounds cohort loc = Gathered b got loc'" and "local_ok loc"
    and "signed pq loc rounds" and "\<forall>p. bit cohort p \<longrightarrow> p < MTM_MAX_NODES"
    and "\<And>m. hook m \<Longrightarrow> \<exists>x. sel m = Some x \<and> signer m = Some (nid x)"
  shows "from_distinct nid cohort (List.map_filter (\<lambda>(m, _). sel m) got)"
    and "\<And>x. x \<in> set (List.map_filter (\<lambda>(m, _). sel m) got) \<Longrightarrow> \<exists>m. sel m = Some x \<and> hook m \<and> came_from pq loc rounds m (pos (nid x))"
proof -
  note g = gather_loop_ends [OF assms(1) [unfolded gather_def] agree_refl [OF assms(2)]]
  then have got: "distinct (map snd got)" "\<forall>(m, p) \<in> set got. bit cohort p \<and> hook m \<and> came_from pq loc rounds m p"
    by auto
  have s: "\<forall>(m, p) \<in> set got. \<exists>x. sel m = Some x \<and> nid x = int p + 1"
  proof clarify
    fix m p
    assume "(m, p) \<in> set got"
    with got(2) have h: "hook m" "came_from pq loc rounds m p" by auto
    from assms(5) [OF h(1)] obtain x where "sel m = Some x" "signer m = Some (nid x)" by blast
    with assms(3) h(2) show "\<exists>x. sel m = Some x \<and> nid x = int p + 1" unfolding signed_def by force
  qed
  note e = map_filter_positions [OF this]
  have "(\<lambda>m. pos (nid m)) ` set (List.map_filter (\<lambda>(m, _). sel m) got) = snd ` set got"
    using arg_cong [OF e, of set] by simp
  moreover have "snd ` set got \<subseteq> nodes_of cohort" using got(2) assms(4) by (fastforce simp: nodes_of_def)
  ultimately show "from_distinct nid cohort (List.map_filter (\<lambda>(m, _). sel m) got)"
    unfolding from_distinct_def e using got(1) by simp
  show "\<exists>m. sel m = Some x \<and> hook m \<and> came_from pq loc rounds m (pos (nid x))" if "x \<in> set (List.map_filter (\<lambda>(m, _). sel m) got)" for x
  proof -
    from that obtain m p where m: "(m, p) \<in> set got" "sel m = Some x" by (auto simp: List.map_filter_def)
    with s have "nid x = int p + 1" by force
    with m got(2) show ?thesis by force
  qed
qed

lemma gathered_prepares:
  assumes "gather pq my_procno (PrepareGatherHook xid) cnt gen_num rounds cohort loc = Gathered b got loc'" and "local_ok loc"
    and "signed pq loc rounds" and "\<forall>p. bit cohort p \<longrightarrow> p < MTM_MAX_NODES"
  shows "from_distinct pr_node_id cohort (prepare_responses got)"
    and "x \<in> set (prepare_responses got) \<Longrightarrow> came_from pq loc rounds (T_MtmPrepareResponse x) (pos (pr_node_id x)) \<and> pr_xid x = xid"
proof -
  let ?p = "\<lambda>m. case m of T_MtmPrepareResponse x \<Rightarrow> Some x | _ \<Rightarrow> None"
  have h: "\<exists>x. ?p m = Some x \<and> signer m = Some (pr_node_id x)" if "PrepareGatherHook xid m" for m
    using that by (auto simp: PrepareGatherHook_def signer_def split: MtmMessage.splits)
  note g = gathered_distinct [OF assms h]
  show "from_distinct pr_node_id cohort (prepare_responses got)" unfolding prepare_responses_def by (rule g(1))
  assume "x \<in> set (prepare_responses got)"
  from g(2) [OF _ this [unfolded prepare_responses_def]]
  obtain m where m: "?p m = Some x" "PrepareGatherHook xid m" "came_from pq loc rounds m (pos (pr_node_id x))" by auto
  from m(1) have "m = T_MtmPrepareResponse x" by (cases m) auto
  with m show "came_from pq loc rounds (T_MtmPrepareResponse x) (pos (pr_node_id x)) \<and> pr_xid x = xid"
    by (simp add: PrepareGatherHook_def)
qed

lemma gathered_precommits:
  assumes "gather pq my_procno (Paxos2AGatherHook g) cnt gen_num rounds cohort loc = Gathered b got loc'" and "local_ok loc"
    and "signed pq loc rounds" and "\<forall>p. bit cohort p \<longrightarrow> p < MTM_MAX_NODES"
  shows "from_distinct a2_node_id cohort (twoa_responses got)"
    and "x \<in> set (twoa_responses got) \<Longrightarrow> came_from pq loc rounds (T_Mtm2AResponse x) (pos (a2_node_id x)) \<and> a2_gid x = g"
proof -
  let ?a = "\<lambda>m. case m of T_Mtm2AResponse x \<Rightarrow> Some x | _ \<Rightarrow> None"
  have h: "\<exists>x. ?a m = Some x \<and> signer m = Some (a2_node_id x)" if "Paxos2AGatherHook g m" for m
    using that by (auto simp: Paxos2AGatherHook_def signer_def split: MtmMessage.splits)
  note d = gathered_distinct [OF assms h]
  show "from_distinct a2_node_id cohort (twoa_responses got)" unfolding twoa_responses_def by (rule d(1))
  assume "x \<in> set (twoa_responses got)"
  from d(2) [OF _ this [unfolded twoa_responses_def]]
  obtain m where m: "?a m = Some x" "Paxos2AGatherHook g m" "came_from pq loc rounds m (pos (a2_node_id x))" by auto
  from m(1) have "m = T_Mtm2AResponse x" by (cases m) auto
  with m show "came_from pq loc rounds (T_Mtm2AResponse x) (pos (a2_node_id x)) \<and> a2_gid x = g"
    by (simp add: Paxos2AGatherHook_def)
qed

text \<open>
  C12. A transaction commits only while this node is online in the current generation, when from
  the queue of every other member of that generation it has read an acknowledgement that the member
  prepared this very transaction, and, unless the referee gave this node the cluster, when it has
  read the precommit of so many nodes that with this one they are a majority of all configured nodes.
\<close>

theorem commit_needs_votes:
  assumes run: "MtmTwoPhaseCommit b me garbage fl xid others1 others2
      (pr, prepare_responses got1) (cr, twoa_responses got2) s st = Inr (Done pc, st')"
    and cohort: "cohort = BIT_CLEAR (members (MtmGetCurrentGen s)) (pos me)" "\<forall>p. bit cohort p \<longrightarrow> p < MTM_MAX_NODES"
    and "gather pq my_procno (PrepareGatherHook xid) cnt1 gnum1 rounds1 cohort loc1 = Gathered pr got1 loc1'"
    and "gather pq my_procno (Paxos2AGatherHook g) cnt2 gnum2 rounds2 cohort loc2 = Gathered cr got2 loc2'"
    and "local_ok loc1" and "local_ok loc2" and "signed pq loc1 rounds1" and "signed pq loc2 rounds2"
  shows "MtmGetCurrentStatusInGen me s = Some MTM_GEN_ONLINE \<and>
    (\<forall>i \<in> nodes_of (members (MtmGetCurrentGen s)) - {pos me}.
       \<exists>x. came_from pq loc1 rounds1 (T_MtmPrepareResponse x) i \<and> pr_prepared x \<and> pr_xid x = xid) \<and>
    (IS_REFEREE_GEN (members (MtmGetCurrentGen s)) (configured (MtmGetCurrentGen s)) \<or>
     (\<exists>V \<subseteq> nodes_of (members (MtmGetCurrentGen s)) - {pos me}.
        (\<forall>i \<in> V. \<exists>x. came_from pq loc2 rounds2 (T_Mtm2AResponse x) i \<and> good_2b x \<and> a2_gid x = g) \<and>
        Quorum (popcount (configured (MtmGetCurrentGen s))) (1 + card V)))"
proof -
  note P = gathered_prepares [OF assms(4,6,8) cohort(2)] and A = gathered_precommits [OF assms(5,7,9) cohort(2)]
  note v = commit_votes [OF run P(1) [unfolded cohort(1)] A(1) [unfolded cohort(1)]]
  show ?thesis
  proof (intro conjI ballI)
    show "MtmGetCurrentStatusInGen me s = Some MTM_GEN_ONLINE" using v by (rule conjunct1)
    show "\<exists>x. came_from pq loc1 rounds1 (T_MtmPrepareResponse x) i \<and> pr_prepared x \<and> pr_xid x = xid"
      if "i \<in> nodes_of (members (MtmGetCurrentGen s)) - {pos me}" for i
      using bspec [OF conjunct1 [OF conjunct2 [OF v]] that] P(2) by blast
    have w: "\<exists>x. came_from pq loc2 rounds2 (T_Mtm2AResponse x) i \<and> good_2b x \<and> a2_gid x = g"
      if V: "\<forall>i \<in> V. \<exists>m \<in> set (twoa_responses got2). pos (a2_node_id m) = i \<and> good_2b m" and "i \<in> V" for V i
    proof -
      from V \<open>i \<in> V\<close> obtain m where "m \<in> set (twoa_responses got2)" "pos (a2_node_id m) = i" "good_2b m" by blast
      with A(2) [of m] show ?thesis by blast
    qed
    show "IS_REFEREE_GEN (members (MtmGetCurrentGen s)) (configured (MtmGetCurrentGen s)) \<or>
     (\<exists>V \<subseteq> nodes_of (members (MtmGetCurrentGen s)) - {pos me}.
        (\<forall>i \<in> V. \<exists>x. came_from pq loc2 rounds2 (T_Mtm2AResponse x) i \<and> good_2b x \<and> a2_gid x = g) \<and>
        Quorum (popcount (configured (MtmGetCurrentGen s))) (1 + card V))"
      using conjunct2 [OF conjunct2 [OF v]] by (elim disjE exE conjE) (blast, metis w)
  qed
qed

text \<open>
  Node 1 commits with the acknowledgements of nodes 2 and 3 and the precommit of node 3; before the
  second round it has lost its handle for node 2.
\<close>

definition prepare_answers :: "nat \<Rightarrow> bytes shm_mq_result" where
  "prepare_answers i = SHM_MQ_SUCCESS (MtmMessagePack network_pq (T_MtmPrepareResponse (prepared_by (if i = 0 then 2 else 3))))"

definition precommit_answers :: "nat \<Rightarrow> bytes shm_mq_result" where
  "precommit_answers i = (if i = 0 then SHM_MQ_DETACHED
     else SHM_MQ_SUCCESS (MtmMessagePack network_pq (T_Mtm2AResponse (precommitted_by 3))))"

definition one_left :: dmq_local where
  "one_left = two_handles\<lparr>inhandles := (inhandles two_handles)[0 := no_handle]\<rparr>"

lemma one_left_ok: "local_ok one_left"
  unfolding local_ok_def all_less_10 by code_simp

lemma sample_unpack:
  "MtmMessageUnpack network_pq (MtmMessagePack network_pq (T_MtmPrepareResponse (prepared_by 2))) = Some (T_MtmPrepareResponse (prepared_by 2))"
  "MtmMessageUnpack network_pq (MtmMessagePack network_pq (T_MtmPrepareResponse (prepared_by 3))) = Some (T_MtmPrepareResponse (prepared_by 3))"
  "MtmMessageUnpack network_pq (MtmMessagePack network_pq (T_Mtm2AResponse (precommitted_by 3))) = Some (T_Mtm2AResponse (precommitted_by 3))"
proof -
  have "msg_ok (T_MtmPrepareResponse (prepared_by 2))" "msg_ok (T_MtmPrepareResponse (prepared_by 3))"
    "msg_ok (T_Mtm2AResponse (precommitted_by 3))"
    by (simp_all add: prepared_by_def precommitted_by_def) code_simp+
  then show "MtmMessageUnpack network_pq (MtmMessagePack network_pq (T_MtmPrepareResponse (prepared_by 2))) = Some (T_MtmPrepareResponse (prepared_by 2))"
    "MtmMessageUnpack network_pq (MtmMessagePack network_pq (T_MtmPrepareResponse (prepared_by 3))) = Some (T_MtmPrepareResponse (prepared_by 3))"
    "MtmMessageUnpack network_pq (MtmMessagePack network_pq (T_Mtm2AResponse (precommitted_by 3))) = Some (T_Mtm2AResponse (precommitted_by 3))"
    by (simp_all add: unpack_pack [OF network_pq_ok])
qed

lemma sample_masks:
  "BIT_CLEAR 6 (Suc 0) = (4 :: nodemask_t)" "BIT_CLEAR 4 2 = (0 :: nodemask_t)" "BIT_CLEAR 6 2 = (2 :: nodemask_t)" "BIT_CLEAR 2 (Suc 0) = (0 :: nodemask_t)"
  "BIT_CHECK 6 (Suc 0)" "\<not> BIT_CHECK 4 (Suc 0)" "BIT_CHECK 4 2" "BIT_CHECK 6 2" "\<not> BIT_CHECK 2 2" "first_set_bit 2 = 1"
  by code_simp+

lemma sample_rounds:
  "gather network_pq 1 (PrepareGatherHook 700) None 1 [delivering prepare_answers, delivering prepare_answers] 6 two_handles =
     Gathered True [(T_MtmPrepareResponse (prepared_by 2), 1), (T_MtmPrepareResponse (prepared_by 3), 2)] two_handles"
  "gather network_pq 1 (Paxos2AGatherHook (MtmGenerateGid 1 700 1)) None 1 [delivering precommit_answers, delivering precommit_answers] 6 one_left =
     Gathered True [(T_Mtm2AResponse (precommitted_by 3), 2)] one_left"
proof -
  have h: "PrepareGatherHook 700 (T_MtmPrepareResponse (prepared_by n))" "Paxos2AGatherHook (MtmGenerateGid 1 700 1) (T_Mtm2AResponse (precommitted_by n))" for n
    by (simp_all add: PrepareGatherHook_def Paxos2AGatherHook_def prepared_by_def precommitted_by_def)
  have n: "[0..<2] = [0, Suc 0]" "n_inhandles two_handles = 2" "n_inhandles one_left = 2"
    "inhandles two_handles ! 0 = \<lparr>in_name = ''node2'', in_mqh = Some 5, in_mask_pos = 1\<rparr>"
    "inhandles two_handles ! Suc 0 = \<lparr>in_name = ''node3'', in_mqh = Some 6, in_mask_pos = 2\<rparr>"
    "inhandles one_left ! 0 = no_handle" "inhandles one_left ! Suc 0 = \<lparr>in_name = ''node3'', in_mqh = Some 6, in_mask_pos = 2\<rparr>"
    by (simp_all add: two_handles_def one_left_def upt_rec)
  note defs = gather_def gather_round_def dmq_pop_nb_def wanted_def handle_result_def delivering_def h sample_unpack sample_masks n
  show "gather network_pq 1 (PrepareGatherHook 700) None 1 [delivering prepare_answers, delivering prepare_answers] 6 two_handles =
     Gathered True [(T_MtmPrepareResponse (prepared_by 2), 1), (T_MtmPrepareResponse (prepared_by 3), 2)] two_handles"
    by (simp add: defs prepare_answers_def)
  show "gather network_pq 1 (Paxos2AGatherHook (MtmGenerateGid 1 700 1)) None 1 [delivering precommit_answers, delivering precommit_answers] 6 one_left =
     Gathered True [(T_Mtm2AResponse (precommitted_by 3), 2)] one_left"
    by (simp add: defs precommit_answers_def no_handle_def)
qed

lemma sample_signed:
  "signed network_pq two_handles [delivering prepare_answers, delivering prepare_answers]"
  "signed network_pq one_left [delivering precommit_answers, delivering precommit_answers]"
proof -
  have s: "signer (T_MtmPrepareResponse (prepared_by n)) = Some n" "signer (T_Mtm2AResponse (precommitted_by n)) = Some n" for n
    by (simp_all add: signer_def prepared_by_def precommitted_by_def)
  show "signed network_pq two_handles [delivering prepare_answers, delivering prepare_answers]"
    "signed network_pq one_left [delivering precommit_answers, delivering precommit_answers]"
    by (auto simp: signed_def came_from_def delivering_def prepare_answers_def precommit_answers_def two_handles_def one_left_def
        less_2_cases_iff sample_unpack s)
qed

theorem commit_needs_votes_witness:
  "\<exists>st'. MtmTwoPhaseCommit 4 1 zero_gtx sample_flags 700 (\<lambda>st. st) (\<lambda>st. st)
     (True, [prepared_by 2, prepared_by 3]) (True, [precommitted_by 3]) connected_state empty_node = Inr (Done 4, st') \<and>
   (\<exists>x. came_from network_pq two_handles [delivering prepare_answers, delivering prepare_answers] (T_MtmPrepareResponse x) 1 \<and> pr_xid x = 700)"
proof -
  let ?got1 = "[(T_MtmPrepareResponse (prepared_by 2), 1), (T_MtmPrepareResponse (prepared_by 3), 2)]"
  let ?got2 = "[(T_Mtm2AResponse (precommitted_by 3), 2)]"
  have e: "prepare_responses ?got1 = [prepared_by 2, prepared_by 3]" "twoa_responses ?got2 = [precommitted_by 3]"
    by (simp_all add: prepare_responses_def twoa_responses_def map_filter_simps)
  obtain st' where r: "MtmTwoPhaseCommit 4 1 zero_gtx sample_flags 700 (\<lambda>st. st) (\<lambda>st. st)
     (True, prepare_responses ?got1) (True, twoa_responses ?got2) connected_state empty_node = Inr (Done 4, st')"
    using sample_commit_done unfolding sample_commit_def e by blast
  have c: "(6 :: nodemask_t) = BIT_CLEAR (members (MtmGetCurrentGen connected_state)) (pos 1)" unfolding sample_members by code_simp
  have six: "(6 :: nodemask_t) = BIT_SET (BIT_SET 0 1) 2" by code_simp
  have "\<forall>p. bit (6 :: nodemask_t) p \<longrightarrow> p < MTM_MAX_NODES" unfolding six by (auto simp: bit_BIT_SET)
  from commit_needs_votes [OF r c this sample_rounds two_handles_ok one_left_ok sample_signed]
  have "\<forall>i \<in> nodes_of (BIT_CLEAR (members (MtmGetCurrentGen connected_state)) (pos 1)).
    \<exists>x. came_from network_pq two_handles [delivering prepare_answers, delivering prepare_answers] (T_MtmPrepareResponse x) i \<and> pr_xid x = 700"
    unfolding nodes_of_BIT_CLEAR by blast
  moreover have "1 \<in> nodes_of 6" unfolding six by (simp add: nodes_of_def bit_BIT_SET)
  ultimately show ?thesis using r unfolding e c [symmetric] by blast
qed

end
